(* ===== verification/Js_Prelude.thy ===== *)
theory Js_Prelude
  imports Main "HOL-Library.Word"
begin

text \<open>
  Shared vocabulary of the development: the integer fragment of the JavaScript number and
  bitwise operators, big-endian byte reads and writes on Node.js buffers, results with errors,
  and the generic lemmas on them that the component theories use.

  A JavaScript number that holds an integer of magnitude below \<open>2 ^ 53\<close> is modelled by
  the \<^typ>\<open>int\<close> it denotes; the sources this development models stay in that range
  wherever they compute with numbers. The bitwise operators first convert their operands with
  \<open>ToInt32\<close> or \<open>ToUint32\<close>; both conversions are written out below.
\<close>

unbundle bit_operations_syntax

named_theorems js_bits \<open>arithmetic readings of the JavaScript bitwise operators\<close>

section \<open>Errors as values\<close>

text \<open>The kinds of exception the modelled code throws.\<close>

datatype js_error =
    TypeError
  | RangeError
  | PlainError
  | SyntaxErr
  | ArgumentError
  | DriverError
  | NotSupportedError
  | ReferenceError

type_synonym 'a result = "js_error + 'a"

fun bind_result :: "'a result \<Rightarrow> ('a \<Rightarrow> 'b result) \<Rightarrow> 'b result" where
  "bind_result (Inl e) f = Inl e"
| "bind_result (Inr x) f = f x"

lemma bind_result_Inr_conv [simp]:
  "bind_result r f = Inr y \<longleftrightarrow> (\<exists>x. r = Inr x \<and> f x = Inr y)"
  by (cases r) auto

lemma bind_result_assoc:
  "bind_result (bind_result r f) g = bind_result r (\<lambda>x. bind_result (f x) g)"
  by (cases r) auto

section \<open>The JavaScript bitwise operators on integers\<close>

definition to_int32 :: "int \<Rightarrow> int" where
  "to_int32 x = signed_take_bit 31 x"

definition to_uint32 :: "int \<Rightarrow> int" where
  "to_uint32 x = take_bit 32 x"

definition js_and :: "int \<Rightarrow> int \<Rightarrow> int" where
  "js_and a b = to_int32 a AND to_int32 b"

definition js_or :: "int \<Rightarrow> int \<Rightarrow> int" where
  "js_or a b = to_int32 a OR to_int32 b"

definition js_xor :: "int \<Rightarrow> int \<Rightarrow> int" where
  "js_xor a b = to_int32 a XOR to_int32 b"

definition js_not :: "int \<Rightarrow> int" where
  "js_not a = NOT (to_int32 a)"

text \<open>\<open>a << n\<close>, \<open>a >> n\<close> and \<open>a >>> n\<close>; the shift count is taken modulo 32.\<close>

definition js_shl :: "int \<Rightarrow> nat \<Rightarrow> int" where
  "js_shl a n = to_int32 (push_bit (n mod 32) a)"

definition js_sar :: "int \<Rightarrow> nat \<Rightarrow> int" where
  "js_sar a n = drop_bit (n mod 32) (to_int32 a)"

definition js_shr :: "int \<Rightarrow> nat \<Rightarrow> int" where
  "js_shr a n = drop_bit (n mod 32) (to_uint32 a)"

lemmas js_bit_defs =
  js_and_def js_or_def js_xor_def js_not_def js_shl_def js_sar_def js_shr_def
  to_int32_def to_uint32_def

subsection \<open>Conversions\<close>

lemma to_uint32_mod: "to_uint32 x = x mod 4294967296"
  by (simp add: to_uint32_def take_bit_eq_mod)

lemma to_int32_mod: "to_int32 x = (x + 2147483648) mod 4294967296 - 2147483648"
  by (simp add: to_int32_def signed_take_bit_eq_take_bit_shift take_bit_eq_mod)

lemma to_int32_id [simp]: "- 2147483648 \<le> x \<Longrightarrow> x < 2147483648 \<Longrightarrow> to_int32 x = x"
  by (simp add: to_int32_mod)

lemma to_uint32_id [simp]: "0 \<le> x \<Longrightarrow> x < 4294967296 \<Longrightarrow> to_uint32 x = x"
  by (simp add: to_uint32_mod)

lemma to_uint32_neg: "- 2147483648 \<le> x \<Longrightarrow> x < 0 \<Longrightarrow> to_uint32 x = x + 4294967296"
  using mod_add_self2 [of x 4294967296] mod_pos_pos_trivial [of "x + 4294967296" 4294967296]
  by (simp only: to_uint32_mod)

lemma to_int32_range: "- 2147483648 \<le> to_int32 x \<and> to_int32 x < 2147483648"
  by (simp add: to_int32_mod)

lemma to_uint32_range [simp]: "0 \<le> to_uint32 x" "to_uint32 x < 4294967296"
  by (simp_all add: to_uint32_mod)

lemma to_uint32_to_int32 [simp]: "to_uint32 (to_int32 x) = to_uint32 x"
  by (simp add: to_uint32_def to_int32_def take_bit_signed_take_bit)

lemma to_int32_to_uint32 [simp]: "to_int32 (to_uint32 x) = to_int32 x"
  by (rule bit_eqI) (simp add: to_uint32_def to_int32_def bit_simps min_def)

lemma to_int32_idem [simp]: "to_int32 (to_int32 x) = to_int32 x"
  by (simp add: to_int32_def)

lemma to_int32_take_bit [simp]: "n \<le> 32 \<Longrightarrow> take_bit n (to_int32 x) = take_bit n x"
  by (simp add: to_int32_def take_bit_signed_take_bit)

lemma to_int32_mod_small [simp]:
  "to_int32 x mod 65536 = x mod 65536" "to_int32 x mod 256 = x mod 256"
  using to_int32_take_bit [of 16 x] to_int32_take_bit [of 8 x]
  by (simp_all add: take_bit_eq_mod)

subsection \<open>Masks, shifts and disjoint unions as arithmetic\<close>

lemma js_and_mask: "n \<le> 31 \<Longrightarrow> js_and x (2 ^ n - 1) = x mod 2 ^ n"
proof -
  assume n: "n \<le> 31"
  have "(2::int) ^ n \<le> 2147483648" using n power_increasing [of n 31 "2::int"] by simp
  moreover have "(1::int) \<le> 2 ^ n" by simp
  ultimately have "to_int32 (2 ^ n - 1) = 2 ^ n - 1" by (intro to_int32_id) linarith+
  then have "js_and x (2 ^ n - 1) = take_bit n (to_int32 x)"
    by (simp add: js_and_def take_bit_eq_mask mask_eq_exp_minus_1)
  then show ?thesis using n by (simp add: take_bit_eq_mod [symmetric])
qed

lemma js_and_masks [js_bits]:
  "js_and x 65535 = x mod 65536" "js_and x 255 = x mod 256"
  "js_and x 15 = x mod 16" "js_and x 63 = x mod 64" "js_and x 127 = x mod 128"
  using js_and_mask [of 16 x] js_and_mask [of 8 x] js_and_mask [of 4 x] js_and_mask [of 6 x]
    js_and_mask [of 7 x]
  by simp_all

lemma js_shr_div [js_bits]: "n < 32 \<Longrightarrow> js_shr x n = (x mod 4294967296) div 2 ^ n"
  by (simp add: js_shr_def to_uint32_mod drop_bit_eq_div)

lemma js_sar_div [js_bits]:
  "n < 32 \<Longrightarrow> - 2147483648 \<le> x \<Longrightarrow> x < 2147483648 \<Longrightarrow> js_sar x n = x div 2 ^ n"
  by (simp add: js_sar_def drop_bit_eq_div)

lemma js_shl_mult: "n < 32 \<Longrightarrow> js_shl x n = to_int32 (x * 2 ^ n)"
  by (simp add: js_shl_def push_bit_eq_mult)

lemma js_shl_mod [js_bits]: "n < 32 \<Longrightarrow> js_shl x n mod 65536 = (x * 2 ^ n) mod 65536"
  by (simp add: js_shl_mult)

lemma or_disjoint_add:
  fixes a b :: int
  assumes "0 \<le> b" and "b < 2 ^ n"
  shows "(a * 2 ^ n) OR b = a * 2 ^ n + b"
proof -
  have b: "take_bit n b = b" using assms by (simp add: take_bit_int_eq_self)
  have "\<not> bit (push_bit n a) k \<or> \<not> bit b k" for k
    using b by (metis bit_push_bit_iff bit_take_bit_iff linorder_not_less)
  then have "push_bit n a + b = push_bit n a OR b"
    by (intro disjunctive_add) auto
  then show ?thesis by (simp add: push_bit_eq_mult)
qed

lemma int32_or: "to_int32 (a OR b) = to_int32 a OR to_int32 b"
  by (rule bit_eqI) (simp add: to_int32_def bit_simps)

lemma js_or_int32: "js_or a b = to_int32 (a OR b)"
  by (simp add: js_or_def int32_or)

lemma js_or_disjoint:
  "0 \<le> b \<Longrightarrow> b < 2 ^ n \<Longrightarrow> js_or (a * 2 ^ n) b = to_int32 (a * 2 ^ n + b)"
  by (simp add: js_or_int32 or_disjoint_add)

lemma or_pieces:
  assumes "0 \<le> a" and "a < 65536" and "0 \<le> b" and "b < 65536"
  shows "js_or (js_shl b 16) a = to_int32 (b * 65536 + a)"
proof -
  have "js_or (js_shl b 16) a = js_or (b * 2 ^ 16) a"
    by (simp add: js_shl_mult js_or_int32 int32_or)
  then show ?thesis using js_or_disjoint [of a 16 b] assms by simp
qed

lemma js_or_commute: "js_or a b = js_or b a"
  by (simp add: js_or_def or.commute)

lemma js_shr_0: "js_shr x 0 = to_uint32 x"
  by (simp add: js_shr_def)

lemma js_not_eq [js_bits]:
  "- 2147483648 \<le> x \<Longrightarrow> x < 2147483648 \<Longrightarrow> js_not x = - x - 1"
  by (simp add: js_not_def not_int_def)

subsection \<open>Single bits\<close>

text \<open>The low 32 bits of every operator's result, bit by bit.\<close>

lemma bit_to_int32: "k < 32 \<Longrightarrow> bit (to_int32 x) k = bit x k"
  by (cases "k = 31") (auto simp: to_int32_def bit_simps min_def)

lemma bit_to_uint32: "bit (to_uint32 x) k \<longleftrightarrow> k < 32 \<and> bit x k"
  by (simp add: to_uint32_def bit_simps)

lemma bit_js_ops:
  assumes "k < 32"
  shows "bit (js_and a b) k \<longleftrightarrow> bit a k \<and> bit b k"
    and "bit (js_or a b) k \<longleftrightarrow> bit a k \<or> bit b k"
    and "bit (js_xor a b) k \<longleftrightarrow> bit a k \<noteq> bit b k"
    and "bit (js_not a) k \<longleftrightarrow> \<not> bit a k"
  using assms by (simp_all add: js_and_def js_or_def js_xor_def js_not_def bit_to_int32 bit_simps)

lemma bit_js_shifts:
  assumes "k < 32" and "n < 32"
  shows "bit (js_shl a n) k \<longleftrightarrow> n \<le> k \<and> bit a (k - n)"
    and "bit (js_shr a n) k \<longleftrightarrow> n + k < 32 \<and> bit a (n + k)"
  using assms by (simp_all add: js_shl_def js_shr_def bit_to_int32 bit_to_uint32 bit_simps)

lemma bit_disjoint_add:
  fixes a b :: int
  assumes "0 \<le> b" and "b < 2 ^ n"
  shows "bit (a * 2 ^ n + b) k \<longleftrightarrow> (if k < n then bit b k else bit a (k - n))"
proof -
  have b: "take_bit n b = b" using assms by (simp add: take_bit_int_eq_self)
  have "bit (a * 2 ^ n OR b) k \<longleftrightarrow> (n \<le> k \<and> bit a (k - n)) \<or> bit b k"
    by (simp add: bit_simps flip: push_bit_eq_mult)
  moreover have "bit b k \<Longrightarrow> k < n"
    using b by (metis bit_take_bit_iff)
  ultimately show ?thesis using or_disjoint_add [OF assms, of a] by auto
qed

lemma pos_div_less:
  fixes a x y :: int
  assumes "a < y * x" and "0 < x"
  shows "a div x < y"
proof (rule ccontr)
  assume "\<not> a div x < y"
  then have "y * x \<le> a div x * x" using assms(2) by (intro mult_right_mono) auto
  also have "\<dots> \<le> a" using div_mult_mod_eq [of a x] pos_mod_sign [OF assms(2), of a] by linarith
  finally show False using assms(1) by simp
qed

lemma base_split:
  fixes h l B :: int
  assumes "0 \<le> l" and "l < B"
  shows "(h * B + l) mod B = l" and "(h * B + l) div B = h"
  using assms by simp_all

lemma halves_of_uint32:
  "js_and (js_shr x 16) 65535 * 65536 + js_and x 65535 = to_uint32 x"
proof -
  have "to_uint32 x div 65536 < 65536" "0 \<le> to_uint32 x div 65536"
    using pos_div_less [of "to_uint32 x" 65536 65536] by (simp_all add: pos_imp_zdiv_nonneg_iff)
  moreover have "to_uint32 x mod 65536 = x mod 65536"
    by (simp add: to_uint32_mod mod_mod_cancel)
  ultimately show ?thesis
    using div_mult_mod_eq [of "to_uint32 x" 65536]
    by (simp add: js_and_masks js_shr_div to_uint32_mod [symmetric])
qed

lemma uint_drop_bit: "uint (drop_bit n w) = drop_bit n (uint w)"
  by (rule bit_eqI) (auto simp: bit_simps dest: bit_imp_le_length)

lemma bit_bounded_int:
  fixes b :: int
  assumes "0 \<le> b" and "b < 2 ^ n" and "bit b k"
  shows "k < n"
  using assms by (metis bit_take_bit_iff take_bit_int_eq_self)

lemma bits_bounded:
  fixes a :: int
  assumes "0 \<le> a" and "\<And>k. bit a k \<Longrightarrow> k < n"
  shows "a < 2 ^ n"
proof -
  have "take_bit n a = a" using assms(2) by (intro bit_eqI) (auto simp: bit_simps)
  then show ?thesis by (metis take_bit_int_less_exp)
qed

section \<open>Rounding to an IEEE double\<close>

text \<open>
  \<open>js_round\<close> is the double nearest to an integer (ties to an even significand): the value of a
  JavaScript addition or multiplication whose exact integer result is the argument, as long as
  that stays below the largest double.
\<close>

fun bit_length :: "nat \<Rightarrow> nat" where
  "bit_length n = (if n = 0 then 0 else Suc (bit_length (n div 2)))"

declare bit_length.simps [simp del]

definition round_mag :: "nat \<Rightarrow> nat" where
  "round_mag m =
    (if m \<le> 2 ^ 53 then m
     else let e = bit_length m - 53; q = m div 2 ^ e; r = m mod 2 ^ e;
              up = (2 * r > 2 ^ e \<or> (2 * r = 2 ^ e \<and> odd q))
          in (if up then q + 1 else q) * 2 ^ e)"

definition js_round :: "int \<Rightarrow> int" where
  "js_round x = (if x < 0 then - int (round_mag (nat (- x))) else int (round_mag (nat x)))"

lemma js_round_exact [simp]: "\<bar>x\<bar> \<le> 2 ^ 53 \<Longrightarrow> js_round x = x"
  by (auto simp: js_round_def round_mag_def)

text \<open>Numbers as the conversion functions see them.\<close>

datatype js_number = JsNaN | JsInfinity | JsInt int

section \<open>Strings and numerals\<close>

text \<open>
  A JavaScript string is modelled by the list of its code units; the texts handled here are
  ASCII or Latin-1, so a code unit is a \<^typ>\<open>char\<close>.
\<close>

definition char_code :: "char \<Rightarrow> nat" where
  "char_code c = of_char c"

definition is_js_space :: "char \<Rightarrow> bool" where
  "is_js_space c \<longleftrightarrow> char_code c \<in> {9, 10, 11, 12, 13, 32, 160}"

text \<open>\<open>trim()\<close> drops the white space at both ends.\<close>

definition js_trim :: "string \<Rightarrow> string" where
  "js_trim s = rev (dropWhile is_js_space (rev (dropWhile is_js_space s)))"

lemma js_trim_id: "s = [] \<or> (\<not> is_js_space (hd s) \<and> \<not> is_js_space (last s)) \<Longrightarrow> js_trim s = s"
proof -
  assume h: "s = [] \<or> (\<not> is_js_space (hd s) \<and> \<not> is_js_space (last s))"
  have "dropWhile is_js_space xs = xs" if "xs \<noteq> []" "\<not> is_js_space (hd xs)" for xs
    using that by (cases xs) simp_all
  from this [of s] this [of "rev s"] h show ?thesis by (cases "s = []") (simp_all add: js_trim_def hd_rev)
qed

lemma js_trim_no_space: "\<forall>c \<in> set s. \<not> is_js_space c \<Longrightarrow> js_trim s = s"
  by (cases "s = []") (simp_all add: js_trim_id)

text \<open>\<open>toLowerCase\<close> on an ASCII character.\<close>

definition js_lower :: "char \<Rightarrow> char" where
  "js_lower c = (if 65 \<le> char_code c \<and> char_code c \<le> 90 then char_of (char_code c + 32) else c)"

text \<open>The value of a digit character: \<open>0-9\<close>, then letters of either case from 10 on.\<close>

definition digit_val :: "char \<Rightarrow> nat option" where
  "digit_val c =
    (let n = char_code c in
     if 48 \<le> n \<and> n \<le> 57 then Some (n - 48)
     else if 97 \<le> n \<and> n \<le> 122 then Some (n - 87)
     else if 65 \<le> n \<and> n \<le> 90 then Some (n - 55)
     else None)"

definition is_digit :: "nat \<Rightarrow> char \<Rightarrow> bool" where
  "is_digit radix c \<longleftrightarrow> (case digit_val c of Some d \<Rightarrow> d < radix | None \<Rightarrow> False)"

definition digit_num :: "char \<Rightarrow> nat" where
  "digit_num c = (case digit_val c of Some d \<Rightarrow> d | None \<Rightarrow> 0)"

definition digits_value :: "nat \<Rightarrow> string \<Rightarrow> nat" where
  "digits_value radix ds = foldl (\<lambda>acc c. acc * radix + digit_num c) 0 ds"

text \<open>
  \<open>parseInt(s, radix)\<close>: skip white space, read a sign, skip \<open>0x\<close> in radix 16, then take the
  longest prefix of digits; with no digit the result is \<open>NaN\<close>. The callers modelled here pass
  at most eight digits, so the value needs no rounding.
\<close>

definition js_parseInt :: "string \<Rightarrow> nat \<Rightarrow> js_number" where
  "js_parseInt str radix =
    (let s0 = dropWhile is_js_space str;
         neg = (s0 \<noteq> [] \<and> hd s0 = CHR ''-'');
         s1 = (if s0 \<noteq> [] \<and> (hd s0 = CHR ''-'' \<or> hd s0 = CHR ''+'') then tl s0 else s0);
         s2 = (if radix = 16 \<and> (take 2 s1 = ''0x'' \<or> take 2 s1 = ''0X'') then drop 2 s1 else s1);
         ds = takeWhile (is_digit radix) s2
     in if ds = [] then JsNaN
        else JsInt (if neg then - int (digits_value radix ds) else int (digits_value radix ds)))"

lemma digits_value_append:
  "digits_value r (xs @ ys) = digits_value r xs * r ^ length ys + digits_value r ys"
proof (induction ys rule: rev_induct)
  case Nil
  then show ?case by (simp add: digits_value_def)
next
  case (snoc y ys)
  then show ?case
    by (simp add: digits_value_def algebra_simps append_assoc [symmetric] del: append_assoc)
qed

lemma digits_value_Nil [simp]: "digits_value r [] = 0"
  by (simp add: digits_value_def)

lemma digits_value_zeros: "digits_value r (replicate n (CHR ''0'') @ ds) = digits_value r ds"
proof -
  have "digits_value r (replicate n (CHR ''0'')) = 0"
    by (induction n) (simp_all add: digits_value_def digit_num_def digit_val_def char_code_def)
  then show ?thesis by (simp add: digits_value_append)
qed

lemma is_digit_codes:
  "is_digit r c \<Longrightarrow> r \<le> 36 \<Longrightarrow>
    (48 \<le> char_code c \<and> char_code c \<le> 57) \<or> (97 \<le> char_code c \<and> char_code c \<le> 122)
    \<or> (65 \<le> char_code c \<and> char_code c \<le> 90)"
  by (auto simp: is_digit_def digit_val_def Let_def split: if_splits)

lemma digit_not_special:
  assumes "is_digit r c"
  shows "\<not> is_js_space c" and "c \<noteq> CHR ''-''" and "c \<noteq> CHR ''+''" and "c \<noteq> CHR ''.''"
    and "c \<noteq> CHR '':''"
  using assms by (auto simp: is_digit_def digit_val_def is_js_space_def char_code_def Let_def split: if_splits)

lemma digit_num_less: "is_digit r c \<Longrightarrow> digit_num c < r"
  by (simp add: is_digit_def digit_num_def split: option.splits)

lemma digits_value_less: "\<forall>c \<in> set ds. is_digit r c \<Longrightarrow> 0 < r \<Longrightarrow> digits_value r ds < r ^ length ds"
proof (induction ds rule: rev_induct)
  case (snoc c ds)
  then have "digits_value r ds + 1 \<le> r ^ length ds" by simp
  then have "(digits_value r ds + 1) * r \<le> r ^ length ds * r" by (rule mult_right_mono) simp
  moreover have "digit_num c < r" using snoc.prems by (simp add: digit_num_less)
  moreover have "digits_value r (ds @ [c]) = digits_value r ds * r + digit_num c"
    by (simp add: digits_value_def)
  ultimately show ?case by (simp add: algebra_simps)
qed simp

lemma parseInt_digits:
  assumes "\<forall>c \<in> set s. is_digit r c" and "s \<noteq> []" and "r \<le> 36"
  shows "js_parseInt s r = JsInt (int (digits_value r s))"
proof -
  obtain c cs where s: "s = c # cs" using assms(2) by (cases s) auto
  have c: "is_digit r c" using assms(1) s by simp
  have x: "\<not> is_digit 16 CHR ''x''" "\<not> is_digit 16 CHR ''X''"
    by (simp_all add: is_digit_def digit_val_def char_code_def)
  have "\<not> (r = 16 \<and> (take 2 s = ''0x'' \<or> take 2 s = ''0X''))"
  proof
    assume h: "r = 16 \<and> (take 2 s = ''0x'' \<or> take 2 s = ''0X'')"
    then obtain d ds where "cs = d # ds" "d = CHR ''x'' \<or> d = CHR ''X''"
      using s by (cases cs) auto
    then show False using assms(1) s h x by auto
  qed
  moreover have "takeWhile (is_digit r) s = s" using assms(1) by (simp add: takeWhile_eq_all_conv)
  moreover have "dropWhile is_js_space s = s" using digit_not_special(1) [OF c] s by simp
  ultimately show ?thesis
    using digit_not_special [OF c] s assms(2) by (auto simp: js_parseInt_def Let_def)
qed

text \<open>The decimal text of a number that holds an integer.\<close>

definition digit_char :: "nat \<Rightarrow> char" where
  "digit_char d = char_of (48 + d)"

fun show_nat :: "nat \<Rightarrow> string" where
  "show_nat n = (if n < 10 then [digit_char n] else show_nat (n div 10) @ [digit_char (n mod 10)])"

declare show_nat.simps [simp del]

definition show_int :: "int \<Rightarrow> string" where
  "show_int i = (if i < 0 then CHR ''-'' # show_nat (nat (- i)) else show_nat (nat i))"

lemma digit_char_digit: "d < 10 \<Longrightarrow> is_digit 10 (digit_char d)" "d < 10 \<Longrightarrow> digit_num (digit_char d) = d"
  by (simp_all add: is_digit_def digit_num_def digit_val_def digit_char_def char_code_def Let_def)

lemma show_nat_digits: "\<forall>c \<in> set (show_nat n). is_digit 10 c"
proof (induction n rule: show_nat.induct)
  case (1 n)
  then show ?case by (subst show_nat.simps) (auto simp: digit_char_digit)
qed

lemma show_nat_not_Nil [simp]: "show_nat n \<noteq> []"
  by (subst show_nat.simps) simp

lemma digits_value_snoc: "digits_value r (ds @ [c]) = digits_value r ds * r + digit_num c"
  by (simp add: digits_value_def)

lemma digits_value_show: "digits_value 10 (show_nat n) = n"
proof (induction n rule: show_nat.induct)
  case (1 n)
  then show ?case
    by (subst show_nat.simps) (simp add: digits_value_snoc digit_char_digit digits_value_snoc [of 10 "[]", simplified])
qed

text \<open>\<open>toString(radix)\<close> of a natural number, with lower-case letters for the digits from ten on.\<close>

definition radix_char :: "nat \<Rightarrow> char" where
  "radix_char d = (if d < 10 then char_of (48 + d) else char_of (87 + d))"

function show_radix :: "nat \<Rightarrow> nat \<Rightarrow> string" where
  "show_radix r n = (if n < r \<or> r < 2 then [radix_char n] else show_radix r (n div r) @ [radix_char (n mod r)])"
  by pat_completeness auto
termination
  by (relation "measure snd") auto

declare show_radix.simps [simp del]

lemma radix_char_digit:
  assumes "d < r" and "r \<le> 36"
  shows "is_digit r (radix_char d)" and "digit_num (radix_char d) = d"
proof -
  have "of_char (char_of (48 + d) :: char) = 48 + d" "of_char (char_of (87 + d) :: char) = 87 + d" if "d < 36"
    using that by (simp_all add: of_char_of)
  then show "is_digit r (radix_char d)" and "digit_num (radix_char d) = d"
    using assms by (simp_all add: is_digit_def digit_num_def digit_val_def radix_char_def char_code_def Let_def)
qed

lemma show_radix_not_Nil [simp]: "show_radix r n \<noteq> []"
  by (subst show_radix.simps) simp

lemma show_radix_spec:
  assumes "2 \<le> r" and "r \<le> 36"
  shows "(\<forall>c \<in> set (show_radix r n). is_digit r c) \<and> digits_value r (show_radix r n) = n"
  using assms
proof (induction r n rule: show_radix.induct)
  case (1 r n)
  show ?case
  proof (cases "n < r")
    case True
    then show ?thesis using 1 digits_value_snoc [of r "[]"]
      by (subst (1 2) show_radix.simps) (simp add: radix_char_digit)
  next
    case False
    then have IH: "(\<forall>c \<in> set (show_radix r (n div r)). is_digit r c) \<and> digits_value r (show_radix r (n div r)) = n div r"
      using 1 by simp
    have "show_radix r n = show_radix r (n div r) @ [radix_char (n mod r)]"
      using False 1 by (subst show_radix.simps) simp
    moreover have "n mod r < r" using 1 by simp
    ultimately show ?thesis using IH 1 radix_char_digit [of "n mod r" r] by (auto simp: digits_value_snoc)
  qed
qed

subsection \<open>Splitting and joining\<close>

text \<open>\<open>split(d)\<close> and \<open>join(d)\<close> with a separator of one character.\<close>

fun split_on :: "char \<Rightarrow> string \<Rightarrow> string list" where
  "split_on d [] = [[]]"
| "split_on d (c # cs) =
    (if c = d then [] # split_on d cs
     else case split_on d cs of [] \<Rightarrow> [[c]] | w # ws \<Rightarrow> (c # w) # ws)"

fun join_on :: "char \<Rightarrow> string list \<Rightarrow> string" where
  "join_on d [] = []"
| "join_on d [w] = w"
| "join_on d (w # v # vs) = w @ d # join_on d (v # vs)"

lemma split_on_not_Nil [simp]: "split_on d s \<noteq> []"
  by (cases s) (auto split: list.split)

lemma split_on_append: "split_on d (xs @ d # ys) = split_on d xs @ split_on d ys"
  by (induction xs) (auto split: list.split)

lemma split_on_plain: "d \<notin> set w \<Longrightarrow> split_on d w = [w]"
  by (induction w) auto

lemma split_on_join: "\<forall>w \<in> set ws. d \<notin> set w \<Longrightarrow> split_on d (join_on d ws) = (if ws = [] then [[]] else ws)"
  by (induction d ws rule: join_on.induct) (simp_all add: split_on_append split_on_plain)

lemma set_join_on: "set (join_on d ws) \<subseteq> insert d (\<Union>w \<in> set ws. set w)"
  by (induction d ws rule: join_on.induct) auto

lemma join_on_snoc: "join_on d (ws @ [w]) = (if ws = [] then w else join_on d ws @ d # w)"
proof (induction d ws rule: join_on.induct)
  case (3 d w v vs)
  then show ?case by simp
qed simp_all

lemma join_on_eq_Nil: "\<forall>w \<in> set ws. w \<noteq> [] \<Longrightarrow> join_on d ws = [] \<longleftrightarrow> ws = []"
  by (induction d ws rule: join_on.induct) auto

section \<open>Node.js buffers\<close>

text \<open>
  A buffer is the list of its bytes, each an \<^typ>\<open>int\<close> between 0 and 255. A store into a buffer
  keeps the low eight bits of the number stored.
\<close>

type_synonym buffer = "int list"

definition bytes_ok :: "buffer \<Rightarrow> bool" where
  "bytes_ok bs \<longleftrightarrow> (\<forall>b \<in> set bs. 0 \<le> b \<and> b < 256)"

definition to_byte :: "int \<Rightarrow> int" where
  "to_byte x = x mod 256"

definition be_uint :: "buffer \<Rightarrow> int" where
  "be_uint bs = foldl (\<lambda>acc b. acc * 256 + b) 0 bs"

text \<open>\<open>readInt32BE(offset)\<close> on an offset in range, and the bytes \<open>writeInt32BE\<close> stores.\<close>

definition read_int32_be :: "buffer \<Rightarrow> nat \<Rightarrow> int" where
  "read_int32_be buf off = to_int32 (be_uint (take 4 (drop off buf)))"

definition int32_be :: "int \<Rightarrow> buffer" where
  "int32_be v = [v div 16777216 mod 256, v div 65536 mod 256, v div 256 mod 256, v mod 256]"

lemma be_uint_Nil [simp]: "be_uint [] = 0"
  by (simp add: be_uint_def)

lemma be_uint_append: "be_uint (xs @ ys) = be_uint xs * 256 ^ length ys + be_uint ys"
proof (induction ys rule: rev_induct)
  case Nil
  then show ?case by simp
next
  case (snoc y ys)
  then show ?case
    by (simp add: be_uint_def algebra_simps append_assoc [symmetric] del: append_assoc)
qed

lemma be_uint_Cons: "be_uint (x # xs) = x * 256 ^ length xs + be_uint xs"
  using be_uint_append [of "[x]" xs] by (simp add: be_uint_def)

lemma bytes_ok_append [simp]: "bytes_ok (xs @ ys) \<longleftrightarrow> bytes_ok xs \<and> bytes_ok ys"
  by (auto simp: bytes_ok_def)

lemma bytes_ok_Cons [simp]: "bytes_ok (x # xs) \<longleftrightarrow> 0 \<le> x \<and> x < 256 \<and> bytes_ok xs"
  by (auto simp: bytes_ok_def)

lemma bytes_ok_Nil [simp]: "bytes_ok []"
  by (simp add: bytes_ok_def)

lemma bytes_ok_take_drop: "bytes_ok xs \<Longrightarrow> bytes_ok (take n xs)" "bytes_ok xs \<Longrightarrow> bytes_ok (drop n xs)"
  by (auto simp: bytes_ok_def dest: in_set_takeD in_set_dropD)

lemma be_uint_range: "bytes_ok bs \<Longrightarrow> 0 \<le> be_uint bs \<and> be_uint bs < 256 ^ length bs"
proof (induction bs)
  case (Cons b bs)
  define P :: int where "P = 256 ^ length bs"
  have b: "0 \<le> b" "b \<le> 255" and IH: "0 \<le> be_uint bs" "be_uint bs < P"
    using Cons by (auto simp: P_def)
  have "0 \<le> b * P" using b by (simp add: P_def)
  moreover have "b * P \<le> 255 * P" using b(2) by (rule mult_right_mono) (simp add: P_def)
  moreover have "be_uint (b # bs) = b * P + be_uint bs" "256 ^ length (b # bs) = 256 * P"
    by (simp_all add: be_uint_Cons P_def)
  ultimately show ?case using IH by linarith
qed simp

lemma length_int32_be [simp]: "length (int32_be v) = 4"
  by (simp add: int32_be_def)

lemma int32_be_ok [simp]: "bytes_ok (int32_be v)"
  by (simp add: int32_be_def)

lemma be_uint_int32_be: "be_uint (int32_be v) = to_uint32 v"
proof -
  define A B C D where "A = v div 16777216 mod 256" "B = v div 65536 mod 256" "C = v div 256 mod 256"
    "D = v mod 256"
  have "v mod (16777216 * 256) = 16777216 * A + v mod 16777216" unfolding A_B_C_D_def by (rule zmod_zmult2_eq) simp
  moreover have "v mod (65536 * 256) = 65536 * B + v mod 65536" unfolding A_B_C_D_def by (rule zmod_zmult2_eq) simp
  moreover have "v mod (256 * 256) = 256 * C + D" unfolding A_B_C_D_def by (rule zmod_zmult2_eq) simp
  moreover have "be_uint (int32_be v) = ((A * 256 + B) * 256 + C) * 256 + D"
    by (simp add: int32_be_def be_uint_def A_B_C_D_def)
  ultimately show ?thesis by (simp add: to_uint32_mod)
qed

text \<open>\<open>toString('hex')\<close> of a buffer.\<close>

definition hex_text :: "buffer \<Rightarrow> string" where
  "hex_text buf = concat (map (\<lambda>b. [radix_char (nat b div 16), radix_char (nat b mod 16)]) buf)"

end
