(* ===== verification/Comparable.thy ===== *)
theory Comparable
  imports Js_Prelude
begin

text \<open>
  The contract behind every \<open>compare(other)\<close> method of the driver: a negative, zero or positive
  number orders the values as some linearly ordered key does. The value classes provide it
  (each in its own theory); token ranges, sorted insertion and binary search rely on it.
\<close>

locale comparable =
  fixes cmp :: "'a \<Rightarrow> 'a \<Rightarrow> int"
    and wf :: "'a \<Rightarrow> bool"
    and key :: "'a \<Rightarrow> 'k::linorder"
  assumes cmp_neg: "wf x \<Longrightarrow> wf y \<Longrightarrow> cmp x y < 0 \<longleftrightarrow> key x < key y"
    and cmp_zero: "wf x \<Longrightarrow> wf y \<Longrightarrow> cmp x y = 0 \<longleftrightarrow> key x = key y"
begin

lemma cmp_pos: "wf x \<Longrightarrow> wf y \<Longrightarrow> cmp x y > 0 \<longleftrightarrow> key y < key x"
  using cmp_neg [of x y] cmp_zero [of x y] by auto

lemma cmp_le: "wf x \<Longrightarrow> wf y \<Longrightarrow> cmp x y \<le> 0 \<longleftrightarrow> key x \<le> key y"
  using cmp_neg [of x y] cmp_zero [of x y] by auto

lemma cmp_ge: "wf x \<Longrightarrow> wf y \<Longrightarrow> cmp x y \<ge> 0 \<longleftrightarrow> key y \<le> key x"
  using cmp_neg [of x y] cmp_zero [of x y] by auto

lemmas cmp_key = cmp_neg cmp_zero cmp_pos cmp_le cmp_ge

lemma cmp_antisym: "wf x \<Longrightarrow> wf y \<Longrightarrow> cmp x y < 0 \<longleftrightarrow> cmp y x > 0"
  by (simp add: cmp_key)

lemma cmp_trans: "wf x \<Longrightarrow> wf y \<Longrightarrow> wf z \<Longrightarrow> cmp x y \<le> 0 \<Longrightarrow> cmp y z \<le> 0 \<Longrightarrow> cmp x z \<le> 0"
  by (simp add: cmp_key)

end

end
