(* ===== verification/Mutable_Long.thy ===== *)
theory Mutable_Long
  imports Comparable
begin

text \<open>
  \<^verbatim>\<open>src/lib/types/mutable-long.js\<close>: a signed 64-bit integer kept as four unsigned 16-bit
  pieces, lowest first. The class mutates its receiver; each operation here takes the receiver
  and returns its new value. \<open>ml_word\<close> reads the pieces as a 64-bit word, and the theorems
  show that every operation is the 64-bit two's complement operation on that word.
\<close>

section \<open>State\<close>

record mutable_long =
  arr0 :: int
  arr1 :: int
  arr2 :: int
  arr3 :: int

definition new_mutable_long :: "int \<Rightarrow> int \<Rightarrow> int \<Rightarrow> int \<Rightarrow> mutable_long" where
  "new_mutable_long b00 b16 b32 b48 =
    \<lparr>arr0 = js_and b00 65535, arr1 = js_and b16 65535,
     arr2 = js_and b32 65535, arr3 = js_and b48 65535\<rparr>"

text \<open>\<open>new MutableLong()\<close>: every argument is undefined, and \<open>undefined & 0xffff\<close> is 0.\<close>

definition ml_default :: mutable_long where
  "ml_default = new_mutable_long 0 0 0 0"

definition ml_one :: mutable_long where
  "ml_one = new_mutable_long 1 0 0 0"

section \<open>Operations\<close>

definition ml_isNegative :: "mutable_long \<Rightarrow> bool" where
  "ml_isNegative m \<longleftrightarrow> js_and (arr3 m) 32768 > 0"

definition ml_isZero :: "mutable_long \<Rightarrow> bool" where
  "ml_isZero m \<longleftrightarrow> arr3 m = 0 \<and> arr2 m = 0 \<and> arr1 m = 0 \<and> arr0 m = 0"

definition ml_toZero :: "mutable_long \<Rightarrow> mutable_long" where
  "ml_toZero m = m\<lparr>arr3 := 0, arr2 := 0, arr1 := 0, arr0 := 0\<rparr>"

text \<open>The loop of \<open>_compareBits\<close> goes from index 3 down to 0.\<close>

fun compare_pieces :: "(int \<times> int) list \<Rightarrow> int" where
  "compare_pieces [] = 0"
| "compare_pieces ((a, b) # ps) =
     (if a > b then 1 else if a < b then -1 else compare_pieces ps)"

definition ml_compareBits :: "mutable_long \<Rightarrow> mutable_long \<Rightarrow> int" where
  "ml_compareBits x y =
    compare_pieces [(arr3 x, arr3 y), (arr2 x, arr2 y), (arr1 x, arr1 y), (arr0 x, arr0 y)]"

definition ml_compare :: "mutable_long \<Rightarrow> mutable_long \<Rightarrow> int" where
  "ml_compare x y =
    (if ml_isNegative x \<and> \<not> ml_isNegative y then -1
     else if \<not> ml_isNegative x \<and> ml_isNegative y then 1
     else ml_compareBits x y)"

definition ml_getUint16 :: "mutable_long \<Rightarrow> nat \<Rightarrow> int option" where
  "ml_getUint16 m i =
    (if i = 0 then Some (arr0 m) else if i = 1 then Some (arr1 m)
     else if i = 2 then Some (arr2 m) else if i = 3 then Some (arr3 m) else None)"

definition ml_getLowBitsUnsigned :: "mutable_long \<Rightarrow> int" where
  "ml_getLowBitsUnsigned m = js_shr (js_or (arr0 m) (js_shl (js_and (arr1 m) 65535) 16)) 0"

definition ml_getHighBitsUnsigned :: "mutable_long \<Rightarrow> int" where
  "ml_getHighBitsUnsigned m = js_shr (js_or (arr2 m) (js_shl (arr3 m) 16)) 0"

definition ml_toNumber :: "mutable_long \<Rightarrow> int" where
  "ml_toNumber m =
    js_round (js_or (js_shl (arr3 m) 16) (arr2 m) * 4294967296
              + js_shr (js_or (js_shl (arr1 m) 16) (arr0 m)) 0)"

definition ml_not :: "mutable_long \<Rightarrow> mutable_long" where
  "ml_not m =
    \<lparr>arr0 = js_and (js_not (arr0 m)) 65535, arr1 = js_and (js_not (arr1 m)) 65535,
     arr2 = js_and (js_not (arr2 m)) 65535, arr3 = js_and (js_not (arr3 m)) 65535\<rparr>"

definition ml_add :: "mutable_long \<Rightarrow> mutable_long \<Rightarrow> mutable_long" where
  "ml_add m addend =
    (let c00 = arr0 m + arr0 addend;
         c16 = js_shr c00 16 + (arr1 m + arr1 addend);
         c32 = js_shr c16 16 + (arr2 m + arr2 addend);
         c48 = js_shr c32 16 + (arr3 m + arr3 addend)
     in \<lparr>arr0 = js_and c00 65535, arr1 = js_and c16 65535,
         arr2 = js_and c32 65535, arr3 = js_and c48 65535\<rparr>)"

definition ml_negate :: "mutable_long \<Rightarrow> mutable_long" where
  "ml_negate m = ml_add (ml_not m) ml_one"

definition ml_shl_pieces :: "nat \<Rightarrow> mutable_long \<Rightarrow> mutable_long" where
  "ml_shl_pieces pos m =
    (if pos > 0 then
       \<lparr>arr0 = 0,
        arr1 = (if pos > 1 then 0 else arr0 m),
        arr2 = (if pos > 2 then 0 else if pos = 1 then arr1 m else arr0 m),
        arr3 = (if pos = 1 then arr2 m else if pos = 2 then arr1 m else arr0 m)\<rparr>
     else m)"

definition ml_shl_bits :: "nat \<Rightarrow> mutable_long \<Rightarrow> mutable_long" where
  "ml_shl_bits r m =
    (if r > 0 then
       \<lparr>arr0 = js_and (js_shl (arr0 m) r) 65535,
        arr1 = js_and (js_or (js_shl (arr1 m) r) (js_shr (arr0 m) (16 - r))) 65535,
        arr2 = js_and (js_or (js_shl (arr2 m) r) (js_shr (arr1 m) (16 - r))) 65535,
        arr3 = js_and (js_or (js_shl (arr3 m) r) (js_shr (arr2 m) (16 - r))) 65535\<rparr>
     else m)"

definition ml_shiftLeft :: "mutable_long \<Rightarrow> nat \<Rightarrow> mutable_long" where
  "ml_shiftLeft m numBits =
    (if numBits = 0 then m
     else if numBits \<ge> 64 then ml_toZero m
     else ml_shl_bits (numBits mod 16) (ml_shl_pieces (numBits div 16) m))"

definition ml_shr_pieces :: "nat \<Rightarrow> mutable_long \<Rightarrow> mutable_long" where
  "ml_shr_pieces pos m =
    (if pos > 0 then
       \<lparr>arr0 = (if pos = 1 then arr1 m else if pos = 2 then arr2 m else arr3 m),
        arr1 = (if pos > 2 then 0 else if pos = 1 then arr2 m else arr3 m),
        arr2 = (if pos > 1 then 0 else arr3 m),
        arr3 = 0\<rparr>
     else m)"

definition ml_shr_bits :: "nat \<Rightarrow> mutable_long \<Rightarrow> mutable_long" where
  "ml_shr_bits r m =
    (if r > 0 then
       \<lparr>arr0 = js_or (js_shr (arr0 m) r) (js_and (js_shl (arr1 m) (16 - r)) 65535),
        arr1 = js_or (js_shr (arr1 m) r) (js_and (js_shl (arr2 m) (16 - r)) 65535),
        arr2 = js_or (js_shr (arr2 m) r) (js_and (js_shl (arr3 m) (16 - r)) 65535),
        arr3 = js_shr (arr3 m) r\<rparr>
     else m)"

definition ml_shiftRightUnsigned :: "mutable_long \<Rightarrow> nat \<Rightarrow> mutable_long" where
  "ml_shiftRightUnsigned m numBits =
    (if numBits = 0 then m
     else if numBits \<ge> 64 then ml_toZero m
     else ml_shr_bits (numBits mod 16) (ml_shr_pieces (numBits div 16) m))"

definition ml_or :: "mutable_long \<Rightarrow> mutable_long \<Rightarrow> mutable_long" where
  "ml_or x y =
    \<lparr>arr0 = js_or (arr0 x) (arr0 y), arr1 = js_or (arr1 x) (arr1 y),
     arr2 = js_or (arr2 x) (arr2 y), arr3 = js_or (arr3 x) (arr3 y)\<rparr>"

definition ml_xor :: "mutable_long \<Rightarrow> mutable_long \<Rightarrow> mutable_long" where
  "ml_xor x y =
    \<lparr>arr0 = js_xor (arr0 x) (arr0 y), arr1 = js_xor (arr1 x) (arr1 y),
     arr2 = js_xor (arr2 x) (arr2 y), arr3 = js_xor (arr3 x) (arr3 y)\<rparr>"

definition ml_clone :: "mutable_long \<Rightarrow> mutable_long" where
  "ml_clone m = new_mutable_long (arr0 m) (arr1 m) (arr2 m) (arr3 m)"

definition ml_equals :: "mutable_long \<Rightarrow> mutable_long \<Rightarrow> bool" where
  "ml_equals x y \<longleftrightarrow>
    arr0 x = arr0 y \<and> arr1 x = arr1 y \<and> arr2 x = arr2 y \<and> arr3 x = arr3 y"

text \<open>The sixteen-bit products of \<open>multiply\<close>; those beyond bit 63 are skipped.\<close>

definition ml_products :: "mutable_long \<Rightarrow> mutable_long \<Rightarrow> mutable_long" where
  "ml_products x y =
    (let c00 = arr0 x * arr0 y;
         c16 = js_shr c00 16 + arr1 x * arr0 y;
         c32 = js_shr c16 16;
         c16 = js_and c16 65535 + arr0 x * arr1 y;
         c32 = c32 + js_shr c16 16 + arr2 x * arr0 y;
         c48 = js_shr c32 16;
         c32 = js_and c32 65535 + arr1 x * arr1 y;
         c48 = c48 + js_shr c32 16;
         c32 = js_and c32 65535 + arr0 x * arr2 y;
         c48 = c48 + js_shr c32 16
               + (arr3 x * arr0 y + arr2 x * arr1 y + arr1 x * arr2 y + arr0 x * arr3 y)
     in \<lparr>arr0 = js_and c00 65535, arr1 = js_and c16 65535,
         arr2 = js_and c32 65535, arr3 = js_and c48 65535\<rparr>)"

definition ml_multiply :: "mutable_long \<Rightarrow> mutable_long \<Rightarrow> mutable_long" where
  "ml_multiply m multiplier =
    (if ml_isZero m \<or> ml_isZero multiplier then ml_toZero m
     else let x = (if ml_isNegative m then ml_negate m else m);
              y = (if ml_isNegative multiplier then ml_negate (ml_clone multiplier) else multiplier);
              p = ml_products x y
          in if ml_isNegative m \<noteq> ml_isNegative multiplier then ml_negate p else p)"

text \<open>
  The call \<open>x.multiply(x)\<close>: receiver and argument are the same object, so negating the
  receiver also changes the argument, whose sign is read afterwards.
\<close>

definition ml_multiply_self :: "mutable_long \<Rightarrow> mutable_long" where
  "ml_multiply_self m =
    (if ml_isZero m then ml_toZero m
     else let neg1 = ml_isNegative m;
              x = (if neg1 then ml_negate m else m);
              neg2 = ml_isNegative x;
              y = (if neg2 then ml_negate (ml_clone x) else x);
              p = ml_products x y
          in if neg1 \<noteq> neg2 then ml_negate p else p)"

definition ml_fromBits :: "int \<Rightarrow> int \<Rightarrow> mutable_long" where
  "ml_fromBits low32Bits high32Bits =
    new_mutable_long low32Bits (js_shr low32Bits 16) high32Bits (js_shr high32Bits 16)"

text \<open>
  \<open>value / 2^32\<close> is exact and the bitwise operators truncate it, so for an integral value the
  high bits are those of the quotient.
\<close>

definition ml_fromNumber :: "js_number \<Rightarrow> mutable_long" where
  "ml_fromNumber v =
    (case v of
       JsInt n \<Rightarrow>
         (if n < 0 then ml_negate (ml_fromBits ((- n) mod 4294967296) ((- n) div 4294967296))
          else ml_fromBits (n mod 4294967296) (n div 4294967296))
     | _ \<Rightarrow> ml_default)"

text \<open>\<open>toImmutable\<close> hands the two halves to \<open>Long.fromBits\<close> of the \<open>long\<close> package.\<close>

definition ml_toImmutable :: "(int \<Rightarrow> int \<Rightarrow> bool \<Rightarrow> 'long) \<Rightarrow> mutable_long \<Rightarrow> 'long" where
  "ml_toImmutable long_fromBits m =
    long_fromBits (ml_getLowBitsUnsigned m) (ml_getHighBitsUnsigned m) False"

text \<open>The digit loop of \<open>fromString\<close>: eight digits at a time; a shorter last chunk ends it.\<close>

function ml_fromString_loop :: "nat \<Rightarrow> mutable_long \<Rightarrow> string \<Rightarrow> mutable_long" where
  "ml_fromString_loop radix res str =
    (if str = [] then res
     else let size = min 8 (length str);
              val = ml_fromNumber (js_parseInt (take size str) radix);
              power = ml_fromNumber (JsInt (int (radix ^ size)));
              res' = ml_add (ml_multiply res power) val
          in if size < 8 then res' else ml_fromString_loop radix res' (drop 8 str))"
  by pat_completeness auto
termination
  by (relation "measure (\<lambda>(radix, res, str). length str)") auto

declare ml_fromString_loop.simps [simp del]

text \<open>
  \<open>fromString(str, radix)\<close>; a radix of 0 stands for a missing one. The recursive call strips one
  leading minus sign.
\<close>

fun ml_fromString :: "string \<Rightarrow> nat \<Rightarrow> mutable_long result" where
  "ml_fromString [] radix = Inl PlainError"
| "ml_fromString (c # cs) radix =
    (let str = c # cs; radix' = (if radix = 0 then 10 else radix) in
     if str \<in> {''NaN'', ''Infinity'', ''+Infinity'', ''-Infinity''} then Inr ml_default
     else if radix' < 2 \<or> radix' > 36 then Inl PlainError
     else if c \<noteq> CHR ''-'' \<and> CHR ''-'' \<in> set cs then Inl PlainError
     else if c = CHR ''-'' then bind_result (ml_fromString cs radix') (\<lambda>m. Inr (ml_negate m))
     else Inr (ml_fromString_loop radix' ml_default str))"

section \<open>Well-formedness and the 64-bit reading\<close>

definition ml_wf :: "mutable_long \<Rightarrow> bool" where
  "ml_wf m \<longleftrightarrow>
    arr0 m \<in> {0..<65536} \<and> arr1 m \<in> {0..<65536} \<and> arr2 m \<in> {0..<65536} \<and> arr3 m \<in> {0..<65536}"

definition ml_uval :: "mutable_long \<Rightarrow> int" where
  "ml_uval m = ((arr3 m * 2 ^ 16 + arr2 m) * 2 ^ 16 + arr1 m) * 2 ^ 16 + arr0 m"

definition ml_word :: "mutable_long \<Rightarrow> 64 word" where
  "ml_word m = word_of_int (ml_uval m)"

lemma ml_uval_range: "ml_wf m \<Longrightarrow> 0 \<le> ml_uval m \<and> ml_uval m < 2 ^ 64"
  by (auto simp: ml_wf_def ml_uval_def)

lemma uint_ml_word: "ml_wf m \<Longrightarrow> uint (ml_word m) = ml_uval m"
  using ml_uval_range [of m] by (simp add: ml_word_def uint_word_of_int)

lemma bit_ml_uval:
  assumes "ml_wf m"
  shows "bit (ml_uval m) k \<longleftrightarrow>
    (if k < 16 then bit (arr0 m) k else if k < 32 then bit (arr1 m) (k - 16)
     else if k < 48 then bit (arr2 m) (k - 32) else bit (arr3 m) (k - 48))"
proof -
  have "0 \<le> arr0 m" "arr0 m < 2 ^ 16" "0 \<le> arr1 m" "arr1 m < 2 ^ 16" "0 \<le> arr2 m" "arr2 m < 2 ^ 16"
    using assms by (auto simp: ml_wf_def)
  then show ?thesis
    unfolding ml_uval_def by (auto simp: bit_disjoint_add diff_diff_left simp del: power_numeral)
qed

lemma wf_bits_bounded:
  assumes "ml_wf m"
  shows "bit (arr0 m) k \<Longrightarrow> k < 16" "bit (arr1 m) k \<Longrightarrow> k < 16"
    "bit (arr2 m) k \<Longrightarrow> k < 16" "bit (arr3 m) k \<Longrightarrow> k < 16"
  using assms by (auto simp: ml_wf_def intro: bit_bounded_int [where n = 16])

lemma ml_wordI:
  assumes "ml_wf m" and "\<And>k. k < 64 \<Longrightarrow> bit (ml_uval m) k \<longleftrightarrow> bit w k"
  shows "ml_word m = w"
  using assms by (intro bit_word_eqI) (simp add: ml_word_def bit_simps)

lemma bit_ml_word: "bit (ml_word m) k \<longleftrightarrow> k < 64 \<and> bit (ml_uval m) k"
  by (simp add: ml_word_def bit_simps)

named_theorems ml_wf_intros \<open>operations keep the pieces in range\<close>

lemma js_and_65535_range: "0 \<le> js_and x 65535 \<and> js_and x 65535 < 65536"
  by (simp add: js_bits)

lemma new_wf [ml_wf_intros]: "ml_wf (new_mutable_long a b c d)"
  by (simp add: ml_wf_def new_mutable_long_def js_and_65535_range)

lemma ml_consts_wf [ml_wf_intros]: "ml_wf ml_one" "ml_wf ml_default" "ml_wf (ml_toZero m)"
  by (simp_all add: ml_one_def ml_default_def new_wf) (simp add: ml_toZero_def ml_wf_def)

lemma not_add_wf [ml_wf_intros]: "ml_wf (ml_not m)" "ml_wf (ml_add m n)" "ml_wf (ml_negate m)"
  by (simp_all add: ml_wf_def ml_not_def ml_add_def ml_negate_def Let_def js_and_65535_range)

lemma clone_wf [ml_wf_intros]: "ml_wf (ml_clone m)"
  by (simp add: ml_clone_def new_wf)

lemma products_wf [ml_wf_intros]: "ml_wf (ml_products x y)"
  by (simp add: ml_wf_def ml_products_def Let_def js_and_65535_range)

lemma clone_id [simp]: "ml_wf m \<Longrightarrow> ml_clone m = m"
  by (cases m) (simp add: ml_clone_def new_mutable_long_def ml_wf_def js_bits)

lemma ml_word_consts [simp]:
  "ml_word ml_one = 1" "ml_word ml_default = 0" "ml_word (ml_toZero m) = 0"
  by (simp_all add: ml_word_def ml_uval_def ml_one_def ml_default_def ml_toZero_def
      new_mutable_long_def js_bits)

lemma ml_isZero_word: "ml_wf m \<Longrightarrow> ml_isZero m \<longleftrightarrow> ml_word m = 0"
proof -
  assume wf: "ml_wf m"
  have "ml_word m = 0 \<longleftrightarrow> ml_uval m = 0"
    by (metis uint_ml_word [OF wf] uint_0_iff)
  also have "\<dots> \<longleftrightarrow> ml_isZero m"
    using wf by (auto simp: ml_wf_def ml_uval_def ml_isZero_def)
  finally show ?thesis by simp
qed

lemma isNegative_piece: "ml_wf m \<Longrightarrow> ml_isNegative m \<longleftrightarrow> bit (arr3 m) 15"
proof -
  assume wf: "ml_wf m"
  have "js_and (arr3 m) 32768 = (if bit (arr3 m) 15 then 32768 else 0)"
    using wf_bits_bounded(4) [OF wf]
  proof (intro bit_eqI)
    fix k
    have b: "bit (32768 :: int) k \<longleftrightarrow> k = 15"
      using bit_exp_iff [where 'a = int, of 15 k] by simp
    have "to_int32 (arr3 m) = arr3 m" using wf by (intro to_int32_id) (auto simp: ml_wf_def)
    then show "bit (js_and (arr3 m) 32768) k \<longleftrightarrow> bit (if bit (arr3 m) 15 then 32768 else 0 :: int) k"
      by (auto simp: js_and_def bit_and_iff b)
  qed
  then show ?thesis by (simp add: ml_isNegative_def)
qed

lemma ml_isNegative_word: "ml_wf m \<Longrightarrow> ml_isNegative m \<longleftrightarrow> sint (ml_word m) < 0"
  by (simp add: isNegative_piece bit_ml_word bit_ml_uval bit_last_iff [symmetric])

subsection \<open>Addition and negation\<close>

lemma carry_range:
  fixes c a b :: int
  assumes "0 \<le> c" and "c < 131072" and "0 \<le> a" and "a < 65536" and "0 \<le> b" and "b < 65536"
  shows "0 \<le> c div 65536 + (a + b) \<and> c div 65536 + (a + b) < 131072"
proof -
  have "0 \<le> c div 65536" using assms(1) by (simp add: pos_imp_zdiv_nonneg_iff)
  moreover have "c div 65536 \<le> 131071 div 65536" using assms(2) by (intro zdiv_mono1) auto
  ultimately show ?thesis using assms by simp
qed

lemma carry_sum:
  fixes s0 s1 s2 s3 :: int
  assumes "s0 = q0 * 65536 + r0" and "q0 + s1 = q1 * 65536 + r1"
    and "q1 + s2 = q2 * 65536 + r2" and "q2 + s3 = q3 * 65536 + r3"
  shows "((s3 * 65536 + s2) * 65536 + s1) * 65536 + s0
    = q3 * 2 ^ 64 + (((r3 * 65536 + r2) * 65536 + r1) * 65536 + r0)"
  using assms by simp

lemma ml_word_cong: "z = q * 2 ^ 64 + ml_uval m \<Longrightarrow> ml_word m = word_of_int z"
  by (simp only: ml_word_def word_uint_eq_iff uint_word_of_int) simp

lemma ml_add_uval:
  assumes "ml_wf x" and "ml_wf y"
  shows "ml_word (ml_add x y) = word_of_int (ml_uval x + ml_uval y)"
proof -
  define c0 where "c0 = arr0 x + arr0 y"
  define c1 where "c1 = c0 div 65536 + (arr1 x + arr1 y)"
  define c2 where "c2 = c1 div 65536 + (arr2 x + arr2 y)"
  define c3 where "c3 = c2 div 65536 + (arr3 x + arr3 y)"
  have r0: "0 \<le> c0 \<and> c0 < 131072" using assms by (simp add: ml_wf_def c0_def)
  have r1: "0 \<le> c1 \<and> c1 < 131072"
    unfolding c1_def using assms r0 by (intro carry_range) (simp_all add: ml_wf_def)
  have r2: "0 \<le> c2 \<and> c2 < 131072"
    unfolding c2_def using assms r1 by (intro carry_range) (simp_all add: ml_wf_def)
  have "js_shr c0 16 = c0 div 65536" "js_shr c1 16 = c1 div 65536" "js_shr c2 16 = c2 div 65536"
    using r0 r1 r2 by (simp_all add: js_shr_div)
  then have "ml_add x y = \<lparr>arr0 = c0 mod 65536, arr1 = c1 mod 65536, arr2 = c2 mod 65536, arr3 = c3 mod 65536\<rparr>"
    unfolding ml_add_def Let_def c3_def c2_def c1_def c0_def by (simp only: js_and_masks)
  moreover have "ml_uval x + ml_uval y
      = c3 div 65536 * 2 ^ 64 + (((c3 mod 65536 * 65536 + c2 mod 65536) * 65536 + c1 mod 65536) * 65536 + c0 mod 65536)"
  proof -
    have "ml_uval x + ml_uval y = (((arr3 x + arr3 y) * 65536 + (arr2 x + arr2 y)) * 65536 + (arr1 x + arr1 y)) * 65536 + (arr0 x + arr0 y)"
      by (simp add: ml_uval_def)
    also have "\<dots> = c3 div 65536 * 2 ^ 64 + (((c3 mod 65536 * 65536 + c2 mod 65536) * 65536 + c1 mod 65536) * 65536 + c0 mod 65536)"
      by (rule carry_sum [where ?q0.0 = "c0 div 65536" and ?q1.0 = "c1 div 65536" and ?q2.0 = "c2 div 65536"])
        (simp_all add: c0_def c1_def c2_def c3_def)
    finally show ?thesis .
  qed
  ultimately have "ml_uval x + ml_uval y = c3 div 65536 * 2 ^ 64 + ml_uval (ml_add x y)"
    by (simp add: ml_uval_def)
  then show ?thesis by (rule ml_word_cong)
qed

lemma ml_add_word: "ml_wf x \<Longrightarrow> ml_wf y \<Longrightarrow> ml_word (ml_add x y) = ml_word x + ml_word y"
  by (simp add: ml_add_uval) (simp add: ml_word_def)

lemma js_not_and: "0 \<le> x \<Longrightarrow> x < 65536 \<Longrightarrow> js_and (js_not x) 65535 = 65535 - x"
proof -
  assume x: "0 \<le> x" "x < 65536"
  then have "js_and (js_not x) 65535 = (- x - 1) mod 65536" by (simp add: js_not_eq js_and_masks)
  also have "- x - 1 = 65535 - x + (- 1) * 65536" by simp
  finally have "js_and (js_not x) 65535 = (65535 - x + (- 1) * 65536) mod 65536" .
  also have "\<dots> = 65535 - x" using x by (simp only: mod_mult_self1) simp
  finally show ?thesis .
qed

lemma ml_not_uval: "ml_wf m \<Longrightarrow> ml_uval (ml_not m) = 2 ^ 64 - 1 - ml_uval m"
  by (simp add: ml_wf_def ml_not_def ml_uval_def js_not_and)

lemma ml_not_word: "ml_wf m \<Longrightarrow> ml_word (ml_not m) = NOT (ml_word m)"
  by (simp add: ml_word_def ml_not_uval not_eq_complement)

lemma ml_negate_word: "ml_wf m \<Longrightarrow> ml_word (ml_negate m) = - ml_word m"
  by (simp add: ml_negate_def ml_add_word ml_wf_intros ml_not_word not_eq_complement)

subsection \<open>Multiplication\<close>

lemma product_range:
  fixes a b :: int
  assumes "a \<in> {0..<65536}" and "b \<in> {0..<65536}"
  shows "0 \<le> a * b" and "a * b \<le> 4294836225"
  using assms mult_mono [of a 65535 b 65535] by auto

lemma div_65536_range:
  fixes c :: int
  shows "0 \<le> c \<Longrightarrow> c < 4294967296 \<Longrightarrow> 0 \<le> c div 65536 \<and> c div 65536 \<le> 65535"
  using zdiv_mono1 [of c 4294967295 65536] by (simp add: pos_imp_zdiv_nonneg_iff)

lemma carry_products:
  fixes a0 a1 a2 a3 b0 b1 b2 b3 :: int
  assumes "a0 * b0 = q0 * 65536 + r0"
    and "q0 + a1 * b0 = q1 * 65536 + r1" and "r1 + a0 * b1 = q2 * 65536 + r2"
    and "q1 + q2 + a2 * b0 = q3 * 65536 + r3" and "r3 + a1 * b1 = q4 * 65536 + r4"
    and "r4 + a0 * b2 = q5 * 65536 + r5"
    and "q3 + q4 + q5 + (a3 * b0 + a2 * b1 + a1 * b2 + a0 * b3) = q6 * 65536 + r6"
  shows "\<exists>q. (((a3 * 65536 + a2) * 65536 + a1) * 65536 + a0) * (((b3 * 65536 + b2) * 65536 + b1) * 65536 + b0)
    = q * 2 ^ 64 + (((r6 * 65536 + r5) * 65536 + r2) * 65536 + r0)"
proof
  show "(((a3 * 65536 + a2) * 65536 + a1) * 65536 + a0) * (((b3 * 65536 + b2) * 65536 + b1) * 65536 + b0)
    = (q6 + a1 * b3 + a2 * b2 + a3 * b1 + (a2 * b3 + a3 * b2) * 65536 + a3 * b3 * 4294967296) * 2 ^ 64
      + (((r6 * 65536 + r5) * 65536 + r2) * 65536 + r0)"
    using assms by algebra
qed

lemma ml_products_word:
  assumes "ml_wf x" and "ml_wf y"
  shows "ml_word (ml_products x y) = ml_word x * ml_word y"
proof -
  have wf: "arr0 x \<in> {0..<65536}" "arr1 x \<in> {0..<65536}" "arr2 x \<in> {0..<65536}" "arr3 x \<in> {0..<65536}"
    "arr0 y \<in> {0..<65536}" "arr1 y \<in> {0..<65536}" "arr2 y \<in> {0..<65536}" "arr3 y \<in> {0..<65536}"
    using assms by (simp_all add: ml_wf_def)
  define t0 where "t0 = arr0 x * arr0 y"
  define t1 where "t1 = t0 div 65536 + arr1 x * arr0 y"
  define t2 where "t2 = t1 mod 65536 + arr0 x * arr1 y"
  define t3 where "t3 = t1 div 65536 + t2 div 65536 + arr2 x * arr0 y"
  define t4 where "t4 = t3 mod 65536 + arr1 x * arr1 y"
  define t5 where "t5 = t4 mod 65536 + arr0 x * arr2 y"
  define t6 where "t6 = t3 div 65536 + t4 div 65536 + t5 div 65536
    + (arr3 x * arr0 y + arr2 x * arr1 y + arr1 x * arr2 y + arr0 x * arr3 y)"
  note pr = product_range [OF wf(1) wf(5)] product_range [OF wf(2) wf(5)] product_range [OF wf(1) wf(6)]
    product_range [OF wf(3) wf(5)] product_range [OF wf(2) wf(6)] product_range [OF wf(1) wf(7)]
  have mr: "0 \<le> c mod 65536" "c mod 65536 \<le> 65535" for c :: int
    using pos_mod_bound [of 65536 c] by simp_all
  have r0: "0 \<le> t0 \<and> t0 < 4294967296" using pr(1,2) by (simp add: t0_def)
  have r1: "0 \<le> t1 \<and> t1 < 4294967296"
    using pr(3,4) div_65536_range [of t0] r0 by (simp add: t1_def)
  have r2: "0 \<le> t2 \<and> t2 < 4294967296" using pr(5,6) mr [of t1] by (simp add: t2_def)
  have r3: "0 \<le> t3 \<and> t3 < 4294967296"
    using pr(7,8) div_65536_range [of t1] div_65536_range [of t2] r1 r2 by (simp add: t3_def)
  have r4: "0 \<le> t4 \<and> t4 < 4294967296" using pr(9,10) mr [of t3] by (simp add: t4_def)
  have r5: "0 \<le> t5 \<and> t5 < 4294967296" using pr(11,12) mr [of t4] by (simp add: t5_def)
  have "js_shr t0 16 = t0 div 65536" "js_shr t1 16 = t1 div 65536" "js_shr t2 16 = t2 div 65536"
    "js_shr t3 16 = t3 div 65536" "js_shr t4 16 = t4 div 65536" "js_shr t5 16 = t5 div 65536"
    using r0 r1 r2 r3 r4 r5 by (simp_all add: js_shr_div)
  then have eq: "ml_products x y = \<lparr>arr0 = t0 mod 65536, arr1 = t2 mod 65536, arr2 = t5 mod 65536, arr3 = t6 mod 65536\<rparr>"
    unfolding ml_products_def Let_def t6_def t5_def t4_def t3_def t2_def t1_def t0_def
    by (simp only: js_and_masks)
  have "\<exists>q. (((arr3 x * 65536 + arr2 x) * 65536 + arr1 x) * 65536 + arr0 x)
      * (((arr3 y * 65536 + arr2 y) * 65536 + arr1 y) * 65536 + arr0 y)
    = q * 2 ^ 64 + (((t6 mod 65536 * 65536 + t5 mod 65536) * 65536 + t2 mod 65536) * 65536 + t0 mod 65536)"
    by (rule carry_products [where ?q0.0 = "t0 div 65536" and ?q1.0 = "t1 div 65536"
          and ?r1.0 = "t1 mod 65536" and ?q2.0 = "t2 div 65536" and ?q3.0 = "t3 div 65536"
          and ?r3.0 = "t3 mod 65536" and ?q4.0 = "t4 div 65536" and ?r4.0 = "t4 mod 65536"
          and ?q5.0 = "t5 div 65536" and ?q6.0 = "t6 div 65536"])
      (simp_all add: t0_def [symmetric] t1_def [symmetric] t2_def [symmetric]
        t3_def [symmetric] t4_def [symmetric] t5_def [symmetric] t6_def [symmetric])
  then obtain q where "ml_uval x * ml_uval y = q * 2 ^ 64 + ml_uval (ml_products x y)"
    by (auto simp: eq ml_uval_def)
  then have "ml_word (ml_products x y) = word_of_int (ml_uval x * ml_uval y)"
    by (rule ml_word_cong)
  then show ?thesis by (simp add: ml_word_def)
qed

lemma ml_multiply_wf [ml_wf_intros]: "ml_wf x \<Longrightarrow> ml_wf (ml_multiply x y)"
  by (simp add: ml_multiply_def Let_def ml_wf_intros)

lemma ml_multiply_word:
  assumes "ml_wf x" and "ml_wf y"
  shows "ml_word (ml_multiply x y) = ml_word x * ml_word y"
  using assms
  by (auto simp: ml_multiply_def Let_def ml_isZero_word ml_wf_intros ml_products_word ml_negate_word)

lemma ml_multiply_self_word:
  assumes wf: "ml_wf x" and range: "- (2 ^ 63) < sint (ml_word x)" and neg: "ml_isNegative x"
  shows "ml_word (ml_multiply_self x) = - (ml_word x * ml_word x)"
proof -
  have "sint (- ml_word x) = - sint (ml_word x)"
    using range neg wf
    by (simp add: sint_word_ariths ml_isNegative_word signed_take_bit_int_eq_self)
  then have "\<not> ml_isNegative (ml_negate x)"
    using neg wf by (simp add: ml_isNegative_word ml_wf_intros ml_negate_word)
  then show ?thesis
    using neg wf
    by (auto simp: ml_multiply_self_def Let_def ml_isZero_word ml_wf_intros ml_products_word ml_negate_word)
qed

subsection \<open>Bitwise operations and shifts\<close>

lemma piece_or_range:
  assumes "a \<in> {0..<65536}" and "b \<in> {0..<65536}"
  shows "js_or a b \<in> {0..<65536}" and "js_xor a b \<in> {0..<65536}"
proof -
  have id: "to_int32 a = a" "to_int32 b = b" using assms by (simp_all add: to_int32_id)
  have ab: "bit a k \<Longrightarrow> k < 16" "bit b k \<Longrightarrow> k < 16" for k
    using assms by (auto intro: bit_bounded_int [where n = 16])
  have "a OR b < 2 ^ 16" "a XOR b < 2 ^ 16"
    by (rule bits_bounded; use assms ab in \<open>auto simp: bit_simps\<close>)+
  then show "js_or a b \<in> {0..<65536}" "js_xor a b \<in> {0..<65536}"
    using assms by (simp_all add: js_or_def js_xor_def id)
qed

lemma ml_or_wf [ml_wf_intros]: "ml_wf x \<Longrightarrow> ml_wf y \<Longrightarrow> ml_wf (ml_or x y)"
  using piece_or_range(1) unfolding ml_wf_def ml_or_def by simp

lemma ml_xor_wf [ml_wf_intros]: "ml_wf x \<Longrightarrow> ml_wf y \<Longrightarrow> ml_wf (ml_xor x y)"
  using piece_or_range(2) unfolding ml_wf_def ml_xor_def by simp

lemma ml_or_word: "ml_wf x \<Longrightarrow> ml_wf y \<Longrightarrow> ml_word (ml_or x y) = ml_word x OR ml_word y"
  by (rule ml_wordI)
    (auto simp: ml_wf_intros bit_ml_uval bit_or_iff bit_ml_word, auto simp: ml_or_def bit_js_ops)

lemma ml_xor_word: "ml_wf x \<Longrightarrow> ml_wf y \<Longrightarrow> ml_word (ml_xor x y) = ml_word x XOR ml_word y"
  by (rule ml_wordI)
    (auto simp: ml_wf_intros bit_ml_uval bit_xor_iff bit_ml_word, auto simp: ml_xor_def bit_js_ops)

lemma shl_pieces_wf [ml_wf_intros]: "ml_wf m \<Longrightarrow> ml_wf (ml_shl_pieces pos m)"
  by (simp add: ml_wf_def ml_shl_pieces_def)

lemma shr_pieces_wf [ml_wf_intros]: "ml_wf m \<Longrightarrow> ml_wf (ml_shr_pieces pos m)"
  by (simp add: ml_wf_def ml_shr_pieces_def)

lemma shl_bits_wf [ml_wf_intros]: "ml_wf m \<Longrightarrow> ml_wf (ml_shl_bits r m)"
  by (simp add: ml_wf_def ml_shl_bits_def js_and_65535_range)

lemma piece_shr_range: "a \<in> {0..<65536} \<Longrightarrow> r < 32 \<Longrightarrow> js_shr a r \<in> {0..<65536}"
proof -
  assume a: "a \<in> {0..<65536}" and r: "r < 32"
  have "a div 2 ^ r \<le> a div 1" using a by (intro zdiv_mono2) auto
  then show ?thesis using a r by (simp add: js_shr_div pos_imp_zdiv_nonneg_iff)
qed

lemma shr_bits_wf [ml_wf_intros]: "ml_wf m \<Longrightarrow> r < 16 \<Longrightarrow> ml_wf (ml_shr_bits r m)"
  using piece_or_range(1) piece_shr_range js_and_65535_range
  unfolding ml_wf_def ml_shr_bits_def by (simp del: atLeastLessThan_iff) (simp)

lemma nat_less_4_cases: "(pos::nat) < 4 \<Longrightarrow> pos = 0 \<or> pos = 1 \<or> pos = 2 \<or> pos = 3"
  by auto

lemma shl_pieces_word:
  assumes "pos < 4"
  shows "ml_word (ml_shl_pieces pos m) = push_bit (16 * pos) (ml_word m)"
proof -
  have "\<exists>q. ml_uval m * 2 ^ (16 * pos) = q * 2 ^ 64 + ml_uval (ml_shl_pieces pos m)"
    using nat_less_4_cases [OF assms]
  proof (elim disjE)
    assume "pos = 0" then show ?thesis by (intro exI [of _ 0]) (simp add: ml_shl_pieces_def)
  next
    assume "pos = 1" then show ?thesis
      by (intro exI [of _ "arr3 m"]) (simp add: ml_shl_pieces_def ml_uval_def)
  next
    assume "pos = 2" then show ?thesis
      by (intro exI [of _ "arr3 m * 65536 + arr2 m"]) (simp add: ml_shl_pieces_def ml_uval_def)
  next
    assume "pos = 3" then show ?thesis
      by (intro exI [of _ "(arr3 m * 65536 + arr2 m) * 65536 + arr1 m"])
        (simp add: ml_shl_pieces_def ml_uval_def)
  qed
  then have "ml_word (ml_shl_pieces pos m) = word_of_int (ml_uval m * 2 ^ (16 * pos))"
    using ml_word_cong by blast
  then show ?thesis by (simp add: ml_word_def push_bit_eq_mult)
qed

lemma piece_shl:
  assumes "a \<in> {0..<65536}" and "b \<in> {0..<65536}" and "0 < r" and "r < 16"
  shows "js_and (js_or (js_shl a r) (js_shr b (16 - r))) 65535 = (a * 2 ^ r + b div 2 ^ (16 - r)) mod 65536"
    and "(a * 2 ^ r + b div 2 ^ (16 - r)) div 65536 = a div 2 ^ (16 - r)"
proof -
  have pow: "2 ^ r * 2 ^ (16 - r) = (65536 :: int)"
    using assms(4) by (simp flip: power_add)
  have "a * 2 ^ r \<le> 65535 * 32768"
    using assms power_increasing [of r 15 "2::int"] by (intro mult_mono) auto
  moreover have "0 \<le> a * 2 ^ r" using assms by simp
  ultimately have "to_int32 (a * 2 ^ r) = a * 2 ^ r" by (intro to_int32_id) linarith+
  then have shl: "js_shl a r = a * 2 ^ r" using assms(4) by (simp add: js_shl_mult)
  have shr: "js_shr b (16 - r) = b div 2 ^ (16 - r)" using assms by (simp add: js_shr_div)
  have c: "0 \<le> b div 2 ^ (16 - r)" "b div 2 ^ (16 - r) < 2 ^ r"
    using assms pow pos_div_less [of b "2 ^ r" "2 ^ (16 - r)"] by (simp_all add: pos_imp_zdiv_nonneg_iff)
  show "js_and (js_or (js_shl a r) (js_shr b (16 - r))) 65535 = (a * 2 ^ r + b div 2 ^ (16 - r)) mod 65536"
    using c by (simp add: shl shr js_or_disjoint js_and_masks)
  have "(a * 2 ^ r + b div 2 ^ (16 - r)) div 65536
      = (a * 2 ^ r + b div 2 ^ (16 - r)) div 2 ^ r div 2 ^ (16 - r)"
    by (simp add: pow [symmetric] zdiv_zmult2_eq)
  also have "\<dots> = a div 2 ^ (16 - r)" using c by simp
  finally show "(a * 2 ^ r + b div 2 ^ (16 - r)) div 65536 = a div 2 ^ (16 - r)" .
qed

lemma shl_bits_word:
  assumes "ml_wf m" and "r < 16"
  shows "ml_word (ml_shl_bits r m) = push_bit r (ml_word m)"
proof (cases "r = 0")
  case False
  then have r: "0 < r" by simp
  have m: "arr0 m \<in> {0..<65536}" "arr1 m \<in> {0..<65536}" "arr2 m \<in> {0..<65536}" "arr3 m \<in> {0..<65536}"
    using assms(1) by (simp_all add: ml_wf_def)
  have z: "(0::int) \<in> {0..<65536}" by simp
  define d where "d = (2::int) ^ (16 - r)"
  define p0 where "p0 = (arr0 m * 2 ^ r + 0 div d) mod 65536"
  define p1 where "p1 = (arr1 m * 2 ^ r + arr0 m div d) mod 65536"
  define p2 where "p2 = (arr2 m * 2 ^ r + arr1 m div d) mod 65536"
  define p3 where "p3 = (arr3 m * 2 ^ r + arr2 m div d) mod 65536"
  have "js_and (js_shl (arr0 m) r) 65535 = p0"
    using assms(2) by (simp add: p0_def js_and_masks js_shl_mult)
  then have eq: "ml_shl_bits r m = \<lparr>arr0 = p0, arr1 = p1, arr2 = p2, arr3 = p3\<rparr>"
    using r by (simp only: ml_shl_bits_def if_True p1_def p2_def p3_def d_def
        piece_shl(1) [OF m(2) m(1) r assms(2)] piece_shl(1) [OF m(3) m(2) r assms(2)]
        piece_shl(1) [OF m(4) m(3) r assms(2)])
  have "((arr3 m * 2 ^ r * 65536 + arr2 m * 2 ^ r) * 65536 + arr1 m * 2 ^ r) * 65536 + arr0 m * 2 ^ r
      = (arr3 m div d) * 2 ^ 64 + (((p3 * 65536 + p2) * 65536 + p1) * 65536 + p0)"
  proof (rule carry_sum)
    show "arr0 m * 2 ^ r = arr0 m div d * 65536 + p0"
      using piece_shl(2) [OF m(1) z r assms(2)] div_mult_mod_eq [of "arr0 m * 2 ^ r" 65536]
      by (simp add: d_def p0_def)
    show "arr0 m div d + arr1 m * 2 ^ r = arr1 m div d * 65536 + p1"
      using piece_shl(2) [OF m(2) m(1) r assms(2)] div_mult_mod_eq [of "arr1 m * 2 ^ r + arr0 m div d" 65536]
      by (simp add: d_def p1_def)
    show "arr1 m div d + arr2 m * 2 ^ r = arr2 m div d * 65536 + p2"
      using piece_shl(2) [OF m(3) m(2) r assms(2)] div_mult_mod_eq [of "arr2 m * 2 ^ r + arr1 m div d" 65536]
      by (simp add: d_def p2_def)
    show "arr2 m div d + arr3 m * 2 ^ r = arr3 m div d * 65536 + p3"
      using piece_shl(2) [OF m(4) m(3) r assms(2)] div_mult_mod_eq [of "arr3 m * 2 ^ r + arr2 m div d" 65536]
      by (simp add: d_def p3_def)
  qed
  then have "ml_uval m * 2 ^ r = (arr3 m div d) * 2 ^ 64 + ml_uval (ml_shl_bits r m)"
    by (simp add: eq ml_uval_def algebra_simps)
  then have "ml_word (ml_shl_bits r m) = word_of_int (ml_uval m * 2 ^ r)"
    by (rule ml_word_cong)
  then show ?thesis by (simp add: ml_word_def push_bit_eq_mult)
qed (simp add: ml_shl_bits_def)

lemma ml_shiftLeft_wf [ml_wf_intros]: "ml_wf m \<Longrightarrow> ml_wf (ml_shiftLeft m n)"
  by (simp add: ml_shiftLeft_def ml_wf_intros)

lemma ml_shiftLeft_word:
  assumes "ml_wf m"
  shows "ml_word (ml_shiftLeft m n) = push_bit n (ml_word m)"
proof (cases "n < 64")
  case True
  then have "ml_word (ml_shl_bits (n mod 16) (ml_shl_pieces (n div 16) m))
      = push_bit (n mod 16 + 16 * (n div 16)) (ml_word m)"
    using assms by (simp add: shl_bits_word shl_pieces_word ml_wf_intros push_bit_push_bit)
  then show ?thesis using True by (simp add: ml_shiftLeft_def)
next
  case False
  then show ?thesis by (auto simp: ml_shiftLeft_def intro!: bit_word_eqI simp: bit_simps)
qed

lemma shr_pieces_uval:
  assumes "ml_wf m" and "pos < 4"
  shows "ml_uval (ml_shr_pieces pos m) = ml_uval m div 2 ^ (16 * pos)"
proof -
  have m: "0 \<le> arr0 m" "arr0 m < 65536" "0 \<le> arr1 m" "arr1 m < 65536" "0 \<le> arr2 m" "arr2 m < 65536"
    using assms(1) by (auto simp: ml_wf_def)
  have d1: "ml_uval m div 65536 = (arr3 m * 65536 + arr2 m) * 65536 + arr1 m"
    using m by (simp add: ml_uval_def)
  have d2: "((arr3 m * 65536 + arr2 m) * 65536 + arr1 m) div 65536 = arr3 m * 65536 + arr2 m"
    using m by simp
  have d3: "(arr3 m * 65536 + arr2 m) div 65536 = arr3 m" using m by simp
  have e2: "ml_uval m div 4294967296 = ml_uval m div 65536 div 65536"
    by (simp add: zdiv_zmult2_eq [symmetric])
  have e3: "ml_uval m div 281474976710656 = ml_uval m div 65536 div 65536 div 65536"
    by (simp add: zdiv_zmult2_eq [symmetric])
  show ?thesis
    using nat_less_4_cases [OF assms(2)]
  proof (elim disjE)
    assume "pos = 0" then show ?thesis by (simp add: ml_shr_pieces_def)
  next
    assume "pos = 1" then show ?thesis using d1 by (simp add: ml_shr_pieces_def, simp add: ml_uval_def)
  next
    have "ml_uval m div 4294967296 = arr3 m * 65536 + arr2 m" by (simp only: e2 d1 d2)
    moreover assume "pos = 2"
    ultimately show ?thesis by (simp add: ml_shr_pieces_def) (simp add: ml_uval_def)
  next
    have "ml_uval m div 281474976710656 = arr3 m" by (simp only: e3 d1 d2 d3)
    moreover assume "pos = 3"
    ultimately show ?thesis by (simp add: ml_shr_pieces_def) (simp add: ml_uval_def)
  qed
qed

lemma piece_shr:
  assumes "a \<in> {0..<65536}" and "b \<in> {0..<65536}" and "0 < r" and "r < 16"
  shows "js_or (js_shr a r) (js_and (js_shl b (16 - r)) 65535) = a div 2 ^ r + b mod 2 ^ r * 2 ^ (16 - r)"
proof -
  have pow: "2 ^ r * 2 ^ (16 - r) = (65536 :: int)"
    using assms(4) by (simp flip: power_add)
  have shr: "js_shr a r = a div 2 ^ r" using assms by (simp add: js_shr_div)
  have "js_and (js_shl b (16 - r)) 65535 = (b * 2 ^ (16 - r)) mod (2 ^ r * 2 ^ (16 - r))"
    using assms by (simp add: js_and_masks js_shl_mult pow)
  then have shl: "js_and (js_shl b (16 - r)) 65535 = b mod 2 ^ r * 2 ^ (16 - r)"
    by (simp add: mult_mod_left)
  have c: "0 \<le> a div 2 ^ r" "a div 2 ^ r < 2 ^ (16 - r)"
    using assms pow pos_div_less [of a "2 ^ (16 - r)" "2 ^ r"]
    by (simp_all add: pos_imp_zdiv_nonneg_iff mult.commute)
  have "js_or (js_shr a r) (js_and (js_shl b (16 - r)) 65535)
      = js_or (b mod 2 ^ r * 2 ^ (16 - r)) (a div 2 ^ r)"
    by (simp add: shr shl js_or_def or.commute)
  also have "\<dots> = to_int32 (b mod 2 ^ r * 2 ^ (16 - r) + a div 2 ^ r)"
    using c by (rule js_or_disjoint)
  also have "\<dots> = b mod 2 ^ r * 2 ^ (16 - r) + a div 2 ^ r"
  proof -
    have "b mod 2 ^ r * 2 ^ (16 - r) \<le> (2 ^ r - 1) * 2 ^ (16 - r)"
      by (intro mult_right_mono) (simp_all add: zle_diff1_eq)
    also have "\<dots> = 65536 - 2 ^ (16 - r)" using pow by (simp add: left_diff_distrib)
    finally have "b mod 2 ^ r * 2 ^ (16 - r) + a div 2 ^ r < 65536" using c by linarith
    moreover have "0 \<le> b mod 2 ^ r * 2 ^ (16 - r)" by simp
    ultimately show ?thesis using c by (intro to_int32_id) linarith+
  qed
  finally show ?thesis by simp
qed

lemma borrow_sum:
  fixes a0 a1 a2 a3 :: int
  assumes "a0 = h0 * P + l0" and "a1 = h1 * P + l1" and "a2 = h2 * P + l2" and "a3 = h3 * P + l3"
    and "P * Q = 65536"
  shows "((a3 * 65536 + a2) * 65536 + a1) * 65536 + a0
    = (((h3 * 65536 + (h2 + l3 * Q)) * 65536 + (h1 + l2 * Q)) * 65536 + (h0 + l1 * Q)) * P + l0"
  using assms by algebra

lemma shr_bits_uval:
  assumes "ml_wf m" and "r < 16"
  shows "ml_uval (ml_shr_bits r m) = ml_uval m div 2 ^ r"
proof (cases "r = 0")
  case False
  then have r: "0 < r" by simp
  have m: "arr0 m \<in> {0..<65536}" "arr1 m \<in> {0..<65536}" "arr2 m \<in> {0..<65536}" "arr3 m \<in> {0..<65536}"
    using assms(1) by (simp_all add: ml_wf_def)
  have pow: "2 ^ r * 2 ^ (16 - r) = (65536 :: int)"
    using assms(2) by (simp flip: power_add)
  have "js_shr (arr3 m) r = arr3 m div 2 ^ r" using m(4) assms(2) by (simp add: js_shr_div)
  then have eq: "ml_shr_bits r m =
     \<lparr>arr0 = arr0 m div 2 ^ r + arr1 m mod 2 ^ r * 2 ^ (16 - r),
      arr1 = arr1 m div 2 ^ r + arr2 m mod 2 ^ r * 2 ^ (16 - r),
      arr2 = arr2 m div 2 ^ r + arr3 m mod 2 ^ r * 2 ^ (16 - r),
      arr3 = arr3 m div 2 ^ r\<rparr>"
    using r by (simp only: ml_shr_bits_def if_True piece_shr [OF m(1) m(2) r assms(2)]
        piece_shr [OF m(2) m(3) r assms(2)] piece_shr [OF m(3) m(4) r assms(2)])
  have split: "arr0 m = arr0 m div 2 ^ r * 2 ^ r + arr0 m mod 2 ^ r"
    "arr1 m = arr1 m div 2 ^ r * 2 ^ r + arr1 m mod 2 ^ r"
    "arr2 m = arr2 m div 2 ^ r * 2 ^ r + arr2 m mod 2 ^ r"
    "arr3 m = arr3 m div 2 ^ r * 2 ^ r + arr3 m mod 2 ^ r"
    by (rule div_mult_mod_eq [symmetric])+
  have "ml_uval m = ml_uval (ml_shr_bits r m) * 2 ^ r + arr0 m mod 2 ^ r"
    using borrow_sum [OF split pow] by (simp add: eq ml_uval_def)
  then show ?thesis by simp
qed (simp add: ml_shr_bits_def)

lemma ml_shiftRightUnsigned_wf [ml_wf_intros]: "ml_wf m \<Longrightarrow> ml_wf (ml_shiftRightUnsigned m n)"
  by (simp add: ml_shiftRightUnsigned_def ml_wf_intros)

lemma ml_shiftRightUnsigned_word:
  assumes "ml_wf m"
  shows "ml_word (ml_shiftRightUnsigned m n) = drop_bit n (ml_word m)"
proof (cases "n < 64")
  case True
  have "ml_uval m div 2 ^ (16 * (n div 16)) div 2 ^ (n mod 16) = ml_uval m div 2 ^ n"
    by (simp add: zdiv_zmult2_eq [symmetric] flip: power_add)
  then have "ml_uval (ml_shr_bits (n mod 16) (ml_shr_pieces (n div 16) m)) = uint (ml_word m) div 2 ^ n"
    using True assms by (simp add: shr_bits_uval shr_pieces_uval ml_wf_intros uint_ml_word)
  then have "uint (ml_word (ml_shr_bits (n mod 16) (ml_shr_pieces (n div 16) m))) = uint (drop_bit n (ml_word m))"
    using assms by (simp add: uint_drop_bit uint_ml_word ml_wf_intros) (simp add: drop_bit_eq_div)
  then show ?thesis using True by (auto simp: ml_shiftRightUnsigned_def word_uint_eq_iff)
next
  case False
  then show ?thesis
    by (auto simp: ml_shiftRightUnsigned_def intro!: bit_word_eqI simp: bit_simps dest: bit_imp_le_length)
qed

subsection \<open>Comparison\<close>

lemma compareBits_uval:
  assumes "ml_wf x" and "ml_wf y"
  shows "ml_compareBits x y = sgn (ml_uval x - ml_uval y)"
  using assms by (auto simp: ml_compareBits_def ml_wf_def ml_uval_def sgn_if)

lemma isNegative_arr3: "ml_wf m \<Longrightarrow> ml_isNegative m \<longleftrightarrow> 32768 \<le> arr3 m"
proof -
  assume wf: "ml_wf m"
  then have r: "0 \<le> arr3 m" "arr3 m < 65536" by (auto simp: ml_wf_def)
  have "arr3 m div 32768 = (if 32768 \<le> arr3 m then 1 else 0)"
    using r by (auto intro: int_div_pos_eq [of _ _ 1 "arr3 m - 32768"])
  then show ?thesis using wf by (simp add: isNegative_piece bit_iff_odd)
qed

lemma sint_ml_word:
  assumes "ml_wf m"
  shows "sint (ml_word m) = (if ml_isNegative m then ml_uval m - 2 ^ 64 else ml_uval m)"
proof -
  have "sint (ml_word m) = signed_take_bit 63 (ml_uval m)"
    using uint_ml_word [OF assms] by (simp add: sint_uint)
  also have "\<dots> = (ml_uval m + 2 ^ 63) mod 2 ^ 64 - 2 ^ 63"
    by (simp add: signed_take_bit_eq_take_bit_shift take_bit_eq_mod)
  also have "\<dots> = (if 2 ^ 63 \<le> ml_uval m then ml_uval m - 2 ^ 64 else ml_uval m)"
    using ml_uval_range [OF assms] by (auto simp: mod_pos_geq)
  also have "2 ^ 63 \<le> ml_uval m \<longleftrightarrow> ml_isNegative m"
    using assms unfolding isNegative_arr3 [OF assms] by (auto simp: ml_wf_def ml_uval_def)
  finally show ?thesis .
qed

lemma ml_compare_word:
  assumes "ml_wf x" and "ml_wf y"
  shows "ml_compare x y = sgn (sint (ml_word x) - sint (ml_word y))"
  using assms ml_uval_range [OF assms(1)] ml_uval_range [OF assms(2)]
  by (auto simp: ml_compare_def compareBits_uval sint_ml_word sgn_if)

text \<open>\<open>MutableLong.compare\<close> follows the signed 64-bit value.\<close>

interpretation ml_order: comparable ml_compare ml_wf "\<lambda>m. sint (ml_word m)"
  by unfold_locales (simp_all add: ml_compare_word sgn_if)

subsection \<open>Conversions\<close>

lemma ml_halves:
  assumes "ml_wf m"
  shows "ml_getLowBitsUnsigned m = ml_uval m mod 2 ^ 32" and "ml_getHighBitsUnsigned m = ml_uval m div 2 ^ 32"
proof -
  have m: "0 \<le> arr0 m" "arr0 m < 65536" "0 \<le> arr1 m" "arr1 m < 65536"
    "0 \<le> arr2 m" "arr2 m < 65536" "0 \<le> arr3 m" "arr3 m < 65536"
    using assms by (auto simp: ml_wf_def)
  have u: "ml_uval m = (arr3 m * 65536 + arr2 m) * 2 ^ 32 + (arr1 m * 65536 + arr0 m)"
    by (simp add: ml_uval_def)
  have lo: "0 \<le> arr1 m * 65536 + arr0 m" "arr1 m * 65536 + arr0 m < 2 ^ 32"
    and hi: "0 \<le> arr3 m * 65536 + arr2 m" "arr3 m * 65536 + arr2 m < 4294967296"
    using m by simp_all
  have "ml_getLowBitsUnsigned m = arr1 m * 65536 + arr0 m"
    using m lo by (simp add: ml_getLowBitsUnsigned_def js_and_masks js_or_commute [of "arr0 m"] or_pieces js_shr_0)
  then show "ml_getLowBitsUnsigned m = ml_uval m mod 2 ^ 32"
    by (simp only: u base_split(1) [OF lo])
  have "ml_getHighBitsUnsigned m = arr3 m * 65536 + arr2 m"
    using m hi by (simp add: ml_getHighBitsUnsigned_def js_or_commute [of "arr2 m"] or_pieces js_shr_0)
  then show "ml_getHighBitsUnsigned m = ml_uval m div 2 ^ 32"
    by (simp only: u base_split(2) [OF lo])
qed

lemma ml_toNumber_word:
  assumes "ml_wf m"
  shows "ml_toNumber m = js_round (sint (ml_word m))"
proof -
  have m: "0 \<le> arr0 m" "arr0 m < 65536" "0 \<le> arr1 m" "arr1 m < 65536"
    "0 \<le> arr2 m" "arr2 m < 65536" "0 \<le> arr3 m" "arr3 m < 65536"
    using assms by (auto simp: ml_wf_def)
  have hi: "js_or (js_shl (arr3 m) 16) (arr2 m)
      = (if ml_isNegative m then arr3 m * 65536 + arr2 m - 4294967296 else arr3 m * 65536 + arr2 m)"
    using m assms by (auto simp: or_pieces isNegative_arr3 to_int32_mod mod_pos_geq)
  have lo: "js_shr (js_or (js_shl (arr1 m) 16) (arr0 m)) 0 = arr1 m * 65536 + arr0 m"
    using m by (simp add: or_pieces js_shr_0)
  show ?thesis unfolding ml_toNumber_def hi lo sint_ml_word [OF assms]
    by (simp add: ml_uval_def algebra_simps)
qed

lemma ml_fromBits_word:
  assumes "0 \<le> lo" and "lo < 4294967296"
  shows "ml_word (ml_fromBits lo hi) = word_of_int (hi * 4294967296 + lo)"
proof -
  have "ml_uval (ml_fromBits lo hi) = (js_and (js_shr hi 16) 65535 * 65536 + js_and hi 65535) * 4294967296
      + (js_and (js_shr lo 16) 65535 * 65536 + js_and lo 65535)"
    by (simp add: ml_fromBits_def new_mutable_long_def ml_uval_def)
  then have "ml_uval (ml_fromBits lo hi) = hi mod 4294967296 * 4294967296 + lo"
    using assms by (simp add: halves_of_uint32 to_uint32_mod)
  then have "hi * 4294967296 + lo = hi div 4294967296 * 2 ^ 64 + ml_uval (ml_fromBits lo hi)"
    using div_mult_mod_eq [of hi 4294967296] by algebra
  then show ?thesis by (rule ml_word_cong)
qed

lemma ml_fromNumber_wf [ml_wf_intros]: "ml_wf (ml_fromNumber v)"
  by (cases v) (simp_all add: ml_fromNumber_def ml_fromBits_def ml_wf_intros)

lemma ml_fromNumber_word [simp]: "ml_word (ml_fromNumber (JsInt n)) = word_of_int n"
proof -
  have "ml_wf (ml_fromBits a b)" for a b by (simp add: ml_fromBits_def ml_wf_intros)
  then show ?thesis by (simp add: ml_fromNumber_def ml_negate_word ml_fromBits_word)
qed

subsection \<open>Parsing\<close>

lemma ml_loop_wf:
  "ml_wf res \<Longrightarrow> ml_wf (ml_fromString_loop radix res str)"
proof (induction radix res str rule: ml_fromString_loop.induct)
  case (1 radix res str)
  then show ?case
    by (subst ml_fromString_loop.simps) (auto simp: Let_def ml_wf_intros)
qed

lemma ml_loop_word:
  assumes "ml_wf res" and "\<forall>c \<in> set str. is_digit radix c" and "2 \<le> radix" and "radix \<le> 36"
  shows "ml_word (ml_fromString_loop radix res str)
    = ml_word res * of_nat (radix ^ length str) + of_nat (digits_value radix str)"
  using assms
proof (induction radix res str rule: ml_fromString_loop.induct)
  case (1 radix res str)
  show ?case
  proof (cases "str = []")
    case True
    then show ?thesis by (simp add: ml_fromString_loop.simps)
  next
    case False
    define size where "size = min 8 (length str)"
    define chunk where "chunk = take size str"
    define res' where "res' = ml_add (ml_multiply res (ml_fromNumber (JsInt (int (radix ^ size)))))
      (ml_fromNumber (js_parseInt chunk radix))"
    have chunk: "chunk \<noteq> []" "\<forall>c \<in> set chunk. is_digit radix c" "length chunk = size"
      using False 1(3) set_take_subset [of size str] by (auto simp: chunk_def size_def)
    have wf': "ml_wf res'" by (simp add: res'_def ml_wf_intros)
    have w': "ml_word res' = ml_word res * of_nat (radix ^ size) + of_nat (digits_value radix chunk)"
      using chunk 1(2,5) by (simp add: res'_def ml_add_word ml_multiply_word ml_wf_intros parseInt_digits)
    have step: "ml_fromString_loop radix res str
        = (if size < 8 then res' else ml_fromString_loop radix res' (drop 8 str))"
      using False by (subst ml_fromString_loop.simps) (simp add: Let_def size_def chunk_def res'_def)
    show ?thesis
    proof (cases "size < 8")
      case True
      then have "chunk = str" "size = length str" by (auto simp: chunk_def size_def)
      then show ?thesis using True step w' by simp
    next
      case False
      then have size: "size = 8" and len: "8 \<le> length str" by (auto simp: size_def)
      have "ml_word (ml_fromString_loop radix res' (drop 8 str))
          = ml_word res' * of_nat (radix ^ length (drop 8 str)) + of_nat (digits_value radix (drop 8 str))"
        using 1(1) [OF \<open>str \<noteq> []\<close> refl refl refl refl] wf' 1(3,4,5) False set_drop_subset [of 8 str]
        by (auto simp: size_def chunk_def res'_def)
      moreover have "digits_value radix str
          = digits_value radix chunk * radix ^ length (drop 8 str) + digits_value radix (drop 8 str)"
        using digits_value_append [of radix "take 8 str" "drop 8 str"] by (simp add: chunk_def size)
      moreover have "radix ^ length str = radix ^ 8 * radix ^ length (drop 8 str)"
        using len by (simp flip: power_add)
      ultimately show ?thesis using False step w' by (simp add: size algebra_simps)
    qed
  qed
qed

lemma ml_fromString_wf: "ml_fromString str radix = Inr m \<Longrightarrow> ml_wf m"
  by (induction str radix arbitrary: m rule: ml_fromString.induct)
    (auto simp: Let_def ml_wf_intros ml_loop_wf split: if_splits)

lemma ml_fromString_digits:
  assumes "str \<noteq> []" and "\<forall>c \<in> set str. is_digit radix c" and "2 \<le> radix" and "radix \<le> 36"
    and "str \<noteq> ''NaN''" and "str \<noteq> ''Infinity''"
  shows "\<exists>m. ml_fromString str radix = Inr m \<and> ml_word m = of_nat (digits_value radix str)"
proof -
  obtain c cs where str: "str = c # cs" using assms(1) by (cases str) auto
  have minus: "CHR ''-'' \<notin> set str" and plus: "CHR ''+'' \<notin> set str"
    using assms(2) digit_not_special(2) [of radix "CHR ''-''"] digit_not_special(3) [of radix "CHR ''+''"]
    by auto
  then have "str \<noteq> ''+Infinity''" "str \<noteq> ''-Infinity''" by (metis list.set_intros(1))+
  then have "ml_fromString str radix = Inr (ml_fromString_loop radix ml_default str)"
    using assms(3-6) minus unfolding str
    by (subst ml_fromString.simps) (simp add: Let_def eq_commute [of c] del: list.inject)
  then show ?thesis
    using assms ml_loop_word [of ml_default str radix] by (simp add: ml_wf_intros)
qed

section \<open>Properties\<close>

text \<open>
  C1: on well-formed values, \<open>add\<close>, \<open>negate\<close> and \<open>multiply\<close> compute the 64-bit two's
  complement sum, negation and product of the values read as 64-bit words, and leave the four
  pieces in the 16-bit range.
\<close>

theorem ml_arith_refines_word64:
  assumes "ml_wf x" and "ml_wf y"
  shows "ml_word (ml_add x y) = ml_word x + ml_word y \<and> ml_wf (ml_add x y)
    \<and> ml_word (ml_negate x) = - ml_word x \<and> ml_wf (ml_negate x)
    \<and> ml_word (ml_multiply x y) = ml_word x * ml_word y \<and> ml_wf (ml_multiply x y)"
  using assms by (simp add: ml_add_word ml_negate_word ml_multiply_word ml_wf_intros)

theorem ml_arith_refines_word64_witness:
  "ml_word (ml_multiply \<lparr>arr0 = 65535, arr1 = 65535, arr2 = 65535, arr3 = 65535\<rparr>
      \<lparr>arr0 = 7, arr1 = 0, arr2 = 1, arr3 = 0\<rparr>) = - 4294967303"
  using ml_arith_refines_word64 [of "\<lparr>arr0 = 65535, arr1 = 65535, arr2 = 65535, arr3 = 65535\<rparr>"
      "\<lparr>arr0 = 7, arr1 = 0, arr2 = 1, arr3 = 0\<rparr>"]
  by (simp add: ml_wf_def ml_word_def ml_uval_def)

text \<open>
  C25: \<open>shiftLeft\<close> and \<open>shiftRightUnsigned\<close> are the 64-bit left shift and the 64-bit logical
  right shift for every shift count, including those of 64 and more.
\<close>

theorem ml_shifts_refine_word64:
  assumes "ml_wf m"
  shows "ml_word (ml_shiftLeft m n) = push_bit n (ml_word m)
    \<and> ml_word (ml_shiftRightUnsigned m n) = drop_bit n (ml_word m)
    \<and> ml_wf (ml_shiftLeft m n) \<and> ml_wf (ml_shiftRightUnsigned m n)"
  using assms by (simp add: ml_shiftLeft_word ml_shiftRightUnsigned_word ml_wf_intros)

theorem ml_shifts_refine_word64_witness:
  "ml_word (ml_shiftRightUnsigned \<lparr>arr0 = 5, arr1 = 9, arr2 = 1, arr3 = 32768\<rparr> 47) = 65536"
  using ml_shifts_refine_word64 [of "\<lparr>arr0 = 5, arr1 = 9, arr2 = 1, arr3 = 32768\<rparr>" 47]
  by (simp add: ml_wf_def ml_word_def ml_uval_def)

text \<open>
  \<open>fromString\<close> on a non-empty string of digits of a radix between 2 and 36 returns the value
  of the digits modulo \<open>2 ^ 64\<close>, and with a leading minus sign its negation. The texts
  \<open>NaN\<close> and \<open>Infinity\<close>, which are digit strings in a large radix, are the exception.
\<close>

theorem ml_fromString_value:
  assumes "str \<noteq> []" and "\<forall>c \<in> set str. is_digit radix c" and "2 \<le> radix" and "radix \<le> 36"
    and "str \<noteq> ''NaN''" and "str \<noteq> ''Infinity''"
  shows "(\<exists>m. ml_fromString str radix = Inr m \<and> ml_wf m \<and> ml_word m = of_nat (digits_value radix str))
    \<and> (\<exists>m. ml_fromString (CHR ''-'' # str) radix = Inr m \<and> ml_wf m
          \<and> ml_word m = - of_nat (digits_value radix str))"
proof -
  obtain m where m: "ml_fromString str radix = Inr m" "ml_word m = of_nat (digits_value radix str)"
    using ml_fromString_digits [OF assms] by blast
  have wf: "ml_wf m" using m(1) by (rule ml_fromString_wf)
  have "ml_fromString (CHR ''-'' # str) radix = Inr (ml_negate m)"
    using m(1) assms(3-6) by (simp add: Let_def)
  then show ?thesis using m wf by (simp add: ml_negate_word ml_wf_intros)
qed

theorem ml_fromString_value_witness:
  "\<exists>m. ml_fromString ''-9223372036854775808'' 10 = Inr m \<and> sint (ml_word m) = - 9223372036854775808"
proof -
  have "digits_value 10 ''9223372036854775808'' = 9223372036854775808"
    by (simp add: digits_value_def digit_num_def digit_val_def char_code_def Let_def)
  then show ?thesis
    using ml_fromString_value [of "''9223372036854775808''" 10]
    by (auto simp: is_digit_def digit_val_def char_code_def Let_def)
qed

text \<open>
  \<open>toNumber\<close> is the signed 64-bit value rounded to a double, and \<open>fromNumber\<close> of any integral
  number is that integer modulo \<open>2 ^ 64\<close>; so a number of magnitude at most \<open>2 ^ 53\<close> survives
  the round trip exactly.
\<close>

theorem ml_number_roundtrip:
  assumes "\<bar>n\<bar> \<le> 2 ^ 53"
  shows "ml_toNumber (ml_fromNumber (JsInt n)) = n"
proof -
  have "sint (word_of_int n :: 64 word) = n"
    using assms by (simp add: sint_sbintrunc' signed_take_bit_int_eq_self abs_le_iff)
  then show ?thesis using assms by (simp add: ml_toNumber_word ml_wf_intros)
qed

theorem ml_number_roundtrip_witness:
  "ml_toNumber (ml_fromNumber (JsInt (- 4503599627370497))) = - 4503599627370497"
  by (rule ml_number_roundtrip) simp

text \<open>
  Squaring in place, \<open>x.multiply(x)\<close>, returns the wrong sign for a negative receiver: the
  negation of the receiver is seen through the argument, so the result is the negated square.
\<close>

theorem ml_multiply_self_wrong_sign:
  assumes "ml_wf x" and "- (2 ^ 63) < sint (ml_word x)" and "ml_isNegative x"
  shows "ml_word (ml_multiply_self x) = - (ml_word x * ml_word x)"
  using assms by (rule ml_multiply_self_word)

theorem ml_multiply_self_wrong_sign_witness:
  "ml_word (ml_multiply_self \<lparr>arr0 = 65533, arr1 = 65535, arr2 = 65535, arr3 = 65535\<rparr>) = - 9"
proof -
  let ?x = "\<lparr>arr0 = 65533, arr1 = 65535, arr2 = 65535, arr3 = 65535\<rparr>"
  have "ml_wf ?x" by (simp add: ml_wf_def)
  moreover have "ml_word ?x = - 3" by (simp add: ml_word_def ml_uval_def)
  moreover have "ml_isNegative ?x" using \<open>ml_wf ?x\<close> by (simp add: isNegative_arr3)
  ultimately show ?thesis using ml_multiply_self_wrong_sign [of ?x] by simp
qed

end
