(* ===== verification/Token_Range.thy ===== *)
theory Token_Range
  imports Mutable_Long
begin

text \<open>
  \<^verbatim>\<open>src/lib/token.js\<close>: tokens of the partition ring and ranges of tokens. A token holds a raw
  value and compares through the \<open>compare\<close> method of that value's class, which is the argument
  \<open>vcmp\<close> of the definitions; a range holds a tokenizer object, of which the code uses
  \<open>minToken()\<close> and \<open>split(start, end, n)\<close> and whose class is not part of the repository, so it
  is a record of two parameters.
\<close>

section \<open>Tokens\<close>

datatype token_kind = AbstractToken | Murmur3Token | RandomToken | ByteOrderedToken

record 'v token =
  tok_kind :: token_kind
  tok_value :: 'v

definition token_getType :: "'v token \<Rightarrow> string result" where
  "token_getType t =
    (case tok_kind t of
       AbstractToken \<Rightarrow> Inl PlainError
     | Murmur3Token \<Rightarrow> Inr ''bigint''
     | RandomToken \<Rightarrow> Inr ''varint''
     | ByteOrderedToken \<Rightarrow> Inr ''blob'')"

definition token_compare :: "('v \<Rightarrow> 'v \<Rightarrow> int) \<Rightarrow> 'v token \<Rightarrow> 'v token \<Rightarrow> int" where
  "token_compare vcmp t u = vcmp (tok_value t) (tok_value u)"

definition token_equals :: "('v \<Rightarrow> 'v \<Rightarrow> int) \<Rightarrow> 'v token \<Rightarrow> 'v token \<Rightarrow> bool" where
  "token_equals vcmp t u \<longleftrightarrow> token_compare vcmp t u = 0"

section \<open>Token ranges\<close>

record 'v tokenizer =
  minToken :: "'v token"
  split_points :: "'v token \<Rightarrow> 'v token \<Rightarrow> int \<Rightarrow> 'v token list"

record 'v token_range =
  range_start :: "'v token"
  range_end :: "'v token"

definition new_range :: "'v token \<Rightarrow> 'v token \<Rightarrow> 'v token_range" where
  "new_range s e = \<lparr>range_start = s, range_end = e\<rparr>"

definition range_isEmpty :: "('v \<Rightarrow> 'v \<Rightarrow> int) \<Rightarrow> 'v tokenizer \<Rightarrow> 'v token_range \<Rightarrow> bool" where
  "range_isEmpty vcmp tz r \<longleftrightarrow>
    token_equals vcmp (range_start r) (range_end r) \<and> \<not> token_equals vcmp (range_start r) (minToken tz)"

definition range_isWrappedAround :: "('v \<Rightarrow> 'v \<Rightarrow> int) \<Rightarrow> 'v tokenizer \<Rightarrow> 'v token_range \<Rightarrow> bool" where
  "range_isWrappedAround vcmp tz r \<longleftrightarrow>
    token_compare vcmp (range_start r) (range_end r) > 0 \<and> \<not> token_equals vcmp (range_end r) (minToken tz)"

text \<open>The loop of \<open>splitEvenly\<close> over the split points, then the last range up to the end.\<close>

fun split_ranges :: "'v token \<Rightarrow> 'v token list \<Rightarrow> 'v token \<Rightarrow> 'v token_range list" where
  "split_ranges splitStart [] e = [new_range splitStart e]"
| "split_ranges splitStart (p # ps) e = new_range splitStart p # split_ranges p ps e"

definition range_splitEvenly ::
  "('v \<Rightarrow> 'v \<Rightarrow> int) \<Rightarrow> 'v tokenizer \<Rightarrow> 'v token_range \<Rightarrow> int \<Rightarrow> 'v token_range list result" where
  "range_splitEvenly vcmp tz r numberOfSplits =
    (if numberOfSplits < 1 then Inl PlainError
     else if range_isEmpty vcmp tz r then Inl PlainError
     else Inr (split_ranges (range_start r)
                 (split_points tz (range_start r) (range_end r) numberOfSplits) (range_end r)))"

definition range_unwrap :: "('v \<Rightarrow> 'v \<Rightarrow> int) \<Rightarrow> 'v tokenizer \<Rightarrow> 'v token_range \<Rightarrow> 'v token_range list" where
  "range_unwrap vcmp tz r =
    (if range_isWrappedAround vcmp tz r
     then [new_range (range_start r) (minToken tz), new_range (minToken tz) (range_end r)]
     else [r])"

definition range_contains :: "('v \<Rightarrow> 'v \<Rightarrow> int) \<Rightarrow> 'v tokenizer \<Rightarrow> 'v token_range \<Rightarrow> 'v token \<Rightarrow> bool" where
  "range_contains vcmp tz r t =
    (if range_isEmpty vcmp tz r then False
     else let min = minToken tz in
       if token_equals vcmp (range_end r) min
       then if token_equals vcmp (range_start r) min then True
            else if token_equals vcmp t min then True
            else token_compare vcmp t (range_start r) > 0
       else let isAfterStart = token_compare vcmp t (range_start r) > 0;
                isBeforeEnd = token_compare vcmp t (range_end r) \<le> 0
            in if range_isWrappedAround vcmp tz r then isAfterStart \<or> isBeforeEnd
               else isAfterStart \<and> isBeforeEnd)"

definition range_compare :: "('v \<Rightarrow> 'v \<Rightarrow> int) \<Rightarrow> 'v token_range \<Rightarrow> 'v token_range \<Rightarrow> int" where
  "range_compare vcmp r s =
    (let compareStart = token_compare vcmp (range_start r) (range_start s)
     in if compareStart \<noteq> 0 then compareStart else token_compare vcmp (range_end r) (range_end s))"

definition range_equals :: "('v \<Rightarrow> 'v \<Rightarrow> int) \<Rightarrow> 'v token_range \<Rightarrow> 'v token_range \<Rightarrow> bool" where
  "range_equals vcmp r s \<longleftrightarrow> r = s \<or> range_compare vcmp r s = 0"

section \<open>The ring as a cyclic order\<close>

text \<open>
  The abstract meaning of a range \<open>]s, e]\<close> over the keys of the tokens: start-exclusive,
  end-inclusive, going round past the greatest key when \<open>e\<close> is not above \<open>s\<close>; with equal ends
  it is the whole ring if both are the least key and empty otherwise.
\<close>

definition cyclic_interval :: "'k::linorder \<Rightarrow> 'k \<Rightarrow> 'k \<Rightarrow> 'k \<Rightarrow> bool" where
  "cyclic_interval least s e t \<longleftrightarrow>
    (if s = e then s = least else if s < e then s < t \<and> t \<le> e else s < t \<or> t \<le> e)"

text \<open>
  What ranges rely on: a \<open>compare\<close> method that follows a key, and a tokenizer whose minimum
  token has the least key.
\<close>

locale token_ring = comparable vcmp vwf key
  for vcmp :: "'v \<Rightarrow> 'v \<Rightarrow> int" and vwf :: "'v \<Rightarrow> bool" and key :: "'v \<Rightarrow> 'k::linorder" +
  fixes tz :: "'v tokenizer"
  assumes min_wf: "vwf (tok_value (minToken tz))"
    and min_least: "vwf v \<Longrightarrow> key (tok_value (minToken tz)) \<le> key v"
begin

abbreviation tkey :: "'v token \<Rightarrow> 'k" where
  "tkey t \<equiv> key (tok_value t)"

abbreviation twf :: "'v token \<Rightarrow> bool" where
  "twf t \<equiv> vwf (tok_value t)"

lemmas token_ops = token_equals_def token_compare_def cmp_key min_wf

lemma wrapped_iff:
  "twf (range_start r) \<Longrightarrow> twf (range_end r) \<Longrightarrow>
   range_isWrappedAround vcmp tz r \<longleftrightarrow>
     tkey (range_end r) < tkey (range_start r) \<and> tkey (range_end r) \<noteq> tkey (minToken tz)"
  by (simp add: range_isWrappedAround_def token_ops)

lemma contains_iff_cyclic:
  assumes "twf (range_start r)" and "twf (range_end r)" and "twf t"
  shows "range_contains vcmp tz r t \<longleftrightarrow>
    cyclic_interval (tkey (minToken tz)) (tkey (range_start r)) (tkey (range_end r)) (tkey t)"
  using assms min_least [OF assms(1)] min_least [OF assms(2)] min_least [OF assms(3)]
  by (auto simp: range_contains_def range_isEmpty_def cyclic_interval_def token_ops wrapped_iff Let_def)

lemma unwrap_contains:
  assumes "twf (range_start r)" and "twf (range_end r)" and "twf t"
  shows "range_contains vcmp tz r t \<longleftrightarrow> (\<exists>r' \<in> set (range_unwrap vcmp tz r). range_contains vcmp tz r' t)"
  using assms min_least [OF assms(1)] min_least [OF assms(2)] min_least [OF assms(3)]
  by (auto simp: range_unwrap_def contains_iff_cyclic new_range_def min_wf wrapped_iff cyclic_interval_def)

lemma unwrap_not_wrapped:
  assumes "twf (range_start r)" and "twf (range_end r)" and "r' \<in> set (range_unwrap vcmp tz r)"
  shows "\<not> range_isWrappedAround vcmp tz r'"
  using assms min_least [OF assms(1)] min_least [OF assms(2)]
  by (auto simp: range_unwrap_def new_range_def range_isWrappedAround_def token_ops split: if_splits)

end

section \<open>Murmur3 tokens\<close>

text \<open>
  Murmur3 tokens hold \<open>MutableLong\<close> values. The tokenizer's minimum token is the least signed
  64-bit value; that, and nothing else, is assumed of it.
\<close>

abbreviation murmur3_key :: "mutable_long \<Rightarrow> int" where
  "murmur3_key m \<equiv> sint (ml_word m)"

definition murmur3_minimum :: "mutable_long tokenizer \<Rightarrow> bool" where
  "murmur3_minimum tz \<longleftrightarrow>
    ml_wf (tok_value (minToken tz)) \<and> murmur3_key (tok_value (minToken tz)) = - (2 ^ 63)"

lemma murmur3_token_ring:
  assumes "murmur3_minimum tz"
  shows "token_ring ml_compare ml_wf murmur3_key tz"
  using assms sint_ge [where 'a = 64]
  by (unfold_locales) (auto simp: murmur3_minimum_def)

definition murmur3_tokenizer :: "(mutable_long token \<Rightarrow> mutable_long token \<Rightarrow> int \<Rightarrow> mutable_long token list)
    \<Rightarrow> mutable_long tokenizer" where
  "murmur3_tokenizer sp =
    \<lparr>minToken = \<lparr>tok_kind = Murmur3Token, tok_value = new_mutable_long 0 0 0 32768\<rparr>, split_points = sp\<rparr>"

lemma murmur3_tokenizer_split [simp]: "split_points (murmur3_tokenizer sp) = sp"
  by (simp add: murmur3_tokenizer_def)

lemma murmur3_tokenizer_minimum: "murmur3_minimum (murmur3_tokenizer sp)"
  by (simp add: murmur3_minimum_def murmur3_tokenizer_def ml_wf_intros sint_ml_word isNegative_arr3)
    (simp add: new_mutable_long_def ml_uval_def js_and_masks)

interpretation murmur3_ring: token_ring ml_compare ml_wf murmur3_key "murmur3_tokenizer sp" for sp
  by (rule murmur3_token_ring) (rule murmur3_tokenizer_minimum)

section \<open>Properties\<close>

text \<open>
  C2: for Murmur3 tokens, a range contains exactly the tokens of the cyclic interval it denotes,
  and \<open>unwrap\<close> yields ranges that do not wrap around and together contain the same tokens.
\<close>

theorem murmur3_range_contains_unwrap:
  assumes "murmur3_minimum tz"
    and "ml_wf (tok_value (range_start r))" and "ml_wf (tok_value (range_end r))" and "ml_wf (tok_value t)"
  shows "(range_contains ml_compare tz r t \<longleftrightarrow>
        cyclic_interval (- (2 ^ 63)) (murmur3_key (tok_value (range_start r)))
          (murmur3_key (tok_value (range_end r))) (murmur3_key (tok_value t)))
    \<and> (range_contains ml_compare tz r t \<longleftrightarrow>
        (\<exists>r' \<in> set (range_unwrap ml_compare tz r). range_contains ml_compare tz r' t))
    \<and> (\<forall>r' \<in> set (range_unwrap ml_compare tz r). \<not> range_isWrappedAround ml_compare tz r')"
proof -
  note ring = murmur3_token_ring [OF assms(1)]
  show ?thesis
    using token_ring.contains_iff_cyclic [OF ring assms(2-4)] token_ring.unwrap_contains [OF ring assms(2-4)]
      token_ring.unwrap_not_wrapped [OF ring assms(2,3)] assms(1)
    by (simp add: murmur3_minimum_def)
qed

lemma ml_small: "0 \<le> n \<Longrightarrow> n < 32768 \<Longrightarrow> murmur3_key (new_mutable_long n 0 0 0) = n"
  by (simp add: sint_ml_word ml_wf_intros isNegative_arr3)
    (simp add: new_mutable_long_def ml_uval_def js_and_masks)

theorem murmur3_range_contains_unwrap_witness:
  "let tk = (\<lambda>n. \<lparr>tok_kind = Murmur3Token, tok_value = new_mutable_long n 0 0 0\<rparr>) in
   range_contains ml_compare (murmur3_tokenizer (\<lambda>_ _ _. [])) (new_range (tk 9) (tk 4)) (tk 2)
   \<and> \<not> range_contains ml_compare (murmur3_tokenizer (\<lambda>_ _ _. [])) (new_range (tk 9) (tk 4)) (tk 7)"
proof -
  let ?tk = "\<lambda>n. \<lparr>tok_kind = Murmur3Token, tok_value = new_mutable_long n 0 0 0\<rparr>"
  let ?r = "new_range (?tk 9) (?tk 4)"
  have wf: "ml_wf (tok_value (range_start ?r))" "ml_wf (tok_value (range_end ?r))" "ml_wf (tok_value (?tk n))" for n
    by (simp_all add: new_range_def ml_wf_intros)
  have k: "murmur3_key (new_mutable_long 9 0 0 0) = 9" "murmur3_key (new_mutable_long 4 0 0 0) = 4"
    "murmur3_key (new_mutable_long 2 0 0 0) = 2" "murmur3_key (new_mutable_long 7 0 0 0) = 7"
    using ml_small by simp_all
  note res = murmur3_range_contains_unwrap [OF murmur3_tokenizer_minimum wf(1,2), of _ "\<lambda>_ _ _. []"]
  show ?thesis using res [OF wf(3) [of 2]] res [OF wf(3) [of 7]] k
    by (simp add: new_range_def cyclic_interval_def)
qed

text \<open>
  The place of a token on the way round the ring from \<open>s\<close>: as the start of a range, with \<open>s\<close> itself at 0, and as
  the end of one or as a member, with \<open>s\<close> itself at \<open>2 ^ 64\<close>.
\<close>

definition ring_offset :: "int \<Rightarrow> int \<Rightarrow> int" where
  "ring_offset s x = (if s \<le> x then x - s else x - s + 2 ^ 64)"

definition end_offset :: "int \<Rightarrow> int \<Rightarrow> int" where
  "end_offset s x = (if x = s then 2 ^ 64 else ring_offset s x)"

lemma piece_contains:
  assumes "- (2 ^ 63) \<le> p" "p < 2 ^ 63" "- (2 ^ 63) \<le> q" "q < 2 ^ 63" "- (2 ^ 63) \<le> t" "t < 2 ^ 63" "- (2 ^ 63) \<le> s" "s < 2 ^ 63"
    and "ring_offset s p < end_offset s q" "p = q \<longrightarrow> p = least"
  shows "cyclic_interval least p q t \<longleftrightarrow> ring_offset s p < end_offset s t \<and> end_offset s t \<le> end_offset s q"
  using assms by (simp add: cyclic_interval_def ring_offset_def end_offset_def split: if_splits; linarith)

lemma ring_offset_eq:
  assumes "- (2 ^ 63) \<le> p" "p < 2 ^ 63" "- (2 ^ 63) \<le> q" "q < 2 ^ 63" "- (2 ^ 63) \<le> s" "s < 2 ^ 63"
  shows "ring_offset s p = ring_offset s q \<longleftrightarrow> p = q"
  using assms by (auto simp: ring_offset_def split: if_splits)

text \<open>
  The ranges between consecutive split points, in terms of the keys of their ends.
\<close>

abbreviation murmur3_tkey :: "mutable_long token \<Rightarrow> int" where
  "murmur3_tkey t \<equiv> murmur3_key (tok_value t)"

abbreviation in_keys :: "mutable_long token_range \<Rightarrow> int \<Rightarrow> bool" where
  "in_keys r t \<equiv> cyclic_interval (- (2 ^ 63)) (murmur3_tkey (range_start r)) (murmur3_tkey (range_end r)) t"

lemma murmur3_key_range: "- (2 ^ 63) \<le> murmur3_key v" "murmur3_key v < 2 ^ 63"
  using sint_ge [of "ml_word v"] sint_lt [of "ml_word v"] by simp_all

lemma ring_offset_less_end:
  assumes "ring_offset (murmur3_key s) (murmur3_key p) \<le> ring_offset (murmur3_key s) (murmur3_key q)"
    and "murmur3_key p \<noteq> murmur3_key q"
  shows "ring_offset (murmur3_key s) (murmur3_key p) < end_offset (murmur3_key s) (murmur3_key q)"
  using assms murmur3_key_range [of p] murmur3_key_range [of q] murmur3_key_range [of s]
  by (auto simp: ring_offset_def end_offset_def split: if_splits)

lemma split_reaches:
  fixes s t :: mutable_long
  assumes "ring_offset (murmur3_key s) (murmur3_tkey a) < end_offset (murmur3_key s) (murmur3_key t)"
    and "end_offset (murmur3_key s) (murmur3_key t) \<le> end_offset (murmur3_key s) (murmur3_tkey e)"
    and "murmur3_key s = murmur3_tkey e \<longrightarrow> murmur3_key s = - (2 ^ 63)"
  shows "\<exists>r \<in> set (split_ranges a ps e). in_keys r (murmur3_key t)
    \<and> (murmur3_tkey (range_start r) \<noteq> murmur3_tkey (range_end r) \<or> murmur3_key s = murmur3_tkey e)"
  using assms(1)
proof (induction ps arbitrary: a)
  case Nil
  have "murmur3_tkey a = murmur3_tkey e \<longrightarrow> murmur3_key s = murmur3_tkey e"
    using Nil assms(2) by (auto simp: end_offset_def split: if_splits)
  then show ?case
    using Nil assms(2,3) piece_contains [OF murmur3_key_range murmur3_key_range murmur3_key_range murmur3_key_range,
        of s "tok_value a" "tok_value e" "- (2 ^ 63)" t]
    by (auto simp: new_range_def)
next
  case (Cons p ps)
  let ?off = "ring_offset (murmur3_key s)" and ?upto = "end_offset (murmur3_key s)"
  show ?case
  proof (cases "?off (murmur3_tkey p) < ?upto (murmur3_key t)")
    case True
    then show ?thesis using Cons.IH [of p] by auto
  next
    case False
    then have lt: "?off (murmur3_tkey a) < ?off (murmur3_tkey p)" using Cons.prems by simp
    then have ne: "murmur3_tkey a \<noteq> murmur3_tkey p" by auto
    moreover have "murmur3_tkey p \<noteq> murmur3_key s"
      using lt murmur3_key_range [of "tok_value a"] murmur3_key_range [of s] by (auto simp: ring_offset_def split: if_splits)
    then have "?upto (murmur3_tkey p) = ?off (murmur3_tkey p)" by (simp add: end_offset_def)
    ultimately have "in_keys (new_range a p) (murmur3_key t)"
      using False lt Cons.prems piece_contains [OF murmur3_key_range murmur3_key_range murmur3_key_range murmur3_key_range,
          of s "tok_value a" "tok_value p" "- (2 ^ 63)" t]
      by (simp add: new_range_def)
    then show ?thesis using ne by (simp add: new_range_def)
  qed
qed

lemma split_stays:
  fixes s t :: mutable_long
  assumes "r \<in> set (split_ranges a ps e)" and "in_keys r (murmur3_key t)"
    and "murmur3_tkey (range_start r) \<noteq> murmur3_tkey (range_end r)" and "murmur3_key s \<noteq> murmur3_tkey e"
    and "sorted (map (\<lambda>p. ring_offset (murmur3_key s) (murmur3_tkey p)) (a # ps)
           @ [end_offset (murmur3_key s) (murmur3_tkey e)])"
  shows "end_offset (murmur3_key s) (murmur3_key t) \<le> end_offset (murmur3_key s) (murmur3_tkey e)"
  using assms(1,5)
proof (induction ps arbitrary: a)
  case Nil
  then have r: "range_start r = a" "range_end r = e" by (simp_all add: new_range_def)
  have "ring_offset (murmur3_key s) (murmur3_tkey a) < end_offset (murmur3_key s) (murmur3_tkey e)"
    using Nil(2) assms(3,4) r ring_offset_less_end [of s "tok_value a" "tok_value e"]
    by (simp add: end_offset_def split: if_splits)
  then show ?case
    using assms(2,3) r piece_contains [OF murmur3_key_range murmur3_key_range murmur3_key_range murmur3_key_range,
        of s "tok_value a" "tok_value e" "- (2 ^ 63)" t] by simp
next
  case (Cons p ps)
  show ?case
  proof (cases "r \<in> set (split_ranges p ps e)")
    case True
    then show ?thesis using Cons.IH [of p] Cons.prems(2) by simp
  next
    case False
    then have r: "range_start r = a" "range_end r = p" using Cons.prems(1) by (simp_all add: new_range_def)
    have lt: "ring_offset (murmur3_key s) (murmur3_tkey a) < end_offset (murmur3_key s) (murmur3_tkey p)"
      using Cons.prems(2) assms(3) r ring_offset_less_end [of s "tok_value a" "tok_value p"] by simp
    have "ring_offset (murmur3_key s) (murmur3_tkey a) \<noteq> ring_offset (murmur3_key s) (murmur3_tkey p)"
      using assms(3) r ring_offset_eq [OF murmur3_key_range murmur3_key_range murmur3_key_range] by simp
    then have "0 < ring_offset (murmur3_key s) (murmur3_tkey p)"
      using Cons.prems(2) murmur3_key_range [of "tok_value a"] murmur3_key_range [of s]
      by (auto simp: ring_offset_def split: if_splits)
    then have "end_offset (murmur3_key s) (murmur3_tkey p) = ring_offset (murmur3_key s) (murmur3_tkey p)"
      by (auto simp: end_offset_def ring_offset_def)
    then show ?thesis
      using lt Cons.prems(2) assms(2,3) r piece_contains [OF murmur3_key_range murmur3_key_range murmur3_key_range murmur3_key_range,
          of s "tok_value a" "tok_value p" "- (2 ^ 63)" t] by simp
  qed
qed

lemma split_ranges_length: "length (split_ranges a ps e) = Suc (length ps)"
  by (induction ps arbitrary: a) simp_all

lemma split_ranges_ends:
  "r \<in> set (split_ranges a ps e) \<Longrightarrow> range_start r \<in> set (a # ps) \<and> range_end r \<in> set (ps @ [e])"
  by (induction ps arbitrary: a) (auto simp: new_range_def)

text \<open>
  C26: \<open>splitEvenly\<close> of any range that is not empty (one that wraps around, one that ends in the minimum token and
  the whole ring \<open>]min, min]\<close> included), with at least one split and with split points of the tokenizer that come in
  order on the way round the ring from the start to the end of the range, returns one range more than there are split
  points, and a token is in the range exactly when one of the returned ranges contains it, where a returned range with
  equal ends is left out unless the range itself has equal ends. (Such a returned range, from a repeated split point,
  is empty, or contains the whole ring when the repeated point is the minimum token.)
\<close>

theorem murmur3_split_covers:
  assumes "murmur3_minimum tz" and "1 \<le> n"
    and "ml_wf (tok_value (range_start r))" and "ml_wf (tok_value (range_end r))" and "ml_wf (tok_value t)"
    and "\<not> range_isEmpty ml_compare tz r"
    and "\<forall>p \<in> set (split_points tz (range_start r) (range_end r) n). ml_wf (tok_value p)"
    and "sorted (map (\<lambda>p. ring_offset (murmur3_key (tok_value (range_start r))) (murmur3_key (tok_value p)))
             (split_points tz (range_start r) (range_end r) n)
           @ [end_offset (murmur3_key (tok_value (range_start r))) (murmur3_key (tok_value (range_end r)))])"
  shows "\<exists>rs. range_splitEvenly ml_compare tz r n = Inr rs
    \<and> length rs = Suc (length (split_points tz (range_start r) (range_end r) n))
    \<and> (range_contains ml_compare tz r t \<longleftrightarrow>
        (\<exists>r' \<in> set rs. range_contains ml_compare tz r' t
          \<and> (murmur3_key (tok_value (range_start r')) \<noteq> murmur3_key (tok_value (range_end r'))
             \<or> murmur3_key (tok_value (range_start r)) = murmur3_key (tok_value (range_end r)))))"
proof -
  let ?s = "tok_value (range_start r)" and ?e = "tok_value (range_end r)"
  let ?ps = "split_points tz (range_start r) (range_end r) n"
  let ?rs = "split_ranges (range_start r) ?ps (range_end r)"
  have min: "murmur3_tkey (minToken tz) = - (2 ^ 63)" "ml_wf (tok_value (minToken tz))"
    using assms(1) by (simp_all add: murmur3_minimum_def)
  have contains: "range_contains ml_compare tz r' t = in_keys r' (murmur3_tkey t)"
    if "ml_wf (tok_value (range_start r'))" "ml_wf (tok_value (range_end r'))" for r'
    using token_ring.contains_iff_cyclic [OF murmur3_token_ring [OF assms(1)] that assms(5)] min by simp
  have pieces: "range_contains ml_compare tz r' t = in_keys r' (murmur3_tkey t)" if "r' \<in> set ?rs" for r'
    using split_ranges_ends [OF that] assms(3,4,7) by (intro contains) auto
  have whole: "murmur3_key ?s = murmur3_key ?e \<longrightarrow> murmur3_key ?s = - (2 ^ 63)"
    using assms(3,4,6) min by (simp add: range_isEmpty_def token_equals_def token_compare_def ml_order.cmp_zero)
  have start: "ring_offset (murmur3_key ?s) (murmur3_key ?s) = 0"
    "ring_offset (murmur3_key ?s) (murmur3_key v) \<ge> 0" "0 < end_offset (murmur3_key ?s) (murmur3_key v)" for v
    using murmur3_key_range [of v] murmur3_key_range [of ?s] by (auto simp: ring_offset_def end_offset_def)
  have r: "in_keys r (murmur3_tkey t) \<longleftrightarrow>
      end_offset (murmur3_key ?s) (murmur3_tkey t) \<le> end_offset (murmur3_key ?s) (murmur3_key ?e)"
    using piece_contains [OF murmur3_key_range murmur3_key_range murmur3_key_range murmur3_key_range,
        of ?s ?s ?e "- (2 ^ 63)" "tok_value t"] whole start by simp
  have sorted: "sorted (map (\<lambda>p. ring_offset (murmur3_key ?s) (murmur3_tkey p)) (range_start r # ?ps)
      @ [end_offset (murmur3_key ?s) (murmur3_key ?e)])"
    using assms(8) start less_imp_le [OF start(3)] by auto
  have "in_keys r (murmur3_tkey t) \<longleftrightarrow> (\<exists>r' \<in> set ?rs. in_keys r' (murmur3_tkey t)
      \<and> (murmur3_tkey (range_start r') \<noteq> murmur3_tkey (range_end r') \<or> murmur3_key ?s = murmur3_key ?e))"
  proof
    assume "in_keys r (murmur3_tkey t)"
    then show "\<exists>r' \<in> set ?rs. in_keys r' (murmur3_tkey t)
        \<and> (murmur3_tkey (range_start r') \<noteq> murmur3_tkey (range_end r') \<or> murmur3_key ?s = murmur3_key ?e)"
      using split_reaches [of ?s "range_start r" "tok_value t" "range_end r" ?ps] r start whole by simp
  next
    assume "\<exists>r' \<in> set ?rs. in_keys r' (murmur3_tkey t)
        \<and> (murmur3_tkey (range_start r') \<noteq> murmur3_tkey (range_end r') \<or> murmur3_key ?s = murmur3_key ?e)"
    then show "in_keys r (murmur3_tkey t)"
      using split_stays [of _ "range_start r" ?ps "range_end r" "tok_value t" ?s] sorted r whole
      by (cases "murmur3_key ?s = murmur3_key ?e") (auto simp: cyclic_interval_def)
  qed
  then show ?thesis
    using assms(2,6) contains [OF assms(3,4)] pieces split_ranges_length by (simp add: range_splitEvenly_def)
qed

theorem murmur3_split_covers_witness:
  "let tk = (\<lambda>n. \<lparr>tok_kind = Murmur3Token, tok_value = new_mutable_long n 0 0 0\<rparr>) in
   \<exists>rs. range_splitEvenly ml_compare (murmur3_tokenizer (\<lambda>_ _ _. [tk 12, tk 5])) (new_range (tk 9) (tk 7)) 3 = Inr rs
     \<and> length rs = 3"
proof -
  let ?tk = "\<lambda>n. \<lparr>tok_kind = Murmur3Token, tok_value = new_mutable_long n 0 0 0\<rparr>"
  have k: "murmur3_key (new_mutable_long 9 0 0 0) = 9" "murmur3_key (new_mutable_long 5 0 0 0) = 5"
    "murmur3_key (new_mutable_long 7 0 0 0) = 7" "murmur3_key (new_mutable_long 12 0 0 0) = 12"
    using ml_small by simp_all
  have "\<not> range_isEmpty ml_compare (murmur3_tokenizer sp) (new_range (?tk 9) (?tk 7))" for sp
    using k by (simp add: range_isEmpty_def token_equals_def token_compare_def ml_order.cmp_zero ml_wf_intros new_range_def)
  then show ?thesis
    using murmur3_split_covers [of "murmur3_tokenizer (\<lambda>_ _ _. [?tk 12, ?tk 5])" 3 "new_range (?tk 9) (?tk 7)" "?tk 5"] k
    by (auto simp: murmur3_tokenizer_minimum ml_wf_intros new_range_def ring_offset_def end_offset_def)
qed

end
