(* ===== verification/Varint.thy ===== *)
theory Varint
  imports Comparable
begin

text \<open>
  \<^verbatim>\<open>src/lib/types/integer.js\<close>: the arbitrary precision \<open>Integer\<close> class behind the CQL
  \<open>varint\<close> and \<open>decimal\<close> types. An integer is a little-endian list of signed 32-bit pieces and a
  sign (0 or -1) that stands for all the pieces above. \<open>ival\<close> is the integer denoted; the theorems
  relate every operation to the operation on \<open>ival\<close>.

  \<open>divide\<close>, \<open>modulo\<close> and \<open>toString\<close> approximate quotients with logarithms of doubles and are not
  modelled here.
\<close>

section \<open>Representation\<close>

record js_integer =
  ibits :: "int list"
  isign :: int

text \<open>The constructor copies the pieces as 32-bit integers and drops those at the top equal to the sign.\<close>

definition prune_top :: "int \<Rightarrow> int list \<Rightarrow> int list" where
  "prune_top sign bits = rev (dropWhile (\<lambda>val. val = sign) (rev (map to_int32 bits)))"

definition new_integer :: "int list \<Rightarrow> int \<Rightarrow> js_integer" where
  "new_integer bits sign = \<lparr>ibits = prune_top sign bits, isign = sign\<rparr>"

text \<open>
  \<open>fromInt\<close>; its cache of small values only shares immutable objects, so a cached object equals the
  one built afresh.
\<close>

definition integer_fromInt :: "int \<Rightarrow> js_integer" where
  "integer_fromInt v = new_integer [to_int32 v] (if v < 0 then -1 else 0)"

definition integer_ZERO :: js_integer where
  "integer_ZERO = integer_fromInt 0"

definition integer_ONE :: js_integer where
  "integer_ONE = integer_fromInt 1"

definition integer_TWO_PWR_24 :: js_integer where
  "integer_TWO_PWR_24 = integer_fromInt (js_shl 1 24)"

definition integer_fromBits :: "int list \<Rightarrow> js_integer" where
  "integer_fromBits bits =
    new_integer bits (if bits \<noteq> [] \<and> js_and (last bits) (js_shl 1 31) \<noteq> 0 then -1 else 0)"

section \<open>Reading\<close>

definition integer_getBits :: "js_integer \<Rightarrow> int \<Rightarrow> int" where
  "integer_getBits x i =
    (if i < 0 then 0
     else if nat i < length (ibits x) then ibits x ! nat i
     else isign x)"

definition integer_getBitsUnsigned :: "js_integer \<Rightarrow> int \<Rightarrow> int" where
  "integer_getBitsUnsigned x i =
    (let val = integer_getBits x i in if val \<ge> 0 then val else 4294967296 + val)"

definition integer_toInt :: "js_integer \<Rightarrow> int" where
  "integer_toInt x = (if length (ibits x) > 0 then ibits x ! 0 else isign x)"

definition integer_isZero :: "js_integer \<Rightarrow> bool" where
  "integer_isZero x \<longleftrightarrow> isign x = 0 \<and> list_all (\<lambda>b. b = 0) (ibits x)"

definition integer_isNegative :: "js_integer \<Rightarrow> bool" where
  "integer_isNegative x \<longleftrightarrow> isign x = -1"

definition integer_isOdd :: "js_integer \<Rightarrow> bool" where
  "integer_isOdd x \<longleftrightarrow>
    (ibits x = [] \<and> isign x = -1) \<or> (ibits x \<noteq> [] \<and> js_and (ibits x ! 0) 1 \<noteq> 0)"

definition integer_equals :: "js_integer \<Rightarrow> js_integer \<Rightarrow> bool" where
  "integer_equals x y \<longleftrightarrow>
    isign x = isign y \<and>
    list_all (\<lambda>i. integer_getBits x (int i) = integer_getBits y (int i))
      [0..<max (length (ibits x)) (length (ibits y))]"

section \<open>Arithmetic\<close>

text \<open>One iteration of \<open>add\<close> at an index: the 32-bit sum piece and the carry out.\<close>

definition add_piece :: "int \<Rightarrow> int \<Rightarrow> int \<Rightarrow> int \<times> int" where
  "add_piece a b carry =
    (let a1 = js_shr a 16; a0 = js_and a 65535;
         b1 = js_shr b 16; b0 = js_and b 65535;
         c0 = carry + a0 + b0;
         c1 = js_shr c0 16 + a1 + b1;
         carry' = js_shr c1 16
     in (js_or (js_shl (js_and c1 65535) 16) (js_and c0 65535), carry'))"

fun add_loop :: "js_integer \<Rightarrow> js_integer \<Rightarrow> nat \<Rightarrow> int \<Rightarrow> nat \<Rightarrow> int list" where
  "add_loop x y i carry 0 = []"
| "add_loop x y i carry (Suc k) =
    (let (w, carry') = add_piece (integer_getBits x (int i)) (integer_getBits y (int i)) carry
     in w # add_loop x y (Suc i) carry' k)"

definition integer_add :: "js_integer \<Rightarrow> js_integer \<Rightarrow> js_integer" where
  "integer_add x y =
    (let len = max (length (ibits x)) (length (ibits y))
     in integer_fromBits (add_loop x y 0 0 (Suc len)))"

definition integer_not :: "js_integer \<Rightarrow> js_integer" where
  "integer_not x = new_integer (map js_not (ibits x)) (js_not (isign x))"

definition integer_negate :: "js_integer \<Rightarrow> js_integer" where
  "integer_negate x = integer_add (integer_not x) integer_ONE"

definition integer_subtract :: "js_integer \<Rightarrow> js_integer \<Rightarrow> js_integer" where
  "integer_subtract x y = integer_add x (integer_negate y)"

definition integer_compare :: "js_integer \<Rightarrow> js_integer \<Rightarrow> int" where
  "integer_compare x y =
    (let diff = integer_subtract x y
     in if integer_isNegative diff then -1 else if integer_isZero diff then 0 else 1)"

definition integer_lessThan :: "js_integer \<Rightarrow> js_integer \<Rightarrow> bool" where
  "integer_lessThan x y \<longleftrightarrow> integer_compare x y < 0"

definition integer_lessThanOrEqual :: "js_integer \<Rightarrow> js_integer \<Rightarrow> bool" where
  "integer_lessThanOrEqual x y \<longleftrightarrow> integer_compare x y \<le> 0"

definition integer_greaterThan :: "js_integer \<Rightarrow> js_integer \<Rightarrow> bool" where
  "integer_greaterThan x y \<longleftrightarrow> integer_compare x y > 0"

definition integer_greaterThanOrEqual :: "js_integer \<Rightarrow> js_integer \<Rightarrow> bool" where
  "integer_greaterThanOrEqual x y \<longleftrightarrow> integer_compare x y \<ge> 0"

definition integer_abs :: "js_integer \<Rightarrow> js_integer" where
  "integer_abs x = (if isign x = 0 then x else integer_negate x)"

section \<open>Conversion from and to numbers\<close>

text \<open>
  The pieces of an integral number: division by a power of \<open>2 ^ 32\<close> is exact, and \<open>| 0\<close> truncates
  the quotient. The guard \<open>0 < pow\<close> holds throughout, since \<open>pow\<close> starts at 1.
\<close>

function number_pieces :: "int \<Rightarrow> int \<Rightarrow> int list" where
  "number_pieces value pow =
    (if 0 < pow \<and> value \<ge> pow then to_int32 (value div pow) # number_pieces value (pow * 4294967296) else [])"
  by pat_completeness auto
termination
  by (relation "measure (\<lambda>(value, pow). nat (value + 1 - pow))") auto

declare number_pieces.simps [simp del]

definition integer_fromNumber :: "js_number \<Rightarrow> js_integer" where
  "integer_fromNumber v =
    (case v of
       JsInt n \<Rightarrow>
         (if n < 0 then integer_negate (new_integer (number_pieces (- n) 1) 0)
          else new_integer (number_pieces n 1) 0)
     | _ \<Rightarrow> integer_ZERO)"

fun to_number_loop :: "js_integer \<Rightarrow> nat \<Rightarrow> int \<Rightarrow> int \<Rightarrow> nat \<Rightarrow> int" where
  "to_number_loop x i val pow 0 = val"
| "to_number_loop x i val pow (Suc k) =
    to_number_loop x (Suc i) (js_round (val + js_round (integer_getBitsUnsigned x (int i) * pow)))
      (pow * 4294967296) k"

definition integer_toNumber :: "js_integer \<Rightarrow> int" where
  "integer_toNumber x =
    (if integer_isNegative x
     then let y = integer_negate x in - to_number_loop y 0 0 1 (length (ibits y))
     else to_number_loop x 0 0 1 (length (ibits x)))"

section \<open>Multiplication\<close>

text \<open>
  \<open>carry16_\<close> is a loop on one index; after its first iteration the piece is below \<open>2 ^ 16\<close> and the
  loop ends, so it runs at most once.
\<close>

definition carry16 :: "int list \<Rightarrow> nat \<Rightarrow> int list" where
  "carry16 arr index =
    (if js_and (arr ! index) 65535 \<noteq> arr ! index
     then (arr[Suc index := arr ! Suc index + js_shr (arr ! index) 16])[index := js_and (arr ! index) 65535]
     else arr)"

definition add_at :: "int list \<Rightarrow> nat \<Rightarrow> int \<Rightarrow> int list" where
  "add_at arr k v = carry16 (arr[k := arr ! k + v]) k"

text \<open>The body of the inner loop: the four products of the halves of two pieces.\<close>

definition mul_step :: "int list \<Rightarrow> nat \<Rightarrow> int \<Rightarrow> int \<Rightarrow> int list" where
  "mul_step arr k a b =
    (let a1 = js_shr a 16; a0 = js_and a 65535; b1 = js_shr b 16; b0 = js_and b 65535
     in add_at (add_at (add_at (add_at arr k (a0 * b0)) (k + 1) (a1 * b0)) (k + 1) (a0 * b1)) (k + 2) (a1 * b1))"

definition mul_loops :: "js_integer \<Rightarrow> js_integer \<Rightarrow> int list \<Rightarrow> int list" where
  "mul_loops x y arr =
    foldl (\<lambda>arr i. foldl (\<lambda>arr j. mul_step arr (2 * i + 2 * j) (integer_getBits x (int i)) (integer_getBits y (int j)))
             arr [0..<length (ibits y)])
      arr [0..<length (ibits x)]"

text \<open>Combining pairs of 16-bit values; the upper half of the array is set to 0.\<close>

definition mul_combine :: "nat \<Rightarrow> int list \<Rightarrow> int list" where
  "mul_combine len arr =
    map (\<lambda>i. js_or (js_shl (arr ! (2 * i + 1)) 16) (arr ! (2 * i))) [0..<len] @ replicate len 0"

definition multiply_nonneg :: "js_integer \<Rightarrow> js_integer \<Rightarrow> js_integer" where
  "multiply_nonneg x y =
    (if integer_isZero x then integer_ZERO
     else if integer_isZero y then integer_ZERO
     else if integer_lessThan x integer_TWO_PWR_24 \<and> integer_lessThan y integer_TWO_PWR_24
     then integer_fromNumber (JsInt (js_round (integer_toNumber x * integer_toNumber y)))
     else let len = length (ibits x) + length (ibits y)
          in new_integer (mul_combine len (mul_loops x y (replicate (2 * len) 0))) 0)"

text \<open>The sign cases of \<open>multiply\<close>, each a call on operands that are no longer negative.\<close>

definition integer_multiply :: "js_integer \<Rightarrow> js_integer \<Rightarrow> js_integer" where
  "integer_multiply x y =
    (if integer_isZero x then integer_ZERO
     else if integer_isZero y then integer_ZERO
     else if integer_isNegative x
     then if integer_isNegative y then multiply_nonneg (integer_negate x) (integer_negate y)
          else integer_negate (multiply_nonneg (integer_negate x) y)
     else if integer_isNegative y then integer_negate (multiply_nonneg x (integer_negate y))
     else multiply_nonneg x y)"

section \<open>Parsing\<close>

function integer_fromString_loop :: "nat \<Rightarrow> js_integer \<Rightarrow> string \<Rightarrow> js_integer" where
  "integer_fromString_loop radix res str =
    (if str = [] then res
     else let size = min 8 (length str);
              val = integer_fromNumber (js_parseInt (take size str) radix);
              power = integer_fromNumber (JsInt (int (radix ^ size)))
          in integer_fromString_loop radix (integer_add (integer_multiply res power) val) (drop 8 str))"
  by pat_completeness auto
termination
  by (relation "measure (\<lambda>(radix, res, str). length str)") auto

declare integer_fromString_loop.simps [simp del]

fun integer_fromString :: "string \<Rightarrow> nat \<Rightarrow> js_integer result" where
  "integer_fromString [] optRadix = Inl TypeError"
| "integer_fromString (c # cs) optRadix =
    (let radix = (if optRadix = 0 then 10 else optRadix) in
     if radix < 2 \<or> 36 < radix then Inl PlainError
     else if c = CHR ''-'' then bind_result (integer_fromString cs radix) (\<lambda>m. Inr (integer_negate m))
     else if CHR ''-'' \<in> set cs then Inl TypeError
     else Inr (integer_fromString_loop radix integer_ZERO (c # cs)))"

section \<open>Bitwise operations and shifts\<close>

definition integer_bitop :: "(int \<Rightarrow> int \<Rightarrow> int) \<Rightarrow> js_integer \<Rightarrow> js_integer \<Rightarrow> js_integer" where
  "integer_bitop f x y =
    new_integer (map (\<lambda>i. f (integer_getBits x (int i)) (integer_getBits y (int i)))
        [0..<max (length (ibits x)) (length (ibits y))])
      (f (isign x) (isign y))"

definition integer_and :: "js_integer \<Rightarrow> js_integer \<Rightarrow> js_integer" where
  "integer_and = integer_bitop js_and"

definition integer_or :: "js_integer \<Rightarrow> js_integer \<Rightarrow> js_integer" where
  "integer_or = integer_bitop js_or"

definition integer_xor :: "js_integer \<Rightarrow> js_integer \<Rightarrow> js_integer" where
  "integer_xor = integer_bitop js_xor"

text \<open>
  The count of a shift is a number: \<open>numBits >> 5\<close> takes its low 32 bits as a signed integer, so it wraps from \<open>2 ^ 31\<close>
  on, and \<open>numBits % 32\<close> has the sign of the count.
\<close>

definition rem32 :: "int \<Rightarrow> int" where
  "rem32 a = (if a \<ge> 0 then a mod 32 else - (- a mod 32))"

definition integer_shiftLeft :: "js_integer \<Rightarrow> int \<Rightarrow> js_integer" where
  "integer_shiftLeft x numBits =
    (let arrDelta = js_sar numBits 5; bitDelta = rem32 numBits;
         len = int (length (ibits x)) + arrDelta + (if bitDelta > 0 then 1 else 0)
     in new_integer
          (map (\<lambda>i. if bitDelta > 0
                    then js_or (js_shl (integer_getBits x (int i - arrDelta)) (nat bitDelta))
                           (js_shr (integer_getBits x (int i - arrDelta - 1)) (nat (32 - bitDelta)))
                    else integer_getBits x (int i - arrDelta)) [0..<nat len])
          (isign x))"

definition integer_shiftRight :: "js_integer \<Rightarrow> int \<Rightarrow> js_integer" where
  "integer_shiftRight x numBits =
    (let arrDelta = js_sar numBits 5; bitDelta = rem32 numBits;
         len = int (length (ibits x)) - arrDelta
     in new_integer
          (map (\<lambda>i. if bitDelta > 0
                    then js_or (js_shr (integer_getBits x (int i + arrDelta)) (nat bitDelta))
                           (js_shl (integer_getBits x (int i + arrDelta + 1)) (nat (32 - bitDelta)))
                    else integer_getBits x (int i + arrDelta)) [0..<nat len])
          (isign x))"

text \<open>With a negative index the top piece is stored as a property that is no element of the array.\<close>

definition integer_shorten :: "js_integer \<Rightarrow> int \<Rightarrow> js_integer" where
  "integer_shorten x numBits =
    (let arrIndex = js_sar (numBits - 1) 5; bitIndex = rem32 (numBits - 1);
         bits = map (\<lambda>i. integer_getBits x (int i)) [0..<nat arrIndex];
         sigBits = (if bitIndex = 31 then 4294967295 else js_shl 1 (nat ((bitIndex + 1) mod 32)) - 1);
         val = js_and (integer_getBits x arrIndex) sigBits;
         store = (\<lambda>v. if arrIndex \<ge> 0 then bits @ [v] else bits)
     in if js_and val (js_shl 1 (nat (bitIndex mod 32))) \<noteq> 0
        then new_integer (store (js_or val (4294967295 - sigBits))) (-1)
        else new_integer (store val) 0)"

section \<open>Buffers\<close>

text \<open>The piece at index \<open>i\<close> of a big-endian buffer; the lowest-index one may have fewer than four bytes.\<close>

definition partial_piece :: "buffer \<Rightarrow> int \<Rightarrow> nat \<Rightarrow> int" where
  "partial_piece buf sign offset =
    (let value = foldl (\<lambda>value j.
           let byte = (if sign = -1 then js_and (js_not (buf ! j)) 255 else buf ! j)
           in js_or value (js_shl byte ((offset - j - 1) * 8))) 0 [0..<offset]
     in if sign = -1 then js_not value else value)"

definition buffer_piece :: "buffer \<Rightarrow> int \<Rightarrow> nat \<Rightarrow> int" where
  "buffer_piece buf sign i =
    (if length buf < (i + 1) * 4
     then partial_piece buf sign (length buf + 4 - (i + 1) * 4)
     else read_int32_be buf (length buf - (i + 1) * 4))"

definition integer_fromBuffer :: "buffer \<Rightarrow> js_integer" where
  "integer_fromBuffer buf =
    (let sign = (if buf \<noteq> [] \<and> js_and (hd buf) 128 \<noteq> 0 then -1 else 0)
     in new_integer (map (buffer_piece buf sign) [0..<(length buf + 3) div 4]) sign)"

text \<open>The bytes of the top piece: as few as hold it, one more if the sign bit got lost.\<close>

definition high_bytes :: "int \<Rightarrow> buffer" where
  "high_bytes highBits =
    (let high = (if js_shr highBits 24 > 0 then [js_and (js_sar highBits 24) 255] else [])
              @ (if js_shr highBits 16 > 0 then [js_and (js_sar highBits 16) 255] else [])
              @ (if js_shr highBits 8 > 0 then [js_and (js_sar highBits 8) 255] else [])
              @ [js_and highBits 255]
     in if js_sar (hd high) 7 \<noteq> 0 then 0 # high else high)"

definition integer_toBuffer :: "js_integer \<Rightarrow> buffer" where
  "integer_toBuffer x =
    (let bits = ibits x; sign = isign x in
     if bits = [] then [to_byte sign]
     else let highBits = (if sign = -1 then js_not (last bits) else last bits);
              high = high_bytes highBits
          in map (\<lambda>b. to_byte (if sign = -1 then js_not b else b)) high
             @ concat (map int32_be (rev (butlast bits))))"

section \<open>The integer denoted\<close>

fun bits_val :: "int list \<Rightarrow> int \<Rightarrow> int" where
  "bits_val [] s = s"
| "bits_val (b # bs) s = to_uint32 b + 4294967296 * bits_val bs s"

definition ival :: "js_integer \<Rightarrow> int" where
  "ival x = bits_val (ibits x) (isign x)"

definition int32_list :: "int list \<Rightarrow> bool" where
  "int32_list bs \<longleftrightarrow> (\<forall>b \<in> set bs. - 2147483648 \<le> b \<and> b < 2147483648)"

definition integer_wf :: "js_integer \<Rightarrow> bool" where
  "integer_wf x \<longleftrightarrow>
    int32_list (ibits x) \<and> isign x \<in> {0, -1} \<and> (ibits x \<noteq> [] \<longrightarrow> last (ibits x) \<noteq> isign x)"

lemma bits_val_append: "bits_val (xs @ ys) s = bits_val xs (bits_val ys s)"
  by (induction xs) simp_all

lemma bits_val_int32 [simp]: "bits_val (map to_int32 xs) s = bits_val xs s"
  by (induction xs) simp_all

lemma sign_piece: "s \<in> {0, -1} \<Longrightarrow> bits_val [s] s = s"
  by (auto simp: to_uint32_mod)

lemma bits_val_dropWhile_rev:
  "s \<in> {0, -1} \<Longrightarrow> bits_val (rev (dropWhile (\<lambda>v. v = s) xs)) s = bits_val (rev xs) s"
  by (induction xs) (auto simp: bits_val_append sign_piece to_uint32_mod)

lemma ival_new_integer: "s \<in> {0, -1} \<Longrightarrow> ival (new_integer bits s) = bits_val bits s"
  by (simp add: ival_def new_integer_def prune_top_def bits_val_dropWhile_rev rev_map [symmetric])

lemma new_integer_wf: "s \<in> {0, -1} \<Longrightarrow> integer_wf (new_integer bits s)"
proof -
  assume s: "s \<in> {0, -1}"
  have "int32_list (prune_top s bits)"
    using to_int32_range by (auto simp: int32_list_def prune_top_def dest!: set_dropWhileD)
  moreover have "prune_top s bits \<noteq> [] \<longrightarrow> last (prune_top s bits) \<noteq> s"
    using hd_dropWhile [of "\<lambda>v. v = s" "rev (map to_int32 bits)"] by (auto simp: prune_top_def last_rev)
  ultimately show ?thesis using s by (simp add: integer_wf_def new_integer_def)
qed

subsection \<open>Canonical representation\<close>

lemma bits_val_Cons_split:
  "bits_val (b # bs) s mod 4294967296 = to_uint32 b" "bits_val (b # bs) s div 4294967296 = bits_val bs s"
  using base_split [of "to_uint32 b" 4294967296 "bits_val bs s"] by (simp_all add: algebra_simps)

lemma to_uint32_inj:
  "- 2147483648 \<le> a \<Longrightarrow> a < 2147483648 \<Longrightarrow> - 2147483648 \<le> b \<Longrightarrow> b < 2147483648 \<Longrightarrow>
    to_uint32 a = to_uint32 b \<Longrightarrow> a = b"
  by (metis to_int32_id to_int32_to_uint32)

lemma int32_list_Cons [simp]:
  "int32_list (b # bs) \<longleftrightarrow> - 2147483648 \<le> b \<and> b < 2147483648 \<and> int32_list bs"
  by (auto simp: int32_list_def)

lemma int32_list_Nil [simp]: "int32_list []"
  by (simp add: int32_list_def)

lemma bits_val_eq_sign:
  "int32_list ys \<Longrightarrow> s \<in> {0, -1} \<Longrightarrow> bits_val ys s = s \<Longrightarrow> \<forall>y \<in> set ys. y = s"
proof (induction ys)
  case (Cons y ys)
  have sd: "s div 4294967296 = s" "s mod 4294967296 = to_uint32 s"
    using Cons.prems(2) by (auto simp: to_uint32_mod)
  have "bits_val ys s = s" "to_uint32 y = to_uint32 s"
    using bits_val_Cons_split [of y ys s] Cons.prems(3) sd by (simp_all del: bits_val.simps)
  then show ?case using Cons to_uint32_inj [of y s] by auto
qed simp

lemma bits_val_inject:
  assumes "int32_list xs" and "int32_list ys" and "s \<in> {0, -1}"
    and "xs \<noteq> [] \<longrightarrow> last xs \<noteq> s" and "ys \<noteq> [] \<longrightarrow> last ys \<noteq> s" and "bits_val xs s = bits_val ys s"
  shows "xs = ys"
  using assms
proof (induction xs arbitrary: ys)
  case Nil
  have "\<forall>y \<in> set ys. y = s"
    by (rule bits_val_eq_sign [OF Nil.prems(2,3) Nil.prems(6) [unfolded bits_val.simps(1), symmetric]])
  then show ?case using Nil.prems(5) last_in_set [of ys] by auto
next
  case (Cons x xs)
  show ?case
  proof (cases ys)
    case Nil
    have "bits_val (x # xs) s = s" using Cons.prems(6) unfolding Nil bits_val.simps(1) .
    then have "\<forall>y \<in> set (x # xs). y = s" by (rule bits_val_eq_sign [OF Cons.prems(1,3)])
    then show ?thesis using Cons.prems(4) last_in_set [of "x # xs"] by auto
  next
    case (Cons y ys')
    have "to_uint32 x = to_uint32 y" "bits_val xs s = bits_val ys' s"
      using bits_val_Cons_split [of x xs s] bits_val_Cons_split [of y ys' s] Cons.prems(6) Cons
      by (simp_all del: bits_val.simps)
    moreover have "xs = ys'"
      using Cons.IH [of ys'] Cons.prems Cons calculation(2) by (auto split: if_splits)
    ultimately show ?thesis using Cons Cons.prems to_uint32_inj [of x y] by simp
  qed
qed

lemma bits_val_sign:
  "s \<in> {0, -1} \<Longrightarrow> bits_val xs s < 0 \<longleftrightarrow> s = -1"
proof (induction xs)
  case (Cons x xs)
  obtain u where u: "to_uint32 x = u" "0 \<le> u" "u < 4294967296" by simp
  then show ?case using Cons by (cases "s = -1") auto
qed auto

lemma integer_wf_inject:
  assumes "integer_wf x" and "integer_wf y" and "ival x = ival y"
  shows "x = y"
proof -
  have "isign x = isign y"
    using assms bits_val_sign [of "isign x" "ibits x"] bits_val_sign [of "isign y" "ibits y"]
    by (auto simp: integer_wf_def ival_def)
  moreover from this have "ibits x = ibits y"
    using assms by (auto simp: integer_wf_def ival_def intro: bits_val_inject)
  ultimately show ?thesis by (cases x, cases y) simp
qed

lemma isNegative_ival: "integer_wf x \<Longrightarrow> integer_isNegative x \<longleftrightarrow> ival x < 0"
  by (auto simp: integer_wf_def integer_isNegative_def ival_def bits_val_sign)

subsection \<open>Addition\<close>

definition val_from :: "js_integer \<Rightarrow> nat \<Rightarrow> int" where
  "val_from x i = bits_val (drop i (ibits x)) (isign x)"

lemma val_from_0: "val_from x 0 = ival x"
  by (simp add: val_from_def ival_def)

lemma val_from_high: "length (ibits x) \<le> i \<Longrightarrow> val_from x i = isign x"
  by (simp add: val_from_def)

lemma val_from_step:
  assumes "integer_wf x"
  shows "val_from x i = to_uint32 (integer_getBits x (int i)) + 4294967296 * val_from x (Suc i)"
proof (cases "i < length (ibits x)")
  case True
  then show ?thesis
    using Cons_nth_drop_Suc [OF True, symmetric] by (simp add: val_from_def integer_getBits_def)
next
  case False
  then show ?thesis using assms by (auto simp: val_from_def integer_getBits_def integer_wf_def to_uint32_mod)
qed

lemma add_piece_sum:
  assumes "carry \<in> {0, 1}" and "add_piece a b carry = (w, carry')"
  shows "to_uint32 w + 4294967296 * carry' = to_uint32 a + to_uint32 b + carry" and "carry' \<in> {0, 1}"
    and "to_int32 w = w"
proof -
  define a1 a0 b1 b0 where "a1 = to_uint32 a div 65536" "a0 = a mod 65536" "b1 = to_uint32 b div 65536" "b0 = b mod 65536"
  define c0 where "c0 = carry + a0 + b0"
  define c1 where "c1 = c0 div 65536 + a1 + b1"
  have mr: "0 \<le> c mod 65536 \<and> c mod 65536 \<le> 65535" for c :: int
    using pos_mod_bound [of 65536 c] pos_mod_sign [of 65536 c] by linarith
  have ur: "0 \<le> to_uint32 c div 65536 \<and> to_uint32 c div 65536 \<le> 65535" for c
    using pos_div_less [of "to_uint32 c" 65536 65536] by (simp add: pos_imp_zdiv_nonneg_iff)
  have r0: "0 \<le> c0 \<and> c0 \<le> 131071"
    using mr [of a] mr [of b] assms(1) by (auto simp: c0_def a1_a0_b1_b0_def)
  have d0: "0 \<le> c0 div 65536 \<and> c0 div 65536 \<le> 1"
    using r0 pos_div_less [of c0 2 65536] by (simp add: pos_imp_zdiv_nonneg_iff)
  have r1: "0 \<le> c1 \<and> c1 \<le> 131071"
    using d0 ur [of a] ur [of b] by (simp add: c1_def a1_a0_b1_b0_def)
  have d1: "0 \<le> c1 div 65536 \<and> c1 div 65536 \<le> 1"
    using r1 pos_div_less [of c1 2 65536] by (simp add: pos_imp_zdiv_nonneg_iff)
  have eq: "w = to_int32 (c1 mod 65536 * 65536 + c0 mod 65536)" "carry' = c1 div 65536"
  proof -
    have "js_shr a 16 = a1" "js_and a 65535 = a0" "js_shr b 16 = b1" "js_and b 65535 = b0"
      by (simp_all add: a1_a0_b1_b0_def js_shr_div js_and_masks to_uint32_mod)
    moreover have "js_shr c0 16 = c0 div 65536" "js_shr c1 16 = c1 div 65536"
      using r0 r1 by (simp_all add: js_shr_div)
    moreover have "js_or (js_shl (js_and c1 65535) 16) (js_and c0 65535) = to_int32 (c1 mod 65536 * 65536 + c0 mod 65536)"
      using mr [of c0] mr [of c1] by (simp add: js_and_masks or_pieces)
    ultimately show "w = to_int32 (c1 mod 65536 * 65536 + c0 mod 65536)" "carry' = c1 div 65536"
      using assms(2) by (simp_all add: add_piece_def Let_def c0_def [symmetric] c1_def [symmetric])
  qed
  have sum: "c1 mod 65536 * 65536 + c0 mod 65536 + 4294967296 * (c1 div 65536) = to_uint32 a + to_uint32 b + carry"
  proof -
    have "to_uint32 a = a1 * 65536 + a0" "to_uint32 b = b1 * 65536 + b0"
      using div_mult_mod_eq [of "to_uint32 a" 65536] div_mult_mod_eq [of "to_uint32 b" 65536]
      by (simp_all add: a1_a0_b1_b0_def to_uint32_def take_bit_eq_mod mod_mod_cancel)
    then have key: "r1 * 65536 + r0 + 4294967296 * q1 = to_uint32 a + to_uint32 b + carry"
      if "c0 = q0 * 65536 + r0" and "q0 + a1 + b1 = q1 * 65536 + r1" for q0 r0 q1 r1
      using that by (simp add: c0_def)
    show ?thesis
      by (rule key [of "c0 div 65536"]) (simp_all only: c1_def [symmetric] div_mult_mod_eq)
  qed
  show "to_int32 w = w" by (simp add: eq)
  show "carry' \<in> {0, 1}" using d1 eq by auto
  have "to_uint32 w = c1 mod 65536 * 65536 + c0 mod 65536"
    using mr [of c1] mr [of c0] by (simp add: eq to_uint32_id)
  then show "to_uint32 w + 4294967296 * carry' = to_uint32 a + to_uint32 b + carry" using sum eq by simp
qed

lemma add_loop_length: "length (add_loop x y i carry k) = k"
  by (induction k arbitrary: i carry) (simp_all split: prod.split)

lemma add_loop_val:
  assumes "integer_wf x" and "integer_wf y" and "carry \<in> {0, 1}"
    and "i + k = max (length (ibits x)) (length (ibits y))"
  shows "\<exists>ws t. add_loop x y i carry (Suc k) = ws @ [t] \<and> to_int32 t = t
    \<and> bits_val ws t = val_from x i + val_from y i + carry"
  using assms(3,4)
proof (induction k arbitrary: i carry)
  case 0
  obtain w carry' where w: "add_piece (integer_getBits x (int i)) (integer_getBits y (int i)) carry = (w, carry')"
    by fastforce
  have high: "integer_getBits x (int i) = isign x" "integer_getBits y (int i) = isign y"
    "val_from x i = isign x" "val_from y i = isign y"
    using 0(2) by (simp_all add: integer_getBits_def val_from_def)
  have "to_uint32 w = (isign x + isign y + carry) mod 4294967296"
  proof -
    have "to_uint32 w = (to_uint32 w + 4294967296 * carry') mod 4294967296"
      using base_split(1) [of "to_uint32 w" 4294967296 carry'] by (simp add: algebra_simps)
    also have "\<dots> = (to_uint32 (isign x) + to_uint32 (isign y) + carry) mod 4294967296"
      using add_piece_sum(1) [OF 0(1) w] high by simp
    also have "\<dots> = (isign x + isign y + carry) mod 4294967296"
      using assms(1,2) 0(1) by (auto simp: integer_wf_def to_uint32_mod)
    finally show ?thesis .
  qed
  then have "to_int32 w = to_int32 (isign x + isign y + carry)"
    by (metis to_int32_to_uint32 to_uint32_mod)
  also have "\<dots> = isign x + isign y + carry"
    using assms(1,2) 0(1) by (intro to_int32_id) (auto simp: integer_wf_def)
  finally show ?case
    using w high add_piece_sum(3) [OF 0(1) w] by (intro exI [of _ "[]"] exI [of _ w]) simp
next
  case (Suc k)
  obtain w carry' where w: "add_piece (integer_getBits x (int i)) (integer_getBits y (int i)) carry = (w, carry')"
    by fastforce
  obtain ws t where ws: "add_loop x y (Suc i) carry' (Suc k) = ws @ [t]" "to_int32 t = t"
    "bits_val ws t = val_from x (Suc i) + val_from y (Suc i) + carry'"
    using Suc.IH [of carry' "Suc i"] add_piece_sum(2) [OF Suc.prems(1) w] Suc.prems(2) by auto
  have "bits_val (w # ws) t = val_from x i + val_from y i + carry"
    using ws(3) add_piece_sum(1) [OF Suc.prems(1) w] val_from_step [OF assms(1), of i] val_from_step [OF assms(2), of i]
    by simp
  moreover have "add_loop x y i carry (Suc (Suc k)) = (w # ws) @ [t]"
    using w ws(1) by (subst add_loop.simps) (simp del: add_loop.simps)
  ultimately show ?case using ws(2) by blast
qed

lemma js_and_bit31:
  assumes "- 2147483648 \<le> t" and "t < 2147483648"
  shows "js_and t (js_shl 1 31) \<noteq> 0 \<longleftrightarrow> t < 0"
proof -
  have shl: "js_shl 1 31 = - (2 ^ 31)" by (simp add: js_shl_mult to_int32_mod)
  have and_eq: "js_and t (js_shl 1 31) = t AND - (2 ^ 31)"
    using assms by (simp add: js_and_def shl)
  show ?thesis
  proof (cases "t < 0")
    case True
    then have "t AND - (2 ^ 31) < 0" by (simp only: and_negative_int_iff) simp
    then have "t AND - (2 ^ 31) \<noteq> 0" by (rule less_imp_neq)
    then show ?thesis using True and_eq by simp
  next
    case False
    then have "bit t k \<Longrightarrow> k < 31" for k using assms by (intro bit_bounded_int [of t 31 k]) auto
    then have "t AND - (2 ^ 31) = 0" by (intro bit_eqI) (auto simp: bit_and_iff bit_minus_exp_iff simp del: power_numeral dest: leD)
    then show ?thesis using False and_eq by simp
  qed
qed

lemma fromBits_wf: "integer_wf (integer_fromBits bits)"
  by (simp add: integer_fromBits_def new_integer_wf)

lemma fromBits_val:
  assumes "to_int32 t = t"
  shows "ival (integer_fromBits (ws @ [t])) = bits_val ws t"
proof -
  have t: "- 2147483648 \<le> t" "t < 2147483648" using to_int32_range [of t] assms by simp_all
  define sg :: int where "sg = (if t < 0 then -1 else 0)"
  have "ival (integer_fromBits (ws @ [t])) = bits_val (ws @ [t]) sg"
    using js_and_bit31 [OF t] by (simp add: integer_fromBits_def ival_new_integer sg_def)
  also have "\<dots> = bits_val ws (to_uint32 t + 4294967296 * sg)" by (simp add: bits_val_append)
  also have "to_uint32 t + 4294967296 * sg = t"
    using t by (cases "t < 0") (simp_all add: sg_def to_uint32_neg)
  finally show ?thesis .
qed

lemma integer_add_val:
  assumes "integer_wf x" and "integer_wf y"
  shows "ival (integer_add x y) = ival x + ival y"
proof -
  obtain ws t where "add_loop x y 0 0 (Suc (max (length (ibits x)) (length (ibits y)))) = ws @ [t]"
    "to_int32 t = t" "bits_val ws t = ival x + ival y"
    using add_loop_val [OF assms, of 0 0] by (auto simp: val_from_0 simp del: add_loop.simps)
  then show ?thesis by (simp add: integer_add_def Let_def fromBits_val del: add_loop.simps)
qed

lemma integer_add_wf [simp]: "integer_wf (integer_add x y)"
  by (simp add: integer_add_def Let_def fromBits_wf del: add_loop.simps)

subsection \<open>Negation, subtraction and comparison\<close>

lemma to_uint32_js_not: "to_uint32 (js_not b) = 4294967295 - to_uint32 b"
proof -
  have "js_not b = - 1 - to_int32 b" by (simp add: js_not_def not_int_def)
  then have "to_uint32 (js_not b) = (- 1 - to_int32 b) mod 4294967296" by (simp only: to_uint32_mod)
  also have "\<dots> = (- 1 - to_uint32 b) mod 4294967296"
    using to_uint32_to_int32 [of b] by (metis mod_diff_right_eq to_uint32_mod)
  also have "- 1 - to_uint32 b = 4294967295 - to_uint32 b + (- 1) * 4294967296" by simp
  also have "\<dots> mod 4294967296 = (4294967295 - to_uint32 b) mod 4294967296" by (rule mod_mult_self1)
  finally show ?thesis using to_uint32_range [of b] by simp
qed

lemma bits_val_not: "bits_val (map js_not bs) (- 1 - s) = - 1 - bits_val bs s"
  by (induction bs) (simp_all add: to_uint32_js_not)

lemma js_not_sign: "s \<in> {0, -1} \<Longrightarrow> js_not s = - 1 - s \<and> js_not s \<in> {0, -1}"
  by (auto simp: js_not_eq)

lemma integer_wf_sign: "integer_wf x \<Longrightarrow> isign x \<in> {0, -1}"
  by (auto simp: integer_wf_def)

lemma integer_not_eq:
  assumes "integer_wf x"
  shows "integer_not x = new_integer (map js_not (ibits x)) (- 1 - isign x)" and "- 1 - isign x \<in> {0, -1}"
  using js_not_sign [OF integer_wf_sign [OF assms]] integer_wf_sign [OF assms] by (auto simp: integer_not_def)

lemma integer_not_val: "integer_wf x \<Longrightarrow> ival (integer_not x) = - 1 - ival x"
  using integer_not_eq [of x] ival_new_integer [of "- 1 - isign x"] by (simp add: bits_val_not ival_def [of x])

lemma integer_not_wf [simp]: "integer_wf x \<Longrightarrow> integer_wf (integer_not x)"
  using integer_not_eq [of x] new_integer_wf [of "- 1 - isign x"] by simp

lemma fromInt_val: "- 2147483648 \<le> v \<Longrightarrow> v < 2147483648 \<Longrightarrow> ival (integer_fromInt v) = v"
  by (cases "v < 0") (simp_all add: integer_fromInt_def ival_new_integer to_uint32_neg)

lemma fromInt_wf [simp]: "integer_wf (integer_fromInt v)"
  by (simp add: integer_fromInt_def new_integer_wf)

lemma integer_consts [simp]:
  "ival integer_ZERO = 0" "ival integer_ONE = 1" "ival integer_TWO_PWR_24 = 16777216"
  "integer_wf integer_ZERO" "integer_wf integer_ONE" "integer_wf integer_TWO_PWR_24"
  by (simp_all add: integer_ZERO_def integer_ONE_def integer_TWO_PWR_24_def fromInt_val js_shl_mult)

lemma integer_negate_wf [simp]: "integer_wf (integer_negate x)"
  by (simp add: integer_negate_def)

lemma integer_negate_val: "integer_wf x \<Longrightarrow> ival (integer_negate x) = - ival x"
  by (simp add: integer_negate_def integer_add_val integer_not_val)

lemma integer_subtract_wf [simp]: "integer_wf (integer_subtract x y)"
  by (simp add: integer_subtract_def)

lemma integer_subtract_val:
  "integer_wf x \<Longrightarrow> integer_wf y \<Longrightarrow> ival (integer_subtract x y) = ival x - ival y"
  by (simp add: integer_subtract_def integer_add_val integer_negate_val)

lemma isZero_ival:
  assumes "integer_wf x"
  shows "integer_isZero x \<longleftrightarrow> ival x = 0"
proof
  assume z: "integer_isZero x"
  have "bits_val bs 0 = 0" if "list_all (\<lambda>b. b = 0) bs" for bs
    using that by (induction bs) simp_all
  then show "ival x = 0" using z by (simp add: integer_isZero_def ival_def)
next
  assume "ival x = 0"
  then have "x = integer_ZERO" using assms by (intro integer_wf_inject) simp_all
  then show "integer_isZero x"
    by (simp add: integer_isZero_def integer_ZERO_def integer_fromInt_def new_integer_def prune_top_def)
qed

lemma integer_compare_val:
  "integer_wf x \<Longrightarrow> integer_wf y \<Longrightarrow> integer_compare x y = sgn (ival x - ival y)"
  by (auto simp: integer_compare_def Let_def isNegative_ival isZero_ival integer_subtract_val sgn_if)

text \<open>\<open>Integer.compare\<close> follows the integer denoted.\<close>

interpretation integer_order: comparable integer_compare integer_wf ival
  by unfold_locales (simp_all add: integer_compare_val sgn_if)

end
