(* ===== verification/Varint_Bits.thy ===== *)
theory Varint_Bits
  imports Varint
begin

text \<open>
  The bit level of \<^verbatim>\<open>src/lib/types/integer.js\<close>: the bitwise operations and shifts act on the
  infinite two's complement representation, and the buffer conversions are inverse to each other.
\<close>

subsection \<open>Bitwise operations and shifts\<close>

lemma bit_bits_val:
  "s \<in> {0, -1} \<Longrightarrow>
    bit (bits_val bs s) k \<longleftrightarrow> bit (if k div 32 < length bs then bs ! (k div 32) else s) (k mod 32)"
proof (induction bs arbitrary: k)
  case Nil
  then show ?case by auto
next
  case (Cons b bs)
  have "bits_val (b # bs) s = bits_val bs s * 2 ^ 32 + to_uint32 b" by simp
  then have "bit (bits_val (b # bs) s) k \<longleftrightarrow> (if k < 32 then bit (to_uint32 b) k else bit (bits_val bs s) (k - 32))"
    using bit_disjoint_add [of "to_uint32 b" 32 "bits_val bs s" k] by (simp del: bits_val.simps)
  moreover have "k div 32 = Suc ((k - 32) div 32)" "(k - 32) mod 32 = k mod 32" if "\<not> k < 32"
    using that le_div_geq [of 32 k] le_mod_geq [of 32 k] by simp_all
  ultimately show ?case using Cons by (auto simp: bit_to_uint32)
qed

lemma bit_ival:
  "integer_wf x \<Longrightarrow> bit (ival x) k \<longleftrightarrow> bit (integer_getBits x (int (k div 32))) (k mod 32)"
  using bit_bits_val [OF integer_wf_sign, of x "ibits x" k]
  by (simp add: ival_def integer_getBits_def del: bit_0 flip: of_nat_div)

lemma bit_ival_new_integer:
  "s \<in> {0, -1} \<Longrightarrow> bit (ival (new_integer bs s)) k \<longleftrightarrow> bit (if k div 32 < length bs then bs ! (k div 32) else s) (k mod 32)"
  by (simp add: ival_new_integer bit_bits_val del: bit_0)

lemma integer_bitop_bits:
  assumes "integer_wf x" and "integer_wf y"
    and f: "\<And>a b k. k < 32 \<Longrightarrow> bit (f a b) k \<longleftrightarrow> g (bit a k) (bit b k)"
    and s: "f (isign x) (isign y) \<in> {0, -1}"
  shows "bit (ival (integer_bitop f x y)) k \<longleftrightarrow> g (bit (ival x) k) (bit (ival y) k)"
proof -
  have "bit (ival (integer_bitop f x y)) k
      \<longleftrightarrow> bit (f (integer_getBits x (int (k div 32))) (integer_getBits y (int (k div 32)))) (k mod 32)"
    using s unfolding integer_bitop_def bit_ival_new_integer [OF s]
    by (cases "k div 32 < max (length (ibits x)) (length (ibits y))")
      (simp_all add: integer_getBits_def bit_0 less_max_iff_disj del: bit_0 of_nat_div)
  then show ?thesis using assms(1,2) by (simp add: f bit_ival)
qed

lemma sign_bitops:
  assumes "s \<in> {0, -1}" and "t \<in> {0, -1}"
  shows "js_and s t \<in> {0, -1}" and "js_or s t \<in> {0, -1}" and "js_xor s t \<in> {0, -1}"
  using assms by (auto simp: js_and_def js_or_def js_xor_def)

lemma integer_bitops_val:
  assumes "integer_wf x" and "integer_wf y"
  shows "ival (integer_and x y) = ival x AND ival y" and "ival (integer_or x y) = ival x OR ival y"
    and "ival (integer_xor x y) = ival x XOR ival y"
proof -
  note s = sign_bitops [OF integer_wf_sign [OF assms(1)] integer_wf_sign [OF assms(2)]]
  note b = integer_bitop_bits [OF assms]
  show "ival (integer_and x y) = ival x AND ival y"
    unfolding integer_and_def by (rule bit_eqI) (simp only: b [of js_and "(\<and>)", OF bit_js_ops(1) s(1)] bit_and_iff)
  show "ival (integer_or x y) = ival x OR ival y"
    unfolding integer_or_def by (rule bit_eqI) (simp only: b [of js_or "(\<or>)", OF bit_js_ops(2) s(2)] bit_or_iff)
  show "ival (integer_xor x y) = ival x XOR ival y"
    unfolding integer_xor_def by (rule bit_eqI) (simp only: b [of js_xor "(\<noteq>)", OF bit_js_ops(3) s(3)] bit_xor_iff)
qed

lemma split_index:
  fixes n k m :: nat
  assumes "0 < m"
  shows "(n + k) div m = n div m + k div m + (if n mod m + k mod m < m then 0 else 1)"
    and "(n + k) mod m = (if n mod m + k mod m < m then n mod m + k mod m else n mod m + k mod m - m)"
proof -
  have r: "n mod m < m" "k mod m < m" using assms by simp_all
  have "(n mod m + k mod m) div m = (if n mod m + k mod m < m then 0 else 1)"
  proof (cases "n mod m + k mod m < m")
    case False
    then have "(n mod m + k mod m) div m = Suc ((n mod m + k mod m - m) div m)"
      using assms by (intro le_div_geq) simp_all
    then show ?thesis using False r by simp
  qed simp
  then show "(n + k) div m = n div m + k div m + (if n mod m + k mod m < m then 0 else 1)"
    by (simp add: div_add1_eq [of n k m])
  show "(n + k) mod m = (if n mod m + k mod m < m then n mod m + k mod m else n mod m + k mod m - m)"
  proof -
    have "n mod m + k mod m - m < m" using r by linarith
    then show ?thesis by (subst mod_add_eq [symmetric]) (simp add: le_mod_geq)
  qed
qed

lemma getBits_high: "length (ibits x) \<le> i \<Longrightarrow> integer_getBits x (int i) = isign x"
  by (simp add: integer_getBits_def)

text \<open>Below \<open>2 ^ 31\<close> the count splits into whole pieces and bits; the array is shorter by the pieces, or longer.\<close>

lemma count_split:
  assumes "n < 2147483648"
  shows "js_sar (int n) 5 = int (n div 32)" "rem32 (int n) = int (n mod 32)"
  using assms by (simp_all add: js_sar_div rem32_def zdiv_int zmod_int)

lemma shiftLeft_pieces:
  assumes "n < 2147483648"
  shows "integer_shiftLeft x (int n) = (let arrDelta = n div 32; bitDelta = n mod 32;
         len = length (ibits x) + arrDelta + (if bitDelta > 0 then 1 else 0)
     in new_integer
          (map (\<lambda>i. if bitDelta > 0
                    then js_or (js_shl (integer_getBits x (int i - int arrDelta)) bitDelta)
                           (js_shr (integer_getBits x (int i - int arrDelta - 1)) (32 - bitDelta))
                    else integer_getBits x (int i - int arrDelta)) [0..<len])
          (isign x))"
proof -
  have "nat (int (length (ibits x)) + int (n div 32) + (if int (n mod 32) > 0 then 1 else 0)) =
      length (ibits x) + n div 32 + (if n mod 32 > 0 then 1 else 0)" unfolding of_nat_0_less_iff by (auto simp del: of_nat_div of_nat_mod)
  moreover have "nat (32 - int (n mod 32)) = 32 - n mod 32" by (simp del: of_nat_mod add: nat_diff_distrib)
  ultimately show ?thesis
    unfolding integer_shiftLeft_def count_split[OF assms] Let_def by (simp del: of_nat_div of_nat_mod upt_Suc cong: if_cong)
qed

lemma shiftRight_pieces:
  assumes "n < 2147483648"
  shows "integer_shiftRight x (int n) = (let arrDelta = n div 32; bitDelta = n mod 32;
         len = length (ibits x) - arrDelta
     in new_integer
          (map (\<lambda>i. if bitDelta > 0
                    then js_or (js_shr (integer_getBits x (int i + int arrDelta)) bitDelta)
                           (js_shl (integer_getBits x (int i + int arrDelta + 1)) (32 - bitDelta))
                    else integer_getBits x (int i + int arrDelta)) [0..<len])
          (isign x))"
proof -
  have "nat (int (length (ibits x)) - int (n div 32)) = length (ibits x) - n div 32" by (simp del: of_nat_div)
  moreover have "nat (32 - int (n mod 32)) = 32 - n mod 32" by (simp del: of_nat_mod add: nat_diff_distrib)
  ultimately show ?thesis
    unfolding integer_shiftRight_def count_split[OF assms] Let_def by (simp del: of_nat_div of_nat_mod cong: if_cong)
qed

lemma shiftRight_val:
  assumes "integer_wf x" "n < 2147483648"
  shows "ival (integer_shiftRight x (int n)) = drop_bit n (ival x)"
proof (rule bit_eqI)
  fix k :: nat
  define i j d b where ijdb: "i = k div 32" "j = k mod 32" "d = n div 32" "b = n mod 32"
  have jb: "j < 32" "b < 32" by (simp_all add: ijdb)
  have goal: "bit (drop_bit n (ival x)) k \<longleftrightarrow>
      (if b + j < 32 then bit (integer_getBits x (int (d + i))) (b + j)
       else bit (integer_getBits x (int (d + i + 1))) (b + j - 32))"
    using bit_ival [OF assms(1), of "n + k"] split_index [of 32 n k]
    by (simp add: bit_drop_bit_eq ijdb del: of_nat_add of_nat_Suc bit_0)
  have piece: "bit (if b > 0 then js_or (js_shr (integer_getBits x (int i + int d)) b)
                           (js_shl (integer_getBits x (int i + int d + 1)) (32 - b))
                    else integer_getBits x (int i + int d)) j \<longleftrightarrow>
      (if b + j < 32 then bit (integer_getBits x (int (d + i))) (b + j)
       else bit (integer_getBits x (int (d + i + 1))) (b + j - 32))"
    using jb by (auto simp: bit_js_ops bit_js_shifts add.commute add.left_commute simp del: bit_0)
  have res: "bit (ival (integer_shiftRight x (int n))) k \<longleftrightarrow>
      bit (if i < length (ibits x) - d
           then (if b > 0 then js_or (js_shr (integer_getBits x (int i + int d)) b)
                           (js_shl (integer_getBits x (int i + int d + 1)) (32 - b))
                    else integer_getBits x (int i + int d)) else isign x) j"
    unfolding shiftRight_pieces [OF assms(2)] Let_def bit_ival_new_integer [OF integer_wf_sign [OF assms(1)]]
    by (simp add: ijdb [symmetric] del: bit_0 of_nat_add of_nat_Suc)
  show "bit (ival (integer_shiftRight x (int n))) k \<longleftrightarrow> bit (drop_bit n (ival x)) k"
  proof (cases "i < length (ibits x) - d")
    case True
    then show ?thesis using res goal piece by simp
  next
    case False
    then have "integer_getBits x (int (d + i)) = isign x" "integer_getBits x (int (d + i + 1)) = isign x"
      by (intro getBits_high; simp)+
    then show ?thesis using False res goal integer_wf_sign [OF assms(1)] by auto
  qed
qed

lemma getBits_neg: "i < 0 \<Longrightarrow> integer_getBits x i = 0"
  by (simp add: integer_getBits_def)

lemma shiftLeft_val:
  assumes "integer_wf x" "n < 2147483648"
  shows "ival (integer_shiftLeft x (int n)) = push_bit n (ival x)"
proof (rule bit_eqI)
  fix k :: nat
  define i j d b where ijdb: "i = k div 32" "j = k mod 32" "d = n div 32" "b = n mod 32"
  have jb: "j < 32" "b < 32" by (simp_all add: ijdb)
  define piece where "piece = (if b > 0 then js_or (js_shl (integer_getBits x (int i - int d)) b)
                           (js_shr (integer_getBits x (int i - int d - 1)) (32 - b))
                    else integer_getBits x (int i - int d))"
  have res: "bit (ival (integer_shiftLeft x (int n))) k \<longleftrightarrow>
      bit (if i < length (ibits x) + d + (if b > 0 then 1 else 0) then piece else isign x) j"
    unfolding shiftLeft_pieces [OF assms(2)] Let_def bit_ival_new_integer [OF integer_wf_sign [OF assms(1)]] piece_def
    by (simp add: ijdb [symmetric] del: bit_0 of_nat_add of_nat_Suc upt_Suc)
  have piece: "bit piece j \<longleftrightarrow> (if b \<le> j then bit (integer_getBits x (int i - int d)) (j - b)
      else bit (integer_getBits x (int i - int d - 1)) (32 + j - b))"
    using jb by (auto simp: piece_def bit_js_ops bit_js_shifts simp del: bit_0)
  have high: "bit piece j = bit (isign x) j" if "\<not> i < length (ibits x) + d + (if b > 0 then 1 else 0)"
  proof -
    have "integer_getBits x (int (i - d)) = isign x" using that by (intro getBits_high) simp
    moreover have "integer_getBits x (int (i - d - 1)) = isign x" if "b > 0"
      using that \<open>\<not> i < _\<close> by (intro getBits_high) simp
    ultimately show ?thesis using that piece integer_wf_sign [OF assms(1)]
      by (auto simp: of_nat_diff diff_diff_add add.commute split: if_splits)
  qed
  have goal: "bit (push_bit n (ival x)) k \<longleftrightarrow> bit piece j"
  proof (cases "n \<le> k")
    case True
    then obtain m where k: "k = n + m" using le_Suc_ex by blast
    have "i = d + m div 32 + (if b + m mod 32 < 32 then 0 else 1)"
      "j = (if b + m mod 32 < 32 then b + m mod 32 else b + m mod 32 - 32)"
      using split_index [of 32 n m] by (simp_all add: ijdb k)
    moreover have "bit (push_bit n (ival x)) k \<longleftrightarrow> bit (integer_getBits x (int (m div 32))) (m mod 32)"
      using bit_ival [OF assms(1), of m] by (simp add: k bit_push_bit_iff)
    moreover have "m mod 32 < 32" by simp
    ultimately show ?thesis unfolding piece using jb
      by (auto split: if_splits simp del: of_nat_div of_nat_mod bit_0)
  next
    case False
    have "i \<le> d" using False unfolding ijdb by (intro div_le_mono) simp
    moreover have "j < b" if "i = d"
      using False that mult_div_mod_eq [of 32 n] mult_div_mod_eq [of 32 k] unfolding ijdb by linarith
    ultimately have "i < d \<or> i = d \<and> j < b" by linarith
    then have "\<not> bit piece j" unfolding piece by (auto simp: getBits_neg simp del: bit_0)
    then show ?thesis using False by (simp add: bit_push_bit_iff)
  qed
  show "bit (ival (integer_shiftLeft x (int n))) k \<longleftrightarrow> bit (push_bit n (ival x)) k"
    using res goal high by auto
qed

text \<open>The low 32 bits of \<open>2 ^ 32\<close> are zero: shifting by it is shifting by nothing.\<close>

lemma shift_by_word:
  "integer_shiftLeft x (2 ^ 32) = integer_shiftLeft x 0" "integer_shiftRight x (2 ^ 32) = integer_shiftRight x 0"
proof -
  have "js_sar (2 ^ 32) 5 = js_sar 0 5" "rem32 (2 ^ 32) = rem32 0" by (simp_all add: js_sar_def rem32_def to_int32_def)
  then show "integer_shiftLeft x (2 ^ 32) = integer_shiftLeft x 0" "integer_shiftRight x (2 ^ 32) = integer_shiftRight x 0"
    by (simp_all only: integer_shiftLeft_def integer_shiftRight_def)
qed

subsection \<open>Buffers\<close>

text \<open>The integer a big-endian two's complement buffer denotes.\<close>

definition be_signed :: "buffer \<Rightarrow> int" where
  "be_signed buf = be_uint buf - (if buf \<noteq> [] \<and> hd buf \<ge> 128 then 256 ^ length buf else 0)"

lemma or_bytes:
  assumes "0 \<le> b" and "b < 256" and "0 \<le> a" and "a * 256 < 2147483648"
  shows "js_or (a * 256) b = a * 256 + b"
proof -
  have "a * 256 + b < 2147483648" using assms(2,4) by presburger
  then show ?thesis using js_or_disjoint [of b 8 a] assms by simp
qed

lemma shl_byte: "0 \<le> b \<Longrightarrow> b < 256 \<Longrightarrow> n \<in> {0, 8, 16} \<Longrightarrow> js_shl b n = b * 2 ^ n"
  by (auto simp: js_shl_mult)

lemma or_byte8:
  assumes "0 \<le> b" and "b < 256" and "0 \<le> a" and "a < 256"
  shows "js_or (a * 65536) (b * 256) = a * 65536 + b * 256"
  using js_or_disjoint [of "b * 256" 16 a] assms by simp

lemma js_or_zero: "0 \<le> a \<Longrightarrow> a < 2147483648 \<Longrightarrow> js_or 0 a = a"
  by (simp add: js_or_def)

lemma join_bytes:
  assumes "bytes_ok bs" and "bs \<noteq> []" and "length bs \<le> 3"
  shows "foldl (\<lambda>value j. js_or value (js_shl (bs ! j) ((length bs - j - 1) * 8))) 0 [0..<length bs] = be_uint bs"
proof -
  consider (one) a where "bs = [a]" | (two) a b where "bs = [a, b]" | (three) a b c where "bs = [a, b, c]"
    using assms(2,3) by (cases bs rule: remdups_adj.cases) (auto simp: length_Suc_conv le_Suc_eq)
  then show ?thesis
  proof cases
    case one
    then show ?thesis using assms(1) by (simp add: shl_byte js_or_zero be_uint_def)
  next
    case two
    then show ?thesis using assms(1) or_bytes [of b a]
      by (simp add: shl_byte js_or_zero be_uint_def upt_rec)
  next
    case three
    have "(a * 256 + b) * 256 = a * 65536 + b * 256" by simp
    moreover have "js_or ((a * 256 + b) * 256) c = (a * 256 + b) * 256 + c"
      using three assms(1) by (intro or_bytes) simp_all
    ultimately have "js_or (a * 65536 + b * 256) c = a * 65536 + b * 256 + c" by metis
    then show ?thesis using three assms(1) or_byte8 [of b a]
      by (simp add: shl_byte js_or_zero be_uint_def upt_rec)
  qed
qed

lemma not_byte: "0 \<le> b \<Longrightarrow> b < 256 \<Longrightarrow> js_and (js_not b) 255 = 255 - b"
proof -
  assume b: "0 \<le> b" "b < 256"
  have "js_not b = 255 - b + (- 1) * 256" using b by (simp add: js_not_eq)
  then have "js_and (js_not b) 255 = (255 - b + (- 1) * 256) mod 256" by (simp only: js_and_masks)
  also have "\<dots> = (255 - b) mod 256" by (rule mod_mult_self1)
  finally show ?thesis using b by simp
qed

lemma be_uint_complement: "be_uint (map (\<lambda>b. 255 - b) bs) = 256 ^ length bs - 1 - be_uint bs"
  by (induction bs) (simp_all add: be_uint_Cons algebra_simps)

lemma partial_piece_value:
  assumes "bytes_ok buf" and "0 < n" and "n \<le> 3" and "n \<le> length buf" and "sign \<in> {0, -1}"
  shows "partial_piece buf sign n = be_uint (take n buf) + sign * 256 ^ n"
proof -
  define bs where "bs = (if sign = -1 then map (\<lambda>b. 255 - b) (take n buf) else take n buf)"
  have len: "length bs = n" using assms(4) by (simp add: bs_def)
  have ok: "bytes_ok bs" using bytes_ok_take_drop(1) [OF assms(1), of n] by (auto simp: bs_def bytes_ok_def)
  have nth: "(if sign = -1 then js_and (js_not (buf ! j)) 255 else buf ! j) = bs ! j" if "j < n" for j
    using that assms(1,4) by (auto simp: bs_def bytes_ok_def not_byte)
  have "partial_piece buf sign n = (if sign = -1 then js_not (be_uint bs) else be_uint bs)"
  proof -
    have "foldl (\<lambda>value j. js_or value
            (js_shl (if sign = -1 then js_and (js_not (buf ! j)) 255 else buf ! j) ((n - j - 1) * 8))) 0 [0..<n]
        = foldl (\<lambda>value j. js_or value (js_shl (bs ! j) ((n - j - 1) * 8))) 0 [0..<n]"
      by (rule foldl_cong) (simp_all add: nth)
    also have "\<dots> = be_uint bs" using join_bytes [OF ok] len assms(2,3) by auto
    finally show ?thesis by (simp only: partial_piece_def Let_def)
  qed
  moreover have "0 \<le> be_uint bs" "be_uint bs < 2147483648"
    using be_uint_range [OF ok] len assms(3) power_increasing [of n 3 "256::int"] by auto
  ultimately show ?thesis
    using assms(5) be_uint_complement [of "take n buf"] assms(4) by (auto simp: bs_def js_not_eq)
qed

definition buffer_pieces :: "buffer \<Rightarrow> int \<Rightarrow> int list" where
  "buffer_pieces buf sign = map (buffer_piece buf sign) [0..<(length buf + 3) div 4]"

lemma partial_piece_append: "n \<le> length hi \<Longrightarrow> partial_piece (hi @ lo) sign n = partial_piece hi sign n"
proof -
  assume n: "n \<le> length hi"
  have "foldl (\<lambda>value j. js_or value
            (js_shl (if sign = -1 then js_and (js_not ((hi @ lo) ! j)) 255 else (hi @ lo) ! j) ((n - j - 1) * 8))) 0 [0..<n]
      = foldl (\<lambda>value j. js_or value
            (js_shl (if sign = -1 then js_and (js_not (hi ! j)) 255 else hi ! j) ((n - j - 1) * 8))) 0 [0..<n]"
    using n by (intro foldl_cong) (auto simp: nth_append)
  then show ?thesis by (simp only: partial_piece_def Let_def)
qed

lemma buffer_pieces_append:
  assumes "length lo = 4"
  shows "buffer_pieces (hi @ lo) sign = to_int32 (be_uint lo) # buffer_pieces hi sign"
proof -
  have n: "(length (hi @ lo) + 3) div 4 = Suc ((length hi + 3) div 4)" using assms by simp
  have first: "buffer_piece (hi @ lo) sign 0 = to_int32 (be_uint lo)"
    using assms by (simp add: buffer_piece_def read_int32_be_def)
  have rest: "buffer_piece (hi @ lo) sign (Suc i) = buffer_piece hi sign i" if "i < (length hi + 3) div 4" for i
  proof (cases "length hi < (i + 1) * 4")
    case True
    then show ?thesis using assms by (simp add: buffer_piece_def partial_piece_append)
  next
    case False
    then have "take 4 (drop (length hi - (i + 1) * 4) (hi @ lo)) = take 4 (drop (length hi - (i + 1) * 4) hi)"
      by simp
    then show ?thesis using False assms by (simp add: buffer_piece_def read_int32_be_def)
  qed
  show ?thesis unfolding buffer_pieces_def n
    by (simp add: upt_conv_Cons map_Suc_upt [symmetric] first rest del: upt_Suc map_Suc_upt)
qed

lemma buffer_pieces_value:
  assumes "bytes_ok buf" and "sign \<in> {0, -1}"
  shows "bits_val (buffer_pieces buf sign) sign = be_uint buf + sign * 256 ^ length buf"
  using assms(1)
proof (induction "length buf" arbitrary: buf rule: less_induct)
  case less
  consider "buf = []" | (short) "buf \<noteq> []" "length buf \<le> 3" | (long) "4 \<le> length buf" by linarith
  then show ?case
  proof cases
    case short
    then have "(length buf + 3) div 4 = 1" by (cases "length buf") auto
    then have "buffer_pieces buf sign = [partial_piece buf sign (length buf)]"
      using short by (simp add: buffer_pieces_def buffer_piece_def)
    moreover have "partial_piece buf sign (length buf) = be_uint buf + sign * 256 ^ length buf"
      using short less.prems assms(2) by (subst partial_piece_value) auto
    moreover have "0 \<le> be_uint buf" "be_uint buf < 256 ^ length buf" "(256::int) ^ length buf \<le> 16777216"
      using be_uint_range [OF less.prems] short power_increasing [of "length buf" 3 "256::int"] by auto
    ultimately show ?thesis using assms(2) by (auto simp: to_uint32_neg)
  next
    case long
    define hi lo where "hi = take (length buf - 4) buf" "lo = drop (length buf - 4) buf"
    have buf: "buf = hi @ lo" and len: "length lo = 4" "length hi < length buf"
      using long by (simp_all add: hi_lo_def)
    have ok: "bytes_ok hi" "bytes_ok lo" using less.prems by (simp_all add: buf)
    have "to_uint32 (be_uint lo) = be_uint lo" using be_uint_range [OF ok(2)] len by simp
    then show ?thesis using less.hyps [OF len(2) ok(1)] len
      by (simp add: buf buffer_pieces_append be_uint_append power_add algebra_simps)
  qed (simp add: buffer_pieces_def)
qed

lemma fromBuffer_value: "bytes_ok buf \<Longrightarrow> ival (integer_fromBuffer buf) = be_signed buf"
proof -
  assume ok: "bytes_ok buf"
  define sg :: int where "sg = (if buf \<noteq> [] \<and> hd buf \<ge> 128 then -1 else 0)"
  have top: "js_and b 128 \<noteq> 0 \<longleftrightarrow> b \<ge> 128" if "0 \<le> b" "b < 256" for b
  proof -
    have "js_and b 128 = b AND 2 ^ 7" using that by (simp add: js_and_def)
    moreover have "b AND 2 ^ 7 \<noteq> 0 \<longleftrightarrow> bit b 7"
      by (metis and.commute and_exp_eq_0_iff_not_bit)
    moreover have "bit b 7 \<longleftrightarrow> b \<ge> 128"
    proof (cases "b \<ge> 128")
      case True
      then have "b div 128 = 1" using pos_div_less [of b 2 128] that pos_imp_zdiv_pos_iff [of 128 b] by simp
      then show ?thesis using True by (simp add: bit_iff_odd)
    qed (use that in \<open>simp add: bit_iff_odd\<close>)
    ultimately show ?thesis by simp
  qed
  have "integer_fromBuffer buf = new_integer (buffer_pieces buf sg) sg"
    using ok top [of "hd buf"] by (cases buf) (simp_all add: integer_fromBuffer_def buffer_pieces_def sg_def Let_def)
  then show ?thesis
    using buffer_pieces_value [OF ok, of sg] by (simp add: ival_new_integer sg_def be_signed_def)
qed

lemma fromBuffer_wf [simp]: "integer_wf (integer_fromBuffer buf)"
  by (simp add: integer_fromBuffer_def Let_def new_integer_wf)

lemma sar_byte: "n \<le> 24 \<Longrightarrow> js_and (js_sar u n) 255 = to_uint32 u div 2 ^ n mod 256"
proof -
  assume n: "n \<le> 24"
  have "take_bit 8 (js_sar u n) = take_bit 8 (drop_bit n (to_uint32 u))"
    using n by (intro bit_eqI) (auto simp: js_sar_def bit_simps bit_to_int32 bit_to_uint32)
  then show ?thesis by (simp add: js_and_masks take_bit_eq_mod drop_bit_eq_div)
qed

lemma byte_sign: "0 \<le> b \<Longrightarrow> b < 256 \<Longrightarrow> js_sar b 7 \<noteq> 0 \<longleftrightarrow> b \<ge> 128"
proof -
  assume b: "0 \<le> b" "b < 256"
  have "b div 128 \<noteq> 0 \<longleftrightarrow> b \<ge> 128" using b by (cases "b < 128") (simp_all add: pos_imp_zdiv_pos_iff zdiv_eq_0_iff)
  then show ?thesis using b by (simp add: js_sar_div)
qed

lemma high_bytes_value:
  "be_uint (high_bytes u) = to_uint32 u \<and> bytes_ok (high_bytes u) \<and> high_bytes u \<noteq> [] \<and> hd (high_bytes u) < 128"
proof -
  define v where "v = to_uint32 u"
  define q1 q2 q3 where q: "q1 = v div 256" "q2 = v div 65536" "q3 = v div 16777216"
  have q2': "q2 = q1 div 256" "q3 = q2 div 256" using zdiv_zmult2_eq [of 256 v 256] zdiv_zmult2_eq [of 256 v 65536]
    by (simp_all add: q)
  have nn: "0 \<le> q1" "0 \<le> q2" "0 \<le> q3" "q3 < 256"
    using pos_div_less [of v 256 16777216] by (simp_all add: q v_def pos_imp_zdiv_nonneg_iff)
  have small: "a mod 256 = a" if "a div 256 = 0" for a :: int
    using that div_mult_mod_eq [of a 256] by simp
  define high where "high = (if q3 > 0 then [q3 mod 256] else []) @ (if q2 > 0 then [q2 mod 256] else [])
     @ (if q1 > 0 then [q1 mod 256] else []) @ [v mod 256]"
  have hb: "high_bytes u = (if hd high \<ge> 128 then 0 # high else high)"
  proof -
    have "0 \<le> hd high" "hd high < 256" by (auto simp: high_def)
    moreover have "js_and u 255 = v mod 256" using sar_byte [of 0 u] by (simp add: v_def js_and_masks js_sar_def)
    moreover have "js_shr u 24 = q3" "js_shr u 16 = q2" "js_shr u 8 = q1"
      by (simp_all add: js_shr_def q v_def drop_bit_eq_div)
    moreover have "js_and (js_sar u 24) 255 = q3 mod 256" "js_and (js_sar u 16) 255 = q2 mod 256"
      "js_and (js_sar u 8) 255 = q1 mod 256" by (simp_all add: sar_byte q v_def)
    ultimately have "high_bytes u = (if js_sar (hd high) 7 \<noteq> 0 then 0 # high else high)"
      unfolding high_bytes_def high_def Let_def by (simp only:)
    then show ?thesis using byte_sign [of "hd high"] \<open>0 \<le> hd high\<close> \<open>hd high < 256\<close> by simp
  qed
  have val: "be_uint high = v"
  proof -
    define b c d where bcd: "b = q2 mod 256" "c = q1 mod 256" "d = v mod 256"
    have eqs: "v = q1 * 256 + d" "q1 = q2 * 256 + c" "q2 = q3 * 256 + b"
      unfolding bcd q2' by (simp_all add: q(1))
    have high: "high = (if q3 > 0 then [q3] else []) @ (if q2 > 0 then [b] else []) @ (if q1 > 0 then [c] else []) @ [d]"
      using nn by (simp add: high_def bcd)
    have r: "0 \<le> b" "0 \<le> c" by (simp_all add: bcd)
    consider "q3 > 0" "q2 > 0" "q1 > 0" | "q3 = 0" "q2 > 0" "q1 > 0" | "q3 = 0" "q2 = 0" "q1 > 0"
      | "q3 = 0" "q2 = 0" "q1 = 0" using nn eqs r by linarith
    then show ?thesis using eqs unfolding high by cases (simp_all add: be_uint_def)
  qed
  have "bytes_ok high" "high \<noteq> []" by (auto simp: high_def)
  then show ?thesis using val by (auto simp: hb be_uint_Cons v_def)
qed

lemma bits_val_shift: "bits_val bs s = bits_val bs 0 + s * 4294967296 ^ length bs"
  by (induction bs) (simp_all add: algebra_simps)

lemma low_bytes_value:
  "be_uint (concat (map int32_be (rev bs))) = bits_val bs 0" "length (concat (map int32_be (rev bs))) = 4 * length bs"
  by (induction bs) (simp_all add: be_uint_append be_uint_int32_be)

lemma toBuffer_bytes: "integer_wf x \<Longrightarrow> bytes_ok (integer_toBuffer x)"
  by (auto simp: integer_toBuffer_def Let_def bytes_ok_def to_byte_def dest: int32_be_ok [unfolded bytes_ok_def, rule_format])

lemma toBuffer_value:
  assumes "integer_wf x"
  shows "be_signed (integer_toBuffer x) = ival x"
proof (cases "ibits x" rule: rev_cases)
  case Nil
  then show ?thesis using integer_wf_sign [OF assms]
    by (auto simp: integer_toBuffer_def be_signed_def ival_def to_byte_def be_uint_def)
next
  case (snoc bs t)
  define low where "low = concat (map int32_be (rev bs))"
  define P :: int where "P = 256 ^ length low"
  have low: "be_uint low = bits_val bs 0" "P = 4294967296 ^ length bs"
    using low_bytes_value [of bs] by (simp_all add: low_def P_def power_mult)
  have ival: "ival x = bits_val bs 0 + (to_uint32 t + 4294967296 * isign x) * P"
    using bits_val_shift [of bs "to_uint32 t + 4294967296 * isign x"] by (simp add: ival_def snoc bits_val_append low)
  show ?thesis
  proof (cases "isign x = -1")
    case False
    then have s: "isign x = 0" using integer_wf_sign [OF assms] by simp
    have "map to_byte (high_bytes t) = high_bytes t"
      using high_bytes_value [of t] by (auto simp: bytes_ok_def to_byte_def intro!: map_idI)
    then have "integer_toBuffer x = high_bytes t @ low"
      using s snoc by (simp add: integer_toBuffer_def low_def)
    then show ?thesis using high_bytes_value [of t] s
      by (simp add: be_signed_def be_uint_append low ival P_def [symmetric])
  next
    case True
    define hb where "hb = high_bytes (js_not t)"
    have hb: "be_uint hb = 4294967295 - to_uint32 t" "bytes_ok hb" "hb \<noteq> []" "hd hb < 128"
      using high_bytes_value [of "js_not t"] by (simp_all add: hb_def to_uint32_js_not)
    have "map (\<lambda>b. to_byte (js_not b)) hb = map (\<lambda>b. 255 - b) hb"
      using hb(2) not_byte by (auto simp: bytes_ok_def to_byte_def js_and_masks)
    then have "integer_toBuffer x = map (\<lambda>b. 255 - b) hb @ low"
      using True snoc by (simp add: integer_toBuffer_def low_def hb_def)
    moreover have "P * 4294967295 = P * be_uint hb + P * to_uint32 t" unfolding hb(1) by (simp add: algebra_simps)
    ultimately show ?thesis using hb(2-4) True
      by (simp add: be_signed_def be_uint_append be_uint_complement low(1) ival P_def [symmetric] hd_map power_add
          algebra_simps)
  qed
qed

section \<open>Properties\<close>

text \<open>
  C21: the varint codec. \<open>fromBuffer\<close> reads a buffer as a big-endian two's complement number,
  \<open>toBuffer\<close> writes one, and decoding an encoded integer gives back the same object.
\<close>

theorem integer_buffer_roundtrip:
  assumes "integer_wf x" and "bytes_ok buf"
  shows "ival (integer_fromBuffer buf) = be_signed buf \<and> integer_wf (integer_fromBuffer buf)
    \<and> be_signed (integer_toBuffer x) = ival x \<and> bytes_ok (integer_toBuffer x)
    \<and> integer_fromBuffer (integer_toBuffer x) = x"
  using assms fromBuffer_value [of buf] toBuffer_value [of x] toBuffer_bytes [of x]
    fromBuffer_value [of "integer_toBuffer x"]
  by (auto intro!: integer_wf_inject)

theorem integer_buffer_roundtrip_witness:
  "integer_fromBuffer (integer_toBuffer (new_integer [-1, 5, -7] (-1))) = new_integer [-1, 5, -7] (-1)
    \<and> ival (integer_fromBuffer [255, 0, 1]) = - 65535"
  using integer_buffer_roundtrip [of "new_integer [-1, 5, -7] (-1)" "[255, 0, 1]"]
  by (simp add: new_integer_wf be_signed_def be_uint_def)

text \<open>
  C23: the bitwise operations are those of the unbounded two's complement number, and so are the shifts by a count from
  0 to \<open>2 ^ 31 - 1\<close>: a multiplication or a floor division by a power of two. A count of \<open>2 ^ 32\<close> leaves the value as it is.
\<close>

theorem integer_bitwise_exact:
  assumes "integer_wf x" and "integer_wf y" and "n < 2147483648"
  shows "ival (integer_and x y) = ival x AND ival y \<and> ival (integer_or x y) = ival x OR ival y
    \<and> ival (integer_xor x y) = ival x XOR ival y \<and> ival (integer_not x) = NOT (ival x)
    \<and> ival (integer_shiftLeft x (int n)) = ival x * 2 ^ n \<and> ival (integer_shiftRight x (int n)) = ival x div 2 ^ n
    \<and> ival (integer_shiftLeft x (2 ^ 32)) = ival x \<and> ival (integer_shiftRight x (2 ^ 32)) = ival x"
  using integer_bitops_val [OF assms(1,2)] integer_not_val [OF assms(1)] shiftLeft_val [OF assms(1,3)] shiftRight_val [OF assms(1,3)]
    shift_by_word [of x] shiftLeft_val [OF assms(1), of 0] shiftRight_val [OF assms(1), of 0]
  by (simp add: push_bit_eq_mult drop_bit_eq_div not_int_def)

theorem integer_bitwise_exact_witness:
  "ival (integer_shiftLeft (new_integer [5] (-1)) 33) = (5 - 4294967296) * 2 ^ 33"
  using integer_bitwise_exact [of "new_integer [5] (-1)" "integer_ONE" 33]
  by (simp add: new_integer_wf ival_new_integer)

end
