(* ===== verification/Varint_Multiply.thy ===== *)
theory Varint_Multiply
  imports Varint_Bits
begin

text \<open>
  Multiplication, number conversions and parsing of \<^verbatim>\<open>src/lib/types/integer.js\<close>.
  The schoolbook multiplication keeps 16-bit columns in JavaScript numbers and normalises them with
  32-bit operators. It is exact as long as one operand fits 32 bits, which is all that parsing
  a numeral needs; with two longer operands a column can pass \<open>2 ^ 32\<close> and the result is wrong.
\<close>

section \<open>Columns of 16 bits\<close>

fun v16 :: "int list \<Rightarrow> int" where
  "v16 [] = 0"
| "v16 (x # xs) = x + 65536 * v16 xs"

lemma v16_replicate [simp]: "v16 (replicate n 0) = 0"
  by (induction n) simp_all

lemma v16_update: "k < length arr \<Longrightarrow> v16 (arr[k := v]) = v16 arr + (v - arr ! k) * 65536 ^ k"
proof (induction arr arbitrary: k)
  case (Cons a arr)
  show ?case
  proof (cases k)
    case (Suc j)
    then have "v16 (arr[j := v]) = v16 arr + (v - arr ! j) * 65536 ^ j" using Cons by simp
    then show ?thesis by (simp only: Suc list_update_code v16.simps nth_Cons_Suc power_Suc) (simp add: algebra_simps)
  qed simp
qed simp

lemma carry16_eq:
  assumes "0 \<le> arr ! k" and "arr ! k < 4294967296" and "Suc k < length arr"
  shows "carry16 arr k = arr[Suc k := arr ! Suc k + arr ! k div 65536, k := arr ! k mod 65536]"
proof (cases "arr ! k < 65536")
  case True
  then have "arr ! k div 65536 = 0" "arr ! k mod 65536 = arr ! k" using assms(1) by simp_all
  then show ?thesis by (simp add: carry16_def js_and_masks)
next
  case False
  then have "arr ! k mod 65536 \<noteq> arr ! k" using pos_mod_bound [of 65536 "arr ! k"] by linarith
  then show ?thesis using assms by (simp add: carry16_def js_and_masks js_shr_div)
qed

lemma add_at_eq:
  assumes "0 \<le> arr ! k + v" and "arr ! k + v < 4294967296" and "Suc k < length arr"
  shows "add_at arr k v
    = arr[k := (arr ! k + v) mod 65536, Suc k := arr ! Suc k + (arr ! k + v) div 65536]"
proof -
  have "add_at arr k v = (arr[k := arr ! k + v])[Suc k := arr ! Suc k + (arr ! k + v) div 65536, k := (arr ! k + v) mod 65536]"
    using assms carry16_eq [of "arr[k := arr ! k + v]" k] by (simp add: add_at_def)
  also have "\<dots> = arr[k := (arr ! k + v) mod 65536, Suc k := arr ! Suc k + (arr ! k + v) div 65536]"
    using list_update_swap [of k "Suc k" arr] by (simp add: list_update_swap)
  finally show ?thesis .
qed

lemma add_at_val:
  assumes "0 \<le> arr ! k + v" and "arr ! k + v < 4294967296" and "Suc k < length arr"
  shows "v16 (add_at arr k v) = v16 arr + v * 65536 ^ k"
proof -
  define s where "s = arr ! k + v"
  have "v16 (add_at arr k v) = v16 arr + (s mod 65536 - arr ! k) * 65536 ^ k + (s div 65536) * 65536 ^ Suc k"
    using assms by (simp add: add_at_eq v16_update s_def)
  also have "\<dots> = v16 arr + (s div 65536 * 65536 + s mod 65536 - arr ! k) * 65536 ^ k"
  proof -
    have "(r - a) * p + q * (65536 * p) = (q * 65536 + r - a) * p" for r a p q :: int by (simp add: algebra_simps)
    then show ?thesis by (simp only: power_Suc add.assoc)
  qed
  also have "s div 65536 * 65536 + s mod 65536 = s" by simp
  finally show ?thesis by (simp add: s_def)
qed

lemma add_at_nth:
  assumes "0 \<le> arr ! k + v" and "arr ! k + v < 4294967296" and "Suc k < length arr"
  shows "add_at arr k v ! k = (arr ! k + v) mod 65536" 
    and "add_at arr k v ! Suc k = arr ! Suc k + (arr ! k + v) div 65536"
    and "i \<noteq> k \<Longrightarrow> i \<noteq> Suc k \<Longrightarrow> add_at arr k v ! i = arr ! i"
    and "length (add_at arr k v) = length arr"
  using assms by (simp_all add: add_at_eq)

text \<open>
  One step at column \<open>k\<close> when the columns \<open>k\<close> and \<open>k + 1\<close> are normalised and the ones above are
  still empty: no column reaches \<open>2 ^ 32\<close>, and the same holds two columns further up.
\<close>

definition columns_ready :: "nat \<Rightarrow> int list \<Rightarrow> bool" where
  "columns_ready k arr \<longleftrightarrow> (\<forall>i < length arr. 0 \<le> arr ! i \<and> arr ! i \<le> 65535) \<and> (\<forall>i < length arr. k + 2 \<le> i \<longrightarrow> arr ! i = 0)"

lemma half_product:
  fixes a b :: int
  assumes "0 \<le> a" and "a \<le> 65535" and "0 \<le> b" and "b \<le> 65535"
  shows "0 \<le> a * b" and "a * b \<le> 4294836225"
  using assms mult_mono [of a 65535 b 65535] by simp_all

lemma div_small: "0 \<le> s \<Longrightarrow> s < 4294967296 \<Longrightarrow> 0 \<le> s div 65536 \<and> s div 65536 \<le> (65535::int)"
  using pos_div_less [of s 65536 65536] by (simp add: pos_imp_zdiv_nonneg_iff)

lemma mod_small: "0 \<le> s mod 65536 \<and> s mod 65536 \<le> (65535::int)"
  using pos_mod_bound [of 65536 s] by simp

lemma add_at_bounds:
  assumes "0 \<le> arr ! k" and "0 \<le> v" and "arr ! k + v < 4294967296" and "Suc k < length arr"
  shows "0 \<le> add_at arr k v ! k \<and> add_at arr k v ! k \<le> 65535"
    and "arr ! Suc k \<le> add_at arr k v ! Suc k \<and> add_at arr k v ! Suc k \<le> arr ! Suc k + 65535"
  using add_at_nth(1,2) [of arr k v] mod_small [of "arr ! k + v"] div_small [of "arr ! k + v"] assms by auto

lemma mul_step_ready:
  assumes ready: "columns_ready k arr" and len: "k + 3 < length arr"
  shows "v16 (mul_step arr k a b) = v16 arr + to_uint32 a * to_uint32 b * 65536 ^ k
    \<and> columns_ready (k + 2) (mul_step arr k a b) \<and> length (mul_step arr k a b) = length arr"
proof -
  define a1 a0 b1 b0 where h: "a1 = js_shr a 16" "a0 = js_and a 65535" "b1 = js_shr b 16" "b0 = js_and b 65535"
  have r: "0 \<le> a1" "a1 \<le> 65535" "0 \<le> a0" "a0 \<le> 65535" "0 \<le> b1" "b1 \<le> 65535" "0 \<le> b0" "b0 \<le> 65535"
    using div_small [of "to_uint32 a"] div_small [of "to_uint32 b"] mod_small [of a] mod_small [of b]
    by (simp_all add: h js_shr_def js_and_masks drop_bit_eq_div)
  have split: "to_uint32 a = a1 * 65536 + a0" "to_uint32 b = b1 * 65536 + b0"
    using halves_of_uint32 [of a] halves_of_uint32 [of b] r
    by (simp_all add: h(1,3) [symmetric] js_and_masks(1) h(2,4))
  note p = half_product [OF r(3,4) r(7,8)] half_product [OF r(1,2) r(7,8)]
    half_product [OF r(3,4) r(5,6)] half_product [OF r(1,2) r(5,6)]
  have c: "0 \<le> arr ! k" "arr ! k \<le> 65535" "0 \<le> arr ! (k + 1)" "arr ! (k + 1) \<le> 65535" "arr ! (k + 2) = 0" "arr ! (k + 3) = 0"
    using ready len by (simp_all add: columns_ready_def)
  define x1 where "x1 = add_at arr k (a0 * b0)"
  define x2 where "x2 = add_at x1 (k + 1) (a1 * b0)"
  define x3 where "x3 = add_at x2 (k + 1) (a0 * b1)"
  define x4 where "x4 = add_at x3 (k + 2) (a1 * b1)"
  have s1: "0 \<le> arr ! k + a0 * b0" "arr ! k + a0 * b0 < 4294967296" "Suc k < length arr" using c p len by simp_all
  note n1 = add_at_nth(3,4) [OF s1, folded x1_def] add_at_bounds [OF c(1) p(1) s1(2,3), folded x1_def]
  have c1: "0 \<le> x1 ! (k + 1)" "x1 ! (k + 1) \<le> 131070" using n1(4) c by simp_all
  have s2: "0 \<le> x1 ! (k + 1) + a1 * b0" "x1 ! (k + 1) + a1 * b0 < 4294967296" "Suc (k + 1) < length x1"
    using c1 p(3,4) len n1(2) by simp_all
  note n2 = add_at_nth(3,4) [OF s2, folded x2_def] add_at_bounds [OF c1(1) p(3) s2(2,3), folded x2_def]
  have c2: "0 \<le> x2 ! (k + 1)" "x2 ! (k + 1) \<le> 65535" "0 \<le> x2 ! (k + 2)" "x2 ! (k + 2) \<le> 65535"
    using n2(3,4) n1(1) [of "k + 2"] c by simp_all
  have s3: "0 \<le> x2 ! (k + 1) + a0 * b1" "x2 ! (k + 1) + a0 * b1 < 4294967296" "Suc (k + 1) < length x2"
    using c2 p(5,6) len n1(2) n2(2) by simp_all
  note n3 = add_at_nth(3,4) [OF s3, folded x3_def] add_at_bounds [OF c2(1) p(5) s3(2,3), folded x3_def]
  have c3: "0 \<le> x3 ! (k + 2)" "x3 ! (k + 2) \<le> 131070" using n3(4) c2 by simp_all
  have s4: "0 \<le> x3 ! (k + 2) + a1 * b1" "x3 ! (k + 2) + a1 * b1 < 4294967296" "Suc (k + 2) < length x3"
    using c3 p(7,8) len n1(2) n2(2) n3(2) by simp_all
  note n4 = add_at_nth(3,4) [OF s4, folded x4_def] add_at_bounds [OF c3(1) p(7) s4(2,3), folded x4_def]
  have ms: "mul_step arr k a b = x4" by (simp add: mul_step_def Let_def h x1_def x2_def x3_def x4_def)
  have "v16 x4 = v16 arr + a0 * b0 * 65536 ^ k + a1 * b0 * 65536 ^ (k + 1) + a0 * b1 * 65536 ^ (k + 1) + a1 * b1 * 65536 ^ (k + 2)"
    using add_at_val [OF s1] add_at_val [OF s2] add_at_val [OF s3] add_at_val [OF s4]
    by (simp only: x1_def x2_def x3_def x4_def)
  then have val: "v16 x4 = v16 arr + to_uint32 a * to_uint32 b * 65536 ^ k"
    by (simp add: split algebra_simps)
  have old: "x4 ! i = arr ! i" if "i \<notin> {k, k + 1, k + 2, k + 3}" for i
    using that n1(1) [of i] n2(1) [of i] n3(1) [of i] n4(1) [of i] by simp
  have new: "0 \<le> x4 ! i \<and> x4 ! i \<le> 65535" if "i \<in> {k, k + 1, k + 2, k + 3}" for i
    using that n1(1) [of "k + 3"] n2(1) [of "k + 3"] n3(1) [of "k + 3"] n4(3,4) n3(3) n4(1) [of "k + 1"]
      n1(3) n2(1) [of k] n3(1) [of k] n4(1) [of k] c by (auto simp: numeral_3_eq_3)
  have len4: "length x4 = length arr" using n1(2) n2(2) n3(2) n4(2) by simp
  have "columns_ready (k + 2) x4"
    unfolding columns_ready_def
  proof (intro conjI allI impI)
    fix i
    assume i: "i < length x4"
    have "0 \<le> x4 ! i \<and> x4 ! i \<le> 65535" using i len4 ready old new by (metis columns_ready_def)
    then show "0 \<le> x4 ! i" "x4 ! i \<le> 65535" by simp_all
    show "x4 ! i = 0" if "k + 2 + 2 \<le> i" using that i len4 ready old [of i] by (simp add: columns_ready_def)
  qed
  then show ?thesis using ms val len4 by simp
qed

text \<open>A run of steps at the columns \<open>0, 2, 4, \<dots>\<close>: all there is when one operand is a single piece.\<close>

definition mul_chain :: "(nat \<Rightarrow> int) \<Rightarrow> (nat \<Rightarrow> int) \<Rightarrow> int list \<Rightarrow> nat \<Rightarrow> int list" where
  "mul_chain f g arr n = foldl (\<lambda>arr i. mul_step arr (2 * i) (f i) (g i)) arr [0..<n]"

lemma mul_chain_val:
  assumes "2 * n + 2 \<le> len"
  shows "v16 (mul_chain f g (replicate len 0) n) = (\<Sum>i<n. to_uint32 (f i) * to_uint32 (g i) * 4294967296 ^ i)
    \<and> columns_ready (2 * n) (mul_chain f g (replicate len 0) n) \<and> length (mul_chain f g (replicate len 0) n) = len"
  using assms
proof (induction n)
  case 0
  then show ?case by (simp add: mul_chain_def columns_ready_def)
next
  case (Suc n)
  have step: "mul_chain f g (replicate len 0) (Suc n) = mul_step (mul_chain f g (replicate len 0) n) (2 * n) (f n) (g n)"
    by (simp add: mul_chain_def)
  have "(65536::int) ^ (2 * n) = 4294967296 ^ n" by (simp add: power_mult)
  then show ?case using Suc mul_step_ready [of "2 * n" "mul_chain f g (replicate len 0) n" "f n" "g n"]
    unfolding step by simp
qed

lemma mul_combine_val:
  assumes "length arr = 2 * n" and "\<forall>c \<in> set arr. 0 \<le> c \<and> c \<le> 65535"
  shows "bits_val (map (\<lambda>i. js_or (js_shl (arr ! (2 * i + 1)) 16) (arr ! (2 * i))) [0..<n]) 0 = v16 arr"
  using assms
proof (induction n arbitrary: arr)
  case (Suc n)
  then obtain a b arr' where arr: "arr = a # b # arr'" by (auto simp: length_Suc_conv)
  have r: "0 \<le> a" "a < 65536" "0 \<le> b" "b < 65536" using Suc.prems(2) by (auto simp: arr)
  have "to_uint32 (js_or (js_shl b 16) a) = b * 65536 + a" using or_pieces [OF r] r by simp
  moreover have "bits_val (map (\<lambda>i. js_or (js_shl (arr' ! (2 * i + 1)) 16) (arr' ! (2 * i))) [0..<n]) 0 = v16 arr'"
    using Suc by (simp add: arr)
  ultimately show ?case
    by (simp add: arr upt_conv_Cons map_Suc_upt [symmetric] comp_def del: upt_Suc map_Suc_upt)
qed simp

lemma bits_val_replicate [simp]: "bits_val (replicate n 0) 0 = 0"
  by (induction n) simp_all

lemma bits_val_zeros: "bits_val (bs @ replicate n 0) 0 = bits_val bs 0"
  by (simp add: bits_val_append)

lemma columns_ready_set: "columns_ready k arr \<Longrightarrow> \<forall>c \<in> set arr. 0 \<le> c \<and> c \<le> 65535"
  by (auto simp: columns_ready_def in_set_conv_nth)

lemma bits_val_sum: "bits_val bs 0 = (\<Sum>i<length bs. to_uint32 (bs ! i) * 4294967296 ^ i)"
proof (induction bs)
  case (Cons b bs)
  show ?case unfolding bits_val.simps Cons.IH list.size
    by (simp add: sum.lessThan_Suc_shift sum_distrib_left algebra_simps del: sum.lessThan_Suc)
qed simp

lemma mul_loops_single:
  assumes "isign x = 0" and "isign y = 0" and "length (ibits x) = 1 \<or> length (ibits y) = 1"
    and "ibits x \<noteq> []" and "ibits y \<noteq> []"
  shows "bits_val (mul_combine (length (ibits x) + length (ibits y))
      (mul_loops x y (replicate (2 * (length (ibits x) + length (ibits y))) 0))) 0 = ival x * ival y"
proof -
  define n where "n = max (length (ibits x)) (length (ibits y))"
  define L where "L = length (ibits x) + length (ibits y)"
  define f where "f = (\<lambda>i. if length (ibits y) = 1 then integer_getBits x (int i) else integer_getBits x 0)"
  define g where "g = (\<lambda>i. if length (ibits y) = 1 then integer_getBits y 0 else integer_getBits y (int i))"
  have L: "2 * n + 2 \<le> 2 * L" using assms(3-5) by (auto simp: n_def L_def Suc_le_eq)
  have loops: "mul_loops x y arr = mul_chain f g arr n" for arr
  proof (cases "length (ibits y) = 1")
    case True
    then have "n = length (ibits x)" using assms(4) by (auto simp: n_def Suc_le_eq)
    then show ?thesis using True by (simp add: mul_loops_def mul_chain_def f_def g_def)
  next
    case False
    then have "length (ibits x) = 1" "n = length (ibits y)" using assms(3,5) by (auto simp: n_def Suc_le_eq)
    then show ?thesis using False by (simp add: mul_loops_def mul_chain_def f_def g_def)
  qed
  have "(\<Sum>i<n. to_uint32 (f i) * to_uint32 (g i) * 4294967296 ^ i) = ival x * ival y"
  proof (cases "length (ibits y) = 1")
    case True
    then have "n = length (ibits x)" using assms(4) by (auto simp: n_def Suc_le_eq)
    then show ?thesis using True assms(1,2)
      by (simp add: f_def g_def ival_def bits_val_sum integer_getBits_def sum_distrib_left mult_ac)
  next
    case False
    then have "length (ibits x) = 1" "n = length (ibits y)" using assms(3,5) by (auto simp: n_def Suc_le_eq)
    then show ?thesis using False assms(1,2)
      by (simp add: f_def g_def ival_def bits_val_sum integer_getBits_def sum_distrib_left mult_ac)
  qed
  then show ?thesis
    using mul_chain_val [OF L, of f g] mul_combine_val [of "mul_chain f g (replicate (2 * L) 0) n" L]
      columns_ready_set [of "2 * n" "mul_chain f g (replicate (2 * L) 0) n"]
    by (simp add: L_def [symmetric] loops mul_combine_def bits_val_zeros)
qed

section \<open>Conversion from and to numbers\<close>

lemma number_pieces_val: "0 < pow \<Longrightarrow> 0 \<le> v \<Longrightarrow> bits_val (number_pieces v pow) 0 = v div pow"
proof (induction v pow rule: number_pieces.induct)
  case (1 v pow)
  show ?case
  proof (cases "v \<ge> pow")
    case True
    then have "bits_val (number_pieces v pow) 0 = v div pow mod 4294967296 + 4294967296 * (v div (pow * 4294967296))"
      using 1 by (subst number_pieces.simps) (simp add: to_uint32_mod [of "v div pow"])
    also have "v div (pow * 4294967296) = v div pow div 4294967296" using 1 by (simp add: zdiv_zmult2_eq)
    finally show ?thesis by simp
  next
    case False
    then show ?thesis using 1 by (subst number_pieces.simps) simp
  qed
qed

lemma fromNumber_wf [simp]: "integer_wf (integer_fromNumber v)"
  by (simp add: integer_fromNumber_def new_integer_wf split: js_number.split)

lemma fromNumber_val: "ival (integer_fromNumber (JsInt n)) = n"
  by (simp add: integer_fromNumber_def ival_new_integer integer_negate_val new_integer_wf number_pieces_val)

lemma sign_nonneg: "integer_wf x \<Longrightarrow> 0 \<le> ival x \<Longrightarrow> isign x = 0"
  using isNegative_ival [of x] integer_wf_sign [of x] by (auto simp: integer_isNegative_def)

lemma small_piece:
  assumes "integer_wf x" and "0 \<le> ival x" and "ival x < 4294967296"
  shows "isign x = 0 \<and> length (ibits x) \<le> 1"
proof -
  have s: "isign x = 0" by (rule sign_nonneg [OF assms(1,2)])
  have "x = new_integer [ival x] 0"
    using assms by (intro integer_wf_inject) (simp_all add: new_integer_wf ival_new_integer)
  then have "length (ibits x) = length (prune_top 0 [ival x])" by (metis js_integer.select_convs(1) new_integer_def)
  then show ?thesis using s by (simp add: prune_top_def)
qed

lemma toNumber_small:
  assumes "integer_wf x" and "0 \<le> ival x" and "ival x < 4294967296"
  shows "integer_toNumber x = ival x"
proof -
  have s: "isign x = 0" "length (ibits x) \<le> 1" using small_piece [OF assms] by simp_all
  consider "ibits x = []" | b where "ibits x = [b]" using s(2) by (cases "ibits x") auto
  then show ?thesis
  proof cases
    case 1
    then show ?thesis using s by (simp add: integer_toNumber_def integer_isNegative_def ival_def)
  next
    case 2
    have b: "- 2147483648 \<le> b" "b < 2147483648" using assms(1) 2 by (simp_all add: integer_wf_def)
    then have "integer_getBitsUnsigned x 0 = to_uint32 b"
      using 2 by (auto simp: integer_getBitsUnsigned_def integer_getBits_def to_uint32_neg)
    moreover have "\<bar>to_uint32 b\<bar> \<le> 2 ^ 53" by (rule order_trans [of _ 4294967296]) (simp_all add: less_imp_le)
    ultimately show ?thesis using 2 s by (simp add: integer_toNumber_def integer_isNegative_def ival_def)
  qed
qed

section \<open>Multiplication\<close>

lemma multiply_nonneg_val:
  assumes "integer_wf x" and "integer_wf y" and "0 \<le> ival x" and "0 \<le> ival y"
    and "ival x < 4294967296 \<or> ival y < 4294967296"
  shows "ival (multiply_nonneg x y) = ival x * ival y" and "integer_wf (multiply_nonneg x y)"
proof -
  have s: "isign x = 0" "isign y = 0" using assms(1-4) by (simp_all add: sign_nonneg)
  have lt: "integer_lessThan z integer_TWO_PWR_24 \<longleftrightarrow> ival z < 16777216" if "integer_wf z" for z
    using that by (simp add: integer_lessThan_def integer_compare_val)
  show "ival (multiply_nonneg x y) = ival x * ival y"
  proof (cases "ival x = 0 \<or> ival y = 0")
    case True
    then show ?thesis using assms by (auto simp: multiply_nonneg_def isZero_ival)
  next
    case False
    then have ne: "ibits x \<noteq> []" "ibits y \<noteq> []" using s by (auto simp: ival_def)
    have one: "length (ibits x) = 1 \<or> length (ibits y) = 1"
      using assms small_piece [of x] small_piece [of y] ne by (auto simp: le_Suc_eq)
    show ?thesis
    proof (cases "ival x < 16777216 \<and> ival y < 16777216")
      case True
      have "ival x * ival y \<le> 16777216 * 16777216" using True assms by (intro mult_mono) simp_all
      then have "\<bar>ival x * ival y\<bar> \<le> 2 ^ 53" using assms(3,4) by simp
      then show ?thesis using False True assms
        by (simp add: multiply_nonneg_def isZero_ival lt toNumber_small fromNumber_val)
    next
      case big: False
      then show ?thesis using False assms mul_loops_single [OF s one ne]
        by (auto simp: multiply_nonneg_def isZero_ival lt Let_def ival_new_integer)
    qed
  qed
  show "integer_wf (multiply_nonneg x y)" by (simp add: multiply_nonneg_def Let_def new_integer_wf)
qed

lemma integer_multiply_wf [simp]: "integer_wf (integer_multiply x y)"
  by (simp add: integer_multiply_def multiply_nonneg_def Let_def new_integer_wf)

lemma integer_multiply_val:
  assumes "integer_wf x" and "integer_wf y" and "\<bar>ival x\<bar> < 4294967296 \<or> \<bar>ival y\<bar> < 4294967296"
  shows "ival (integer_multiply x y) = ival x * ival y"
proof -
  have [simp]: "ival (multiply_nonneg a b) = ival a * ival b" "integer_wf (multiply_nonneg a b)"
    if "integer_wf a" "integer_wf b" "ival a = \<bar>ival x\<bar>" "ival b = \<bar>ival y\<bar>" for a b
    using that assms(3) multiply_nonneg_val [of a b] by auto
  show ?thesis using assms
    by (auto simp: integer_multiply_def isZero_ival isNegative_ival integer_negate_val not_less)
qed

section \<open>Parsing\<close>

lemma fromString_loop_val:
  assumes "2 \<le> r" and "r \<le> 15" and "integer_wf res" and "\<forall>c \<in> set str. is_digit r c"
  shows "integer_wf (integer_fromString_loop r res str)
    \<and> ival (integer_fromString_loop r res str) = ival res * int (r ^ length str) + int (digits_value r str)"
  using assms
proof (induction r res str rule: integer_fromString_loop.induct)
  case (1 r res str)
  show ?case
  proof (cases "str = []")
    case True
    then show ?thesis using 1 by (subst (1 2) integer_fromString_loop.simps) simp
  next
    case False
    define n where "n = min 8 (length str)"
    define val where "val = integer_fromNumber (js_parseInt (take n str) r)"
    define power where "power = integer_fromNumber (JsInt (int (r ^ n)))"
    define res' where "res' = integer_add (integer_multiply res power) val"
    have n: "take 8 str = take n str" "drop 8 str = drop n str" "length (take n str) = n"
      by (simp_all add: n_def min_def)
    have digits: "\<forall>c \<in> set (take n str). is_digit r c" "\<forall>c \<in> set (drop 8 str). is_digit r c"
      using 1(5) by (auto dest: in_set_takeD in_set_dropD)
    have val: "ival val = int (digits_value r (take n str))"
      using parseInt_digits [OF digits(1)] False 1(3) by (simp add: val_def fromNumber_val n_def)
    have "r ^ n \<le> 15 ^ 8" using 1(2,3) power_mono [of r 15 n] power_increasing [of n 8 "15::nat"] by (simp add: n_def)
    then have "int (r ^ n) < int 4294967296" unfolding of_nat_less_iff by simp
    then have res': "integer_wf res'" "ival res' = ival res * int (r ^ n) + int (digits_value r (take n str))"
      using 1(4) val by (simp_all add: res'_def integer_add_val integer_multiply_val power_def fromNumber_val)
        (simp add: val_def integer_add_val integer_multiply_val fromNumber_val)
    have "integer_fromString_loop r res str = integer_fromString_loop r res' (drop 8 str)"
      using False by (subst integer_fromString_loop.simps) (simp add: res'_def val_def power_def n_def Let_def)
    moreover have "digits_value r str = digits_value r (take n str) * r ^ length (drop 8 str) + digits_value r (drop 8 str)"
      using digits_value_append [of r "take n str" "drop n str"] n(2) by simp
    moreover have "r ^ length str = r ^ n * r ^ length (drop 8 str)"
      by (cases "length str \<le> 8") (simp_all add: power_add [symmetric] n_def)
    ultimately show ?thesis
      using 1(1) [OF False n_def val_def power_def, folded res'_def] 1(2,3) res' digits(2)
      by (simp add: algebra_simps)
  qed
qed

lemma digits_no_minus: "\<forall>c \<in> set cs. is_digit r c \<Longrightarrow> CHR ''-'' \<notin> set cs"
  using digit_not_special(2) by blast

lemma fromString_digits:
  assumes "2 \<le> r" and "r \<le> 15" and "\<forall>c \<in> set ds. is_digit r c" and "ds \<noteq> []"
  shows "\<exists>x. integer_fromString ds r = Inr x \<and> integer_wf x \<and> ival x = int (digits_value r ds)"
proof -
  obtain d ds' where ds: "ds = d # ds'" using assms(4) by (cases ds) auto
  have "d \<noteq> CHR ''-''" using assms(3) ds digit_not_special(2) by auto
  then show ?thesis
    using fromString_loop_val [OF assms(1,2) _ assms(3), of integer_ZERO] assms(1-3) digits_no_minus [of ds' r] ds by simp
qed

section \<open>Properties\<close>

text \<open>
  C22: addition, negation, subtraction, absolute value and comparison are exact at every size, and
  their results are in canonical form, so that \<open>equals\<close> agrees with the integers denoted.
\<close>

theorem integer_arith_exact:
  assumes "integer_wf x" and "integer_wf y"
  shows "ival (integer_add x y) = ival x + ival y \<and> ival (integer_negate x) = - ival x
    \<and> ival (integer_subtract x y) = ival x - ival y \<and> ival (integer_abs x) = \<bar>ival x\<bar>
    \<and> integer_wf (integer_add x y) \<and> integer_wf (integer_negate x) \<and> integer_wf (integer_subtract x y)
    \<and> integer_wf (integer_abs x) \<and> integer_compare x y = sgn (ival x - ival y)
    \<and> (integer_equals x y \<longleftrightarrow> ival x = ival y)"
proof -
  have abs: "ival (integer_abs x) = \<bar>ival x\<bar>" "integer_wf (integer_abs x)"
    using assms sign_nonneg [of x] isNegative_ival [of x] integer_wf_sign [of x]
    by (auto simp: integer_abs_def integer_negate_val integer_isNegative_def)
  have "integer_equals x y \<longleftrightarrow> x = y"
  proof
    assume eq: "integer_equals x y"
    have "bit (ival x) k = bit (ival y) k" for k
    proof (cases "k div 32 < max (length (ibits x)) (length (ibits y))")
      case True
      then have "integer_getBits x (int (k div 32)) = integer_getBits y (int (k div 32))"
        using eq by (simp add: integer_equals_def list_all_iff del: of_nat_div)
      then show ?thesis using assms by (simp add: bit_ival)
    next
      case False
      then show ?thesis using assms eq by (simp add: bit_ival integer_equals_def getBits_high del: of_nat_div)
    qed
    then show "x = y" using assms by (intro integer_wf_inject bit_eqI) simp_all
  qed (simp add: integer_equals_def list_all_iff)
  then show ?thesis using assms abs integer_wf_inject [OF assms]
    by (auto simp: integer_add_val integer_negate_val integer_subtract_val integer_compare_val)
qed

theorem integer_arith_exact_witness:
  "ival (integer_add (new_integer [-1, -1] 0) integer_ONE) = 18446744073709551616"
  using integer_arith_exact [of "new_integer [-1, -1] 0" integer_ONE]
  by (simp add: new_integer_wf ival_new_integer to_uint32_mod)

text \<open>
  Multiplication is exact, in canonical form, whenever one operand is below \<open>2 ^ 32\<close> in magnitude,
  whatever the size and the signs of the operands.
\<close>

theorem integer_multiply_exact:
  assumes "integer_wf x" and "integer_wf y" and "\<bar>ival x\<bar> < 2 ^ 32 \<or> \<bar>ival y\<bar> < 2 ^ 32"
  shows "ival (integer_multiply x y) = ival x * ival y \<and> integer_wf (integer_multiply x y)"
  using assms by (simp add: integer_multiply_val)

theorem integer_multiply_exact_witness:
  "ival (integer_multiply (new_integer [-1, -1] 0) (integer_fromInt (-7))) = 18446744073709551615 * (-7)"
  using integer_multiply_exact [of "new_integer [-1, -1] 0" "integer_fromInt (-7)"]
  by (simp add: new_integer_wf ival_new_integer to_uint32_mod fromInt_val)

lemma square_step:
  "mul_step arr k (-1) (-1) =
    add_at (add_at (add_at (add_at arr k 4294836225) (k + 1) 4294836225) (k + 1) 4294836225) (k + 2) 4294836225"
  by (simp add: mul_step_def js_shr_div js_and_masks)

lemma square_columns:
  "mul_loops \<lparr>ibits = [-1, -1], isign = 0\<rparr> \<lparr>ibits = [-1, -1], isign = 0\<rparr> (replicate 8 0)
    = [1, 0, 0, 0, 65534, 65535, 65534, 65535]"
  by (simp add: mul_loops_def integer_getBits_def square_step upt_rec add_at_def carry16_def js_and_masks js_shr_div
      eval_nat_numeral)

text \<open>
  Multiplication of longer operands can be wrong: \<open>carry16_\<close> normalises one column but not the one
  it carries into, a column passes \<open>2 ^ 32\<close>, and \<open>>>> 16\<close> drops the excess. The square of
  \<open>2 ^ 64 - 1\<close> comes out too small.
\<close>

theorem integer_multiply_overflow:
  "ival (integer_multiply (new_integer [-1, -1] 0) (new_integer [-1, -1] 0)) \<noteq> (2 ^ 64 - 1) * (2 ^ 64 - 1)
    \<and> ival (new_integer [-1, -1] 0) = 2 ^ 64 - 1"
proof -
  have x: "new_integer [-1, -1] 0 = \<lparr>ibits = [-1, -1], isign = 0\<rparr>" by (simp add: new_integer_def prune_top_def)
  have val: "ival (new_integer [-1, -1] 0) = 18446744073709551615" by (simp add: ival_new_integer to_uint32_mod)
  have wf: "integer_wf (new_integer [-1, -1] 0)" by (simp add: new_integer_wf)
  have "integer_multiply (new_integer [-1, -1] 0) (new_integer [-1, -1] 0)
      = new_integer (mul_combine 4 [1, 0, 0, 0, 65534, 65535, 65534, 65535]) 0"
    using wf val square_columns
    by (simp add: integer_multiply_def multiply_nonneg_def isZero_ival isNegative_ival integer_lessThan_def integer_compare_val)
      (simp add: x eval_nat_numeral)
  also have "ival \<dots> = 340282366841710300912216781690805157889"
    by (simp add: ival_new_integer mul_combine_def upt_rec or_pieces)
  finally show ?thesis using val by simp
qed

text \<open>Each leading minus sign negates what follows it, and lets an error of it through.\<close>

lemma fromString_minuses:
  assumes "2 \<le> r" "r \<le> 36"
  shows "integer_fromString s r = Inl e \<Longrightarrow> integer_fromString (replicate k CHR ''-'' @ s) r = Inl e"
    and "integer_fromString s r = Inr x \<Longrightarrow> integer_wf x \<Longrightarrow>
      \<exists>y. integer_fromString (replicate k CHR ''-'' @ s) r = Inr y \<and> integer_wf y \<and> ival y = (- 1) ^ k * ival x"
proof -
  show "integer_fromString s r = Inl e \<Longrightarrow> integer_fromString (replicate k CHR ''-'' @ s) r = Inl e"
    using assms by (induction k) auto
  show "integer_fromString s r = Inr x \<Longrightarrow> integer_wf x \<Longrightarrow>
      \<exists>y. integer_fromString (replicate k CHR ''-'' @ s) r = Inr y \<and> integer_wf y \<and> ival y = (- 1) ^ k * ival x"
  proof (induction k)
    case (Suc k)
    then obtain y where "integer_fromString (replicate k CHR ''-'' @ s) r = Inr y" "integer_wf y" "ival y = (- 1) ^ k * ival x" by blast
    then show ?case using assms by (auto simp: integer_negate_val)
  qed simp
qed

text \<open>
  C24: parsing a numeral in a radix from 2 to 15 gives the integer the digits denote, negated once for every minus sign
  in front of it (so that two of them leave it positive). A text with a minus sign behind another character, after its
  leading ones, is a type error, and so is a text with no character but minus signs; every text but the empty one is an
  error in the radix 1 and in a radix above 36.
\<close>

theorem integer_fromString_value:
  assumes "2 \<le> r" and "r \<le> 15" and "\<forall>c \<in> set ds. is_digit r c" and "ds \<noteq> []"
    and "c \<noteq> CHR ''-''" and "CHR ''-'' \<in> set t" and "r' = 1 \<or> 36 < r'" and "u \<noteq> []"
  shows "(\<exists>x. integer_fromString (replicate k CHR ''-'' @ ds) r = Inr x \<and> integer_wf x \<and> ival x = (- 1) ^ k * int (digits_value r ds))
    \<and> integer_fromString (replicate k CHR ''-'' @ c # t) r = Inl TypeError
    \<and> integer_fromString (replicate k CHR ''-'') r = Inl TypeError
    \<and> integer_fromString u r' = Inl PlainError"
proof -
  have r: "2 \<le> r" "r \<le> 36" using assms(1,2) by simp_all
  obtain x where x: "integer_fromString ds r = Inr x" "integer_wf x" "ival x = int (digits_value r ds)"
    using fromString_digits [OF assms(1-4)] by blast
  have "integer_fromString (c # t) r = Inl TypeError" using assms(5,6) r by simp
  moreover have "integer_fromString u r' = Inl PlainError" using assms(7,8) by (cases u) auto
  ultimately show ?thesis
    using fromString_minuses(2) [OF r x(1,2), of k] fromString_minuses(1) [OF r, of _ _ k] fromString_minuses(1) [OF r, of "[]" TypeError k] x(3)
    by simp
qed

theorem integer_fromString_value_witness:
  "\<exists>x. integer_fromString ''-12345678901234567890'' 10 = Inr x \<and> ival x = - 12345678901234567890"
proof -
  have "\<forall>c \<in> set ''12345678901234567890''. is_digit 10 c" by (simp add: is_digit_def digit_val_def char_code_def)
  moreover have "digits_value 10 ''12345678901234567890'' = 12345678901234567890"
    by (simp add: digits_value_def digit_num_def digit_val_def char_code_def)
  ultimately show ?thesis
    using integer_fromString_value [of 10 "''12345678901234567890''" "CHR ''1''" "''-''" 1 "''1''" 1] by fastforce
qed

end
