(* ===== verification/Big_Decimal.thy ===== *)
theory Big_Decimal
  imports Varint_Multiply
begin

text \<open>
  \<^verbatim>\<open>src/lib/types/big-decimal.js\<close>: the CQL \<open>decimal\<close> type, an unscaled \<open>Integer\<close> and a scale.
  The text form is modelled after the unscaled value has been printed, since \<open>Integer.toString\<close>
  itself is not modelled; \<open>fromNumber\<close> and \<open>toNumber\<close> go through the number formatting of the
  language and are left out.
\<close>

section \<open>Model\<close>

record big_decimal =
  intVal :: js_integer
  bscale :: int

definition new_big_decimal :: "js_integer \<Rightarrow> int \<Rightarrow> big_decimal" where
  "new_big_decimal unscaledValue scale = \<lparr>intVal = unscaledValue, bscale = scale\<rparr>"

definition new_big_decimal_number :: "js_number \<Rightarrow> int \<Rightarrow> big_decimal" where
  "new_big_decimal_number unscaledValue scale = new_big_decimal (integer_fromNumber unscaledValue) scale"

text \<open>\<open>readInt32BE(0)\<close> raises a \<open>RangeError\<close> on fewer than four bytes, \<open>writeInt32BE\<close> on a number out of range.\<close>

definition bd_fromBuffer :: "buffer \<Rightarrow> big_decimal result" where
  "bd_fromBuffer buf =
    (if length buf < 4 then Inl RangeError
     else Inr (new_big_decimal (integer_fromBuffer (drop 4 buf)) (read_int32_be buf 0)))"

definition bd_toBuffer :: "big_decimal \<Rightarrow> buffer result" where
  "bd_toBuffer value =
    (if bscale value < - 2147483648 \<or> 2147483647 < bscale value then Inl RangeError
     else Inr (int32_be (bscale value) @ integer_toBuffer (intVal value)))"

definition bd_fromString :: "string \<Rightarrow> big_decimal result" where
  "bd_fromString value =
    (if value = [] then Inl TypeError
     else let value = js_trim value; whole = takeWhile (\<lambda>c. c \<noteq> CHR ''.'') value;
              rest = dropWhile (\<lambda>c. c \<noteq> CHR ''.'') value
          in if rest = [] then bind_result (integer_fromString value 0) (\<lambda>x. Inr (new_big_decimal x 0))
             else bind_result (integer_fromString (whole @ tl rest) 0)
               (\<lambda>x. Inr (new_big_decimal x (int (length value) - 1 - int (length whole)))))"

text \<open>
  \<open>Math.pow(10, n)\<close> is exact up to \<open>10 ^ 22\<close>, then the nearest double, then infinite.
\<close>

definition pow10 :: "nat \<Rightarrow> js_number" where
  "pow10 n = (if n < 309 then JsInt (js_round (10 ^ n)) else JsInfinity)"

definition scale_up :: "js_integer \<Rightarrow> int \<Rightarrow> js_integer" where
  "scale_up x diffScale = integer_multiply x (integer_fromNumber (pow10 (nat diffScale)))"

definition bd_subtract :: "big_decimal \<Rightarrow> big_decimal \<Rightarrow> big_decimal" where
  "bd_subtract first other =
    (if bscale first = bscale other
     then new_big_decimal (integer_subtract (intVal first) (intVal other)) (bscale first)
     else if bscale first < bscale other
     then new_big_decimal (integer_subtract (scale_up (intVal first) (bscale other - bscale first)) (intVal other))
            (bscale other)
     else new_big_decimal (integer_subtract (intVal first) (scale_up (intVal other) (bscale first - bscale other)))
            (bscale first))"

definition bd_add :: "big_decimal \<Rightarrow> big_decimal \<Rightarrow> big_decimal" where
  "bd_add first other =
    (if bscale first = bscale other
     then new_big_decimal (integer_add (intVal first) (intVal other)) (bscale first)
     else if bscale first < bscale other
     then new_big_decimal (integer_add (scale_up (intVal first) (bscale other - bscale first)) (intVal other))
            (bscale other)
     else new_big_decimal (integer_add (intVal first) (scale_up (intVal other) (bscale first - bscale other)))
            (bscale first))"

definition bd_isNegative :: "big_decimal \<Rightarrow> bool" where
  "bd_isNegative x \<longleftrightarrow> integer_isNegative (intVal x)"

definition bd_isZero :: "big_decimal \<Rightarrow> bool" where
  "bd_isZero x \<longleftrightarrow> integer_isZero (intVal x)"

definition bd_compare :: "big_decimal \<Rightarrow> big_decimal \<Rightarrow> int" where
  "bd_compare x other =
    (let diff = bd_subtract x other
     in if bd_isNegative diff then -1 else if bd_isZero diff then 0 else 1)"

definition bd_equals :: "big_decimal \<Rightarrow> big_decimal \<Rightarrow> bool" where
  "bd_equals x other \<longleftrightarrow> bd_compare x other = 0"

definition bd_notEquals :: "big_decimal \<Rightarrow> big_decimal \<Rightarrow> bool" where
  "bd_notEquals x other \<longleftrightarrow> \<not> bd_equals x other"

definition bd_greaterThan :: "big_decimal \<Rightarrow> big_decimal \<Rightarrow> bool" where
  "bd_greaterThan x other \<longleftrightarrow> bd_compare x other = 1"

text \<open>
  \<open>toString\<close> from the text of the unscaled value on. \<open>substr(0, n)\<close> and \<open>substr(n)\<close> with \<open>n\<close> beyond
  the end give the whole text and the empty one, as \<open>take\<close> and \<open>drop\<close> do.
\<close>

definition bd_format :: "string \<Rightarrow> int \<Rightarrow> string" where
  "bd_format intString scale =
    (if scale = 0 then intString
     else let neg = (take 1 intString = ''-'');
              digits = (if neg then drop 1 intString else intString);
              sep = int (length digits) - scale;
              digits' = (if sep \<le> 0 then replicate (nat (- sep + 1)) (CHR ''0'') @ digits else digits);
              sep' = nat (int (length digits') - scale)
          in (if neg then ''-'' else '''') @ take sep' digits' @ ''.'' @ drop sep' digits')"

section \<open>Laws\<close>

definition bd_wf :: "big_decimal \<Rightarrow> bool" where
  "bd_wf x \<longleftrightarrow> integer_wf (intVal x)"

text \<open>The unscaled value at a scale \<open>s\<close> that is not below the number's own.\<close>

definition bd_at :: "int \<Rightarrow> big_decimal \<Rightarrow> int" where
  "bd_at s x = ival (intVal x) * 10 ^ nat (s - bscale x)"

lemma scale_up_val:
  assumes "integer_wf x" and "0 \<le> d" and "d \<le> 9"
  shows "ival (scale_up x d) = ival x * 10 ^ nat d" and "integer_wf (scale_up x d)"
proof -
  have "nat d \<le> 9" using assms(3) by simp
  then have p: "(10::int) ^ nat d \<le> 1000000000" using power_increasing [of "nat d" 9 "10::int"] by simp
  then have "\<bar>(10::int) ^ nat d\<bar> \<le> 2 ^ 53" by simp
  then have "ival (integer_fromNumber (pow10 (nat d))) = 10 ^ nat d"
    using \<open>nat d \<le> 9\<close> by (simp add: pow10_def fromNumber_val)
  then show "ival (scale_up x d) = ival x * 10 ^ nat d"
    using p assms(1) by (simp add: scale_up_def integer_multiply_val)
  show "integer_wf (scale_up x d)" by (simp add: scale_up_def)
qed

lemma bd_add_val:
  assumes "bd_wf x" and "bd_wf y" and "\<bar>bscale x - bscale y\<bar> \<le> 9"
  defines "m \<equiv> max (bscale x) (bscale y)"
  shows "bscale (bd_add x y) = m" "ival (intVal (bd_add x y)) = bd_at m x + bd_at m y" "bd_wf (bd_add x y)"
    "bscale (bd_subtract x y) = m" "ival (intVal (bd_subtract x y)) = bd_at m x - bd_at m y" "bd_wf (bd_subtract x y)"
  using assms(1-3)
  by (auto simp: bd_add_def bd_subtract_def new_big_decimal_def m_def bd_at_def bd_wf_def max_def scale_up_val
      integer_add_val integer_subtract_val)

lemma bd_compare_val:
  assumes "bd_wf x" and "bd_wf y" and "\<bar>bscale x - bscale y\<bar> \<le> 9"
  shows "bd_compare x y = sgn (bd_at (max (bscale x) (bscale y)) x - bd_at (max (bscale x) (bscale y)) y)"
  using bd_add_val [OF assms]
  by (auto simp: bd_compare_def Let_def bd_isNegative_def bd_isZero_def bd_wf_def isNegative_ival isZero_ival sgn_if)

lemma bd_at_mono:
  "bscale x \<le> m \<Longrightarrow> bscale y \<le> m \<Longrightarrow> m \<le> s \<Longrightarrow> sgn (bd_at s x - bd_at s y) = sgn (bd_at m x - bd_at m y)"
proof -
  assume h: "bscale x \<le> m" "bscale y \<le> m" "m \<le> s"
  have up: "bd_at s z = bd_at m z * 10 ^ nat (s - m)" if "bscale z \<le> m" for z
  proof -
    have "nat (s - bscale z) = nat (m - bscale z) + nat (s - m)" using that h(3) by simp
    then show ?thesis by (simp add: bd_at_def power_add)
  qed
  have "bd_at s x - bd_at s y = (bd_at m x - bd_at m y) * 10 ^ nat (s - m)"
    using h by (simp add: up algebra_simps)
  then show ?thesis by (simp add: sgn_mult)
qed

text \<open>\<open>compare\<close> orders the decimals with up to nine fraction digits by their values.\<close>

interpretation decimal_order: comparable bd_compare "\<lambda>x. bd_wf x \<and> 0 \<le> bscale x \<and> bscale x \<le> 9" "bd_at 9"
proof unfold_locales
  fix x y
  assume h: "bd_wf x \<and> 0 \<le> bscale x \<and> bscale x \<le> 9" "bd_wf y \<and> 0 \<le> bscale y \<and> bscale y \<le> 9"
  have "bd_compare x y = sgn (bd_at 9 x - bd_at 9 y)"
    using h bd_compare_val [of x y] bd_at_mono [of x "max (bscale x) (bscale y)" y 9] by (simp add: abs_le_iff)
  then show "bd_compare x y < 0 \<longleftrightarrow> bd_at 9 x < bd_at 9 y" and "bd_compare x y = 0 \<longleftrightarrow> bd_at 9 x = bd_at 9 y"
    by (simp_all add: sgn_if)
qed

subsection \<open>Text\<close>

definition minus_if :: "bool \<Rightarrow> string" where
  "minus_if neg = (if neg then ''-'' else '''')"

lemma fromString_default_radix: "integer_fromString s 0 = integer_fromString s 10"
  by (cases s) simp_all

lemma fromString_signed:
  assumes "\<forall>c \<in> set ds. is_digit 10 c" and "ds \<noteq> []"
  shows "\<exists>x. integer_fromString (minus_if neg @ ds) 0 = Inr x \<and> integer_wf x
    \<and> ival x = (if neg then - 1 else 1) * int (digits_value 10 ds)"
  using fromString_digits [OF _ _ assms] by (auto simp: fromString_default_radix integer_negate_val minus_if_def)

lemma no_dot: "\<forall>c \<in> set as. is_digit 10 c \<Longrightarrow> \<forall>c \<in> set (minus_if neg @ as). c \<noteq> CHR ''.''"
  using digit_not_special(4) by (auto simp: minus_if_def)

lemma trim_number:
  assumes "\<forall>c \<in> set as. is_digit 10 c" and "\<forall>c \<in> set bs. is_digit 10 c" and "as \<noteq> []"
  shows "js_trim (minus_if neg @ as @ bs) = minus_if neg @ as @ bs"
    and "js_trim (minus_if neg @ as @ ''.'' @ bs) = minus_if neg @ as @ ''.'' @ bs"
proof -
  have "\<forall>c \<in> set (minus_if neg @ as @ ''.'' @ bs). \<not> is_js_space c"
    using assms(1,2) digit_not_special(1) by (auto simp: minus_if_def is_js_space_def [of "CHR ''.''"]
        is_js_space_def [of "CHR ''-''"] char_code_def)
  then show "js_trim (minus_if neg @ as @ bs) = minus_if neg @ as @ bs"
    "js_trim (minus_if neg @ as @ ''.'' @ bs) = minus_if neg @ as @ ''.'' @ bs"
    by (intro js_trim_no_space; simp)+
qed

lemma bd_fromString_dot:
  assumes "\<forall>c \<in> set as. is_digit 10 c" and "\<forall>c \<in> set bs. is_digit 10 c" and "as \<noteq> []"
  shows "\<exists>x. bd_fromString (minus_if neg @ as @ ''.'' @ bs) = Inr x \<and> bd_wf x
    \<and> bscale x = int (length bs) \<and> ival (intVal x) = (if neg then - 1 else 1) * int (digits_value 10 (as @ bs))"
proof -
  define str where "str = minus_if neg @ as @ ''.'' @ bs"
  have trim: "js_trim str = str" unfolding str_def by (rule trim_number(2) [OF assms])
  obtain x where x: "integer_fromString (minus_if neg @ as @ bs) 0 = Inr x" "integer_wf x"
    "ival x = (if neg then - 1 else 1) * int (digits_value 10 (as @ bs))"
    using fromString_signed [of "as @ bs" neg] assms by auto
  have "takeWhile (\<lambda>c. c \<noteq> CHR ''.'') str = minus_if neg @ as" "dropWhile (\<lambda>c. c \<noteq> CHR ''.'') str = ''.'' @ bs"
    using no_dot [OF assms(1), of neg] by (auto simp: str_def)
  then have "bd_fromString str = Inr (new_big_decimal x (int (length bs)))"
    using x(1) trim by (simp add: bd_fromString_def Let_def) (simp add: str_def)
  then show ?thesis using x(2,3) by (simp add: str_def new_big_decimal_def bd_wf_def)
qed

lemma bd_fromString_plain:
  assumes "\<forall>c \<in> set ds. is_digit 10 c" and "ds \<noteq> []"
  shows "\<exists>x. bd_fromString (minus_if neg @ ds) = Inr x \<and> bd_wf x
    \<and> bscale x = 0 \<and> ival (intVal x) = (if neg then - 1 else 1) * int (digits_value 10 ds)"
proof -
  have "js_trim (minus_if neg @ ds) = minus_if neg @ ds"
    using trim_number(1) [OF assms(1) _ assms(2), of "[]" neg] by simp
  moreover have "dropWhile (\<lambda>c. c \<noteq> CHR ''.'') (minus_if neg @ ds) = []"
    using no_dot [OF assms(1), of neg] by (simp add: dropWhile_eq_Nil_conv)
  ultimately show ?thesis
    using fromString_signed [OF assms, of neg] assms(2)
    by (auto simp: bd_fromString_def Let_def new_big_decimal_def bd_wf_def)
qed

section \<open>Properties\<close>

text \<open>
  C32: the decimal codec. Encoding writes the scale as a big-endian 32-bit integer followed by the
  unscaled varint, decoding gives the same number back; a scale outside 32 bits and a buffer of fewer
  than four bytes are range errors.
\<close>

theorem bd_buffer_roundtrip:
  assumes "bd_wf x"
  shows "(- 2147483648 \<le> bscale x \<and> bscale x \<le> 2147483647 \<longrightarrow>
      (\<exists>buf. bd_toBuffer x = Inr buf \<and> bd_fromBuffer buf = Inr x \<and> bytes_ok buf \<and> 5 \<le> length buf))
    \<and> (\<not> (- 2147483648 \<le> bscale x \<and> bscale x \<le> 2147483647) \<longrightarrow> bd_toBuffer x = Inl RangeError)
    \<and> (length b < 4 \<longrightarrow> bd_fromBuffer b = Inl RangeError)"
proof -
  have wf: "integer_wf (intVal x)" using assms by (simp add: bd_wf_def)
  have i: "integer_fromBuffer (integer_toBuffer (intVal x)) = intVal x"
    using fromBuffer_value [OF toBuffer_bytes [OF wf]] toBuffer_value [OF wf] wf by (intro integer_wf_inject) simp_all
  have "integer_toBuffer (intVal x) \<noteq> []"
    using high_bytes_value by (auto simp: integer_toBuffer_def Let_def)
  then have "5 \<le> length (int32_be (bscale x) @ integer_toBuffer (intVal x))" by (simp add: Suc_le_eq)
  moreover have "read_int32_be (int32_be (bscale x) @ integer_toBuffer (intVal x)) 0 = bscale x"
    if "- 2147483648 \<le> bscale x" "bscale x \<le> 2147483647"
    using that by (simp add: read_int32_be_def be_uint_int32_be)
  ultimately show ?thesis using i toBuffer_bytes [OF wf]
    by (auto simp: bd_toBuffer_def bd_fromBuffer_def new_big_decimal_def)
qed

theorem bd_buffer_roundtrip_witness:
  "\<exists>buf. bd_toBuffer (new_big_decimal (integer_fromInt (-12345)) 3) = Inr buf
    \<and> bd_fromBuffer buf = Inr (new_big_decimal (integer_fromInt (-12345)) 3)"
  using bd_buffer_roundtrip [of "new_big_decimal (integer_fromInt (-12345)) 3" "[]"]
  by (auto simp: bd_wf_def new_big_decimal_def)

text \<open>
  C33: Sum, difference and comparison of decimals whose scales differ by at most nine are exact: the
  result has the larger scale, and its unscaled value is that of the operation on the two unscaled
  values brought to that scale.
\<close>

theorem bd_arith_exact:
  assumes "bd_wf x" and "bd_wf y" and "\<bar>bscale x - bscale y\<bar> \<le> 9" and "m = max (bscale x) (bscale y)"
  shows "bscale (bd_add x y) = m \<and> ival (intVal (bd_add x y)) = bd_at m x + bd_at m y
    \<and> bscale (bd_subtract x y) = m \<and> ival (intVal (bd_subtract x y)) = bd_at m x - bd_at m y
    \<and> bd_wf (bd_add x y) \<and> bd_wf (bd_subtract x y)
    \<and> bd_compare x y = sgn (bd_at m x - bd_at m y)
    \<and> (bd_equals x y \<longleftrightarrow> bd_at m x = bd_at m y) \<and> (bd_greaterThan x y \<longleftrightarrow> bd_at m x > bd_at m y)"
  using bd_add_val [OF assms(1-3)] bd_compare_val [OF assms(1-3)]
  by (simp add: assms(4) bd_equals_def bd_greaterThan_def sgn_if)

theorem bd_arith_exact_witness:
  "ival (intVal (bd_add (new_big_decimal (integer_fromInt 15) 1) (new_big_decimal (integer_fromInt 25) 3))) = 1525"
  using bd_arith_exact [of "new_big_decimal (integer_fromInt 15) 1" "new_big_decimal (integer_fromInt 25) 3" 3]
  by (simp add: bd_wf_def new_big_decimal_def bd_at_def fromInt_val)

text \<open>
  Printing then parsing a decimal with a scale of at least zero gives back its scale and its unscaled
  value, for any digits and either sign, with leading zeros supplied where the number has fewer digits
  than its scale.
\<close>

theorem bd_text_roundtrip:
  assumes "\<forall>c \<in> set ds. is_digit 10 c" and "ds \<noteq> []"
  shows "\<exists>x. bd_fromString (bd_format (minus_if neg @ ds) (int n)) = Inr x \<and> bd_wf x \<and> bscale x = int n
    \<and> ival (intVal x) = (if neg then - 1 else 1) * int (digits_value 10 ds)"
proof (cases "n = 0")
  case True
  then show ?thesis using bd_fromString_plain [OF assms, of neg] by (simp add: bd_format_def)
next
  case False
  define k where "k = (if length ds \<le> n then n - length ds + 1 else 0)"
  define ds' where "ds' = replicate k (CHR ''0'') @ ds"
  define sep where "sep = length ds' - n"
  have hd: "take 1 ds \<noteq> ''-''" using assms digit_not_special(2) by (cases ds) auto
  have sep: "0 < sep" "sep \<le> length ds'" "length (drop sep ds') = n" by (auto simp: sep_def ds'_def k_def)
  have ok: "\<forall>c \<in> set ds'. is_digit 10 c"
    using assms(1) by (auto simp: ds'_def is_digit_def [of 10 "CHR ''0''"] digit_val_def char_code_def)
  have "bd_format (minus_if neg @ ds) (int n) = minus_if neg @ take sep ds' @ ''.'' @ drop sep ds'"
    using False hd by (auto simp: bd_format_def Let_def minus_if_def ds'_def k_def sep_def nat_add_distrib of_nat_diff nat_diff_distrib)
  moreover have "digits_value 10 (take sep ds' @ drop sep ds') = digits_value 10 ds"
    by (simp add: ds'_def digits_value_zeros del: take_append drop_append)
  moreover have "\<forall>c \<in> set (take sep ds'). is_digit 10 c" "\<forall>c \<in> set (drop sep ds'). is_digit 10 c" "take sep ds' \<noteq> []"
    using ok sep by (auto dest: in_set_takeD in_set_dropD)
  ultimately show ?thesis using bd_fromString_dot [of "take sep ds'" "drop sep ds'" neg] sep(3) by (metis)
qed

theorem bd_text_roundtrip_witness:
  "\<exists>x. bd_fromString (bd_format ''-5'' 3) = Inr x \<and> bscale x = 3 \<and> ival (intVal x) = - 5"
  using bd_text_roundtrip [of "''5''" True 3]
  by (auto simp: minus_if_def is_digit_def digit_val_def char_code_def digits_value_def digit_num_def)

text \<open>
  A negative scale is lost by printing: the text is the unscaled value followed by a dot, and parsing
  it gives the unscaled value at scale zero.
\<close>

theorem bd_negative_scale_lost:
  assumes "\<forall>c \<in> set ds. is_digit 10 c" and "ds \<noteq> []" and "scale < 0"
  shows "bd_format (minus_if neg @ ds) scale = minus_if neg @ ds @ ''.''
    \<and> (\<exists>x. bd_fromString (bd_format (minus_if neg @ ds) scale) = Inr x \<and> bscale x = 0
      \<and> ival (intVal x) = (if neg then - 1 else 1) * int (digits_value 10 ds))"
proof -
  have hd: "take 1 ds \<noteq> ''-''" using assms digit_not_special(2) by (cases ds) auto
  have "bd_format (minus_if neg @ ds) scale = minus_if neg @ ds @ ''.''"
    using assms(3) hd by (auto simp: bd_format_def Let_def minus_if_def)
  then show ?thesis using bd_fromString_dot [OF assms(1) _ assms(2), of "[]" neg] by auto
qed

theorem bd_negative_scale_lost_witness: "bd_format ''123'' (- 2) = ''123.''"
  using bd_negative_scale_lost [of "''123''" "- 2" False]
  by (simp add: minus_if_def is_digit_def digit_val_def char_code_def)

end
