(* ===== verification/Version_Number.thy ===== *)
theory Version_Number
  imports Comparable "HOL-Library.Product_Lexorder" "HOL-Library.Option_ord"
begin

text \<open>
  \<^verbatim>\<open>src/lib/types/version-number.js\<close>: version numbers with optional patch, DSE patch,
  pre-release labels and build. The regular expression of \<open>parse\<close> is unanchored; its first two groups
  have no choice to backtrack into and all later groups are optional, so it is modelled by a scan for
  the first suffix that starts with digits, a dot and digits, followed by greedy optional parts.
\<close>

section \<open>Model\<close>

record version_number =
  major :: int
  minor :: int
  patch :: "int option"
  dsePatch :: "int option"
  preReleases :: "string list option"
  build :: "string option"

text \<open>Comparison; undefined \<open>patch\<close> counts as 0 and the build is ignored.\<close>

definition patch_or_0 :: "version_number \<Rightarrow> int" where
  "patch_or_0 v = (case patch v of None \<Rightarrow> 0 | Some p \<Rightarrow> p)"

definition compare_pre :: "version_number \<Rightarrow> version_number \<Rightarrow> int" where
  "compare_pre v other =
    (if preReleases v = None then (if preReleases other \<noteq> None then 1 else 0)
     else if preReleases other = None then -1 else 0)"

definition version_compare :: "version_number \<Rightarrow> version_number \<Rightarrow> int" where
  "version_compare v other =
    (if major v < major other then -1
     else if major v > major other then 1
     else if minor v < minor other then -1
     else if minor v > minor other then 1
     else if patch_or_0 v < patch_or_0 other then -1
     else if patch_or_0 v > patch_or_0 other then 1
     else case (dsePatch v, dsePatch other) of
         (None, Some _) \<Rightarrow> -1
       | (None, None) \<Rightarrow> compare_pre v other
       | (Some _, None) \<Rightarrow> 1
       | (Some a, Some b) \<Rightarrow> if a < b then -1 else if a > b then 1 else compare_pre v other)"

subsection \<open>Parsing\<close>

definition is_word_char :: "char \<Rightarrow> bool" where
  "is_word_char c \<longleftrightarrow> is_digit 36 c \<or> c = CHR ''_''"

abbreviation digit10 :: "char \<Rightarrow> bool" where
  "digit10 \<equiv> is_digit 10"

definition number_of :: "string \<Rightarrow> int" where
  "number_of ds = js_round (int (digits_value 10 ds))"

definition starts_digit :: "string \<Rightarrow> bool" where
  "starts_digit s \<longleftrightarrow> s \<noteq> [] \<and> digit10 (hd s)"

text \<open>The mandatory part \<open>(\d+)\.(\d+)\<close> at the start of a text: the two digit runs and the rest.\<close>

definition match_head :: "string \<Rightarrow> (string \<times> string \<times> string) option" where
  "match_head s =
    (let a = takeWhile digit10 s; r = dropWhile digit10 s in
     if a \<noteq> [] \<and> r \<noteq> [] \<and> hd r = CHR ''.'' \<and> starts_digit (tl r)
     then Some (a, takeWhile digit10 (tl r), dropWhile digit10 (tl r)) else None)"

fun search_head :: "string \<Rightarrow> (string \<times> string \<times> string) option" where
  "search_head [] = None"
| "search_head (c # cs) = (case match_head (c # cs) of None \<Rightarrow> search_head cs | Some m \<Rightarrow> Some m)"

text \<open>\<open>(?:\.(\d+))?\<close> and \<open>(?:\.(\d+)?)?\<close>\<close>

definition match_patch :: "string \<Rightarrow> int option \<times> string" where
  "match_patch s =
    (if s \<noteq> [] \<and> hd s = CHR ''.'' \<and> starts_digit (tl s)
     then (Some (number_of (takeWhile digit10 (tl s))), dropWhile digit10 (tl s)) else (None, s))"

definition match_dsePatch :: "string \<Rightarrow> int option \<times> string" where
  "match_dsePatch s =
    (if s \<noteq> [] \<and> hd s = CHR ''.''
     then (if starts_digit (tl s)
           then (Some (number_of (takeWhile digit10 (tl s))), dropWhile digit10 (tl s)) else (None, tl s))
     else (None, s))"

text \<open>The labels \<open>(?:-\w[.\w]*)*\<close>: the matched text and the rest.\<close>

definition label_char :: "char \<Rightarrow> bool" where
  "label_char c \<longleftrightarrow> is_word_char c \<or> c = CHR ''.''"

function match_labels :: "string \<Rightarrow> string \<times> string" where
  "match_labels s =
    (if length s \<ge> 2 \<and> hd s = CHR ''-'' \<and> is_word_char (hd (tl s))
     then let (m, r) = match_labels (dropWhile label_char (tl s))
          in (CHR ''-'' # takeWhile label_char (tl s) @ m, r)
     else ([], s))"
  by pat_completeness auto
termination
proof (relation "measure length")
  fix s :: string
  assume h: "length s \<ge> 2 \<and> hd s = CHR ''-'' \<and> is_word_char (hd (tl s))"
  have "length (dropWhile label_char (tl s)) \<le> length (tl s)" by (rule length_dropWhile_le)
  also have "\<dots> < length s" using h by (cases s) auto
  finally show "(dropWhile label_char (tl s), s) \<in> measure length" by simp
qed simp

declare match_labels.simps [simp del]

definition first_label_char :: "char \<Rightarrow> bool" where
  "first_label_char c \<longleftrightarrow> is_word_char c \<or> c = CHR ''+''"

text \<open>\<open>(?:[-~]([\w+]*(?:-\w[.\w]*)*))?\<close>: the text of group 5.\<close>

definition match_pre :: "string \<Rightarrow> string option \<times> string" where
  "match_pre s =
    (if s \<noteq> [] \<and> (hd s = CHR ''-'' \<or> hd s = CHR ''~'')
     then let first = takeWhile first_label_char (tl s);
              (m, r) = match_labels (dropWhile first_label_char (tl s))
          in (Some (first @ m), r)
     else (None, s))"

definition match_build :: "string \<Rightarrow> string option" where
  "match_build s =
    (if s \<noteq> [] \<and> hd s = CHR ''+'' \<and> takeWhile label_char (tl s) \<noteq> []
     then Some (takeWhile label_char (tl s)) else None)"

text \<open>\<open>split('-')\<close>\<close>

fun split_dash :: "string \<Rightarrow> string list" where
  "split_dash [] = [[]]"
| "split_dash (c # cs) =
    (if c = CHR ''-'' then [] # split_dash cs
     else case split_dash cs of [] \<Rightarrow> [[c]] | w # ws \<Rightarrow> (c # w) # ws)"

text \<open>\<open>parse\<close>: \<open>None\<close> stands for the \<open>null\<close> returned for an empty text.\<close>

definition version_parse :: "string \<Rightarrow> version_number option result" where
  "version_parse version =
    (if version = [] then Inr None
     else case search_head version of
         None \<Rightarrow> Inl TypeError
       | Some (a, b, rest) \<Rightarrow>
           let (p, r1) = match_patch rest; (d, r2) = match_dsePatch r1; (pre, r3) = match_pre r2
           in Inr (Some \<lparr>major = number_of a, minor = number_of b, patch = p, dsePatch = d,
                preReleases = (case pre of None \<Rightarrow> None | Some g \<Rightarrow> if g = [] then None else Some (split_dash g)),
                build = match_build r3\<rparr>))"

section \<open>The order of versions\<close>

definition version_key :: "version_number \<Rightarrow> int \<times> int \<times> int \<times> int option \<times> bool" where
  "version_key v = (major v, minor v, patch_or_0 v, dsePatch v, preReleases v = None)"

text \<open>Versions are ordered lexicographically, an absent DSE patch first and a pre-release before the release.\<close>

interpretation version_order: comparable version_compare "\<lambda>v. True" version_key
proof unfold_locales
  fix v w :: version_number
  show "version_compare v w < 0 \<longleftrightarrow> version_key v < version_key w"
    by (cases "dsePatch v"; cases "dsePatch w")
      (auto simp: version_compare_def version_key_def compare_pre_def less_bool_def)
  show "version_compare v w = 0 \<longleftrightarrow> version_key v = version_key w"
    by (cases "dsePatch v"; cases "dsePatch w")
      (auto simp: version_compare_def version_key_def compare_pre_def)
qed

section \<open>Printing\<close>

definition version_toString :: "version_number \<Rightarrow> string" where
  "version_toString v =
    show_int (major v) @ ''.'' @ show_int (minor v)
    @ (case patch v of None \<Rightarrow> [] | Some p \<Rightarrow> ''.'' @ show_int p)
    @ (case dsePatch v of None \<Rightarrow> [] | Some p \<Rightarrow> ''.'' @ show_int p)
    @ (case preReleases v of None \<Rightarrow> [] | Some ls \<Rightarrow> concat (map (\<lambda>l. CHR ''-'' # l) ls))
    @ (case build v of None \<Rightarrow> [] | Some b \<Rightarrow> if b = [] then [] else ''+'' @ b)"

text \<open>The versions whose text is read back: see \<open>version_text_roundtrip\<close>.\<close>

definition label_ok :: "string \<Rightarrow> bool" where
  "label_ok l \<longleftrightarrow> l \<noteq> [] \<and> list_all is_word_char l"

definition num_ok :: "int \<Rightarrow> bool" where
  "num_ok i \<longleftrightarrow> 0 \<le> i \<and> i \<le> 2 ^ 53"

definition version_printable :: "version_number \<Rightarrow> bool" where
  "version_printable v \<longleftrightarrow>
    num_ok (major v) \<and> num_ok (minor v) \<and> pred_option num_ok (patch v) \<and> pred_option num_ok (dsePatch v)
    \<and> (dsePatch v \<noteq> None \<longrightarrow> patch v \<noteq> None)
    \<and> pred_option (\<lambda>ls. ls \<noteq> [] \<and> list_all label_ok ls) (preReleases v)
    \<and> pred_option (\<lambda>b. b \<noteq> [] \<and> list_all label_char b) (build v)
    \<and> (preReleases v = None \<or> build v = None)"

lemma show_int_digits: "num_ok i \<Longrightarrow> show_int i = show_nat (nat i)"
  by (simp add: num_ok_def show_int_def)

lemma number_of_show: "num_ok i \<Longrightarrow> number_of (show_nat (nat i)) = i"
  by (simp add: num_ok_def number_of_def digits_value_show)

lemma digit_run:
  assumes "r = [] \<or> \<not> digit10 (hd r)"
  shows "takeWhile digit10 (show_nat n @ r) = show_nat n" and "dropWhile digit10 (show_nat n @ r) = r"
    and "starts_digit (show_nat n @ r)"
  using assms show_nat_digits [of n] hd_in_set [of "show_nat n"]
  by (cases r; auto simp: starts_digit_def)+

lemma not_digit_chars [simp]: "\<not> digit10 CHR ''.''" "\<not> digit10 CHR ''-''" "\<not> digit10 CHR ''+''"
  by (simp_all add: is_digit_def digit_val_def char_code_def)

lemma search_head_print:
  assumes "r = [] \<or> \<not> digit10 (hd r)"
  shows "search_head (show_nat a @ ''.'' @ show_nat b @ r) = Some (show_nat a, show_nat b, r)"
proof -
  have "match_head (show_nat a @ ''.'' @ show_nat b @ r) = Some (show_nat a, show_nat b, r)"
    using digit_run [OF assms, of b] digit_run [of "''.'' @ show_nat b @ r" a] by (simp add: match_head_def)
  then show ?thesis by (cases "show_nat a") simp_all
qed

lemma word_chars [simp]: "\<not> is_word_char CHR ''-''" "\<not> is_word_char CHR ''+''" "\<not> label_char CHR ''-''"
  "\<not> first_label_char CHR ''-''"
  by (simp_all add: is_word_char_def label_char_def first_label_char_def is_digit_def digit_val_def char_code_def)

lemma label_run:
  assumes "label_ok l" and "r = [] \<or> hd r = CHR ''-''"
  shows "takeWhile label_char (l @ r) = l" "dropWhile label_char (l @ r) = r"
    "takeWhile first_label_char (l @ r) = l" "dropWhile first_label_char (l @ r) = r" "is_word_char (hd (l @ r))"
  using assms by (cases r; auto simp: label_ok_def list_all_iff label_char_def first_label_char_def)+

definition labels_text :: "string list \<Rightarrow> string" where
  "labels_text ls = concat (map (\<lambda>l. CHR ''-'' # l) ls)"

lemma labels_text_hd: "labels_text ls = [] \<or> hd (labels_text ls) = CHR ''-''"
  by (cases ls) (simp_all add: labels_text_def)

lemma match_labels_print: "list_all label_ok ls \<Longrightarrow> match_labels (labels_text ls) = (labels_text ls, [])"
proof (induction ls)
  case Nil
  then show ?case by (simp add: labels_text_def match_labels.simps)
next
  case (Cons l ls)
  have l: "label_ok l" "l \<noteq> []" using Cons.prems by (simp_all add: label_ok_def)
  have eq: "labels_text (l # ls) = CHR ''-'' # l @ labels_text ls" by (simp add: labels_text_def)
  show ?case using Cons label_run [OF l(1) labels_text_hd [of ls]] l(2)
    unfolding eq by (subst match_labels.simps) (auto simp: Suc_le_eq)
qed

lemma split_dash_word: "list_all (\<lambda>c. c \<noteq> CHR ''-'') l \<Longrightarrow> split_dash (l @ CHR ''-'' # r) = l # split_dash r"
  "list_all (\<lambda>c. c \<noteq> CHR ''-'') l \<Longrightarrow> split_dash l = [l]"
  by (induction l) (simp_all split: list.split)

lemma label_no_dash: "label_ok l \<Longrightarrow> list_all (\<lambda>c. c \<noteq> CHR ''-'') l"
  by (auto simp: label_ok_def list_all_iff)

lemma split_dash_print: "list_all label_ok (l # ls) \<Longrightarrow> split_dash (l @ labels_text ls) = l # ls"
proof (induction ls arbitrary: l)
  case Nil
  then show ?case using split_dash_word(2) [OF label_no_dash] by (simp add: labels_text_def)
next
  case (Cons k ls)
  have "labels_text (k # ls) = CHR ''-'' # k @ labels_text ls" by (simp add: labels_text_def)
  then show ?case using Cons split_dash_word(1) [OF label_no_dash, of l] by simp
qed

lemma match_pre_print:
  assumes "list_all label_ok ls" and "ls \<noteq> []"
  shows "match_pre (labels_text ls) = (Some (tl (labels_text ls)), [])" "tl (labels_text ls) \<noteq> []"
    "split_dash (tl (labels_text ls)) = ls"
proof -
  obtain l ks where ls: "ls = l # ks" using assms(2) by (cases ls) auto
  have eq: "labels_text ls = CHR ''-'' # l @ labels_text ks" by (simp add: labels_text_def ls)
  have l: "label_ok l" "l \<noteq> []" and ks: "list_all label_ok ks" using assms by (simp_all add: ls label_ok_def)
  show "match_pre (labels_text ls) = (Some (tl (labels_text ls)), [])"
    using label_run(3,4) [OF l(1) labels_text_hd [of ks]] match_labels_print [OF ks] by (simp add: match_pre_def eq)
  show "tl (labels_text ls) \<noteq> []" using l by (simp add: eq)
  have "split_dash (l @ labels_text ks) = ls" using split_dash_print [of l ks] l(1) ks by (simp add: ls)
  then show "split_dash (tl (labels_text ls)) = ls" by (simp add: eq)
qed

lemma match_build_print: "list_all label_char b \<Longrightarrow> b \<noteq> [] \<Longrightarrow> match_build (CHR ''+'' # b) = Some b"
proof -
  assume b: "list_all label_char b" "b \<noteq> []"
  have "takeWhile label_char b = b" using b(1) by (simp add: takeWhile_eq_all_conv list_all_iff)
  then show ?thesis using b(2) by (simp add: match_build_def del: takeWhile_eq_all_conv)
qed

text \<open>What follows the numbers: nothing, labels or a build.\<close>

definition tail_text :: "version_number \<Rightarrow> string" where
  "tail_text v = (case preReleases v of None \<Rightarrow> [] | Some ls \<Rightarrow> labels_text ls)
    @ (case build v of None \<Rightarrow> [] | Some b \<Rightarrow> if b = [] then [] else ''+'' @ b)"

lemma tail_read:
  assumes "version_printable v"
  shows "\<exists>pre r. match_pre (tail_text v) = (pre, r)
    \<and> (case pre of None \<Rightarrow> None | Some g \<Rightarrow> if g = [] then None else Some (split_dash g)) = preReleases v
    \<and> match_build r = build v"
proof (cases "preReleases v")
  case None
  then show ?thesis
    using assms match_build_print
    by (cases "build v") (auto simp: tail_text_def match_pre_def match_build_def version_printable_def)
next
  case (Some ls)
  then have "build v = None" "list_all label_ok ls" "ls \<noteq> []" using assms by (auto simp: version_printable_def)
  then show ?thesis using match_pre_print [of ls] Some by (simp add: tail_text_def match_build_def)
qed

lemma tail_hd: "version_printable v \<Longrightarrow> tail_text v = [] \<or> hd (tail_text v) \<in> {CHR ''-'', CHR ''+''}"
  using labels_text_hd
  by (cases "preReleases v"; cases "build v") (auto simp: tail_text_def version_printable_def hd_append)

definition dot_text :: "int option \<Rightarrow> string" where
  "dot_text p = (case p of None \<Rightarrow> [] | Some i \<Rightarrow> ''.'' @ show_nat (nat i))"

lemma patches_read:
  assumes "version_printable v"
  shows "match_patch (dot_text (patch v) @ dot_text (dsePatch v) @ tail_text v) = (patch v, dot_text (dsePatch v) @ tail_text v)"
    and "match_dsePatch (dot_text (dsePatch v) @ tail_text v) = (dsePatch v, tail_text v)"
proof -
  have hd: "tail_text v = [] \<or> hd (tail_text v) \<noteq> CHR ''.'' \<and> \<not> digit10 (hd (tail_text v))"
    using tail_hd [OF assms] by auto
  have hd': "dot_text (dsePatch v) @ tail_text v = [] \<or> \<not> digit10 (hd (dot_text (dsePatch v) @ tail_text v))"
    using hd by (auto simp: dot_text_def split: option.split)
  show "match_dsePatch (dot_text (dsePatch v) @ tail_text v) = (dsePatch v, tail_text v)"
  proof (cases "dsePatch v")
    case None
    then show ?thesis using hd by (auto simp: match_dsePatch_def dot_text_def)
  next
    case (Some d)
    have "tail_text v = [] \<or> \<not> digit10 (hd (tail_text v))" using hd by blast
    note run = digit_run [OF this, of "nat d"]
    show ?thesis using run number_of_show [of d] assms Some
      by (simp add: match_dsePatch_def dot_text_def version_printable_def)
  qed
  show "match_patch (dot_text (patch v) @ dot_text (dsePatch v) @ tail_text v) = (patch v, dot_text (dsePatch v) @ tail_text v)"
  proof (cases "patch v")
    case None
    then have "dsePatch v = None" using assms by (auto simp: version_printable_def)
    then show ?thesis using hd None by (auto simp: match_patch_def dot_text_def)
  next
    case (Some p)
    show ?thesis using digit_run [OF hd', of "nat p"] number_of_show [of p] assms Some
      by (simp add: match_patch_def dot_text_def [of "Some p"] version_printable_def)
  qed
qed

lemma version_toString_parts:
  assumes "version_printable v"
  shows "version_toString v = show_nat (nat (major v)) @ ''.'' @ show_nat (nat (minor v))
    @ dot_text (patch v) @ dot_text (dsePatch v) @ tail_text v"
  using assms show_int_digits
  by (auto simp: version_toString_def version_printable_def dot_text_def tail_text_def labels_text_def split: option.split)

section \<open>Properties\<close>

text \<open>
  Printing a version and parsing the text gives the same version, for any numbers up to
  \<open>2 ^ 53\<close>, any non-empty list of word labels or any build text, as long as it does not have both labels
  and a build.
\<close>

theorem version_text_roundtrip:
  assumes "version_printable v"
  shows "version_parse (version_toString v) = Inr (Some v)"
proof -
  define rest where "rest = dot_text (patch v) @ dot_text (dsePatch v) @ tail_text v"
  have "rest = [] \<or> \<not> digit10 (hd rest)"
    using tail_hd [OF assms] by (auto simp: rest_def dot_text_def split: option.split)
  then have sh: "search_head (version_toString v) = Some (show_nat (nat (major v)), show_nat (nat (minor v)), rest)"
    unfolding version_toString_parts [OF assms] rest_def [symmetric] by (rule search_head_print)
  have ne: "version_toString v \<noteq> []" by (simp add: version_toString_parts [OF assms])
  have nums: "number_of (show_nat (nat (major v))) = major v" "number_of (show_nat (nat (minor v))) = minor v"
    using assms by (simp_all add: version_printable_def number_of_show)
  obtain pre r where pre: "match_pre (tail_text v) = (pre, r)"
    "(case pre of None \<Rightarrow> None | Some g \<Rightarrow> if g = [] then None else Some (split_dash g)) = preReleases v"
    "match_build r = build v"
    using tail_read [OF assms] by blast
  show ?thesis
    using ne sh patches_read [OF assms] pre nums by (simp add: version_parse_def rest_def)
qed

theorem version_text_roundtrip_witness:
  "version_parse (version_toString \<lparr>major = 4, minor = 0, patch = Some 11, dsePatch = None,
      preReleases = Some [''beta2'', ''SNAPSHOT''], build = None\<rparr>)
    = Inr (Some \<lparr>major = 4, minor = 0, patch = Some 11, dsePatch = None,
      preReleases = Some [''beta2'', ''SNAPSHOT''], build = None\<rparr>)"
  by (rule version_text_roundtrip)
    (simp add: version_printable_def num_ok_def label_ok_def is_word_char_def is_digit_def digit_val_def char_code_def)

text \<open>
  \<open>compare\<close> is the lexicographic order on major, minor, patch (0 when absent), DSE patch (absent
  first) and the absence of pre-release labels; it takes only the values -1, 0 and 1 and is antisymmetric.
\<close>

theorem version_compare_order:
  "(version_compare v w < 0 \<longleftrightarrow> version_key v < version_key w)
    \<and> (version_compare v w = 0 \<longleftrightarrow> version_key v = version_key w)
    \<and> version_compare v w \<in> {-1, 0, 1} \<and> version_compare w v = - version_compare v w"
proof -
  have r: "version_compare v w \<in> {-1, 0, 1}" for v w
    by (auto simp: version_compare_def compare_pre_def split: option.split)
  have "version_compare w v = - version_compare v w"
  proof (cases "version_key v" "version_key w" rule: linorder_cases)
    case less
    then have "version_compare v w < 0" "version_compare w v > 0" by (simp_all add: version_order.cmp_neg version_order.cmp_pos)
    then show ?thesis using r [of v w] r [of w v] by auto
  next
    case equal
    then have "version_compare v w = 0" "version_compare w v = 0" by (simp_all add: version_order.cmp_zero)
    then show ?thesis by simp
  next
    case greater
    then have "version_compare v w > 0" "version_compare w v < 0" by (simp_all add: version_order.cmp_neg version_order.cmp_pos)
    then show ?thesis using r [of v w] r [of w v] by auto
  qed
  then show ?thesis using r [of v w] version_order.cmp_neg [of v w] version_order.cmp_zero [of v w] by blast
qed

end
