(* ===== verification/Protocol_Version.thy ===== *)
theory Protocol_Version
  imports Version_Number
begin

text \<open>
  \<^verbatim>\<open>src/lib/types/protocol-version.js\<close>: the protocol version numbers, the capability tests and the
  negotiation of the highest version common to the hosts of a cluster. Log output is not modelled.
\<close>

section \<open>Versions and capabilities\<close>

definition pv1 :: int where "pv1 = 1"
definition pv2 :: int where "pv2 = 2"
definition pv3 :: int where "pv3 = 3"
definition pv4 :: int where "pv4 = 4"
definition pv5 :: int where "pv5 = 5"
definition pv6 :: int where "pv6 = 6"
definition dseV1 :: int where "dseV1 = 65"
definition dseV2 :: int where "dseV2 = 66"
definition maxSupported :: int where "maxSupported = 66"
definition minSupported :: int where "minSupported = 1"

lemmas pv_defs = pv1_def pv2_def pv3_def pv4_def pv5_def pv6_def dseV1_def dseV2_def

definition isSupportedCassandra :: "int \<Rightarrow> bool" where
  "isSupportedCassandra version \<longleftrightarrow> version \<le> 4 \<and> version \<ge> 1"

definition isSupported :: "int \<Rightarrow> bool" where
  "isSupported version \<longleftrightarrow> isSupportedCassandra version"

definition supportsPrepareFlags :: "int \<Rightarrow> bool" where
  "supportsPrepareFlags version \<longleftrightarrow> version = dseV2"

definition supportsKeyspaceInRequest :: "int \<Rightarrow> bool" where
  "supportsKeyspaceInRequest version \<longleftrightarrow> version = dseV2"

definition supportsResultMetadataId :: "int \<Rightarrow> bool" where
  "supportsResultMetadataId version \<longleftrightarrow> version = dseV2"

definition supportsPreparedPartitionKey :: "int \<Rightarrow> bool" where
  "supportsPreparedPartitionKey version \<longleftrightarrow> version \<ge> pv4"

definition supportsSchemaChangeFullMetadata :: "int \<Rightarrow> bool" where
  "supportsSchemaChangeFullMetadata version \<longleftrightarrow> version \<ge> pv3"

definition supportsContinuousPaging :: "int \<Rightarrow> bool" where
  "supportsContinuousPaging version \<longleftrightarrow> False"

definition supportsPaging :: "int \<Rightarrow> bool" where
  "supportsPaging version \<longleftrightarrow> version \<ge> pv2"

definition supportsTimestamp :: "int \<Rightarrow> bool" where
  "supportsTimestamp version \<longleftrightarrow> version \<ge> pv3"

definition supportsNamedParameters :: "int \<Rightarrow> bool" where
  "supportsNamedParameters version \<longleftrightarrow> version \<ge> pv3"

definition supportsUnset :: "int \<Rightarrow> bool" where
  "supportsUnset version \<longleftrightarrow> version \<ge> pv4"

definition supportsFailureReasonMap :: "int \<Rightarrow> bool" where
  "supportsFailureReasonMap version \<longleftrightarrow> version \<ge> pv5"

definition uses2BytesStreamIds :: "int \<Rightarrow> bool" where
  "uses2BytesStreamIds version \<longleftrightarrow> version \<ge> pv3"

definition uses4BytesCollectionLength :: "int \<Rightarrow> bool" where
  "uses4BytesCollectionLength version \<longleftrightarrow> version \<ge> pv3"

definition uses4BytesQueryFlags :: "int \<Rightarrow> bool" where
  "uses4BytesQueryFlags version \<longleftrightarrow> False"

definition canStartupResponseErrorBeWrapped :: "int \<Rightarrow> bool" where
  "canStartupResponseErrorBeWrapped version \<longleftrightarrow> version \<ge> pv4"

definition isBeta :: "int \<Rightarrow> bool" where
  "isBeta version \<longleftrightarrow> version = pv5"

definition getLowerSupported :: "int \<Rightarrow> int" where
  "getLowerSupported version =
    (if version \<ge> pv5 then pv4 else if version \<le> pv1 then 0 else version - 1)"

section \<open>Negotiation\<close>

definition version3 :: "int \<Rightarrow> int \<Rightarrow> int \<Rightarrow> version_number" where
  "version3 a b c = \<lparr>major = a, minor = b, patch = Some c, dsePatch = None, preReleases = None, build = None\<rparr>"

definition v200 :: version_number where "v200 = version3 2 0 0"
definition v210 :: version_number where "v210 = version3 2 1 0"
definition v220 :: version_number where "v220 = version3 2 2 0"
definition v300 :: version_number where "v300 = version3 3 0 0"
definition v510 :: version_number where "v510 = version3 5 1 0"
definition v600 :: version_number where "v600 = version3 6 0 0"

lemmas v_defs = v200_def v210_def v220_def v300_def v510_def v600_def version3_def

text \<open>The fields of a host that are read; an empty text stands for an undefined one.\<close>

record host_info =
  host_dseVersion :: string
  host_cassandraVersion :: string

record negotiation =
  maxVersion :: int
  v3Requirement :: bool
  maxVersionWith3OrMore :: int

text \<open>The part of the loop that looks at the Cassandra version.\<close>

definition cassandra_step :: "negotiation \<Rightarrow> version_number \<Rightarrow> negotiation" where
  "cassandra_step st v =
    (if version_compare v v300 \<ge> 0
     then let m = min pv4 (maxVersion st)
          in \<lparr>maxVersion = m, v3Requirement = True, maxVersionWith3OrMore = m\<rparr>
     else if version_compare v v220 \<ge> 0
     then let m = min pv4 (maxVersion st) in st\<lparr>maxVersion := m, maxVersionWith3OrMore := m\<rparr>
     else if version_compare v v210 \<ge> 0
     then let m = min pv3 (maxVersion st) in st\<lparr>maxVersion := m, maxVersionWith3OrMore := m\<rparr>
     else if version_compare v v200 \<ge> 0 then st\<lparr>maxVersion := min pv2 (maxVersion st)\<rparr>
     else st\<lparr>maxVersion := pv1\<rparr>)"

definition cassandra_part :: "negotiation \<Rightarrow> string \<Rightarrow> negotiation" where
  "cassandra_part st cv =
    (if cv = [] then st
     else case version_parse cv of Inr (Some v) \<Rightarrow> cassandra_step st v | _ \<Rightarrow> st)"

text \<open>The body of \<open>hosts.forEach\<close>; parsing the DSE version is outside the \<open>try\<close> and may raise.\<close>

definition host_step :: "negotiation \<Rightarrow> host_info \<Rightarrow> negotiation result" where
  "host_step st h =
    (if host_dseVersion h \<noteq> []
     then bind_result (version_parse (host_dseVersion h)) (\<lambda>dv. case dv of
         None \<Rightarrow> Inl TypeError
       | Some dseVersion \<Rightarrow>
           if version_compare dseVersion v510 \<ge> 0
           then let m = (if version_compare dseVersion v600 \<ge> 0 then min dseV2 (maxVersion st) else min dseV1 (maxVersion st))
                in Inr \<lparr>maxVersion = m, v3Requirement = True, maxVersionWith3OrMore = m\<rparr>
           else Inr (cassandra_part st (host_cassandraVersion h)))
     else Inr (cassandra_part st (host_cassandraVersion h)))"

fun hosts_loop :: "negotiation \<Rightarrow> host_info list \<Rightarrow> negotiation result" where
  "hosts_loop st [] = Inr st"
| "hosts_loop st (h # hs) = bind_result (host_step st h) (\<lambda>st'. hosts_loop st' hs)"

definition getHighestCommon :: "int \<Rightarrow> host_info list \<Rightarrow> int result" where
  "getHighestCommon connectionVersion hosts =
    bind_result
      (hosts_loop \<lparr>maxVersion = connectionVersion, v3Requirement = False, maxVersionWith3OrMore = connectionVersion\<rparr> hosts)
      (\<lambda>st. Inr (if v3Requirement st \<and> maxVersion st < pv3 then maxVersionWith3OrMore st else maxVersion st))"

section \<open>Specification of the negotiation\<close>

text \<open>The highest version a host supports, and whether it needs version 3 at least.\<close>

definition dse_of :: "host_info \<Rightarrow> version_number option" where
  "dse_of h = (case version_parse (host_dseVersion h) of Inr (Some v) \<Rightarrow> if version_compare v v510 \<ge> 0 then Some v else None | _ \<Rightarrow> None)"

definition cassandra_of :: "host_info \<Rightarrow> version_number option" where
  "cassandra_of h = (case version_parse (host_cassandraVersion h) of Inr (Some v) \<Rightarrow> Some v | _ \<Rightarrow> None)"

definition host_cap :: "host_info \<Rightarrow> int option" where
  "host_cap h =
    (case dse_of h of
       Some v \<Rightarrow> Some (if version_compare v v600 \<ge> 0 then 66 else 65)
     | None \<Rightarrow> map_option (\<lambda>v.
         if version_compare v v220 \<ge> 0 then 4 else if version_compare v v210 \<ge> 0 then 3
         else if version_compare v v200 \<ge> 0 then 2 else 1) (cassandra_of h))"

definition host_needs_v3 :: "host_info \<Rightarrow> bool" where
  "host_needs_v3 h \<longleftrightarrow> dse_of h \<noteq> None \<or> (\<exists>v. cassandra_of h = Some v \<and> version_compare v v300 \<ge> 0)"

definition host_readable :: "host_info \<Rightarrow> bool" where
  "host_readable h \<longleftrightarrow> host_dseVersion h = [] \<or> (\<exists>v. version_parse (host_dseVersion h) = Inr (Some v))"

definition lower_to :: "int \<Rightarrow> int option \<Rightarrow> int" where
  "lower_to m c = (case c of None \<Rightarrow> m | Some k \<Rightarrow> min k m)"

lemma version_parse_Nil [simp]: "version_parse [] = Inr None"
  by (simp add: version_parse_def)

lemma version_parse_not_null: "s \<noteq> [] \<Longrightarrow> version_parse s \<noteq> Inr None"
  by (auto simp: version_parse_def split: option.splits prod.splits)

lemma v300_v220: "version_compare v v300 \<ge> 0 \<Longrightarrow> version_compare v v220 \<ge> 0"
  using version_order.cmp_trans [of v220 v300 v] version_order.cmp_antisym
  by (auto simp: version_order.cmp_ge version_key_def v_defs patch_or_0_def)

lemma host_step_spec:
  assumes "host_readable h" and "1 \<le> maxVersion st"
  shows "\<exists>st'. host_step st h = Inr st' \<and> maxVersion st' = lower_to (maxVersion st) (host_cap h)
    \<and> v3Requirement st' = (v3Requirement st \<or> host_needs_v3 h)
    \<and> (maxVersionWith3OrMore st' = maxVersionWith3OrMore st \<or> maxVersionWith3OrMore st' = maxVersion st')"
proof -
  have part: "cassandra_part st (host_cassandraVersion h) = (case cassandra_of h of None \<Rightarrow> st | Some v \<Rightarrow> cassandra_step st v)"
    by (auto simp: cassandra_part_def cassandra_of_def split: sum.split option.split)
  show ?thesis
  proof (cases "dse_of h")
    case None
    then have "host_step st h = Inr (cassandra_part st (host_cassandraVersion h))"
      using assms(1) by (auto simp: host_step_def dse_of_def host_readable_def split: if_splits)
    then show ?thesis using None part assms(2) v300_v220
      by (cases "cassandra_of h")
        (auto simp: host_cap_def host_needs_v3_def lower_to_def cassandra_step_def pv_defs Let_def)
  next
    case (Some v)
    then have "host_dseVersion h \<noteq> []" "version_parse (host_dseVersion h) = Inr (Some v)" "version_compare v v510 \<ge> 0"
      by (auto simp: dse_of_def split: sum.splits option.splits if_splits)
    then show ?thesis using Some
      by (auto simp: host_step_def host_cap_def host_needs_v3_def lower_to_def pv_defs Let_def)
  qed
qed

text \<open>The constants are what \<open>VersionNumber.parse\<close> makes of their texts.\<close>

lemma parsed_constants:
  "version_parse ''2.0.0'' = Inr (Some v200)" "version_parse ''2.1.0'' = Inr (Some v210)"
  "version_parse ''2.2.0'' = Inr (Some v220)" "version_parse ''3.0.0'' = Inr (Some v300)"
  "version_parse ''5.1.0'' = Inr (Some v510)" "version_parse ''6.0.0'' = Inr (Some v600)"
  by (simp_all add: version_parse_def match_head_def starts_digit_def is_digit_def digit_val_def char_code_def
      match_patch_def match_dsePatch_def match_pre_def match_build_def number_of_def digits_value_def digit_num_def v_defs
      Let_def)

definition caps :: "host_info list \<Rightarrow> int list" where
  "caps hosts = List.map_filter host_cap hosts"

lemma caps_simps [simp]:
  "caps [] = []" "caps (h # hs) = (case host_cap h of None \<Rightarrow> caps hs | Some k \<Rightarrow> k # caps hs)"
  by (simp_all add: caps_def map_filter_simps split: option.split)

lemma lower_to_Min: "Min (set (lower_to m c # ks)) = Min (set (m # (case c of None \<Rightarrow> ks | Some k \<Rightarrow> k # ks)))"
  by (cases "ks = []") (auto simp: lower_to_def min.assoc min.commute min.left_commute split: option.split)

lemma host_cap_ge_1: "host_cap h = Some k \<Longrightarrow> 1 \<le> k"
  by (auto simp: host_cap_def split: option.splits if_splits)

lemma lower_to_ge_1: "1 \<le> m \<Longrightarrow> 1 \<le> lower_to m (host_cap h)"
  using host_cap_ge_1 by (auto simp: lower_to_def split: option.split)

lemma hosts_loop_spec:
  assumes "\<forall>h \<in> set hosts. host_readable h" and "1 \<le> maxVersion st" and "maxVersion st \<le> maxVersionWith3OrMore st"
    and "maxVersionWith3OrMore st \<le> c"
  shows "\<exists>st'. hosts_loop st hosts = Inr st' \<and> maxVersion st' = Min (set (maxVersion st # caps hosts))
    \<and> v3Requirement st' = (v3Requirement st \<or> (\<exists>h \<in> set hosts. host_needs_v3 h))
    \<and> maxVersion st' \<le> maxVersionWith3OrMore st' \<and> maxVersionWith3OrMore st' \<le> c"
  using assms
proof (induction hosts arbitrary: st)
  case Nil
  then show ?case by simp
next
  case (Cons h hs)
  obtain st1 where st1: "host_step st h = Inr st1" "maxVersion st1 = lower_to (maxVersion st) (host_cap h)"
    "v3Requirement st1 = (v3Requirement st \<or> host_needs_v3 h)"
    "maxVersionWith3OrMore st1 = maxVersionWith3OrMore st \<or> maxVersionWith3OrMore st1 = maxVersion st1"
    using host_step_spec [OF bspec [OF Cons.prems(1) list.set_intros(1)] Cons.prems(2)] by blast
  have le: "maxVersion st1 \<le> maxVersion st" by (simp add: st1(2) lower_to_def split: option.split)
  have "1 \<le> maxVersion st1" using Cons.prems(2) by (simp add: st1(2) lower_to_ge_1)
  moreover have "maxVersion st1 \<le> maxVersionWith3OrMore st1" "maxVersionWith3OrMore st1 \<le> c"
    using st1(4) le Cons.prems by auto
  moreover have "\<forall>h \<in> set hs. host_readable h" using Cons.prems(1) by simp
  ultimately obtain st' where st': "hosts_loop st1 hs = Inr st'" "maxVersion st' = Min (set (maxVersion st1 # caps hs))"
    "v3Requirement st' = (v3Requirement st1 \<or> (\<exists>h \<in> set hs. host_needs_v3 h))"
    "maxVersion st' \<le> maxVersionWith3OrMore st'" "maxVersionWith3OrMore st' \<le> c"
    using Cons.IH [of st1] by blast
  then have "maxVersion st' = Min (set (maxVersion st # caps (h # hs)))"
    using lower_to_Min [of "maxVersion st" "host_cap h" "caps hs"] st1(2) by simp
  then show ?case using st1 st' by simp
qed

lemma hosts_loop_error: "\<exists>h \<in> set hosts. \<not> host_readable h \<Longrightarrow> \<exists>e. hosts_loop st hosts = Inl e"
proof (induction hosts arbitrary: st)
  case (Cons h hs)
  show ?case
  proof (cases "host_readable h")
    case True
    then show ?thesis using Cons by (cases "host_step st h") auto
  next
    case False
    then have "\<exists>e. host_step st h = Inl e"
      using version_parse_not_null [of "host_dseVersion h"]
      by (cases "version_parse (host_dseVersion h)") (auto simp: host_step_def host_readable_def split: option.split)
    then show ?thesis by auto
  qed
qed simp

section \<open>Properties\<close>

text \<open>
  The negotiated version. It is never above the version of the connection and never below the
  lowest host's; whenever no host that needs version 3 meets a host limited to version 2 it is exactly
  the least of them, whatever the order of the hosts. An unreadable DSE version raises.
\<close>

theorem getHighestCommon_minimum:
  assumes "1 \<le> c"
  shows "(if \<forall>h \<in> set hosts. host_readable h
      then \<exists>r. getHighestCommon c hosts = Inr r \<and> Min (set (c # caps hosts)) \<le> r \<and> r \<le> c
        \<and> ((\<forall>h \<in> set hosts. \<not> host_needs_v3 h) \<or> 3 \<le> Min (set (c # caps hosts)) \<longrightarrow> r = Min (set (c # caps hosts)))
      else \<exists>e. getHighestCommon c hosts = Inl e)"
proof (cases "\<forall>h \<in> set hosts. host_readable h")
  case True
  obtain st where st: "hosts_loop \<lparr>maxVersion = c, v3Requirement = False, maxVersionWith3OrMore = c\<rparr> hosts = Inr st"
    "maxVersion st = Min (set (c # caps hosts))" "v3Requirement st \<longleftrightarrow> (\<exists>h \<in> set hosts. host_needs_v3 h)"
    "maxVersion st \<le> maxVersionWith3OrMore st" "maxVersionWith3OrMore st \<le> c"
    using hosts_loop_spec [OF True, of "\<lparr>maxVersion = c, v3Requirement = False, maxVersionWith3OrMore = c\<rparr>" c,
        simplified, OF assms] unfolding list.set(2) by blast
  define m where "m = Min (set (c # caps hosts))"
  have "m \<le> c" by (simp add: m_def)
  then show ?thesis using True st unfolding getHighestCommon_def m_def [symmetric]
    by (auto simp: pv_defs)
next
  case False
  then obtain e where "hosts_loop \<lparr>maxVersion = c, v3Requirement = False, maxVersionWith3OrMore = c\<rparr> hosts = Inl e"
    using hosts_loop_error [of hosts] by blast
  then show ?thesis using False by (simp add: getHighestCommon_def)
qed

definition cassandra_host :: "string \<Rightarrow> host_info" where
  "cassandra_host v = \<lparr>host_dseVersion = [], host_cassandraVersion = v\<rparr>"

lemma cassandra_host_facts:
  "host_readable (cassandra_host v)" "dse_of (cassandra_host v) = None"
  "cassandra_of (cassandra_host ''2.0.0'') = Some v200" "cassandra_of (cassandra_host ''3.0.0'') = Some v300"
  "cassandra_of (cassandra_host ''2.1.0'') = Some v210"
  by (simp_all add: cassandra_host_def host_readable_def dse_of_def cassandra_of_def parsed_constants)

theorem getHighestCommon_minimum_witness:
  "getHighestCommon 4 [cassandra_host ''3.0.0'', cassandra_host ''2.1.0''] = Inr 3"
proof -
  have "caps [cassandra_host ''3.0.0'', cassandra_host ''2.1.0''] = [4, 3]"
    by (simp add: host_cap_def cassandra_host_facts version_compare_def v_defs patch_or_0_def compare_pre_def)
  then show ?thesis
    using getHighestCommon_minimum [of 4 "[cassandra_host ''3.0.0'', cassandra_host ''2.1.0'']"]
    by (simp add: cassandra_host_facts del: caps_simps)
qed

text \<open>
  With a host that needs version 3 and one limited to version 2 the result depends on the order in which
  they are listed: the older host is left out only when it comes last.
\<close>

theorem getHighestCommon_order_dependent:
  "getHighestCommon 4 [cassandra_host ''3.0.0'', cassandra_host ''2.0.0''] = Inr 4
    \<and> getHighestCommon 4 [cassandra_host ''2.0.0'', cassandra_host ''3.0.0''] = Inr 2"
  by (simp add: getHighestCommon_def host_step_def cassandra_part_def cassandra_host_def parsed_constants cassandra_step_def
      version_compare_def v_defs patch_or_0_def compare_pre_def pv_defs)

text \<open>
  \<open>getLowerSupported\<close> steps down to the greatest supported version below the given one, or to 0 when
  there is none, so that repeated downgrading ends.
\<close>

theorem getLowerSupported_greatest:
  "(if \<exists>w. isSupported w \<and> w < v
      then isSupported (getLowerSupported v) \<and> getLowerSupported v < v
        \<and> (\<forall>w. isSupported w \<and> w < v \<longrightarrow> w \<le> getLowerSupported v)
      else getLowerSupported v = 0)"
proof (cases "1 < v")
  case True
  then have "\<exists>w. isSupported w \<and> w < v" by (intro exI [of _ 1]) (simp add: isSupported_def isSupportedCassandra_def)
  moreover have "isSupported (getLowerSupported v) \<and> getLowerSupported v < v
        \<and> (\<forall>w. isSupported w \<and> w < v \<longrightarrow> w \<le> getLowerSupported v)"
    using True by (auto simp: getLowerSupported_def isSupported_def isSupportedCassandra_def pv_defs)
  ultimately show ?thesis by simp
next
  case False
  then show ?thesis by (auto simp: getLowerSupported_def isSupported_def isSupportedCassandra_def pv_defs)
qed

theorem getLowerSupported_greatest_witness: "isSupported (getLowerSupported 66) \<and> getLowerSupported 66 < 66"
proof -
  have "\<exists>w. isSupported w \<and> w < 66" by (intro exI [of _ 1]) (simp add: isSupported_def isSupportedCassandra_def)
  then show ?thesis using getLowerSupported_greatest [of 66] by argo
qed

end
