(* ===== verification/Long_Package.thy ===== *)
theory Long_Package
  imports Js_Prelude
begin

text \<open>
  The \<open>Long\<close> class of the npm package \<open>long\<close> is third-party code. The components that use it take its
  operations as a parameter, a record \<open>long_ops\<close>, and rely on its documented behaviour, \<open>long_laws\<close>: a \<open>Long\<close>
  is a signed 64-bit integer, arithmetic that stays in range is exact, and the two 32-bit halves are
  those of the two's complement representation. The machine words of length 64 satisfy the laws.
\<close>

record 'l long_ops =
  long_fromNumber :: "int \<Rightarrow> 'l"
  long_fromInt :: "int \<Rightarrow> 'l"
  long_fromBits :: "int \<Rightarrow> int \<Rightarrow> 'l"
  long_multiply :: "'l \<Rightarrow> 'l \<Rightarrow> 'l"
  long_add :: "'l \<Rightarrow> 'l \<Rightarrow> 'l"
  long_subtract :: "'l \<Rightarrow> 'l \<Rightarrow> 'l"
  long_div :: "'l \<Rightarrow> 'l \<Rightarrow> 'l"
  long_modulo :: "'l \<Rightarrow> 'l \<Rightarrow> 'l"
  long_getHighBitsUnsigned :: "'l \<Rightarrow> int"
  long_getLowBitsUnsigned :: "'l \<Rightarrow> int"
  long_toNumber :: "'l \<Rightarrow> int"

definition in_long :: "int \<Rightarrow> bool" where
  "in_long n \<longleftrightarrow> - (2 ^ 63) \<le> n \<and> n < 2 ^ 63"

definition long_laws :: "'l long_ops \<Rightarrow> ('l \<Rightarrow> int) \<Rightarrow> bool" where
  "long_laws L val \<longleftrightarrow>
    (\<forall>n. in_long n \<longrightarrow> val (long_fromNumber L n) = n)
    \<and> (\<forall>n. - (2 ^ 31) \<le> n \<and> n < 2 ^ 31 \<longrightarrow> val (long_fromInt L n) = n)
    \<and> (\<forall>lo hi. 0 \<le> lo \<and> lo < 2 ^ 32 \<and> 0 \<le> hi \<and> hi < 2 ^ 31 \<longrightarrow> val (long_fromBits L lo hi) = hi * 2 ^ 32 + lo)
    \<and> (\<forall>a b. in_long (val a * val b) \<longrightarrow> val (long_multiply L a b) = val a * val b)
    \<and> (\<forall>a b. in_long (val a + val b) \<longrightarrow> val (long_add L a b) = val a + val b)
    \<and> (\<forall>a b. in_long (val a - val b) \<longrightarrow> val (long_subtract L a b) = val a - val b)
    \<and> (\<forall>a b. 0 \<le> val a \<and> 0 < val b \<longrightarrow> val (long_div L a b) = val a div val b)
    \<and> (\<forall>a b. 0 \<le> val a \<and> 0 < val b \<longrightarrow> val (long_modulo L a b) = val a mod val b)
    \<and> (\<forall>a. 0 \<le> val a \<longrightarrow> long_getHighBitsUnsigned L a = val a div 2 ^ 32)
    \<and> (\<forall>a. 0 \<le> val a \<longrightarrow> long_getLowBitsUnsigned L a = val a mod 2 ^ 32)
    \<and> (\<forall>a. \<bar>val a\<bar> \<le> 2 ^ 53 \<longrightarrow> long_toNumber L a = val a)"

lemma long_lawsD:
  assumes "long_laws L val"
  shows "in_long n \<Longrightarrow> val (long_fromNumber L n) = n"
    and "- (2 ^ 31) \<le> n \<Longrightarrow> n < 2 ^ 31 \<Longrightarrow> val (long_fromInt L n) = n"
    and "0 \<le> lo \<Longrightarrow> lo < 2 ^ 32 \<Longrightarrow> 0 \<le> hi \<Longrightarrow> hi < 2 ^ 31 \<Longrightarrow> val (long_fromBits L lo hi) = hi * 2 ^ 32 + lo"
    and "in_long (val a * val b) \<Longrightarrow> val (long_multiply L a b) = val a * val b"
    and "in_long (val a + val b) \<Longrightarrow> val (long_add L a b) = val a + val b"
    and "in_long (val a - val b) \<Longrightarrow> val (long_subtract L a b) = val a - val b"
    and "0 \<le> val a \<Longrightarrow> 0 < val b \<Longrightarrow> val (long_div L a b) = val a div val b"
    and "0 \<le> val a \<Longrightarrow> 0 < val b \<Longrightarrow> val (long_modulo L a b) = val a mod val b"
    and "0 \<le> val a \<Longrightarrow> long_getHighBitsUnsigned L a = val a div 2 ^ 32"
    and "0 \<le> val a \<Longrightarrow> long_getLowBitsUnsigned L a = val a mod 2 ^ 32"
    and "\<bar>val a\<bar> \<le> 2 ^ 53 \<Longrightarrow> long_toNumber L a = val a"
  using assms unfolding long_laws_def by blast+

definition word64_long :: "64 word long_ops" where
  "word64_long =
    \<lparr>long_fromNumber = word_of_int, long_fromInt = word_of_int, long_fromBits = (\<lambda>lo hi. word_of_int (hi * 2 ^ 32 + lo)),
     long_multiply = (*), long_add = (+), long_subtract = (-),
     long_div = (\<lambda>a b. word_of_int (sint a div sint b)), long_modulo = (\<lambda>a b. word_of_int (sint a mod sint b)),
     long_getHighBitsUnsigned = (\<lambda>a. uint a div 2 ^ 32), long_getLowBitsUnsigned = (\<lambda>a. uint a mod 2 ^ 32),
     long_toNumber = (\<lambda>a. js_round (sint a))\<rparr>"

lemma sint_word_of_int: "in_long n \<Longrightarrow> sint (word_of_int n :: 64 word) = n"
  using signed_take_bit_int_eq_self [of 63 n] by (simp add: sint_sbintrunc' in_long_def)

lemma in_long_sint: "in_long (sint (a :: 64 word))"
  using sint_lt [of a] sint_ge [of a] by (simp add: in_long_def)

lemma in_long_div: "in_long a \<Longrightarrow> 0 \<le> a \<Longrightarrow> 0 < b \<Longrightarrow> in_long (a div b)"
proof -
  assume h: "in_long a" "0 \<le> a" "0 < b"
  have "a div b \<le> a" using int_div_le_self [of a b] h(2) by (cases "a = 0") simp_all
  moreover have "0 \<le> a div b" using h by (simp add: pos_imp_zdiv_nonneg_iff)
  ultimately show ?thesis using h(1) unfolding in_long_def by linarith
qed

lemma in_long_mod: "in_long b \<Longrightarrow> 0 < b \<Longrightarrow> in_long (a mod b)"
  using pos_mod_bound [of b a] pos_mod_sign [of b a] unfolding in_long_def by linarith

lemma uint_nonneg_sint: "0 \<le> sint (a :: 64 word) \<Longrightarrow> uint a = sint a"
  using uint_sint [of a] in_long_sint [of a] by (simp add: in_long_def take_bit_int_eq_self)

lemma word64_long_laws: "long_laws word64_long (sint :: 64 word \<Rightarrow> int)"
proof -
  have ops: "sint (a * b) = sint a * sint b" if "in_long (sint a * sint b)" for a b :: "64 word"
    using sint_word_of_int [OF that] by simp
  have ops': "sint (a + b) = sint a + sint b" if "in_long (sint a + sint b)" for a b :: "64 word"
    using sint_word_of_int [OF that] by simp
  have ops'': "sint (a - b) = sint a - sint b" if "in_long (sint a - sint b)" for a b :: "64 word"
    using sint_word_of_int [OF that] by simp
  have bits: "sint (word_of_int (hi * 2 ^ 32 + lo) :: 64 word) = hi * 2 ^ 32 + lo"
    if "0 \<le> lo" "lo < 2 ^ 32" "0 \<le> hi" "hi < 2 ^ 31" for lo hi
    using that by (intro sint_word_of_int) (simp add: in_long_def)
  have small: "sint (word_of_int n :: 64 word) = n" if "- (2 ^ 31) \<le> n" "n < 2 ^ 31" for n
    using that by (intro sint_word_of_int) (simp add: in_long_def)
  have dm: "sint (word_of_int (sint a div sint b) :: 64 word) = sint a div sint b"
    "sint (word_of_int (sint a mod sint b) :: 64 word) = sint a mod sint b" if "0 \<le> sint a" "0 < sint b" for a b :: "64 word"
    using that by (simp_all only: sint_word_of_int in_long_div in_long_mod in_long_sint)
  show ?thesis
    unfolding long_laws_def word64_long_def long_ops.simps
    by (intro conjI allI impI; (elim conjE)?)
      (fact sint_word_of_int small bits ops ops' ops'' dm js_round_exact | simp only: uint_nonneg_sint)+
qed

section \<open>Bit operations\<close>

text \<open>
  The bit operations of the package. A \<open>Long\<close> has 64 bits, \<open>word\<close>, and a flag, \<open>uns\<close>, that says whether it is unsigned. The
  arithmetic and the bit operations are those of the two's complement representation whatever the flags are, and give a
  \<open>Long\<close> with the flag of the first operand; only the results that are signed are needed here. \<open>getLowBits\<close> and
  \<open>getHighBits\<close> are the halves as signed 32-bit integers. The operations that depend on the flag have laws for signed
  operands only: \<open>toNumber\<close>, \<open>toString\<close>, the comparisons and the division. Two \<open>Long\<close>s are equal when they have the same
  bits, unless the top bit is set and the flags differ. \<open>toUnsigned\<close> keeps the bits. The numbers and texts the others are
  made of give signed ones.
\<close>

record 'l long_bits =
  lb_fromNumber :: "int \<Rightarrow> 'l"
  lb_fromInt :: "int \<Rightarrow> 'l"
  lb_toUnsigned :: "'l \<Rightarrow> 'l"
  lb_shiftLeft :: "'l \<Rightarrow> nat \<Rightarrow> 'l"
  lb_shiftRight :: "'l \<Rightarrow> nat \<Rightarrow> 'l"
  lb_shiftRightUnsigned :: "'l \<Rightarrow> nat \<Rightarrow> 'l"
  lb_and :: "'l \<Rightarrow> 'l \<Rightarrow> 'l"
  lb_or :: "'l \<Rightarrow> 'l \<Rightarrow> 'l"
  lb_xor :: "'l \<Rightarrow> 'l \<Rightarrow> 'l"
  lb_negate :: "'l \<Rightarrow> 'l"
  lb_equals :: "'l \<Rightarrow> 'l \<Rightarrow> bool"
  lb_getLowBits :: "'l \<Rightarrow> int"
  lb_getHighBits :: "'l \<Rightarrow> int"
  lb_toNumber :: "'l \<Rightarrow> int"
  lb_fromBits :: "int \<Rightarrow> int \<Rightarrow> 'l"
  lb_add :: "'l \<Rightarrow> 'l \<Rightarrow> 'l"
  lb_subtract :: "'l \<Rightarrow> 'l \<Rightarrow> 'l"
  lb_multiply :: "'l \<Rightarrow> 'l \<Rightarrow> 'l"
  lb_divide :: "'l \<Rightarrow> 'l \<Rightarrow> 'l"
  lb_modulo :: "'l \<Rightarrow> 'l \<Rightarrow> 'l"
  lb_lessThan :: "'l \<Rightarrow> 'l \<Rightarrow> bool"
  lb_fromString :: "string \<Rightarrow> 'l"
  lb_toString :: "'l \<Rightarrow> string"
  lb_greaterThan :: "'l \<Rightarrow> 'l \<Rightarrow> bool"
  lb_compare :: "'l \<Rightarrow> 'l \<Rightarrow> int"
  lb_getHighBitsUnsigned :: "'l \<Rightarrow> int"
  lb_getLowBitsUnsigned :: "'l \<Rightarrow> int"

locale long_bits_laws =
  fixes B :: "'l long_bits" and word :: "'l \<Rightarrow> 64 word" and uns :: "'l \<Rightarrow> bool"
  assumes fromNumber: "in_long n \<Longrightarrow> word (lb_fromNumber B n) = word_of_int n"
    and fromInt: "- (2 ^ 31) \<le> n \<Longrightarrow> n < 2 ^ 31 \<Longrightarrow> word (lb_fromInt B n) = word_of_int n"
    and toUnsigned: "word (lb_toUnsigned B a) = word a"
    and shiftLeft: "k < 64 \<Longrightarrow> word (lb_shiftLeft B a k) = push_bit k (word a)"
    and shiftRight: "k < 64 \<Longrightarrow> word (lb_shiftRight B a k) = signed_drop_bit k (word a)"
    and shiftRightUnsigned: "k < 64 \<Longrightarrow> word (lb_shiftRightUnsigned B a k) = drop_bit k (word a)"
    and bit_and: "word (lb_and B a b) = word a AND word b"
    and bit_or: "word (lb_or B a b) = word a OR word b"
    and bit_xor: "word (lb_xor B a b) = word a XOR word b"
    and negate: "word (lb_negate B a) = - word a"
    and equals: "lb_equals B a b \<longleftrightarrow> word a = word b \<and> (uns a = uns b \<or> 0 \<le> sint (word a))"
    and getLowBits: "lb_getLowBits B a = to_int32 (uint (word a))"
    and getHighBits: "lb_getHighBits B a = to_int32 (uint (word a) div 2 ^ 32)"
    and toNumber: "\<not> uns a \<Longrightarrow> \<bar>sint (word a)\<bar> \<le> 2 ^ 53 \<Longrightarrow> lb_toNumber B a = sint (word a)"
    and fromBits: "word (lb_fromBits B lo hi) = word_of_int (hi * 2 ^ 32 + to_uint32 lo)"
    and add: "word (lb_add B a b) = word a + word b"
    and subtract: "word (lb_subtract B a b) = word a - word b"
    and multiply: "word (lb_multiply B a b) = word a * word b"
    and divide: "\<not> uns a \<Longrightarrow> \<not> uns b \<Longrightarrow> 0 \<le> sint (word a) \<Longrightarrow> 0 < sint (word b) \<Longrightarrow> word (lb_divide B a b) = word_of_int (sint (word a) div sint (word b))"
    and modulo: "\<not> uns a \<Longrightarrow> \<not> uns b \<Longrightarrow> 0 \<le> sint (word a) \<Longrightarrow> 0 < sint (word b) \<Longrightarrow> word (lb_modulo B a b) = word_of_int (sint (word a) mod sint (word b))"
    and lessThan: "\<not> uns a \<Longrightarrow> \<not> uns b \<Longrightarrow> lb_lessThan B a b \<longleftrightarrow> sint (word a) < sint (word b)"
    and fromString: "ds \<noteq> [] \<Longrightarrow> \<forall>c \<in> set ds. is_digit 10 c \<Longrightarrow> digits_value 10 ds < 2 ^ 63
      \<Longrightarrow> word (lb_fromString B ds) = word_of_int (int (digits_value 10 ds))"
    and toString: "\<not> uns a \<Longrightarrow> lb_toString B a = show_int (sint (word a))"
    and greaterThan: "\<not> uns a \<Longrightarrow> \<not> uns b \<Longrightarrow> lb_greaterThan B a b \<longleftrightarrow> sint (word b) < sint (word a)"
    and compare: "\<not> uns a \<Longrightarrow> \<not> uns b \<Longrightarrow> lb_compare B a b = sgn (sint (word a) - sint (word b))"
    and getHighBitsUnsigned: "lb_getHighBitsUnsigned B a = uint (word a) div 2 ^ 32"
    and getLowBitsUnsigned: "lb_getLowBitsUnsigned B a = uint (word a) mod 2 ^ 32"
    and signed_fromNumber: "\<not> uns (lb_fromNumber B n)"
    and signed_fromInt: "\<not> uns (lb_fromInt B n)"
    and signed_fromBits: "\<not> uns (lb_fromBits B lo hi)"
    and signed_fromString: "\<not> uns (lb_fromString B s)"
    and signed_shiftLeft: "\<not> uns a \<Longrightarrow> \<not> uns (lb_shiftLeft B a k)"
    and signed_shiftRightUnsigned: "\<not> uns a \<Longrightarrow> \<not> uns (lb_shiftRightUnsigned B a k)"
    and signed_or: "\<not> uns a \<Longrightarrow> \<not> uns (lb_or B a b)"
    and signed_xor: "\<not> uns a \<Longrightarrow> \<not> uns (lb_xor B a b)"
    and signed_add: "\<not> uns a \<Longrightarrow> \<not> uns (lb_add B a b)"
    and signed_multiply: "\<not> uns a \<Longrightarrow> \<not> uns (lb_multiply B a b)"
begin

lemmas signed_results = signed_fromNumber signed_fromInt signed_fromBits signed_fromString signed_shiftLeft signed_shiftRightUnsigned
  signed_or signed_xor signed_add signed_multiply

end

text \<open>The signed words alone satisfy the laws, with \<open>toUnsigned\<close> that does nothing.\<close>

definition word64_bits :: "64 word long_bits" where
  "word64_bits =
    \<lparr>lb_fromNumber = word_of_int, lb_fromInt = word_of_int, lb_toUnsigned = id, lb_shiftLeft = (\<lambda>a n. push_bit n a),
     lb_shiftRight = (\<lambda>a n. signed_drop_bit n a), lb_shiftRightUnsigned = (\<lambda>a n. drop_bit n a),
     lb_and = (AND), lb_or = (OR), lb_xor = (XOR), lb_negate = uminus, lb_equals = (=),
     lb_getLowBits = (\<lambda>a. to_int32 (uint a)), lb_getHighBits = (\<lambda>a. to_int32 (uint a div 2 ^ 32)),
     lb_toNumber = (\<lambda>a. js_round (sint a)), lb_fromBits = (\<lambda>lo hi. word_of_int (hi * 2 ^ 32 + to_uint32 lo)),
     lb_add = (+), lb_subtract = (-), lb_multiply = (*), lb_divide = (\<lambda>a b. word_of_int (sint a div sint b)),
     lb_modulo = (\<lambda>a b. word_of_int (sint a mod sint b)), lb_lessThan = (\<lambda>a b. sint a < sint b),
     lb_fromString = (\<lambda>s. word_of_int (int (digits_value 10 s))), lb_toString = (\<lambda>a. show_int (sint a)),
     lb_greaterThan = (\<lambda>a b. sint b < sint a), lb_compare = (\<lambda>a b. sgn (sint a - sint b)),
     lb_getHighBitsUnsigned = (\<lambda>a. uint a div 2 ^ 32), lb_getLowBitsUnsigned = (\<lambda>a. uint a mod 2 ^ 32)\<rparr>"

interpretation word64: long_bits_laws word64_bits id "\<lambda>_. False"
  by unfold_locales (simp_all add: word64_bits_def)

text \<open>
  The words with a flag satisfy them too: every operation keeps the flag of its first operand, and the value of an
  unsigned one is that of the unsigned word.
\<close>

type_synonym flag64 = "64 word \<times> bool"

definition flag64_value :: "flag64 \<Rightarrow> int" where
  "flag64_value a = (if snd a then uint (fst a) else sint (fst a))"

definition flag64_bits :: "flag64 long_bits" where
  "flag64_bits =
    \<lparr>lb_fromNumber = (\<lambda>n. (word_of_int n, False)), lb_fromInt = (\<lambda>n. (word_of_int n, False)), lb_toUnsigned = (\<lambda>a. (fst a, True)),
     lb_shiftLeft = (\<lambda>a n. (push_bit n (fst a), snd a)), lb_shiftRight = (\<lambda>a n. (signed_drop_bit n (fst a), snd a)),
     lb_shiftRightUnsigned = (\<lambda>a n. (drop_bit n (fst a), snd a)),
     lb_and = (\<lambda>a b. (fst a AND fst b, snd a)), lb_or = (\<lambda>a b. (fst a OR fst b, snd a)), lb_xor = (\<lambda>a b. (fst a XOR fst b, snd a)),
     lb_negate = (\<lambda>a. (- fst a, snd a)), lb_equals = (\<lambda>a b. fst a = fst b \<and> (snd a = snd b \<or> 0 \<le> sint (fst a))),
     lb_getLowBits = (\<lambda>a. to_int32 (uint (fst a))), lb_getHighBits = (\<lambda>a. to_int32 (uint (fst a) div 2 ^ 32)),
     lb_toNumber = (\<lambda>a. js_round (flag64_value a)), lb_fromBits = (\<lambda>lo hi. (word_of_int (hi * 2 ^ 32 + to_uint32 lo), False)),
     lb_add = (\<lambda>a b. (fst a + fst b, snd a)), lb_subtract = (\<lambda>a b. (fst a - fst b, snd a)), lb_multiply = (\<lambda>a b. (fst a * fst b, snd a)),
     lb_divide = (\<lambda>a b. (word_of_int (flag64_value a div flag64_value b), snd a)),
     lb_modulo = (\<lambda>a b. (word_of_int (flag64_value a mod flag64_value b), snd a)),
     lb_lessThan = (\<lambda>a b. flag64_value a < flag64_value b),
     lb_fromString = (\<lambda>s. (word_of_int (int (digits_value 10 s)), False)), lb_toString = (\<lambda>a. show_int (flag64_value a)),
     lb_greaterThan = (\<lambda>a b. flag64_value b < flag64_value a), lb_compare = (\<lambda>a b. sgn (flag64_value a - flag64_value b)),
     lb_getHighBitsUnsigned = (\<lambda>a. uint (fst a) div 2 ^ 32), lb_getLowBitsUnsigned = (\<lambda>a. uint (fst a) mod 2 ^ 32)\<rparr>"

interpretation flag64: long_bits_laws flag64_bits fst snd
  by unfold_locales
    (simp_all add: flag64_bits_def flag64_value_def)

end
