(* ===== verification/Timestamp_Generator.thy ===== *)
theory Timestamp_Generator
  imports Long_Package
begin

text \<open>
  \<^verbatim>\<open>src/lib/policies/timestamp-generation.js\<close>: client-side microsecond timestamps. A call of \<open>next\<close>
  is a step on the generator's state that consumes the clock readings it makes. The \<open>Long\<close>
  class of the \<open>long\<close> package is a parameter (\<^theory_text>\<open>Long_Package\<close>).
\<close>

section \<open>Model\<close>

datatype 'l timestamp = TsNumber int | TsLong 'l

record generator =
  warningThreshold :: int
  minLogInterval :: int
  micros :: int
  lastDate :: int
  lastLogDate :: int

definition maxSafeNumberDate :: int where
  "maxSafeNumberDate = 9007199254740"

text \<open>The constructor; \<open>None\<close> stands for an argument that is not given, and 0 counts as none for the threshold.\<close>

definition new_generator :: "int option \<Rightarrow> int option \<Rightarrow> generator result" where
  "new_generator wt mli =
    (case wt of
       Some w \<Rightarrow> if w < 0 then Inl ArgumentError
         else Inr \<lparr>warningThreshold = (if w = 0 then 1000 else w), minLogInterval = (case mli of None \<Rightarrow> 1000 | Some i \<Rightarrow> i),
                   micros = -1, lastDate = 0, lastLogDate = 0\<rparr>
     | None \<Rightarrow> Inr \<lparr>warningThreshold = 1000, minLogInterval = (case mli of None \<Rightarrow> 1000 | Some i \<Rightarrow> i),
                   micros = -1, lastDate = 0, lastLogDate = 0\<rparr>)"

definition generateMicroseconds :: "'l long_ops \<Rightarrow> generator \<Rightarrow> 'l timestamp" where
  "generateMicroseconds L g =
    (if lastDate g < maxSafeNumberDate then TsNumber (lastDate g * 1000 + micros g)
     else TsLong (long_add L (long_multiply L (long_fromNumber L (lastDate g)) (long_fromInt L 1000)) (long_fromInt L (micros g))))"

text \<open>
  The state and the drift after a reading \<open>now\<close> that is not past the last date, then one call of
  \<open>next\<close>: \<open>now\<close> is the first clock reading and \<open>logNow\<close> the one made when a warning is due.
  The result is the timestamp, the drift that was logged (if any) and the new state.
\<close>

definition advance :: "generator \<Rightarrow> int \<Rightarrow> generator \<times> int" where
  "advance g now =
    (let drifted = (if now < lastDate g then lastDate g - now else 0);
         date = (if now < lastDate g then lastDate g else now)
     in if micros g + 1 = 1000
        then if date = lastDate g then (g\<lparr>micros := 0, lastDate := date + 1\<rparr>, drifted + 1)
             else (g\<lparr>micros := 0, lastDate := date\<rparr>, drifted)
        else (g\<lparr>micros := micros g + 1, lastDate := date\<rparr>, drifted))"

definition next_timestamp ::
  "'l long_ops \<Rightarrow> generator \<Rightarrow> int \<Rightarrow> int \<Rightarrow> 'l timestamp \<times> int option \<times> generator" where
  "next_timestamp L g now logNow =
    (if now > lastDate g
     then let g' = g\<lparr>micros := 0, lastDate := now\<rparr> in (generateMicroseconds L g', None, g')
     else let (g', drifted) = advance g now; res = generateMicroseconds L g'
          in if drifted \<ge> warningThreshold g \<and> minLogInterval g > 0 \<and> lastLogDate g + minLogInterval g \<le> logNow
             then (res, Some drifted, g'\<lparr>lastLogDate := logNow\<rparr>)
             else (res, None, g'))"

text \<open>Successive calls, each with its two clock readings.\<close>

fun run_generator :: "'l long_ops \<Rightarrow> generator \<Rightarrow> (int \<times> int) list \<Rightarrow> ('l timestamp \<times> int option) list" where
  "run_generator L g [] = []"
| "run_generator L g ((now, logNow) # cs) =
    (let (ts, logged, g') = next_timestamp L g now logNow in (ts, logged) # run_generator L g' cs)"

section \<open>Laws\<close>

fun ts_value :: "('l \<Rightarrow> int) \<Rightarrow> 'l timestamp \<Rightarrow> int" where
  "ts_value val (TsNumber n) = n"
| "ts_value val (TsLong l) = val l"

definition generator_ok :: "generator \<Rightarrow> bool" where
  "generator_ok g \<longleftrightarrow> - 1 \<le> micros g \<and> micros g \<le> 999 \<and> 0 \<le> lastDate g"

definition clock :: "generator \<Rightarrow> int" where
  "clock g = lastDate g * 1000 + micros g"

lemma new_generator_ok: "new_generator wt mli = Inr g \<Longrightarrow> generator_ok g"
  by (auto simp: new_generator_def generator_ok_def split: option.splits if_splits)

lemma generateMicroseconds_value:
  assumes "long_laws L val" and "generator_ok g" and "lastDate g \<le> 9000000000000000"
  shows "ts_value val (generateMicroseconds L g) = clock g"
proof (cases "lastDate g < maxSafeNumberDate")
  case True
  then show ?thesis by (simp add: generateMicroseconds_def clock_def)
next
  case False
  have b: "0 \<le> lastDate g" "lastDate g \<le> 9000000000000000" "- 1 \<le> micros g" "micros g \<le> 999"
    using assms(2,3) by (simp_all add: generator_ok_def)
  note law = long_lawsD [OF assms(1)]
  have c: "val (long_fromNumber L (lastDate g)) = lastDate g" "val (long_fromInt L 1000) = 1000" "val (long_fromInt L (micros g)) = micros g"
    using b by (simp_all add: law(1,2) in_long_def)
  have m: "val (long_multiply L (long_fromNumber L (lastDate g)) (long_fromInt L 1000)) = lastDate g * 1000"
    using b c by (subst law(4)) (simp_all add: in_long_def)
  have "val (long_add L (long_multiply L (long_fromNumber L (lastDate g)) (long_fromInt L 1000)) (long_fromInt L (micros g)))
      = lastDate g * 1000 + micros g"
    using b c m by (subst law(5)) (simp_all add: in_long_def)
  then show ?thesis using False by (simp add: generateMicroseconds_def clock_def)
qed

lemma next_timestamp_state:
  assumes "generator_ok g" and "next_timestamp L g now logNow = (ts, logged, g')"
  shows "generator_ok g' \<and> ts = generateMicroseconds L g'
    \<and> clock g' = (if now > lastDate g then now * 1000 else clock g + 1)
    \<and> lastDate g' \<le> max now (lastDate g + 1)"
  using assms
  by (auto simp: next_timestamp_def advance_def Let_def generator_ok_def clock_def generateMicroseconds_def split: if_splits prod.splits)

lemma run_generator_lower:
  assumes "long_laws L val" and "generator_ok g" and "\<forall>c \<in> set cs. fst c \<le> m"
    and "max m (lastDate g) + int (length cs) \<le> 9000000000000000"
  shows "sorted_wrt (<) (clock g # map (\<lambda>(ts, _). ts_value val ts) (run_generator L g cs))
    \<and> (\<forall>((now, _), (ts, _)) \<in> set (zip cs (run_generator L g cs)). now * 1000 \<le> ts_value val ts)"
  using assms(2-)
proof (induction cs arbitrary: g m)
  case Nil
  then show ?case by simp
next
  case (Cons c cs)
  obtain now logNow where c: "c = (now, logNow)" by fastforce
  obtain ts logged g' where step: "next_timestamp L g now logNow = (ts, logged, g')" by (metis prod_cases3)
  have st: "generator_ok g'" "ts = generateMicroseconds L g'"
    "clock g' = (if now > lastDate g then now * 1000 else clock g + 1)" "lastDate g' \<le> max now (lastDate g + 1)"
    using next_timestamp_state [OF Cons.prems(1) step] by blast+
  have now: "now \<le> m" using Cons.prems(2) c by simp
  have "lastDate g' \<le> max m (lastDate g) + 1" using st(4) now by linarith
  then have bounds: "max m (lastDate g') + int (length cs) \<le> 9000000000000000" "lastDate g' \<le> 9000000000000000"
    using Cons.prems(3) by (auto simp: max_def split: if_splits)
  have val: "ts_value val ts = clock g'" unfolding st(2) by (rule generateMicroseconds_value [OF assms(1) st(1) bounds(2)])
  have gt: "clock g < clock g'" "now * 1000 \<le> clock g'"
    using st(3) Cons.prems(1) by (auto simp: clock_def generator_ok_def)
  have IH: "sorted_wrt (<) (clock g' # map (\<lambda>(ts, _). ts_value val ts) (run_generator L g' cs))
    \<and> (\<forall>((now, _), (ts, _)) \<in> set (zip cs (run_generator L g' cs)). now * 1000 \<le> ts_value val ts)"
    using Cons.IH [OF st(1) _ bounds(1)] Cons.prems(2) by simp
  then show ?case using gt val by (auto simp: c step dest: order.strict_trans)
qed

text \<open>The readings at which a warning was logged.\<close>

definition log_times :: "(int \<times> int) list \<Rightarrow> ('l timestamp \<times> int option) list \<Rightarrow> int list" where
  "log_times cs outs = map (snd \<circ> fst) (filter (\<lambda>(_, (_, logged)). logged \<noteq> None) (zip cs outs))"

lemma next_timestamp_log:
  assumes "next_timestamp L g now logNow = (ts, logged, g')"
  shows "minLogInterval g' = minLogInterval g"
    and "logged \<noteq> None \<Longrightarrow> lastLogDate g + minLogInterval g \<le> logNow \<and> 0 < minLogInterval g \<and> lastLogDate g' = logNow"
    and "logged = None \<Longrightarrow> lastLogDate g' = lastLogDate g"
  using assms by (auto simp: next_timestamp_def advance_def Let_def split: if_splits prod.splits)

lemma log_times_spaced:
  "sorted_wrt (\<lambda>a b. a + minLogInterval g \<le> b) (lastLogDate g # log_times cs (run_generator L g cs))
    \<and> (log_times cs (run_generator L g cs) \<noteq> [] \<longrightarrow> 0 < minLogInterval g)"
proof (induction cs arbitrary: g)
  case Nil
  then show ?case by (simp add: log_times_def)
next
  case (Cons c cs)
  obtain now logNow where c: "c = (now, logNow)" by fastforce
  obtain ts logged g' where step: "next_timestamp L g now logNow = (ts, logged, g')" by (metis prod_cases3)
  note log = next_timestamp_log [OF step]
  have eq: "log_times (c # cs) (run_generator L g (c # cs))
      = (if logged \<noteq> None then [logNow] else []) @ log_times cs (run_generator L g' cs)"
    by (simp add: c step log_times_def)
  show ?case
  proof (cases "logged = None")
    case True
    then show ?thesis using Cons.IH [of g'] log unfolding eq by auto
  next
    case False
    then have "lastLogDate g + minLogInterval g \<le> logNow" "0 < minLogInterval g" "lastLogDate g' = logNow"
      using log(2) by auto
    then show ?thesis using False Cons.IH [of g'] log(1) unfolding eq by fastforce
  qed
qed

section \<open>Properties\<close>

text \<open>
  C34: The timestamps a generator returns are strictly increasing for any sequence of clock readings, also
  when the clock stands still or goes back, and none is before the reading it was made from. The bound on the
  dates keeps the microseconds within 64 bits; it leaves room for \<open>3 * 10 ^ 14\<close> calls after the largest date of the
  language.
\<close>

theorem timestamps_monotonic:
  assumes "long_laws L val" and "new_generator wt mli = Inr g" and "\<forall>c \<in> set cs. fst c \<le> 8640000000000000"
    and "length cs \<le> 300000000000000"
  shows "sorted_wrt (<) (map (\<lambda>(ts, _). ts_value val ts) (run_generator L g cs))
    \<and> (\<forall>((now, _), (ts, _)) \<in> set (zip cs (run_generator L g cs)). now * 1000 \<le> ts_value val ts)"
proof -
  have "lastDate g = 0" using assms(2) by (auto simp: new_generator_def split: option.splits if_splits)
  then show ?thesis
    using run_generator_lower [OF assms(1) new_generator_ok [OF assms(2)] assms(3)] assms(4) by simp
qed

theorem timestamps_monotonic_witness:
  "sorted_wrt (<) (map (\<lambda>(ts, _). ts_value sint ts)
    (run_generator word64_long \<lparr>warningThreshold = 1000, minLogInterval = 1000, micros = -1, lastDate = 0, lastLogDate = 0\<rparr>
      [(9007199254741, 0), (9007199254741, 0), (5, 7000)]))"
  using timestamps_monotonic [OF word64_long_laws, of None None
      "\<lparr>warningThreshold = 1000, minLogInterval = 1000, micros = -1, lastDate = 0, lastLogDate = 0\<rparr>"
      "[(9007199254741, 0), (9007199254741, 0), (5, 7000)]"]
  by (simp add: new_generator_def)

text \<open>
  Warnings are throttled: any two warnings are logged at readings at least the minimum interval apart,
  the first one at least that interval after the epoch, and none is logged when the interval is below 1.
\<close>

theorem warnings_throttled:
  "sorted_wrt (\<lambda>a b. a + minLogInterval g \<le> b) (lastLogDate g # log_times cs (run_generator L g cs))
    \<and> (minLogInterval g < 1 \<longrightarrow> log_times cs (run_generator L g cs) = [])"
  using log_times_spaced [of g cs L] by auto

theorem warnings_throttled_witness:
  "log_times [(10, 50), (5, 60)] (run_generator word64_long
    \<lparr>warningThreshold = 1, minLogInterval = 0, micros = -1, lastDate = 0, lastLogDate = 0\<rparr> [(10, 50), (5, 60)]) = []"
  using warnings_throttled [of "\<lparr>warningThreshold = 1, minLogInterval = 0, micros = -1, lastDate = 0, lastLogDate = 0\<rparr>"
      "[(10, 50), (5, 60)]" word64_long] by simp

end
