(* ===== verification/Policies.thy ===== *)
theory Policies
  imports Js_Prelude
begin

text \<open>
  The small policies of \<^verbatim>\<open>src/lib/policies\<close>: retry (\<^verbatim>\<open>retry.js\<close>), reconnection
  (\<^verbatim>\<open>reconnection.js\<close>), speculative execution (\<^verbatim>\<open>speculative-execution.js\<close>) and address
  translation (\<^verbatim>\<open>address-resolution.js\<close>).
\<close>

section \<open>Retry\<close>

datatype retry_decision = Rethrow | Retry | Ignore

fun decision_code :: "retry_decision \<Rightarrow> int" where
  "decision_code Rethrow = 0"
| "decision_code Retry = 1"
| "decision_code Ignore = 2"

text \<open>\<open>DecisionInfo\<close>: a field that is absent is \<open>None\<close>.\<close>

record decision_info =
  decision :: retry_decision
  retry_consistency :: "int option"
  useCurrentHost :: "bool option"

definition retryResult :: "int option \<Rightarrow> bool option \<Rightarrow> decision_info" where
  "retryResult cons cur = \<lparr>decision = Retry, retry_consistency = cons, useCurrentHost = Some (cur \<noteq> Some False)\<rparr>"

definition rethrowResult :: decision_info where
  "rethrowResult = \<lparr>decision = Rethrow, retry_consistency = None, useCurrentHost = None\<rparr>"

text \<open>The failures a policy is asked about.\<close>

datatype failure =
    Unavailable int int
  | ReadTimeout int int bool
  | WriteTimeout int int string
  | RequestError

definition onUnavailable :: "nat \<Rightarrow> int \<Rightarrow> int \<Rightarrow> decision_info" where
  "onUnavailable nbRetry required alive =
    (if nbRetry > 0 then rethrowResult else retryResult None (Some False))"

definition onReadTimeout :: "nat \<Rightarrow> int \<Rightarrow> int \<Rightarrow> bool \<Rightarrow> decision_info" where
  "onReadTimeout nbRetry received blockFor isDataPresent =
    (if nbRetry > 0 then rethrowResult
     else if received \<ge> blockFor \<and> \<not> isDataPresent then retryResult None None else rethrowResult)"

definition onWriteTimeout :: "nat \<Rightarrow> int \<Rightarrow> int \<Rightarrow> string \<Rightarrow> decision_info" where
  "onWriteTimeout nbRetry received blockFor writeType =
    (if nbRetry > 0 then rethrowResult
     else if writeType = ''BATCH_LOG'' then retryResult None None else rethrowResult)"

definition onRequestError :: "nat \<Rightarrow> decision_info" where
  "onRequestError nbRetry = retryResult None (Some False)"

definition default_retry :: "nat \<Rightarrow> failure \<Rightarrow> decision_info" where
  "default_retry nbRetry f =
    (case f of
       Unavailable required alive \<Rightarrow> onUnavailable nbRetry required alive
     | ReadTimeout received blockFor present \<Rightarrow> onReadTimeout nbRetry received blockFor present
     | WriteTimeout received blockFor wt \<Rightarrow> onWriteTimeout nbRetry received blockFor wt
     | RequestError \<Rightarrow> onRequestError nbRetry)"

definition fallthrough_retry :: "nat \<Rightarrow> failure \<Rightarrow> decision_info" where
  "fallthrough_retry nbRetry f = rethrowResult"

definition new_idempotence_aware :: "unit \<Rightarrow> decision_info result" where
  "new_idempotence_aware childPolicy = Inl ReferenceError"

section \<open>Reconnection\<close>

text \<open>
  The schedules are infinite iterators; a constant one has no state, an exponential one the index of the
  next attempt. \<open>Math.random()\<close> is the fraction \<open>k / n\<close> with \<open>0 \<le> k < n\<close>, percentages are integers and
  the product with the delay is exact before it is rounded down.
\<close>

definition constant_next :: "int \<Rightarrow> int" where
  "constant_next delay = delay"

record exp_policy =
  baseDelay :: int
  maxDelay :: int
  startWithNoDelay :: bool

definition exp_start :: "exp_policy \<Rightarrow> int" where
  "exp_start p = (if startWithNoDelay p then -1 else 0)"

definition exp_delay :: "exp_policy \<Rightarrow> int \<Rightarrow> int" where
  "exp_delay p index =
    (if index \<ge> 64 then maxDelay p
     else if index \<noteq> -1 then min (2 ^ nat index * baseDelay p) (maxDelay p)
     else 0)"

definition jitter_band :: "exp_policy \<Rightarrow> int \<Rightarrow> int \<times> int" where
  "jitter_band p v =
    (if \<not> startWithNoDelay p \<and> v = baseDelay p then (100, 15)
     else if v = maxDelay p then (85, 15)
     else (85, 30))"

definition addJitter :: "exp_policy \<Rightarrow> int \<times> int \<Rightarrow> int \<Rightarrow> int" where
  "addJitter p rnd v =
    (if v = 0 then v
     else let (k, n) = rnd; (minPercentage, range) = jitter_band p v
          in (v * (k * range + minPercentage * n)) div (100 * n))"

definition exp_next :: "exp_policy \<Rightarrow> int \<times> int \<Rightarrow> int \<Rightarrow> int \<times> int" where
  "exp_next p rnd index = (addJitter p rnd (exp_delay p index), index + 1)"

fun exp_schedule :: "exp_policy \<Rightarrow> int \<Rightarrow> (int \<times> int) list \<Rightarrow> int list" where
  "exp_schedule p index [] = []"
| "exp_schedule p index (r # rs) = (let (d, index') = exp_next p r index in d # exp_schedule p index' rs)"

section \<open>Speculative execution\<close>

record spec_policy =
  spec_delay :: int
  maxSpeculativeExecutions :: int

definition new_constant_spec :: "int \<Rightarrow> int \<Rightarrow> spec_policy result" where
  "new_constant_spec delay m =
    (if \<not> delay \<ge> 0 then Inl ArgumentError
     else if \<not> m > 0 then Inl ArgumentError
     else Inr \<lparr>spec_delay = delay, maxSpeculativeExecutions = m\<rparr>)"

text \<open>\<open>nextExecution\<close> of a plan: the answer and the plan's counter, which every call increments.\<close>

definition nextExecution :: "spec_policy \<Rightarrow> int \<Rightarrow> int \<times> int" where
  "nextExecution p executions =
    (if executions < maxSpeculativeExecutions p then (spec_delay p, executions + 1) else (-1, executions + 1))"

definition no_spec_next :: int where
  "no_spec_next = -1"

fun spec_plan :: "spec_policy \<Rightarrow> int \<Rightarrow> nat \<Rightarrow> int list" where
  "spec_plan p executions 0 = []"
| "spec_plan p executions (Suc k) = (let (d, executions') = nextExecution p executions in d # spec_plan p executions' k)"

section \<open>Address translation\<close>

text \<open>
  \<open>dns.reverse\<close> and \<open>dns.lookup\<close> are parameters: each answers with an error or a result, where
  \<open>None\<close> is a missing list of host names.
\<close>

definition endpoint :: "string \<Rightarrow> int \<Rightarrow> string" where
  "endpoint address port = address @ '':'' @ show_int port"

definition translate :: "string \<Rightarrow> int \<Rightarrow> string" where
  "translate address port = endpoint address port"

text \<open>The result and whether \<open>logError\<close> was called.\<close>

definition ec2_translate ::
  "(string \<Rightarrow> js_error + string list option) \<Rightarrow> (string \<Rightarrow> js_error + string) \<Rightarrow> string \<Rightarrow> int \<Rightarrow> string \<times> bool" where
  "ec2_translate dns_reverse dns_lookup address port =
    (case dns_reverse address of
       Inl e \<Rightarrow> (endpoint address port, True)
     | Inr names \<Rightarrow>
         (case names of
            Some (name # _) \<Rightarrow>
              if name = [] then (endpoint address port, False)
              else (case dns_lookup name of
                      Inl e \<Rightarrow> (endpoint address port, True)
                    | Inr lookupAddress \<Rightarrow> (endpoint lookupAddress port, False))
          | _ \<Rightarrow> (endpoint address port, False)))"

section \<open>Laws\<close>


subsection \<open>Retry policies\<close>

text \<open>
  The contract of the retry policies: the failure of a request that was already retried is rethrown
  unless it is a request error. How often a request is retried over a list of failures follows.
\<close>

fun retries :: "(nat \<Rightarrow> failure \<Rightarrow> decision_info) \<Rightarrow> nat \<Rightarrow> failure list \<Rightarrow> nat" where
  "retries decide n [] = 0"
| "retries decide n (f # fs) = (if decision (decide n f) = Retry then Suc (retries decide (Suc n) fs) else 0)"

locale retry_policy =
  fixes decide :: "nat \<Rightarrow> failure \<Rightarrow> decision_info"
  assumes rethrow_after_retry: "0 < n \<Longrightarrow> f \<noteq> RequestError \<Longrightarrow> decision (decide n f) = Rethrow"
    and never_ignore: "decision (decide n f) \<noteq> Ignore"
    and keep_consistency: "retry_consistency (decide n f) = None"
begin

lemma retries_after: "0 < n \<Longrightarrow> retries decide n fs \<le> length (filter (\<lambda>f. f = RequestError) fs)"
proof (induction fs arbitrary: n)
  case (Cons f fs)
  then show ?case by (cases "f = RequestError") (simp_all add: rethrow_after_retry)
qed simp

lemma retries_bound: "retries decide n fs \<le> Suc (length (filter (\<lambda>f. f = RequestError) fs))"
  using retries_after [of "Suc n" "tl fs"] by (cases fs) (auto intro: le_SucI)

end

lemmas retry_defs = default_retry_def onUnavailable_def onReadTimeout_def onWriteTimeout_def onRequestError_def
  retryResult_def rethrowResult_def fallthrough_retry_def

interpretation default_policy: retry_policy default_retry
  by unfold_locales (auto simp: retry_defs split: failure.split)

interpretation fallthrough_policy: retry_policy fallthrough_retry
  by unfold_locales (auto simp: retry_defs)

subsection \<open>Delays\<close>

lemma exp_delay_pos:
  "0 < baseDelay p \<Longrightarrow> baseDelay p \<le> maxDelay p \<Longrightarrow> 0 \<le> index \<Longrightarrow>
    baseDelay p \<le> exp_delay p index \<and> exp_delay p index \<le> maxDelay p"
proof -
  assume h: "0 < baseDelay p" "baseDelay p \<le> maxDelay p" "0 \<le> index"
  have "1 * baseDelay p \<le> 2 ^ nat index * baseDelay p" using h by (intro mult_right_mono) simp_all
  then show ?thesis using h by (simp add: exp_delay_def)
qed

lemma addJitter_bounds:
  assumes "0 < v" and "0 \<le> k" and "k < n" and "jitter_band p v = (m, r)" and "0 \<le> r"
  shows "v * m div 100 \<le> addJitter p (k, n) v" and "100 * addJitter p (k, n) v \<le> v * (m + r)"
proof -
  define x where "x = v * (k * r + m * n)"
  have eq: "addJitter p (k, n) v = x div (100 * n)" using assms by (simp add: addJitter_def x_def)
  have kr: "0 \<le> k * r" "k * r \<le> n * r" using assms by (simp_all add: mult_right_mono)
  have "v * (m * n) \<le> x" unfolding x_def using assms(1) kr by (intro mult_left_mono) simp_all
  then have "v * m * n div (100 * n) \<le> x div (100 * n)" using assms(2,3) by (intro zdiv_mono1) (simp_all add: mult.assoc)
  moreover have "v * m * n div (100 * n) = v * m div 100" using assms(2,3) by simp
  ultimately show "v * m div 100 \<le> addJitter p (k, n) v" by (simp add: eq)
  have "x \<le> v * (n * r + m * n)" unfolding x_def using assms(1) kr by (intro mult_left_mono) simp_all
  also have "\<dots> = (v * (m + r)) * n" by (simp add: algebra_simps)
  finally have "x \<le> (v * (m + r)) * n" .
  moreover have "(x div (100 * n)) * (100 * n) \<le> x"
    using div_mult_mod_eq [of x "100 * n"] pos_mod_sign [of "100 * n" x] assms(2,3) by linarith
  ultimately have "(100 * (x div (100 * n))) * n \<le> (v * (m + r)) * n" by (simp add: mult_ac)
  then have "100 * (x div (100 * n)) \<le> v * (m + r)" using assms(2,3) by (rule_tac mult_right_le_imp_le [of _ n]) simp_all
  then show "100 * addJitter p (k, n) v \<le> v * (m + r)" by (simp add: eq)
qed

section \<open>Properties\<close>

text \<open>
  C36: The default retry policy retries a request at most once over any sequence of server failures, and
  every further retry is due to a request error; it never ignores a failure and never changes the
  consistency. The fall-through policy never retries.
\<close>

theorem retry_bounded:
  "retries default_retry n fs \<le> Suc (length (filter (\<lambda>f. f = RequestError) fs))
    \<and> retries fallthrough_retry n fs = 0
    \<and> decision (default_retry n f) \<noteq> Ignore \<and> retry_consistency (default_retry n f) = None"
  using default_policy.retries_bound [of n fs] default_policy.never_ignore [of n f] default_policy.keep_consistency [of n f]
  by (cases fs) (simp_all add: fallthrough_retry_def rethrowResult_def)

text \<open>
  When the default policy retries. An unavailable error and a request error go to the next host; a read
  timeout is retried on the same host when enough replicas answered without data, a write timeout when it
  was the batch log's.
\<close>

theorem default_retry_decisions:
  "(decision (default_retry n (Unavailable req alive)) = Retry \<longleftrightarrow> n = 0)
    \<and> (decision (default_retry n (ReadTimeout rcv blk present)) = Retry \<longleftrightarrow> n = 0 \<and> blk \<le> rcv \<and> \<not> present)
    \<and> (decision (default_retry n (WriteTimeout rcv blk wt)) = Retry \<longleftrightarrow> n = 0 \<and> wt = ''BATCH_LOG'')
    \<and> decision (default_retry n RequestError) = Retry
    \<and> useCurrentHost (default_retry 0 (Unavailable req alive)) = Some False
    \<and> useCurrentHost (default_retry 0 (ReadTimeout 1 1 False)) = Some True
    \<and> useCurrentHost (default_retry n RequestError) = Some False"
  by (simp add: retry_defs)

text \<open>
  C35: Bounds of the delays of an exponential schedule with a positive base delay that is not above the maximum. The
  delay at index \<open>-1\<close>, the first of a schedule that starts with no delay, is 0. Every other delay is, rounded down,
  within 15 percent of the exponential one, which lies between the base and the maximum delay. A delay whose
  exponential value is the base is not below the base unless the schedule starts with no delay, and one whose
  exponential value is the maximum is not raised above it unless the maximum is the base too and the schedule does not
  start with no delay.
\<close>

theorem exp_delay_bounds:
  assumes "0 < baseDelay p" and "baseDelay p \<le> maxDelay p" and "exp_start p \<le> index" and "0 \<le> k" and "k < n"
    and "v = exp_delay p index" and "d = fst (exp_next p (k, n) index)"
  shows "if index = -1 then startWithNoDelay p \<and> d = 0
    else baseDelay p \<le> v \<and> v \<le> maxDelay p \<and> v * 85 div 100 \<le> d \<and> 100 * d \<le> v * 115
      \<and> (\<not> startWithNoDelay p \<and> v = baseDelay p \<longrightarrow> baseDelay p \<le> d)
      \<and> (v = maxDelay p \<and> (startWithNoDelay p \<or> v \<noteq> baseDelay p) \<longrightarrow> d \<le> maxDelay p)"
proof (cases "index = -1")
  case True
  then show ?thesis using assms(3,6,7)
    by (simp add: exp_start_def exp_next_def exp_delay_def addJitter_def split: if_splits)
next
  case False
  then have index: "0 \<le> index" using assms(3) by (simp add: exp_start_def split: if_splits)
  have v: "baseDelay p \<le> v" "v \<le> maxDelay p" using exp_delay_pos [OF assms(1,2) index] assms(6) by simp_all
  have d: "d = addJitter p (k, n) v" by (simp add: assms(6,7) exp_next_def)
  obtain m r where band: "jitter_band p v = (m, r)" by fastforce
  have mr: "(m, r) \<in> {(100, 15), (85, 15), (85, 30)}" using band by (auto simp: jitter_band_def split: if_splits)
  then have b: "v * m div 100 \<le> d" "100 * d \<le> v * (m + r)"
    using addJitter_bounds [OF _ assms(4,5) band] v assms(1) d by auto
  have "v * 85 div 100 \<le> v * m div 100" using mr v assms(1) by (intro zdiv_mono1 mult_left_mono) auto
  moreover have "v * (m + r) \<le> v * 115" using mr v assms(1) by (intro mult_left_mono) auto
  ultimately have "v * 85 div 100 \<le> d" "100 * d \<le> v * 115" using b by linarith+
  moreover have "baseDelay p \<le> d" if "\<not> startWithNoDelay p" "v = baseDelay p"
    using that b(1) band by (simp add: jitter_band_def)
  moreover have "d \<le> maxDelay p" if "v = maxDelay p" "startWithNoDelay p \<or> v \<noteq> baseDelay p"
    using that b(2) band by (auto simp: jitter_band_def)
  ultimately have "baseDelay p \<le> v \<and> v \<le> maxDelay p \<and> v * 85 div 100 \<le> d \<and> 100 * d \<le> v * 115
      \<and> (\<not> startWithNoDelay p \<and> v = baseDelay p \<longrightarrow> baseDelay p \<le> d)
      \<and> (v = maxDelay p \<and> (startWithNoDelay p \<or> v \<noteq> baseDelay p) \<longrightarrow> d \<le> maxDelay p)" using v by blast
  then show ?thesis unfolding if_not_P [OF False] .
qed

theorem exp_delay_bounds_witness:
  "100 * fst (exp_next \<lparr>baseDelay = 1000, maxDelay = 600000, startWithNoDelay = False\<rparr> (1, 2) 3) \<le> 8000 * 115"
  using exp_delay_bounds [of "\<lparr>baseDelay = 1000, maxDelay = 600000, startWithNoDelay = False\<rparr>" 3 1 2 8000]
  by (simp add: exp_delay_def exp_start_def)

text \<open>
  The jitter can raise a delay above the maximum and, when the schedule starts with no delay, lower one
  below the base delay.
\<close>

theorem exp_jitter_leaves_bounds:
  "fst (exp_next \<lparr>baseDelay = 1000, maxDelay = 2100, startWithNoDelay = False\<rparr> (9, 10) 1) = 2240
    \<and> fst (exp_next \<lparr>baseDelay = 1000, maxDelay = 60000, startWithNoDelay = True\<rparr> (0, 1) 0) = 850"
  by (simp add: exp_next_def addJitter_def exp_delay_def jitter_band_def)

text \<open>
  A plan of the constant speculative execution policy answers the delay for exactly the configured number
  of executions and -1 ever after; the constructor refuses a negative delay and a number that is not positive.
\<close>

theorem spec_plan_executions:
  "(case new_constant_spec delay m of
      Inr p \<Rightarrow> 0 \<le> delay \<and> 0 < m \<and> spec_plan p 0 k = replicate (min k (nat m)) delay @ replicate (k - nat m) (-1)
    | Inl e \<Rightarrow> (delay < 0 \<or> m \<le> 0) \<and> e = ArgumentError)"
proof -
  have "spec_plan p i k = replicate (min k (nat (maxSpeculativeExecutions p - i))) (spec_delay p)
      @ replicate (k - nat (maxSpeculativeExecutions p - i)) (-1)" for p i
  proof (induction k arbitrary: i)
    case (Suc k)
    show ?case
    proof (cases "i < maxSpeculativeExecutions p")
      case True
      define j where "j = nat (maxSpeculativeExecutions p - (i + 1))"
      have "nat (maxSpeculativeExecutions p - i) = Suc j" using True by (simp add: j_def)
      moreover have "spec_plan p i (Suc k) = spec_delay p # spec_plan p (i + 1) k"
        using True by (simp add: nextExecution_def)
      ultimately show ?thesis using Suc.IH [of "i + 1"] unfolding j_def [symmetric] by simp
    next
      case False
      then show ?thesis using Suc.IH [of "i + 1"] by (simp add: nextExecution_def)
    qed
  qed simp
  then show ?thesis by (simp add: new_constant_spec_def)
qed

end
