(* ===== verification/Inet_Address.thy ===== *)
theory Inet_Address
  imports Js_Prelude
begin

text \<open>
  \<^verbatim>\<open>src/lib/types/inet-address.js\<close>: IPv4 and IPv6 addresses, which the class keeps as a buffer
  of 4 or 16 bytes in its Rust object (\<^verbatim>\<open>src/src/types/inet.rs\<close>). Parsing and printing are modelled
  completely; the two regular expressions are modelled by the texts they accept.
\<close>

section \<open>The address\<close>

text \<open>The constructor refuses every other length with a \<open>TypeError\<close>; an address is its buffer.\<close>

definition new_inet :: "buffer \<Rightarrow> buffer result" where
  "new_inet buf = (if length buf = 4 \<or> length buf = 16 then Inr buf else Inl TypeError)"

definition inet_length :: "buffer \<Rightarrow> nat" where
  "inet_length a = (if length a = 4 then 4 else 16)"

definition inet_version :: "buffer \<Rightarrow> nat" where
  "inet_version a = (if length a = 4 then 4 else 6)"

definition inet_equals :: "buffer \<Rightarrow> buffer \<Rightarrow> bool" where
  "inet_equals a b \<longleftrightarrow> length a = length b \<and> a = b"

section \<open>Parsing\<close>

text \<open>
  \<open>(25[0-5]|(2[0-4]|1\d|[1-9]|)\d)\<close>: a decimal numeral up to 255 without leading zeros. With
  \<open>\.?\b\<close> after each of the four, a dot has to stand between two of them and none after the last.
\<close>

definition octet_text :: "string \<Rightarrow> bool" where
  "octet_text s \<longleftrightarrow> s \<noteq> [] \<and> list_all (is_digit 10) s \<and> length s \<le> 3 \<and> digits_value 10 s \<le> 255
    \<and> (length s > 1 \<longrightarrow> hd s \<noteq> CHR ''0'')"

definition ipv4_text :: "string \<Rightarrow> bool" where
  "ipv4_text s \<longleftrightarrow> length (split_on (CHR ''.'') s) = 4 \<and> list_all octet_text (split_on (CHR ''.'') s)"

definition ipv6_chars :: "string \<Rightarrow> bool" where
  "ipv6_chars s \<longleftrightarrow> s \<noteq> [] \<and> list_all (\<lambda>c. is_digit 16 c \<or> c = CHR '':'' \<or> c = CHR ''.'') s"

definition octets :: "string \<Rightarrow> buffer" where
  "octets s = map (\<lambda>p. int (digits_value 10 p)) (split_on (CHR ''.'') s)"

text \<open>
  The state of the loop is the list of bytes written so far, whose length is the offset: the writes are
  contiguous from 0. \<open>writeUInt16BE\<close> raises beyond the buffer and on a value above \<open>0xffff\<close>, and writes 0
  for \<open>NaN\<close>; a store by index beyond the buffer is ignored.
\<close>

definition write_uint16 :: "js_number \<Rightarrow> buffer \<Rightarrow> buffer result" where
  "write_uint16 v out =
    (if length out + 2 > 16 then Inl RangeError
     else case v of
         JsInt n \<Rightarrow> if 0 \<le> n \<and> n \<le> 65535 then Inr (out @ [n div 256, n mod 256]) else Inl RangeError
       | JsNaN \<Rightarrow> Inr (out @ [0, 0])
       | JsInfinity \<Rightarrow> Inl RangeError)"

fun write_items :: "buffer \<Rightarrow> buffer \<Rightarrow> buffer result" where
  "write_items [] out = Inr out"
| "write_items (b # bs) out = (if length out \<ge> 16 then Inl RangeError else write_items bs (out @ [b]))"

fun parts_loop :: "bool \<Rightarrow> string list \<Rightarrow> int \<Rightarrow> bool \<Rightarrow> buffer \<Rightarrow> buffer result" where
  "parts_loop embeddedIp4 [] filling applied out = Inr out"
| "parts_loop embeddedIp4 (item # items) filling applied out =
    (if item \<noteq> []
     then if embeddedIp4 \<and> items = [] then write_items (octets item) out
          else bind_result (write_uint16 (js_parseInt item 16) out)
            (\<lambda>out'. parts_loop embeddedIp4 items filling applied out')
     else let filling' = (if applied then 1 else filling)
          in parts_loop embeddedIp4 items filling' True (out @ replicate (2 * nat filling') 0))"

definition isValidIPv4Mapped :: "buffer \<Rightarrow> bool" where
  "isValidIPv4Mapped buf \<longleftrightarrow> list_all (\<lambda>b. b = 0) (take (length buf - 6) buf) \<and> \<not> (buf ! 10 \<noteq> 255 \<or> buf ! 11 \<noteq> 255)"

text \<open>\<open>junk\<close> is the content of the buffer that is allocated without being cleared.\<close>

definition inet_fromString :: "buffer \<Rightarrow> string \<Rightarrow> buffer result" where
  "inet_fromString junk value =
    (if value = [] then new_inet [0, 0, 0, 0]
     else if ipv4_text value then new_inet (octets value)
     else if \<not> ipv6_chars value then Inl TypeError
     else let parts = split_on (CHR '':'') value in
       if length parts < 3 then Inl TypeError
       else let embeddedIp4 = ipv4_text (last parts);
                filling = 8 - int (length parts) + 1 - (if embeddedIp4 then 1 else 0)
            in bind_result (parts_loop embeddedIp4 parts filling False [])
              (\<lambda>out. let buf = take 16 out @ drop (length out) junk
                in if embeddedIp4 \<and> \<not> isValidIPv4Mapped buf then Inl TypeError else new_inet buf))"

section \<open>Printing\<close>

text \<open>The search for the longest group of zeros: the state is \<open>start\<close>, \<open>longest.length\<close> and \<open>longest.start\<close>.\<close>

record zero_scan =
  zstart :: int
  zlength :: int
  zlongest :: int

definition checkLongest :: "int \<Rightarrow> zero_scan \<Rightarrow> zero_scan" where
  "checkLongest i z =
    (if zstart z \<ge> 0 \<and> i - zstart z > zlength z
     then \<lparr>zstart = -1, zlength = i - zstart z, zlongest = zstart z\<rparr> else z)"

definition scan_step :: "buffer \<Rightarrow> zero_scan \<Rightarrow> nat \<Rightarrow> zero_scan" where
  "scan_step buf z g =
    (let i = 2 * int g in
     if buf ! (2 * g) = 0 \<and> buf ! (2 * g + 1) = 0
     then let z' = (if zstart z < 0 then z\<lparr>zstart := i\<rparr> else z)
          in if i = int (length buf) - 2 then checkLongest (i + 2) z' else z'
     else checkLongest i z)"

definition scan_zeros :: "buffer \<Rightarrow> zero_scan" where
  "scan_zeros buf = foldl (scan_step buf) \<lparr>zstart = -1, zlength = 0, zlongest = -1\<rparr> [0..<length buf div 2]"

definition group_at :: "buffer \<Rightarrow> nat \<Rightarrow> nat" where
  "group_at buf g = nat (js_or (js_shl (buf ! (2 * g)) 8) (buf ! (2 * g + 1)))"

definition print_step :: "buffer \<Rightarrow> zero_scan \<Rightarrow> string \<Rightarrow> nat \<Rightarrow> string" where
  "print_step buf z address g =
    (let h = 2 * int g in
     if h = zlongest z then address @ '':''
     else if h < zlongest z + zlength z \<and> h > zlongest z then address
     else (if address \<noteq> [] then address @ '':'' else address) @ show_radix 16 (group_at buf g))"

definition inet_toString :: "bool \<Rightarrow> buffer \<Rightarrow> string" where
  "inet_toString hex buf =
    (if hex then hex_text buf
     else if length buf = 4 then join_on (CHR ''.'') (map (\<lambda>b. show_radix 10 (nat b)) buf)
     else let address = foldl (print_step buf (scan_zeros buf)) [] [0..<length buf div 2]
          in if address \<noteq> [] \<and> last address = CHR '':'' then address @ '':'' else address)"

section \<open>IPv4\<close>

lemma show_radix_octet:
  assumes "n \<le> 255"
  shows "octet_text (show_radix 10 n)"
proof -
  have spec: "\<forall>c \<in> set (show_radix 10 n). is_digit 10 c" "digits_value 10 (show_radix 10 n) = n"
    using show_radix_spec [of 10 n] by simp_all
  have zero: "radix_char d \<noteq> CHR ''0''" if "0 < d" "d < 10" for d
  proof
    assume "radix_char d = CHR ''0''"
    then have "digit_num (radix_char d) = 0" by (simp add: digit_num_def digit_val_def char_code_def)
    then show False using radix_char_digit(2) [of d 10] that by simp
  qed
  consider "n < 10" | "10 \<le> n" "n < 100" | "100 \<le> n" by linarith
  then have "length (show_radix 10 n) \<le> 3 \<and> (length (show_radix 10 n) > 1 \<longrightarrow> hd (show_radix 10 n) \<noteq> CHR ''0'')"
  proof cases
    case 1
    then show ?thesis by (simp add: show_radix.simps)
  next
    case 2
    then have "show_radix 10 n = [radix_char (n div 10), radix_char (n mod 10)]" by (simp add: show_radix.simps)
    moreover have "0 < n div 10" "n div 10 < 10" using 2 by (simp_all add: div_greater_zero_iff)
    ultimately show ?thesis using zero by simp
  next
    case 3
    have d: "0 < n div 10 div 10" "n div 10 div 10 < 10" using 3 assms by (simp_all add: div_mult2_eq [symmetric] div_greater_zero_iff)
    then have "show_radix 10 n = [radix_char (n div 10 div 10), radix_char (n div 10 mod 10), radix_char (n mod 10)]"
      using 3 by (subst show_radix.simps, subst show_radix.simps, subst show_radix.simps) (simp add: div_greater_zero_iff)
    then show ?thesis using zero d by simp
  qed
  then show ?thesis using spec assms by (simp add: octet_text_def list_all_iff)
qed

lemma show_radix_no_sep: "2 \<le> r \<Longrightarrow> r \<le> 36 \<Longrightarrow> CHR ''.'' \<notin> set (show_radix r n) \<and> CHR '':'' \<notin> set (show_radix r n)"
  using show_radix_spec [of r n] digit_not_special(4,5) [of r "CHR ''.''"] digit_not_special(4,5) [of r "CHR '':''"] by auto

lemma ipv4_roundtrip:
  assumes "bytes_ok buf" and "length buf = 4"
  shows "inet_fromString junk (inet_toString False buf) = Inr buf"
proof -
  define ws where "ws = map (\<lambda>b. show_radix 10 (nat b)) buf"
  have t: "inet_toString False buf = join_on (CHR ''.'') ws" using assms(2) by (simp add: inet_toString_def ws_def)
  have split: "split_on (CHR ''.'') (join_on (CHR ''.'') ws) = ws"
    using show_radix_no_sep [of 10] assms(2) by (subst split_on_join) (auto simp: ws_def)
  have "list_all octet_text ws" using assms(1) by (auto simp: ws_def list_all_iff bytes_ok_def show_radix_octet nat_le_iff)
  moreover have "map (\<lambda>p. int (digits_value 10 p)) ws = buf"
    using assms(1) show_radix_spec [of 10] by (auto simp: ws_def bytes_ok_def intro!: map_idI)
  moreover have "join_on (CHR ''.'') ws \<noteq> []" using assms(2) by (subst join_on_eq_Nil) (auto simp: ws_def)
  ultimately show ?thesis
    using split assms(2) unfolding t by (simp add: inet_fromString_def ipv4_text_def octets_def new_inet_def ws_def)
qed

section \<open>IPv6\<close>

text \<open>
  An address whose zero groups are exactly those from \<open>p\<close> up to \<open>p + m\<close>; without zero groups \<open>p\<close> is 8.
\<close>

definition zero_group :: "buffer \<Rightarrow> nat \<Rightarrow> bool" where
  "zero_group buf g \<longleftrightarrow> buf ! (2 * g) = 0 \<and> buf ! (2 * g + 1) = 0"

definition one_run :: "buffer \<Rightarrow> nat \<Rightarrow> nat \<Rightarrow> bool" where
  "one_run buf p m \<longleftrightarrow> length buf = 16 \<and> bytes_ok buf \<and> p + m \<le> 8 \<and> (m = 0 \<longrightarrow> p = 8)
    \<and> (\<forall>g < 8. zero_group buf g \<longleftrightarrow> p \<le> g \<and> g < p + m)"

lemma scan_one_run:
  assumes "one_run buf p m"
  shows "zlongest (scan_zeros buf) = (if m = 0 then -1 else 2 * int p)" and "zlength (scan_zeros buf) = 2 * int m"
proof -
  have len: "length buf = 16" "p + m \<le> 8" "m = 0 \<longrightarrow> p = 8" using assms by (simp_all add: one_run_def)
  define st where "st = (\<lambda>k::nat. if k \<le> p then \<lparr>zstart = -1, zlength = 0, zlongest = -1\<rparr>
      else if k \<le> p + m \<and> k < 8 then \<lparr>zstart = 2 * int p, zlength = 0, zlongest = -1\<rparr>
      else \<lparr>zstart = -1, zlength = 2 * int m, zlongest = 2 * int p\<rparr>)"
  have "foldl (scan_step buf) \<lparr>zstart = -1, zlength = 0, zlongest = -1\<rparr> [0..<k] = st k" if "k \<le> 8" for k
    using that
  proof (induction k)
    case 0
    then show ?case by (simp add: st_def)
  next
    case (Suc k)
    have z: "(buf ! (2 * k) = 0 \<and> buf ! (2 * k + 1) = 0) \<longleftrightarrow> p \<le> k \<and> k < p + m"
      using assms Suc.prems by (simp add: one_run_def zero_group_def)
    have "foldl (scan_step buf) \<lparr>zstart = -1, zlength = 0, zlongest = -1\<rparr> [0..<Suc k] = scan_step buf (st k) k"
      using Suc by simp
    also have "\<dots> = st (Suc k)"
      unfolding scan_step_def Let_def z len(1)
      using len(2,3) Suc.prems by (auto simp: st_def checkLongest_def)
    finally show ?case .
  qed
  from this [of 8] have "scan_zeros buf = st 8" using len(1) by (simp add: scan_zeros_def del: upt_conv_Nil)
  then show "zlongest (scan_zeros buf) = (if m = 0 then -1 else 2 * int p)" and "zlength (scan_zeros buf) = 2 * int m"
    using len(2,3) by (auto simp: st_def)
qed

definition group_texts :: "buffer \<Rightarrow> nat \<Rightarrow> nat \<Rightarrow> string list" where
  "group_texts buf a b = map (\<lambda>g. show_radix 16 (group_at buf g)) [a..<b]"

lemma group_texts_Suc: "a \<le> b \<Longrightarrow> group_texts buf a (Suc b) = group_texts buf a b @ [show_radix 16 (group_at buf b)]"
  by (simp add: group_texts_def)

lemma group_texts_Nil [simp]: "group_texts buf a a = []" "group_texts buf a b = [] \<longleftrightarrow> b \<le> a"
  by (auto simp: group_texts_def)

lemma join_groups_Nil [simp]: "join_on d (group_texts buf a b) = [] \<longleftrightarrow> b \<le> a"
  by (subst join_on_eq_Nil) (auto simp: group_texts_def)

lemma join_groups_Suc:
  "a \<le> b \<Longrightarrow> join_on d (group_texts buf a (Suc b))
    = (if join_on d (group_texts buf a b) \<noteq> [] then join_on d (group_texts buf a b) @ [d] else []) @ show_radix 16 (group_at buf b)"
  by (simp add: group_texts_Suc join_on_snoc)

lemma print_one_run:
  assumes "one_run buf p m"
  shows "inet_toString False buf =
    (if m = 0 then join_on (CHR '':'') (group_texts buf 0 8)
     else join_on (CHR '':'') (group_texts buf 0 p) @ ''::'' @ join_on (CHR '':'') (group_texts buf (p + m) 8))"
proof -
  define c where "c = CHR '':''"
  have len: "length buf = 16" "p + m \<le> 8" "m = 0 \<longrightarrow> p = 8" using assms by (simp_all add: one_run_def)
  define z where "z = scan_zeros buf"
  have z: "zlongest z = (if m = 0 then -1 else 2 * int p)" "zlength z = 2 * int m"
    using scan_one_run [OF assms] by (simp_all add: z_def)
  define ad where "ad = (\<lambda>k::nat. if k \<le> p then join_on c (group_texts buf 0 k)
      else if k \<le> p + m then join_on c (group_texts buf 0 p) @ [c]
      else join_on c (group_texts buf 0 p) @ [c, c] @ join_on c (group_texts buf (p + m) k))"
  have "foldl (print_step buf z) [] [0..<k] = ad k" if "k \<le> 8" for k
    using that
  proof (induction k)
    case 0
    then show ?case by (simp add: ad_def)
  next
    case (Suc k)
    have "foldl (print_step buf z) [] [0..<Suc k] = print_step buf z (ad k) k" using Suc by simp
    also have "\<dots> = ad (Suc k)"
    proof -
      consider "k < p" | "k = p" "m \<noteq> 0" | "p < k" "k < p + m" | "p + m \<le> k" "p < k"
        using len Suc.prems by linarith
      then show ?thesis
      proof cases
        case 1
        then show ?thesis using z by (auto simp: print_step_def Let_def ad_def c_def [symmetric] join_groups_Suc)
      next
        case 2
        then show ?thesis using z by (simp add: print_step_def Let_def ad_def c_def)
      next
        case 3
        then show ?thesis using z by (simp add: print_step_def Let_def ad_def)
      next
        case 4
        then show ?thesis using z len Suc.prems
          by (cases "k = p + m") (auto simp: print_step_def Let_def ad_def c_def [symmetric] join_groups_Suc)
      qed
    qed
    finally show ?case .
  qed
  from this [of 8] have eq: "foldl (print_step buf (scan_zeros buf)) [] [0..<length buf div 2] = ad 8"
    using len(1) by (simp add: z_def del: upt_conv_Nil)
  have last_group: "last (join_on c (group_texts buf a 8)) \<noteq> CHR '':''" if "a < 8" for a
  proof -
    have "join_on c (group_texts buf a (Suc 7)) \<noteq> []" using that by simp
    moreover have "last (show_radix 16 (group_at buf 7)) \<noteq> CHR '':''"
    proof
      assume "last (show_radix 16 (group_at buf 7)) = CHR '':''"
      then have "CHR '':'' \<in> set (show_radix 16 (group_at buf 7))"
        using last_in_set [OF show_radix_not_Nil, of 16 "group_at buf 7"] by (simp only:)
      then show False using show_radix_no_sep [of 16 "group_at buf 7"] by simp
    qed
    ultimately show ?thesis using that join_groups_Suc [of a 7 c buf] by (simp split: if_splits)
  qed
  have t: "inet_toString False buf = (if ad 8 \<noteq> [] \<and> last (ad 8) = CHR '':'' then ad 8 @ '':'' else ad 8)"
    using len(1) eq by (simp add: inet_toString_def Let_def)
  consider "m = 0" "p = 8" | "m \<noteq> 0" "p + m = 8" | "m \<noteq> 0" "p + m < 8" using len by linarith
  then show ?thesis
  proof cases
    case 1
    then show ?thesis using t last_group [of 0] by (simp add: ad_def c_def)
  next
    case 2
    then have "ad 8 = join_on c (group_texts buf 0 p) @ [c]" by (simp add: ad_def)
    then show ?thesis using t 2 by (simp add: c_def)
  next
    case 3
    then have a: "ad 8 = join_on c (group_texts buf 0 p) @ [c, c] @ join_on c (group_texts buf (p + m) 8)" by (simp add: ad_def)
    then have "last (ad 8) \<noteq> CHR '':''" using last_group [of "p + m"] 3 by simp
    then show ?thesis using t 3 a by (simp add: c_def)
  qed
qed

subsection \<open>Reading the printed address\<close>

definition group_bytes :: "nat list \<Rightarrow> buffer" where
  "group_bytes gs = concat (map (\<lambda>g. [int g div 256, int g mod 256]) gs)"

lemma length_group_bytes [simp]: "length (group_bytes gs) = 2 * length gs"
  by (induction gs) (simp_all add: group_bytes_def)

lemma parts_loop_groups:
  assumes "\<forall>g \<in> set gs. g < 65536" and "length out + 2 * length gs \<le> 16"
  shows "parts_loop False (map (show_radix 16) gs @ rest) filling applied out
    = parts_loop False rest filling applied (out @ group_bytes gs)"
  using assms
proof (induction gs arbitrary: out)
  case Nil
  then show ?case by (simp add: group_bytes_def)
next
  case (Cons g gs)
  have "js_parseInt (show_radix 16 g) 16 = JsInt (int g)"
    using show_radix_spec [of 16 g] parseInt_digits [of "show_radix 16 g" 16] by simp
  then have "write_uint16 (js_parseInt (show_radix 16 g) 16) out = Inr (out @ [int g div 256, int g mod 256])"
    using Cons.prems by (simp add: write_uint16_def)
  then show ?case using Cons by (simp add: group_bytes_def)
qed

lemma group_at_bytes:
  assumes "bytes_ok buf" and "2 * g + 1 < length buf"
  shows "int (group_at buf g) = buf ! (2 * g) * 256 + buf ! (2 * g + 1)" and "group_at buf g < 65536"
proof -
  define a b where ab: "a = buf ! (2 * g)" "b = buf ! (2 * g + 1)"
  have r: "0 \<le> a" "a < 256" "0 \<le> b" "b < 256" using assms by (auto simp: ab bytes_ok_def)
  have "js_or (js_shl a 8) b = to_int32 (a * 256 + b)"
    using js_or_disjoint [of b 8 a] r by (simp add: js_shl_mult js_or_int32 int32_or)
  then have "js_or (js_shl a 8) b = a * 256 + b" using r by simp
  then show "int (group_at buf g) = buf ! (2 * g) * 256 + buf ! (2 * g + 1)" and "group_at buf g < 65536"
    using r by (simp_all only: group_at_def ab [symmetric])
qed

lemma group_bytes_at:
  assumes "bytes_ok buf" and "b \<le> length buf div 2"
  shows "group_bytes (map (group_at buf) [a..<b]) = drop (2 * a) (take (2 * b) buf)"
  using assms(2)
proof (induction b)
  case (Suc b)
  show ?case
  proof (cases "a \<le> b")
    case True
    have g: "2 * b + 1 < length buf" using Suc.prems by linarith
    have r: "0 \<le> buf ! (2 * b + 1)" "buf ! (2 * b + 1) < 256" using assms(1) g by (auto simp: bytes_ok_def)
    have "take (2 * Suc b) buf = take (2 * b) buf @ [buf ! (2 * b), buf ! (2 * b + 1)]"
      using g by (simp add: take_Suc_conv_app_nth)
    moreover have "int (group_at buf b) div 256 = buf ! (2 * b)" "int (group_at buf b) mod 256 = buf ! (2 * b + 1)"
      using group_at_bytes(1) [OF assms(1) g] base_split [OF r] by simp_all
    ultimately show ?thesis using Suc True g by (simp add: group_bytes_def)
  next
    case False
    then show ?thesis by (simp add: group_bytes_def)
  qed
qed (simp add: group_bytes_def)

lemma group_texts_conv: "group_texts buf a b = map (show_radix 16) (map (group_at buf) [a..<b])"
  by (simp add: group_texts_def)

lemma one_run_bytes:
  assumes "one_run buf p m"
  shows "group_bytes (map (group_at buf) [0..<p]) @ replicate (2 * m) 0 @ group_bytes (map (group_at buf) [p + m..<8]) = buf"
proof -
  have h: "length buf = 16" "p + m \<le> 8" "bytes_ok buf" using assms by (simp_all add: one_run_def)
  have "replicate (2 * m) 0 = drop (2 * p) (take (2 * (p + m)) buf)"
  proof (rule nth_equalityI)
    fix i
    assume i: "i < length (replicate (2 * m) (0::int))"
    have "zero_group buf (p + i div 2)" using assms i h(2) by (simp add: one_run_def)
    moreover have "2 * p + i = 2 * (p + i div 2) \<or> 2 * p + i = 2 * (p + i div 2) + 1" by presburger
    ultimately have "buf ! (2 * p + i) = 0" unfolding zero_group_def by metis
    then show "replicate (2 * m) 0 ! i = drop (2 * p) (take (2 * (p + m)) buf) ! i" using i h by simp
  qed (use h in simp)
  moreover have "drop (2 * (p + m)) (take 16 buf) = drop (2 * (p + m)) buf" using h(1) by simp
  moreover have "take (2 * p) buf @ drop (2 * p) (take (2 * (p + m)) buf) @ drop (2 * (p + m)) buf = buf"
    by (metis append_assoc append_take_drop_id drop_take le_add1 mult_le_mono2 take_add take_drop le_add_diff_inverse)
  ultimately show ?thesis using group_bytes_at [OF h(3)] h by simp
qed

lemma group_texts_no_sep: "\<forall>w \<in> set (group_texts buf a b). CHR '':'' \<notin> set w" 
  using show_radix_no_sep [of 16] by (auto simp: group_texts_def)

lemma group_text_chars: "w \<in> set (group_texts buf a b) \<Longrightarrow> c \<in> set w \<Longrightarrow> is_digit 16 c"
  using show_radix_spec [of 16] by (auto simp: group_texts_def)

lemma joined_chars: "c \<in> set (join_on (CHR '':'') (group_texts buf a b)) \<Longrightarrow> is_digit 16 c \<or> c = CHR '':''"
  using set_join_on [of "CHR '':''" "group_texts buf a b"] group_text_chars [of _ buf a b c] by auto

text \<open>The parts of the printed address: \<open>::\<close> leaves an empty part, and one more at an end of the text.\<close>

definition parts_of :: "string list \<Rightarrow> string list" where
  "parts_of ws = (if ws = [] then [[]] else ws)"

lemma print_parts:
  assumes "one_run buf p m"
  shows "split_on (CHR '':'') (inet_toString False buf) =
    (if m = 0 then group_texts buf 0 8
     else parts_of (group_texts buf 0 p) @ [[]] @ parts_of (group_texts buf (p + m) 8))"
proof -
  have split: "split_on (CHR '':'') (join_on (CHR '':'') (group_texts buf a b)) = parts_of (group_texts buf a b)" for a b
    by (simp only: split_on_join [OF group_texts_no_sep] parts_of_def)
  show ?thesis unfolding print_one_run [OF assms] using split split_on_append [of "CHR '':''"]
    by (auto simp: parts_of_def)
qed

lemma parts_loop_run:
  assumes "one_run buf p m"
  defines "parts \<equiv> split_on (CHR '':'') (inet_toString False buf)"
  shows "parts_loop False parts (8 - int (length parts) + 1) False [] = Inr buf" and "3 \<le> length parts"
proof -
  have h: "length buf = 16" "p + m \<le> 8" "bytes_ok buf" "m = 0 \<longrightarrow> p = 8" using assms(1) by (simp_all add: one_run_def)
  define pre post where pp: "pre = map (group_at buf) [0..<p]" "post = map (group_at buf) [p + m..<8]"
  have len: "length pre = p" "length post = 8 - (p + m)" by (simp_all add: pp)
  have small: "\<forall>g \<in> set pre. g < 65536" "\<forall>g \<in> set post. g < 65536"
    using group_at_bytes(2) [OF h(3)] h(1,2) by (auto simp: pp)
  have parts: "parts = (if m = 0 then map (show_radix 16) pre
      else parts_of (map (show_radix 16) pre) @ [[]] @ parts_of (map (show_radix 16) post))"
    using print_parts [OF assms(1)] h(4) unfolding parts_def group_texts_conv pp by auto
  have bytes: "group_bytes pre @ replicate (2 * m) 0 @ group_bytes post = buf"
    using one_run_bytes [OF assms(1)] by (simp add: pp)
  note run = parts_loop_groups [OF small(1)] parts_loop_groups [OF small(2)]
  have nil: "group_bytes [] = []" by (simp add: group_bytes_def)
  consider "m = 0" "p = 8" | "m = 8" "p = 0" | "m \<noteq> 0" "p = 0" "m < 8" | "m \<noteq> 0" "p \<noteq> 0" "p + m = 8" | "m \<noteq> 0" "p \<noteq> 0" "p + m < 8"
    using h(2,4) by linarith
  then have "parts_loop False parts (8 - int (length parts) + 1) False [] = Inr buf \<and> 3 \<le> length parts"
  proof cases
    case 1
    then show ?thesis using bytes run(1) [of "[]" "[]"] len by (simp add: parts nil)
  next
    case 2
    then show ?thesis using bytes len by (simp add: parts parts_of_def nil eval_nat_numeral)
  next
    case 3
    then have "pre = []" "post \<noteq> []" using len by auto
    moreover obtain k where "m = Suc k" using 3 by (cases m) auto
    moreover have "replicate (2 * k) (0::int) @ replicate 2 0 = 0 # 0 # replicate (2 * k) 0"
      by (simp add: numeral_2_eq_2 replicate_app_Cons_same replicate_append_same)
    ultimately show ?thesis using 3 bytes run(2) [of "replicate (2 * m) 0" "[]"] len
      by (simp add: parts parts_of_def nil)
  next
    case 4
    then have "pre \<noteq> []" "post = []" using len by auto
    moreover obtain k where "m = Suc k" using 4 by (cases m) auto
    moreover from this have "nat (7 - int p) = k" using 4 by simp
    moreover have "replicate (2 * k) (0::int) @ replicate 2 0 = 0 # 0 # replicate (2 * k) 0"
      by (simp add: numeral_2_eq_2 replicate_app_Cons_same replicate_append_same)
    ultimately show ?thesis using 4 bytes run(1) [of "[]" "[[], []]"] len
      by (simp add: parts parts_of_def nil)
  next
    case 5
    then have "pre \<noteq> []" "post \<noteq> []" using len by auto
    then show ?thesis using 5 bytes run(1) [of "[]" "[] # map (show_radix 16) post"]
        run(2) [of "group_bytes pre @ replicate (2 * m) 0" "[]"] len
      by (simp add: parts parts_of_def)
  qed
  then show "parts_loop False parts (8 - int (length parts) + 1) False [] = Inr buf" and "3 \<le> length parts" by simp_all
qed

section \<open>Properties\<close>

text \<open>
  Printing an IPv4 address and parsing the text gives the address back, and so does every IPv6
  address whose zero groups, if it has any, are adjacent; neither depends on what the
  freshly allocated buffer contained.
\<close>

theorem inet_text_roundtrip:
  assumes "bytes_ok buf" and "length buf = 4 \<or> one_run buf p m" and "length junk = 16"
  shows "inet_fromString junk (inet_toString False buf) = Inr buf"
proof (cases "length buf = 4")
  case True
  then show ?thesis using ipv4_roundtrip [OF assms(1)] by simp
next
  case False
  then have run: "one_run buf p m" using assms(2) by simp
  define str where "str = inet_toString False buf"
  have chars: "\<forall>c \<in> set str. is_digit 16 c \<or> c = CHR '':''"
    unfolding str_def print_one_run [OF run] using joined_chars by auto
  have dot: "\<not> is_digit 16 (CHR ''.'')" by (simp add: is_digit_def digit_val_def char_code_def)
  have no_dot: "CHR ''.'' \<notin> set str" using chars dot by auto
  have parts: "3 \<le> length (split_on (CHR '':'') str)"
    "parts_loop False (split_on (CHR '':'') str) (8 - int (length (split_on (CHR '':'') str)) + 1) False [] = Inr buf"
    using parts_loop_run [OF run] by (simp_all add: str_def)
  have ne: "str \<noteq> []" using parts(1) by auto
  have "\<not> ipv4_text w" if "CHR ''.'' \<notin> set w" for w using that by (simp add: ipv4_text_def split_on_plain)
  moreover have "CHR ''.'' \<notin> set (last (split_on (CHR '':'') str))"
  proof -
    have "set (last (split_on d s)) \<subseteq> set s" for d s
    proof (induction s)
      case (Cons a s)
      then show ?case by (auto split: list.splits if_splits)
    qed simp
    then show ?thesis using no_dot by blast
  qed
  moreover have "ipv6_chars str" using chars ne by (auto simp: ipv6_chars_def list_all_iff)
  moreover have "length buf = 16" using run by (simp add: one_run_def)
  ultimately show ?thesis using ne no_dot parts assms(3)
    by (simp add: inet_fromString_def str_def [symmetric] Let_def new_inet_def)
qed

theorem inet_text_roundtrip_witness:
  "inet_fromString (replicate 16 7) (inet_toString False [32, 1, 13, 184, 0, 0, 0, 0, 0, 0, 0, 1, 0, 2, 0, 1])
    = Inr [32, 1, 13, 184, 0, 0, 0, 0, 0, 0, 0, 1, 0, 2, 0, 1]"
proof (rule inet_text_roundtrip)
  show "length [32, 1, 13, 184, 0, 0, 0, 0, 0, 0, 0, 1, 0, 2, 0, 1 :: int] = 4 \<or>
    one_run [32, 1, 13, 184, 0, 0, 0, 0, 0, 0, 0, 1, 0, 2, 0, 1] 2 3"
    by (simp add: one_run_def zero_group_def All_less_Suc eval_nat_numeral)
qed simp_all

text \<open>
  With two groups of zeros the printed text can denote another address: \<open>checkLongest\<close> leaves \<open>start\<close>
  set when a group is not longer than the longest one, so that the next call takes the groups after it as zeros. The address
  \<open>0:0:1:0:2:3:4:5\<close> is printed without its groups 2 and 3.
\<close>

theorem inet_text_wrong_group:
  "inet_toString False [0, 0, 0, 0, 0, 1, 0, 0, 0, 2, 0, 3, 0, 4, 0, 5] = ''0:0:1::4:5''"
proof -
  have z: "scan_zeros [0, 0, 0, 0, 0, 1, 0, 0, 0, 2, 0, 3, 0, 4, 0, 5] = \<lparr>zstart = -1, zlength = 6, zlongest = 6\<rparr>"
    by (simp add: scan_zeros_def scan_step_def checkLongest_def upt_rec)
  have g: "show_radix 16 (nat (js_or (js_shl 0 8) n)) = [radix_char (nat n)]" if "n \<in> {0, 1, 2, 3, 4, 5}" for n
    using that by (auto simp: js_shl_mult js_or_def show_radix.simps)
  show ?thesis
    by (simp add: inet_toString_def z print_step_def group_at_def g upt_rec radix_char_def char_of_def bit_Suc_0_iff)
qed

end
