(* ===== verification/Uuid.thy ===== *)
theory Uuid
  imports Long_Package
begin

text \<open>
  \<^verbatim>\<open>src/lib/types/uuid.js\<close> and \<^verbatim>\<open>src/lib/types/time-uuid.js\<close>: UUIDs as buffers of 16 bytes, their text
  form, and the version 1 UUIDs built from a date, ticks, a clock and a node identifier. Random bytes,
  clock readings and the \<open>Long\<close> class are parameters; the module's counters are an explicit state.
\<close>

section \<open>Uuid\<close>

definition new_uuid :: "buffer \<Rightarrow> buffer result" where
  "new_uuid buf = (if length buf \<noteq> 16 then Inl TypeError else Inr buf)"

text \<open>The regular expression: five runs of hexadecimal digits of lengths 8, 4, 4, 4 and 12, with hyphens between.\<close>

definition uuidRegex :: "string \<Rightarrow> bool" where
  "uuidRegex s \<longleftrightarrow>
    (let parts = split_on (CHR ''-'') s
     in map length parts = [8, 4, 4, 4, 12] \<and> list_all (list_all (is_digit 16)) parts)"

text \<open>\<open>Buffer.from(s, 'hex')\<close> on a text of hexadecimal digits.\<close>

fun hex_bytes :: "string \<Rightarrow> buffer" where
  "hex_bytes (a # b # s) = int (digit_num a * 16 + digit_num b) # hex_bytes s"
| "hex_bytes _ = []"

definition uuid_fromString :: "string \<Rightarrow> buffer result" where
  "uuid_fromString value =
    (if \<not> uuidRegex value then Inl PlainError
     else new_uuid (hex_bytes (filter (\<lambda>c. c \<noteq> CHR ''-'') value)))"

definition uuid_random :: "buffer \<Rightarrow> buffer result" where
  "uuid_random randomUuidV4 = new_uuid randomUuidV4"

definition uuid_equals :: "buffer \<Rightarrow> buffer \<Rightarrow> bool" where
  "uuid_equals a b \<longleftrightarrow> a = b"

definition uuid_toString :: "buffer \<Rightarrow> string" where
  "uuid_toString buf =
    (let hexValue = hex_text buf
     in take 8 hexValue @ ''-'' @ take 4 (drop 8 hexValue) @ ''-'' @ take 4 (drop 12 hexValue) @ ''-''
        @ take 4 (drop 16 hexValue) @ ''-'' @ drop 20 hexValue)"

section \<open>TimeUuid\<close>

definition unixToGregorian :: int where
  "unixToGregorian = 12219292800000"

definition ticksInMs :: int where
  "ticksInMs = 10000"

definition minNodeId :: buffer where "minNodeId = hex_bytes ''808080808080''"
definition minClockId :: buffer where "minClockId = hex_bytes ''8080''"
definition maxNodeId :: buffer where "maxNodeId = hex_bytes ''7f7f7f7f7f7f''"
definition maxClockId :: buffer where "maxClockId = hex_bytes ''7f7f''"

text \<open>The counters of the module.\<close>

record ticks_state =
  ticks_counter :: int
  ticksForCurrentTime :: int
  lastTimestamp :: int

definition getTicks :: "ticks_state \<Rightarrow> int option \<Rightarrow> int \<times> ticks_state" where
  "getTicks st ticks =
    (case ticks of
       Some t \<Rightarrow> if t \<ge> ticksInMs
         then let n = ticks_counter st + 1; n' = (if n \<ge> ticksInMs then 0 else n) in (n', st\<lparr>ticks_counter := n'\<rparr>)
         else (t, st)
     | None \<Rightarrow> let n = ticks_counter st + 1; n' = (if n \<ge> ticksInMs then 0 else n) in (n', st\<lparr>ticks_counter := n'\<rparr>))"

text \<open>
  \<open>None\<close> for the date stands for anything that is not a valid \<open>Date\<close>; \<open>now\<close> is the current time, which is read in
  that case only. The result is the time, the ticks and the new counters.
\<close>

definition getTimeWithTicks :: "ticks_state \<Rightarrow> int \<Rightarrow> int option \<Rightarrow> int option \<Rightarrow> int \<times> int \<times> ticks_state" where
  "getTimeWithTicks st now date ticks =
    (case date of
       Some time \<Rightarrow> let (t, st') = getTicks st ticks in (time, t, st')
     | None \<Rightarrow>
         let n = ticksForCurrentTime st + 1;
             st1 = (if n > ticksInMs \<or> now > lastTimestamp st
                    then st\<lparr>ticksForCurrentTime := 0, lastTimestamp := now\<rparr>
                    else st\<lparr>ticksForCurrentTime := n\<rparr>);
             (t, st2) = getTicks st1 (Some (ticksForCurrentTime st1))
         in (now, t, st2))"

datatype id_arg = NoId | IdString string | IdBuffer buffer

definition ascii_bytes :: "string \<Rightarrow> buffer" where
  "ascii_bytes s = map (\<lambda>c. int (char_code c)) s"

definition getClockId :: "buffer \<Rightarrow> id_arg \<Rightarrow> buffer result" where
  "getClockId random2 clockId =
    (case clockId of
       NoId \<Rightarrow> Inr random2
     | IdString s \<Rightarrow> if length (ascii_bytes s) \<noteq> 2 then Inl PlainError else Inr (ascii_bytes s)
     | IdBuffer b \<Rightarrow> if length b \<noteq> 2 then Inl PlainError else Inr b)"

definition getNodeId :: "buffer \<Rightarrow> id_arg \<Rightarrow> buffer result" where
  "getNodeId random6 nodeId =
    (case nodeId of
       NoId \<Rightarrow> Inr random6
     | IdString s \<Rightarrow> if length (ascii_bytes s) \<noteq> 6 then Inl PlainError else Inr (ascii_bytes s)
     | IdBuffer b \<Rightarrow> if length b \<noteq> 6 then Inl PlainError else Inr b)"

definition uint16_be :: "int \<Rightarrow> buffer" where
  "uint16_be v = [v div 256 mod 256, v mod 256]"

definition writeTime :: "'l long_ops \<Rightarrow> int \<Rightarrow> int \<Rightarrow> buffer" where
  "writeTime L time ticks =
    (let val = long_add L (long_multiply L (long_fromNumber L (time + unixToGregorian)) (long_fromNumber L 10000))
                 (long_fromNumber L ticks);
         timeHigh = long_getHighBitsUnsigned L val
     in int32_be (long_getLowBitsUnsigned L val) @ uint16_be (js_and timeHigh 65535)
        @ uint16_be (js_and (js_shr timeHigh 16) 65535))"

definition stamp_version :: "buffer \<Rightarrow> buffer" where
  "stamp_version buf =
    (let b1 = buf[6 := js_or (js_and (buf ! 6) 15) 16] in b1[8 := js_or (js_and (b1 ! 8) 63) 128])"

definition generateBuffer ::
  "'l long_ops \<Rightarrow> ticks_state \<Rightarrow> int \<Rightarrow> buffer \<Rightarrow> buffer \<Rightarrow> int option \<Rightarrow> int option \<Rightarrow> id_arg \<Rightarrow> id_arg
    \<Rightarrow> buffer result \<times> ticks_state" where
  "generateBuffer L st now random6 random2 date ticks nodeId clockId =
    (let (time, t, st') = getTimeWithTicks st now date ticks
     in (bind_result (getNodeId random6 nodeId) (\<lambda>node.
           bind_result (getClockId random2 clockId) (\<lambda>clock.
             Inr (stamp_version (writeTime L time t @ clock @ node)))), st'))"

text \<open>The constructor, on a buffer and on the parts.\<close>

definition new_timeuuid_buffer :: "buffer \<Rightarrow> buffer result" where
  "new_timeuuid_buffer buf = (if length buf \<noteq> 16 then Inl PlainError else new_uuid buf)"

definition new_timeuuid ::
  "'l long_ops \<Rightarrow> ticks_state \<Rightarrow> int \<Rightarrow> buffer \<Rightarrow> buffer \<Rightarrow> int option \<Rightarrow> int option \<Rightarrow> id_arg \<Rightarrow> id_arg
    \<Rightarrow> buffer result \<times> ticks_state" where
  "new_timeuuid L st now random6 random2 date ticks nodeId clockId =
    (let (r, st') = generateBuffer L st now random6 random2 date ticks nodeId clockId
     in (bind_result r new_uuid, st'))"

definition timeuuid_fromString :: "string \<Rightarrow> buffer result" where
  "timeuuid_fromString value = bind_result (uuid_fromString value) new_timeuuid_buffer"

definition timeuuid_min :: "'l long_ops \<Rightarrow> ticks_state \<Rightarrow> int \<Rightarrow> int option \<Rightarrow> int option \<Rightarrow> buffer result \<times> ticks_state" where
  "timeuuid_min L st now date ticks = new_timeuuid L st now [] [] date ticks (IdBuffer minNodeId) (IdBuffer minClockId)"

definition timeuuid_max :: "'l long_ops \<Rightarrow> ticks_state \<Rightarrow> int \<Rightarrow> int option \<Rightarrow> int option \<Rightarrow> buffer result \<times> ticks_state" where
  "timeuuid_max L st now date ticks = new_timeuuid L st now [] [] date ticks (IdBuffer maxNodeId) (IdBuffer maxClockId)"

definition timeuuid_now ::
  "'l long_ops \<Rightarrow> ticks_state \<Rightarrow> int \<Rightarrow> buffer \<Rightarrow> buffer \<Rightarrow> id_arg \<Rightarrow> id_arg \<Rightarrow> buffer result \<times> ticks_state" where
  "timeuuid_now L st now random6 random2 nodeId clockId = new_timeuuid L st now random6 random2 None None nodeId clockId"

definition time_high :: "buffer \<Rightarrow> int" where
  "time_high buf =
    js_or (js_or (js_or (js_or 0 (js_shl (js_and (buf ! 4) 255) 8)) (js_and (buf ! 5) 255))
        (js_shl (js_and (buf ! 6) 15) 24)) (js_shl (js_and (buf ! 7) 255) 16)"

definition getDatePrecision :: "'l long_ops \<Rightarrow> buffer \<Rightarrow> int \<times> int" where
  "getDatePrecision L buf =
    (let val = long_fromBits L (be_uint (take 4 buf)) (time_high buf);
         ticksInMsLong = long_fromNumber L ticksInMs;
         ticks = long_modulo L val ticksInMsLong;
         time = long_subtract L (long_div L val ticksInMsLong) (long_fromNumber L unixToGregorian)
     in (long_toNumber L time, long_toNumber L ticks))"

definition timeuuid_getDate :: "'l long_ops \<Rightarrow> buffer \<Rightarrow> int" where
  "timeuuid_getDate L buf = fst (getDatePrecision L buf)"

definition timeuuid_getNodeId :: "buffer \<Rightarrow> buffer" where
  "timeuuid_getNodeId buf = drop 10 buf"

definition timeuuid_getClockId :: "buffer \<Rightarrow> buffer" where
  "timeuuid_getClockId buf = take 2 (drop 8 buf)"

definition timeuuid_getNodeIdString :: "buffer \<Rightarrow> string" where
  "timeuuid_getNodeIdString buf = map (\<lambda>b. char_of (nat b mod 128)) (drop 10 buf)"

section \<open>Text\<close>

lemma hex_bytes_hex_text: "bytes_ok buf \<Longrightarrow> hex_bytes (hex_text buf) = buf"
proof (induction buf)
  case (Cons b buf)
  have b: "0 \<le> b" "nat b < 256" using Cons.prems by (simp_all add: nat_less_iff)
  then have d: "nat b div 16 < 16" "nat b mod 16 < 16" by simp_all
  have "int (nat b div 16 * 16 + nat b mod 16) = b" unfolding div_mult_mod_eq using b(1) by simp
  then show ?case using Cons radix_char_digit(2) [OF d(1)] radix_char_digit(2) [OF d(2)] by (simp add: hex_text_def)
qed (simp add: hex_text_def)

lemma hex_text_digits: "bytes_ok buf \<Longrightarrow> \<forall>c \<in> set (hex_text buf). is_digit 16 c"
  by (induction buf) (auto simp: hex_text_def radix_char_digit)

lemma length_hex_text [simp]: "length (hex_text buf) = 2 * length buf"
  by (induction buf) (simp_all add: hex_text_def)

lemma length_hex_bytes: "length (hex_bytes s) = length s div 2"
  by (induction s rule: hex_bytes.induct) simp_all

lemma hex_bytes_ok: "\<forall>c \<in> set s. is_digit 16 c \<Longrightarrow> bytes_ok (hex_bytes s)"
proof (induction s rule: hex_bytes.induct)
  case (1 a b s)
  then have "digit_num a < 16" "digit_num b < 16" by (simp_all add: digit_num_less)
  then show ?case using 1 by simp
qed simp_all

lemma radix_char_lower: "is_digit 16 c \<Longrightarrow> radix_char (digit_num c) = js_lower c"
  by (auto simp: is_digit_def digit_num_def digit_val_def radix_char_def js_lower_def char_code_def Let_def split: if_splits)

lemma hex_text_hex_bytes:
  "\<forall>c \<in> set s. is_digit 16 c \<Longrightarrow> even (length s) \<Longrightarrow> hex_text (hex_bytes s) = map js_lower s"
proof (induction s rule: hex_bytes.induct)
  case (1 a b s)
  have d: "digit_num a < 16" "digit_num b < 16" using 1 by (simp_all add: digit_num_less)
  then have "nat (int (digit_num a * 16 + digit_num b)) div 16 = digit_num a"
    "nat (int (digit_num a * 16 + digit_num b)) mod 16 = digit_num b" by (simp_all only: nat_int) simp_all
  then show ?case using 1 radix_char_lower by (simp add: hex_text_def)
qed (simp_all add: hex_text_def)

lemma join_split: "join_on d (split_on d s) = s"
proof (induction s)
  case (Cons c s)
  obtain w ws where w: "split_on d s = w # ws" by (cases "split_on d s") simp_all
  have "join_on d ((c # w) # ws) = c # join_on d (w # ws)" by (cases ws) simp_all
  then show ?case using Cons w by (cases "c = d") simp_all
qed simp

lemma no_dash: "is_digit 16 c \<Longrightarrow> c \<noteq> CHR ''-''"
  using digit_not_special(2) by blast

lemma uuid_parts:
  assumes "length a = 8" and "length b = 4" and "length c = 4" and "length d = 4" and "length e = 12"
    and "\<forall>x \<in> set (a @ b @ c @ d @ e). is_digit 16 x"
  defines "s \<equiv> join_on (CHR ''-'') [a, b, c, d, e]"
  shows "uuidRegex s" and "filter (\<lambda>x. x \<noteq> CHR ''-'') s = a @ b @ c @ d @ e"
proof -
  have n: "\<forall>x \<in> set (a @ b @ c @ d @ e). x \<noteq> CHR ''-''" using assms(6) no_dash by blast
  have "split_on (CHR ''-'') s = [a, b, c, d, e]" unfolding s_def using n by (subst split_on_join) auto
  then show "uuidRegex s" using assms by (simp add: uuidRegex_def list_all_iff)
  show "filter (\<lambda>x. x \<noteq> CHR ''-'') s = a @ b @ c @ d @ e"
    using n by (simp add: s_def filter_True)
qed

lemma uuid_toString_join:
  "uuid_toString buf = join_on (CHR ''-'')
    [take 8 (hex_text buf), take 4 (drop 8 (hex_text buf)), take 4 (drop 12 (hex_text buf)), take 4 (drop 16 (hex_text buf)),
     drop 20 (hex_text buf)]"
  by (simp add: uuid_toString_def Let_def)

lemma slices: "take 8 h @ take 4 (drop 8 h) @ take 4 (drop 12 h) @ take 4 (drop 16 h) @ drop 20 h = h"
proof -
  have "take 4 (drop 16 h) @ drop 20 h = drop 16 h" using append_take_drop_id [of 4 "drop 16 h"] by simp
  moreover have "take 4 (drop 12 h) @ drop 16 h = drop 12 h" using append_take_drop_id [of 4 "drop 12 h"] by simp
  moreover have "take 4 (drop 8 h) @ drop 12 h = drop 8 h" using append_take_drop_id [of 4 "drop 8 h"] by simp
  ultimately show ?thesis by simp
qed

lemma uuid_print_parse:
  assumes "bytes_ok buf" and "length buf = 16"
  shows "uuid_fromString (uuid_toString buf) = Inr buf"
proof -
  define h where "h = hex_text buf"
  have len: "length h = 32" using assms(2) by (simp add: h_def)
  have digits: "\<forall>x \<in> set (take 8 h @ take 4 (drop 8 h) @ take 4 (drop 12 h) @ take 4 (drop 16 h) @ drop 20 h). is_digit 16 x"
    using hex_text_digits [OF assms(1)] unfolding slices h_def .
  note p = uuid_parts [of "take 8 h" "take 4 (drop 8 h)" "take 4 (drop 12 h)" "take 4 (drop 16 h)" "drop 20 h"]
  have "uuidRegex (uuid_toString buf)" "filter (\<lambda>x. x \<noteq> CHR ''-'') (uuid_toString buf) = h"
    using p digits len unfolding uuid_toString_join h_def [symmetric] slices by simp_all
  then show ?thesis using assms hex_bytes_hex_text [OF assms(1)] by (simp add: uuid_fromString_def new_uuid_def h_def)
qed

lemma uuid_parse_print:
  assumes "uuidRegex s"
  shows "\<exists>buf. uuid_fromString s = Inr buf \<and> length buf = 16 \<and> bytes_ok buf \<and> uuid_toString buf = map js_lower s"
proof -
  obtain a b c d e where sp: "split_on (CHR ''-'') s = [a, b, c, d, e]"
    and len: "length a = 8" "length b = 4" "length c = 4" "length d = 4" "length e = 12"
    and la: "list_all (list_all (is_digit 16)) [a, b, c, d, e]"
    using assms by (auto simp: uuidRegex_def map_eq_Cons_conv Let_def)
  have dig: "\<forall>x \<in> set (a @ b @ c @ d @ e). is_digit 16 x" using la by (auto simp: list_all_iff)
  have s: "s = join_on (CHR ''-'') [a, b, c, d, e]" using join_split [of "CHR ''-''" s] sp by simp
  define buf where "buf = hex_bytes (a @ b @ c @ d @ e)"
  have ok: "length buf = 16" "bytes_ok buf" using len hex_bytes_ok [OF dig] by (simp_all add: buf_def length_hex_bytes)
  have "uuid_fromString s = Inr buf"
    using uuid_parts [OF len dig] ok unfolding s by (simp add: uuid_fromString_def new_uuid_def buf_def)
  moreover have "hex_text buf = map js_lower (a @ b @ c @ d @ e)"
    unfolding buf_def using len by (intro hex_text_hex_bytes [OF dig]) simp
  moreover have "js_lower (CHR ''-'') = CHR ''-''" by (simp add: js_lower_def char_code_def)
  ultimately show ?thesis using ok len by (intro exI [of _ buf]) (simp add: uuid_toString_def Let_def s)
qed

section \<open>Time\<close>

lemma js_or_nest: "js_or (js_or a b) c = to_int32 (a OR b OR c)"
  by (simp add: js_or_int32 int32_or or.assoc)

lemma time_high_val:
  assumes "bytes_ok buf" and "length buf = 16"
  shows "time_high buf = ((buf ! 6 mod 16) * 256 + buf ! 7) * 65536 + buf ! 4 * 256 + buf ! 5"
proof -
  have r: "0 \<le> buf ! i" "buf ! i < 256" if "i < 16" for i using assms that by (auto simp: bytes_ok_def)
  define a b c d where abcd: "a = buf ! 4" "b = buf ! 5" "c = buf ! 6 mod 16" "d = buf ! 7"
  have ra: "0 \<le> a" "a < 256" "0 \<le> b" "b < 256" "0 \<le> c" "c < 16" "0 \<le> d" "d < 256" using r [of 4] r [of 5] r [of 7] by (simp_all add: abcd)
  have low: "a * 256 OR b = a * 256 + b" using or_disjoint_add [of b 8 a] ra by simp
  have mid: "d * 65536 OR (a * 256 + b) = d * 65536 + (a * 256 + b)" using or_disjoint_add [of "a * 256 + b" 16 d] ra by simp
  have high: "c * 16777216 OR (d * 65536 + (a * 256 + b)) = c * 16777216 + (d * 65536 + (a * 256 + b))"
    using or_disjoint_add [of "d * 65536 + (a * 256 + b)" 24 c] ra by simp
  have "time_high buf = to_int32 (to_int32 (to_int32 (a * 256 OR b) OR c * 16777216) OR d * 65536)"
    using ra by (simp add: time_high_def js_and_masks js_shl_mult js_or_int32 abcd [symmetric])
  also have "\<dots> = to_int32 (c * 16777216 OR (d * 65536 OR (a * 256 OR b)))"
    by (simp add: int32_or or.commute or.left_commute or.assoc)
  also have "\<dots> = c * 16777216 + (d * 65536 + (a * 256 + b))" unfolding low mid high using ra by simp
  finally show ?thesis by (simp add: abcd)
qed

lemma or_flag: "0 \<le> x \<Longrightarrow> x < 16 \<Longrightarrow> js_or x 16 = 16 + x" "0 \<le> y \<Longrightarrow> y < 64 \<Longrightarrow> js_or y 128 = 128 + y"
  using js_or_disjoint [of x 4 1] js_or_disjoint [of y 7 1] by (simp_all add: js_or_commute)

definition time_value :: "int \<Rightarrow> int \<Rightarrow> int" where
  "time_value time t = (time + unixToGregorian) * 10000 + t"

lemma writeTime_val:
  assumes "long_laws L val" and "0 \<le> time + unixToGregorian" and "0 \<le> t" and "t < 10000" and "time_value time t < 2 ^ 60"
  shows "writeTime L time t = int32_be (time_value time t mod 2 ^ 32) @ uint16_be (time_value time t div 2 ^ 32 mod 65536)
    @ uint16_be (time_value time t div 2 ^ 32 div 65536)"
proof -
  define v T where "v = time_value time t" and T: "T = time + unixToGregorian"
  note law = long_lawsD [OF assms(1)]
  have v: "0 \<le> T" "v < 1152921504606846976" "v = T * 10000 + t" using assms(2-5) by (simp_all add: v_def time_value_def T)
  have v0: "0 \<le> v" "T < 1152921504606846976" using v assms(3) by linarith+
  define x where "x = long_add L (long_multiply L (long_fromNumber L T) (long_fromNumber L 10000)) (long_fromNumber L t)"
  have c: "val (long_fromNumber L T) = T" "val (long_fromNumber L 10000) = 10000" "val (long_fromNumber L t) = t"
    using v(1) v0 assms(3,4) law(1) by (simp_all add: in_long_def)
  have "in_long (T * 10000)" using v v0 assms(3) by (simp add: in_long_def)
  then have m: "val (long_multiply L (long_fromNumber L T) (long_fromNumber L 10000)) = T * 10000"
    using law(4) [of "long_fromNumber L T" "long_fromNumber L 10000"] c by simp
  have "in_long v" using v v0 by (simp add: in_long_def)
  then have x: "val x = v"
    using law(5) [of "long_multiply L (long_fromNumber L T) (long_fromNumber L 10000)" "long_fromNumber L t"] c m v(3)
    by (simp add: x_def)
  have hi: "0 \<le> v div 4294967296" "v div 4294967296 < 268435456"
    using v0 v(2) pos_div_less [of v 268435456 4294967296] by (simp_all add: pos_imp_zdiv_nonneg_iff)
  have "v div 4294967296 div 65536 < 65536" "0 \<le> v div 4294967296 div 65536"
    using hi pos_div_less [of "v div 4294967296" 65536 65536] by (simp_all add: pos_imp_zdiv_nonneg_iff)
  then show ?thesis
    using law(9) [of x] law(10) [of x] x v0 hi
    unfolding writeTime_def Let_def T [symmetric] x_def [symmetric] v_def [symmetric]
    by (simp add: js_and_masks js_shr_div)
qed

lemma uint16_bytes:
  assumes "0 \<le> r" and "r < 65536"
  shows "bytes_ok (uint16_be r)" and "uint16_be r = [r div 256, r mod 256]"
proof -
  have "r div 256 < 256" "0 \<le> r div 256" using assms pos_div_less [of r 256 256] by (simp_all add: pos_imp_zdiv_nonneg_iff)
  then show "bytes_ok (uint16_be r)" "uint16_be r = [r div 256, r mod 256]" by (simp_all add: uint16_be_def)
qed

lemma stamped_buffer:
  assumes "0 \<le> v" and "v < 2 ^ 60" and "bytes_ok [c0, c1]" and "bytes_ok node" and "length node = 6"
  defines "buf \<equiv> stamp_version (int32_be (v mod 2 ^ 32) @ uint16_be (v div 2 ^ 32 mod 65536) @ uint16_be (v div 2 ^ 32 div 65536)
      @ [c0, c1] @ node)"
  shows "length buf = 16" and "bytes_ok buf" and "be_uint (take 4 buf) = v mod 2 ^ 32" and "time_high buf = v div 2 ^ 32"
    and "take 2 (drop 8 buf) = [128 + c0 mod 64, c1]" and "drop 10 buf = node" and "buf ! 6 div 16 = 1"
proof -
  define hi r q where hrq: "hi = v div 2 ^ 32" "r = hi mod 65536" "q = hi div 65536"
  have hi: "0 \<le> hi" "hi < 268435456"
    using assms(1,2) pos_div_less [of v 268435456 "2 ^ 32"] by (simp_all add: hrq pos_imp_zdiv_nonneg_iff)
  have q: "0 \<le> q" "q < 4096" using hi pos_div_less [of hi 4096 65536] by (simp_all add: hrq pos_imp_zdiv_nonneg_iff)
  have q': "0 \<le> q div 256" "q div 256 < 16" using q pos_div_less [of q 16 256] by (simp_all add: pos_imp_zdiv_nonneg_iff)
  have r: "0 \<le> r" "r < 65536" by (simp_all add: hrq)
  define l where "l = int32_be (v mod 2 ^ 32)"
  obtain l0 l1 l2 l3 where l: "l = [l0, l1, l2, l3]" by (simp add: l_def int32_be_def)
  have lb: "bytes_ok l" "be_uint l = v mod 2 ^ 32" by (simp_all add: l_def be_uint_int32_be to_uint32_mod)
  have qm: "q div 256 mod 16 = q div 256" using q' by simp
  have buf: "buf = l @ [r div 256, r mod 256, 16 + q div 256, q mod 256, 128 + c0 mod 64, c1] @ node"
    unfolding buf_def hrq(1) [symmetric] hrq(2) [symmetric] hrq(3) [symmetric] l_def [symmetric]
    using uint16_bytes(2) [OF r] uint16_bytes(2) [of q] q q' qm
    by (simp add: stamp_version_def l js_and_masks or_flag)
  show len: "length buf = 16" using assms(5) by (simp add: buf l)
  show ok: "bytes_ok buf"
  proof -
    have "r div 256 < 256" using r pos_div_less [of r 256 256] by simp
    moreover have "c0 mod 64 < 64" "0 \<le> c0 mod 64" by simp_all
    ultimately show ?thesis unfolding buf using lb(1) assms(3,4) q' r by (simp add: pos_imp_zdiv_nonneg_iff)
  qed
  show "be_uint (take 4 buf) = v mod 2 ^ 32" using lb(2) by (simp add: buf l)
  have "r div 256 * 256 + r mod 256 = r" "q div 256 * 256 + q mod 256 = q" "q * 65536 + r = hi" by (simp_all add: hrq)
  moreover have "(16 + q div 256) mod 16 = q div 256" using q' by simp
  ultimately have "time_high buf = hi" using time_high_val [OF ok len] by (simp add: buf l)
  then show "time_high buf = v div 2 ^ 32" by (simp add: hrq(1))
  show "take 2 (drop 8 buf) = [128 + c0 mod 64, c1]" "drop 10 buf = node" by (simp_all add: buf l)
  show "buf ! 6 div 16 = 1" using q' by (simp add: buf l)
qed

lemma getDatePrecision_val:
  assumes "long_laws L val" and "0 \<le> T" and "0 \<le> t" and "t < 10000" and "v = T * 10000 + t" and "v < 2 ^ 60"
    and "be_uint (take 4 buf) = v mod 2 ^ 32" and "time_high buf = v div 2 ^ 32"
  shows "getDatePrecision L buf = (T - unixToGregorian, t)"
proof -
  note law = long_lawsD [OF assms(1)]
  have v0: "0 \<le> v" "T < 115292150460685" using assms(2-6) by simp_all
  have hi: "0 \<le> v div 2 ^ 32" "v div 2 ^ 32 < 2 ^ 31"
    using v0 assms(6) pos_div_less [of v "2 ^ 31" "2 ^ 32"] by (simp_all add: pos_imp_zdiv_nonneg_iff)
  define x where "x = long_fromBits L (be_uint (take 4 buf)) (time_high buf)"
  have x: "val x = v"
    using law(3) [of "v mod 2 ^ 32" "v div 2 ^ 32"] hi by (simp add: x_def assms(7,8))
  define k where "k = long_fromNumber L ticksInMs"
  have k: "val k = 10000" by (simp add: k_def ticksInMs_def law(1) in_long_def)
  have u: "val (long_fromNumber L unixToGregorian) = unixToGregorian" by (simp add: law(1) in_long_def unixToGregorian_def)
  have m: "val (long_modulo L x k) = t" "val (long_div L x k) = T"
    using law(7,8) [of x k] x k v0(1) assms(2-5) by simp_all
  have "val (long_subtract L (long_div L x k) (long_fromNumber L unixToGregorian)) = T - unixToGregorian"
    using law(6) [of "long_div L x k" "long_fromNumber L unixToGregorian"] m u v0(2) assms(2)
    by (simp add: in_long_def unixToGregorian_def)
  then show ?thesis
    using m law(11) v0(2) assms(2-4)
    by (simp add: getDatePrecision_def Let_def x_def [symmetric] k_def [symmetric] unixToGregorian_def)
qed

section \<open>Properties\<close>

text \<open>
  The text of a UUID is read back to the same bytes, and every text the regular expression accepts is
  a UUID whose text is the same in lower case; every other text raises.
\<close>

theorem uuid_text_roundtrip:
  assumes "bytes_ok buf" and "length buf = 16"
  shows "uuid_fromString (uuid_toString buf) = Inr buf
    \<and> (if uuidRegex s
        then \<exists>b. uuid_fromString s = Inr b \<and> length b = 16 \<and> bytes_ok b \<and> uuid_toString b = map js_lower s
        else uuid_fromString s = Inl PlainError)"
  using uuid_print_parse [OF assms] uuid_parse_print [of s] by (simp add: uuid_fromString_def)

theorem uuid_text_roundtrip_witness:
  "uuid_fromString (uuid_toString [0, 17, 34, 51, 68, 85, 102, 119, 136, 153, 170, 187, 204, 221, 238, 255])
    = Inr [0, 17, 34, 51, 68, 85, 102, 119, 136, 153, 170, 187, 204, 221, 238, 255]"
  using uuid_text_roundtrip [of "[0, 17, 34, 51, 68, 85, 102, 119, 136, 153, 170, 187, 204, 221, 238, 255]" "[]"] by simp

text \<open>
  C31: A version 1 UUID made from a date, ticks below 10000, a node and a clock identifier has version 1
  and the IETF variant and gives back the date, the ticks and the node, and the clock identifier but for the two variant bits.
  The date must not be before 1582 and its time in ticks must fit the 60 bits of the format.
\<close>

theorem timeuuid_parts_roundtrip:
  assumes "long_laws L val" and "0 \<le> time + unixToGregorian" and "0 \<le> t" and "t < 10000" and "time_value time t < 2 ^ 60"
    and "bytes_ok [c0, c1]" and "bytes_ok node" and "length node = 6"
  shows "\<exists>buf. new_timeuuid L st now r6 r2 (Some time) (Some t) (IdBuffer node) (IdBuffer [c0, c1]) = (Inr buf, st)
    \<and> getDatePrecision L buf = (time, t) \<and> timeuuid_getNodeId buf = node
    \<and> timeuuid_getClockId buf = [128 + c0 mod 64, c1] \<and> buf ! 6 div 16 = 1 \<and> length buf = 16 \<and> bytes_ok buf"
proof -
  define v where "v = time_value time t"
  define buf where "buf = stamp_version (int32_be (v mod 2 ^ 32) @ uint16_be (v div 2 ^ 32 mod 65536) @ uint16_be (v div 2 ^ 32 div 65536)
      @ [c0, c1] @ node)"
  have v: "0 \<le> v" "v < 2 ^ 60" "v = (time + unixToGregorian) * 10000 + t"
    using assms(2-5) by (simp_all add: v_def time_value_def)
  note b = stamped_buffer [OF v(1,2) assms(6-8), folded buf_def]
  have "new_timeuuid L st now r6 r2 (Some time) (Some t) (IdBuffer node) (IdBuffer [c0, c1]) = (Inr buf, st)"
    using writeTime_val [OF assms(1-5)] assms(4,8) b(1)
    by (simp add: new_timeuuid_def generateBuffer_def getTimeWithTicks_def getTicks_def ticksInMs_def getNodeId_def getClockId_def
        new_uuid_def buf_def v_def)
  moreover have "getDatePrecision L buf = (time, t)"
    using getDatePrecision_val [OF assms(1,2,3,4) v(3,2) b(3,4)] by simp
  ultimately show ?thesis using b by (simp add: timeuuid_getNodeId_def timeuuid_getClockId_def)
qed

theorem timeuuid_parts_roundtrip_witness:
  "\<exists>buf. new_timeuuid word64_long \<lparr>ticks_counter = 0, ticksForCurrentTime = 0, lastTimestamp = 0\<rparr> 0 [] []
      (Some 1700000000000) (Some 1203) (IdBuffer [1, 2, 3, 4, 5, 6]) (IdBuffer [48, 50])
      = (Inr buf, \<lparr>ticks_counter = 0, ticksForCurrentTime = 0, lastTimestamp = 0\<rparr>)
    \<and> getDatePrecision word64_long buf = (1700000000000, 1203)"
  using timeuuid_parts_roundtrip [OF word64_long_laws, of 1700000000000 1203 48 50 "[1, 2, 3, 4, 5, 6]"
      "\<lparr>ticks_counter = 0, ticksForCurrentTime = 0, lastTimestamp = 0\<rparr>" 0 "[]" "[]"]
  by (auto simp: unixToGregorian_def time_value_def)

text \<open>
  The current time with ticks is strictly increasing from call to call while the clock does not go back and no
  millisecond sees more than 10000 calls: each call moves past the last time and ticks given out.
\<close>

theorem now_ticks_increase:
  assumes "lastTimestamp st \<le> now" and "now = lastTimestamp st \<longrightarrow> ticksForCurrentTime st < 9999"
    and "0 \<le> ticksForCurrentTime st" and "getTimeWithTicks st now None ticks = (time, t, st')"
  shows "lastTimestamp st * 10000 + min (ticksForCurrentTime st) 9999 < time * 10000 + t \<and> time = now
    \<and> 0 \<le> t \<and> t < 10000 \<and> lastTimestamp st' = time \<and> ticksForCurrentTime st' = t"
  using assms by (auto simp: getTimeWithTicks_def getTicks_def ticksInMs_def Let_def split: if_splits)

theorem now_ticks_increase_witness:
  "getTimeWithTicks \<lparr>ticks_counter = 0, ticksForCurrentTime = 7, lastTimestamp = 50\<rparr> 50 None None
      = (50, 8, \<lparr>ticks_counter = 0, ticksForCurrentTime = 8, lastTimestamp = 50\<rparr>)
    \<and> (50::int) * 10000 + min 7 9999 < 50 * 10000 + 8"
  using now_ticks_increase [of "\<lparr>ticks_counter = 0, ticksForCurrentTime = 7, lastTimestamp = 50\<rparr>" 50 None 50 8
      "\<lparr>ticks_counter = 0, ticksForCurrentTime = 8, lastTimestamp = 50\<rparr>"]
  by (simp add: getTimeWithTicks_def getTicks_def ticksInMs_def)

end
