(* ===== verification/Utils_Collections.thy ===== *)
theory Utils_Collections
  imports Comparable "HOL-Library.AList" "HOL-Library.Multiset"
begin

text \<open>
  The collection helpers of \<^verbatim>\<open>src/lib/utils.js\<close>: binary search and sorted insertion, the string set
  \<open>HashSet\<close>, shuffling, property objects and the adaptation of named query parameters, and the
  round-robin \<open>AddressResolver\<close>. A property object is the association list of its own properties in
  insertion order (\<^const>\<open>AList.update\<close> replaces in place or appends, \<^const>\<open>AList.delete\<close> removes);
  \<open>undefined\<close> is \<^const>\<open>None\<close>.
\<close>

type_synonym 'v js_object = "(string \<times> 'v) list"

section \<open>Searching and inserting in sorted arrays\<close>

text \<open>
  The loop of \<open>binarySearch\<close>. With more than \<open>2 ^ 31\<close> elements \<open>low + high\<close> no longer fits the unsigned
  shift and the loop need not end, so not returning is the value \<^const>\<open>None\<close>.
\<close>

partial_function (option) binarySearch_loop :: "'a list \<Rightarrow> 'b \<Rightarrow> ('a \<Rightarrow> 'b \<Rightarrow> int) \<Rightarrow> int \<Rightarrow> int \<Rightarrow> int option" where
  "binarySearch_loop arr key compareFunc low high =
    (if low \<le> high
     then let mid = js_shr (low + high) 1; cmp = compareFunc (arr ! nat mid) key
          in if cmp < 0 then binarySearch_loop arr key compareFunc (mid + 1) high
             else if cmp > 0 then binarySearch_loop arr key compareFunc low (mid - 1)
             else Some mid
     else Some (js_not low))"

definition binarySearch :: "'a list \<Rightarrow> 'b \<Rightarrow> ('a \<Rightarrow> 'b \<Rightarrow> int) \<Rightarrow> int option" where
  "binarySearch arr key compareFunc = binarySearch_loop arr key compareFunc 0 (int (length arr) - 1)"

text \<open>\<open>arr.splice(position, 0, item)\<close> for a position in range.\<close>

definition splice_in :: "'a list \<Rightarrow> nat \<Rightarrow> 'a \<Rightarrow> 'a list" where
  "splice_in arr position item = take position arr @ item # drop position arr"

definition insertSorted :: "'a list \<Rightarrow> 'a \<Rightarrow> ('a \<Rightarrow> 'a \<Rightarrow> int) \<Rightarrow> 'a list option" where
  "insertSorted arr item compareFunc =
    (if arr = [] then Some [item]
     else case binarySearch arr item compareFunc of
            None \<Rightarrow> None
          | Some position \<Rightarrow> Some (splice_in arr (nat (if position < 0 then js_not position else position)) item))"

definition propCompare :: "('a \<Rightarrow> 'k::linorder) \<Rightarrow> 'a \<Rightarrow> 'a \<Rightarrow> int" where
  "propCompare attr a b = (if attr a > attr b then 1 else if attr a < attr b then - 1 else 0)"

text \<open>\<open>funcCompare(name, args)\<close> calls a method that the left value may not have.\<close>

definition funcCompare :: "('a \<Rightarrow> 'k::linorder option) \<Rightarrow> 'a \<Rightarrow> 'a \<Rightarrow> int result" where
  "funcCompare meth a b =
    (case meth a of
       None \<Rightarrow> Inr 0
     | Some valA \<Rightarrow>
        (case meth b of
           None \<Rightarrow> Inl TypeError
         | Some valB \<Rightarrow> Inr (if valA > valB then 1 else if valA < valB then - 1 else 0)))"

section \<open>Objects and parameters\<close>

text \<open>The items are given by their \<open>length\<close> property; only a single item's may come out undefined.\<close>

definition totalLength :: "nat option list \<Rightarrow> nat option" where
  "totalLength arr =
    (if length arr = 1 then hd arr
     else Some (foldl (\<lambda>total item. total + (case item of None \<Rightarrow> 0 | Some n \<Rightarrow> n)) 0 arr))"

definition extend_source :: "'v option js_object \<Rightarrow> 'v option js_object \<Rightarrow> 'v option js_object" where
  "extend_source target source =
    foldl (\<lambda>tgt (key, value). if value = None then tgt else AList.update key value tgt) target source"

definition extend :: "'v option js_object \<Rightarrow> 'v option js_object option list \<Rightarrow> 'v option js_object" where
  "extend target sources =
    foldl (\<lambda>tgt source. case source of None \<Rightarrow> tgt | Some src \<Rightarrow> extend_source tgt src) target sources"

definition toLowerCaseProperties :: "'v js_object \<Rightarrow> 'v js_object" where
  "toLowerCaseProperties obj = foldl (\<lambda>result (k, v). AList.update (map js_lower k) v result) [] obj"

datatype 'v query_params = NoParams | ArrayParams "'v list" | NamedParams "'v js_object"

fun collect_params :: "'v js_object \<Rightarrow> string list \<Rightarrow> 'v list result" where
  "collect_params params [] = Inr []"
| "collect_params params (name # columns) =
    (case map_of params name of
       None \<Rightarrow> Inl ArgumentError
     | Some v \<Rightarrow> bind_result (collect_params params columns) (\<lambda>vs. Inr (v # vs)))"

definition adaptNamedParamsPrepared :: "'v query_params \<Rightarrow> string list \<Rightarrow> 'v query_params result" where
  "adaptNamedParamsPrepared params columns =
    (case params of
       NamedParams obj \<Rightarrow>
         if columns = [] then Inr params
         else bind_result (collect_params (toLowerCaseProperties obj) columns) (\<lambda>vs. Inr (ArrayParams vs))
     | _ \<Rightarrow> Inr params)"

record ('v, 'h) adapted_params =
  adapted :: "'v query_params + (string \<times> 'v) list"
  namedParameters :: bool
  keyIndexes :: "nat js_object option"
  new_hints :: "'h option list option"

definition adaptNamedParamsWithHints :: "'v query_params \<Rightarrow> 'h js_object option \<Rightarrow> ('v, 'h) adapted_params" where
  "adaptNamedParamsWithHints params getHints =
    (case params of
       NamedParams obj \<Rightarrow>
         let userHints = (case getHints of None \<Rightarrow> [] | Some h \<Rightarrow> h)
         in \<lparr>adapted = Inr (map (\<lambda>(key, v). (map js_lower key, v)) obj), namedParameters = True,
              keyIndexes = Some (zip (map fst obj) [0..<length obj]),
              new_hints = Some (map (\<lambda>(key, v). map_of userHints key) obj)\<rparr>
     | _ \<Rightarrow> \<lparr>adapted = Inl params, namedParameters = False, keyIndexes = None, new_hints = None\<rparr>)"

definition stringRepeat :: "string \<Rightarrow> int \<Rightarrow> string option" where
  "stringRepeat val n =
    (if n = 0 \<or> n < 0 then None else if n = 1 then Some val
     else Some (concat (replicate (nat n) val)))"

definition objectValues :: "'v js_object option \<Rightarrow> 'v list" where
  "objectValues obj = (case obj of None \<Rightarrow> [] | Some ob \<Rightarrow> map (\<lambda>key. the (map_of ob key)) (map fst ob))"

definition ifUndefined :: "'a option \<Rightarrow> 'a option \<Rightarrow> 'a option" where
  "ifUndefined v1 v2 = (if v1 \<noteq> None then v1 else v2)"

definition ifUndefined3 :: "'a option \<Rightarrow> 'a option \<Rightarrow> 'a option \<Rightarrow> 'a option" where
  "ifUndefined3 v1 v2 v3 = (if v1 \<noteq> None then v1 else if v2 \<noteq> None then v2 else v3)"

text \<open>\<open>Math.random()\<close> of the step at \<open>i\<close> is the fraction \<open>k / n\<close> with \<open>random i = (k, n)\<close> and \<open>k < n\<close>.\<close>

fun shuffle_loop :: "(nat \<Rightarrow> nat \<times> nat) \<Rightarrow> 'a list \<Rightarrow> nat \<Rightarrow> 'a list" where
  "shuffle_loop random arr 0 = arr"
| "shuffle_loop random arr (Suc i) =
    (let j = fst (random (Suc i)) * (Suc i + 1) div snd (random (Suc i)); temp = arr ! Suc i
     in shuffle_loop random ((arr[Suc i := arr ! j])[j := temp]) i)"

definition shuffleArray :: "(nat \<Rightarrow> nat \<times> nat) \<Rightarrow> 'a list \<Rightarrow> 'a list" where
  "shuffleArray random arr = shuffle_loop random arr (length arr - 1)"

section \<open>The string set\<close>

record hash_set =
  hs_length :: int
  hs_items :: "bool js_object"

definition new_hash_set :: hash_set where
  "new_hash_set = \<lparr>hs_length = 0, hs_items = []\<rparr>"

definition hs_contains :: "hash_set \<Rightarrow> string \<Rightarrow> bool" where
  "hs_contains s key \<longleftrightarrow> hs_length s > 0 \<and> map_of (hs_items s) key = Some True"

definition hs_add :: "hash_set \<Rightarrow> string \<Rightarrow> bool \<times> hash_set" where
  "hs_add s key =
    (if hs_contains s key then (False, s)
     else (True, \<lparr>hs_length = hs_length s + 1, hs_items = AList.update key True (hs_items s)\<rparr>))"

text \<open>\<open>remove\<close> answers \<open>false\<close> for a missing key and \<open>undefined\<close> after a removal.\<close>

definition hs_remove :: "hash_set \<Rightarrow> string \<Rightarrow> bool option \<times> hash_set" where
  "hs_remove s key =
    (if \<not> hs_contains s key then (Some False, s)
     else (None, \<lparr>hs_length = hs_length s - 1, hs_items = AList.delete key (hs_items s)\<rparr>))"

definition hs_toArray :: "hash_set \<Rightarrow> string list" where
  "hs_toArray s = map fst (hs_items s)"

section \<open>The address resolver\<close>

text \<open>
  \<open>dns.resolve4\<close> and \<open>net.isIP\<close> are not part of the repository: the outcome of a resolution (an error,
  or the addresses) and whether the name is an address are arguments. \<open>refresh\<close> suspends while it
  resolves; its two halves are two operations, and a call that finds another refresh running waits for its end.
\<close>

record resolver =
  nameOrIp :: string
  isIp :: bool
  res_index :: int
  res_addresses :: "string list option"
  refreshing :: bool

definition new_resolver :: "string option \<Rightarrow> bool \<Rightarrow> bool \<Rightarrow> resolver result" where
  "new_resolver name has_dns is_ip =
    (case name of
       None \<Rightarrow> Inl PlainError
     | Some n \<Rightarrow> if n = [] \<or> \<not> has_dns then Inl PlainError
         else Inr \<lparr>nameOrIp = n, isIp = is_ip, res_index = 0, res_addresses = None, refreshing = False\<rparr>)"

definition res_resolve :: "resolver \<Rightarrow> string list result \<Rightarrow> resolver result" where
  "res_resolve r outcome =
    (case outcome of
       Inl e \<Rightarrow> Inl e
     | Inr arr \<Rightarrow> if arr = [] then Inl PlainError else Inr (r\<lparr>res_addresses := Some arr\<rparr>))"

definition res_init :: "resolver \<Rightarrow> string list result \<Rightarrow> resolver result" where
  "res_init r outcome = (if isIp r then Inr r else res_resolve r outcome)"

datatype refresh_action = RefreshDone | RefreshWait | RefreshResolve

definition res_refresh_begin :: "resolver \<Rightarrow> refresh_action \<times> resolver" where
  "res_refresh_begin r =
    (if isIp r then (RefreshDone, r) else if refreshing r then (RefreshWait, r)
     else (RefreshResolve, r\<lparr>refreshing := True\<rparr>))"

definition res_refresh_end :: "resolver \<Rightarrow> string list result \<Rightarrow> resolver" where
  "res_refresh_end r outcome =
    (case res_resolve r outcome of Inl _ \<Rightarrow> r | Inr r' \<Rightarrow> r')\<lparr>refreshing := False\<rparr>"

definition maxInt32 :: int where "maxInt32 = 2147483647"

definition res_getIp :: "resolver \<Rightarrow> (string \<times> resolver) result" where
  "res_getIp r =
    (if isIp r then Inr (nameOrIp r, r)
     else case res_addresses r of
            None \<Rightarrow> Inl TypeError
          | Some addrs \<Rightarrow> Inr (addrs ! nat (res_index r mod int (length addrs)),
              r\<lparr>res_index := (if res_index r \<noteq> maxInt32 then res_index r + 1 else 0)\<rparr>))"

section \<open>Sorted arrays\<close>

text \<open>What a search answers: the index of an equal element, or the complement of the insertion point.\<close>

definition search_result :: "('a \<Rightarrow> 'k::linorder) \<Rightarrow> 'a list \<Rightarrow> 'k \<Rightarrow> int \<Rightarrow> bool" where
  "search_result key arr k r \<longleftrightarrow>
    (if 0 \<le> r then nat r < length arr \<and> key (arr ! nat r) = k
     else nat (- r - 1) \<le> length arr \<and> (\<forall>x \<in> set (take (nat (- r - 1)) arr). key x < k)
       \<and> (\<forall>x \<in> set (drop (nat (- r - 1)) arr). k < key x))"

lemma js_not_small: "0 \<le> x \<Longrightarrow> x < 2147483648 \<Longrightarrow> js_not x = - x - 1"
  by (simp add: js_not_def not_int_def)

lemma js_not_neg: "- 2147483648 \<le> x \<Longrightarrow> x < 0 \<Longrightarrow> js_not x = - x - 1"
  by (simp add: js_not_def not_int_def)

lemma set_take_drop_update:
  assumes "sorted (map key arr)" and "m < length arr"
  shows "x \<in> set (take (Suc m) arr) \<Longrightarrow> key x \<le> key (arr ! m)" and "x \<in> set (drop m arr) \<Longrightarrow> key (arr ! m) \<le> key x"
proof -
  show "key x \<le> key (arr ! m)" if x: "x \<in> set (take (Suc m) arr)"
  proof -
    obtain i where i: "i < Suc m" "i < length arr" "x = arr ! i" using x by (auto simp: in_set_conv_nth)
    then show ?thesis using assms sorted_nth_mono [OF assms(1), of i m] by simp
  qed
  show "key (arr ! m) \<le> key x" if x: "x \<in> set (drop m arr)"
  proof -
    obtain i where i: "i < length arr - m" "x = arr ! (m + i)" using x by (auto simp: in_set_conv_nth)
    then show ?thesis using assms sorted_nth_mono [OF assms(1), of m "m + i"] by simp
  qed
qed

context comparable
begin

lemma binarySearch_loop_result:
  assumes "sorted (map key arr)" and "\<forall>x \<in> set arr. wf x" and "wf k" and "int (length arr) < 2 ^ 31"
  shows "0 \<le> low \<Longrightarrow> low \<le> high + 1 \<Longrightarrow> high < int (length arr)
    \<Longrightarrow> \<forall>x \<in> set (take (nat low) arr). key x < key k \<Longrightarrow> \<forall>x \<in> set (drop (nat (high + 1)) arr). key k < key x
    \<Longrightarrow> \<exists>r. binarySearch_loop arr k cmp low high = Some r \<and> search_result key arr (key k) r \<and> - (2 ^ 31) \<le> r"
proof (induction "nat (high + 1 - low)" arbitrary: low high rule: less_induct)
  case less
  show ?case
  proof (cases "low \<le> high")
    case False
    then have "high = low - 1" "low < 2147483648" using less.prems assms(4) by simp_all
    moreover from this have "binarySearch_loop arr k cmp low high = Some (- low - 1)"
      using less.prems by (simp add: binarySearch_loop.simps js_not_small)
    ultimately show ?thesis using less.prems by (auto simp: search_result_def)
  next
    case True
    define mid where "mid = (low + high) div 2"
    have sh: "js_shr (low + high) 1 = mid" using less.prems assms(4) True by (simp add: js_shr_div mid_def)
    have mid: "low \<le> mid" "mid \<le> high" "0 \<le> mid" using True less.prems by (simp_all add: mid_def)
    then have in_arr: "nat mid < length arr" using less.prems by simp
    then have wf_mid: "wf (arr ! nat mid)" using assms(2) by simp
    have Suc_mid: "nat (mid + 1) = Suc (nat mid)" using mid by simp
    note order = set_take_drop_update [OF assms(1) in_arr]
    note unfold = binarySearch_loop.simps [of arr k cmp low high] sh True
    consider "cmp (arr ! nat mid) k < 0" | "cmp (arr ! nat mid) k > 0" | "cmp (arr ! nat mid) k = 0" by linarith
    then show ?thesis
    proof cases
      case 1
      then have lt: "key (arr ! nat mid) < key k" using cmp_neg [OF wf_mid assms(3)] by simp
      have "\<exists>r. binarySearch_loop arr k cmp (mid + 1) high = Some r \<and> search_result key arr (key k) r \<and> - (2 ^ 31) \<le> r"
        by (rule less.hyps) (use less.prems mid order(1) lt Suc_mid in \<open>auto intro: le_less_trans\<close>)
      then show ?thesis using 1 unfold by (simp add: Let_def)
    next
      case 2
      then have gt: "key k < key (arr ! nat mid)" using cmp_pos [OF wf_mid assms(3)] by simp
      have "\<exists>r. binarySearch_loop arr k cmp low (mid - 1) = Some r \<and> search_result key arr (key k) r \<and> - (2 ^ 31) \<le> r"
        by (rule less.hyps) (use less.prems mid order(2) gt in \<open>auto intro: less_le_trans\<close>)
      then show ?thesis using 2 unfold by (simp add: Let_def)
    next
      case 3
      then have "key (arr ! nat mid) = key k" using cmp_zero [OF wf_mid assms(3)] by simp
      then show ?thesis using 3 unfold mid in_arr by (simp add: Let_def search_result_def)
    qed
  qed
qed

lemma binarySearch_result:
  assumes "sorted (map key arr)" and "\<forall>x \<in> set arr. wf x" and "wf k" and "int (length arr) < 2 ^ 31"
  shows "\<exists>r. binarySearch arr k cmp = Some r \<and> search_result key arr (key k) r \<and> - (2 ^ 31) \<le> r"
  unfolding binarySearch_def by (rule binarySearch_loop_result [OF assms]) simp_all

lemma insertSorted_sorted:
  assumes "sorted (map key arr)" and "\<forall>x \<in> set arr. wf x" and "wf k" and "int (length arr) < 2 ^ 31"
  shows "\<exists>arr'. insertSorted arr k cmp = Some arr' \<and> sorted (map key arr') \<and> mset arr' = add_mset k (mset arr)
    \<and> length arr' = Suc (length arr)"
proof (cases "arr = []")
  case True
  then show ?thesis by (simp add: insertSorted_def)
next
  case False
  obtain r where r: "binarySearch arr k cmp = Some r" "search_result key arr (key k) r" "- (2 ^ 31) \<le> r"
    using binarySearch_result [OF assms] by blast
  define p where "p = nat (if r < 0 then js_not r else r)"
  have p: "p = (if r < 0 then nat (- r - 1) else nat r)" using r(3) by (simp add: p_def js_not_neg)
  have le: "p \<le> length arr" and bounds: "\<forall>x \<in> set (take p arr). key x \<le> key k" "\<forall>x \<in> set (drop p arr). key k \<le> key x"
  proof -
    show "p \<le> length arr" using r(2) p by (auto simp: search_result_def split: if_splits)
    have "(\<forall>x \<in> set (take p arr). key x \<le> key k) \<and> (\<forall>x \<in> set (drop p arr). key k \<le> key x)"
    proof (cases "r < 0")
      case True
      then show ?thesis using r(2) p by (auto simp: search_result_def intro: less_imp_le)
    next
      case False
      then have n: "nat r < length arr" "key (arr ! nat r) = key k" using r(2) by (simp_all add: search_result_def)
      then show ?thesis using False p set_take_drop_update [OF assms(1) n(1)] by (auto simp: take_Suc_conv_app_nth)
    qed
    then show "\<forall>x \<in> set (take p arr). key x \<le> key k" "\<forall>x \<in> set (drop p arr). key k \<le> key x" by simp_all
  qed
  have "mset (take p arr) + mset (drop p arr) = mset arr" by (metis append_take_drop_id mset_append)
  moreover have "sorted (map key (splice_in arr p k))"
    using bounds sorted_wrt_take [OF assms(1), of p] sorted_wrt_drop [OF assms(1), of p]
    by (auto simp: splice_in_def sorted_append take_map drop_map intro: order_trans)
  ultimately show ?thesis using False r(1) p_def le by (auto simp: insertSorted_def splice_in_def min_def)
qed

end

interpretation prop_order: comparable "propCompare attr" "\<lambda>_. True" attr for attr :: "'a \<Rightarrow> 'k::linorder"
  by unfold_locales (auto simp: propCompare_def)

section \<open>Objects, the set and the resolver\<close>

lemma foldl_update_distinct:
  "distinct (map fst t) \<Longrightarrow> distinct (map fst (foldl (\<lambda>r (k, v). AList.update (f k) (g v) r) t xs))"
  by (induction xs arbitrary: t) (auto simp: distinct_update)

lemma toLowerCaseProperties_distinct: "distinct (map fst (toLowerCaseProperties obj))"
  unfolding toLowerCaseProperties_def using foldl_update_distinct [of "[]" "map js_lower" id] by simp

lemma extend_source_get:
  "distinct (map fst src) \<Longrightarrow> map_of (extend_source tgt src) k
    = (case map_of src k of Some (Some v) \<Rightarrow> Some (Some v) | _ \<Rightarrow> map_of tgt k)"
proof (induction src arbitrary: tgt)
  case (Cons kv src)
  then have "map_of src (fst kv) = None" by (simp add: map_of_eq_None_iff)
  then show ?case using Cons by (cases kv) (auto simp: extend_source_def update_conv' split: option.splits)
qed (simp add: extend_source_def)

lemma collect_params_spec:
  "collect_params params cols =
    (if \<forall>c \<in> set cols. map_of params c \<noteq> None then Inr (map (\<lambda>c. the (map_of params c)) cols) else Inl ArgumentError)"
  by (induction cols) (auto split: option.splits)

lemma objectValues_snd: "distinct (map fst ob) \<Longrightarrow> objectValues (Some ob) = map snd ob"
  by (auto simp: objectValues_def map_of_is_SomeI)

lemma shuffle_loop_mset:
  "\<forall>i. fst (random i) < snd (random i) \<Longrightarrow> i < length arr \<Longrightarrow> mset (shuffle_loop random arr i) = mset arr"
proof (induction random arr i rule: shuffle_loop.induct)
  case (2 random arr i)
  define j where "j = fst (random (Suc i)) * (Suc i + 1) div snd (random (Suc i))"
  have "fst (random (Suc i)) * (Suc i + 1) < snd (random (Suc i)) * (Suc i + 1)" using 2(2) by (simp only: mult_less_mono1 zero_less_Suc Suc_eq_plus1 [symmetric])
  then have j: "j < Suc i + 1" by (simp add: j_def less_mult_imp_div_less mult.commute)
  then have "mset ((arr[Suc i := arr ! j])[j := arr ! Suc i]) = mset arr" using 2(3) by (intro mset_swap) simp_all
  then show ?case using 2(1) [OF j_def refl 2(2)] 2(3) by (simp only: shuffle_loop.simps Let_def j_def [symmetric]) simp
qed simp

lemma shuffleArray_permutes: "\<forall>i. fst (random i) < snd (random i) \<Longrightarrow> mset (shuffleArray random arr) = mset arr"
  by (cases arr) (simp_all add: shuffleArray_def shuffle_loop_mset)

text \<open>The invariant of the set: the counter is the number of keys, all with the value true.\<close>

definition hs_wf :: "hash_set \<Rightarrow> bool" where
  "hs_wf s \<longleftrightarrow> distinct (map fst (hs_items s)) \<and> hs_length s = int (length (hs_items s)) \<and> (\<forall>v \<in> set (map snd (hs_items s)). v)"

definition hs_set :: "hash_set \<Rightarrow> string set" where
  "hs_set s = set (hs_toArray s)"

text \<open>What the callers of the set rely on.\<close>

locale counted_set =
  fixes empty :: 's
    and add :: "'s \<Rightarrow> 'a \<Rightarrow> bool \<times> 's"
    and contains :: "'s \<Rightarrow> 'a \<Rightarrow> bool"
    and size_of :: "'s \<Rightarrow> int"
    and inv :: "'s \<Rightarrow> bool"
    and elems :: "'s \<Rightarrow> 'a set"
  assumes empty_ok: "inv empty" "elems empty = {}"
    and add_ok: "inv s \<Longrightarrow> inv (snd (add s x))" "inv s \<Longrightarrow> elems (snd (add s x)) = insert x (elems s)"
    and add_new: "inv s \<Longrightarrow> fst (add s x) \<longleftrightarrow> x \<notin> elems s"
    and contains_ok: "inv s \<Longrightarrow> contains s x \<longleftrightarrow> x \<in> elems s"
    and size_ok: "inv s \<Longrightarrow> finite (elems s)" "inv s \<Longrightarrow> size_of s = int (card (elems s))"
begin

lemma add_all: "inv s \<Longrightarrow> inv (foldl (\<lambda>t x. snd (add t x)) s xs) \<and> elems (foldl (\<lambda>t x. snd (add t x)) s xs) = elems s \<union> set xs"
  by (induction xs arbitrary: s) (simp_all add: add_ok)

lemma size_all: "size_of (foldl (\<lambda>t x. snd (add t x)) empty xs) = int (card (set xs))"
  using add_all [OF empty_ok(1), of xs] by (simp add: size_ok empty_ok)

lemma size_pos: "inv s \<Longrightarrow> x \<in> elems s \<Longrightarrow> 0 < size_of s"
  using size_ok [of s] by (auto simp: card_gt_0_iff)

end

lemma hs_map_of: "hs_wf s \<Longrightarrow> map_of (hs_items s) key = (if key \<in> hs_set s then Some True else None)"
  by (auto simp: hs_wf_def hs_set_def hs_toArray_def map_of_eq_None_iff)

lemma hs_contains_set: "hs_wf s \<Longrightarrow> hs_contains s key \<longleftrightarrow> key \<in> hs_set s"
  using hs_map_of [of s key] by (auto simp: hs_contains_def hs_wf_def hs_set_def hs_toArray_def)

lemma update_new_key: "k \<notin> fst ` set xs \<Longrightarrow> AList.update k v xs = xs @ [(k, v)]"
  by (induction xs) auto

lemma length_delete_key: "distinct (map fst xs) \<Longrightarrow> k \<in> fst ` set xs \<Longrightarrow> Suc (length (AList.delete k xs)) = length xs"
proof (induction xs)
  case (Cons x xs)
  then show ?case
  proof (cases "fst x = k")
    case True
    then have "AList.delete k xs = xs" using Cons.prems by auto
    then show ?thesis using True by (cases x) simp
  qed (cases x; auto)
qed simp

lemma hs_add_items: "hs_wf s \<Longrightarrow> \<not> hs_contains s key \<Longrightarrow> AList.update key True (hs_items s) = hs_items s @ [(key, True)]"
  using hs_contains_set [of s key] by (simp add: hs_set_def hs_toArray_def update_new_key)

interpretation hash: counted_set new_hash_set hs_add hs_contains hs_length hs_wf hs_set
proof unfold_locales
  show "hs_wf (snd (hs_add s x))" if "hs_wf s" for s x
    using that hs_contains_set [of s x] by (auto simp: hs_add_def hs_add_items) (auto simp: hs_wf_def hs_set_def hs_toArray_def)
  show "hs_set (snd (hs_add s x)) = insert x (hs_set s)" if "hs_wf s" for s x
    using that hs_contains_set [of s x] by (auto simp: hs_add_def hs_set_def hs_toArray_def dom_update)
  show "hs_length s = int (card (hs_set s))" if "hs_wf s" for s
    using that distinct_card [of "map fst (hs_items s)"] by (simp add: hs_wf_def hs_set_def hs_toArray_def)
qed (auto simp: hs_contains_set hs_add_def new_hash_set_def hs_wf_def hs_set_def hs_toArray_def)

lemma hs_remove_ok:
  assumes "hs_wf s"
  shows "hs_wf (snd (hs_remove s key)) \<and> hs_set (snd (hs_remove s key)) = hs_set s - {key}
    \<and> fst (hs_remove s key) = (if key \<in> hs_set s then None else Some False)"
proof (cases "key \<in> hs_set s")
  case True
  then have "key \<in> fst ` set (hs_items s)" by (simp add: hs_set_def hs_toArray_def)
  then have "int (length (AList.delete key (hs_items s))) = hs_length s - 1"
    using assms length_delete_key [of "hs_items s" key] by (simp add: hs_wf_def)
  moreover have "set (AList.delete key (hs_items s)) \<subseteq> set (hs_items s)" by (auto simp: AList.delete_eq)
  ultimately show ?thesis using assms True hs_contains_set [OF assms, of key]
    by (auto simp: hs_remove_def hs_wf_def hs_set_def hs_toArray_def delete_keys distinct_removeAll)
next
  case False
  then show ?thesis using assms hs_contains_set [OF assms, of key] by (auto simp: hs_remove_def)
qed

text \<open>Calls of \<open>getIp\<close> in sequence.\<close>

fun run_getIp :: "nat \<Rightarrow> resolver \<Rightarrow> string list result" where
  "run_getIp 0 r = Inr []"
| "run_getIp (Suc n) r =
    bind_result (res_getIp r) (\<lambda>(ip, r'). bind_result (run_getIp n r') (\<lambda>ips. Inr (ip # ips)))"

lemma run_getIp_round_robin:
  "\<not> isIp r \<Longrightarrow> res_addresses r = Some addrs \<Longrightarrow> 0 \<le> res_index r \<Longrightarrow> res_index r + int n \<le> maxInt32
    \<Longrightarrow> run_getIp n r = Inr (map (\<lambda>k. addrs ! nat ((res_index r + int k) mod int (length addrs))) [0..<n])"
proof (induction n arbitrary: r)
  case (Suc n)
  let ?r = "r\<lparr>res_index := res_index r + 1\<rparr>"
  have "run_getIp n ?r = Inr (map (\<lambda>k. addrs ! nat ((res_index ?r + int k) mod int (length addrs))) [0..<n])"
    by (rule Suc.IH) (use Suc.prems in simp_all)
  moreover have "res_getIp r = Inr (addrs ! nat (res_index r mod int (length addrs)), ?r)"
    using Suc.prems by (simp add: res_getIp_def)
  ultimately show ?case by (simp add: upt_conv_Cons map_Suc_upt [symmetric] ac_simps del: upt_Suc)
qed simp

lemma refresh_single_flight:
  "\<not> isIp r \<Longrightarrow> fst (res_refresh_begin r) = RefreshResolve \<Longrightarrow>
    fst (res_refresh_begin (snd (res_refresh_begin r))) = RefreshWait
    \<and> fst (res_refresh_begin (res_refresh_end (snd (res_refresh_begin r)) outcome)) = RefreshResolve"
  by (auto simp: res_refresh_begin_def res_refresh_end_def res_resolve_def split: if_splits sum.splits)

end
