(* ===== verification/Token_Metadata.thy ===== *)
theory Token_Metadata
  imports Token_Range Utils_Collections
begin

text \<open>
  Token metadata: the ring, primary replicas, token ranges and datacenters that \<open>Metadata.buildTokens\<close> of
  \<^verbatim>\<open>src/lib/metadata/index.js\<close> computes from the hosts, the look-up of the replicas of a token, and the
  replication strategies of \<^verbatim>\<open>src/lib/metadata/schema-parser.js\<close> that map every token of the ring to its replicas.
  The partitioner's \<open>parse\<close>, \<open>stringify\<close> and \<open>hash\<close> are not part of the repository and are parameters.
  Hosts are objects compared by identity; two hosts of the model are equal when all their fields are.
\<close>

section \<open>Building the ring\<close>

record ring_host =
  host_address :: string
  host_datacenter :: string
  host_rack :: "string option"
  host_tokens :: "string list option"

record 'v partitioner =
  pt_tokenizer :: "'v tokenizer"
  pt_parse :: "string \<Rightarrow> 'v token"
  pt_stringify :: "'v token \<Rightarrow> string"
  pt_hash :: "buffer \<Rightarrow> 'v token"

record dc_info =
  hostLength :: int
  dc_racks :: hash_set

record 'v token_map =
  tm_primaryReplicas :: "ring_host js_object"
  tm_ring :: "'v token list"
  tm_tokenRanges :: "'v token_range list"
  tm_ringTokensAsStrings :: "string list"
  tm_datacenters :: "dc_info js_object"

text \<open>The tokens of one host: each is inserted in the ring and recorded with its primary replica.\<close>

fun add_tokens :: "'v partitioner \<Rightarrow> ('v \<Rightarrow> 'v \<Rightarrow> int) \<Rightarrow> ring_host \<Rightarrow> string list
    \<Rightarrow> 'v token list \<times> ring_host js_object \<Rightarrow> ('v token list \<times> ring_host js_object) option" where
  "add_tokens P vcmp h [] st = Some st"
| "add_tokens P vcmp h (tokenString # rest) (allSorted, primaryReplicas) =
    (let token = pt_parse P tokenString
     in case insertSorted allSorted token (token_compare vcmp) of
          None \<Rightarrow> None
        | Some allSorted' \<Rightarrow>
            add_tokens P vcmp h rest (allSorted', AList.update (pt_stringify P token) h primaryReplicas))"

text \<open>A null rack is the key \<open>null\<close> of the set, as every property name is a string.\<close>

definition rack_key :: "string option \<Rightarrow> string" where
  "rack_key r = (case r of None \<Rightarrow> ''null'' | Some s \<Rightarrow> s)"

definition add_datacenter :: "ring_host \<Rightarrow> dc_info js_object \<Rightarrow> dc_info js_object" where
  "add_datacenter h datacenters =
    (let dc = (case map_of datacenters (host_datacenter h) of
                 None \<Rightarrow> \<lparr>hostLength = 0, dc_racks = new_hash_set\<rparr>
               | Some d \<Rightarrow> d)
     in AList.update (host_datacenter h)
          \<lparr>hostLength = hostLength dc + 1, dc_racks = snd (hs_add (dc_racks dc) (rack_key (host_rack h)))\<rparr> datacenters)"

fun add_hosts :: "'v partitioner \<Rightarrow> ('v \<Rightarrow> 'v \<Rightarrow> int) \<Rightarrow> ring_host list
    \<Rightarrow> 'v token list \<times> ring_host js_object \<Rightarrow> dc_info js_object
    \<Rightarrow> (('v token list \<times> ring_host js_object) \<times> dc_info js_object) option" where
  "add_hosts P vcmp [] st dcs = Some (st, dcs)"
| "add_hosts P vcmp (h # hs) st dcs =
    (case host_tokens h of
       None \<Rightarrow> add_hosts P vcmp hs st dcs
     | Some tokens \<Rightarrow>
        (case add_tokens P vcmp h tokens st of
           None \<Rightarrow> None
         | Some st' \<Rightarrow> add_hosts P vcmp hs st' (add_datacenter h dcs)))"

definition build_ranges :: "'v tokenizer \<Rightarrow> 'v token list \<Rightarrow> 'v token_range list" where
  "build_ranges tz ring =
    (if length ring = 1 then [new_range (minToken tz) (minToken tz)]
     else map (\<lambda>i. new_range (ring ! i) (ring ! ((i + 1) mod length ring))) [0..<length ring])"

definition buildTokens :: "'v partitioner \<Rightarrow> ('v \<Rightarrow> 'v \<Rightarrow> int) \<Rightarrow> ring_host list \<Rightarrow> 'v token_map option" where
  "buildTokens P vcmp hosts =
    (case add_hosts P vcmp hosts ([], []) [] of
       None \<Rightarrow> None
     | Some ((allSorted, primaryReplicas), datacenters) \<Rightarrow>
         Some \<lparr>tm_primaryReplicas = primaryReplicas, tm_ring = allSorted,
           tm_tokenRanges = build_ranges (pt_tokenizer P) allSorted,
           tm_ringTokensAsStrings = map (pt_stringify P) allSorted, tm_datacenters = datacenters\<rparr>)"

section \<open>Replication strategies\<close>

type_synonym replicas = "ring_host list js_object"

definition noStrategy :: "ring_host js_object \<Rightarrow> replicas" where
  "noStrategy primaryReplicas = map (\<lambda>(key, h). (key, [h])) primaryReplicas"

definition ring_index :: "nat \<Rightarrow> nat \<Rightarrow> nat \<Rightarrow> nat" where
  "ring_index ringLength i j = (if i + j \<ge> ringLength then (i + j) mod ringLength else i + j)"

definition primary_at :: "ring_host js_object \<Rightarrow> string list \<Rightarrow> nat \<Rightarrow> nat \<Rightarrow> ring_host" where
  "primary_at primaryReplicas strs i j = the (map_of primaryReplicas (strs ! ring_index (length strs) i j))"

fun simple_loop :: "(nat \<Rightarrow> ring_host) \<Rightarrow> int \<Rightarrow> nat list \<Rightarrow> ring_host list \<Rightarrow> ring_host list" where
  "simple_loop next_at rf [] tokenReplicas = tokenReplicas"
| "simple_loop next_at rf (j # js) tokenReplicas =
    (if int (length tokenReplicas) < rf
     then simple_loop next_at rf js
            (if next_at j \<in> set tokenReplicas then tokenReplicas else tokenReplicas @ [next_at j])
     else tokenReplicas)"

definition tokenSimpleStrategy :: "int \<Rightarrow> string list \<Rightarrow> ring_host js_object \<Rightarrow> replicas" where
  "tokenSimpleStrategy replicationFactor strs primaryReplicas =
    (let rf = min replicationFactor (int (length strs))
     in foldl (\<lambda>replicas i. AList.update (strs ! i)
                 (simple_loop (primary_at primaryReplicas strs i) rf [1..<length strs] [the (map_of primaryReplicas (strs ! i))])
                 replicas)
          [] [0..<length strs])"

text \<open>The replication factor of a datacenter, \<open>parseInt(replicationFactors[dc], 10)\<close>; \<open>parseInt(undefined)\<close> is NaN.\<close>

definition dc_factor :: "string js_object \<Rightarrow> string \<Rightarrow> js_number" where
  "dc_factor replicationFactors dc =
    (case map_of replicationFactors dc of None \<Rightarrow> JsNaN | Some s \<Rightarrow> js_parseInt s 10)"

text \<open>\<open>Math.min\<close> with an integer; \<open>None\<close> is NaN.\<close>

fun min_number :: "js_number \<Rightarrow> int \<Rightarrow> int option" where
  "min_number JsNaN n = None"
| "min_number JsInfinity n = Some n"
| "min_number (JsInt k) n = Some (min k n)"

definition is_falsy_number :: "js_number \<Rightarrow> bool" where
  "is_falsy_number n \<longleftrightarrow> n = JsNaN \<or> n = JsInt 0"

definition isDoneForToken :: "string js_object \<Rightarrow> dc_info js_object \<Rightarrow> int js_object \<Rightarrow> bool" where
  "isDoneForToken replicationFactors datacenters replicasByDc =
    list_all (\<lambda>dcName.
      case map_of datacenters dcName of
        None \<Rightarrow> True
      | Some dc \<Rightarrow>
         (case min_number (dc_factor replicationFactors dcName) (hostLength dc) of
            None \<Rightarrow> True
          | Some rf \<Rightarrow> \<not> (rf > 0 \<and>
              (case map_of replicasByDc dcName of None \<Rightarrow> True | Some n \<Rightarrow> n = 0 \<or> n < rf))))
      (map fst replicationFactors)"

record net_state =
  tokenReplicas :: "ring_host list"
  replicasByDc :: "int js_object"
  racksPlaced :: "hash_set js_object"
  skippedHosts :: "ring_host list"

definition addSkippedHosts :: "int \<Rightarrow> int \<Rightarrow> ring_host list \<Rightarrow> ring_host list \<Rightarrow> ring_host list \<times> int" where
  "addSkippedHosts dcRf dcReplicas replicas skipped =
    (let added = take (nat (dcRf - dcReplicas)) skipped in (replicas @ added, int (length added)))"

text \<open>
  The body of the loop over the ring for one host; the flag tells whether the loop breaks. The two tests of
  \<open>h.rack\<close> are false for a null and for an empty rack.
\<close>

definition place_host :: "string js_object \<Rightarrow> dc_info js_object \<Rightarrow> ring_host \<Rightarrow> int \<Rightarrow> int \<Rightarrow> net_state \<Rightarrow> bool \<times> net_state" where
  "place_host replicationFactors datacenters h dcRf dcReplicas st =
    (let dc = host_datacenter h;
         racks = (case map_of (racksPlaced st) dc of None \<Rightarrow> new_hash_set | Some s \<Rightarrow> s);
         all_racks = hs_length (dc_racks (the (map_of datacenters dc)));
         has_rack = (host_rack h \<noteq> None \<and> host_rack h \<noteq> Some []);
         rack = rack_key (host_rack h);
         st = st\<lparr>racksPlaced := AList.update dc racks (racksPlaced st)\<rparr>
     in if has_rack \<and> hs_contains racks rack \<and> hs_length racks < all_racks
        then (False, if int (length (skippedHosts st)) < dcRf - dcReplicas
                     then st\<lparr>skippedHosts := skippedHosts st @ [h]\<rparr> else st)
        else
          let dcReplicas = dcReplicas + 1;
              st = st\<lparr>replicasByDc := AList.update dc dcReplicas (replicasByDc st), tokenReplicas := tokenReplicas st @ [h]\<rparr>;
              (added, racks') = (if has_rack then hs_add racks rack else (False, racks));
              st = st\<lparr>racksPlaced := AList.update dc racks' (racksPlaced st)\<rparr>;
              st = (if has_rack \<and> added \<and> hs_length racks' = all_racks
                    then let (replicas', n) = addSkippedHosts dcRf dcReplicas (tokenReplicas st) (skippedHosts st)
                         in st\<lparr>tokenReplicas := replicas',
                               replicasByDc := AList.update dc (the (map_of (replicasByDc st) dc) + n) (replicasByDc st)\<rparr>
                    else st)
          in (isDoneForToken replicationFactors datacenters (replicasByDc st), st))"

definition net_step :: "string js_object \<Rightarrow> dc_info js_object \<Rightarrow> ring_host \<Rightarrow> net_state \<Rightarrow> bool \<times> net_state" where
  "net_step replicationFactors datacenters h st =
    (if h \<in> set (tokenReplicas st) then (False, st)
     else let dc = host_datacenter h; factor = dc_factor replicationFactors dc
       in if is_falsy_number factor then (False, st)
          else let dcRf = the (min_number factor (hostLength (the (map_of datacenters dc))));
                   dcReplicas = (case map_of (replicasByDc st) dc of None \<Rightarrow> 0 | Some n \<Rightarrow> n)
               in if dcReplicas \<ge> dcRf then (False, st)
                  else place_host replicationFactors datacenters h dcRf dcReplicas st)"

fun net_loop :: "string js_object \<Rightarrow> dc_info js_object \<Rightarrow> ring_host list \<Rightarrow> net_state \<Rightarrow> net_state" where
  "net_loop rfs dcs [] st = st"
| "net_loop rfs dcs (h # hs) st =
    (let (finished, st') = net_step rfs dcs h st in if finished then st' else net_loop rfs dcs hs st')"

definition new_net_state :: net_state where
  "new_net_state = \<lparr>tokenReplicas = [], replicasByDc = [], racksPlaced = [], skippedHosts = []\<rparr>"

definition tokenNetworkStrategy ::
  "string js_object \<Rightarrow> string list \<Rightarrow> ring_host js_object \<Rightarrow> dc_info js_object \<Rightarrow> replicas" where
  "tokenNetworkStrategy replicationFactors strs primaryReplicas datacenters =
    foldl (\<lambda>replicas i. AList.update (strs ! i)
             (tokenReplicas (net_loop replicationFactors datacenters
                (map (primary_at primaryReplicas strs i) [0..<length strs]) new_net_state))
             replicas)
      [] [0..<length strs]"

text \<open>The patterns \<open>/SimpleStrategy$/\<close> and \<open>/NetworkTopologyStrategy$/\<close> test the end of the strategy's name.\<close>

definition ends_with :: "string \<Rightarrow> string \<Rightarrow> bool" where
  "ends_with s suffix \<longleftrightarrow> length suffix \<le> length s \<and> drop (length s - length suffix) s = suffix"

definition tokenToReplica :: "string \<Rightarrow> string js_object \<Rightarrow> 'v token_map \<Rightarrow> replicas" where
  "tokenToReplica strategy strategyOptions tm =
    (let rf = dc_factor strategyOptions ''replication_factor''
     in if ends_with strategy ''SimpleStrategy'' \<and> (case rf of JsNaN \<Rightarrow> False | JsInfinity \<Rightarrow> True | JsInt k \<Rightarrow> k > 1)
        then tokenSimpleStrategy (case rf of JsInt k \<Rightarrow> k | _ \<Rightarrow> int (length (tm_ringTokensAsStrings tm)))
               (tm_ringTokensAsStrings tm) (tm_primaryReplicas tm)
        else if ends_with strategy ''NetworkTopologyStrategy''
        then tokenNetworkStrategy strategyOptions (tm_ringTokensAsStrings tm) (tm_primaryReplicas tm) (tm_datacenters tm)
        else noStrategy (tm_primaryReplicas tm))"

section \<open>Looking up replicas\<close>

record keyspace =
  ks_strategy :: string
  ks_options :: "string js_object"
  ks_replicas :: "replicas option"

record 'v metadata =
  md_tokens :: "'v token_map option"
  md_keyspaces :: "keyspace js_object"

text \<open>The method: without a tokenizer it only logs.\<close>

definition metadata_buildTokens :: "'v partitioner option \<Rightarrow> ('v \<Rightarrow> 'v \<Rightarrow> int) \<Rightarrow> ring_host list \<Rightarrow> 'v metadata \<Rightarrow> 'v metadata option" where
  "metadata_buildTokens tokenizer vcmp hosts md =
    (case tokenizer of
       None \<Rightarrow> Some md
     | Some P \<Rightarrow> map_option (\<lambda>tm. md\<lparr>md_tokens := Some tm\<rparr>) (buildTokens P vcmp hosts))"

datatype 'v token_arg = KeyBuffer buffer | TokenArg "'v token" | RangeArg "'v token_range"

definition getKeyspaceReplicas :: "'v token_map \<Rightarrow> keyspace \<Rightarrow> replicas \<times> keyspace" where
  "getKeyspaceReplicas tm ks =
    (case ks_replicas ks of
       Some r \<Rightarrow> (r, ks)
     | None \<Rightarrow> let r = tokenToReplica (ks_strategy ks) (ks_options ks) tm in (r, ks\<lparr>ks_replicas := Some r\<rparr>))"

definition arg_token :: "'v partitioner \<Rightarrow> 'v token_arg \<Rightarrow> 'v token" where
  "arg_token P arg = (case arg of KeyBuffer b \<Rightarrow> pt_hash P b | TokenArg t \<Rightarrow> t | RangeArg r \<Rightarrow> range_end r)"

text \<open>The index in the ring of the closest token, going round past the end.\<close>

definition closest_index :: "('v \<Rightarrow> 'v \<Rightarrow> int) \<Rightarrow> 'v token list \<Rightarrow> 'v token \<Rightarrow> nat option" where
  "closest_index vcmp ring token =
    (case binarySearch ring token (token_compare vcmp) of
       None \<Rightarrow> None
     | Some r \<Rightarrow> let i = nat (if r < 0 then js_not r else r)
                 in Some (if i \<ge> length ring then i mod length ring else i))"

text \<open>With an empty ring the index is NaN and the closest token undefined, which as a property name is a string too.\<close>

definition closest_key :: "'v token_map \<Rightarrow> nat \<Rightarrow> string" where
  "closest_key tm i = (if i < length (tm_ringTokensAsStrings tm) then tm_ringTokensAsStrings tm ! i else ''undefined'')"

text \<open>
  The outer option is the search not ending; the inner one is \<open>null\<close>, for a ring that is not built or an unknown
  keyspace; the innermost is undefined: the replicas of a missing token, or the missing primary replica in the array.
\<close>

definition getReplicas :: "'v partitioner \<Rightarrow> ('v \<Rightarrow> 'v \<Rightarrow> int) \<Rightarrow> 'v metadata \<Rightarrow> string option \<Rightarrow> 'v token_arg
    \<Rightarrow> (ring_host option list option option \<times> 'v metadata) option" where
  "getReplicas P vcmp md keyspaceName arg =
    (case md_tokens md of
       None \<Rightarrow> Some (None, md)
     | Some tm \<Rightarrow>
        (case keyspaceName of
           None \<Rightarrow> map_option (\<lambda>i. (Some (Some [map_of (tm_primaryReplicas tm) (closest_key tm i)]), md))
                     (closest_index vcmp (tm_ring tm) (arg_token P arg))
         | Some name \<Rightarrow>
            (case map_of (md_keyspaces md) name of
               None \<Rightarrow> Some (None, md)
             | Some ks \<Rightarrow>
                 map_option (\<lambda>i. let (r, ks') = getKeyspaceReplicas tm ks
                   in (Some (map_option (map Some) (map_of r (closest_key tm i))),
                       md\<lparr>md_keyspaces := AList.update name ks' (md_keyspaces md)\<rparr>))
                   (closest_index vcmp (tm_ring tm) (arg_token P arg)))))"

text \<open>
  The ranges on a host: an error where the code reads a property of undefined. With an empty keyspace name and more
  than one token the code passes an undefined keyspace on and raises.
\<close>

definition getTokenRangesForHost :: "'v partitioner \<Rightarrow> 'v metadata \<Rightarrow> string option \<Rightarrow> ring_host
    \<Rightarrow> ('v token_range list option \<times> 'v metadata) result" where
  "getTokenRangesForHost P md keyspaceName host =
    (case md_tokens md of
       None \<Rightarrow> Inr (None, md)
     | Some tm \<Rightarrow>
        (case keyspaceName of
           None \<Rightarrow> if length (tm_ring tm) = 1 then Inr (Some (tm_tokenRanges tm), md) else Inl TypeError
         | Some name \<Rightarrow>
            (case map_of (md_keyspaces md) name of
               None \<Rightarrow> Inr (None, md)
             | Some ks \<Rightarrow>
                if length (tm_ring tm) = 1 then Inr (Some (tm_tokenRanges tm), md)
                else let (r, ks') = getKeyspaceReplicas tm ks;
                         on_host = (\<lambda>rng. case map_of r (pt_stringify P (range_end rng)) of
                                            None \<Rightarrow> None | Some hs \<Rightarrow> Some (host \<in> set hs))
                     in if \<exists>rng \<in> set (tm_tokenRanges tm). on_host rng = None then Inl TypeError
                        else Inr (Some (filter (\<lambda>rng. on_host rng = Some True) (tm_tokenRanges tm)),
                                  md\<lparr>md_keyspaces := AList.update name ks' (md_keyspaces md)\<rparr>))))"

datatype token_source = TokenComponents "buffer list" | TokenText string | TokenBuffer buffer

definition newToken :: "'v partitioner option \<Rightarrow> token_source \<Rightarrow> 'v token result" where
  "newToken tokenizer components =
    (case tokenizer of
       None \<Rightarrow> Inl PlainError
     | Some P \<Rightarrow> Inr (case components of
           TokenComponents bs \<Rightarrow> pt_hash P (concat bs) | TokenText s \<Rightarrow> pt_parse P s | TokenBuffer b \<Rightarrow> pt_hash P b))"

definition newTokenRange :: "'v partitioner option \<Rightarrow> 'v token \<Rightarrow> 'v token \<Rightarrow> 'v token_range result" where
  "newTokenRange tokenizer s e = (case tokenizer of None \<Rightarrow> Inl PlainError | Some _ \<Rightarrow> Inr (new_range s e))"

section \<open>The ring\<close>

text \<open>Every token of the hosts with the host that announces it, in the order of the loops.\<close>

definition announced :: "'v partitioner \<Rightarrow> ring_host list \<Rightarrow> (ring_host \<times> 'v token) list" where
  "announced P hosts =
    concat (map (\<lambda>h. case host_tokens h of None \<Rightarrow> [] | Some ts \<Rightarrow> map (\<lambda>s. (h, pt_parse P s)) ts) hosts)"

definition record_primary :: "'v partitioner \<Rightarrow> (string \<rightharpoonup> ring_host) \<Rightarrow> (ring_host \<times> 'v token) list \<Rightarrow> (string \<rightharpoonup> ring_host)" where
  "record_primary P m xs = foldl (\<lambda>m (h, t). m(pt_stringify P t \<mapsto> h)) m xs"

lemma record_primary_Nil [simp]: "record_primary P m [] = m"
  by (simp add: record_primary_def)

lemma record_primary_Cons [simp]: "record_primary P m ((h, t) # xs) = record_primary P (m(pt_stringify P t \<mapsto> h)) xs"
  by (simp add: record_primary_def)

lemma record_primary_append: "record_primary P m (xs @ ys) = record_primary P (record_primary P m xs) ys"
  by (simp add: record_primary_def)

lemma record_primary_other: "s \<notin> (\<lambda>(h, t). pt_stringify P t) ` set xs \<Longrightarrow> record_primary P m xs s = m s"
  by (induction xs arbitrary: m) auto

lemma record_primary_lookup:
  "distinct (map (\<lambda>(h, t). pt_stringify P t) xs) \<Longrightarrow> (h, t) \<in> set xs \<Longrightarrow> record_primary P m xs (pt_stringify P t) = Some h"
proof (induction xs arbitrary: m)
  case (Cons x xs)
  then show ?case using record_primary_other [of "pt_stringify P t" P xs] by (cases x) auto
qed simp

lemma announced_simps [simp]:
  "announced P [] = []"
  "announced P (h # hs) = (case host_tokens h of None \<Rightarrow> [] | Some ts \<Rightarrow> map (\<lambda>s. (h, pt_parse P s)) ts) @ announced P hs"
  by (simp_all add: announced_def)

text \<open>One entry per distinct key of the ring; ranges go from each token to the next.\<close>

lemma strict_sorted_split:
  assumes "sorted xs" and "distinct xs" and "i < j" and "j < length xs"
  shows "xs ! i < (xs ! j :: 'k::linorder)"
  using assms sorted_nth_mono [of xs i j] nth_eq_iff_index_eq [of xs i j] by (simp add: order_less_le)

sublocale token_ring \<subseteq> tok: comparable "token_compare vcmp" twf tkey
  by unfold_locales (simp_all add: token_compare_def cmp_neg cmp_zero)

context token_ring
begin

lemma add_tokens_ring:
  assumes "sorted (map tkey ring)" and "\<forall>t \<in> set ring. twf t" and "\<forall>s \<in> set ss. twf (pt_parse P s)"
    and "int (length ring + length ss) < 2 ^ 31"
  shows "\<exists>ring' prim'. add_tokens P vcmp h ss (ring, prim) = Some (ring', prim') \<and> sorted (map tkey ring')
    \<and> mset ring' = mset ring + mset (map (pt_parse P) ss)
    \<and> map_of prim' = record_primary P (map_of prim) (map (\<lambda>s. (h, pt_parse P s)) ss)"
  using assms
proof (induction ss arbitrary: ring prim)
  case (Cons s ss)
  obtain ring' where r: "insertSorted ring (pt_parse P s) (token_compare vcmp) = Some ring'" "sorted (map tkey ring')"
      "mset ring' = add_mset (pt_parse P s) (mset ring)" "length ring' = Suc (length ring)"
    using tok.insertSorted_sorted [of ring "pt_parse P s"] Cons.prems by auto
  have "set ring' = insert (pt_parse P s) (set ring)" using arg_cong [OF r(3), of set_mset] by simp
  then obtain ring'' prim'' where
    "add_tokens P vcmp h ss (ring', AList.update (pt_stringify P (pt_parse P s)) h prim) = Some (ring'', prim'')"
    "sorted (map tkey ring'')" "mset ring'' = mset ring' + mset (map (pt_parse P) ss)"
    "map_of prim'' = record_primary P (map_of (AList.update (pt_stringify P (pt_parse P s)) h prim)) (map (\<lambda>s. (h, pt_parse P s)) ss)"
    using Cons.IH [of ring'] Cons.prems r by fastforce
  then show ?case using r(1,3) by (simp add: Let_def update_conv')
qed simp

lemma add_hosts_ring:
  assumes "sorted (map tkey ring)" and "\<forall>t \<in> set ring. twf t" and "\<forall>(h, t) \<in> set (announced P hosts). twf t"
    and "int (length ring + length (announced P hosts)) < 2 ^ 31"
  shows "\<exists>ring' prim' dcs'. add_hosts P vcmp hosts (ring, prim) dcs = Some ((ring', prim'), dcs') \<and> sorted (map tkey ring')
    \<and> mset ring' = mset ring + mset (map snd (announced P hosts))
    \<and> map_of prim' = record_primary P (map_of prim) (announced P hosts)"
  using assms
proof (induction hosts arbitrary: ring prim dcs)
  case (Cons h hosts)
  show ?case
  proof (cases "host_tokens h")
    case None
    then show ?thesis using Cons by simp
  next
    case (Some ts)
    have "\<forall>s \<in> set ts. twf (pt_parse P s)" using Cons.prems(3) Some by fastforce
    then obtain ring' prim' where r: "add_tokens P vcmp h ts (ring, prim) = Some (ring', prim')" "sorted (map tkey ring')"
      "mset ring' = mset ring + mset (map (pt_parse P) ts)"
      "map_of prim' = record_primary P (map_of prim) (map (\<lambda>s. (h, pt_parse P s)) ts)"
      using add_tokens_ring [of ring ts P h prim] Cons.prems Some by auto
    have "set ring' = set ring \<union> pt_parse P ` set ts" using arg_cong [OF r(3), of set_mset] by simp
    moreover have "length ring' = length ring + length ts" using arg_cong [OF r(3), of size] by simp
    ultimately obtain ring'' prim'' dcs'' where
      "add_hosts P vcmp hosts (ring', prim') (add_datacenter h dcs) = Some ((ring'', prim''), dcs'')" "sorted (map tkey ring'')"
      "mset ring'' = mset ring' + mset (map snd (announced P hosts))"
      "map_of prim'' = record_primary P (map_of prim') (announced P hosts)"
      using Cons.IH [of ring' prim' "add_datacenter h dcs"] Cons.prems r(2) Some by fastforce
    then show ?thesis using r(1,3,4) Some by (simp add: record_primary_append comp_def)
  qed
qed simp

lemma buildTokens_ring:
  assumes "\<forall>(h, t) \<in> set (announced P hosts). twf t" and "int (length (announced P hosts)) < 2 ^ 31"
  shows "\<exists>tm. buildTokens P vcmp hosts = Some tm \<and> sorted (map tkey (tm_ring tm))
    \<and> mset (tm_ring tm) = mset (map snd (announced P hosts))
    \<and> map_of (tm_primaryReplicas tm) = record_primary P Map.empty (announced P hosts)
    \<and> tm_tokenRanges tm = build_ranges (pt_tokenizer P) (tm_ring tm)
    \<and> tm_ringTokensAsStrings tm = map (pt_stringify P) (tm_ring tm)"
  using add_hosts_ring [of "[]" P hosts "[]" "[]"] assms by (auto simp: buildTokens_def)

lemma closest_index_range:
  assumes "sorted (map tkey ring)" and "distinct (map tkey ring)" and "\<forall>x \<in> set ring. twf x" and "twf t"
    and "2 \<le> length ring" and "int (length ring) < 2 ^ 31"
  shows "\<exists>i < length ring. closest_index vcmp ring t = Some i
    \<and> (\<forall>j < length ring. range_contains vcmp tz (build_ranges tz ring ! j) t \<longleftrightarrow> (j + 1) mod length ring = i)"
proof -
  let ?n = "length ring"
  obtain r where r: "binarySearch ring t (token_compare vcmp) = Some r" "search_result tkey ring (tkey t) r" "- (2 ^ 31) \<le> r"
    using tok.binarySearch_result [OF assms(1,3,4,6)] by blast
  define p where "p = nat (if r < 0 then js_not r else r)"
  have p: "p = (if r < 0 then nat (- r - 1) else nat r)" using r(3) by (simp add: p_def js_not_neg)
  have less: "tkey (ring ! x) < tkey (ring ! y)" if "x < y" "y < ?n" for x y
    using strict_sorted_split [OF assms(1,2), of x y] that by simp
  have pn: "p \<le> ?n" and before: "\<And>x. x < p \<Longrightarrow> x < ?n \<Longrightarrow> tkey (ring ! x) < tkey t"
    and after: "\<And>x. p \<le> x \<Longrightarrow> x < ?n \<Longrightarrow> tkey t \<le> tkey (ring ! x)"
  proof -
    show "p \<le> ?n" using r(2) p by (auto simp: search_result_def split: if_splits)
    show "tkey (ring ! x) < tkey t" if "x < p" "x < ?n" for x
    proof (cases "r < 0")
      case True
      have "ring ! x \<in> set (take p ring)" using that by (auto simp: in_set_conv_nth)
      then show ?thesis using r(2) p True by (auto simp: search_result_def)
    next
      case False
      then show ?thesis using r(2) p that less [of x "nat r"] by (auto simp: search_result_def)
    qed
    show "tkey t \<le> tkey (ring ! x)" if "p \<le> x" "x < ?n" for x
    proof (cases "r < 0")
      case True
      have "ring ! x \<in> set (drop p ring)" using that by (auto simp: in_set_conv_nth intro!: exI [of _ "x - p"])
      then show ?thesis using r(2) p True by (auto simp: search_result_def intro: less_imp_le)
    next
      case False
      then show ?thesis using r(2) p that less [of "nat r" x] by (cases "nat r = x") (auto simp: search_result_def intro: less_imp_le)
    qed
  qed
  have cl: "closest_index vcmp ring t = Some (if p = ?n then 0 else p)"
    using r(1) pn by (simp add: closest_index_def p_def [symmetric] Let_def)
  have "range_contains vcmp tz (build_ranges tz ring ! j) t \<longleftrightarrow> (j + 1) mod ?n = (if p = ?n then 0 else p)" if j: "j < ?n" for j
  proof -
    let ?e = "(j + 1) mod ?n"
    have "?e < ?n" using j by (intro mod_less_divisor) linarith
    then have wf: "twf (ring ! j)" "twf (ring ! ?e)" using assms(3) j nth_mem by blast+
    have "range_contains vcmp tz (build_ranges tz ring ! j) t
        \<longleftrightarrow> cyclic_interval (tkey (minToken tz)) (tkey (ring ! j)) (tkey (ring ! ?e)) (tkey t)"
      using assms(5) j wf assms(4) contains_iff_cyclic [of "new_range (ring ! j) (ring ! ?e)" t]
      by (simp add: build_ranges_def new_range_def)
    also have "\<dots> \<longleftrightarrow> ?e = (if p = ?n then 0 else p)"
    proof (cases "j + 1 < ?n")
      case True
      then show ?thesis using less [of j "j + 1"] before [of j] after [of j] before [of "j + 1"] after [of "j + 1"]
        by (auto simp: cyclic_interval_def not_less le_Suc_eq) (metis leD linorder_not_less not_less_eq less_antisym)+
    next
      case False
      then have "j + 1 = ?n" using j by simp
      then have e: "?e = 0" and last: "p \<le> j \<or> p = ?n" and "0 < j" using pn assms(5) by (simp_all only: mod_self) linarith+
      then have "tkey (ring ! 0) < tkey (ring ! j)" using less j by simp
      moreover have "tkey (ring ! j) < tkey t \<longleftrightarrow> p = ?n" using last before [of j] after [of j] j by fastforce
      moreover have "tkey t \<le> tkey (ring ! 0) \<longleftrightarrow> p = 0" using before [of 0] after [of 0] assms(5) by fastforce
      ultimately show ?thesis unfolding e using assms(5) by (auto simp: cyclic_interval_def)
    qed
    finally show ?thesis .
  qed
  then show ?thesis using cl pn assms(5) by (intro exI [of _ "if p = ?n then 0 else p"]) auto
qed

end

section \<open>The strategies against the ring order\<close>

text \<open>Reference: the hosts met going round the ring, each at its first occurrence.\<close>

definition meet :: "'a list \<Rightarrow> 'a list \<Rightarrow> 'a list" where
  "meet seen hs = foldl (\<lambda>acc h. if h \<in> set acc then acc else acc @ [h]) seen hs"

lemma meet_simps [simp]:
  "meet seen [] = seen" "meet seen (h # hs) = meet (if h \<in> set seen then seen else seen @ [h]) hs"
  by (simp_all add: meet_def)

lemma meet_prefix: "\<exists>zs. meet seen hs = seen @ zs"
proof (induction hs arbitrary: seen)
  case (Cons h hs)
  then obtain zs where "meet (if h \<in> set seen then seen else seen @ [h]) hs = (if h \<in> set seen then seen else seen @ [h]) @ zs"
    by blast
  then show ?case by simp
qed simp

lemma meet_distinct: "distinct seen \<Longrightarrow> distinct (meet seen hs) \<and> set (meet seen hs) = set seen \<union> set hs"
  by (induction hs arbitrary: seen) auto

lemma simple_loop_take:
  "length acc \<le> nat rf \<Longrightarrow> simple_loop f rf js acc = take (nat rf) (meet acc (map f js))"
proof (induction js arbitrary: acc)
  case (Cons j js)
  show ?case
  proof (cases "int (length acc) < rf")
    case True
    then show ?thesis using Cons.IH [of "if f j \<in> set acc then acc else acc @ [f j]"] by auto
  next
    case False
    obtain zs where "meet acc (map f (j # js)) = acc @ zs" using meet_prefix by blast
    then show ?thesis using False Cons.prems by simp
  qed
qed simp

lemma foldl_update_nth:
  assumes "distinct strs" and "i < m" and "m \<le> length strs"
  shows "map_of (foldl (\<lambda>r i. AList.update (strs ! i) (g i) r) r0 [0..<m]) (strs ! i) = Some (g i)"
  using assms
proof (induction m)
  case (Suc m)
  then show ?case by (cases "i = m") (auto simp: update_conv' nth_eq_iff_index_eq)
qed simp

lemma ring_index_mod: "i < n \<Longrightarrow> ring_index n i j = (i + j) mod n"
  by (simp add: ring_index_def)

lemma primaries_rotate:
  assumes "i < length strs"
  shows "map (primary_at prim strs i) [0..<length strs] = rotate i (map (\<lambda>s. the (map_of prim s)) strs)"
proof (rule nth_equalityI)
  fix k assume "k < length (map (primary_at prim strs i) [0..<length strs])"
  moreover have "(i + k) mod length strs < length strs" using assms by (intro mod_less_divisor) linarith
  ultimately show "map (primary_at prim strs i) [0..<length strs] ! k = rotate i (map (\<lambda>s. the (map_of prim s)) strs) ! k"
    using assms by (simp add: primary_at_def ring_index_mod nth_rotate)
qed simp

lemma simple_strategy_at:
  assumes "distinct strs" and "i < length strs" and "1 < rf"
  shows "map_of (tokenSimpleStrategy rf strs prim) (strs ! i)
    = Some (take (nat (min rf (int (length strs)))) (meet [] (rotate i (map (\<lambda>s. the (map_of prim s)) strs))))"
proof -
  let ?rf = "min rf (int (length strs))" and ?p = "primary_at prim strs i"
  have "[0..<length strs] = 0 # [1..<length strs]" using assms(2) by (subst upt_conv_Cons) auto
  moreover have "?p 0 = the (map_of prim (strs ! i))" using assms(2) by (simp add: primary_at_def ring_index_def)
  ultimately have "meet [] (map ?p [0..<length strs]) = meet [the (map_of prim (strs ! i))] (map ?p [1..<length strs])" by simp
  moreover have "simple_loop ?p ?rf [1..<length strs] [the (map_of prim (strs ! i))]
      = take (nat ?rf) (meet [the (map_of prim (strs ! i))] (map ?p [1..<length strs]))"
    using assms(2,3) by (intro simple_loop_take) auto
  ultimately have run: "simple_loop ?p ?rf [1..<length strs] [the (map_of prim (strs ! i))]
      = take (nat ?rf) (meet [] (rotate i (map (\<lambda>s. the (map_of prim s)) strs)))"
    by (simp only: primaries_rotate [OF assms(2)])
  show ?thesis unfolding tokenSimpleStrategy_def Let_def run [symmetric]
    by (rule foldl_update_nth [OF assms(1,2) order_refl, where
          g = "\<lambda>i. simple_loop (primary_at prim strs i) ?rf [1..<length strs] [the (map_of prim (strs ! i))]"])
qed

text \<open>The replicas a datacenter needs, and the loop of the network strategy when no host is skipped for its rack.\<close>

definition dc_need :: "string js_object \<Rightarrow> dc_info js_object \<Rightarrow> string \<Rightarrow> nat" where
  "dc_need rfs dcs dc =
    (if is_falsy_number (dc_factor rfs dc) then 0
     else nat (the (min_number (dc_factor rfs dc) (hostLength (the (map_of dcs dc))))))"

definition in_dc :: "string \<Rightarrow> ring_host list \<Rightarrow> ring_host list" where
  "in_dc dc = filter (\<lambda>h. host_datacenter h = dc)"

lemma in_dc_simps [simp]:
  "in_dc dc [] = []" "in_dc dc (xs @ ys) = in_dc dc xs @ in_dc dc ys" "in_dc dc [h] = (if host_datacenter h = dc then [h] else [])"
  "set (in_dc dc xs) = {h \<in> set xs. host_datacenter h = dc}"
  by (auto simp: in_dc_def)

fun take_needed :: "(string \<Rightarrow> nat) \<Rightarrow> ring_host list \<Rightarrow> ring_host list \<Rightarrow> ring_host list" where
  "take_needed need acc [] = acc"
| "take_needed need acc (h # hs) =
    take_needed need (if h \<in> set acc \<or> need (host_datacenter h) \<le> length (in_dc (host_datacenter h) acc) then acc else acc @ [h]) hs"

lemma take_needed_full:
  "\<forall>h \<in> set hs. need (host_datacenter h) \<le> length (in_dc (host_datacenter h) acc) \<Longrightarrow> take_needed need acc hs = acc"
  by (induction hs) auto

lemma take_needed_meet:
  "\<forall>dc. in_dc dc acc = take (need dc) (in_dc dc seen) \<Longrightarrow> in_dc dc (take_needed need acc hs) = take (need dc) (in_dc dc (meet seen hs))"
proof (induction hs arbitrary: acc seen)
  case (Cons h hs)
  let ?d = "host_datacenter h"
  have inv: "in_dc dc acc = take (need dc) (in_dc dc seen)" for dc using Cons.prems by blast
  have sub: "h \<in> set acc \<Longrightarrow> h \<in> set seen" using inv [of ?d] set_take_subset [of "need ?d" "in_dc ?d seen"]
    by (metis (mono_tags, lifting) in_dc_simps(4) mem_Collect_eq subset_iff)
  have full: "need ?d \<le> length (in_dc ?d acc)" if "h \<in> set seen" "h \<notin> set acc"
  proof (rule ccontr)
    assume "\<not> ?thesis"
    then have "in_dc ?d acc = in_dc ?d seen" using inv [of ?d] by simp
    then have "h \<in> set (in_dc ?d acc)" using that by simp
    then show False using that by simp
  qed
  let ?acc = "if h \<in> set acc \<or> need ?d \<le> length (in_dc ?d acc) then acc else acc @ [h]"
  let ?seen = "if h \<in> set seen then seen else seen @ [h]"
  have "in_dc dc ?acc = take (need dc) (in_dc dc ?seen)" for dc
    using inv [of dc] sub full by (cases "h \<in> set seen"; cases "dc = ?d") auto
  then show ?case using Cons.IH by simp
qed simp

definition rackless :: "ring_host \<Rightarrow> bool" where
  "rackless h \<longleftrightarrow> host_rack h = None \<or> host_rack h = Some []"

definition dc_count :: "net_state \<Rightarrow> string \<Rightarrow> int" where
  "dc_count st dc = (case map_of (replicasByDc st) dc of None \<Rightarrow> 0 | Some n \<Rightarrow> n)"

lemma place_host_rackless:
  "rackless h \<Longrightarrow> place_host rfs dcs h dcRf n st = (fin, st') \<Longrightarrow>
    fin = isDoneForToken rfs dcs (replicasByDc st') \<and> tokenReplicas st' = tokenReplicas st @ [h]
    \<and> replicasByDc st' = AList.update (host_datacenter h) (n + 1) (replicasByDc st)"
  by (auto simp: place_host_def rackless_def Let_def)

lemma net_step_rackless:
  assumes "rackless h" and "\<forall>dc. dc_count st dc = int (length (in_dc dc (tokenReplicas st)))"
  shows "\<exists>st' fin. net_step rfs dcs h st = (fin, st') \<and> tokenReplicas st' = take_needed (dc_need rfs dcs) (tokenReplicas st) [h]
    \<and> (\<forall>dc. dc_count st' dc = int (length (in_dc dc (tokenReplicas st'))))
    \<and> (fin \<longrightarrow> isDoneForToken rfs dcs (replicasByDc st'))"
proof -
  let ?d = "host_datacenter h"
  have c: "(case map_of (replicasByDc st) ?d of None \<Rightarrow> 0 | Some n \<Rightarrow> n) = int (length (in_dc ?d (tokenReplicas st)))"
    using assms(2) by (simp add: dc_count_def)
  show ?thesis
  proof (cases "h \<in> set (tokenReplicas st) \<or> dc_need rfs dcs ?d \<le> length (in_dc ?d (tokenReplicas st))")
    case True
    then have "net_step rfs dcs h st = (False, st)"
      by (auto simp: net_step_def Let_def c dc_need_def is_falsy_number_def)
    then show ?thesis using True assms(2) by (intro exI [of _ st] exI [of _ False]) simp
  next
    case False
    then have lt: "\<not> is_falsy_number (dc_factor rfs ?d)"
      "int (length (in_dc ?d (tokenReplicas st))) < the (min_number (dc_factor rfs ?d) (hostLength (the (map_of dcs ?d))))"
      by (auto simp: dc_need_def split: if_splits)
    obtain fin st' where p: "place_host rfs dcs h (the (min_number (dc_factor rfs ?d) (hostLength (the (map_of dcs ?d)))))
        (int (length (in_dc ?d (tokenReplicas st)))) st = (fin, st')" by fastforce
    then have "net_step rfs dcs h st = (fin, st')" using lt False by (simp add: net_step_def Let_def c)
    then show ?thesis using place_host_rackless [OF assms(1) p] assms(2) False
      by (auto simp: dc_count_def update_conv')
  qed
qed

lemma done_needs:
  assumes "isDoneForToken rfs dcs byDc" and "map_of dcs dc \<noteq> None"
  shows "int (dc_need rfs dcs dc) \<le> max 0 (case map_of byDc dc of None \<Rightarrow> 0 | Some n \<Rightarrow> n)"
proof (cases "map_of rfs dc")
  case None
  then show ?thesis by (simp add: dc_need_def dc_factor_def is_falsy_number_def)
next
  case (Some s)
  obtain d where d: "map_of dcs dc = Some d" using assms(2) by blast
  have "dc \<in> set (map fst rfs)" using Some map_of_SomeD by force
  then have "case min_number (dc_factor rfs dc) (hostLength d) of
            None \<Rightarrow> True
          | Some rf \<Rightarrow> \<not> (rf > 0 \<and> (case map_of byDc dc of None \<Rightarrow> True | Some n \<Rightarrow> n = 0 \<or> n < rf))"
    using assms(1) d unfolding isDoneForToken_def list_all_iff by (metis (no_types, lifting) option.simps(5))
  then show ?thesis using d
    by (cases "min_number (dc_factor rfs dc) (hostLength d)"; cases "dc_factor rfs dc"; cases "map_of byDc dc")
      (auto simp: dc_need_def is_falsy_number_def)
qed

lemma net_loop_rackless:
  assumes "\<forall>h \<in> set hs. rackless h \<and> map_of dcs (host_datacenter h) \<noteq> None"
    and "\<forall>dc. dc_count st dc = int (length (in_dc dc (tokenReplicas st)))"
  shows "tokenReplicas (net_loop rfs dcs hs st) = take_needed (dc_need rfs dcs) (tokenReplicas st) hs"
  using assms
proof (induction hs arbitrary: st)
  case (Cons h hs)
  obtain st' fin where s: "net_step rfs dcs h st = (fin, st')"
    "tokenReplicas st' = take_needed (dc_need rfs dcs) (tokenReplicas st) [h]"
    "\<forall>dc. dc_count st' dc = int (length (in_dc dc (tokenReplicas st')))" "fin \<longrightarrow> isDoneForToken rfs dcs (replicasByDc st')"
    using net_step_rackless [of h st rfs dcs] Cons.prems by auto
  have "take_needed (dc_need rfs dcs) (tokenReplicas st') hs = tokenReplicas st'" if fin
  proof (rule take_needed_full, rule ballI)
    fix x assume "x \<in> set hs"
    then have "map_of dcs (host_datacenter x) \<noteq> None" using Cons.prems(1) by simp
    then have "int (dc_need rfs dcs (host_datacenter x)) \<le> max 0 (dc_count st' (host_datacenter x))"
      using done_needs that s(4) by (simp add: dc_count_def)
    then show "dc_need rfs dcs (host_datacenter x) \<le> length (in_dc (host_datacenter x) (tokenReplicas st'))"
      using s(3) by simp
  qed
  moreover have "tokenReplicas (net_loop rfs dcs hs st') = take_needed (dc_need rfs dcs) (tokenReplicas st') hs"
    using Cons s(3) by simp
  moreover have "take_needed (dc_need rfs dcs) (tokenReplicas st) (h # hs) = take_needed (dc_need rfs dcs) (tokenReplicas st') hs"
    using s(2) by simp
  ultimately show ?case using s(1) by simp
qed simp

section \<open>Properties\<close>

lemma next_index_inj: "j < n \<Longrightarrow> j' < n \<Longrightarrow> (j + 1) mod n = (j' + 1) mod n \<Longrightarrow> j = (j' :: nat)"
  by (cases "j + 1 = n"; cases "j' + 1 = n") auto

text \<open>
  C5: once the ring is built from at least two (and fewer than \<open>2 ^ 31\<close>) Murmur3 tokens of the hosts, distinct as
  values and as texts, the look-up of a token without a keyspace
  answers one host, and that host announces the end token of a range of the metadata that contains the looked-up token,
  which no other range does: the ranges partition the ring and the primary replica owns the range of the token.
\<close>

theorem murmur3_replica_owns_range:
  assumes "murmur3_minimum (pt_tokenizer P)" and "\<forall>(h, t) \<in> set (announced P hosts). ml_wf (tok_value t)"
    and "2 \<le> length (announced P hosts)" and "int (length (announced P hosts)) < 2 ^ 31"
    and "distinct (map (\<lambda>(h, t). murmur3_key (tok_value t)) (announced P hosts))"
    and "distinct (map (\<lambda>(h, t). pt_stringify P t) (announced P hosts))" and "ml_wf (tok_value token)"
  shows "\<exists>tm h e r. buildTokens P ml_compare hosts = Some tm \<and> (h, e) \<in> set (announced P hosts)
    \<and> getReplicas P ml_compare \<lparr>md_tokens = Some tm, md_keyspaces = kss\<rparr> None (TokenArg token)
        = Some (Some (Some [Some h]), \<lparr>md_tokens = Some tm, md_keyspaces = kss\<rparr>)
    \<and> r \<in> set (tm_tokenRanges tm) \<and> range_end r = e \<and> range_contains ml_compare (pt_tokenizer P) r token
    \<and> (\<forall>r' \<in> set (tm_tokenRanges tm). range_contains ml_compare (pt_tokenizer P) r' token \<longrightarrow> r' = r)"
proof -
  let ?tz = "pt_tokenizer P" and ?key = "\<lambda>t. murmur3_key (tok_value t)"
  note ring = murmur3_token_ring [OF assms(1)]
  obtain tm where tm: "buildTokens P ml_compare hosts = Some tm" "sorted (map ?key (tm_ring tm))"
    "mset (tm_ring tm) = mset (map snd (announced P hosts))"
    "map_of (tm_primaryReplicas tm) = record_primary P Map.empty (announced P hosts)"
    "tm_tokenRanges tm = build_ranges ?tz (tm_ring tm)" "tm_ringTokensAsStrings tm = map (pt_stringify P) (tm_ring tm)"
    using token_ring.buildTokens_ring [OF ring assms(2,4)] by blast
  let ?n = "length (tm_ring tm)"
  have n: "?n = length (announced P hosts)" using arg_cong [OF tm(3), of size] by simp
  have mem: "set (tm_ring tm) = snd ` set (announced P hosts)" using arg_cong [OF tm(3), of set_mset] by simp
  have "mset (map ?key (tm_ring tm)) = mset (map (\<lambda>(h, t). ?key t) (announced P hosts))"
    using tm(3) by (simp add: case_prod_unfold multiset.map_comp comp_def)
  then have dist: "distinct (map ?key (tm_ring tm))" using assms(5) mset_eq_imp_distinct_iff by blast
  have wf: "\<forall>x \<in> set (tm_ring tm). ml_wf (tok_value x)" using mem assms(2) by auto
  have size: "2 \<le> ?n" "int ?n < 2 ^ 31" using n assms(3,4) by simp_all
  obtain i where i: "i < ?n" "closest_index ml_compare (tm_ring tm) token = Some i"
    "\<forall>j < ?n. range_contains ml_compare ?tz (build_ranges ?tz (tm_ring tm) ! j) token \<longleftrightarrow> (j + 1) mod ?n = i"
    using token_ring.closest_index_range [OF ring tm(2) dist wf assms(7) size] by blast
  let ?e = "tm_ring tm ! i"
  have "?e \<in> snd ` set (announced P hosts)" using nth_mem [OF i(1)] by (simp only: mem)
  then obtain h where h: "(h, ?e) \<in> set (announced P hosts)" by force
  have "closest_key tm i = pt_stringify P ?e" using i(1) tm(6) by (simp add: closest_key_def)
  then have "getReplicas P ml_compare \<lparr>md_tokens = Some tm, md_keyspaces = kss\<rparr> None (TokenArg token)
      = Some (Some (Some [Some h]), \<lparr>md_tokens = Some tm, md_keyspaces = kss\<rparr>)"
    using i(2) tm(4) record_primary_lookup [OF assms(6) h] by (simp add: getReplicas_def arg_token_def)
  moreover define j where "j = (if i = 0 then ?n - 1 else i - 1)"
  have j: "j < ?n" "(j + 1) mod ?n = i" using i(1) n assms(3) by (auto simp: j_def)
  let ?r = "build_ranges ?tz (tm_ring tm) ! j"
  have len: "length (build_ranges ?tz (tm_ring tm)) = ?n" using n assms(3) by (simp add: build_ranges_def)
  have "range_end ?r = ?e" using j n assms(3) by (simp add: build_ranges_def new_range_def)
  moreover have "range_contains ml_compare ?tz ?r token" using i(3) j by simp
  moreover have "r' = ?r" if r': "r' \<in> set (tm_tokenRanges tm)" "range_contains ml_compare ?tz r' token" for r'
  proof -
    obtain j' where "j' < ?n" "r' = build_ranges ?tz (tm_ring tm) ! j'" using r'(1) tm(5) len by (auto simp: in_set_conv_nth)
    moreover from this have "(j' + 1) mod ?n = i" using i(3) r'(2) by simp
    ultimately show ?thesis using next_index_inj j by metis
  qed
  moreover have "?r \<in> set (tm_tokenRanges tm)" using j(1) len tm(5) by simp
  ultimately show ?thesis using tm(1) h by blast
qed

theorem murmur3_replica_owns_range_witness:
  "let P = \<lparr>pt_tokenizer = murmur3_tokenizer (\<lambda>_ _ _. []),
             pt_parse = (\<lambda>s. \<lparr>tok_kind = Murmur3Token, tok_value = new_mutable_long (int (digits_value 10 s)) 0 0 0\<rparr>),
             pt_stringify = (\<lambda>t. show_nat (nat (murmur3_key (tok_value t)))), pt_hash = (\<lambda>_. undefined)\<rparr>;
       h = (\<lambda>a ts. \<lparr>host_address = a, host_datacenter = ''dc'', host_rack = None, host_tokens = Some ts\<rparr>)
   in \<exists>tm h' md. buildTokens P ml_compare [h ''A'' [''9''], h ''B'' [''4'']] = Some tm
     \<and> getReplicas P ml_compare \<lparr>md_tokens = Some tm, md_keyspaces = []\<rparr> None (TokenArg (pt_parse P ''5'')) = Some (Some (Some [Some h']), md)"
proof -
  let ?P = "\<lparr>pt_tokenizer = murmur3_tokenizer (\<lambda>_ _ _. []),
             pt_parse = (\<lambda>s. \<lparr>tok_kind = Murmur3Token, tok_value = new_mutable_long (int (digits_value 10 s)) 0 0 0\<rparr>),
             pt_stringify = (\<lambda>t. show_nat (nat (murmur3_key (tok_value t)))), pt_hash = (\<lambda>_. undefined)\<rparr>"
  let ?h = "\<lambda>a ts. \<lparr>host_address = a, host_datacenter = ''dc'', host_rack = None, host_tokens = Some ts\<rparr>"
  have d: "digits_value 10 ''9'' = 9" "digits_value 10 ''4'' = 4" by code_simp+
  have k: "murmur3_key (new_mutable_long 9 0 0 0) = 9" "murmur3_key (new_mutable_long 4 0 0 0) = 4" using ml_small by simp_all
  have s: "show_nat 9 \<noteq> show_nat 4" by code_simp
  show ?thesis
    using murmur3_replica_owns_range [of ?P "[?h ''A'' [''9''], ?h ''B'' [''4'']]" "pt_parse ?P ''5''" "[]"] d k s
    by (simp add: murmur3_tokenizer_minimum ml_wf_intros Let_def) blast
qed

text \<open>
  C6: under the simple strategy the replicas of a token are the first distinct hosts met from it round the ring, as many as
  the replication factor or as there are hosts.
\<close>

theorem simple_strategy_replicas:
  assumes "distinct strs" and "i < length strs" and "1 < rf"
  shows "\<exists>hs. map_of (tokenSimpleStrategy rf strs prim) (strs ! i) = Some hs
    \<and> hs = take (nat rf) (meet [] (rotate i (map (\<lambda>s. the (map_of prim s)) strs)))
    \<and> hd hs = the (map_of prim (strs ! i)) \<and> distinct hs
    \<and> int (length hs) = min rf (int (card ((\<lambda>s. the (map_of prim s)) ` set strs)))"
proof -
  let ?owners = "map (\<lambda>s. the (map_of prim s)) strs"
  let ?m = "meet [] (rotate i ?owners)"
  have d: "distinct ?m" "set ?m = set ?owners" using meet_distinct [of "[]" "rotate i ?owners"] by simp_all
  then have len: "length ?m = card (set ?owners)" using distinct_card by fastforce
  then have "length ?m \<le> length strs" using card_length [of ?owners] by simp
  then have "take (nat (min rf (int (length strs)))) ?m = take (nat rf) ?m" using assms(3) by (auto simp: min_def)
  moreover obtain zs where "?m = ?owners ! i # zs"
  proof -
    have ne: "?owners \<noteq> []" using assms(2) by (cases strs) simp_all
    then have "rotate i ?owners \<noteq> []" by simp
    moreover have "hd (rotate i ?owners) = ?owners ! i" using assms(2) hd_rotate_conv_nth [OF ne, of i] by simp
    ultimately obtain rest where "rotate i ?owners = ?owners ! i # rest" by (metis list.collapse)
    then show ?thesis using that meet_prefix [of "[?owners ! i]" rest] by auto
  qed
  ultimately show ?thesis using simple_strategy_at [OF assms, of prim] d(1) len assms(2,3)
    by (cases "nat rf") (auto simp: distinct_take min_def dest: in_set_takeD)
qed

theorem simple_strategy_replicas_witness:
  "let h = (\<lambda>a. \<lparr>host_address = a, host_datacenter = ''dc'', host_rack = None, host_tokens = None\<rparr>)
   in map_of (tokenSimpleStrategy 2 [''1'', ''2'', ''3''] [(''1'', h ''A''), (''2'', h ''A''), (''3'', h ''B'')]) ''2'' = Some [h ''A'', h ''B'']"
  using simple_strategy_replicas [of "[''1'', ''2'', ''3'']" 1 2
      "let h = (\<lambda>a. \<lparr>host_address = a, host_datacenter = ''dc'', host_rack = None, host_tokens = None\<rparr>)
       in [(''1'', h ''A''), (''2'', h ''A''), (''3'', h ''B'')]"]
  by (simp add: Let_def rotate_def)

text \<open>
  C7: under the network topology strategy, when no host names a rack, the replicas of a token within each datacenter are
  the first distinct hosts of that datacenter met from the token round the ring, as many as its replication factor or its hosts.
\<close>

theorem network_strategy_rackless:
  assumes "distinct strs" and "i < length strs"
    and "\<forall>s \<in> set strs. rackless (the (map_of prim s)) \<and> map_of dcs (host_datacenter (the (map_of prim s))) \<noteq> None"
  shows "\<exists>hs. map_of (tokenNetworkStrategy rfs strs prim dcs) (strs ! i) = Some hs
    \<and> (\<forall>dc. in_dc dc hs = take (dc_need rfs dcs dc) (in_dc dc (meet [] (rotate i (map (\<lambda>s. the (map_of prim s)) strs)))))"
proof -
  let ?ring = "rotate i (map (\<lambda>s. the (map_of prim s)) strs)"
  have "tokenReplicas (net_loop rfs dcs ?ring new_net_state) = take_needed (dc_need rfs dcs) [] ?ring"
    using net_loop_rackless [of ?ring dcs new_net_state rfs] assms(3) by (simp add: new_net_state_def dc_count_def)
  moreover have "map_of (tokenNetworkStrategy rfs strs prim dcs) (strs ! i) = Some (tokenReplicas (net_loop rfs dcs ?ring new_net_state))"
    unfolding tokenNetworkStrategy_def primaries_rotate [OF assms(2), symmetric]
    by (rule foldl_update_nth [OF assms(1,2) order_refl, where
          g = "\<lambda>i. tokenReplicas (net_loop rfs dcs (map (primary_at prim strs i) [0..<length strs]) new_net_state)"])
  ultimately show ?thesis using take_needed_meet [of "[]" "dc_need rfs dcs" "[]"] by simp
qed

theorem network_strategy_rackless_witness:
  "let h = (\<lambda>a dc. \<lparr>host_address = a, host_datacenter = dc, host_rack = None, host_tokens = None\<rparr>);
       A = h ''A'' ''d1''; B = h ''B'' ''d2''; C = h ''C'' ''d1'';
       dcs = add_datacenter C (add_datacenter B (add_datacenter A []))
   in \<exists>hs. map_of (tokenNetworkStrategy [(''d1'', ''1''), (''d2'', ''2'')] [''1'', ''2'', ''3'']
        [(''1'', A), (''2'', B), (''3'', C)] dcs) ''2'' = Some hs \<and> in_dc ''d1'' hs = [C] \<and> in_dc ''d2'' hs = [B]"
proof -
  let ?h = "\<lambda>a dc. \<lparr>host_address = a, host_datacenter = dc, host_rack = None, host_tokens = None\<rparr>"
  let ?A = "?h ''A'' ''d1''" and ?B = "?h ''B'' ''d2''" and ?C = "?h ''C'' ''d1''"
  let ?rfs = "[(''d1'', ''1''), (''d2'', ''2'')]" and ?dcs = "add_datacenter ?C (add_datacenter ?B (add_datacenter ?A []))"
  have "dc_need ?rfs ?dcs ''d1'' = 1" "dc_need ?rfs ?dcs ''d2'' = 1" by code_simp+
  moreover have "map_of ?dcs ''d1'' \<noteq> None" "map_of ?dcs ''d2'' \<noteq> None" by code_simp+
  ultimately show ?thesis
    using network_strategy_rackless [of "[''1'', ''2'', ''3'']" 1 "[(''1'', ?A), (''2'', ?B), (''3'', ?C)]" ?dcs ?rfs]
    by (simp add: Let_def rotate_def rackless_def) (auto simp: in_dc_def)
qed

text \<open>
  With racks, a host met twice while it is skipped is added twice. In a datacenter of the four hosts A, B, C and D, of
  which C alone is in the second rack, with replication factor 4 and the ring A B B C D, the replicas of the first
  token are A, C, B, B and D is left out.
\<close>

theorem network_strategy_duplicate:
  "let h = (\<lambda>a r. \<lparr>host_address = a, host_datacenter = ''dc'', host_rack = Some r, host_tokens = None\<rparr>);
       A = h ''A'' ''r1''; B = h ''B'' ''r1''; C = h ''C'' ''r2''; D = h ''D'' ''r1'';
       dcs = add_datacenter D (add_datacenter C (add_datacenter B (add_datacenter A [])))
   in map_of (tokenNetworkStrategy [(''dc'', ''4'')] [''1'', ''2'', ''3'', ''4'', ''5'']
        [(''1'', A), (''2'', B), (''3'', B), (''4'', C), (''5'', D)] dcs) ''1'' = Some [A, C, B, B]"
  by code_simp

end
