(* ===== verification/Utils_Async.thy ===== *)
theory Utils_Async
  imports Js_Prelude "HOL-Library.Multiset"
begin

text \<open>
  The control flow helpers of \<^verbatim>\<open>src/lib/utils.js\<close>: functions that start tasks and call a callback when
  they are done. A task gets the closure \<open>next\<close> and calls it once, during its own call or in a later turn of the event
  loop; the order in which tasks call it is not known. The closures' variables are the state of the model, a call of \<open>next\<close> is an
  operation on it, and the calls of the user's callback are recorded in the state.

  \<open>each\<close>, \<open>mapEach\<close> (which is \<open>map\<close> and \<open>forEachOf\<close>), \<open>parallel\<close> and \<open>times\<close> start everything and count; \<open>timesLimit\<close> keeps at most
  \<open>limit\<close> tasks running; \<open>eachSeries\<close>, \<open>mapSeries\<close>, \<open>series\<close>, \<open>timesSeries\<close> and \<open>whilst\<close> run one task after the other.
\<close>

section \<open>Starting everything\<close>

text \<open>\<open>cb_live\<close> tells whether the variable \<open>callback\<close> still holds the user's callback and not \<open>noop\<close>.\<close>

record 'e gather =
  completed :: nat
  cb_live :: bool
  cb_calls :: "'e option list"

definition new_gather :: "'e gather" where
  "new_gather = \<lparr>completed = 0, cb_live = True, cb_calls = []\<rparr>"

definition invoke_cb :: "'e option \<Rightarrow> 'e gather \<Rightarrow> 'e gather" where
  "invoke_cb err st = (if cb_live st then st\<lparr>cb_calls := cb_calls st @ [err]\<rparr> else st)"

definition each_next :: "nat \<Rightarrow> 'e option \<Rightarrow> 'e gather \<Rightarrow> 'e gather" where
  "each_next len err st =
    (if err \<noteq> None then (invoke_cb err st)\<lparr>cb_live := False\<rparr>
     else let st = st\<lparr>completed := completed st + 1\<rparr>
          in if completed st \<noteq> len then st else invoke_cb None st)"

definition each_start :: "'a list \<Rightarrow> 'e gather" where
  "each_start arr = (if length arr = 0 then invoke_cb None new_gather else new_gather)"

definition parallel_next :: "nat \<Rightarrow> 'e option \<Rightarrow> 'e gather \<Rightarrow> 'e gather" where
  "parallel_next len err st =
    (if err \<noteq> None then (invoke_cb err st)\<lparr>cb_live := False\<rparr>
     else let st = st\<lparr>completed := completed st + 1\<rparr>
          in if completed st \<noteq> len then st else invoke_cb None st)"

definition parallel_start :: "'a list \<Rightarrow> 'e gather" where
  "parallel_start arr = new_gather"

text \<open>\<open>+count\<close> may be NaN, which is \<^const>\<open>None\<close>; the count is compared with the counter as a number.\<close>

definition times_start :: "int option \<Rightarrow> 'e gather" where
  "times_start cnt = (if cnt = None \<or> cnt = Some 0 then invoke_cb None new_gather else new_gather)"

definition times_tasks :: "int option \<Rightarrow> nat" where
  "times_tasks cnt = (case cnt of None \<Rightarrow> 0 | Some n \<Rightarrow> nat n)"

definition times_next :: "int \<Rightarrow> 'e option \<Rightarrow> 'e gather \<Rightarrow> 'e gather" where
  "times_next cnt err st =
    (if err \<noteq> None then (invoke_cb err st)\<lparr>cb_live := False\<rparr>
     else let st = st\<lparr>completed := completed st + 1\<rparr>
          in if int (completed st) \<noteq> cnt then st else invoke_cb None st)"

text \<open>\<open>mapEach\<close> also stores the transformed item; its callback gets the error or the array of results.\<close>

record ('e, 'b) map_state =
  map_completed :: nat
  map_live :: bool
  map_result :: "'b option list"
  map_calls :: "('e option \<times> 'b option list) list"

definition mapEach_start :: "'a list \<Rightarrow> ('e, 'b) map_state" where
  "mapEach_start arr =
    \<lparr>map_completed = 0, map_live = True, map_result = replicate (length arr) None,
     map_calls = (if length arr = 0 then [(None, [])] else [])\<rparr>"

definition mapEach_next :: "nat \<Rightarrow> 'e option \<Rightarrow> ('e, 'b) map_state \<Rightarrow> ('e, 'b) map_state" where
  "mapEach_next len err st =
    (if err \<noteq> None
     then st\<lparr>map_live := False, map_calls := (if map_live st then map_calls st @ [(err, [])] else map_calls st)\<rparr>
     else let st = st\<lparr>map_completed := map_completed st + 1\<rparr>
          in if map_completed st \<noteq> len then st
             else if map_live st then st\<lparr>map_calls := map_calls st @ [(None, map_result st)]\<rparr> else st)"

definition mapItemCallback :: "nat \<Rightarrow> nat \<Rightarrow> 'e option \<Rightarrow> 'b option \<Rightarrow> ('e, 'b) map_state \<Rightarrow> ('e, 'b) map_state" where
  "mapItemCallback len i err transformed st =
    mapEach_next len err (st\<lparr>map_result := (map_result st)[i := transformed]\<rparr>)"

section \<open>A bounded number of running tasks\<close>

text \<open>
  The variables of \<open>timesLimit\<close>; \<open>tl_loop\<close> is \<open>i\<close>, which is the loop's index while the first tasks are started and
  \<open>-1\<close> afterwards. \<open>tl_running\<close> are the tasks that were called and have not called \<open>next\<close>, \<open>tl_ticks\<close> the calls put off with
  \<open>process.nextTick\<close>.
\<close>

record 'e times_limit =
  tl_sync :: "bool option"
  tl_index :: int
  tl_loop :: int
  tl_completed :: int
  tl_live :: bool
  tl_calls :: "'e option list"
  tl_running :: "int multiset"
  tl_ticks :: "int list"

definition timesLimit_init :: "int \<Rightarrow> int \<Rightarrow> 'e times_limit" where
  "timesLimit_init cnt limit =
    \<lparr>tl_sync = None, tl_index = min limit cnt - 1, tl_loop = 0, tl_completed = 0, tl_live = True, tl_calls = [],
     tl_running = {#}, tl_ticks = []\<rparr>"

definition timesLimit_next :: "int \<Rightarrow> 'e option \<Rightarrow> 'e times_limit \<Rightarrow> 'e times_limit" where
  "timesLimit_next cnt err st =
    (if err \<noteq> None
     then st\<lparr>tl_live := False, tl_calls := (if tl_live st then tl_calls st @ [err] else tl_calls st)\<rparr>
     else let st = st\<lparr>tl_completed := tl_completed st + 1\<rparr>
       in if tl_completed st = cnt
          then (if tl_live st then st\<lparr>tl_calls := tl_calls st @ [None]\<rparr> else st)
          else let st = st\<lparr>tl_index := tl_index st + 1\<rparr>
            in if tl_index st \<ge> cnt then st
               else let st = (if tl_sync st = None then st\<lparr>tl_sync := Some (tl_loop st \<ge> 0)\<rparr> else st)
                 in if tl_sync st = Some True then st\<lparr>tl_ticks := tl_ticks st @ [tl_index st]\<rparr>
                    else st\<lparr>tl_running := add_mset (tl_index st) (tl_running st)\<rparr>)"

text \<open>
  The steps: the loop starts the next task or ends, a scheduled call is made, a running task calls \<open>next\<close> (any of them,
  also while the loop runs).
\<close>

inductive timesLimit_step :: "int \<Rightarrow> int \<Rightarrow> 'e times_limit \<Rightarrow> 'e times_limit \<Rightarrow> bool" for cnt limit where
  loop_call: "0 \<le> tl_loop st \<Longrightarrow> tl_loop st < min limit cnt \<Longrightarrow>
    timesLimit_step cnt limit st (st\<lparr>tl_running := add_mset (tl_loop st) (tl_running st), tl_loop := tl_loop st + 1\<rparr>)"
| loop_end: "0 \<le> tl_loop st \<Longrightarrow> min limit cnt \<le> tl_loop st \<Longrightarrow> timesLimit_step cnt limit st (st\<lparr>tl_loop := - 1\<rparr>)"
| tick: "tl_ticks st = i # rest \<Longrightarrow> tl_loop st = - 1 \<Longrightarrow>
    timesLimit_step cnt limit st (st\<lparr>tl_running := add_mset i (tl_running st), tl_ticks := rest\<rparr>)"
| task_done: "i \<in># tl_running st \<Longrightarrow>
    timesLimit_step cnt limit st (timesLimit_next cnt err (st\<lparr>tl_running := tl_running st - {#i#}\<rparr>))"

section \<open>One task after the other\<close>

text \<open>What \<open>next\<close> does: call the callback, call the next task, or put the call off to the next tick.\<close>

datatype 'e action = Callback "'e option" | Call nat | Schedule nat

record series_state =
  sr_index :: nat
  sr_sync :: "bool option"

definition mark_sync :: "series_state \<Rightarrow> series_state" where
  "mark_sync st = (if sr_sync st = None then st\<lparr>sr_sync := Some True\<rparr> else st)"

text \<open>After the first task's call returns, \<open>if (sync === undefined) sync = false\<close>.\<close>

definition mark_async :: "series_state \<Rightarrow> series_state" where
  "mark_async st = (if sr_sync st = None then st\<lparr>sr_sync := Some False\<rparr> else st)"

definition eachSeries_next :: "nat \<Rightarrow> 'e option \<Rightarrow> series_state \<Rightarrow> 'e action \<times> series_state" where
  "eachSeries_next len err st =
    (if err \<noteq> None then (Callback err, st)
     else if sr_index st \<ge> len then (Callback None, st)
     else let st = mark_sync st
          in if sr_sync st = Some True then (Schedule (sr_index st), st)
             else (Call (sr_index st), st\<lparr>sr_index := sr_index st + 1\<rparr>))"

text \<open>The function given to \<open>nextTick\<close>: it reads and advances the index when it runs.\<close>

definition eachSeries_tick :: "nat \<Rightarrow> series_state \<Rightarrow> nat \<times> series_state" where
  "eachSeries_tick _ st = (sr_index st, st\<lparr>sr_index := sr_index st + 1\<rparr>)"

definition mapSeries_next :: "nat \<Rightarrow> 'e option \<Rightarrow> series_state \<Rightarrow> 'e action \<times> series_state" where
  "mapSeries_next len err st =
    (if err \<noteq> None then (Callback err, st)
     else let st = st\<lparr>sr_index := sr_index st + 1\<rparr>
       in if sr_index st = len then (Callback None, st)
          else let st = mark_sync st
            in if sr_sync st = Some True then (Schedule (sr_index st), st) else (Call (sr_index st), st))"

definition captured_tick :: "nat \<Rightarrow> series_state \<Rightarrow> nat \<times> series_state" where
  "captured_tick i st = (i, st)"

definition timesSeries_next :: "nat \<Rightarrow> 'e option \<Rightarrow> series_state \<Rightarrow> 'e action \<times> series_state" where
  "timesSeries_next cnt err st =
    (if err \<noteq> None then (Callback err, st)
     else if sr_index st = cnt then (Callback None, st)
     else let st = mark_sync st; i = sr_index st; st = st\<lparr>sr_index := sr_index st + 1\<rparr>
          in if sr_sync st = Some True then (Schedule i, st) else (Call i, st))"

text \<open>In \<open>series\<close> the flag is true exactly during a call of a task; undefined and false are both falsy.\<close>

definition series_next :: "nat \<Rightarrow> 'e option \<Rightarrow> series_state \<Rightarrow> 'e action \<times> series_state" where
  "series_next len err st =
    (if err \<noteq> None then (Callback err, st)
     else if sr_index st = len then (Callback None, st)
     else if sr_sync st = Some True then (Schedule (sr_index st), st)
     else (Call (sr_index st), st\<lparr>sr_sync := Some True, sr_index := sr_index st + 1\<rparr>))"

definition series_tick :: "nat \<Rightarrow> series_state \<Rightarrow> nat \<times> series_state" where
  "series_tick _ st = (sr_index st, st\<lparr>sr_sync := Some True, sr_index := sr_index st + 1\<rparr>)"

definition series_return :: "series_state \<Rightarrow> series_state" where
  "series_return st = st\<lparr>sr_sync := Some False\<rparr>"

text \<open>\<open>whilst\<close>: the condition's answer depends on how often the body was called.\<close>

record whilst_state =
  wh_calls :: nat
  wh_sync :: nat

definition whilst_next :: "(nat \<Rightarrow> bool) \<Rightarrow> 'e option \<Rightarrow> whilst_state \<Rightarrow> 'e action \<times> whilst_state" where
  "whilst_next condition err st =
    (if err \<noteq> None then (Callback err, st)
     else if \<not> condition (wh_calls st) then (Callback None, st)
     else if wh_sync st = 0 then (Call (wh_calls st), st\<lparr>wh_sync := 1, wh_calls := wh_calls st + 1\<rparr>)
     else if wh_sync st = 4 then (Schedule (wh_calls st), st)
     else (Call (wh_calls st), st\<lparr>wh_calls := wh_calls st + 1\<rparr>))"

text \<open>The callback of the first call marks it as synchronous when it runs during that call.\<close>

definition whilst_complete :: "(nat \<Rightarrow> bool) \<Rightarrow> 'e option \<Rightarrow> whilst_state \<Rightarrow> 'e action \<times> whilst_state" where
  "whilst_complete condition err st = whilst_next condition err (if wh_sync st = 1 then st\<lparr>wh_sync := 4\<rparr> else st)"

definition whilst_tick :: "nat \<Rightarrow> whilst_state \<Rightarrow> nat \<times> whilst_state" where
  "whilst_tick _ st = (wh_calls st, st\<lparr>wh_calls := wh_calls st + 1\<rparr>)"

definition whilst_return :: "whilst_state \<Rightarrow> whilst_state" where
  "whilst_return st = (if wh_sync st = 1 then st\<lparr>wh_sync := 2\<rparr> else st)"

text \<open>
  The machine around these closures: a task is being called, was called and has not called \<open>next\<close> yet, is scheduled for the next
  tick, or the callback was called. The last component is the list of the tasks called so far.
\<close>

datatype 'e phase = InCall nat | Waiting nat | Ticking nat | Finished "'e option"

type_synonym ('e, 's) machine = "'e phase \<times> 's \<times> nat list"

record ('e, 's) series_ops =
  s_next :: "'e option \<Rightarrow> 's \<Rightarrow> 'e action \<times> 's"
  s_tick :: "nat \<Rightarrow> 's \<Rightarrow> nat \<times> 's"
  s_return :: "'s \<Rightarrow> 's"

fun perform :: "('e, 's) series_ops \<Rightarrow> bool \<Rightarrow> nat list \<Rightarrow> 'e action \<times> 's \<Rightarrow> ('e, 's) machine" where
  "perform ops during_call started (Callback err, st) = (Finished err, st, started)"
| "perform ops during_call started (Call i, st) = (InCall i, st, started @ [i])"
| "perform ops during_call started (Schedule i, st) = (Ticking i, if during_call then s_return ops st else st, started)"

inductive series_step :: "('e, 's) series_ops \<Rightarrow> ('e, 's) machine \<Rightarrow> ('e, 's) machine \<Rightarrow> bool" for ops where
  sync_done: "series_step ops (InCall i, st, started) (perform ops True started (s_next ops err st))"
| returns: "series_step ops (InCall i, st, started) (Waiting i, s_return ops st, started)"
| async_done: "series_step ops (Waiting i, st, started) (perform ops False started (s_next ops err st))"
| ticks: "s_tick ops j st = (i, st') \<Longrightarrow> series_step ops (Ticking j, st, started) (InCall i, st', started @ [i])"

definition eachSeries_ops :: "nat \<Rightarrow> ('e, series_state) series_ops" where
  "eachSeries_ops n = \<lparr>s_next = eachSeries_next n, s_tick = eachSeries_tick, s_return = mark_async\<rparr>"

definition mapSeries_ops :: "nat \<Rightarrow> ('e, series_state) series_ops" where
  "mapSeries_ops n = \<lparr>s_next = mapSeries_next n, s_tick = captured_tick, s_return = mark_async\<rparr>"

definition timesSeries_ops :: "nat \<Rightarrow> ('e, series_state) series_ops" where
  "timesSeries_ops n = \<lparr>s_next = timesSeries_next n, s_tick = captured_tick, s_return = mark_async\<rparr>"

definition series_series_ops :: "nat \<Rightarrow> ('e, series_state) series_ops" where
  "series_series_ops n = \<lparr>s_next = series_next n, s_tick = series_tick, s_return = series_return\<rparr>"

definition whilst_ops :: "(nat \<Rightarrow> bool) \<Rightarrow> ('e, whilst_state) series_ops" where
  "whilst_ops condition = \<lparr>s_next = whilst_complete condition, s_tick = whilst_tick, s_return = whilst_return\<rparr>"

text \<open>The calls of the functions themselves: nothing to do calls back at once, else the first task is called.\<close>

definition eachSeries_start :: "nat \<Rightarrow> ('e, series_state) machine" where
  "eachSeries_start n =
    (if n = 0 then (Finished None, \<lparr>sr_index = 1, sr_sync = None\<rparr>, []) else (InCall 0, \<lparr>sr_index = 1, sr_sync = None\<rparr>, [0]))"

definition mapSeries_start :: "nat \<Rightarrow> ('e, series_state) machine" where
  "mapSeries_start n =
    (if n = 0 then (Finished None, \<lparr>sr_index = 0, sr_sync = None\<rparr>, []) else (InCall 0, \<lparr>sr_index = 0, sr_sync = None\<rparr>, [0]))"

definition timesSeries_start :: "nat \<Rightarrow> ('e, series_state) machine" where
  "timesSeries_start n =
    (if n < 1 then (Finished None, \<lparr>sr_index = 1, sr_sync = None\<rparr>, []) else (InCall 0, \<lparr>sr_index = 1, sr_sync = None\<rparr>, [0]))"

definition series_start :: "nat \<Rightarrow> ('e, series_state) machine" where
  "series_start n = perform (series_series_ops n) False [] (series_next n None \<lparr>sr_index = 0, sr_sync = None\<rparr>)"

definition whilst_start :: "(nat \<Rightarrow> bool) \<Rightarrow> ('e, whilst_state) machine" where
  "whilst_start condition = perform (whilst_ops condition) False [] (whilst_next condition None \<lparr>wh_calls = 0, wh_sync = 0\<rparr>)"

section \<open>Counting combinators\<close>

definition first_error :: "'e option list \<Rightarrow> 'e option" where
  "first_error errs = (case filter (\<lambda>e. e \<noteq> None) errs of [] \<Rightarrow> None | e # _ \<Rightarrow> e)"

lemma first_error_simps [simp]:
  "first_error [] = None" "first_error (None # errs) = first_error errs" "first_error (Some e # errs) = Some e"
  by (simp_all add: first_error_def)

lemma first_error_None: "first_error errs = None \<longleftrightarrow> (\<forall>e \<in> set errs. e = None)"
proof (induction errs)
  case (Cons e errs)
  then show ?case by (cases e) simp_all
qed simp

text \<open>
  The contract: seen through \<open>view\<close>, the closure counts to \<open>n\<close> and stops at the first error. The clients are the combinators
  that start everything.
\<close>

locale counting =
  fixes nxt :: "'x \<Rightarrow> 's \<Rightarrow> 's" and err_of :: "'x \<Rightarrow> 'e option" and view :: "'s \<Rightarrow> 'e gather" and n :: nat
  assumes nxt_view: "view (nxt x s) = each_next n (err_of x) (view s)"
begin

definition run :: "'s \<Rightarrow> 'x list \<Rightarrow> 's" where
  "run s xs = foldl (\<lambda>s x. nxt x s) s xs"

lemma run_dead: "\<not> cb_live (view s) \<Longrightarrow> cb_calls (view (run s xs)) = cb_calls (view s)"
proof (induction xs arbitrary: s)
  case (Cons x xs)
  have "\<not> cb_live (view (nxt x s)) \<and> cb_calls (view (nxt x s)) = cb_calls (view s)"
    using Cons.prems by (auto simp: nxt_view each_next_def invoke_cb_def Let_def)
  then show ?case using Cons.IH [of "nxt x s"] by (simp add: run_def)
qed (simp add: run_def)

lemma run_calls:
  assumes "cb_live (view s)" and "cb_calls (view s) = []" and "completed (view s) + length xs \<le> n" and "completed (view s) < n"
  shows "cb_calls (view (run s xs)) =
    (if first_error (map err_of xs) \<noteq> None then [first_error (map err_of xs)]
     else if completed (view s) + length xs = n then [None] else [])"
  using assms
proof (induction xs arbitrary: s)
  case (Cons x xs)
  show ?case
  proof (cases "err_of x")
    case (Some e)
    then have "\<not> cb_live (view (nxt x s))" "cb_calls (view (nxt x s)) = [Some e]"
      using Cons.prems by (simp_all add: nxt_view each_next_def invoke_cb_def)
    then show ?thesis using run_dead [of "nxt x s" xs] Some by (simp add: run_def)
  next
    case None
    show ?thesis
    proof (cases "Suc (completed (view s)) = n")
      case True
      then have "xs = []" using Cons.prems(3) by (cases xs) simp_all
      moreover have "cb_calls (view (nxt x s)) = [None]"
        using True Cons.prems None by (simp add: nxt_view each_next_def invoke_cb_def Let_def)
      ultimately show ?thesis using None True by (simp add: run_def)
    next
      case False
      then have "cb_live (view (nxt x s))" "cb_calls (view (nxt x s)) = []" "completed (view (nxt x s)) = Suc (completed (view s))"
        using Cons.prems None by (simp_all add: nxt_view each_next_def Let_def)
      then show ?thesis using Cons.IH [of "nxt x s"] Cons.prems None False by (simp add: run_def)
    qed
  qed
qed (simp add: run_def)

end

interpretation each_counts: counting "each_next n" "\<lambda>e. e" "\<lambda>s. s" n for n
  by unfold_locales simp

interpretation parallel_counts: counting "parallel_next n" "\<lambda>e. e" "\<lambda>s. s" n for n
  by unfold_locales (simp add: parallel_next_def each_next_def)

interpretation times_counts: counting "times_next (int n)" "\<lambda>e. e" "\<lambda>s. s" n for n
  by unfold_locales (simp add: times_next_def each_next_def Let_def)

definition map_view :: "('e, 'b) map_state \<Rightarrow> 'e gather" where
  "map_view st = \<lparr>completed = map_completed st, cb_live = map_live st, cb_calls = map fst (map_calls st)\<rparr>"

interpretation mapEach_counts: counting "\<lambda>(i, e, v). mapItemCallback n i e v" "\<lambda>(i, e, v). e" map_view n for n
  by unfold_locales
    (auto simp: mapItemCallback_def mapEach_next_def each_next_def map_view_def invoke_cb_def Let_def split: prod.splits)

section \<open>Runs that settle\<close>

text \<open>Every run that goes on while a step is possible comes to a state with no step, and that state is final.\<close>

definition settles :: "('c \<Rightarrow> 'c \<Rightarrow> bool) \<Rightarrow> 'c \<Rightarrow> ('c \<Rightarrow> bool) \<Rightarrow> bool" where
  "settles step start final \<longleftrightarrow>
    (\<forall>f. f 0 = start \<and> (\<forall>k. if \<exists>c. step (f k) c then step (f k) (f (Suc k)) else f (Suc k) = f k)
      \<longrightarrow> (\<exists>k. final (f k) \<and> (\<nexists>c. step (f k) c)))"

lemma settles_measure:
  fixes m :: "'c \<Rightarrow> nat"
  assumes "good start" and pres: "\<And>c c'. good c \<Longrightarrow> step c c' \<Longrightarrow> good c'" and dec: "\<And>c c'. good c \<Longrightarrow> step c c' \<Longrightarrow> m c' < m c"
    and stuck: "\<And>c. good c \<Longrightarrow> \<nexists>c'. step c c' \<Longrightarrow> final c"
  shows "settles step start final"
  unfolding settles_def
proof (intro allI impI)
  fix f :: "nat \<Rightarrow> 'c"
  assume f: "f 0 = start \<and> (\<forall>k. if \<exists>c. step (f k) c then step (f k) (f (Suc k)) else f (Suc k) = f k)"
  have good: "good (f k)" for k
  proof (induction k)
    case (Suc k)
    then show ?case using f pres by metis
  qed (use f assms(1) in simp)
  have "\<exists>k'. \<nexists>c. step (f k') c" for k :: nat
  proof (induction "m (f k)" arbitrary: k rule: less_induct)
    case less
    show ?case
    proof (cases "\<exists>c. step (f k) c")
      case True
      then have "m (f (Suc k)) < m (f k)" using f dec good by metis
      then show ?thesis using less by blast
    qed blast
  qed
  then obtain k where "\<nexists>c. step (f k) c" by blast
  then show "\<exists>k. final (f k) \<and> (\<nexists>c. step (f k) c)" using stuck good by blast
qed

section \<open>Sequential combinators\<close>

text \<open>
  The contract: \<open>pos\<close> tasks were called; an error calls back, so does the end, and otherwise task number \<open>pos\<close> is called now or by the
  tick, whether or not the call that scheduled it returns first.
\<close>

locale sequential =
  fixes ops :: "('e, 's) series_ops" and n :: nat and pos :: "'s \<Rightarrow> nat"
  assumes next_err: "fst (s_next ops (Some e) st) = Callback (Some e)"
    and next_end: "pos st = n \<Longrightarrow> fst (s_next ops None st) = Callback None"
    and next_call: "pos st < n \<Longrightarrow> s_next ops None st = (Callback r, st') \<Longrightarrow> False"
      "pos st < n \<Longrightarrow> s_next ops None st = (Call i, st') \<Longrightarrow> i = pos st \<and> pos st' = Suc (pos st)"
      "pos st < n \<Longrightarrow> s_next ops None st = (Schedule j, st') \<Longrightarrow> s_tick ops j (if d then s_return ops st' else st') = (i, st'')
        \<Longrightarrow> i = pos st \<and> pos st'' = Suc (pos st)"
    and return_pos: "pos (s_return ops st) = pos st"
begin

fun mach_inv :: "('e, 's) machine \<Rightarrow> bool" where
  "mach_inv (InCall i, st, started) \<longleftrightarrow> started = [0..<pos st] \<and> 0 < pos st \<and> pos st \<le> n"
| "mach_inv (Waiting i, st, started) \<longleftrightarrow> started = [0..<pos st] \<and> 0 < pos st \<and> pos st \<le> n"
| "mach_inv (Ticking j, st, started) \<longleftrightarrow> length started < n \<and> started = [0..<length started] \<and>
    (\<forall>i st'. s_tick ops j st = (i, st') \<longrightarrow> i = length started \<and> pos st' = Suc (length started))"
| "mach_inv (Finished err, st, started) \<longleftrightarrow> started = [0..<length started] \<and> (err = None \<longrightarrow> length started = n)"

fun mach_measure :: "('e, 's) machine \<Rightarrow> nat" where
  "mach_measure (InCall i, st, started) = 3 * (n - length started) + 2"
| "mach_measure (Waiting i, st, started) = 3 * (n - length started) + 1"
| "mach_measure (Ticking j, st, started) = 3 * (n - length started)"
| "mach_measure (Finished err, st, started) = 0"

lemma perform_inv:
  assumes "pos st \<le> n" and "0 < pos st" and "started = [0..<pos st]"
  shows "mach_inv (perform ops d started (s_next ops err st))
    \<and> mach_measure (perform ops d started (s_next ops err st)) < 3 * (n - length started) + 1"
proof (cases err)
  case (Some e)
  then show ?thesis using next_err [of e st] assms by (cases "s_next ops (Some e) st") auto
next
  case None
  obtain a st' where a: "s_next ops None st = (a, st')" by fastforce
  show ?thesis
  proof (cases "pos st = n")
    case True
    then show ?thesis using next_end [OF True] a assms None by auto
  next
    case False
    then have lt: "pos st < n" using assms(1) by simp
    show ?thesis
    proof (cases a)
      case (Callback r)
      then show ?thesis using next_call(1) [OF lt] a by blast
    next
      case (Call i)
      then show ?thesis using next_call(2) [OF lt] a assms None lt by auto
    next
      case (Schedule j)
      then show ?thesis using next_call(3) [OF lt, of j st' d] a assms None lt by auto
    qed
  qed
qed

lemma step_inv: "series_step ops c c' \<Longrightarrow> mach_inv c \<Longrightarrow> mach_inv c' \<and> mach_measure c' < mach_measure c"
proof (induction rule: series_step.induct)
  case (sync_done i st started err)
  then show ?case using perform_inv [of st started True err] by auto
next
  case (returns i st started)
  then show ?case by (simp add: return_pos)
next
  case (async_done i st started err)
  then show ?case using perform_inv [of st started False err] by auto
next
  case (ticks j st i st' started)
  then have *: "i = length started" "pos st' = Suc (length started)" "started = [0..<length started]" "length started < n" by auto
  then have "started @ [i] = [0..<pos st']" by simp
  then show ?case using * by simp
qed

lemma running_steps:
  "\<exists>c'. series_step ops (InCall i, st, started) c'" "\<exists>c'. series_step ops (Waiting i, st, started) c'"
  "\<exists>c'. series_step ops (Ticking i, st, started) c'"
  using series_step.returns [of ops i st started] series_step.async_done [of ops i st started None]
    series_step.ticks [of ops i st "fst (s_tick ops i st)" "snd (s_tick ops i st)" started] prod.collapse by metis+

lemma stuck_finished: "\<nexists>c'. series_step ops (p, st, started) c' \<Longrightarrow> \<exists>err. p = Finished err"
  using running_steps [of _ st started] by (cases p) blast+

lemma sequential_settles:
  assumes "mach_inv start"
  shows "settles (series_step ops) start (\<lambda>(p, st, started). \<exists>err. p = Finished err
    \<and> started = [0..<length started] \<and> (err = None \<longrightarrow> length started = n))"
proof (rule settles_measure [where good = mach_inv and m = mach_measure])
  show "case c of (p, st, started) \<Rightarrow> \<exists>err. p = Finished err \<and> started = [0..<length started] \<and> (err = None \<longrightarrow> length started = n)"
    if "mach_inv c" "\<nexists>c'. series_step ops c c'" for c
  proof (cases c)
    case (fields p st started)
    then show ?thesis using that stuck_finished [of p st started] by auto
  qed
qed (use assms step_inv in auto)

end

lemmas series_state_defs = mark_sync_def mark_async_def captured_tick_def eachSeries_tick_def series_tick_def series_return_def

interpretation eachSeries: sequential "eachSeries_ops n" n sr_index for n
  by unfold_locales
    (auto simp: eachSeries_ops_def eachSeries_next_def series_state_defs Let_def split: if_splits)

interpretation mapSeries: sequential "mapSeries_ops n" n "\<lambda>st. Suc (sr_index st)" for n
  by unfold_locales
    (auto simp: mapSeries_ops_def mapSeries_next_def series_state_defs Let_def split: if_splits)

interpretation timesSeries: sequential "timesSeries_ops n" n sr_index for n
  by unfold_locales
    (auto simp: timesSeries_ops_def timesSeries_next_def series_state_defs Let_def split: if_splits)

interpretation series: sequential "series_series_ops n" n sr_index for n
  by unfold_locales
    (auto simp: series_series_ops_def series_next_def series_state_defs Let_def split: if_splits)

lemma whilst_sequential:
  assumes "\<forall>k < n. condition k" and "\<not> condition n"
  shows "sequential (whilst_ops condition) n wh_calls"
  by unfold_locales
    (use assms in \<open>auto simp: whilst_ops_def whilst_complete_def whilst_next_def whilst_tick_def whilst_return_def
       split: if_splits\<close>)

lemma whilst_start_inv:
  assumes "\<forall>k < n. condition k" and "\<not> condition n"
  shows "sequential.mach_inv (whilst_ops condition) n wh_calls (whilst_start condition :: ('e, whilst_state) machine)"
proof -
  note inv = sequential.mach_inv.simps [OF whilst_sequential [OF assms]]
  show ?thesis
  proof (cases "condition 0")
    case True
    then have "0 < n" using assms by (cases n) auto
    then show ?thesis using True by (simp add: whilst_start_def whilst_next_def inv)
  next
    case False
    then have "(whilst_start condition :: ('e, whilst_state) machine) = (Finished None, \<lparr>wh_calls = 0, wh_sync = 0\<rparr>, [])"
      by (simp add: whilst_start_def whilst_next_def)
    moreover have "length [] = n" using False assms(1) by (cases n) auto
    ultimately show ?thesis by (simp only: inv(4)) simp
  qed
qed

text \<open>A loop over a counter, as the callers write it.\<close>

interpretation whilst_count: sequential "whilst_ops (\<lambda>k. k < n)" n wh_calls for n
  by (rule whilst_sequential) simp_all

section \<open>The bounded combinator\<close>

definition tl_started :: "int \<Rightarrow> int \<Rightarrow> 'e times_limit \<Rightarrow> int" where
  "tl_started cnt limit st = (if 0 \<le> tl_loop st then tl_loop st else min limit cnt)"

definition tl_open :: "'e times_limit \<Rightarrow> int" where
  "tl_open st = int (size (tl_running st)) + int (length (tl_ticks st))"

text \<open>
  Until the callback is called the index is ahead of the completed tasks by the limit and everything that was started is
  completed, running or scheduled; afterwards the callback was called once and is gone or everything is completed.
\<close>

definition tl_inv :: "int \<Rightarrow> int \<Rightarrow> 'e times_limit \<Rightarrow> bool" where
  "tl_inv cnt limit st \<longleftrightarrow> - 1 \<le> tl_loop st \<and> tl_loop st \<le> min limit cnt \<and> tl_open st \<le> min limit cnt \<and>
    (if tl_live st \<and> tl_calls st = []
     then 0 \<le> tl_completed st \<and> tl_completed st < cnt \<and> tl_index st = min limit cnt - 1 + tl_completed st
       \<and> tl_completed st + tl_open st = tl_started cnt limit st + min (tl_completed st) (cnt - min limit cnt)
     else length (tl_calls st) = 1 \<and> (tl_live st \<longrightarrow> tl_open st = 0 \<and> tl_started cnt limit st = min limit cnt)
       \<and> tl_open st \<le> tl_started cnt limit st)"

definition tl_measure :: "int \<Rightarrow> int \<Rightarrow> 'e times_limit \<Rightarrow> nat" where
  "tl_measure cnt limit st =
    (if 0 \<le> tl_loop st then 1 + 3 * nat (min limit cnt - tl_loop st) else 0) + 3 * nat (cnt - 1 - tl_index st)
     + 2 * length (tl_ticks st) + size (tl_running st)"

lemma tl_init_inv: "1 \<le> cnt \<Longrightarrow> 1 \<le> limit \<Longrightarrow> tl_inv cnt limit (timesLimit_init cnt limit)"
  by (auto simp: tl_inv_def timesLimit_init_def tl_open_def tl_started_def)

lemma next_measure: "tl_measure cnt limit (timesLimit_next cnt err st) \<le> tl_measure cnt limit st"
proof (cases "err = None \<and> tl_completed st + 1 \<noteq> cnt \<and> tl_index st + 1 < cnt")
  case True
  then have "3 * nat (cnt - 1 - (tl_index st + 1)) + 2 \<le> 3 * nat (cnt - 1 - tl_index st)" by linarith
  then show ?thesis using True by (cases "tl_sync st") (simp_all add: timesLimit_next_def tl_measure_def Let_def)
next
  case False
  then show ?thesis by (cases err) (auto simp: timesLimit_next_def tl_measure_def Let_def)
qed

lemma size_task_done: "i \<in># M \<Longrightarrow> size M = Suc (size (M - {#i#}))"
  by (simp add: size_Diff_singleton size_eq_Suc_imp_elem) (metis Suc_pred nonempty_has_size empty_not_add_mset insert_DiffM size_eq_0_iff_empty)

lemma tl_step_measure: "timesLimit_step cnt limit st st' \<Longrightarrow> tl_measure cnt limit st' < tl_measure cnt limit st"
proof (induction rule: timesLimit_step.induct)
  case (task_done i st err)
  have "tl_measure cnt limit (st\<lparr>tl_running := tl_running st - {#i#}\<rparr>) < tl_measure cnt limit st"
    using size_task_done [OF task_done] by (simp add: tl_measure_def)
  then show ?case using next_measure by (rule le_less_trans [rotated])
qed (auto simp: tl_measure_def)

lemma tl_done_inv:
  assumes "tl_inv cnt limit st" and "1 \<le> cnt" and "1 \<le> limit" and "i \<in># tl_running st"
  shows "tl_inv cnt limit (timesLimit_next cnt err (st\<lparr>tl_running := tl_running st - {#i#}\<rparr>))"
proof -
  define L where "L = min limit cnt"
  have L: "1 \<le> L" "L \<le> cnt" using assms(2,3) by (simp_all add: L_def)
  let ?st = "st\<lparr>tl_running := tl_running st - {#i#}\<rparr>"
  have sz: "tl_open st = tl_open ?st + 1" "0 \<le> tl_open ?st" using size_task_done [OF assms(4)] by (simp_all add: tl_open_def)
  have same: "tl_started cnt limit ?st = tl_started cnt limit st" by (simp add: tl_started_def)
  note facts = assms(1) [unfolded tl_inv_def L_def [symmetric]]
  show ?thesis
  proof (cases "tl_live st \<and> tl_calls st = [] \<and> err = None \<and> tl_completed st + 1 \<noteq> cnt")
    case True
    let ?r = "timesLimit_next cnt err ?st"
    have r: "tl_loop ?r = tl_loop st" "tl_live ?r" "tl_calls ?r = []" "tl_completed ?r = tl_completed st + 1"
      "tl_index ?r = tl_index st + 1" "tl_open ?r = tl_open ?st + (if tl_index st + 1 < cnt then 1 else 0)"
      using True by (auto simp: timesLimit_next_def tl_open_def Let_def)
    moreover have "tl_started cnt limit ?r = tl_started cnt limit st" using r(1) by (simp add: tl_started_def)
    ultimately show ?thesis unfolding tl_inv_def L_def [symmetric] using True facts sz L by (auto simp: min_def split: if_splits)
  next
    case False
    show ?thesis
    proof (cases "tl_live st \<and> tl_calls st = []")
      case True
      let ?r = "timesLimit_next cnt err ?st"
      have r: "tl_loop ?r = tl_loop st" "length (tl_calls ?r) = 1" "tl_open ?r = tl_open ?st" "tl_live ?r = (err = None)"
        using True False by (auto simp: timesLimit_next_def tl_open_def Let_def)
      moreover have "tl_started cnt limit ?r = tl_started cnt limit st" using r(1) by (simp add: tl_started_def)
      moreover have "tl_started cnt limit st \<le> L" using facts by (simp add: tl_started_def L_def [symmetric])
      ultimately show ?thesis unfolding tl_inv_def L_def [symmetric] using True False facts sz L by (auto simp: min_def split: if_splits)
    next
      case dead: False
      then have c: "length (tl_calls st) = 1" "\<not> tl_live st" "tl_open st \<le> tl_started cnt limit st" using facts sz by auto
      let ?r = "timesLimit_next cnt err ?st"
      have r: "tl_loop ?r = tl_loop st" "tl_calls ?r = tl_calls st" "tl_open ?r \<le> tl_open st" "\<not> tl_live ?r"
        using c(2) sz by (auto simp: timesLimit_next_def tl_open_def Let_def)
      moreover have "tl_started cnt limit ?r = tl_started cnt limit st" using r(1) by (simp add: tl_started_def)
      ultimately show ?thesis unfolding tl_inv_def L_def [symmetric] using c facts by auto
    qed
  qed
qed

lemma tl_step_inv:
  "timesLimit_step cnt limit st st' \<Longrightarrow> 1 \<le> cnt \<Longrightarrow> 1 \<le> limit \<Longrightarrow> tl_inv cnt limit st \<Longrightarrow> tl_inv cnt limit st'"
proof (induction rule: timesLimit_step.induct)
  case (loop_call st)
  then show ?case by (auto simp: tl_inv_def tl_open_def tl_started_def split: if_splits)
next
  case (loop_end st)
  then show ?case by (auto simp: tl_inv_def tl_open_def tl_started_def split: if_splits)
next
  case (tick st i rest)
  then show ?case by (auto simp: tl_inv_def tl_open_def tl_started_def split: if_splits)
next
  case (task_done i st err)
  then show ?case by (intro tl_done_inv)
qed

lemma tl_stuck:
  assumes "tl_inv cnt limit st" and "\<nexists>st'. timesLimit_step cnt limit st st'" and "1 \<le> cnt" and "1 \<le> limit"
  shows "length (tl_calls st) = 1"
proof (rule ccontr)
  assume n: "length (tl_calls st) \<noteq> 1"
  have "\<not> 0 \<le> tl_loop st" using assms(2) loop_call [of st limit cnt] loop_end [of st limit cnt] by force
  moreover have "tl_running st = {#}" using assms(2) task_done [of _ st cnt limit] by (meson multiset_nonemptyE)
  moreover have "tl_ticks st = [] \<or> tl_loop st \<noteq> - 1" using assms(2) tick [of st] by (metis list.exhaust)
  ultimately show False using n assms(1,3,4) by (auto simp: tl_inv_def tl_open_def tl_started_def split: if_splits)
qed

lemma timesLimit_settles:
  assumes "1 \<le> cnt" and "1 \<le> limit"
  shows "settles (timesLimit_step cnt limit) (timesLimit_init cnt limit) (\<lambda>st. length (tl_calls st) = 1)"
  by (rule settles_measure [where good = "tl_inv cnt limit" and m = "tl_measure cnt limit"])
    (use assms in \<open>simp_all add: tl_init_inv tl_step_inv tl_step_measure tl_stuck\<close>)

lemma timesLimit_bound:
  assumes "1 \<le> cnt" and "1 \<le> limit" and "(timesLimit_step cnt limit)\<^sup>*\<^sup>* (timesLimit_init cnt limit) st"
  shows "int (size (tl_running st)) \<le> limit \<and> length (tl_calls st) \<le> 1"
proof -
  have "tl_inv cnt limit st" using assms(3)
  proof (induction rule: rtranclp_induct)
    case base
    then show ?case using assms(1,2) by (simp add: tl_init_inv)
  next
    case (step st st')
    then show ?case using assms(1,2) tl_step_inv by blast
  qed
  then show ?thesis by (auto simp: tl_inv_def tl_open_def split: if_splits)
qed

section \<open>The results of mapEach\<close>

abbreviation map_run :: "nat \<Rightarrow> ('e, 'b) map_state \<Rightarrow> (nat \<times> 'e option \<times> 'b option) list \<Rightarrow> ('e, 'b) map_state" where
  "map_run n st items \<equiv> foldl (\<lambda>st x. (case x of (i, e, v) \<Rightarrow> mapItemCallback n i e v) st) st items"

lemma map_run_counts: "mapEach_counts.run n = map_run n"
  by (intro ext) (simp add: mapEach_counts.run_def)

lemma map_run_result: "map_result (map_run n st items) = foldl (\<lambda>r (i, e, v). r[i := v]) (map_result st) items"
  by (induction items arbitrary: st) (auto simp: mapItemCallback_def mapEach_next_def Let_def split: prod.splits)

lemma foldl_updates_nth:
  "distinct (map fst items) \<Longrightarrow> i < length r \<Longrightarrow>
    foldl (\<lambda>r (i, e, v). r[i := v]) r items ! i = (case map_of items i of None \<Rightarrow> r ! i | Some (e, v) \<Rightarrow> v)"
proof (induction items arbitrary: r)
  case (Cons x items)
  obtain j e v where x: "x = (j, e, v)" by (cases x)
  have "map_of items j = None" using Cons.prems x by (simp add: map_of_eq_None_iff)
  then show ?case using Cons.IH [of "r[j := v]"] Cons.prems x by (cases "i = j") (auto split: option.splits)
qed simp

lemma length_updates: "length (foldl (\<lambda>r (i, e, v). r[i := v]) r items) = length r"
  by (induction items arbitrary: r) auto

lemma map_run_completed:
  "first_error (map (\<lambda>(i, e, v). e) items) = None \<Longrightarrow>
    map_completed (map_run n st items) = map_completed st + length items \<and> map_live (map_run n st items) = map_live st"
proof (induction items arbitrary: st)
  case (Cons x items)
  obtain i e v where x: "x = (i, e, v)" by (cases x)
  have e: "e = None" "first_error (map (\<lambda>(i, e, v). e) items) = None" using Cons.prems x by (cases e; simp)+
  show ?case using Cons.IH [OF e(2), of "mapItemCallback n i e v st"] x e(1)
    by (auto simp: mapItemCallback_def mapEach_next_def Let_def)
qed simp

lemma map_run_results:
  fixes items :: "(nat \<times> 'e option \<times> 'b option) list"
  assumes "length items = length arr" and "arr \<noteq> []" and "first_error (map (\<lambda>(i, e, v). e) items) = None"
  shows "map_calls (map_run (length arr) (mapEach_start arr) items) = [(None, map_result (map_run (length arr) (mapEach_start arr) items))]"
proof -
  obtain ys i e v where it: "items = ys @ [(i, e, v)]" using assms(1,2) by (cases items rule: rev_cases) auto
  let ?n = "length arr"
  let ?st = "map_run ?n (mapEach_start arr) ys"
  have ys: "first_error (map (\<lambda>(i, e, v). e) ys) = None" "e = None"
    using assms(3) it by (auto simp: first_error_None)
  have n: "?n = Suc (length ys)" using assms(1) it by simp
  let ?v = "map_view (mapEach_start arr :: ('e, 'b) map_state)"
  have v: "cb_live ?v" "cb_calls ?v = []" "completed ?v + length ys \<le> ?n" "completed ?v < ?n"
    using n by (auto simp: map_view_def mapEach_start_def)
  have "completed ?v + length ys \<noteq> ?n" using n by (simp add: map_view_def mapEach_start_def)
  then have "cb_calls (map_view ?st) = []" using mapEach_counts.run_calls [OF v] ys(1) by (simp only: map_run_counts if_False refl not_False_eq_True simp_thms)
  then have "map_calls ?st = []" by (simp add: map_view_def)
  then show ?thesis using map_run_completed [OF ys(1), of ?n "mapEach_start arr"] it ys(2) n
    by (simp add: mapItemCallback_def mapEach_next_def mapEach_start_def)
qed

section \<open>Properties\<close>

text \<open>
  C13: once every task has called \<open>next\<close>, in any order, the callback of \<open>each\<close>, \<open>parallel\<close>, \<open>times\<close> and \<open>mapEach\<close> on at least one task
  has been called exactly once, with the first error if there was one; \<open>mapEach\<close> passes without an error the transformed items
  in the order of the array; before the last task the callback is not called unless there was an error.
\<close>

theorem gather_calls_back_once:
  assumes "length items = length arr" and "arr \<noteq> []" and "distinct (map fst items)" and "set (map fst items) = {..<length arr}"
    and "errs = map (\<lambda>(i, e, v). e) items"
  shows "cb_calls (foldl (\<lambda>st e. each_next (length arr) e st) (each_start arr) errs) = [first_error errs]
    \<and> cb_calls (foldl (\<lambda>st e. parallel_next (length arr) e st) (parallel_start arr) errs) = [first_error errs]
    \<and> cb_calls (foldl (\<lambda>st e. times_next (int (length arr)) e st) (times_start (Some (int (length arr)))) errs) = [first_error errs]
    \<and> map fst (map_calls (map_run (length arr) (mapEach_start arr) items)) = [first_error errs]
    \<and> (first_error errs = None \<longrightarrow>
        map_calls (map_run (length arr) (mapEach_start arr) items) = [(None, map (\<lambda>i. snd (the (map_of items i))) [0..<length arr])]
        \<and> (k < length arr \<longrightarrow> cb_calls (foldl (\<lambda>st e. each_next (length arr) e st) (each_start arr) (take k errs)) = []))"
proof (intro conjI impI)
  let ?n = "length arr"
  have len: "length errs = ?n" "0 < ?n" using assms(1,2,5) by simp_all
  show "cb_calls (foldl (\<lambda>st e. each_next ?n e st) (each_start arr) errs) = [first_error errs]"
    using each_counts.run_calls [of "each_start arr" errs ?n] len by (simp add: each_counts.run_def each_start_def new_gather_def)
  show "cb_calls (foldl (\<lambda>st e. parallel_next ?n e st) (parallel_start arr) errs) = [first_error errs]"
    using parallel_counts.run_calls [of "parallel_start arr" errs ?n] len by (simp add: parallel_counts.run_def parallel_start_def new_gather_def)
  show "cb_calls (foldl (\<lambda>st e. times_next (int ?n) e st) (times_start (Some (int ?n))) errs) = [first_error errs]"
    using times_counts.run_calls [of "times_start (Some (int ?n))" errs ?n] len by (simp add: times_counts.run_def times_start_def new_gather_def)
  show "map fst (map_calls (map_run ?n (mapEach_start arr) items)) = [first_error errs]"
    using mapEach_counts.run_calls [of "mapEach_start arr" items ?n] len assms(1,5)
    by (simp add: map_run_counts map_view_def mapEach_start_def split: if_splits)
  show "cb_calls (foldl (\<lambda>st e. each_next ?n e st) (each_start arr) (take k errs)) = []" if "first_error errs = None" "k < ?n"
  proof -
    have "first_error (take k errs) = None"
      using that(1) set_take_subset [of k errs] by (auto simp: first_error_None)
    then show ?thesis using each_counts.run_calls [of "each_start arr" "take k errs" ?n] len that(2)
      by (simp add: each_counts.run_def each_start_def new_gather_def)
  qed
  show "map_calls (map_run ?n (mapEach_start arr) items) = [(None, map (\<lambda>i. snd (the (map_of items i))) [0..<?n])]"
    if "first_error errs = None"
  proof -
    have "map_result (map_run ?n (mapEach_start arr) items) = map (\<lambda>i. snd (the (map_of items i))) [0..<?n]"
    proof (rule nth_equalityI)
      fix i assume "i < length (map_result (map_run ?n (mapEach_start arr) items))"
      then have i: "i < ?n" by (simp add: map_run_result mapEach_start_def length_updates)
      then have "map_of items i \<noteq> None" using assms(4) by (simp add: map_of_eq_None_iff)
      then show "map_result (map_run ?n (mapEach_start arr) items) ! i = map (\<lambda>i. snd (the (map_of items i))) [0..<?n] ! i"
        using foldl_updates_nth [OF assms(3), of i "replicate ?n None"] i
        by (auto simp: map_run_result mapEach_start_def)
    qed (simp add: map_run_result mapEach_start_def length_updates)
    then show ?thesis using map_run_results [OF assms(1,2)] that assms(5) by simp
  qed
qed

theorem gather_calls_back_once_witness:
  "map_calls (map_run 2 (mapEach_start ''ab'') [(1, None, Some ''B''), (0, None, Some ''A'')] :: (nat, string) map_state)
    = [(None, [Some ''A'', Some ''B''])]"
  using gather_calls_back_once [of "[(1, None, Some ''B''), (0, None, Some ''A'')]" "''ab''" "[None, None :: nat option]"]
  by (simp add: lessThan_Suc insert_commute numeral_2_eq_2)

text \<open>
  C12: the callback is reached. Every run of \<open>eachSeries\<close>, \<open>mapSeries\<close>, \<open>timesSeries\<close>, \<open>series\<close> and of \<open>whilst\<close> over a counter, in
  which every called task calls \<open>next\<close> at some time, during its call or later, comes to the state in which the callback was called
  and nothing is outstanding; the tasks were called one by one in order, all of them unless one failed. \<open>timesLimit\<close> with at
  least one task and a limit of at least one calls back exactly once too and never has more than \<open>limit\<close> tasks running.
\<close>

theorem series_callback_liveness:
  "settles (series_step (eachSeries_ops n)) (eachSeries_start n :: ('e, series_state) machine)
      (\<lambda>(p, st, started). \<exists>err. p = Finished err \<and> started = [0..<length started] \<and> (err = None \<longrightarrow> length started = n))
    \<and> settles (series_step (mapSeries_ops n)) (mapSeries_start n :: ('e, series_state) machine)
      (\<lambda>(p, st, started). \<exists>err. p = Finished err \<and> started = [0..<length started] \<and> (err = None \<longrightarrow> length started = n))
    \<and> settles (series_step (timesSeries_ops n)) (timesSeries_start n :: ('e, series_state) machine)
      (\<lambda>(p, st, started). \<exists>err. p = Finished err \<and> started = [0..<length started] \<and> (err = None \<longrightarrow> length started = n))
    \<and> settles (series_step (series_series_ops n)) (series_start n :: ('e, series_state) machine)
      (\<lambda>(p, st, started). \<exists>err. p = Finished err \<and> started = [0..<length started] \<and> (err = None \<longrightarrow> length started = n))
    \<and> settles (series_step (whilst_ops (\<lambda>k. k < n))) (whilst_start (\<lambda>k. k < n) :: ('e, whilst_state) machine)
      (\<lambda>(p, st, started). \<exists>err. p = Finished err \<and> started = [0..<length started] \<and> (err = None \<longrightarrow> length started = n))
    \<and> (1 \<le> cnt \<and> 1 \<le> limit \<longrightarrow>
        settles (timesLimit_step cnt limit) (timesLimit_init cnt limit :: 'e times_limit) (\<lambda>st. length (tl_calls st) = 1)
        \<and> (\<forall>st :: 'e times_limit. (timesLimit_step cnt limit)\<^sup>*\<^sup>* (timesLimit_init cnt limit) st
              \<longrightarrow> int (size (tl_running st)) \<le> limit \<and> length (tl_calls st) \<le> 1))"
proof -
  have "eachSeries.mach_inv n (eachSeries_start n)" "mapSeries.mach_inv n (mapSeries_start n)"
    "timesSeries.mach_inv n (timesSeries_start n)" "series.mach_inv n (series_start n)"
    by (auto simp: eachSeries_start_def mapSeries_start_def timesSeries_start_def series_start_def series_next_def)
  note settled = this(1) [THEN eachSeries.sequential_settles] this(2) [THEN mapSeries.sequential_settles]
    this(3) [THEN timesSeries.sequential_settles] this(4) [THEN series.sequential_settles]
  have "whilst_count.mach_inv n (whilst_start (\<lambda>k. k < n))" by (rule whilst_start_inv) simp_all
  note settled = settled this [THEN whilst_count.sequential_settles]
  show ?thesis by (intro conjI impI allI settled) (use timesLimit_settles timesLimit_bound in blast)+
qed

theorem series_callback_liveness_witness:
  "settles (series_step (eachSeries_ops 3)) (eachSeries_start 3 :: (nat, series_state) machine)
      (\<lambda>(p, st, started). \<exists>err. p = Finished err \<and> started = [0..<length started] \<and> (err = None \<longrightarrow> length started = 3))
    \<and> settles (timesLimit_step 5 2) (timesLimit_init 5 2 :: nat times_limit) (\<lambda>st. length (tl_calls st) = 1)"
  using series_callback_liveness [of 3 5 2, where 'e = nat] by simp

text \<open>
  Without tasks \<open>each\<close> and \<open>times\<close> call back at once, but \<open>parallel\<close> of an empty array, \<open>times\<close> of a negative count and \<open>timesLimit\<close> of no
  tasks never do: no step is possible after the loop and the callback was not called.
\<close>

theorem empty_never_calls_back:
  "cb_calls (each_start []) = [None] \<and> cb_calls (times_start (Some 0)) = [None]
    \<and> cb_calls (parallel_start []) = [] \<and> times_tasks (Some (- int (Suc k))) = 0 \<and> cb_calls (times_start (Some (- int (Suc k)))) = []
    \<and> settles (timesLimit_step 0 limit) (timesLimit_init 0 limit) (\<lambda>st. tl_calls st = [])"
proof -
  have "settles (timesLimit_step 0 limit) (timesLimit_init 0 limit) (\<lambda>st. tl_calls st = [])"
  proof (rule settles_measure [where good = "\<lambda>st. tl_calls st = [] \<and> tl_running st = {#} \<and> tl_ticks st = []"
        and m = "tl_measure 0 limit"])
    show "tl_calls st' = [] \<and> tl_running st' = {#} \<and> tl_ticks st' = []"
      if "tl_calls st = [] \<and> tl_running st = {#} \<and> tl_ticks st = []" "timesLimit_step 0 limit st st'" for st st'
      using that(2,1) by cases auto
  qed (simp_all add: timesLimit_init_def tl_step_measure)
  then show ?thesis by (simp add: each_start_def times_start_def times_tasks_def parallel_start_def invoke_cb_def new_gather_def)
qed

end
