(* ===== verification/Vint_Coding.thy ===== *)
theory Vint_Coding
  imports Long_Package
begin

text \<open>
  \<open>VIntCoding\<close> of \<^verbatim>\<open>src/lib/utils.js\<close>: variable-length integers. An unsigned 64-bit value takes one to nine bytes; the leading
  one bits of the first byte tell how many follow. Signed values are zig-zag encoded first. A function that fills a
  buffer returns the buffer; the read offset is passed along.
\<close>

section \<open>The code\<close>

definition encodeZigZag64 :: "'l long_bits \<Rightarrow> 'l \<Rightarrow> 'l" where
  "encodeZigZag64 B n = lb_xor B (lb_shiftLeft B (lb_toUnsigned B n) 1) (lb_shiftRight B n 63)"

definition decodeZigZag64 :: "'l long_bits \<Rightarrow> 'l \<Rightarrow> 'l" where
  "decodeZigZag64 B n = lb_xor B (lb_shiftRightUnsigned B n 1) (lb_negate B (lb_and B n (lb_fromInt B 1)))"

text \<open>The steps that halve the search for the highest bit; the state is the count and the shifted value.\<close>

definition nlz_step :: "nat \<Rightarrow> int \<times> int \<Rightarrow> int \<times> int" where
  "nlz_step k nx = (if js_shr (snd nx) (32 - k) = 0 then (fst nx + int k, js_shl (snd nx) k) else nx)"

definition nlz_rest :: "int \<times> int \<Rightarrow> int" where
  "nlz_rest nx = (let (n, x) = nlz_step 2 (nlz_step 4 (nlz_step 8 (nlz_step 16 nx))) in n - js_shr x 31)"

definition numberOfLeadingZeros :: "'l long_bits \<Rightarrow> 'l \<Rightarrow> int" where
  "numberOfLeadingZeros B v =
    (if lb_equals B v (lb_fromInt B 0) then 64
     else let x = lb_getHighBits B v
          in nlz_rest (if x = 0 then (33, lb_getLowBits B v) else (1, x)))"

definition numberOfLeadingZerosInt32 :: "int \<Rightarrow> int" where
  "numberOfLeadingZerosInt32 i = (if i = 0 then 32 else nlz_rest (1, i))"

definition computeUnsignedVIntSize :: "'l long_bits \<Rightarrow> 'l \<Rightarrow> int" where
  "computeUnsignedVIntSize B v = js_sar (639 - numberOfLeadingZeros B (lb_or B v (lb_fromInt B 1)) * 9) 6"

definition encodeExtraBytesToRead :: "nat \<Rightarrow> int" where
  "encodeExtraBytesToRead extraBytesToRead = js_not (js_sar 255 extraBytesToRead)"

text \<open>The two loops of \<open>encodeVInt\<close> write the bytes at the indices below \<open>n\<close>, downwards; the first at most four of them.\<close>

fun write_low :: "buffer \<Rightarrow> nat \<Rightarrow> nat \<Rightarrow> int \<Rightarrow> buffer \<times> nat" where
  "write_low buf (Suc i) (Suc intBytes) intValue =
    write_low (buf[i := to_byte (js_and 255 intValue)]) i intBytes (js_sar intValue 8)"
| "write_low buf n intBytes intValue = (buf, n)"

fun write_high :: "buffer \<Rightarrow> nat \<Rightarrow> int \<Rightarrow> buffer" where
  "write_high buf 0 intValue = buf"
| "write_high buf (Suc i) intValue = write_high (buf[i := to_byte (js_and 255 intValue)]) i (js_sar intValue 8)"

definition encodeVInt :: "'l long_bits \<Rightarrow> 'l \<Rightarrow> nat \<Rightarrow> buffer \<Rightarrow> buffer" where
  "encodeVInt B v sz buf =
    (let extraBytes = sz - 1;
         (buf, i) = write_low buf (extraBytes + 1) 4 (lb_getLowBits B v);
         buf = write_high buf i (lb_getHighBits B v)
     in buf[0 := to_byte (js_or (buf ! 0) (encodeExtraBytesToRead extraBytes))])"

definition writeUnsignedVInt :: "'l long_bits \<Rightarrow> 'l \<Rightarrow> buffer \<Rightarrow> nat \<times> buffer" where
  "writeUnsignedVInt B v buf =
    (let sz = nat (computeUnsignedVIntSize B v)
     in if sz = 1 then (1, buf[0 := to_byte (lb_getLowBits B v)]) else (sz, encodeVInt B v sz buf))"

definition writeVInt :: "'l long_bits \<Rightarrow> 'l \<Rightarrow> buffer \<Rightarrow> nat \<times> buffer" where
  "writeVInt B v buf = writeUnsignedVInt B (encodeZigZag64 B v) buf"

definition fromSignedByteToInt :: "int \<Rightarrow> int" where
  "fromSignedByteToInt b = (if b > 127 then b - 256 else b)"

definition numberOfExtraBytesToRead :: "int \<Rightarrow> int" where
  "numberOfExtraBytesToRead firstByte = numberOfLeadingZerosInt32 (js_not firstByte) - 24"

definition firstByteValueMask :: "nat \<Rightarrow> int" where
  "firstByteValueMask extraBytesToRead = js_sar 255 extraBytesToRead"

fun read_extra :: "'l long_bits \<Rightarrow> buffer \<Rightarrow> nat \<Rightarrow> nat \<Rightarrow> 'l \<Rightarrow> 'l \<times> nat" where
  "read_extra B input offset 0 result = (result, offset)"
| "read_extra B input offset (Suc n) result =
    read_extra B input (offset + 1) n (lb_or B (lb_shiftLeft B result 8) (lb_fromInt B (input ! offset)))"

definition readUnsignedVInt :: "'l long_bits \<Rightarrow> buffer \<Rightarrow> nat \<Rightarrow> 'l \<times> nat" where
  "readUnsignedVInt B input offset =
    (let firstByte = input ! offset; offset = offset + 1
     in if js_and firstByte 128 = 0 then (lb_fromInt B firstByte, offset)
        else let sByteInt = fromSignedByteToInt firstByte;
                 sz = nat (numberOfExtraBytesToRead sByteInt)
             in read_extra B input offset sz (lb_fromInt B (js_and sByteInt (firstByteValueMask sz))))"

definition readVInt :: "'l long_bits \<Rightarrow> buffer \<Rightarrow> nat \<Rightarrow> 'l \<times> nat" where
  "readVInt B buf offset = (let (n, offset) = readUnsignedVInt B buf offset in (decodeZigZag64 B n, offset))"

text \<open>The vints of vectors, on numbers. \<open>toString(2).length\<close> is the number of binary digits.\<close>

definition binary_length :: "int \<Rightarrow> nat" where
  "binary_length v = (if v = 0 then 1 else bit_length (nat v))"

fun unpack_loop :: "int \<Rightarrow> buffer \<Rightarrow> int" where
  "unpack_loop rv [] = rv"
| "unpack_loop rv (b # bs) = unpack_loop (js_or (js_shl rv 8) (js_and b 255)) bs"

text \<open>The size and the number of bytes read; the size is \<open>undefined\<close> where there is no byte. A byte past the end counts as 0.\<close>

definition uvintUnpack :: "buffer \<Rightarrow> int option \<times> nat" where
  "uvintUnpack bytes =
    (case bytes of
       [] \<Rightarrow> (None, 1)
     | firstByte # rest \<Rightarrow>
         if js_and firstByte 128 = 0 then (Some firstByte, 1)
         else let numExtraBytes = 8 - binary_length (js_and (js_not firstByte) 255)
              in (Some (unpack_loop (js_and firstByte (js_sar 255 numExtraBytes)) (take numExtraBytes (rest @ replicate numExtraBytes 0))),
                  numExtraBytes + 1))"

text \<open>The loop of \<open>uvintPack\<close>; \<open>rv\<close> collects the low bytes, last byte first. \<open>reservedBits\<close> never exceeds 8.\<close>

function pack_loop :: "int \<Rightarrow> int \<Rightarrow> nat \<Rightarrow> int \<Rightarrow> buffer \<Rightarrow> int \<times> nat \<times> buffer" where
  "pack_loop v numBits numExtraBytes reservedBits rv =
    (if numBits > 8 - reservedBits \<and> reservedBits \<le> 8
     then pack_loop (js_sar v 8) (numBits - 8) (numExtraBytes + 1) (min (int numExtraBytes + 2) 8) (rv @ [js_and v 255])
     else (v, numExtraBytes, rv))"
  by pat_completeness auto
termination by (relation "measure (\<lambda>(v, numBits, _, _, _). nat (numBits + 8))") auto

definition uvintPack :: "int \<Rightarrow> buffer result" where
  "uvintPack value =
    (if value < 128 then Inr [to_byte value]
     else let (v, numExtraBytes, rv) = pack_loop value (int (binary_length value)) 0 1 []
          in if numExtraBytes > 8 then Inl PlainError
             else let n = 8 - numExtraBytes; v = js_or v (js_shl (js_sar 255 n) n)
                  in Inr (map to_byte (rev (rv @ [\<bar>v\<bar>]))))"

section \<open>Leading zeros\<close>

text \<open>\<open>n\<close> is the number of leading zeros of \<open>x\<close> as a 32-bit number when \<open>x * 2 ^ n\<close> has its highest bit set.\<close>

lemma to_int32_mult: "to_int32 (to_int32 a * b) = to_int32 (a * b)"
proof -
  have "to_uint32 (to_int32 a * b) = to_uint32 (a * b)"
    using to_uint32_to_int32 [of a] by (simp add: to_uint32_mod) (metis mod_mult_left_eq)
  then show ?thesis by (metis to_int32_to_uint32)
qed

lemma nlz_step_spec:
  assumes "0 < x" and "x < 2 ^ 32" and "x * 2 ^ m < 2 ^ 32" and "k \<in> {2, 4, 8, 16}" and "x * 2 ^ m \<ge> 2 ^ (32 - 2 * k)"
    and "y = to_int32 (x * 2 ^ m)"
  shows "\<exists>m'. nlz_step k (1 + int m + c, y) = (1 + int m' + c, to_int32 (x * 2 ^ m')) \<and> x * 2 ^ m' < 2 ^ 32 \<and> 2 ^ (32 - k) \<le> x * 2 ^ m'"
proof -
  let ?z = "x * 2 ^ m"
  have z: "0 \<le> ?z" using assms(1) by simp
  have sh: "js_shr y (32 - k) = ?z div 2 ^ (32 - k)"
  proof -
    have "js_shr y (32 - k) = to_uint32 y div 2 ^ (32 - k)" using assms(4) by (auto simp: js_shr_def drop_bit_eq_div)
    also have "to_uint32 y = ?z" using assms(3,6) z by simp
    finally show ?thesis .
  qed
  show ?thesis
  proof (cases "?z < 2 ^ (32 - k)")
    case True
    then have zero: "js_shr y (32 - k) = 0" using sh z by simp
    have "js_shl y k = to_int32 (y * 2 ^ k)" using assms(4) by (intro js_shl_mult) auto
    also have "\<dots> = to_int32 (?z * 2 ^ k)"
      unfolding assms(6) by (rule to_int32_mult)
    finally have sl: "js_shl y k = to_int32 (x * 2 ^ (m + k))" by (simp add: power_add mult.assoc)
    have "x * 2 ^ (m + k) = ?z * 2 ^ k" by (simp add: power_add)
    moreover have "?z * 2 ^ k < 2 ^ (32 - k) * 2 ^ k" using True by simp
    moreover have "(2::int) ^ (32 - k) * 2 ^ k = 2 ^ 32" "(2::int) ^ (32 - 2 * k) * 2 ^ k = 2 ^ (32 - k)" using assms(4) by auto
    moreover have "2 ^ (32 - 2 * k) * 2 ^ k \<le> ?z * 2 ^ k" using assms(5) by simp
    ultimately have "x * 2 ^ (m + k) < 2 ^ 32" "2 ^ (32 - k) \<le> x * 2 ^ (m + k)" by linarith+
    then show ?thesis using zero sl by (intro exI [of _ "m + k"]) (simp add: nlz_step_def)
  next
    case False
    then have "0 < ?z div 2 ^ (32 - k)" by (subst pos_imp_zdiv_pos_iff) simp_all
    then have "js_shr y (32 - k) \<noteq> 0" using sh by linarith
    then show ?thesis using False assms(3,6) by (intro exI [of _ m]) (simp add: nlz_step_def)
  qed
qed

lemma nlz_rest_spec:
  assumes "0 < x" and "x < 2 ^ 32"
  shows "\<exists>n. nlz_rest (1 + c, to_int32 x) = int n + c \<and> n < 32 \<and> x * 2 ^ n < 2 ^ 32 \<and> 2 ^ 31 \<le> x * 2 ^ n"
proof -
  obtain m1 where m1: "nlz_step 16 (1 + c, to_int32 x) = (1 + int m1 + c, to_int32 (x * 2 ^ m1))" "x * 2 ^ m1 < 2 ^ 32" "2 ^ 16 \<le> x * 2 ^ m1"
    using nlz_step_spec [OF assms, of 0 16 "to_int32 x" c] assms by auto
  obtain m2 where m2: "nlz_step 8 (1 + int m1 + c, to_int32 (x * 2 ^ m1)) = (1 + int m2 + c, to_int32 (x * 2 ^ m2))"
      "x * 2 ^ m2 < 2 ^ 32" "2 ^ 24 \<le> x * 2 ^ m2"
    using nlz_step_spec [OF assms m1(2), of 8 _ c] m1(3) by auto
  obtain m3 where m3: "nlz_step 4 (1 + int m2 + c, to_int32 (x * 2 ^ m2)) = (1 + int m3 + c, to_int32 (x * 2 ^ m3))"
      "x * 2 ^ m3 < 2 ^ 32" "2 ^ 28 \<le> x * 2 ^ m3"
    using nlz_step_spec [OF assms m2(2), of 4 _ c] m2(3) by auto
  obtain m where m: "nlz_step 2 (1 + int m3 + c, to_int32 (x * 2 ^ m3)) = (1 + int m + c, to_int32 (x * 2 ^ m))"
      "x * 2 ^ m < 2 ^ 32" "2 ^ 30 \<le> x * 2 ^ m"
    using nlz_step_spec [OF assms m3(2), of 2 _ c] m3(3) by auto
  have top: "js_shr (to_int32 (x * 2 ^ m)) 31 = x * 2 ^ m div 2 ^ 31" using m(2) assms(1) by (simp add: js_shr_def drop_bit_eq_div)
  define n where "n = (if 2 ^ 31 \<le> x * 2 ^ m then m else m + 1)"
  have n: "x * 2 ^ n < 2 ^ 32" "2 ^ 31 \<le> x * 2 ^ n" using m(2,3) by (auto simp: n_def)
  have "x * 2 ^ m div 2 ^ 31 = (if 2 ^ 31 \<le> x * 2 ^ m then 1 else 0)"
    using m(2) assms(1) by (auto simp: zdiv_eq_0_iff intro!: int_div_pos_eq [of _ _ _ "x * 2 ^ m - 2 ^ 31"])
  then have "nlz_rest (1 + c, to_int32 x) = int n + c" using m1(1) m2(1) m3(1) m(1) top by (simp add: nlz_rest_def n_def)
  moreover have "n < 32"
  proof (rule ccontr)
    assume "\<not> n < 32"
    then have "(2::int) ^ 32 \<le> 2 ^ n" by (intro power_increasing) simp_all
    also have "\<dots> \<le> x * 2 ^ n" using assms(1) by simp
    finally show False using n(1) by simp
  qed
  ultimately show ?thesis using n by blast
qed

lemma nlz32_spec:
  "0 < x \<Longrightarrow> x < 2 ^ 31 \<Longrightarrow> \<exists>n. numberOfLeadingZerosInt32 x = int n \<and> x * 2 ^ n < 2 ^ 32 \<and> 2 ^ 31 \<le> x * 2 ^ n"
  using nlz_rest_spec [of x 0] by (auto simp: numberOfLeadingZerosInt32_def)

section \<open>Bytes\<close>

definition bytes_le :: "int \<Rightarrow> nat \<Rightarrow> buffer" where
  "bytes_le v n = map (\<lambda>k. v div 256 ^ k mod 256) [0..<n]"

lemma bytes_le_simps [simp]: "bytes_le v 0 = []" "bytes_le v (Suc n) = v mod 256 # bytes_le (v div 256) n"
proof -
  have "v div 256 div 256 ^ k = v div 256 ^ Suc k" for k by (simp add: zdiv_zmult2_eq)
  then show "bytes_le v (Suc n) = v mod 256 # bytes_le (v div 256) n"
    by (simp add: bytes_le_def map_upt_Suc del: upt_Suc)
qed (simp add: bytes_le_def)

lemma length_bytes_le [simp]: "length (bytes_le v n) = n"
  by (simp add: bytes_le_def)

lemma bytes_le_ok [simp]: "bytes_ok (rev (bytes_le v n))"
  by (simp add: bytes_ok_def bytes_le_def)

lemma be_uint_bytes_le: "be_uint (rev (bytes_le v n)) = v mod 256 ^ n"
proof (induction n arbitrary: v)
  case (Suc n)
  then show ?case by (simp add: be_uint_append be_uint_Cons) (simp add: zmod_zmult2_eq [of "256 ^ n" v 256])
qed simp

lemma low_byte: "to_byte (js_and 255 v) = v mod 256"
  using js_and_masks(2) [of v] by (simp add: js_and_def to_byte_def and.commute)

lemma byte_at: "a div 256 ^ k mod 256 = take_bit 8 (drop_bit (8 * k) (a :: int))"
proof -
  have "(256 :: int) ^ k = 2 ^ (8 * k)" by (simp add: power_mult)
  then show ?thesis by (simp add: take_bit_eq_mod drop_bit_eq_div)
qed

lemma bytes_le_cong: "take_bit (8 * n) a = take_bit (8 * n) b \<Longrightarrow> bytes_le a n = bytes_le b n"
proof -
  assume eq: "take_bit (8 * n) a = take_bit (8 * n) b"
  have "take_bit 8 (drop_bit (8 * k) a) = take_bit 8 (drop_bit (8 * k) b)" if "k < n" for k
  proof (rule bit_eqI)
    fix i
    have "bit (take_bit (8 * n) a) (8 * k + i) = bit (take_bit (8 * n) b) (8 * k + i)" using eq by simp
    then show "bit (take_bit 8 (drop_bit (8 * k) a)) i = bit (take_bit 8 (drop_bit (8 * k) b)) i"
      using that by (auto simp: bit_simps)
  qed
  then show ?thesis by (simp add: bytes_le_def byte_at)
qed

lemma bytes_le_append: "bytes_le v (m + n) = bytes_le v m @ bytes_le (v div 256 ^ m) n"
proof (induction m arbitrary: v)
  case (Suc m)
  then show ?case by (simp add: zdiv_zmult2_eq)
qed simp

abbreviation int32_value :: "int \<Rightarrow> bool" where
  "int32_value v \<equiv> - 2147483648 \<le> v \<and> v < 2147483648"

lemma sar_8: "int32_value v \<Longrightarrow> js_sar v 8 = v div 256 \<and> int32_value (v div 256)"
proof -
  assume v: "int32_value v"
  then have "int32_value (v div 256)"
    using div_mult_mod_eq [of v 256] pos_mod_bound [of 256 v] pos_mod_sign [of 256 v] by linarith
  then show ?thesis using v by (simp add: js_sar_def drop_bit_eq_div)
qed

lemma write_low_bytes:
  "int32_value v \<Longrightarrow> n \<le> length buf \<Longrightarrow>
    write_low buf n k v = (take (n - min k n) buf @ rev (bytes_le v (min k n)) @ drop n buf, n - min k n)"
proof (induction buf n k v rule: write_low.induct)
  case (1 buf i k v)
  then have "write_low buf (Suc i) (Suc k) v
      = (take (i - min k i) (buf[i := v mod 256]) @ rev (bytes_le (v div 256) (min k i)) @ drop i (buf[i := v mod 256]), i - min k i)"
    using sar_8 [of v] by (simp add: low_byte)
  moreover have "drop i (buf[i := v mod 256]) = v mod 256 # drop (Suc i) buf" using 1(3) by (simp add: Cons_nth_drop_Suc [symmetric])
  ultimately show ?case by simp
qed auto

lemma write_high_bytes:
  "int32_value v \<Longrightarrow> n \<le> length buf \<Longrightarrow> write_high buf n v = rev (bytes_le v n) @ drop n buf"
proof (induction buf n v rule: write_high.induct)
  case (2 buf i v)
  then have "write_high buf (Suc i) v = rev (bytes_le (v div 256) i) @ drop i (buf[i := v mod 256])"
    using sar_8 [of v] by (simp add: low_byte)
  moreover have "drop i (buf[i := v mod 256]) = v mod 256 # drop (Suc i) buf" using 2(3) by (simp add: Cons_nth_drop_Suc [symmetric])
  ultimately show ?case by simp
qed simp

section \<open>Writing\<close>

lemma zeros_size: "0 \<le> z \<Longrightarrow> z < 64 \<Longrightarrow> s = (639 - z * 9) div 64 \<Longrightarrow> 1 \<le> s \<and> s \<le> 9 \<and> (s \<le> 8 \<longrightarrow> 64 - z \<le> 7 * (s::int))"
proof -
  assume z: "0 \<le> z" "z < 64" and s: "s = (639 - z * 9) div 64"
  have "64 * s \<le> 639 - z * 9" "639 - z * 9 < 64 * s + 64"
    using div_mult_mod_eq [of "639 - z * 9" 64] pos_mod_bound [of 64 "639 - z * 9"] pos_mod_sign [of 64 "639 - z * 9"] s by linarith+
  then show ?thesis using z by linarith
qed

lemma and_128: "0 \<le> f \<Longrightarrow> f < 256 \<Longrightarrow> js_and f 128 = 0 \<longleftrightarrow> f < 128"
proof -
  assume f: "0 \<le> f" "f < 256"
  have "js_and f 128 = f AND 2 ^ 7" using f by (simp add: js_and_def)
  moreover have "f div 128 = (if f < 128 then 0 else 1)" using f by (auto simp: zdiv_eq_0_iff intro!: int_div_pos_eq [of _ _ _ "f - 128"])
  ultimately show ?thesis by (simp only: and_exp_eq_0_iff_not_bit bit_iff_odd) simp
qed

lemma extra_mark: "e \<le> 8 \<Longrightarrow> encodeExtraBytesToRead e = - (2 ^ (8 - e)) \<and> js_sar 255 e = 2 ^ (8 - e) - 1"
proof -
  assume "e \<le> 8"
  then have "e \<in> {0, 1, 2, 3, 4, 5, 6, 7, 8}" by auto
  then show ?thesis by (auto simp: encodeExtraBytesToRead_def js_sar_div js_not_def not_int_def)
qed

lemma first_byte:
  assumes "e \<le> 8" and "0 \<le> b" and "b < 2 ^ (8 - e)"
  shows "to_byte (js_or b (encodeExtraBytesToRead e)) = 256 - 2 ^ (8 - e) + b"
proof -
  let ?m = "8 - e"
  have le: "(2::int) ^ ?m \<le> 2 ^ 8" by (intro power_increasing) simp_all
  have "b OR - (2 ^ ?m) = b + - (2 ^ ?m)"
  proof (rule disjunctive_add_eq_or [symmetric], rule bit_eqI)
    fix n
    have "n < ?m" if "bit b n" using bit_bounded_int [OF assms(2,3) that] .
    then show "bit (b AND - (2 ^ ?m)) n = bit 0 n" by (auto simp: bit_simps minus_exp_eq_not_mask)
  qed
  then have "js_or b (encodeExtraBytesToRead e) = b - 2 ^ ?m" using assms le extra_mark [OF assms(1)] by (simp add: js_or_def)
  also have "(b - 2 ^ ?m) mod 256 = (256 - 2 ^ ?m + b) mod 256" by (metis add_diff_eq add.commute diff_add_eq mod_add_self1)
  also have "\<dots> = 256 - 2 ^ ?m + b" using assms le by (intro mod_pos_pos_trivial) auto
  finally show ?thesis by (simp add: to_byte_def)
qed

lemma extra_bytes_read:
  assumes "1 \<le> e" and "e \<le> 8" and "0 \<le> c" and "if e = 8 then c = 0 else c < 2 ^ (7 - e)" and "f = 256 - 2 ^ (8 - e) + c"
  shows "128 \<le> f \<and> f < 256 \<and> numberOfExtraBytesToRead (fromSignedByteToInt f) = int e
    \<and> js_and (fromSignedByteToInt f) (firstByteValueMask e) = c"
proof -
  let ?m = "8 - e"
  have m7: "(2::int) ^ ?m \<le> 2 ^ 7" using assms(1) by (intro power_increasing) simp_all
  have half: "(2::int) ^ ?m = 2 * 2 ^ (7 - e)" if "e \<noteq> 8" using that assms(2) by (simp add: Suc_diff_le flip: power_Suc)
  have c: "c < 2 ^ ?m" using assms(3,4) half by (cases "e = 8") auto
  have f: "128 \<le> f" "f < 256" using m7 c assms(3,5) by auto
  have sb: "fromSignedByteToInt f = c - 2 ^ ?m" using f assms(5) by (simp add: fromSignedByteToInt_def)
  have "js_and (c - 2 ^ ?m) (2 ^ ?m - 1) = (c - 2 ^ ?m) mod 2 ^ ?m" by (rule js_and_mask) simp
  also have "\<dots> = c mod 2 ^ ?m" by (rule minus_mod_self2)
  also have "\<dots> = c" using c assms(3) by (intro mod_pos_pos_trivial)
  finally have mask: "js_and (fromSignedByteToInt f) (firstByteValueMask e) = c"
    using extra_mark [OF assms(2)] by (simp add: sb firstByteValueMask_def)
  have nb: "js_not (fromSignedByteToInt f) = 2 ^ ?m - c - 1" using m7 c assms(3) by (simp add: sb js_not_def not_int_def)
  have "numberOfLeadingZerosInt32 (2 ^ ?m - c - 1) = int (24 + e)"
  proof (cases "e = 8")
    case True
    then show ?thesis using assms(4) by (simp add: numberOfLeadingZerosInt32_def)
  next
    case False
    let ?x = "2 ^ ?m - c - 1"
    have x: "2 ^ (7 - e) \<le> ?x" "?x < 2 ^ ?m" using half [OF False] assms(3,4) False by auto
    have "(1::int) \<le> 2 ^ (7 - e)" by simp
    then have pos: "0 < ?x" using x(1) by linarith
    have x31: "?x < 2 ^ 31" using x(2) m7 by simp
    obtain n where n: "numberOfLeadingZerosInt32 ?x = int n" "?x * 2 ^ n < 2 ^ 32" "2 ^ 31 \<le> ?x * 2 ^ n" using nlz32_spec [OF pos x31] by blast
    have "2 ^ (7 - e) * 2 ^ n \<le> ?x * 2 ^ n" using x(1) by (intro mult_right_mono) simp_all
    then have "(2::int) ^ (7 - e + n) < 2 ^ 32" using n(2) unfolding power_add by linarith
    then have "7 - e + n < 32" by (rule power_less_imp_less_exp [rotated]) simp
    moreover have "?x * 2 ^ n < 2 ^ ?m * 2 ^ n" using x(2) by simp
    then have "(2::int) ^ 31 < 2 ^ (?m + n)" using n(3) unfolding power_add by linarith
    then have "31 < ?m + n" by (rule power_less_imp_less_exp [rotated]) simp
    ultimately have "n = 24 + e" using assms(2) False by linarith
    then show ?thesis using n(1) by simp
  qed
  then show ?thesis using f mask nb by (simp add: numberOfExtraBytesToRead_def)
qed

context long_bits_laws
begin

lemma uint_bounds: "0 \<le> uint (word v)" "uint (word v) < 2 ^ 64"
  using uint_lt2p [of "word v"] by simp_all

lemma leading_zeros:
  assumes "word v \<noteq> 0"
  shows "\<exists>z. numberOfLeadingZeros B v = int z \<and> z < 64 \<and> uint (word v) < 2 ^ (64 - z)"
proof -
  let ?u = "uint (word v)"
  let ?h = "?u div 2 ^ 32"
  have u: "0 < ?u" using assms uint_bounds(1) [of v] by (simp add: order_less_le uint_0_iff)
  have h: "0 \<le> ?h" "?h < 2 ^ 32" using uint_bounds [of v] by (simp_all add: pos_imp_zdiv_nonneg_iff)
  have zero: "to_int32 ?h = 0 \<longleftrightarrow> ?h = 0"
    using h to_uint32_to_int32 [of ?h] to_uint32_id [of ?h] by (auto simp: to_uint32_mod)
  have neq: "\<not> lb_equals B v (lb_fromInt B 0)" using assms fromInt [of 0] by (simp add: equals)
  show ?thesis
  proof (cases "?h = 0")
    case True
    then have small: "?u < 2 ^ 32" using uint_bounds(1) [of v] u by (auto simp: zdiv_eq_0_iff)
    obtain n where n: "nlz_rest (1 + 32, to_int32 ?u) = int n + 32" "n < 32" "?u * 2 ^ n < 2 ^ 32"
      using nlz_rest_spec [OF u small, of 32] by blast
    have "numberOfLeadingZeros B v = int (n + 32)" using neq n(1) zero True by (simp add: numberOfLeadingZeros_def getHighBits getLowBits)
    moreover have "?u < 2 ^ (32 - n)"
    proof -
      have "?u * 2 ^ n < 2 ^ (32 - n) * 2 ^ n" using n by (simp add: power_add [symmetric])
      then show ?thesis by simp
    qed
    ultimately show ?thesis using n(2) by (intro exI [of _ "n + 32"]) simp
  next
    case False
    then have pos: "0 < ?h" using h by simp
    obtain n where n: "nlz_rest (1 + 0, to_int32 ?h) = int n + 0" "n < 32" "?h * 2 ^ n < 2 ^ 32"
      using nlz_rest_spec [OF pos h(2), of 0] by blast
    have "numberOfLeadingZeros B v = int n" using neq n(1) zero False by (simp add: numberOfLeadingZeros_def getHighBits getLowBits)
    moreover have "?u < 2 ^ (64 - n)"
    proof -
      have "?h * 2 ^ n < 2 ^ (32 - n) * 2 ^ n" using n by (simp add: power_add [symmetric])
      then have "?h + 1 \<le> 2 ^ (32 - n)" by simp
      then have "(?h + 1) * 2 ^ 32 \<le> 2 ^ (32 - n) * 2 ^ 32" by simp
      also have "\<dots> = 2 ^ (32 - n + 32)" by (simp only: power_add)
      also have "32 - n + 32 = 64 - n" using n(2) by simp
      finally show ?thesis using div_mult_mod_eq [of ?u "2 ^ 32"] pos_mod_bound [of "2 ^ 32" ?u] by (simp add: algebra_simps)
    qed
    ultimately show ?thesis using n(2) by (intro exI [of _ n]) simp
  qed
qed

lemma vint_size:
  "\<exists>s. computeUnsignedVIntSize B v = int s \<and> 1 \<le> s \<and> s \<le> 9 \<and> (s \<le> 8 \<longrightarrow> uint (word v) < 2 ^ (7 * s))"
proof -
  let ?v = "lb_or B v (lb_fromInt B 1)"
  have w: "word ?v = word v OR 1" using fromInt [of 1] by (simp add: bit_or)
  have "bit (word ?v) 0" by (simp add: w bit_simps)
  then have "word ?v \<noteq> 0" by auto
  then obtain z where z: "numberOfLeadingZeros B ?v = int z" "z < 64" "uint (word ?v) < 2 ^ (64 - z)" using leading_zeros by blast
  have "word v \<le> word ?v" unfolding w by (rule le_word_or2)
  then have le: "uint (word v) \<le> uint (word ?v)" by (simp add: word_le_def)
  define s where "s = (639 - int z * 9) div 64"
  have s: "1 \<le> s" "s \<le> 9" "s \<le> 8 \<longrightarrow> 64 - int z \<le> 7 * s" using zeros_size [of "int z" s] z(2) s_def by auto
  have "computeUnsignedVIntSize B v = s" using z(1,2) by (simp add: computeUnsignedVIntSize_def js_sar_div s_def)
  moreover have "uint (word v) < 2 ^ (7 * nat s)" if "s \<le> 8"
  proof -
    have "64 - z \<le> 7 * nat s" using s that z(2) by linarith
    then have "(2::int) ^ (64 - z) \<le> 2 ^ (7 * nat s)" by (intro power_increasing) simp_all
    then show ?thesis using z(3) le by linarith
  qed
  ultimately show ?thesis using s(1,2) by (intro exI [of _ "nat s"]) auto
qed

lemma vint_bytes:
  assumes "1 \<le> s" and "s \<le> 9" and "s \<le> length buf"
  shows "\<exists>b0. encodeVInt B v s buf = to_byte (js_or b0 (encodeExtraBytesToRead (s - 1))) # rev (bytes_le (uint (word v)) (s - 1)) @ drop s buf
    \<and> (s \<le> 8 \<longrightarrow> b0 = uint (word v) div 256 ^ (s - 1) mod 256) \<and> int32_value b0"
proof -
  let ?u = "uint (word v)"
  let ?lo = "to_int32 ?u" and ?hi = "to_int32 (?u div 2 ^ 32)"
  have r: "int32_value ?lo" "int32_value ?hi" using to_int32_range by simp_all
  have lo: "bytes_le ?lo (min 4 s) = bytes_le ?u (min 4 s)" by (rule bytes_le_cong) (simp add: min_def)
  have hi: "bytes_le ?hi n = bytes_le (?u div 256 ^ 4) n" if "n \<le> 4" for n using that by (intro bytes_le_cong) simp
  define buf2 where "buf2 = rev (bytes_le ?hi (s - min 4 s)) @ rev (bytes_le ?u (min 4 s)) @ drop s buf"
  have enc: "encodeVInt B v s buf = buf2[0 := to_byte (js_or (buf2 ! 0) (encodeExtraBytesToRead (s - 1)))]"
    using assms r lo by (simp add: encodeVInt_def getLowBits getHighBits write_low_bytes write_high_bytes buf2_def Let_def)
  obtain b0 where b: "buf2 = b0 # rev (bytes_le ?u (s - 1)) @ drop s buf" "s \<le> 8 \<longrightarrow> b0 = ?u div 256 ^ (s - 1) mod 256" "0 \<le> b0" "b0 < 256"
  proof (cases "s \<le> 8")
    case True
    have "bytes_le ?u s = bytes_le ?u (min 4 s) @ bytes_le (?u div 256 ^ min 4 s) (s - min 4 s)"
      using bytes_le_append [of ?u "min 4 s" "s - min 4 s"] by simp
    moreover have "bytes_le ?hi (s - min 4 s) = bytes_le (?u div 256 ^ min 4 s) (s - min 4 s)"
    proof (cases "s \<le> 4")
      case False
      then show ?thesis using hi [of "s - 4"] True by (simp add: min_def)
    qed simp
    ultimately have "buf2 = rev (bytes_le ?u s) @ drop s buf" by (simp add: buf2_def)
    moreover have "bytes_le ?u s = bytes_le ?u (s - 1) @ [?u div 256 ^ (s - 1) mod 256]"
      using bytes_le_append [of ?u "s - 1" 1] assms(1) by simp
    ultimately show ?thesis using that True by simp
  next
    case False
    then have s: "s = 9" using assms(2) by simp
    have "bytes_le ?hi 5 = bytes_le ?hi 4 @ [?hi div 256 ^ 4 mod 256]" using bytes_le_append [of ?hi 4 1] by simp
    moreover have "bytes_le ?u 8 = bytes_le ?u 4 @ bytes_le (?u div 256 ^ 4) 4" using bytes_le_append [of ?u 4 4] by simp
    ultimately have "buf2 = (?hi div 256 ^ 4 mod 256) # rev (bytes_le ?u 8) @ drop s buf"
      using hi [of 4] s by (simp add: buf2_def del: bytes_le_simps)
    then show ?thesis using that s by simp
  qed
  then show ?thesis using enc by (intro exI [of _ b0]) simp
qed

lemma read_extra_word:
  "bytes_ok bs \<Longrightarrow> drop off input = bs @ post \<Longrightarrow>
    \<exists>r'. read_extra B input off (length bs) r = (r', off + length bs) \<and> word r' = word r * 256 ^ length bs + word_of_int (be_uint bs) \<and>
      (\<not> uns r \<longrightarrow> \<not> uns r')"
proof (induction bs arbitrary: off r)
  case (Cons b bs)
  have b: "input ! off = b" using Cons.prems(2) by (metis append_Cons nth_via_drop)
  have d: "drop (off + 1) input = bs @ post" using Cons.prems(2) by (metis Suc_eq_plus1 append_Cons drop_Suc list.sel(3) tl_drop)
  let ?r = "lb_or B (lb_shiftLeft B r 8) (lb_fromInt B b)"
  have "word (lb_fromInt B b) = word_of_int b" using Cons.prems(1) by (intro fromInt) simp_all
  moreover have "push_bit 8 (word r) OR word_of_int b = push_bit 8 (word r) + word_of_int b"
  proof (rule disjunctive_add_eq_or [symmetric], rule bit_word_eqI)
    fix n
    have "\<not> bit b n" if "8 \<le> n" using Cons.prems(1) that bit_bounded_int [of b 8 n] by auto
    then show "bit (push_bit 8 (word r) AND word_of_int b) n = bit 0 n" by (auto simp: bit_simps)
  qed
  ultimately have w: "word ?r = word r * 256 + word_of_int b" by (simp add: bit_or shiftLeft push_bit_eq_mult)
  obtain r' where r': "read_extra B input (off + 1) (length bs) ?r = (r', off + 1 + length bs)"
      "word r' = word ?r * 256 ^ length bs + word_of_int (be_uint bs)" "\<not> uns ?r \<longrightarrow> \<not> uns r'"
    using Cons.IH [OF _ d, of ?r] Cons.prems(1) by auto
  then show ?case using b w by (simp add: be_uint_Cons algebra_simps signed_results)
qed simp

lemma vint_read:
  assumes "9 \<le> length buf"
  shows "\<exists>s out r. writeUnsignedVInt B v buf = (s, out) \<and> 1 \<le> s \<and> s \<le> 9 \<and> length out = length buf \<and> bytes_ok (take s out)
    \<and> (\<forall>pre post. \<exists>r. readUnsignedVInt B (pre @ take s out @ post) (length pre) = (r, length pre + s) \<and> word r = word v \<and> \<not> uns r)"
proof -
  let ?u = "uint (word v)"
  obtain s where s: "computeUnsignedVIntSize B v = int s" "1 \<le> s" "s \<le> 9" "s \<le> 8 \<longrightarrow> ?u < 2 ^ (7 * s)" using vint_size by blast
  have wu: "word_of_int ?u = word v" by simp
  show ?thesis
  proof (cases "s = 1")
    case True
    then have u: "?u < 128" using s(4) by simp
    let ?out = "buf[0 := ?u]"
    have "writeUnsignedVInt B v buf = (1, ?out)"
      using s(1) True u uint_bounds(1) [of v] by (simp add: writeUnsignedVInt_def getLowBits to_byte_def)
    moreover have t: "take 1 ?out = [?u]" using assms by (cases buf) simp_all
    moreover have "readUnsignedVInt B (pre @ [?u] @ post) (length pre) = (lb_fromInt B ?u, length pre + 1)" for pre post
      using and_128 [of ?u] u uint_bounds(1) [of v] by (simp add: readUnsignedVInt_def Let_def)
    moreover have "word (lb_fromInt B ?u) = word v" using fromInt [of ?u] u uint_bounds(1) [of v] by simp
    ultimately show ?thesis using u uint_bounds(1) [of v]
      by (intro exI [of _ 1] exI [of _ ?out]) (simp add: signed_results del: One_nat_def)
  next
    case False
    define e where "e = s - 1"
    have e: "1 \<le> e" "e \<le> 8" "s = Suc e" using False s(2,3) by (auto simp: e_def)
    obtain b0 where b0: "encodeVInt B v s buf = to_byte (js_or b0 (encodeExtraBytesToRead e)) # rev (bytes_le ?u e) @ drop s buf"
        "s \<le> 8 \<longrightarrow> b0 = ?u div 256 ^ e mod 256" "int32_value b0"
      using vint_bytes [of s buf v] s(2,3) assms unfolding e_def by auto
    define c where "c = (if e = 8 then 0 else ?u div 256 ^ e)"
    have c: "0 \<le> c" "if e = 8 then c = 0 else c < 2 ^ (7 - e)" "c * 256 ^ e + ?u mod 256 ^ e = ?u"
    proof -
      have p: "(256::int) ^ e = 2 ^ (8 * e)" by (simp add: power_mult)
      show "0 \<le> c" using uint_bounds(1) [of v] by (simp add: c_def pos_imp_zdiv_nonneg_iff)
      show "c * 256 ^ e + ?u mod 256 ^ e = ?u" using uint_bounds [of v] div_mult_mod_eq [of ?u "256 ^ e"] by (auto simp: c_def)
      have "?u div 256 ^ e < 2 ^ (7 - e)" if "e \<noteq> 8"
      proof -
        have "7 * s = (7 - e) + 8 * e" using that e by simp
        then have "(2::int) ^ (7 * s) = 2 ^ (7 - e) * 256 ^ e" by (simp only: p power_add)
        then have "?u < 2 ^ (7 - e) * 256 ^ e" using s(4) that e(2,3) by simp
        then show ?thesis using pos_div_less by simp
      qed
      then show "if e = 8 then c = 0 else c < 2 ^ (7 - e)" by (simp add: c_def)
    qed
    have c128: "c < 128"
    proof (cases "e = 8")
      case False
      have "(2::int) ^ (7 - e) \<le> 2 ^ 7" by (intro power_increasing) simp_all
      then show ?thesis using c(2) False by simp
    qed (use c(2) in simp)
    define f where "f = 256 - 2 ^ (8 - e) + c"
    have f: "to_byte (js_or b0 (encodeExtraBytesToRead e)) = f"
    proof (cases "e = 8")
      case True
      then show ?thesis using c(2) extra_mark [of 8] by (simp add: f_def js_or_def to_byte_def)
    next
      case False
      then have "b0 = c" using b0(2) e(2,3) c(1) c128 by (auto simp: c_def)
      moreover have "c < 2 ^ (8 - e)"
      proof -
        have "(2::int) ^ (7 - e) \<le> 2 ^ (8 - e)" by (intro power_increasing) simp_all
        then show ?thesis using c(2) False unfolding if_not_P [OF False] by linarith
      qed
      ultimately show ?thesis using first_byte [OF e(2) c(1)] by (simp add: f_def)
    qed
    note rd = extra_bytes_read [OF e(1,2) c(1,2) f_def]
    let ?out = "f # rev (bytes_le ?u e) @ drop s buf"
    have w: "writeUnsignedVInt B v buf = (s, ?out)" using s(1) False b0(1) f by (simp add: writeUnsignedVInt_def Let_def)
    have t: "take s ?out = f # rev (bytes_le ?u e)" using e(3) by simp
    have "\<exists>r. readUnsignedVInt B (pre @ take s ?out @ post) (length pre) = (r, length pre + s) \<and> word r = word v \<and> \<not> uns r" for pre post
    proof -
      let ?in = "pre @ take s ?out @ post" and ?r0 = "lb_fromInt B c"
      have "drop (length pre + 1) ?in = rev (bytes_le ?u e) @ post" by (simp add: t)
      then obtain r where r: "read_extra B ?in (length pre + 1) e ?r0 = (r, length pre + 1 + e)"
          "word r = word ?r0 * 256 ^ e + word_of_int (?u mod 256 ^ e)" "\<not> uns r"
        using read_extra_word [of "rev (bytes_le ?u e)" "length pre + 1" ?in post ?r0] by (auto simp: be_uint_bytes_le signed_results)
      have "word ?r0 = word_of_int c" using c(1) c128 by (intro fromInt) simp_all
      then have "word r = word_of_int (c * 256 ^ e + ?u mod 256 ^ e)" using r(2) by simp
      then have "word r = word v" by (simp only: c(3) wu)
      moreover have "readUnsignedVInt B ?in (length pre) = read_extra B ?in (length pre + 1) e ?r0"
        using rd and_128 [of f] by (simp add: readUnsignedVInt_def t nth_append Let_def)
      ultimately show ?thesis using r(1,3) e(3) by simp
    qed
    moreover have "bytes_ok (take s ?out)" using rd by (simp add: t)
    moreover have "length ?out = length buf" using e(3) assms s(3) by simp
    ultimately show ?thesis using w s(2,3) by blast
  qed
qed

lemma zigzag_inverse: "word (decodeZigZag64 B (encodeZigZag64 B n)) = word n"
proof -
  have one: "word (lb_fromInt B 1) = 1" using fromInt [of 1] by simp
  define w where "w = word n"
  define z where "z = push_bit 1 w XOR signed_drop_bit 63 w"
  have "word (encodeZigZag64 B n) = z" by (simp add: encodeZigZag64_def bit_xor shiftLeft shiftRight toUnsigned z_def w_def)
  then have "word (decodeZigZag64 B (encodeZigZag64 B n)) = drop_bit 1 z XOR - (z AND 1)"
    by (simp add: decodeZigZag64_def bit_xor shiftRightUnsigned bit_and negate one)
  also have "\<dots> = w"
  proof (rule bit_word_eqI)
    fix i assume "i < LENGTH(64)"
    then have i: "i < 64" by simp
    have b0: "bit z 0 = bit w 63" unfolding z_def bit_xor_iff bit_push_bit_iff bit_signed_drop_bit_iff by simp
    have neg: "- (z AND 1) = (if bit z 0 then - 1 else 0)" by (simp add: and_one_eq mod2_eq_if bit_0)
    have zi: "bit z (Suc i) = (i < 63 \<and> bit w i \<noteq> bit w 63)"
    proof (cases "i = 63")
      case True
      then show ?thesis using bit_imp_le_length [of z "Suc i"] by auto
    next
      case False
      then show ?thesis unfolding z_def bit_xor_iff bit_push_bit_iff bit_signed_drop_bit_iff using i by auto
    qed
    have "bit (drop_bit 1 z XOR - (z AND 1)) i = (bit z (Suc i) \<noteq> bit w 63)"
      unfolding neg b0 bit_xor_iff bit_drop_bit_eq using i by simp
    then show "bit (drop_bit 1 z XOR - (z AND 1)) i = bit w i" using zi i by (cases "i = 63") auto
  qed
  finally show ?thesis by (simp add: w_def)
qed

lemma decode_word: "word a = word b \<Longrightarrow> word (decodeZigZag64 B a) = word (decodeZigZag64 B b)"
  by (simp add: decodeZigZag64_def bit_xor shiftRightUnsigned bit_and negate)

lemma decode_signed: "\<not> uns a \<Longrightarrow> \<not> uns (decodeZigZag64 B a)"
  by (simp add: decodeZigZag64_def signed_results)

text \<open>The vint of any \<open>Long\<close> is read back as a signed one with the same bits.\<close>

lemma vint_roundtrip:
  assumes "9 \<le> length buf" and "writeVInt B v buf = (s, out)"
  shows "1 \<le> s \<and> s \<le> 9 \<and> length out = length buf \<and> bytes_ok (take s out)
    \<and> (\<exists>r. readVInt B (pre @ take s out @ post) (length pre) = (r, length pre + s) \<and> word r = word v \<and> \<not> uns r)"
proof -
  have w: "writeUnsignedVInt B (encodeZigZag64 B v) buf = (s, out)" using assms(2) by (simp add: writeVInt_def)
  obtain r where r: "readUnsignedVInt B (pre @ take s out @ post) (length pre) = (r, length pre + s)" "word r = word (encodeZigZag64 B v)"
    "\<not> uns r" "1 \<le> s" "s \<le> 9" "length out = length buf" "bytes_ok (take s out)"
    using vint_read [OF assms(1), of "encodeZigZag64 B v"] w by auto
  then show ?thesis using decode_word [OF r(2)] decode_signed [OF r(3)] zigzag_inverse by (simp add: readVInt_def)
qed

end

end
