(* ===== verification/Duration.thy ===== *)
theory Duration
  imports Vint_Coding "HOL-Library.Signed_Division"
begin

text \<open>
  \<^verbatim>\<open>src/lib/types/duration.js\<close>: durations of months, days and nanoseconds, their binary form (three signed vints), their text and the
  parsers of the standard and the ISO 8601 formats, with the conversions between BigInt and \<open>Long\<close> of
  \<^verbatim>\<open>src/lib/new-utils.js\<close>. The object the Rust layer keeps (\<^verbatim>\<open>src/src/types/duration.rs\<close>) holds two 32-bit and one 64-bit integer.
\<close>

section \<open>BigInt and Long\<close>

text \<open>The operators \<open>%\<close> and \<open>/\<close> on BigInts truncate.\<close>

definition bigintToLong :: "'l long_bits \<Rightarrow> int \<Rightarrow> 'l" where
  "bigintToLong B from =
    (let lo = from smod 4294967296; hi = from sdiv 4294967296; hi = (if lo < 0 then hi - 1 else hi)
     in lb_fromBits B lo hi)"

definition longToBigint :: "'l long_bits \<Rightarrow> 'l \<Rightarrow> int" where
  "longToBigint B from =
    (let lo = lb_getLowBits B from; hi = lb_getHighBits B from; r = lo + 4294967296 * hi
     in if lo < 0 then r + 4294967296 else r)"

section \<open>The class\<close>

record duration =
  d_months :: int
  d_days :: int
  d_nanoseconds :: int

text \<open>The Rust constructor takes the numbers as 32-bit integers and refuses nanoseconds that are not a 64-bit one.\<close>

definition rust_duration :: "int \<Rightarrow> int \<Rightarrow> int \<Rightarrow> duration result" where
  "rust_duration months days ns =
    (if in_long ns then Inr \<lparr>d_months = to_int32 months, d_days = to_int32 days, d_nanoseconds = ns\<rparr> else Inl PlainError)"

datatype 'l nanos_arg = NanosBigInt int | NanosLong 'l | NanosNumber int | NanosOther

definition new_duration :: "'l long_bits \<Rightarrow> int \<Rightarrow> int \<Rightarrow> 'l nanos_arg \<Rightarrow> duration result" where
  "new_duration B months days nanoseconds =
    (case nanoseconds of
       NanosBigInt n \<Rightarrow> rust_duration months days n
     | NanosLong l \<Rightarrow> rust_duration months days (longToBigint B l)
     | NanosNumber n \<Rightarrow> rust_duration months days n
     | NanosOther \<Rightarrow> Inl TypeError)"

definition duration_equals :: "'l long_bits \<Rightarrow> duration \<Rightarrow> duration \<Rightarrow> bool" where
  "duration_equals B d e \<longleftrightarrow> d_months d = d_months e \<and> d_days d = d_days e
    \<and> lb_equals B (bigintToLong B (d_nanoseconds d)) (bigintToLong B (d_nanoseconds e))"

text \<open>The three buffers of the module are overwritten by every call; the new buffers are the second result.\<close>

definition duration_toBuffer :: "'l long_bits \<Rightarrow> duration \<Rightarrow> buffer \<times> buffer \<times> buffer \<Rightarrow> buffer \<times> buffer \<times> buffer \<times> buffer" where
  "duration_toBuffer B d bufs =
    (let (bm, bd, bn) = bufs;
         nanoseconds = bigintToLong B (d_nanoseconds d);
         (lengthMonths, bm) = writeVInt B (lb_fromNumber B (d_months d)) bm;
         (lengthDays, bd) = writeVInt B (lb_fromNumber B (d_days d)) bd;
         (lengthNanoseconds, bn) = writeVInt B nanoseconds bn
     in (take lengthMonths bm @ take lengthDays bd @ take lengthNanoseconds bn, bm, bd, bn))"

definition duration_fromBuffer :: "'l long_bits \<Rightarrow> buffer \<Rightarrow> duration result" where
  "duration_fromBuffer B buf =
    (let (months, offset) = readVInt B buf 0;
         (days, offset) = readVInt B buf offset;
         (nanoseconds, offset) = readVInt B buf offset
     in new_duration B (lb_toNumber B months) (lb_toNumber B days) (NanosLong nanoseconds))"

section \<open>Text\<close>

text \<open>\<open>(dividend / divisor).toFixed(0)\<close> is the nearest integer, the larger of two equally near ones.\<close>

definition append :: "int \<Rightarrow> int \<Rightarrow> string \<Rightarrow> string \<Rightarrow> int \<times> string" where
  "append dividend divisor unit value =
    (if dividend = 0 \<or> dividend < divisor then (dividend, value)
     else (dividend mod divisor, value @ show_int ((2 * dividend + divisor) div (2 * divisor)) @ unit))"

definition append64 :: "'l long_bits \<Rightarrow> 'l \<Rightarrow> 'l \<Rightarrow> string \<Rightarrow> string \<Rightarrow> 'l \<times> string" where
  "append64 B dividend divisor unit value =
    (if lb_equals B dividend (lb_fromInt B 0) \<or> lb_lessThan B dividend divisor then (dividend, value)
     else (lb_modulo B dividend divisor, value @ lb_toString B (lb_divide B dividend divisor) @ unit))"

definition nanosPerMicro :: "'l long_bits \<Rightarrow> 'l" where "nanosPerMicro B = lb_fromInt B 1000"
definition nanosPerMilli :: "'l long_bits \<Rightarrow> 'l" where "nanosPerMilli B = lb_multiply B (lb_fromInt B 1000) (nanosPerMicro B)"
definition nanosPerSecond :: "'l long_bits \<Rightarrow> 'l" where "nanosPerSecond B = lb_multiply B (lb_fromInt B 1000) (nanosPerMilli B)"
definition nanosPerMinute :: "'l long_bits \<Rightarrow> 'l" where "nanosPerMinute B = lb_multiply B (lb_fromInt B 60) (nanosPerSecond B)"
definition nanosPerHour :: "'l long_bits \<Rightarrow> 'l" where "nanosPerHour B = lb_multiply B (lb_fromInt B 60) (nanosPerMinute B)"

definition lb_isNegative :: "'l long_bits \<Rightarrow> 'l \<Rightarrow> bool" where
  "lb_isNegative B l \<longleftrightarrow> lb_getHighBits B l < 0"

definition duration_toString :: "'l long_bits \<Rightarrow> duration \<Rightarrow> string" where
  "duration_toString B d =
    (let nanoseconds = bigintToLong B (d_nanoseconds d);
         value = (if d_months d < 0 \<or> d_days d < 0 \<or> lb_isNegative B nanoseconds then ''-'' else []);
         (remainder, value) = append \<bar>d_months d\<bar> 12 ''y'' value;
         (_, value) = append remainder 1 ''mo'' value;
         (_, value) = append \<bar>d_days d\<bar> 1 ''d'' value
     in if lb_equals B nanoseconds (lb_fromInt B 0) then value
        else let nanos = (if lb_isNegative B nanoseconds then lb_negate B nanoseconds else nanoseconds);
                 (rest, value) = append64 B nanos (nanosPerHour B) ''h'' value;
                 (rest, value) = append64 B rest (nanosPerMinute B) ''m'' value;
                 (rest, value) = append64 B rest (nanosPerSecond B) ''s'' value;
                 (rest, value) = append64 B rest (nanosPerMilli B) ''ms'' value;
                 (rest, value) = append64 B rest (nanosPerMicro B) ''us'' value;
                 (_, value) = append64 B rest (lb_fromInt B 1) ''ns'' value
             in value)"

section \<open>The builder\<close>

record 'l builder =
  b_isNegative :: bool
  b_unitIndex :: nat
  b_months :: int
  b_days :: int
  b_nanoseconds :: 'l

definition new_builder :: "'l long_bits \<Rightarrow> bool \<Rightarrow> 'l builder" where
  "new_builder B isNegative =
    \<lparr>b_isNegative = isNegative, b_unitIndex = 0, b_months = 0, b_days = 0, b_nanoseconds = lb_fromInt B 0\<rparr>"

text \<open>A unit that is repeated and a unit out of order both raise.\<close>

definition validateOrder :: "nat \<Rightarrow> 'l builder \<Rightarrow> 'l builder result" where
  "validateOrder unitIndex b =
    (if unitIndex = b_unitIndex b then Inl TypeError
     else if unitIndex \<le> b_unitIndex b then Inl TypeError
     else Inr (b\<lparr>b_unitIndex := unitIndex\<rparr>))"

text \<open>\<open>units > (maxInt32 - sofar) / perUnit\<close> on numbers.\<close>

definition validate32 :: "int \<Rightarrow> int \<Rightarrow> int \<Rightarrow> unit result" where
  "validate32 units sofar perUnit = (if units * perUnit > 2147483647 - sofar then Inl TypeError else Inr ())"

definition validateNanos :: "'l long_bits \<Rightarrow> 'l \<Rightarrow> 'l \<Rightarrow> 'l \<Rightarrow> unit result" where
  "validateNanos B units sofar nanosPerUnit =
    (let longMax = lb_fromBits B (- 1) 2147483647
     in if lb_lessThan B (lb_divide B (lb_subtract B longMax sofar) nanosPerUnit) units then Inl TypeError else Inr ())"

definition add_months :: "nat \<Rightarrow> int \<Rightarrow> string \<Rightarrow> 'l builder \<Rightarrow> 'l builder result" where
  "add_months unitIndex perUnit text b =
    (let v = int (digits_value 10 text)
     in bind_result (validateOrder unitIndex b) (\<lambda>b.
        bind_result (validate32 v (b_months b) perUnit) (\<lambda>_. Inr (b\<lparr>b_months := b_months b + v * perUnit\<rparr>))))"

definition add_days :: "nat \<Rightarrow> int \<Rightarrow> string \<Rightarrow> 'l builder \<Rightarrow> 'l builder result" where
  "add_days unitIndex perUnit text b =
    (let v = int (digits_value 10 text)
     in bind_result (validateOrder unitIndex b) (\<lambda>b.
        bind_result (validate32 v (b_days b) perUnit) (\<lambda>_. Inr (b\<lparr>b_days := b_days b + v * perUnit\<rparr>))))"

definition add_nanos :: "'l long_bits \<Rightarrow> nat \<Rightarrow> 'l \<Rightarrow> string \<Rightarrow> 'l builder \<Rightarrow> 'l builder result" where
  "add_nanos B unitIndex nanosPerUnit text b =
    (let v = lb_fromString B text
     in bind_result (validateOrder unitIndex b) (\<lambda>b.
        bind_result (validateNanos B v (b_nanoseconds b) nanosPerUnit) (\<lambda>_.
          Inr (b\<lparr>b_nanoseconds := lb_add B (b_nanoseconds b) (lb_multiply B v nanosPerUnit)\<rparr>))))"

definition addYears :: "string \<Rightarrow> 'l builder \<Rightarrow> 'l builder result" where "addYears = add_months 1 12"
definition addMonths :: "string \<Rightarrow> 'l builder \<Rightarrow> 'l builder result" where "addMonths = add_months 2 1"
definition addWeeks :: "string \<Rightarrow> 'l builder \<Rightarrow> 'l builder result" where "addWeeks = add_days 3 7"
definition addDays :: "string \<Rightarrow> 'l builder \<Rightarrow> 'l builder result" where "addDays = add_days 4 1"
definition addHours :: "'l long_bits \<Rightarrow> string \<Rightarrow> 'l builder \<Rightarrow> 'l builder result" where "addHours B = add_nanos B 5 (nanosPerHour B)"
definition addMinutes :: "'l long_bits \<Rightarrow> string \<Rightarrow> 'l builder \<Rightarrow> 'l builder result" where "addMinutes B = add_nanos B 6 (nanosPerMinute B)"
definition addSeconds :: "'l long_bits \<Rightarrow> string \<Rightarrow> 'l builder \<Rightarrow> 'l builder result" where "addSeconds B = add_nanos B 7 (nanosPerSecond B)"
definition addMillis :: "'l long_bits \<Rightarrow> string \<Rightarrow> 'l builder \<Rightarrow> 'l builder result" where "addMillis B = add_nanos B 8 (nanosPerMilli B)"
definition addMicros :: "'l long_bits \<Rightarrow> string \<Rightarrow> 'l builder \<Rightarrow> 'l builder result" where "addMicros B = add_nanos B 9 (nanosPerMicro B)"

text \<open>\<open>addNanos\<close> adds the value itself.\<close>

definition addNanos :: "'l long_bits \<Rightarrow> string \<Rightarrow> 'l builder \<Rightarrow> 'l builder result" where
  "addNanos B text b =
    (let v = lb_fromString B text
     in bind_result (validateOrder 10 b) (\<lambda>b.
        bind_result (validateNanos B v (b_nanoseconds b) (lb_fromInt B 1)) (\<lambda>_.
          Inr (b\<lparr>b_nanoseconds := lb_add B (b_nanoseconds b) v\<rparr>))))"

definition micro_sign :: char where "micro_sign = char_of (181 :: nat)"

definition builder_add :: "'l long_bits \<Rightarrow> string \<Rightarrow> string \<Rightarrow> 'l builder \<Rightarrow> 'l builder result" where
  "builder_add B text symbol b =
    (let sy = map js_lower symbol
     in if sy = ''y'' then addYears text b else if sy = ''mo'' then addMonths text b
        else if sy = ''w'' then addWeeks text b else if sy = ''d'' then addDays text b
        else if sy = ''h'' then addHours B text b else if sy = ''m'' then addMinutes B text b
        else if sy = ''s'' then addSeconds B text b else if sy = ''ms'' then addMillis B text b
        else if sy = micro_sign # ''s'' \<or> sy = ''us'' then addMicros B text b
        else if sy = ''ns'' then addNanos B text b else Inl TypeError)"

definition build :: "'l long_bits \<Rightarrow> 'l builder \<Rightarrow> duration result" where
  "build B b =
    (if b_isNegative b then new_duration B (- b_months b) (- b_days b) (NanosLong (lb_negate B (b_nanoseconds b)))
     else new_duration B (b_months b) (b_days b) (NanosLong (b_nanoseconds b)))"

section \<open>The parsers\<close>

text \<open>The alternatives of the units in the order of the regular expression, matched regardless of case.\<close>

definition unit_alternatives :: "string list" where
  "unit_alternatives = [''y'', ''mo'', ''w'', ''d'', ''h'', ''s'', ''ms'', ''us'', micro_sign # ''s'', ''ns'', ''m'']"

definition match_unit :: "string \<Rightarrow> string option" where
  "match_unit s =
    map_option (\<lambda>u. take (length u) s) (find (\<lambda>u. map js_lower (take (length u) s) = u) unit_alternatives)"

text \<open>
  One \<open>exec\<close> of the expression \<open>(digits)(unit)\<close> with the global flag: the first position with a match; the remaining text is what follows
  the match. Within a run of digits that no unit follows no later position matches either.
\<close>

fun exec_standard :: "string \<Rightarrow> (string \<times> string \<times> string) option" where
  "exec_standard [] = None"
| "exec_standard (c # cs) =
    (let ds = takeWhile (is_digit 10) (c # cs); rest = dropWhile (is_digit 10) (c # cs)
     in if ds \<noteq> []
        then (case match_unit rest of
                Some u \<Rightarrow> Some (ds, u, drop (length u) rest)
              | None \<Rightarrow> exec_standard cs)
        else exec_standard cs)"

lemma exec_standard_shorter: "exec_standard s = Some (ds, u, rest) \<Longrightarrow> length rest < length s"
proof (induction s)
  case (Cons c cs)
  show ?case
  proof (cases "is_digit 10 c \<and> match_unit (dropWhile (is_digit 10) cs) \<noteq> None")
    case True
    then have "rest = drop (length u) (dropWhile (is_digit 10) cs)" using Cons.prems by (auto simp: Let_def split: option.splits)
    moreover have "length (dropWhile (is_digit 10) cs) \<le> length cs" by (rule length_dropWhile_le)
    ultimately show ?thesis by simp
  next
    case False
    then have "exec_standard cs = Some (ds, u, rest)" using Cons.prems by (auto simp: Let_def split: if_splits option.splits)
    then show ?thesis using Cons.IH by fastforce
  qed
qed simp

function parse_loop :: "'l long_bits \<Rightarrow> string \<Rightarrow> 'l builder \<Rightarrow> 'l builder result" where
  "parse_loop B s b =
    (case exec_standard s of
       None \<Rightarrow> Inr b
     | Some (ds, u, rest) \<Rightarrow> bind_result (builder_add B ds u b) (\<lambda>b'. parse_loop B rest b'))"
  by pat_completeness auto
termination
  by (relation "measure (\<lambda>(B, s, b). length s)") (auto simp: exec_standard_shorter)

definition parseStandardFormat :: "'l long_bits \<Rightarrow> bool \<Rightarrow> string \<Rightarrow> duration result" where
  "parseStandardFormat B isNegative source = bind_result (parse_loop B source (new_builder B isNegative)) (build B)"

text \<open>An optional group \<open>((digits)C)?\<close> of the ISO 8601 expression, and the builder call when it took part.\<close>

definition iso_part :: "char \<Rightarrow> string \<Rightarrow> string option \<times> string" where
  "iso_part c s =
    (let ds = takeWhile (is_digit 10) s; rest = dropWhile (is_digit 10) s
     in if ds \<noteq> [] \<and> rest \<noteq> [] \<and> hd rest = c then (Some ds, tl rest) else (None, s))"

definition opt_add :: "(string \<Rightarrow> 'l builder \<Rightarrow> 'l builder result) \<Rightarrow> string option \<Rightarrow> 'l builder \<Rightarrow> 'l builder result" where
  "opt_add f part b = (case part of None \<Rightarrow> Inr b | Some ds \<Rightarrow> f ds b)"

definition parseIso8601Format :: "'l long_bits \<Rightarrow> bool \<Rightarrow> string \<Rightarrow> duration result" where
  "parseIso8601Format B isNegative source =
    (let (y, s) = iso_part CHR ''Y'' (tl source);
         (mo, s) = iso_part CHR ''M'' s;
         (d, s) = iso_part CHR ''D'' s;
         has_time = (s \<noteq> [] \<and> hd s = CHR ''T'');
         (h, t) = (if has_time then iso_part CHR ''H'' (tl s) else (None, s));
         (mi, t) = (if has_time then iso_part CHR ''M'' t else (None, t));
         (sec, t) = (if has_time then iso_part CHR ''S'' t else (None, t))
     in if t \<noteq> [] then Inl TypeError
        else bind_result (opt_add addYears y (new_builder B isNegative)) (\<lambda>b.
             bind_result (opt_add addMonths mo b) (\<lambda>b.
             bind_result (opt_add addDays d b) (\<lambda>b.
             bind_result (opt_add (addHours B) h b) (\<lambda>b.
             bind_result (opt_add (addMinutes B) mi b) (\<lambda>b.
             bind_result (opt_add (addSeconds B) sec b) (build B)))))))"

definition parseIso8601WeekFormat :: "'l long_bits \<Rightarrow> bool \<Rightarrow> string \<Rightarrow> duration result" where
  "parseIso8601WeekFormat B isNegative source =
    (case iso_part CHR ''W'' (tl source) of
       (Some ds, []) \<Rightarrow> bind_result (addWeeks ds (new_builder B isNegative)) (build B)
     | _ \<Rightarrow> Inl TypeError)"

text \<open>\<open>P(dddd)-(dd)-(dd)T(dd):(dd):(dd)\<close>, on the whole text.\<close>

fun fixed_fields :: "(nat \<times> string) list \<Rightarrow> string \<Rightarrow> string list option" where
  "fixed_fields [] s = (if s = [] then Some [] else None)"
| "fixed_fields ((n, sep) # fs) s =
    (let ds = take n s; rest = drop n s
     in if length ds = n \<and> list_all (is_digit 10) ds \<and> take (length sep) rest = sep
        then map_option (\<lambda>r. ds # r) (fixed_fields fs (drop (length sep) rest)) else None)"

definition parseIso8601AlternativeFormat :: "'l long_bits \<Rightarrow> bool \<Rightarrow> string \<Rightarrow> duration result" where
  "parseIso8601AlternativeFormat B isNegative source =
    (case fixed_fields [(4, ''-''), (2, ''-''), (2, ''T''), (2, '':''), (2, '':''), (2, [])] (tl source) of
       Some [y, mo, d, h, mi, sec] \<Rightarrow>
         bind_result (addYears y (new_builder B isNegative)) (\<lambda>b.
         bind_result (addMonths mo b) (\<lambda>b.
         bind_result (addDays d b) (\<lambda>b.
         bind_result (addHours B h b) (\<lambda>b.
         bind_result (addMinutes B mi b) (\<lambda>b.
         bind_result (addSeconds B sec b) (build B))))))
     | _ \<Rightarrow> Inl TypeError)"

definition duration_fromString :: "'l long_bits \<Rightarrow> string \<Rightarrow> duration result" where
  "duration_fromString B input =
    (let isNegative = (input \<noteq> [] \<and> hd input = CHR ''-''); source = (if isNegative then tl input else input)
     in if source \<noteq> [] \<and> hd source = CHR ''P''
        then if last source = CHR ''W'' then parseIso8601WeekFormat B isNegative source
             else if CHR ''-'' \<in> set (tl source) then parseIso8601AlternativeFormat B isNegative source
             else parseIso8601Format B isNegative source
        else parseStandardFormat B isNegative source)"

section \<open>Binary form\<close>

definition duration_wf :: "duration \<Rightarrow> bool" where
  "duration_wf d \<longleftrightarrow> int32_value (d_months d) \<and> int32_value (d_days d) \<and> in_long (d_nanoseconds d)"

lemma rust_duration_wf: "rust_duration m d ns = Inr x \<Longrightarrow> duration_wf x"
  using to_int32_range by (auto simp: rust_duration_def duration_wf_def split: if_splits)

lemma sint_uint64: "sint (w :: 64 word) = (if uint w < 2 ^ 63 then uint w else uint w - 2 ^ 64)"
proof -
  have "sint w = (uint w + 2 ^ 63) mod 2 ^ 64 - 2 ^ 63" by (simp add: sint_uint signed_take_bit_eq_take_bit_shift take_bit_eq_mod)
  then show ?thesis using uint_lt2p [of w] by (auto simp: mod_pos_geq)
qed

context long_bits_laws
begin

lemma bigintToLong_word: "word (bigintToLong B n) = word_of_int n"
proof -
  let ?lo = "n smod 4294967296" and ?hi = "n sdiv 4294967296"
  have split: "?hi * 4294967296 + ?lo = n" by (rule sdiv_mult_smod_eq)
  have range: "- 4294967296 < ?lo" "?lo < 4294967296" using smod_int_range [of 4294967296 n] by auto
  have "to_uint32 ?lo = (if ?lo < 0 then ?lo + 4294967296 else ?lo)"
    using range mod_add_self2 [of ?lo 4294967296] mod_pos_pos_trivial [of "?lo + 4294967296" 4294967296] by (simp add: to_uint32_mod)
  then have "(if ?lo < 0 then ?hi - 1 else ?hi) * 2 ^ 32 + to_uint32 ?lo = n" using split by (auto simp: algebra_simps)
  then show ?thesis by (simp add: bigintToLong_def fromBits Let_def)
qed

lemma longToBigint_sint: "longToBigint B l = sint (word l)"
proof -
  let ?u = "uint (word l)"
  have u: "0 \<le> ?u" "?u < 2 ^ 64" by (fact uint_bounds)+
  have hi: "0 \<le> ?u div 2 ^ 32" "?u div 2 ^ 32 < 2 ^ 32" using u by (simp_all add: pos_imp_zdiv_nonneg_iff)
  have lo: "(if to_int32 ?u < 0 then to_int32 ?u + 4294967296 else to_int32 ?u) = ?u mod 2 ^ 32"
    using to_uint32_to_int32 [of ?u] to_uint32_neg [of "to_int32 ?u"] to_uint32_id [of "to_int32 ?u"] to_int32_range [of ?u]
    by (auto simp: to_uint32_mod)
  have "to_int32 (?u div 2 ^ 32) = (if ?u div 2 ^ 32 < 2 ^ 31 then ?u div 2 ^ 32 else ?u div 2 ^ 32 - 2 ^ 32)"
    using hi by (auto simp: to_int32_mod mod_pos_geq)
  moreover have "?u div 2 ^ 32 < 2 ^ 31 \<longleftrightarrow> ?u < 2 ^ 63" by auto
  ultimately have h: "to_int32 (?u div 2 ^ 32) = (if ?u < 2 ^ 63 then ?u div 2 ^ 32 else ?u div 2 ^ 32 - 2 ^ 32)" by simp
  have "longToBigint B l = ?u mod 2 ^ 32 + 2 ^ 32 * to_int32 (?u div 2 ^ 32)"
    using lo by (auto simp: longToBigint_def getLowBits getHighBits Let_def)
  also have "\<dots> = (if ?u < 2 ^ 63 then ?u else ?u - 2 ^ 64)"
  proof (cases "?u < 2 ^ 63")
    case True
    show ?thesis unfolding h if_P [OF True] by (rule mod_mult_div_eq)
  next
    case False
    show ?thesis unfolding h if_not_P [OF False] right_diff_distrib add_diff_eq mod_mult_div_eq by simp
  qed
  finally show ?thesis by (simp only: sint_uint64)
qed

lemma duration_roundtrip:
  assumes "duration_wf d" and "9 \<le> length bm" and "9 \<le> length bd" and "9 \<le> length bn"
  shows "duration_fromBuffer B (fst (duration_toBuffer B d (bm, bd, bn))) = Inr d"
proof -
  let ?ns = "bigintToLong B (d_nanoseconds d)"
  obtain s1 o1 s2 o2 s3 o3 where w: "writeVInt B (lb_fromNumber B (d_months d)) bm = (s1, o1)"
    "writeVInt B (lb_fromNumber B (d_days d)) bd = (s2, o2)" "writeVInt B ?ns bn = (s3, o3)" by fastforce
  let ?buf = "take s1 o1 @ take s2 o2 @ take s3 o3"
  note r1 = vint_roundtrip [OF assms(2) w(1), of "[]" "take s2 o2 @ take s3 o3"]
  note r2 = vint_roundtrip [OF assms(3) w(2), of "take s1 o1" "take s3 o3"]
  note r3 = vint_roundtrip [OF assms(4) w(3), of "take s1 o1 @ take s2 o2" "[]"]
  have len: "length (take s1 o1) = s1" "length (take s2 o2) = s2" using r1 r2 assms(2,3) by auto
  obtain m n ns where read: "readVInt B ?buf 0 = (m, s1)" "readVInt B ?buf s1 = (n, s1 + s2)" "readVInt B ?buf (s1 + s2) = (ns, s1 + s2 + s3)"
    "word m = word (lb_fromNumber B (d_months d))" "word n = word (lb_fromNumber B (d_days d))" "word ns = word ?ns" "\<not> uns m" "\<not> uns n"
    using r1 r2 r3 len by auto
  have range: "in_long (d_months d)" "in_long (d_days d)" "in_long (d_nanoseconds d)" using assms(1) by (auto simp: duration_wf_def in_long_def)
  have "lb_toNumber B m = d_months d" "lb_toNumber B n = d_days d"
    using toNumber [of m] toNumber [of n] read(4,5,7,8) range assms(1) by (auto simp: fromNumber sint_word_of_int duration_wf_def)
  moreover have "longToBigint B ns = d_nanoseconds d"
    using read(6) range by (simp add: longToBigint_sint bigintToLong_word sint_word_of_int)
  ultimately have "duration_fromBuffer B ?buf = Inr d" using read(1-3) range assms(1)
    by (simp add: duration_fromBuffer_def new_duration_def rust_duration_def duration_wf_def)
  then show ?thesis using w by (simp add: duration_toBuffer_def)
qed

end

section \<open>Properties\<close>

text \<open>
  C29: reading the binary form of a duration the constructor made gives the duration back, whatever the three reused buffers of
  nine bytes held before. The operations of \<open>Long\<close> are those of the package, with signed and unsigned ones, as its laws say.
\<close>

theorem duration_buffer_roundtrip:
  assumes "long_bits_laws B word uns" and "new_duration B months days ns = Inr d"
    and "9 \<le> length bm" and "9 \<le> length bd" and "9 \<le> length bn"
  shows "duration_fromBuffer B (fst (duration_toBuffer B d (bm, bd, bn))) = Inr d"
proof -
  have "duration_wf d" using assms(2) rust_duration_wf by (auto simp: new_duration_def split: nanos_arg.splits)
  then show ?thesis by (rule long_bits_laws.duration_roundtrip [OF assms(1) _ assms(3-5)])
qed

theorem duration_buffer_roundtrip_witness:
  "duration_fromBuffer flag64_bits (fst (duration_toBuffer flag64_bits \<lparr>d_months = - 3, d_days = 400, d_nanoseconds = 123456789012\<rparr>
      (replicate 9 0, replicate 9 7, replicate 9 255)))
    = Inr \<lparr>d_months = - 3, d_days = 400, d_nanoseconds = 123456789012\<rparr>"
  by (rule duration_buffer_roundtrip [OF flag64.long_bits_laws_axioms, of "- 3" 400 "NanosBigInt 123456789012"])
    (simp_all add: new_duration_def rust_duration_def in_long_def)

text \<open>
  \<open>toString\<close> rounds the number of years instead of cutting it off, so 23 months are printed as 2 years and 11 months, and the
  text is read back as 35 months.
\<close>

theorem duration_years_rounded:
  "duration_toString word64_bits \<lparr>d_months = 23, d_days = 0, d_nanoseconds = 0\<rparr> = ''2y11mo''
    \<and> duration_fromString word64_bits ''2y11mo'' = Inr \<lparr>d_months = 35, d_days = 0, d_nanoseconds = 0\<rparr>"
proof
  show "duration_toString word64_bits \<lparr>d_months = 23, d_days = 0, d_nanoseconds = 0\<rparr> = ''2y11mo''" by code_simp
  show "duration_fromString word64_bits ''2y11mo'' = Inr \<lparr>d_months = 35, d_days = 0, d_nanoseconds = 0\<rparr>" by code_simp
qed

end
