(* ===== verification/Node_Buffer.thy ===== *)
theory Node_Buffer
  imports Js_Prelude
begin

text \<open>
  The big-endian integer reads and writes of Node.js buffers that the codecs use. A read past the end of the buffer and a
  write of a value outside the range of the width raise a \<open>RangeError\<close>.
\<close>

fun be_bytes :: "nat \<Rightarrow> int \<Rightarrow> buffer" where
  "be_bytes 0 v = []"
| "be_bytes (Suc n) v = be_bytes n (v div 256) @ [v mod 256]"

definition readUIntBE :: "nat \<Rightarrow> buffer \<Rightarrow> nat \<Rightarrow> int result" where
  "readUIntBE n buf off = (if off + n \<le> length buf then Inr (be_uint (take n (drop off buf))) else Inl RangeError)"

definition readIntBE :: "nat \<Rightarrow> buffer \<Rightarrow> nat \<Rightarrow> int result" where
  "readIntBE n buf off =
    (if off + n \<le> length buf then Inr (signed_take_bit (8 * n - 1) (be_uint (take n (drop off buf)))) else Inl RangeError)"

definition writeUIntBE :: "nat \<Rightarrow> int \<Rightarrow> buffer result" where
  "writeUIntBE n v = (if 0 \<le> v \<and> v < 256 ^ n then Inr (be_bytes n v) else Inl RangeError)"

definition writeIntBE :: "nat \<Rightarrow> int \<Rightarrow> buffer result" where
  "writeIntBE n v = (if - (2 ^ (8 * n - 1)) \<le> v \<and> v < 2 ^ (8 * n - 1) then Inr (be_bytes n v) else Inl RangeError)"

lemma length_be_bytes [simp]: "length (be_bytes n v) = n"
  by (induction n arbitrary: v) simp_all

lemma be_bytes_ok [simp]: "bytes_ok (be_bytes n v)"
  by (induction n arbitrary: v) simp_all

lemma be_uint_be_bytes: "be_uint (be_bytes n v) = v mod 256 ^ n"
proof (induction n arbitrary: v)
  case (Suc n)
  have "v mod (256 * 256 ^ n) = 256 * (v div 256 mod 256 ^ n) + v mod 256"
    by (rule zmod_zmult2_eq) simp
  then show ?case using Suc [of "v div 256"] by (simp add: be_uint_append be_uint_Cons mult.commute)
qed simp

lemma be_bytes_be_uint: "bytes_ok bs \<Longrightarrow> be_bytes (length bs) (be_uint bs) = bs"
proof (induction bs rule: rev_induct)
  case (snoc b bs)
  then have b: "0 \<le> b" "b < 256" by simp_all
  then have "(be_uint bs * 256 + b) div 256 = be_uint bs" "(be_uint bs * 256 + b) mod 256 = b"
    by (simp_all add: base_split)
  then show ?case using snoc by (simp add: be_uint_append be_uint_Cons)
qed simp

lemma be_bytes_mod: "be_bytes n (v mod 256 ^ n) = be_bytes n v"
  using be_bytes_be_uint [of "be_bytes n v"] by (simp add: be_uint_be_bytes)

lemma pow256: "(256 :: int) ^ n = 2 ^ (8 * n)"
  by (simp add: power_mult)

lemma readUIntBE_write: "writeUIntBE n v = Inr bs \<Longrightarrow> readUIntBE n (xs @ bs @ ys) (length xs) = Inr v"
  by (auto simp: writeUIntBE_def readUIntBE_def be_uint_be_bytes split: if_splits)

lemma readIntBE_write:
  assumes "0 < n" and "writeIntBE n v = Inr bs"
  shows "readIntBE n (xs @ bs @ ys) (length xs) = Inr v"
proof -
  have v: "- (2 ^ (8 * n - 1)) \<le> v" "v < 2 ^ (8 * n - 1)" and bs: "bs = be_bytes n v"
    using assms(2) by (auto simp: writeIntBE_def split: if_splits)
  have "signed_take_bit (8 * n - 1) (v mod 256 ^ n) = signed_take_bit (8 * n - 1) v"
    unfolding pow256 take_bit_eq_mod [symmetric] using assms(1) by (intro bit_eqI) (auto simp: bit_simps min_def)
  then show ?thesis using v bs by (simp add: readIntBE_def be_uint_be_bytes signed_take_bit_int_eq_self)
qed

lemma readIntBE_range: "readIntBE n buf off = Inr v \<Longrightarrow> - (2 ^ (8 * n - 1)) \<le> v \<and> v < 2 ^ (8 * n - 1)"
  by (auto simp: readIntBE_def split: if_splits)

lemma readUIntBE_range:
  assumes "bytes_ok buf" and "readUIntBE n buf off = Inr v"
  shows "0 \<le> v \<and> v < 256 ^ n"
proof -
  have "length (take n (drop off buf)) = n" and v: "v = be_uint (take n (drop off buf))"
    using assms(2) by (auto simp: readUIntBE_def split: if_splits)
  then show ?thesis using be_uint_range [of "take n (drop off buf)"] assms(1) by (simp only: bytes_ok_take_drop)
qed

lemma writeUIntBE_length [simp]: "writeUIntBE n v = Inr bs \<Longrightarrow> length bs = n"
  by (auto simp: writeUIntBE_def split: if_splits)

lemma writeIntBE_length [simp]: "writeIntBE n v = Inr bs \<Longrightarrow> length bs = n"
  by (auto simp: writeIntBE_def split: if_splits)

lemma write_ok: "writeUIntBE n v = Inr bs \<Longrightarrow> bytes_ok bs" "writeIntBE n v = Inr bs \<Longrightarrow> bytes_ok bs"
  by (auto simp: writeUIntBE_def writeIntBE_def split: if_splits)

section \<open>Rust's integer parsing\<close>

text \<open>\<open>str::parse\<close> to a signed integer between \<open>lo\<close> and \<open>hi\<close>: an optional sign, then at least one digit.\<close>

definition rust_parse :: "int \<Rightarrow> int \<Rightarrow> string \<Rightarrow> int option" where
  "rust_parse lo hi s =
    (let ds = (if s \<noteq> [] \<and> hd s \<in> {CHR ''-'', CHR ''+''} then tl s else s);
         v = (if s \<noteq> [] \<and> hd s = CHR ''-'' then - int (digits_value 10 ds) else int (digits_value 10 ds))
     in if ds \<noteq> [] \<and> list_all (is_digit 10) ds \<and> lo \<le> v \<and> v \<le> hi then Some v else None)"

lemma rust_parse_digits:
  assumes "ds \<noteq> []" and "\<forall>c \<in> set ds. is_digit 10 c"
  shows "rust_parse lo hi ds =
    (if lo \<le> int (digits_value 10 ds) \<and> int (digits_value 10 ds) \<le> hi then Some (int (digits_value 10 ds)) else None)"
proof -
  have "hd ds \<noteq> CHR ''-''" "hd ds \<noteq> CHR ''+''"
    using assms digit_not_special(2,3) [of 10 "hd ds"] by simp_all
  then show ?thesis using assms by (simp add: rust_parse_def Let_def list_all_iff)
qed

lemma rust_parse_show: "lo \<le> v \<Longrightarrow> v \<le> hi \<Longrightarrow> rust_parse lo hi (show_int v) = Some v"
proof (cases "v < 0")
  case True
  assume "lo \<le> v" "v \<le> hi"
  then show ?thesis using True show_nat_digits [of "nat (- v)"]
    by (simp add: rust_parse_def show_int_def digits_value_show list_all_iff)
next
  case False
  assume "lo \<le> v" "v \<le> hi"
  then show ?thesis using False rust_parse_digits [OF show_nat_not_Nil show_nat_digits, of lo hi "nat v"]
    by (simp add: show_int_def digits_value_show)
qed

end
