(* ===== verification/Local_Time.thy ===== *)
theory Local_Time
  imports Duration Node_Buffer
begin

text \<open>
  \<^verbatim>\<open>src/lib/types/local-time.js\<close> with the object the Rust layer keeps for it, \<^verbatim>\<open>src/src/types/local_time.rs\<close>: a time of day as
  nanoseconds since midnight, its parts, its binary form and its text. The operations of the \<open>Long\<close> package are the parameter \<open>B\<close>.
\<close>

section \<open>The Rust object\<close>

record local_time =
  lt_value :: int
  lt_hour :: int
  lt_minute :: int
  lt_second :: int
  lt_nanosecond :: int

definition convert_to_object :: "int \<Rightarrow> local_time" where
  "convert_to_object ns_value =
    (let second = ns_value sdiv 1000000000;
         nanosecond = ns_value - second * 1000000000;
         minute = second sdiv 60;
         hour = minute sdiv 60;
         second = second smod 60;
         minute = minute smod 60
     in \<lparr>lt_value = ns_value, lt_hour = hour, lt_minute = minute, lt_second = second, lt_nanosecond = nanosecond\<rparr>)"

definition rust_time_new :: "int \<Rightarrow> local_time result" where
  "rust_time_new n = (if in_long n then Inr (convert_to_object n) else Inl PlainError)"

definition parse_i64 :: "string \<Rightarrow> int option" where
  "parse_i64 = rust_parse (- (2 ^ 63)) (2 ^ 63 - 1)"

text \<open>
  The text is split at the colons and, in the third part, at the dot. The caller has checked the format, so there are three parts,
  at most nine decimals and no product leaves the 64-bit range.
\<close>

definition rust_seconds :: "string \<Rightarrow> (int \<times> int) option" where
  "rust_seconds p =
    (let sec_parts = split_on CHR ''.'' p in
     case parse_i64 (hd sec_parts) of
       None \<Rightarrow> None
     | Some s \<Rightarrow>
         if length sec_parts = 2 then
           map_option (\<lambda>f. (s, f * 10 ^ (9 - length (sec_parts ! 1)))) (parse_i64 (sec_parts ! 1))
         else Some (s, 0))"

definition rust_time_from_string :: "string \<Rightarrow> int result" where
  "rust_time_from_string s =
    (let parts = split_on CHR '':'' s in
     if length parts < 2 then Inl PlainError
     else case (parse_i64 (parts ! 0), parse_i64 (parts ! 1)) of
       (Some h, Some m) \<Rightarrow>
         (case (if length parts = 3 then rust_seconds (parts ! 2) else Some (0, 0)) of
            None \<Rightarrow> Inl PlainError
          | Some (sec, nanos) \<Rightarrow> Inr ((h * 3600000 + m * 60000 + sec * 1000) * 1000000 + nanos))
     | _ \<Rightarrow> Inl PlainError)"

definition pad2 :: "int \<Rightarrow> string" where
  "pad2 n = (if n < 10 then CHR ''0'' # show_int n else show_int n)"

function strip_zeros :: "int \<Rightarrow> int" where
  "strip_zeros nanos = (if nanos mod 10 = 0 \<and> nanos \<noteq> 0 then strip_zeros (nanos div 10) else nanos)"
  by pat_completeness auto
termination
  by (relation "measure (\<lambda>n. nat \<bar>n\<bar>)") (auto simp: nat_less_iff abs_if mod_eq_0_iff_dvd)

declare strip_zeros.simps [simp del]

definition rust_time_to_string :: "local_time \<Rightarrow> string" where
  "rust_time_to_string t =
    pad2 (lt_hour t) @ '':'' @ pad2 (lt_minute t) @ '':'' @ pad2 (lt_second t)
    @ (if lt_nanosecond t > 0
       then ''.'' @ replicate (9 - length (show_int (lt_nanosecond t))) CHR ''0'' @ show_int (strip_zeros (lt_nanosecond t))
       else [])"

section \<open>The class\<close>

datatype 'l time_arg = TimeLong 'l | TimeOther

definition maxNanos :: "'l long_bits \<Rightarrow> 'l" where
  "maxNanos B = lb_fromString B ''86399999999999''"

definition new_local_time :: "'l long_bits \<Rightarrow> 'l time_arg \<Rightarrow> local_time result" where
  "new_local_time B totalNanoseconds =
    (case totalNanoseconds of
       TimeOther \<Rightarrow> Inl TypeError
     | TimeLong l \<Rightarrow>
         if lb_lessThan B l (lb_fromInt B 0) \<or> lb_greaterThan B l (maxNanos B) then Inl TypeError
         else rust_time_new (longToBigint B l))"

text \<open>The regular expression \<open>^(?:[01]?\d|2[0-4]):[0-5]?\d:[0-5]?\d(?:\.\d{1,9})?$\<close>.\<close>

definition time_digit :: "char \<Rightarrow> bool" where
  "time_digit c \<longleftrightarrow> 48 \<le> char_code c \<and> char_code c \<le> 57"

definition hour_text :: "string \<Rightarrow> bool" where
  "hour_text s \<longleftrightarrow>
    (case s of
       [b] \<Rightarrow> time_digit b
     | [a, b] \<Rightarrow> a \<in> set ''01'' \<and> time_digit b \<or> a = CHR ''2'' \<and> b \<in> set ''01234''
     | _ \<Rightarrow> False)"

definition sixty_text :: "string \<Rightarrow> bool" where
  "sixty_text s \<longleftrightarrow>
    (case s of [b] \<Rightarrow> time_digit b | [a, b] \<Rightarrow> a \<in> set ''012345'' \<and> time_digit b | _ \<Rightarrow> False)"

definition seconds_text :: "string \<Rightarrow> bool" where
  "seconds_text s \<longleftrightarrow>
    (case split_on CHR ''.'' s of
       [a] \<Rightarrow> sixty_text a
     | [a, f] \<Rightarrow> sixty_text a \<and> 1 \<le> length f \<and> length f \<le> 9 \<and> list_all time_digit f
     | _ \<Rightarrow> False)"

definition time_regex :: "string \<Rightarrow> bool" where
  "time_regex s \<longleftrightarrow>
    (case split_on CHR '':'' s of [h, m, x] \<Rightarrow> hour_text h \<and> sixty_text m \<and> seconds_text x | _ \<Rightarrow> False)"

definition local_time_fromString :: "'l long_bits \<Rightarrow> string \<Rightarrow> local_time result" where
  "local_time_fromString B value =
    (if \<not> time_regex value then Inl TypeError
     else bind_result (rust_time_from_string value) (\<lambda>n. new_local_time B (TimeLong (bigintToLong B n))))"

text \<open>An absent number of nanoseconds counts as 0.\<close>

definition fromMilliseconds :: "'l long_bits \<Rightarrow> int \<Rightarrow> int option \<Rightarrow> local_time result" where
  "fromMilliseconds B milliseconds nanoseconds =
    (let nanoseconds = (case nanoseconds of None \<Rightarrow> 0 | Some n \<Rightarrow> n)
     in new_local_time B (TimeLong
          (lb_add B (lb_multiply B (lb_fromNumber B milliseconds) (lb_fromNumber B 1000000)) (lb_fromNumber B nanoseconds))))"

text \<open>The date is given by its \<open>getTime()\<close> and its \<open>getTimezoneOffset()\<close>; \<open>%\<close> takes the sign of its left operand.\<close>

definition local_time_fromDate :: "'l long_bits \<Rightarrow> int \<Rightarrow> int \<Rightarrow> int option \<Rightarrow> local_time result" where
  "local_time_fromDate B time timezoneOffset nanoseconds =
    (let millis = (time + timezoneOffset * - 60000) smod 86400000 in fromMilliseconds B millis nanoseconds)"

definition local_time_fromBuffer :: "'l long_bits \<Rightarrow> buffer \<Rightarrow> local_time result" where
  "local_time_fromBuffer B value =
    bind_result (readIntBE 4 value 4) (\<lambda>low. bind_result (readIntBE 4 value 0) (\<lambda>high.
      new_local_time B (TimeLong (lb_fromBits B low high))))"

definition getTotalNanoseconds :: "'l long_bits \<Rightarrow> local_time \<Rightarrow> 'l" where
  "getTotalNanoseconds B t = bigintToLong B (lt_value t)"

definition local_time_compare :: "'l long_bits \<Rightarrow> local_time \<Rightarrow> local_time \<Rightarrow> int" where
  "local_time_compare B t u = lb_compare B (getTotalNanoseconds B t) (getTotalNanoseconds B u)"

definition local_time_equals :: "'l long_bits \<Rightarrow> local_time \<Rightarrow> local_time \<Rightarrow> bool" where
  "local_time_equals B t u \<longleftrightarrow> local_time_compare B t u = 0"

definition local_time_toBuffer :: "'l long_bits \<Rightarrow> local_time \<Rightarrow> buffer result" where
  "local_time_toBuffer B t =
    bind_result (writeUIntBE 4 (lb_getHighBitsUnsigned B (getTotalNanoseconds B t))) (\<lambda>hi.
    bind_result (writeUIntBE 4 (lb_getLowBitsUnsigned B (getTotalNanoseconds B t))) (\<lambda>lo. Inr (hi @ lo)))"

definition local_time_toString :: "local_time \<Rightarrow> string" where
  "local_time_toString t = rust_time_to_string t"

definition local_time_fromRust :: "'l long_bits \<Rightarrow> local_time \<Rightarrow> local_time result" where
  "local_time_fromRust B arg = new_local_time B (TimeLong (bigintToLong B (lt_value arg)))"

section \<open>Times of day\<close>

definition time_wf :: "local_time \<Rightarrow> bool" where
  "time_wf t \<longleftrightarrow> 0 \<le> lt_value t \<and> lt_value t \<le> 86399999999999 \<and> t = convert_to_object (lt_value t)"

lemma sdiv_nonneg: "0 \<le> (a::int) \<Longrightarrow> 0 < b \<Longrightarrow> a sdiv b = a div b"
  by (simp add: signed_divide_int_def sgn_if)

lemma smod_nonneg: "0 \<le> (a::int) \<Longrightarrow> 0 < b \<Longrightarrow> a smod b = a mod b"
  by (cases "a = 0") (simp_all add: signed_modulo_int_def sdiv_nonneg minus_div_mult_eq_mod sgn_if)

lemma convert_parts:
  assumes "0 \<le> n" and "n \<le> 86399999999999"
  shows "convert_to_object n =
    \<lparr>lt_value = n, lt_hour = n div 3600000000000, lt_minute = n div 60000000000 mod 60,
     lt_second = n div 1000000000 mod 60, lt_nanosecond = n mod 1000000000\<rparr>"
proof -
  have nn: "0 \<le> n div 1000000000" "0 \<le> n div 1000000000 div 60"
    using assms(1) by (simp_all add: pos_imp_zdiv_nonneg_iff)
  have "n div 1000000000 div 60 div 60 = n div 3600000000000" "n div 1000000000 div 60 = n div 60000000000"
    by (simp_all flip: zdiv_zmult2_eq)
  then show ?thesis using assms(1) nn
    by (simp add: convert_to_object_def Let_def sdiv_nonneg smod_nonneg minus_div_mult_eq_mod)
qed

lemma time_parts:
  fixes n :: int
  assumes "0 \<le> n" and "n \<le> 86399999999999"
  shows "n = (n div 3600000000000 * 3600000 + n div 60000000000 mod 60 * 60000 + n div 1000000000 mod 60 * 1000) * 1000000
      + n mod 1000000000"
    and "n div 3600000000000 < 24"
    and "n = ((n div 3600000000000 * 60 + n div 60000000000 mod 60) * 60 + n div 1000000000 mod 60) * 1000000000 + n mod 1000000000"
proof -
  have e: "n div 60000000000 = n div 1000000000 div 60" "n div 3600000000000 = n div 1000000000 div 60 div 60"
    by (simp_all flip: zdiv_zmult2_eq)
  have comb: "n = (h * 3600000 + mm * 60000 + ss * 1000) * 1000000 + r"
    if "s * 1000000000 + r = n" "m * 60 + ss = s" "h * 60 + mm = m" for s r m ss h mm :: int
    using that(1) unfolding that(2,3) [symmetric] by (simp add: algebra_simps)
  show "n = (n div 3600000000000 * 3600000 + n div 60000000000 mod 60 * 60000 + n div 1000000000 mod 60 * 1000) * 1000000
      + n mod 1000000000"
    unfolding e by (rule comb [OF div_mult_mod_eq div_mult_mod_eq div_mult_mod_eq])
  show "n = ((n div 3600000000000 * 60 + n div 60000000000 mod 60) * 60 + n div 1000000000 mod 60) * 1000000000 + n mod 1000000000"
    unfolding e by (simp only: div_mult_mod_eq)
  show "n div 3600000000000 < 24" using assms by (intro pos_div_less) simp_all
qed

context long_bits_laws
begin

lemma long_word_range: "sint (word (bigintToLong B n)) = n" if "in_long n"
  using that by (simp add: bigintToLong_word sint_word_of_int)

lemma maxNanos_value: "sint (word (maxNanos B)) = 86399999999999"
proof -
  have d: "\<forall>c \<in> set ''86399999999999''. is_digit 10 c" and v: "digits_value 10 ''86399999999999'' = 86399999999999"
    by (simp_all add: is_digit_def digit_val_def char_code_def digits_value_def digit_num_def)
  have "word (maxNanos B) = word_of_int 86399999999999"
    using fromString [OF _ d] v by (simp add: maxNanos_def)
  then show ?thesis by (simp add: sint_word_of_int in_long_def)
qed

lemma maxNanos_signed: "\<not> uns (maxNanos B)"
  by (simp add: maxNanos_def signed_results)

lemma bigintToLong_signed: "\<not> uns (bigintToLong B n)"
  by (simp add: bigintToLong_def Let_def signed_results)

lemma new_local_time_value:
  "\<not> uns l \<Longrightarrow> new_local_time B (TimeLong l) =
    (if 0 \<le> sint (word l) \<and> sint (word l) \<le> 86399999999999 then Inr (convert_to_object (sint (word l))) else Inl TypeError)"
proof -
  assume "\<not> uns l"
  moreover have "sint (word (lb_fromInt B 0)) = 0" by (simp add: fromInt)
  moreover have "in_long (sint (word l))" by (rule in_long_sint)
  ultimately show ?thesis
    by (simp add: new_local_time_def lessThan greaterThan maxNanos_value maxNanos_signed signed_results rust_time_new_def longToBigint_sint not_less)
qed

lemma new_local_time_bigint:
  assumes "0 \<le> n" and "n \<le> 86399999999999"
  shows "new_local_time B (TimeLong (bigintToLong B n)) = Inr (convert_to_object n)"
  using assms by (simp add: new_local_time_value bigintToLong_signed long_word_range in_long_def)

lemma new_local_time_wf: "new_local_time B (TimeLong l) = Inr t \<Longrightarrow> \<not> uns l \<Longrightarrow> time_wf t"
proof -
  assume "new_local_time B (TimeLong l) = Inr t" "\<not> uns l"
  then have r: "0 \<le> sint (word l)" "sint (word l) \<le> 86399999999999" and t: "t = convert_to_object (sint (word l))"
    by (auto simp: new_local_time_value split: if_splits)
  from r have "lt_value t = sint (word l)" using t by (simp add: convert_parts)
  then show ?thesis using r t by (simp add: time_wf_def)
qed

lemma local_time_buffer:
  assumes "time_wf t"
  shows "\<exists>bs. local_time_toBuffer B t = Inr bs \<and> length bs = 8 \<and> bytes_ok bs \<and> local_time_fromBuffer B bs = Inr t"
proof -
  let ?n = "lt_value t"
  have n: "0 \<le> ?n" "?n \<le> 86399999999999" "in_long ?n" using assms by (simp_all add: time_wf_def in_long_def)
  have u: "uint (word (getTotalNanoseconds B t)) = ?n"
    using uint_nonneg_sint [of "word (getTotalNanoseconds B t)"] n by (simp add: getTotalNanoseconds_def long_word_range)
  let ?hi = "?n div 2 ^ 32" and ?lo = "?n mod 2 ^ 32"
  have hi: "0 \<le> ?hi" "?hi < 2 ^ 31" using n by (simp_all add: pos_imp_zdiv_nonneg_iff)
  have w: "local_time_toBuffer B t = Inr (be_bytes 4 ?hi @ be_bytes 4 ?lo)"
    using hi by (simp add: local_time_toBuffer_def getHighBitsUnsigned getLowBitsUnsigned u writeUIntBE_def)
  have "readIntBE 4 (be_bytes 4 ?hi @ be_bytes 4 ?lo) 0 = Inr ?hi"
    using readIntBE_write [of 4 ?hi _ "[]"] hi by (simp add: writeIntBE_def)
  moreover have "readIntBE 4 (be_bytes 4 ?hi @ be_bytes 4 ?lo) 4 = Inr (to_int32 ?lo)"
    by (simp add: readIntBE_def be_uint_be_bytes to_int32_def)
  moreover have "word (lb_fromBits B (to_int32 ?lo) ?hi) = word_of_int ?n"
    using div_mult_mod_eq [of ?n "2 ^ 32"] by (simp add: fromBits)
  ultimately have "local_time_fromBuffer B (be_bytes 4 ?hi @ be_bytes 4 ?lo) = Inr t"
    using n assms by (simp add: local_time_fromBuffer_def new_local_time_value signed_results sint_word_of_int time_wf_def)
  then show ?thesis using w by simp
qed

end

section \<open>Text\<close>

lemma digit_char_codes: "d < 10 \<Longrightarrow> char_code (digit_char d) = 48 + d"
  by (simp add: digit_char_def char_code_def)

lemma time_digit_char: "d < 10 \<Longrightarrow> time_digit (digit_char d)"
  by (simp add: time_digit_def digit_char_codes)

lemma is_time_digit: "is_digit 10 c \<longleftrightarrow> time_digit c"
  by (auto simp: is_digit_def digit_val_def time_digit_def Let_def)

lemma digit_chars:
  "digit_char 0 = CHR ''0''" "digit_char 1 = CHR ''1''" "digit_char 2 = CHR ''2''" "digit_char 3 = CHR ''3''"
  "digit_char 4 = CHR ''4''" "digit_char 5 = CHR ''5''"
  by code_simp+

lemma digit_char_small: "d < 5 \<Longrightarrow> digit_char d \<in> set ''01234''" "d < 6 \<Longrightarrow> digit_char d \<in> set ''012345''"
  "d < 2 \<Longrightarrow> digit_char d \<in> set ''01''"
proof -
  have "d < 6 \<Longrightarrow> d = 0 \<or> d = 1 \<or> d = 2 \<or> d = 3 \<or> d = 4 \<or> d = 5" by arith
  then show "d < 5 \<Longrightarrow> digit_char d \<in> set ''01234''" "d < 6 \<Longrightarrow> digit_char d \<in> set ''012345''"
    "d < 2 \<Longrightarrow> digit_char d \<in> set ''01''" by (auto simp: digit_chars digit_chars(2) [simplified])
qed

lemma pad2_digits:
  assumes "m < 100"
  shows "pad2 (int m) = [digit_char (m div 10), digit_char (m mod 10)]"
proof (cases "m < 10")
  case True
  then show ?thesis using show_nat.simps [of m] by (simp add: pad2_def show_int_def digit_chars)
next
  case False
  have "m div 10 < 10" using assms by simp
  then show ?thesis using False show_nat.simps [of m] show_nat.simps [of "m div 10"] by (simp add: pad2_def show_int_def)
qed

lemma digits_value_two: "d < 10 \<Longrightarrow> e < 10 \<Longrightarrow> digits_value 10 [digit_char d, digit_char e] = d * 10 + e"
  by (simp add: digits_value_def digit_char_digit)

lemma separators_no_digit: "\<not> is_digit 10 (CHR '':'')" "\<not> is_digit 10 (CHR ''.'')" "\<not> is_digit 10 (CHR ''-'')"
  by code_simp+

lemma pad2_parse:
  assumes "0 \<le> n" and "n < 100"
  shows "parse_i64 (pad2 n) = Some n" and "CHR '':'' \<notin> set (pad2 n)" and "CHR ''.'' \<notin> set (pad2 n)"
proof -
  obtain m where m: "n = int m" "m < 100" using assms zero_le_imp_eq_int by auto
  have d: "m div 10 < 10" "m mod 10 < 10" using m by simp_all
  have v: "digits_value 10 (pad2 n) = m" unfolding m(1) pad2_digits [OF m(2)] digits_value_two [OF d] by simp
  have ds: "\<forall>c \<in> set (pad2 n). is_digit 10 c" using d by (simp add: m pad2_digits digit_char_digit)
  then show "CHR '':'' \<notin> set (pad2 n)" "CHR ''.'' \<notin> set (pad2 n)" using separators_no_digit by metis+
  have "pad2 n \<noteq> []" by (simp add: m pad2_digits)
  then show "parse_i64 (pad2 n) = Some n"
    using rust_parse_digits [OF _ ds, of "- (2 ^ 63)" "2 ^ 63 - 1"] v m by (simp add: parse_i64_def)
qed

lemma pad2_sixty: "0 \<le> n \<Longrightarrow> n < 60 \<Longrightarrow> sixty_text (pad2 n)"
proof -
  assume "0 \<le> n" "n < 60"
  then obtain m where m: "n = int m" "m < 60" using zero_le_imp_eq_int by auto
  then have "m div 10 < 6" by simp
  then show ?thesis using m digit_char_small(2) [of "m div 10"] by (simp add: pad2_digits sixty_text_def time_digit_char)
qed

lemma pad2_hour: "0 \<le> n \<Longrightarrow> n < 24 \<Longrightarrow> hour_text (pad2 n)"
proof -
  assume "0 \<le> n" "n < 24"
  then obtain m where m: "n = int m" "m < 24" using zero_le_imp_eq_int by auto
  show ?thesis
  proof (cases "m < 20")
    case True
    then have "m div 10 < 2" by simp
    then show ?thesis using m digit_char_small(3) [of "m div 10"] by (simp add: pad2_digits hour_text_def time_digit_char)
  next
    case False
    then obtain k where "m = 20 + k" "k < 4" using m(2) le_Suc_ex [of 20 m] by auto
    moreover from this have "m mod 10 = k" using mod_mult_self4 [of 10 2 k] by simp
    ultimately have "m div 10 = 2" "m mod 10 < 5" by simp_all
    then show ?thesis using m digit_char_small(1) [of "m mod 10"] by (simp add: pad2_digits hour_text_def digit_chars)
  qed
qed

lemma strip_zeros_digits:
  assumes "0 < n"
  shows "\<exists>j. 0 < strip_zeros (int n) \<and> int n = strip_zeros (int n) * 10 ^ j
    \<and> length (show_nat n) = length (show_nat (nat (strip_zeros (int n)))) + j"
  using assms
proof (induction n rule: less_induct)
  case (less n)
  show ?case
  proof (cases "n mod 10 = 0")
    case True
    then have n: "n = n div 10 * 10" "0 < n div 10" "n div 10 < n" "\<not> n < 10" using less.prems by (auto simp: mod_eq_0_iff_dvd)
    obtain j where j: "0 < strip_zeros (int (n div 10))" "int (n div 10) = strip_zeros (int (n div 10)) * 10 ^ j"
      "length (show_nat (n div 10)) = length (show_nat (nat (strip_zeros (int (n div 10))))) + j"
      using less.IH [OF n(3,2)] by blast
    have e: "int n div 10 = int (n div 10)" "int n mod 10 = 0" using True zdiv_int [of n 10] zmod_int [of n 10] by simp_all
    have s: "strip_zeros (int n) = strip_zeros (int (n div 10))"
      using e less.prems by (subst strip_zeros.simps) simp
    have "int n = int (n div 10) * 10" using n(1) by simp
    then have "int n = strip_zeros (int n) * 10 ^ Suc j" unfolding s using j(2) by simp
    moreover have "length (show_nat n) = length (show_nat (n div 10)) + 1" using n(4) show_nat.simps [of n] by simp
    ultimately show ?thesis using j(1,3) s by (intro exI [of _ "Suc j"]) simp
  next
    case False
    then have "int n mod 10 \<noteq> 0" using zmod_int [of n 10] by simp
    then have "strip_zeros (int n) = int n" by (subst strip_zeros.simps) simp
    then show ?thesis using less.prems by (intro exI [of _ 0]) simp
  qed
qed

lemma show_nat_length: "n < 10 ^ k \<Longrightarrow> 0 < k \<Longrightarrow> length (show_nat n) \<le> k"
proof (induction k arbitrary: n)
  case (Suc k)
  show ?case
  proof (cases "n < 10")
    case False
    then have "n div 10 < 10 ^ k" "0 < k" using Suc.prems by (auto simp: div_less_iff_less_mult mult.commute intro: ccontr)
    then show ?thesis using Suc.IH [of "n div 10"] show_nat.simps [of n] False by simp
  qed (use show_nat.simps [of n] in simp)
qed simp

text \<open>The decimals: printing them and scaling the parsed number by the missing digits gives the nanoseconds back.\<close>

lemma decimals_parse:
  assumes "0 < n" and "n < 1000000000"
  defines "f \<equiv> replicate (9 - length (show_int n)) CHR ''0'' @ show_int (strip_zeros n)"
  shows "1 \<le> length f" and "length f \<le> 9" and "\<forall>c \<in> set f. is_digit 10 c"
    and "\<exists>v. parse_i64 f = Some v \<and> v * 10 ^ (9 - length f) = n"
proof -
  let ?z = "nat (strip_zeros n)"
  obtain m where m: "n = int m" "0 < m" "m < 10 ^ 9" using assms zero_le_imp_eq_int [of n] by auto
  obtain j where j: "0 < strip_zeros n" "n = strip_zeros n * 10 ^ j" "length (show_nat m) = length (show_nat ?z) + j"
    using strip_zeros_digits [OF m(2)] m(1) by blast
  have len: "length (show_nat m) \<le> 9" by (rule show_nat_length [OF m(3)]) simp
  have f: "f = replicate (9 - length (show_nat m)) CHR ''0'' @ show_nat ?z"
    using j(1) m by (simp add: f_def show_int_def)
  have lf: "length f = 9 - j" using len j(3) by (simp add: f)
  have "0 < length (show_nat ?z)" by simp
  then show "1 \<le> length f" "length f \<le> 9" using lf len j(3) by linarith+
  have "is_digit 10 (CHR ''0'')" by code_simp
  then show ds: "\<forall>c \<in> set f. is_digit 10 c" using show_nat_digits [of ?z] by (auto simp: f)
  have v: "digits_value 10 f = ?z" by (simp add: f digits_value_zeros digits_value_show)
  have "strip_zeros n \<le> n" using mult_left_mono [of 1 "10 ^ j" "strip_zeros n"] j(1,2) by simp
  moreover have "f \<noteq> []" by (simp add: f)
  ultimately have "parse_i64 f = Some (strip_zeros n)"
    using rust_parse_digits [OF _ ds, of "- (2 ^ 63)" "2 ^ 63 - 1"] v j(1) assms(2) by (simp add: parse_i64_def)
  moreover have "9 - length f = j" using lf len j(3) by simp
  ultimately show "\<exists>v. parse_i64 f = Some v \<and> v * 10 ^ (9 - length f) = n" using j(2) by simp
qed

lemma seconds_parse:
  assumes "0 \<le> s" and "s < 60" and "0 \<le> n" and "n < 1000000000"
  defines "x \<equiv> pad2 s @ (if n > 0 then ''.'' @ replicate (9 - length (show_int n)) CHR ''0'' @ show_int (strip_zeros n) else [])"
  shows "seconds_text x" and "rust_seconds x = Some (s, n)" and "CHR '':'' \<notin> set x"
proof -
  have s: "s < 100" using assms(2) by simp
  note p = pad2_parse [OF assms(1) s]
  define f where "f = replicate (9 - length (show_int n)) CHR ''0'' @ show_int (strip_zeros n)"
  have x: "x = (if n > 0 then pad2 s @ CHR ''.'' # f else pad2 s)" by (simp add: x_def f_def)
  have *: "seconds_text x \<and> rust_seconds x = Some (s, n) \<and> CHR '':'' \<notin> set x"
  proof (cases "n > 0")
    case True
    note d = decimals_parse [OF True assms(4), folded f_def]
    have nf: "CHR ''.'' \<notin> set f" "CHR '':'' \<notin> set f" using d(3) separators_no_digit by metis+
    then have sp: "split_on CHR ''.'' x = [pad2 s, f]" using True p(3) by (simp add: x split_on_append split_on_plain)
    have "list_all time_digit f" using d(3) by (simp add: list_all_iff is_time_digit)
    moreover obtain v where v: "parse_i64 f = Some v" "v * 10 ^ (9 - length f) = n" using d(4) by blast
    ultimately show ?thesis using sp d(1,2) p True nf pad2_sixty [OF assms(1,2)]
      by (simp add: seconds_text_def rust_seconds_def x)
  next
    case False
    then have "split_on CHR ''.'' x = [pad2 s]" using p(3) by (simp add: x split_on_plain)
    then show ?thesis using False assms(3) p pad2_sixty [OF assms(1,2)]
      by (simp add: seconds_text_def rust_seconds_def x)
  qed
  from * show "seconds_text x" "rust_seconds x = Some (s, n)" "CHR '':'' \<notin> set x" by simp_all
qed

lemma time_text:
  assumes "time_wf t"
  shows "time_regex (local_time_toString t)" and "rust_time_from_string (local_time_toString t) = Inr (lt_value t)"
proof -
  define n where "n = lt_value t"
  have n: "0 \<le> n" "n \<le> 86399999999999" using assms by (simp_all add: time_wf_def n_def)
  have t: "t = convert_to_object n" using assms by (simp add: time_wf_def n_def)
  define h m s r where "h = lt_hour t" and "m = lt_minute t" and "s = lt_second t" and "r = lt_nanosecond t"
  have hv: "h = n div 3600000000000" "m = n div 60000000000 mod 60" "s = n div 1000000000 mod 60" "r = n mod 1000000000"
    by (simp_all add: h_def m_def s_def r_def t convert_parts [OF n])
  have h: "0 \<le> h" "h < 24" using time_parts(2) [OF n] n(1) hv(1) by (simp_all add: pos_imp_zdiv_nonneg_iff)
  have m: "0 \<le> m" "m < 60" and s: "0 \<le> s" "s < 60" and r: "0 \<le> r" "r < 1000000000" by (simp_all add: hv)
  define x where "x = pad2 s @ (if r > 0 then ''.'' @ replicate (9 - length (show_int r)) CHR ''0'' @ show_int (strip_zeros r) else [])"
  note x = seconds_parse [OF s r, folded x_def]
  have tx: "local_time_toString t = pad2 h @ CHR '':'' # pad2 m @ CHR '':'' # x"
    by (simp add: local_time_toString_def rust_time_to_string_def x_def h_def m_def s_def r_def)
  have h100: "h < 100" and m100: "m < 100" using h m by simp_all
  note ph = pad2_parse [OF h(1) h100] and pm = pad2_parse [OF m(1) m100]
  have sp: "split_on CHR '':'' (local_time_toString t) = [pad2 h, pad2 m, x]"
    using ph(2) pm(2) x(3) by (simp add: tx split_on_append split_on_plain)
  show "time_regex (local_time_toString t)" using x(1) pad2_hour [OF h] pad2_sixty [OF m] by (simp add: time_regex_def sp)
  have "n = (h * 3600000 + m * 60000 + s * 1000) * 1000000 + r" unfolding hv by (rule time_parts(1) [OF n])
  then show "rust_time_from_string (local_time_toString t) = Inr (lt_value t)"
    using ph(1) pm(1) x(2) by (simp add: rust_time_from_string_def sp n_def [symmetric])
qed

context long_bits_laws
begin

lemma local_time_text: "time_wf t \<Longrightarrow> local_time_fromString B (local_time_toString t) = Inr t"
  using time_text [of t] new_local_time_bigint [of "lt_value t"]
  by (simp add: local_time_fromString_def time_wf_def)

lemma fromMilliseconds_value:
  assumes "in_long (ms * 1000000)" and "in_long ms" and "in_long (ms * 1000000 + ns)" and "in_long ns"
  shows "fromMilliseconds B ms (Some ns) =
    (if 0 \<le> ms * 1000000 + ns \<and> ms * 1000000 + ns \<le> 86399999999999 then Inr (convert_to_object (ms * 1000000 + ns)) else Inl TypeError)"
proof -
  have k: "in_long 1000000" by (simp add: in_long_def)
  have "word (lb_add B (lb_multiply B (lb_fromNumber B ms) (lb_fromNumber B 1000000)) (lb_fromNumber B ns))
    = word_of_int (ms * 1000000 + ns)"
    using assms k by (simp add: add multiply fromNumber)
  then have "sint (word (lb_add B (lb_multiply B (lb_fromNumber B ms) (lb_fromNumber B 1000000)) (lb_fromNumber B ns)))
    = ms * 1000000 + ns"
    using sint_word_of_int [OF assms(3)] by (simp only:)
  then show ?thesis by (simp add: fromMilliseconds_def new_local_time_value signed_results)
qed

end

section \<open>Properties\<close>

text \<open>A time of day built by the constructor is between midnight and the last nanosecond of the day, its parts are the hour, minute,
  second and nanosecond of its value, and it survives \<open>toBuffer\<close> followed by \<open>fromBuffer\<close> and \<open>toString\<close> followed by \<open>fromString\<close>.
  The argument is a signed \<open>Long\<close>; a value outside the day raises.\<close>

theorem local_time_roundtrips:
  assumes "long_bits_laws B word uns" and "new_local_time B (TimeLong l) = Inr t" and "\<not> uns l"
  shows "lt_value t = sint (word l) \<and> 0 \<le> lt_value t \<and> lt_value t < 86400000000000
    \<and> lt_value t = ((lt_hour t * 60 + lt_minute t) * 60 + lt_second t) * 1000000000 + lt_nanosecond t
    \<and> (\<exists>bs. local_time_toBuffer B t = Inr bs \<and> length bs = 8 \<and> local_time_fromBuffer B bs = Inr t)
    \<and> local_time_fromString B (local_time_toString t) = Inr t"
proof -
  have wf: "time_wf t" by (rule long_bits_laws.new_local_time_wf [OF assms])
  have r: "0 \<le> sint (word l)" "sint (word l) \<le> 86399999999999" and t: "t = convert_to_object (sint (word l))"
    using assms(2) long_bits_laws.new_local_time_value [OF assms(1,3)] by (auto split: if_splits)
  have v: "lt_value t = sint (word l)" using r by (simp add: t convert_parts)
  have p: "lt_value t = ((lt_hour t * 60 + lt_minute t) * 60 + lt_second t) * 1000000000 + lt_nanosecond t"
    unfolding t convert_parts [OF r] local_time.simps by (rule time_parts(3) [OF r])
  obtain bs where bs: "local_time_toBuffer B t = Inr bs" "length bs = 8" "local_time_fromBuffer B bs = Inr t"
    using long_bits_laws.local_time_buffer [OF assms(1) wf] by blast
  have lt: "sint (word l) < 86400000000000" using r(2) by linarith
  show ?thesis
    by (intro conjI exI [of _ bs]; fact v p bs long_bits_laws.local_time_text [OF assms(1) wf] r(1) [folded v] lt [folded v])
qed

theorem local_time_roundtrips_witness:
  "\<exists>t. new_local_time word64_bits (TimeLong 45296000000700) = Inr t
    \<and> local_time_fromString word64_bits (local_time_toString t) = Inr t"
proof -
  have "new_local_time word64_bits (TimeLong 45296000000700) = Inr (convert_to_object 45296000000700)"
    using word64.new_local_time_bigint [of 45296000000700] word64.bigintToLong_word [of 45296000000700] by simp
  then show ?thesis using local_time_roundtrips [OF word64.long_bits_laws_axioms] by blast
qed

text \<open>\<open>fromDate\<close> of a date whose local time lies before 1 January 1970, and not at midnight, raises: the remainder of a negative number is negative.\<close>

theorem local_time_fromDate_before_epoch:
  assumes "long_bits_laws B word uns" and "- 8640000000000000 \<le> time + offset * - 60000" and "time + offset * - 60000 < 0"
    and "\<not> 86400000 dvd (time + offset * - 60000)"
  shows "local_time_fromDate B time offset None = Inl TypeError"
proof -
  define x where "x = time + offset * - 60000"
  define r where "r = x smod 86400000"
  have "x < 0" "\<not> 86400000 dvd x" using assms(3,4) by (simp_all add: x_def)
  then have e: "r = - ((- x) mod 86400000)"
    by (simp add: r_def signed_modulo_int_def signed_divide_int_def sgn_if minus_div_mult_eq_mod [symmetric])
  have nz: "(- x) mod 86400000 \<noteq> 0" using \<open>\<not> 86400000 dvd x\<close> by (simp only: mod_eq_0_iff_dvd dvd_minus_iff not_False_eq_True)
  have "0 \<le> (- x) mod 86400000" "(- x) mod 86400000 < 86400000" by simp_all
  then have "r < 0" and "- 86400000 < r" using e nz by linarith+
  moreover have "fromMilliseconds B r None = fromMilliseconds B r (Some 0)" by (simp add: fromMilliseconds_def)
  ultimately show ?thesis
    using long_bits_laws.fromMilliseconds_value [OF assms(1), of r 0]
    by (simp add: local_time_fromDate_def r_def x_def in_long_def)
qed

end
