(* ===== verification/Local_Date.thy ===== *)
theory Local_Date
  imports Node_Buffer Local_Time
begin

text \<open>
  \<^verbatim>\<open>src/lib/types/local-date.js\<close> with the object the Rust layer keeps for it, \<^verbatim>\<open>src/src/types/local_date.rs\<close>: a date as days since
  1 January 1970 and, within the range of the \<open>Date\<close> class, as year, month and day. Numbers are the integers the binding hands
  over: 32-bit years and days since the epoch, 8-bit months and days. \<open>/\<close> and \<open>%\<close> of Rust truncate, and 32-bit sums wrap round.
\<close>

section \<open>The calendar of the Rust layer\<close>

record ymd =
  ymd_year :: int
  ymd_month :: int
  ymd_day :: int

definition max_js_date :: int where
  "max_js_date = 100000000"

definition leap_year_1970 :: int where
  "leap_year_1970 = 477"

definition day_in_month :: "int list" where
  "day_in_month = [0, 31, 59, 90, 120, 151, 181, 212, 243, 273, 304, 334]"

definition is_leap_year :: "int \<Rightarrow> bool" where
  "is_leap_year year \<longleftrightarrow> (year smod 4 = 0 \<and> year smod 100 \<noteq> 0) \<or> year smod 400 = 0"

definition number_leap_years :: "int \<Rightarrow> int" where
  "number_leap_years n = n sdiv 4 - n sdiv 100 + n sdiv 400"

definition days_in_month :: "int \<Rightarrow> int \<Rightarrow> int" where
  "days_in_month month year =
    (if month \<in> {1, 3, 5, 7, 8, 10, 12} then 31
     else if month \<in> {4, 6, 9, 11} then 30
     else if month = 2 then (if is_leap_year year then 29 else 28)
     else 0)"

definition ymd_new :: "int \<Rightarrow> int \<Rightarrow> int \<Rightarrow> ymd result" where
  "ymd_new year month day =
    (if \<not> (1 \<le> month \<and> month \<le> 12) then Inl PlainError
     else if \<not> (1 \<le> day \<and> day \<le> days_in_month month year) then Inl PlainError
     else Inr \<lparr>ymd_year = year, ymd_month = month, ymd_day = day\<rparr>)"

definition number_day :: "ymd \<Rightarrow> int" where
  "number_day d = day_in_month ! nat (ymd_month d - 1) + (if is_leap_year (ymd_year d) \<and> ymd_month d > 2 then 1 else 0) + ymd_day d - 1"

text \<open>Every step is a 32-bit sum or product, so wrapping the total is wrapping each step.\<close>

definition to_days :: "ymd \<Rightarrow> int" where
  "to_days d =
    (let year = ymd_year d in
     to_int32
      (if year \<ge> 1970 then (year - 1970) * 365 + number_leap_years (year - 1) - leap_year_1970 + number_day d
       else let t = - ((if is_leap_year year then 366 else 365) - number_day d)
            in if year < 0 then t - ((1970 - year - 1) * 365 + number_leap_years \<bar>year + 1\<bar> + leap_year_1970 + 1)
               else t - ((1970 - year - 1) * 365 + leap_year_1970 - number_leap_years (year + 1))))"

text \<open>One turn of the loop of \<open>from_days\<close>, and the loop.\<close>

definition from_days_step :: "int \<Rightarrow> int \<Rightarrow> int \<times> int" where
  "from_days_step year n =
    (let k = n sdiv 365;
         n = (if year > 0 \<and> year + k < 0 then n + 1 else if year < 0 \<and> year + k > 0 then n - 1 else n);
         year = year + k
     in (year, n - (k * 365 - number_leap_years (year - k - 1) + number_leap_years (year - 1))))"

section \<open>Leap years\<close>

lemma smod_dvd: "(a::int) smod b = 0 \<longleftrightarrow> b dvd a"
  by (auto simp: signed_modulo_int_def sgn_eq_0_iff mod_eq_0_iff_dvd)

lemma leap_dvd: "is_leap_year y \<longleftrightarrow> (4 dvd y \<and> \<not> 100 dvd y) \<or> 400 dvd y"
  by (simp add: is_leap_year_def smod_dvd)

definition leaps :: "int \<Rightarrow> int" where
  "leaps n = n div 4 - n div 100 + n div 400"

lemma div_succ:
  fixes n k :: int
  assumes "1 < k"
  shows "(n + 1) div k = n div k + (if k dvd n + 1 then 1 else 0)"
proof -
  have m: "0 \<le> n mod k" "n mod k < k" using assms by simp_all
  have "(n + 1) div k = n div k + (n mod k + 1) div k"
    using div_add1_eq [of n 1 k] assms by simp
  moreover have "k dvd n + 1 \<longleftrightarrow> k dvd n mod k + 1" by (simp add: dvd_eq_mod_eq_0 mod_simps)
  moreover have "k dvd n mod k + 1 \<longleftrightarrow> n mod k + 1 = k"
    using m zdvd_imp_le [of k "n mod k + 1"] by auto
  ultimately show ?thesis using m assms by (cases "n mod k + 1 = k") simp_all
qed

lemma leaps_succ: "leaps (n + 1) = leaps n + (if is_leap_year (n + 1) then 1 else 0)"
proof -
  have "400 dvd n + 1 \<Longrightarrow> 100 dvd n + 1" "100 dvd n + 1 \<Longrightarrow> 4 dvd n + 1"
    using dvd_trans [of 100 400 "n + 1"] dvd_trans [of 4 100 "n + 1"] by simp_all
  then show ?thesis by (auto simp: leaps_def div_succ leap_dvd)
qed

lemma number_leaps: "0 \<le> n \<Longrightarrow> number_leap_years n = leaps n" "n \<le> 0 \<Longrightarrow> number_leap_years n = - leaps (- n)"
  by (simp_all add: number_leap_years_def leaps_def signed_divide_int_def sgn_if)

lemma number_leap_succ: "number_leap_years n \<le> number_leap_years (n + 1)" "number_leap_years (n + 1) \<le> number_leap_years n + 1"
proof -
  have "number_leap_years n \<le> number_leap_years (n + 1) \<and> number_leap_years (n + 1) \<le> number_leap_years n + 1"
  proof (cases "0 \<le> n")
    case True
    then show ?thesis by (simp add: number_leaps leaps_succ)
  next
    case False
    then show ?thesis using leaps_succ [of "- (n + 1)"] by (simp add: number_leaps)
  qed
  then show "number_leap_years n \<le> number_leap_years (n + 1)" "number_leap_years (n + 1) \<le> number_leap_years n + 1" by simp_all
qed

lemma number_leap_diff: "number_leap_years n \<le> number_leap_years (n + int k)" "number_leap_years (n + int k) \<le> number_leap_years n + int k"
proof (induction k)
  case (Suc k)
  { case 1 show ?case using Suc number_leap_succ [of "n + int k"] by (simp add: algebra_simps) }
  { case 2 show ?case using Suc number_leap_succ [of "n + int k"] by (simp add: algebra_simps) }
qed simp_all

lemma number_leap_between:
  assumes "0 \<le> k"
  shows "0 \<le> number_leap_years (n + k) - number_leap_years n" and "number_leap_years (n + k) - number_leap_years n \<le> k"
  using assms number_leap_diff [of n "nat k"] by simp_all

section \<open>The loop of from_days\<close>

lemma step_value:
  "from_days_step year n =
    (year + n sdiv 365,
     n - n sdiv 365 * 365
     + (if year > 0 \<and> year + n sdiv 365 < 0 then 1 else if year < 0 \<and> year + n sdiv 365 > 0 then - 1 else 0)
     - (number_leap_years (year + n sdiv 365 - 1) - number_leap_years (year - 1)))"
  by (simp add: from_days_step_def Let_def algebra_simps)

lemma sdiv365:
  "0 \<le> n \<Longrightarrow> n sdiv 365 = n div (365::int)" "n \<le> 0 \<Longrightarrow> n sdiv 365 = - ((- n) div 365)"
  by (simp_all add: signed_divide_int_def sgn_if)

lemma step_decreases:
  assumes "365 \<le> \<bar>n\<bar>"
  shows "\<bar>snd (from_days_step year n)\<bar> < \<bar>n\<bar>"
proof (cases "0 \<le> n")
  case True
  define k where "k = n div 365"
  have k: "n sdiv 365 = k" "1 \<le> k" "k * 365 \<le> n" "n < k * 365 + 365"
    using True assms div_mult_mod_eq [of n 365] by (simp_all add: k_def sdiv365)
  have "0 \<le> number_leap_years (year - 1 + k) - number_leap_years (year - 1)"
    "number_leap_years (year - 1 + k) - number_leap_years (year - 1) \<le> k"
    using number_leap_between [of k "year - 1"] k(2) by simp_all
  then show ?thesis using k True by (auto simp: step_value algebra_simps)
next
  case False
  define k where "k = (- n) div 365"
  have k: "n sdiv 365 = - k" "1 \<le> k" "k * 365 \<le> - n" "- n < k * 365 + 365"
    using False assms div_mult_mod_eq [of "- n" 365] by (simp_all add: k_def sdiv365)
  have "0 \<le> number_leap_years (year - 1) - number_leap_years (year - 1 - k)"
    "number_leap_years (year - 1) - number_leap_years (year - 1 - k) \<le> k"
    using number_leap_between [of k "year - 1 - k"] k(2) by simp_all
  then show ?thesis using k False by (auto simp: step_value algebra_simps)
qed

function from_days_loop :: "int \<Rightarrow> int \<Rightarrow> int \<times> int" where
  "from_days_loop year n =
    (if \<bar>n\<bar> \<ge> 365 then from_days_loop (fst (from_days_step year n)) (snd (from_days_step year n)) else (year, n))"
  by pat_completeness auto
termination
  by (relation "measure (\<lambda>(year, n). nat \<bar>n\<bar>)") (simp_all add: case_prod_unfold nat_mono_iff step_decreases)

declare from_days_loop.simps [simp del]

text \<open>
  The month and the day of the month of the \<open>n\<close>-th day of a year, counted from 0; the month is that of the last entry of the
  table that is not after the day.
\<close>

definition month_day :: "bool \<Rightarrow> int \<Rightarrow> int \<times> int" where
  "month_day leap n =
    (if leap \<and> \<not> n \<ge> 60 \<and> n > 31 then (2, n - 30)
     else
       let n = (if leap \<and> n \<ge> 60 then n - 1 else n);
           q = Suc (last (filter (\<lambda>i. day_in_month ! i \<le> n) [0..<12]))
       in (int q, n - day_in_month ! (q - 1) + 1))"

definition from_days :: "int \<Rightarrow> ymd option" where
  "from_days n =
    (if \<not> (- max_js_date \<le> n \<and> n \<le> max_js_date) then None
     else
       let (year, n) = from_days_loop 1970 n;
           (year, n) = (if n < 0 then (year - 1, n + (if is_leap_year (year - 1) then 366 else 365)) else (year, n));
           (month, day) = month_day (is_leap_year year) n
       in Some \<lparr>ymd_year = year, ymd_month = month, ymd_day = day\<rparr>)"

section \<open>The Rust object\<close>

record local_date =
  ld_value :: int
  ld_date :: "ymd option"
  ld_in_date :: bool

definition rust_date_new :: "int \<Rightarrow> int \<Rightarrow> int \<Rightarrow> local_date result" where
  "rust_date_new day month year =
    bind_result (ymd_new year month day) (\<lambda>date.
      Inr \<lparr>ld_value = to_days date, ld_date = Some date,
           ld_in_date = (- max_js_date \<le> to_days date \<and> to_days date \<le> max_js_date)\<rparr>)"

definition rust_new_day :: "int \<Rightarrow> local_date" where
  "rust_new_day n = \<lparr>ld_value = n, ld_date = from_days n, ld_in_date = (- max_js_date \<le> n \<and> n \<le> max_js_date)\<rparr>"

text \<open>The regular expression \<open>^-?\d{1}\d*-(0?[1-9]|1[012])-(0?[1-9]|[12][0-9]|3[01])$\<close>.\<close>

definition month_text :: "string \<Rightarrow> bool" where
  "month_text s \<longleftrightarrow>
    (case s of
       [b] \<Rightarrow> b \<in> set ''123456789''
     | [a, b] \<Rightarrow> a = CHR ''0'' \<and> b \<in> set ''123456789'' \<or> a = CHR ''1'' \<and> b \<in> set ''012''
     | _ \<Rightarrow> False)"

definition day_text :: "string \<Rightarrow> bool" where
  "day_text s \<longleftrightarrow>
    (case s of
       [b] \<Rightarrow> b \<in> set ''123456789''
     | [a, b] \<Rightarrow> a = CHR ''0'' \<and> b \<in> set ''123456789'' \<or> a \<in> set ''12'' \<and> b \<in> set ''0123456789'' \<or> a = CHR ''3'' \<and> b \<in> set ''01''
     | _ \<Rightarrow> False)"

definition strip_minus :: "string \<Rightarrow> string" where
  "strip_minus s = (if s \<noteq> [] \<and> hd s = CHR ''-'' then tl s else s)"

definition date_regex :: "string \<Rightarrow> bool" where
  "date_regex s \<longleftrightarrow>
    (case split_on CHR ''-'' (strip_minus s) of
       [y, m, d] \<Rightarrow> y \<noteq> [] \<and> list_all time_digit y \<and> month_text m \<and> day_text d
     | _ \<Rightarrow> False)"

definition parse_i32 :: "string \<Rightarrow> int option" where
  "parse_i32 = rust_parse (- (2 ^ 31)) (2 ^ 31 - 1)"

definition parse_i8 :: "string \<Rightarrow> int option" where
  "parse_i8 = rust_parse (- 128) 127"

text \<open>The parts of a text that matches; the text has three of them after the leading minus sign is dropped.\<close>

definition date_parts :: "string \<Rightarrow> ymd option" where
  "date_parts s =
    (let parts = split_on CHR ''-'' (strip_minus s) in
     if length parts < 3 then None
     else case (parse_i32 (parts ! 0), parse_i8 (parts ! 1), parse_i8 (parts ! 2)) of
       (Some y, Some m, Some d) \<Rightarrow>
         Some \<lparr>ymd_year = (if s \<noteq> [] \<and> hd s = CHR ''-'' then - 1 else 1) * y, ymd_month = m, ymd_day = d\<rparr>
     | _ \<Rightarrow> None)"

definition rust_date_from_string :: "string \<Rightarrow> int result" where
  "rust_date_from_string value =
    (let d = length (filter (\<lambda>c. c = CHR ''-'') value) in
     if d < 2 then (case parse_i32 value of Some v \<Rightarrow> Inr v | None \<Rightarrow> Inl PlainError)
     else if d = 2 \<or> d = 3 then
       (if \<not> date_regex value then Inl PlainError
        else case date_parts value of Some date \<Rightarrow> Inr (to_days date) | None \<Rightarrow> Inl PlainError)
     else Inl PlainError)"

definition rust_date_to_string :: "local_date \<Rightarrow> string" where
  "rust_date_to_string d =
    (case ld_date d of
       Some date \<Rightarrow>
         (if ymd_year date < 0 then ''-'' else [])
         @ replicate (4 - length (show_int \<bar>ymd_year date\<bar>)) CHR ''0'' @ show_int \<bar>ymd_year date\<bar>
         @ (if ymd_month date < 10 then ''-0'' else ''-'') @ show_int (ymd_month date)
         @ (if ymd_day date < 10 then ''-0'' else ''-'') @ show_int (ymd_day date)
     | None \<Rightarrow> show_int (ld_value d))"

section \<open>The class\<close>

definition dateCenter :: int where
  "dateCenter = 2 ^ 31"

definition minDay :: int where
  "minDay = - 2147483648"

definition maxDay :: int where
  "maxDay = 2147483647"

datatype date_arg = DateYmd int int int | DateDays int | DateOther

definition new_local_date :: "date_arg \<Rightarrow> local_date result" where
  "new_local_date a =
    (case a of
       DateYmd year month day \<Rightarrow>
         bind_result (rust_date_new day month year) (\<lambda>inner. if \<not> ld_in_date inner then Inl PlainError else Inr inner)
     | DateDays n \<Rightarrow> if n < minDay \<or> n > maxDay then Inl PlainError else Inr (rust_new_day n)
     | DateOther \<Rightarrow> Inl PlainError)"

text \<open>A part of the date as a number, \<open>NaN\<close> outside the range of the \<open>Date\<close> class.\<close>

definition date_part :: "(ymd \<Rightarrow> int) \<Rightarrow> local_date \<Rightarrow> js_number result" where
  "date_part part d =
    (if ld_in_date d then (case ld_date d of Some date \<Rightarrow> Inr (JsInt (part date)) | None \<Rightarrow> Inl TypeError) else Inr JsNaN)"

definition local_date_year :: "local_date \<Rightarrow> js_number result" where
  "local_date_year = date_part ymd_year"

definition local_date_month :: "local_date \<Rightarrow> js_number result" where
  "local_date_month = date_part ymd_month"

definition local_date_day :: "local_date \<Rightarrow> js_number result" where
  "local_date_day = date_part ymd_day"

definition local_date_value_opt :: "local_date \<Rightarrow> int option" where
  "local_date_value_opt d = (if ld_in_date d then None else Some (ld_value d))"

text \<open>The time value of the \<open>Date\<close> object.\<close>

definition local_date_date :: "local_date \<Rightarrow> int" where
  "local_date_date d = ld_value d * 86400000"

text \<open>A \<open>Date\<close> is given by its \<open>getFullYear()\<close>, \<open>getMonth()\<close> and \<open>getDate()\<close>, an invalid one by \<open>None\<close>.\<close>

definition local_date_fromDate :: "(int \<times> int \<times> int) option \<Rightarrow> local_date result" where
  "local_date_fromDate date =
    (case date of
       None \<Rightarrow> Inl TypeError
     | Some (fullYear, month, day) \<Rightarrow> new_local_date (DateYmd fullYear (month + 1) day))"

definition local_date_fromString :: "string \<Rightarrow> local_date result" where
  "local_date_fromString value = bind_result (rust_date_from_string value) (\<lambda>days. new_local_date (DateDays days))"

definition local_date_fromBuffer :: "buffer \<Rightarrow> local_date result" where
  "local_date_fromBuffer buf = bind_result (readUIntBE 4 buf 0) (\<lambda>n. new_local_date (DateDays (n - dateCenter)))"

definition local_date_compare :: "local_date \<Rightarrow> local_date \<Rightarrow> int" where
  "local_date_compare d e = (if ld_value d = ld_value e then 0 else if ld_value d > ld_value e then 1 else - 1)"

definition local_date_equals :: "local_date \<Rightarrow> local_date \<Rightarrow> bool" where
  "local_date_equals d e \<longleftrightarrow> local_date_compare d e = 0"

definition local_date_toBuffer :: "local_date \<Rightarrow> buffer result" where
  "local_date_toBuffer d = writeUIntBE 4 (ld_value d + dateCenter)"

definition local_date_toString :: "local_date \<Rightarrow> string" where
  "local_date_toString d = rust_date_to_string d"

definition local_date_fromRust :: "local_date \<Rightarrow> local_date result" where
  "local_date_fromRust arg = new_local_date (DateDays (ld_value arg))"

section \<open>The Gregorian calendar\<close>

text \<open>The day number of a date: the days of the years from 1970 on, of the months of the year and of the month before it.\<close>

definition year_start :: "int \<Rightarrow> int" where
  "year_start y = 365 * (y - 1970) + leaps (y - 1) - leaps 1969"

fun month_start :: "int \<Rightarrow> nat \<Rightarrow> int" where
  "month_start y 0 = 0"
| "month_start y (Suc m) = month_start y m + days_in_month (int m) y"

definition calendar_days :: "ymd \<Rightarrow> int" where
  "calendar_days d = year_start (ymd_year d) + month_start (ymd_year d) (nat (ymd_month d)) + ymd_day d - 1"

definition valid_ymd :: "ymd \<Rightarrow> bool" where
  "valid_ymd d \<longleftrightarrow> 1 \<le> ymd_month d \<and> ymd_month d \<le> 12 \<and> 1 \<le> ymd_day d \<and> ymd_day d \<le> days_in_month (ymd_month d) (ymd_year d)"

definition year_length :: "int \<Rightarrow> int" where
  "year_length y = (if is_leap_year y then 366 else 365)"

lemma leaps_1969 [simp]: "leaps 1969 = 477"
  by (simp add: leaps_def)

lemma year_start_succ: "year_start (y + 1) = year_start y + year_length y"
  using leaps_succ [of "y - 1"] by (simp add: year_start_def year_length_def)

lemma month_cases: "1 \<le> (m::int) \<Longrightarrow> m \<le> 12 \<Longrightarrow>
  m = 1 \<or> m = 2 \<or> m = 3 \<or> m = 4 \<or> m = 5 \<or> m = 6 \<or> m = 7 \<or> m = 8 \<or> m = 9 \<or> m = 10 \<or> m = 11 \<or> m = 12"
  by arith

lemma month_table:
  assumes "1 \<le> m" and "m \<le> 12"
  shows "day_in_month ! nat (m - 1) + (if is_leap_year y \<and> m > 2 then 1 else 0) = month_start y (nat m)"
proof -
  have s: "month_start y 1 = 0" "month_start y 2 = 31" "month_start y 3 = (if is_leap_year y then 60 else 59)"
    "month_start y 4 = (if is_leap_year y then 91 else 90)" "month_start y 5 = (if is_leap_year y then 121 else 120)"
    "month_start y 6 = (if is_leap_year y then 152 else 151)" "month_start y 7 = (if is_leap_year y then 182 else 181)"
    "month_start y 8 = (if is_leap_year y then 213 else 212)" "month_start y 9 = (if is_leap_year y then 244 else 243)"
    "month_start y 10 = (if is_leap_year y then 274 else 273)" "month_start y 11 = (if is_leap_year y then 305 else 304)"
    "month_start y 12 = (if is_leap_year y then 335 else 334)"
    by (simp_all add: numeral_eq_Suc days_in_month_def)
  show ?thesis using month_cases [OF assms] by (elim disjE) (simp_all add: s s(1) [simplified] day_in_month_def)
qed

lemma number_day_value: "valid_ymd d \<Longrightarrow> number_day d = month_start (ymd_year d) (nat (ymd_month d)) + ymd_day d - 1"
  using month_table [of "ymd_month d" "ymd_year d"] by (simp add: valid_ymd_def number_day_def)

lemma calendar_number_day: "valid_ymd d \<Longrightarrow> calendar_days d = year_start (ymd_year d) + number_day d"
  by (simp add: number_day_value calendar_days_def)

lemma neg_div: "(- n - 1) div k = - (n div k) - 1" if "0 < k" for n k :: int
proof -
  have "- n - 1 = k * (- (n div k) - 1) + (k - 1 - n mod k)"
    using div_mult_mod_eq [of n k] by (simp add: algebra_simps)
  moreover have "0 \<le> k - 1 - n mod k" "k - 1 - n mod k < k" using that pos_mod_bound [of k n] pos_mod_sign [of k n] by linarith+
  ultimately show ?thesis by (metis int_div_pos_eq)
qed

lemma leaps_neg: "leaps (- n - 1) = - leaps n - 1"
  by (simp add: leaps_def neg_div)

lemma number_day_range: "valid_ymd d \<Longrightarrow> 0 \<le> number_day d \<and> number_day d \<le> 396"
proof -
  assume v: "valid_ymd d"
  have "days_in_month (ymd_month d) (ymd_year d) \<le> 31" by (simp add: days_in_month_def)
  moreover have "0 \<le> day_in_month ! nat (ymd_month d - 1) \<and> day_in_month ! nat (ymd_month d - 1) \<le> 334"
  proof -
    have "1 \<le> ymd_month d" "ymd_month d \<le> 12" using v by (simp_all add: valid_ymd_def)
    from month_cases [OF this] show ?thesis by (elim disjE) (simp_all add: day_in_month_def)
  qed
  ultimately show ?thesis using v by (simp add: number_day_def valid_ymd_def)
qed

text \<open>The day number the code computes: right from 1970 on and before year 0, and one too many in a year just before a leap year.\<close>

lemma leaps_bound: "0 \<le> n \<Longrightarrow> 0 \<le> leaps n \<and> leaps n \<le> n"
  using number_leap_between [of n 0] by (simp add: number_leaps leaps_def)

lemma to_days_value:
  assumes "valid_ymd d" and "\<bar>ymd_year d\<bar> \<le> 2900000"
  shows "to_days d = calendar_days d + (if 0 \<le> ymd_year d \<and> ymd_year d < 1970 \<and> is_leap_year (ymd_year d + 1) then 1 else 0)"
proof -
  define y nd where "y = ymd_year d" and "nd = number_day d"
  have nd: "0 \<le> nd" "nd \<le> 396" using number_day_range [OF assms(1)] by (simp_all add: nd_def)
  have cal: "calendar_days d = year_start y + nd" using calendar_number_day [OF assms(1)] by (simp add: y_def nd_def)
  consider "1970 \<le> y" | "y < 0" | "0 \<le> y" "y < 1970" by linarith
  then show ?thesis
  proof cases
    case 1
    then have "to_days d = to_int32 (year_start y + nd)"
      by (simp add: to_days_def y_def nd_def leap_year_1970_def number_leaps year_start_def Let_def algebra_simps)
    moreover have "0 \<le> leaps (y - 1)" "leaps (y - 1) \<le> y - 1" using leaps_bound [of "y - 1"] 1 by simp_all
    ultimately show ?thesis using 1 cal nd assms(2) by (simp add: y_def [symmetric] year_start_def)
  next
    case 2
    have e: "year_start y = 365 * (y + 1 - 1970) + leaps y - 477 - year_length y"
      using year_start_succ [of y] by (simp add: year_start_def)
    have l: "leaps (- y - 1) = - leaps y - 1" using leaps_neg [of y] by simp
    then have n: "number_leap_years \<bar>y + 1\<bar> = - leaps y - 1" using 2 number_leaps(1) [of "- y - 1"] by simp
    have b: "y \<le> leaps y" "leaps y \<le> - 1" using leaps_bound [of "- y - 1"] l 2 by simp_all
    have "to_days d = to_int32 (- (year_length y - nd) - ((1970 - y - 1) * 365 + number_leap_years \<bar>y + 1\<bar> + 477 + 1))"
      using 2 by (simp add: to_days_def y_def [symmetric] nd_def [symmetric] leap_year_1970_def Let_def year_length_def)
    moreover have "- (year_length y - nd) - ((1970 - y - 1) * 365 + number_leap_years \<bar>y + 1\<bar> + 477 + 1) = year_start y + nd"
      unfolding n e by simp
    moreover have "- 2147483648 \<le> year_start y" "year_start y < 1000000"
      using 2 b assms(2) unfolding e by (simp_all add: y_def [symmetric] year_length_def)
    ultimately have "to_days d = to_int32 (year_start y + nd)" and "- 2147483648 \<le> year_start y" "year_start y < 1000000"
      by (simp_all only:)
    then show ?thesis using 2 cal nd by (simp add: y_def [symmetric])
  next
    case 3
    have e: "year_start y = 365 * (y + 1 - 1970) + leaps y - 477 - year_length y"
      using year_start_succ [of y] by (simp add: year_start_def)
    let ?x = "if is_leap_year (y + 1) then 1 else 0 :: int"
    have "leaps (y + 1) = leaps y + ?x" by (rule leaps_succ)
    moreover have "0 \<le> leaps y" "leaps y \<le> y" using leaps_bound [of y] 3 by simp_all
    ultimately have "to_days d = to_int32 (year_start y + nd + ?x)" and "- 2147483648 \<le> year_start y" "year_start y < 1000000"
      using 3 unfolding e
      by (simp_all add: to_days_def y_def [symmetric] nd_def [symmetric] leap_year_1970_def number_leaps Let_def year_length_def algebra_simps)
    then show ?thesis using 3 cal nd by (simp add: y_def [symmetric])
  qed
qed

section \<open>Correctness of from_days\<close>

text \<open>
  The loop keeps the day number: \<open>n\<close> days from 1 January of \<open>year\<close> are \<open>n0\<close> days from the epoch. Year 0 is the exception: the day
  added for it as a leap year is missing there, and made up for when the loop goes on, which it does when the date is not in year 0.
\<close>

definition days_left :: "int \<Rightarrow> int \<Rightarrow> int \<Rightarrow> bool" where
  "days_left n0 year n \<longleftrightarrow>
    - 719162 \<le> n0 \<and> n0 \<le> 100000000 \<and> year \<le> 300000 \<and> (n0 < 0 \<longrightarrow> year \<le> 2000)
    \<and> (1 \<le> year \<and> n + year_start year = n0 \<or> year = 0 \<and> n = n0 + 719527)"

lemma year_start_pos: "1 \<le> y \<Longrightarrow> year_start y = 365 * (y - 1970) + number_leap_years (y - 1) - 477"
  by (simp add: year_start_def number_leaps)

lemma number_leaps_minus1: "number_leap_years (- 1) = 0"
  by (simp add: number_leaps leaps_def)

lemma sdiv_bounds: "0 \<le> n \<Longrightarrow> n sdiv 365 * 365 \<le> n" "n \<le> 0 \<Longrightarrow> n \<le> n sdiv 365 * 365" "365 \<le> n \<Longrightarrow> 1 \<le> n sdiv 365"
  "n \<le> 0 \<Longrightarrow> n sdiv 365 \<le> 0" for n :: int
  using div_mult_mod_eq [of n 365] div_mult_mod_eq [of "- n" 365] pos_mod_sign [of 365 n] pos_mod_sign [of 365 "- n"]
  by (simp_all add: sdiv365 pos_imp_zdiv_nonneg_iff)

lemma step_year_range:
  assumes "days_left n0 y n" and "365 \<le> \<bar>n\<bar>"
  defines "k \<equiv> n sdiv 365"
  shows "0 \<le> y + k" and "y + k \<le> 300000" and "n0 < 0 \<longrightarrow> y + k \<le> 2000" and "y = 0 \<Longrightarrow> 1 \<le> y + k"
proof -
  have n0: "- 719162 \<le> n0" "n0 \<le> 100000000" and y: "0 \<le> y" "y \<le> 300000" "n0 < 0 \<longrightarrow> y \<le> 2000"
    using assms(1) by (auto simp: days_left_def)
  have pos: "0 \<le> n" if "y = 0" using assms(1) that by (auto simp: days_left_def)
  then show "1 \<le> y + k" if "y = 0" using that sdiv_bounds(3) [of n] assms(2) by (simp add: k_def)
  define l where "l = number_leap_years (y - 1)"
  have l0: "0 \<le> l" if "1 \<le> y" using that leaps_bound [of "y - 1"] by (simp add: l_def number_leaps)
  have l1: "l \<le> y" if "1 \<le> y" using that leaps_bound [of "y - 1"] by (simp add: l_def number_leaps)
  have l2: "l \<le> 484" if "1 \<le> y" "y \<le> 2000"
  proof -
    have "number_leap_years (y - 1) \<le> number_leap_years (y - 1 + (2000 - y))" using number_leap_between(1) [of "2000 - y" "y - 1"] that by simp
    also have "\<dots> = 484" by (simp add: number_leaps leaps_def)
    finally show ?thesis by (simp add: l_def)
  qed
  have sum: "365 * y + n = n0 + 719527 - l" if "1 \<le> y" using assms(1) that by (auto simp: days_left_def year_start_pos l_def)
  have sum0: "n = n0 + 719527" if "y = 0" using assms(1) that by (auto simp: days_left_def)
  have up: "365 * (y + k) \<le> n0 + 719527" if "0 \<le> n"
    using sdiv_bounds(1) [OF that] sum sum0 l0 y(1) by (cases "y = 0") (simp_all add: k_def)
  have le: "y + k \<le> y" if "n < 0" using sdiv_bounds(4) [of n] that by (simp add: k_def)
  show "y + k \<le> 300000" using up le y(2) n0(2) by (cases "0 \<le> n") simp_all
  show "n0 < 0 \<longrightarrow> y + k \<le> 2000" using up le y(3) by (cases "0 \<le> n") auto
  show "0 \<le> y + k"
  proof (cases "0 \<le> n")
    case True
    then show ?thesis using sdiv_bounds(3) [of n] assms(2) y(1) by (simp add: k_def)
  next
    case False
    then have "1 \<le> y" using pos y(1) by (cases "y = 0") auto
    moreover have "365 * y + n \<le> 365 * (y + k)" using sdiv_bounds(2) [of n] False by (simp add: k_def)
    ultimately have "n0 + 719527 - l \<le> 365 * (y + k)" using sum by simp
    moreover have "l \<le> 300000" using l1 y(2) \<open>1 \<le> y\<close> by simp
    ultimately show ?thesis using l2 y(3) n0(1) \<open>1 \<le> y\<close> by (cases "n0 < 0") auto
  qed
qed

lemma step_days_left:
  assumes "days_left n0 y n" and "365 \<le> \<bar>n\<bar>"
  shows "days_left n0 (fst (from_days_step y n)) (snd (from_days_step y n))"
proof -
  define k where "k = n sdiv 365"
  note r = step_year_range [OF assms, folded k_def]
  have y: "0 \<le> y" using assms(1) by (auto simp: days_left_def)
  have step: "from_days_step y n = (y + k, n - k * 365 - (number_leap_years (y + k - 1) - number_leap_years (y - 1)))"
    using r(1) y by (auto simp: step_value k_def)
  define n' where "n' = n - k * 365 - (number_leap_years (y + k - 1) - number_leap_years (y - 1))"
  have "1 \<le> y + k \<and> n' + year_start (y + k) = n0 \<or> y + k = 0 \<and> n' = n0 + 719527"
  proof (cases "y = 0")
    case True
    then have "n = n0 + 719527" "1 \<le> k" using assms(1) r(4) by (auto simp: days_left_def)
    then show ?thesis using True by (simp add: n'_def year_start_pos number_leaps_minus1)
  next
    case False
    then have "n + year_start y = n0" "1 \<le> y" using assms(1) y by (auto simp: days_left_def)
    then have s: "n + 365 * y + number_leap_years (y - 1) = n0 + 719527" by (simp add: year_start_pos)
    show ?thesis
    proof (cases "y + k = 0")
      case True
      then have "k = - y" by simp
      then show ?thesis using s by (simp add: n'_def number_leaps_minus1)
    next
      case nz: False
      then have "1 \<le> y + k" using r(1) by simp
      then show ?thesis using s by (simp add: n'_def year_start_pos)
    qed
  qed
  then show ?thesis using assms(1) r(2,3) by (auto simp: days_left_def step n'_def)
qed

lemma loop_days_left:
  assumes "days_left n0 y n" and "from_days_loop y n = (y', n')"
  shows "days_left n0 y' n' \<and> \<bar>n'\<bar> < 365"
  using assms
proof (induction y n rule: from_days_loop.induct)
  case (1 y n)
  show ?case
  proof (cases "365 \<le> \<bar>n\<bar>")
    case True
    then show ?thesis using "1.IH" step_days_left [OF "1.prems"(1) True] "1.prems"(2) from_days_loop.simps [of y n] by simp
  next
    case False
    then show ?thesis using "1.prems" from_days_loop.simps [of y n] by simp
  qed
qed

definition month_day_ok :: "int \<Rightarrow> int \<Rightarrow> bool" where
  "month_day_ok y n =
    (let (m, d) = month_day (is_leap_year y) n
     in 1 \<le> m \<and> m \<le> 12 \<and> 1 \<le> d \<and> d \<le> days_in_month m y \<and> month_start y (nat m) + d - 1 = n)"

text \<open>In a table of ascending entries the last one not after a day is the month.\<close>

lemma last_not_after:
  assumes "sorted xs" and "i < length xs" and "xs ! i \<le> n" and "Suc i < length xs \<Longrightarrow> n < xs ! Suc i"
  shows "last (filter (\<lambda>j. xs ! j \<le> n) [0..<length xs]) = i"
proof -
  have "xs ! j \<le> n" if "j \<le> i" for j using sorted_nth_mono [OF assms(1) that assms(2)] assms(3) by simp
  then have "filter (\<lambda>j. xs ! j \<le> n) [0..<Suc i] = [0..<Suc i]" by (auto simp: filter_id_conv)
  moreover have "n < xs ! j" if "Suc i \<le> j" "j < length xs" for j
    using sorted_nth_mono [OF assms(1) that] assms(4) that by simp
  then have "filter (\<lambda>j. xs ! j \<le> n) [Suc i..<length xs] = []" by (force simp: filter_empty_conv)
  moreover obtain j where "length xs = Suc i + j" using assms(2) less_imp_Suc_add [of i "length xs"] by auto
  then have "[0..<length xs] = [0..<Suc i] @ [Suc i..<length xs]" using upt_add_eq_append [of 0 "Suc i" j] by (simp only:)
  ultimately show ?thesis by (simp del: upt_Suc)
qed

lemma Ex_less_12: "(\<exists>i < 12. P i) \<longleftrightarrow>
  P 0 \<or> P 1 \<or> P 2 \<or> P 3 \<or> P 4 \<or> P 5 \<or> P 6 \<or> P 7 \<or> P 8 \<or> P 9 \<or> P 10 \<or> P (11::nat)"
  by (simp add: numeral_eq_Suc less_Suc_eq ex_disj_distrib conj_disj_distribR)

lemma table_month:
  assumes "0 \<le> n" and "n < 365"
  shows "\<exists>i < 12. day_in_month ! i \<le> n \<and> n < (if i = 11 then 365 else day_in_month ! Suc i)"
proof -
  have "n < 31 \<or> 31 \<le> n \<and> n < 59 \<or> 59 \<le> n \<and> n < 90 \<or> 90 \<le> n \<and> n < 120 \<or> 120 \<le> n \<and> n < 151 \<or> 151 \<le> n \<and> n < 181
    \<or> 181 \<le> n \<and> n < 212 \<or> 212 \<le> n \<and> n < 243 \<or> 243 \<le> n \<and> n < 273 \<or> 273 \<le> n \<and> n < 304 \<or> 304 \<le> n \<and> n < 334 \<or> 334 \<le> n"
    by linarith
  then show ?thesis using assms unfolding day_in_month_def by (simp add: Ex_less_12)
qed

lemma month_start_table: "i < 12 \<Longrightarrow> month_start y (Suc i) = day_in_month ! i + (if is_leap_year y \<and> 2 \<le> i then 1 else 0)"
  using month_table [of "int i + 1" y] by (simp add: nat_add_distrib)

lemma month_length: "i < 12 \<Longrightarrow>
  days_in_month (int i + 1) y = (if i = 11 then 365 else day_in_month ! Suc i) - day_in_month ! i + (if is_leap_year y \<and> i = 1 then 1 else 0)"
proof -
  assume i: "i < 12"
  then consider "i < 11" | "i = 11" by linarith
  then show ?thesis
  proof cases
    case 1
    have "month_start y (Suc (Suc i)) = month_start y (Suc i) + days_in_month (int i + 1) y" by (simp add: add.commute)
    then show ?thesis using 1 month_start_table [OF i, of y] month_start_table [of "Suc i" y] by (cases "i = 0"; cases "i = 1") (simp_all split: if_splits)
  next
    case 2
    then show ?thesis by (simp add: days_in_month_def day_in_month_def)
  qed
qed

lemma month_day_table:
  assumes "0 \<le> n" and "n < 365" and "i < 12" and "day_in_month ! i \<le> n" and "n < (if i = 11 then 365 else day_in_month ! Suc i)"
  shows "month_day False n = (int i + 1, n - day_in_month ! i + 1)"
proof -
  have "last (filter (\<lambda>j. day_in_month ! j \<le> n) [0..<length day_in_month]) = i"
    using assms by (intro last_not_after) (auto simp: day_in_month_def split: if_splits)
  moreover have "length day_in_month = 12" by (simp add: day_in_month_def)
  ultimately show ?thesis by (simp add: month_day_def Let_def)
qed

lemma month_day_valid:
  assumes "0 \<le> n" and "n < year_length y"
  shows "month_day_ok y n"
proof -
  have ord: "day_in_month ! 2 = 59" "day_in_month ! 1 = 31" by (simp_all add: day_in_month_def)
  have mono: "day_in_month ! i \<le> day_in_month ! j" if "i \<le> j" "j < 12" for i j
    using that by (intro sorted_nth_mono) (auto simp: day_in_month_def)
  consider "\<not> is_leap_year y" "n < 365" | "is_leap_year y" "n \<le> 31" | "is_leap_year y" "31 < n" "n < 60" | "is_leap_year y" "60 \<le> n"
    using assms by (force simp: year_length_def split: if_splits)
  then show ?thesis
  proof cases
    case 1
    obtain i where i: "i < 12" "day_in_month ! i \<le> n" "n < (if i = 11 then 365 else day_in_month ! Suc i)"
      using table_month [OF assms(1) 1(2)] by blast
    show ?thesis using month_day_table [OF assms(1) 1(2) i] 1(1) i month_length [OF i(1), of y] month_start_table [OF i(1), of y]
      by (simp add: month_day_ok_def nat_add_distrib)
  next
    case 2
    have n: "n < 365" using 2 by simp
    obtain i where i: "i < 12" "day_in_month ! i \<le> n" "n < (if i = 11 then 365 else day_in_month ! Suc i)"
      using table_month [OF assms(1) n] by blast
    have "i < 2" using mono [of 2 i] i 2(2) ord by (cases "2 \<le> i") auto
    moreover have "month_day True n = month_day False n" using 2 by (simp add: month_day_def)
    ultimately show ?thesis using month_day_table [OF assms(1) n i] 2(1) i month_length [OF i(1), of y] month_start_table [OF i(1), of y]
      by (auto simp: month_day_ok_def nat_add_distrib)
  next
    case 3
    then show ?thesis using month_start_table [of 1 y] ord by (simp add: month_day_ok_def month_day_def days_in_month_def numeral_2_eq_2)
  next
    case 4
    have n: "0 \<le> n - 1" "n - 1 < 365" using 4 assms by (simp_all add: year_length_def)
    obtain i where i: "i < 12" "day_in_month ! i \<le> n - 1" "n - 1 < (if i = 11 then 365 else day_in_month ! Suc i)"
      using table_month [OF n] by blast
    have "2 \<le> i" using mono [of "Suc i" 2] i 4(2) ord by (cases "2 \<le> i") (auto split: if_splits)
    moreover have "month_day True n = month_day False (n - 1)" using 4 by (simp add: month_day_def)
    ultimately show ?thesis using month_day_table [OF n i] 4(1) i month_length [OF i(1), of y] month_start_table [OF i(1), of y]
      by (simp add: month_day_ok_def nat_add_distrib)
  qed
qed

lemma from_days_calendar:
  assumes "- 719162 \<le> n" and "n \<le> 100000000"
  shows "\<exists>d. from_days n = Some d \<and> valid_ymd d \<and> calendar_days d = n \<and> 1 \<le> ymd_year d \<and> ymd_year d \<le> 300000"
proof -
  obtain y r where loop: "from_days_loop 1970 n = (y, r)" by fastforce
  have "days_left n 1970 n" using assms by (simp add: days_left_def year_start_def)
  then have "days_left n y r" "\<bar>r\<bar> < 365" using loop_days_left loop by blast+
  then have y: "1 \<le> y" "y \<le> 300000" and r: "r + year_start y = n" using assms(1) by (auto simp: days_left_def)
  define y' where "y' = (if r < 0 then y - 1 else y)"
  define r' where "r' = (if r < 0 then r + (if is_leap_year (y - 1) then 366 else 365) else r)"
  have one: "r \<ge> 0" if "y = 1" using r assms(1) that by (simp add: year_start_def leaps_def)
  have y': "1 \<le> y'" "y' \<le> 300000" using y one by (cases "y = 1"; auto simp: y'_def)+
  have r': "0 \<le> r'" "r' < year_length y'" "r' + year_start y' = n"
    using \<open>\<bar>r\<bar> < 365\<close> r year_start_succ [of "y - 1"] by (auto simp: y'_def r'_def year_length_def)
  obtain m d where md: "month_day (is_leap_year y') r' = (m, d)" by fastforce
  have f: "from_days n = Some \<lparr>ymd_year = y', ymd_month = m, ymd_day = d\<rparr>"
    using assms loop md by (auto simp: from_days_def max_js_date_def y'_def r'_def Let_def)
  have "month_day_ok y' r'" by (rule month_day_valid [OF r'(1,2)])
  then show ?thesis using f md y' r'(3) by (auto simp: month_day_ok_def valid_ymd_def calendar_days_def)
qed

section \<open>Dates as objects\<close>

definition date_wf :: "local_date \<Rightarrow> bool" where
  "date_wf d \<longleftrightarrow> minDay \<le> ld_value d \<and> ld_value d \<le> maxDay \<and> d = rust_new_day (ld_value d)"

lemma new_local_date_days: "minDay \<le> n \<Longrightarrow> n \<le> maxDay \<Longrightarrow> new_local_date (DateDays n) = Inr (rust_new_day n)"
  by (simp add: new_local_date_def)

lemma date_buffer:
  assumes "date_wf d"
  shows "\<exists>bs. local_date_toBuffer d = Inr bs \<and> length bs = 4 \<and> bytes_ok bs \<and> local_date_fromBuffer bs = Inr d"
proof -
  let ?v = "ld_value d + dateCenter"
  have v: "0 \<le> ?v" "?v < 256 ^ 4" and d: "d = rust_new_day (ld_value d)" "minDay \<le> ld_value d" "ld_value d \<le> maxDay"
    using assms by (simp_all add: date_wf_def minDay_def maxDay_def dateCenter_def)
  then have w: "local_date_toBuffer d = Inr (be_bytes 4 ?v)" by (simp add: local_date_toBuffer_def writeUIntBE_def)
  have "readUIntBE 4 (be_bytes 4 ?v) 0 = Inr ?v"
    using v readUIntBE_write [of 4 ?v "be_bytes 4 ?v" "[]" "[]"] by (simp add: writeUIntBE_def)
  then have "local_date_fromBuffer (be_bytes 4 ?v) = Inr d"
    using d new_local_date_days [OF d(2,3)] by (simp add: local_date_fromBuffer_def)
  then show ?thesis using w by simp
qed

subsection \<open>Text\<close>

lemma month_day_texts: "list_all (\<lambda>m. month_text (pad2 m)) [1..12] \<and> list_all (\<lambda>d. day_text (pad2 d)) [1..31]"
  by code_simp

lemma pad2_parse_i8: "0 \<le> n \<Longrightarrow> n < 100 \<Longrightarrow> parse_i8 (pad2 n) = Some n \<and> CHR ''-'' \<notin> set (pad2 n)"
proof -
  assume "0 \<le> n" "n < 100"
  then obtain m where m: "n = int m" "m < 100" using zero_le_imp_eq_int by auto
  have d: "m div 10 < 10" "m mod 10 < 10" using m by simp_all
  have v: "digits_value 10 (pad2 n) = m" unfolding m(1) pad2_digits [OF m(2)] digits_value_two [OF d] by simp
  have ds: "\<forall>c \<in> set (pad2 n). is_digit 10 c" using d by (simp add: m pad2_digits digit_char_digit)
  moreover have "pad2 n \<noteq> []" by (simp add: m pad2_digits)
  ultimately have "parse_i8 (pad2 n) = Some n" using rust_parse_digits [of "pad2 n" "- 128" 127] v m by (simp add: parse_i8_def)
  moreover have "CHR ''-'' \<notin> set (pad2 n)" using ds separators_no_digit(3) by metis
  ultimately show ?thesis by simp
qed

lemma month_length_le: "days_in_month m y \<le> 31"
  by (simp add: days_in_month_def)

lemma filter_no_char: "c \<notin> set xs \<Longrightarrow> filter (\<lambda>x. x = c) xs = []"
  by (induction xs) auto

lemma ymd_text_parse:
  assumes "valid_ymd d" and "0 \<le> ymd_year d" and "ymd_year d < 2 ^ 31" and "ld_date x = Some d"
  defines "s \<equiv> rust_date_to_string x"
  shows "rust_date_from_string s = Inr (to_days d)"
proof -
  let ?y = "nat (ymd_year d)"
  define yt where "yt = replicate (4 - length (show_nat ?y)) CHR ''0'' @ show_nat ?y"
  have m: "1 \<le> ymd_month d" "ymd_month d \<le> 12" and dd: "1 \<le> ymd_day d" "ymd_day d \<le> 31"
    using assms(1) month_length_le [of "ymd_month d" "ymd_year d"] by (simp_all add: valid_ymd_def)
  have s: "s = yt @ CHR ''-'' # pad2 (ymd_month d) @ CHR ''-'' # pad2 (ymd_day d)"
    using assms(2,4) by (simp add: s_def rust_date_to_string_def yt_def show_int_def pad2_def)
  have "is_digit 10 (CHR ''0'')" by code_simp
  then have ds: "\<forall>c \<in> set yt. is_digit 10 c" using show_nat_digits [of ?y] by (auto simp: yt_def)
  then have y: "CHR ''-'' \<notin> set yt" "list_all time_digit yt" using separators_no_digit(3) by (auto simp: list_all_iff is_time_digit)
  have ne: "yt \<noteq> []" by (simp add: yt_def)
  have yhd: "hd yt \<noteq> CHR ''-''" by (rule notI) (use y(1) hd_in_set [OF ne] in \<open>simp only:\<close>)
  then have hd: "hd s \<noteq> CHR ''-''" "s \<noteq> []" using yhd ne by (simp_all add: s)
  have py: "parse_i32 yt = Some (ymd_year d)"
    using rust_parse_digits [OF ne ds, of "- (2 ^ 31)" "2 ^ 31 - 1"] assms(2,3)
    by (simp add: parse_i32_def yt_def digits_value_zeros digits_value_show)
  have pm: "parse_i8 (pad2 (ymd_month d)) = Some (ymd_month d)" "CHR ''-'' \<notin> set (pad2 (ymd_month d))"
    and pd: "parse_i8 (pad2 (ymd_day d)) = Some (ymd_day d)" "CHR ''-'' \<notin> set (pad2 (ymd_day d))"
    using pad2_parse_i8 [of "ymd_month d"] pad2_parse_i8 [of "ymd_day d"] m dd by simp_all
  have sp: "split_on CHR ''-'' (strip_minus s) = [yt, pad2 (ymd_month d), pad2 (ymd_day d)]"
    using hd y(1) pm(2) pd(2) by (simp add: strip_minus_def) (simp add: s split_on_append split_on_plain)
  have dashes: "length (filter (\<lambda>c. c = CHR ''-'') s) = 2"
    using y(1) pm(2) pd(2) by (simp add: s filter_no_char)
  have "month_text (pad2 (ymd_month d))" "day_text (pad2 (ymd_day d))"
    using month_day_texts m dd by (auto simp: list_all_iff)
  then have "date_regex s" using ne y(2) by (simp add: date_regex_def sp)
  moreover have "date_parts s = Some d" using py pm(1) pd(1) hd by (simp add: date_parts_def sp)
  ultimately show ?thesis using dashes by (simp add: rust_date_from_string_def)
qed

lemma day_text_parse:
  assumes "minDay \<le> n" and "n \<le> maxDay"
  shows "rust_date_from_string (show_int n) = Inr n"
proof -
  have "\<forall>k. CHR ''-'' \<notin> set (show_nat k)" using show_nat_digits separators_no_digit(3) by metis
  then have "filter (\<lambda>c. c = CHR ''-'') (show_nat k) = []" for k by (simp add: filter_no_char)
  then have "length (filter (\<lambda>c. c = CHR ''-'') (show_int n)) < 2" by (simp add: show_int_def)
  moreover have "parse_i32 (show_int n) = Some n"
    using assms rust_parse_show [of "- (2 ^ 31)" n "2 ^ 31 - 1"] by (simp add: parse_i32_def minDay_def maxDay_def)
  ultimately show ?thesis by (simp add: rust_date_from_string_def)
qed

lemma number_day_less: "valid_ymd d \<Longrightarrow> number_day d < year_length (ymd_year d)"
proof -
  assume v: "valid_ymd d"
  define i where "i = nat (ymd_month d - 1)"
  have i: "ymd_month d = int i + 1" "i < 12" using v by (auto simp: valid_ymd_def i_def)
  define e where "e = (if i = 11 then 365 else day_in_month ! Suc i)"
  have e: "e \<le> 365" using sorted_nth_mono [of day_in_month "Suc i" 11] i(2) by (auto simp: e_def day_in_month_def)
  have "ymd_day d \<le> e - day_in_month ! i + (if is_leap_year (ymd_year d) \<and> i = 1 then 1 else 0)"
    using v month_length [OF i(2), of "ymd_year d"] by (simp add: valid_ymd_def i(1) e_def)
  moreover have "number_day d = day_in_month ! i + (if is_leap_year (ymd_year d) \<and> 2 \<le> i then 1 else 0) + ymd_day d - 1"
    by (simp add: number_day_def i(1))
  ultimately show ?thesis using e by (simp add: year_length_def split: if_splits)
qed

lemma date_text:
  assumes "date_wf d" and "0 \<le> ld_value d \<or> ld_value d < - 100000000"
  shows "local_date_fromString (local_date_toString d) = Inr d"
proof -
  let ?n = "ld_value d"
  have n: "minDay \<le> ?n" "?n \<le> maxDay" and d: "d = rust_new_day ?n" using assms(1) by (simp_all add: date_wf_def)
  have "rust_date_from_string (rust_date_to_string d) = Inr ?n"
  proof (cases "0 \<le> ?n \<and> ?n \<le> 100000000")
    case True
    then obtain c where c: "from_days ?n = Some c" "valid_ymd c" "calendar_days c = ?n" "1 \<le> ymd_year c" "ymd_year c \<le> 300000"
      using from_days_calendar [of ?n] by auto
    have ld: "ld_date d = Some c" using c(1) by (subst d) (simp add: rust_new_day_def)
    have "1970 \<le> ymd_year c"
    proof (rule ccontr)
      assume "\<not> 1970 \<le> ymd_year c"
      then have "year_start (ymd_year c + 1) \<le> 0"
        using leaps_bound [of "ymd_year c"] number_leap_between(1) [of "1969 - ymd_year c" "ymd_year c"] c(4)
        by (simp add: year_start_def number_leaps)
      moreover have "calendar_days c < year_start (ymd_year c + 1)"
        using number_day_less [OF c(2)] by (simp add: calendar_number_day [OF c(2)] year_start_succ)
      ultimately show False using True c(3) by simp
    qed
    then have "to_days c = ?n" using to_days_value [OF c(2)] c(3-5) by simp
    then show ?thesis using ymd_text_parse [OF c(2) _ _ ld] c(4,5) by simp
  next
    case False
    then have "ld_date d = None" using assms(2) by (subst d) (auto simp: rust_new_day_def from_days_def max_js_date_def)
    then show ?thesis using day_text_parse [OF n] by (simp add: rust_date_to_string_def)
  qed
  then show ?thesis using new_local_date_days [OF n] d by (simp add: local_date_fromString_def local_date_toString_def)
qed

section \<open>Properties\<close>

text \<open>
  C30: From 1 January of year 1 up to the last day of the \<open>Date\<close> class, the year, month and day of a date given in days since the epoch are
  those of the Gregorian calendar: a valid date whose day number is the given one. The loop that finds the year returns.
\<close>

theorem local_date_calendar:
  assumes "- 719162 \<le> n" and "n \<le> 100000000"
  shows "\<exists>d y m k. new_local_date (DateDays n) = Inr d \<and> local_date_year d = Inr (JsInt y) \<and> local_date_month d = Inr (JsInt m)
    \<and> local_date_day d = Inr (JsInt k) \<and> 1 \<le> m \<and> m \<le> 12 \<and> 1 \<le> k \<and> k \<le> days_in_month m y
    \<and> calendar_days \<lparr>ymd_year = y, ymd_month = m, ymd_day = k\<rparr> = n"
proof -
  obtain c where c: "from_days n = Some c" "valid_ymd c" "calendar_days c = n" using from_days_calendar [OF assms] by auto
  have "new_local_date (DateDays n) = Inr (rust_new_day n)" using assms by (simp add: new_local_date_days minDay_def maxDay_def)
  moreover have "local_date_year (rust_new_day n) = Inr (JsInt (ymd_year c))" "local_date_month (rust_new_day n) = Inr (JsInt (ymd_month c))"
    "local_date_day (rust_new_day n) = Inr (JsInt (ymd_day c))"
    using assms c(1)
    by (simp_all add: rust_new_day_def local_date_year_def local_date_month_def local_date_day_def date_part_def max_js_date_def)
  moreover have "calendar_days \<lparr>ymd_year = ymd_year c, ymd_month = ymd_month c, ymd_day = ymd_day c\<rparr> = n" using c(3) by (cases c) simp
  ultimately show ?thesis using c(2) unfolding valid_ymd_def by blast
qed

theorem local_date_calendar_witness:
  "\<exists>d y m k. new_local_date (DateDays 20148) = Inr d \<and> local_date_year d = Inr (JsInt y)
    \<and> calendar_days \<lparr>ymd_year = y, ymd_month = m, ymd_day = k\<rparr> = 20148"
  using local_date_calendar [of 20148] by auto

text \<open>
  A date survives \<open>toBuffer\<close> followed by \<open>fromBuffer\<close>, for every 32-bit number of days, and \<open>toString\<close> followed by \<open>fromString\<close>
  from 1970 on and where the text is the number of days.
\<close>

theorem local_date_roundtrips:
  assumes "new_local_date (DateDays n) = Inr d"
  shows "(\<exists>bs. local_date_toBuffer d = Inr bs \<and> length bs = 4 \<and> local_date_fromBuffer bs = Inr d)
    \<and> (0 \<le> n \<or> n < - 100000000 \<longrightarrow> local_date_fromString (local_date_toString d) = Inr d)"
proof -
  have "minDay \<le> n" "n \<le> maxDay" "d = rust_new_day n" using assms by (auto simp: new_local_date_def split: if_splits)
  moreover from this have "ld_value d = n" by (simp add: rust_new_day_def)
  ultimately show ?thesis using date_buffer [of d] date_text [of d] by (auto simp: date_wf_def)
qed

theorem local_date_roundtrips_witness:
  "local_date_fromString (local_date_toString (rust_new_day 20148)) = Inr (rust_new_day 20148)"
  using local_date_roundtrips [of 20148 "rust_new_day 20148"] by (simp add: new_local_date_def minDay_def maxDay_def)

text \<open>
  A date given by year, month and day gets the day number of the calendar, except in the years from 0 to 1969 that come just before a
  leap year, where the number is one too large: 1 January 1967 gets the number of 2 January 1967.
\<close>

theorem local_date_before_leap_year:
  assumes "valid_ymd \<lparr>ymd_year = y, ymd_month = m, ymd_day = k\<rparr>" and "\<bar>y\<bar> \<le> 270000"
  shows "\<exists>d. new_local_date (DateYmd y m k) = Inr d
    \<and> ld_value d = calendar_days \<lparr>ymd_year = y, ymd_month = m, ymd_day = k\<rparr>
        + (if 0 \<le> y \<and> y < 1970 \<and> is_leap_year (y + 1) then 1 else 0)"
proof -
  let ?d = "\<lparr>ymd_year = y, ymd_month = m, ymd_day = k\<rparr>"
  have v: "to_days ?d = calendar_days ?d + (if 0 \<le> y \<and> y < 1970 \<and> is_leap_year (y + 1) then 1 else 0)"
    using to_days_value [OF assms(1)] assms(2) by simp
  have "\<bar>calendar_days ?d\<bar> \<le> 99999999"
  proof -
    have "\<bar>leaps (y - 1)\<bar> \<le> \<bar>y - 1\<bar>"
    proof (cases "1 \<le> y")
      case True
      then show ?thesis using leaps_bound [of "y - 1"] by simp
    next
      case False
      then show ?thesis using leaps_bound [of "- y"] leaps_neg [of "- y"] by simp
    qed
    moreover have "calendar_days ?d = 365 * y + leaps (y - 1) - 719527 + number_day ?d"
      by (simp add: calendar_number_day [OF assms(1)] year_start_def)
    moreover have "0 \<le> number_day ?d" "number_day ?d \<le> 396" using number_day_range [OF assms(1)] by simp_all
    moreover have "- 270000 \<le> y" "y \<le> 270000" using assms(2) by simp_all
    moreover from calculation have "leaps (y - 1) \<le> 270001" "- 270001 \<le> leaps (y - 1)" by (simp_all add: abs_le_iff) linarith+
    ultimately show ?thesis by (intro abs_leI) linarith+
  qed
  then have r: "- max_js_date \<le> to_days ?d \<and> to_days ?d \<le> max_js_date" using v by (auto simp: max_js_date_def abs_le_iff)
  have "ymd_new y m k = Inr ?d" using assms(1) by (simp add: ymd_new_def valid_ymd_def)
  then have "new_local_date (DateYmd y m k) = Inr \<lparr>ld_value = to_days ?d, ld_date = Some ?d, ld_in_date = True\<rparr>"
    using r by (simp add: new_local_date_def rust_date_new_def)
  then show ?thesis using v by simp
qed

theorem local_date_before_leap_year_witness:
  "\<exists>d. new_local_date (DateYmd 1967 1 1) = Inr d \<and> ld_value d = - 1095"
proof -
  have l: "is_leap_year 1968" "\<not> is_leap_year 1967" by code_simp+
  have "calendar_days \<lparr>ymd_year = 1967, ymd_month = 1, ymd_day = 1\<rparr> = - 1096" by code_simp
  then show ?thesis using local_date_before_leap_year [of 1967 1 1] l by (simp add: valid_ymd_def days_in_month_def)
qed

text \<open>The day number of 31 December of year 0 is read back as 30 December, and that of 1 January of year \<open>-3\<close> as 2 January.\<close>

lemma from_days_year_0: "from_days (- 719163) = Some \<lparr>ymd_year = 0, ymd_month = 12, ymd_day = 30\<rparr>"
  "calendar_days \<lparr>ymd_year = 0, ymd_month = 12, ymd_day = 31\<rparr> = - 719163"
  by code_simp+

lemma from_days_year_minus_3: "from_days (- 720623) = Some \<lparr>ymd_year = - 3, ymd_month = 1, ymd_day = 2\<rparr>"
  "calendar_days \<lparr>ymd_year = - 3, ymd_month = 1, ymd_day = 1\<rparr> = - 720623"
  by code_simp+

end
