(* ===== verification/Js_Double.thy ===== *)
theory Js_Double
  imports Node_Buffer
begin

text \<open>
  The numbers of JavaScript, as the codec reads and writes them: IEEE 754 doubles, kept as their 64 bits. A format has \<open>P\<close> bits of fraction
  and \<open>E\<close> bits of exponent; the code of a magnitude is its bits without the sign, so that codes are ordered as the magnitudes are. The
  same rounding function gives the double and the float nearest to a number, which may be an integer, a float or a decimal numeral.
\<close>

section \<open>Formats\<close>

definition fp_bias :: "nat \<Rightarrow> int" where
  "fp_bias E = 2 ^ (E - 1) - 1"

definition fp_inf :: "nat \<Rightarrow> nat \<Rightarrow> int" where
  "fp_inf P E = (2 ^ E - 1) * 2 ^ P"

text \<open>The magnitude of a code below infinity is \<open>m * 2 ^ k\<close>.\<close>

definition fp_unpack :: "nat \<Rightarrow> nat \<Rightarrow> int \<Rightarrow> int \<times> int" where
  "fp_unpack P E c =
    (let e = c div 2 ^ P; f = c mod 2 ^ P
     in if e = 0 then (f, 1 - fp_bias E - int P) else (f + 2 ^ P, e - fp_bias E - int P))"

text \<open>The number of binary digits.\<close>

function int_length :: "int \<Rightarrow> int" where
  "int_length n = (if n \<le> 0 then 0 else 1 + int_length (n div 2))"
  by pat_completeness auto
termination
  by (relation "measure nat") auto

declare int_length.simps [simp del]

text \<open>Division by a power of two, to the nearest integer, ties to even.\<close>

definition round_half_even :: "int \<Rightarrow> nat \<Rightarrow> int" where
  "round_half_even m j =
    (let q = m div 2 ^ j; r = m mod 2 ^ j in if 2 * r > 2 ^ j \<or> (2 * r = 2 ^ j \<and> odd q) then q + 1 else q)"

text \<open>The code nearest to \<open>m * 2 ^ k\<close>; \<open>s\<close> is the exponent of the last place.\<close>

definition fp_round :: "nat \<Rightarrow> nat \<Rightarrow> int \<Rightarrow> int \<Rightarrow> int" where
  "fp_round P E m k =
    (if m = 0 then 0
     else let e = max (int_length m - 1 + k) (1 - fp_bias E);
              s = e - int P;
              q = (if s \<le> k then m * 2 ^ nat (k - s) else round_half_even m (nat (s - k)))
          in min ((e + fp_bias E - 1) * 2 ^ P + q) (fp_inf P E))"

subsection \<open>Lengths of binary numerals\<close>

lemma int_length_bounds: "0 < m \<Longrightarrow> \<exists>n. int_length m = int (Suc n) \<and> 2 ^ n \<le> m \<and> m < 2 ^ Suc n"
proof (induction m rule: int_length.induct)
  case (1 m)
  show ?case
  proof (cases "m div 2 = 0")
    case True
    then have "m = 1" using 1 by linarith
    moreover have "int_length 1 = 1" by (simp add: int_length.simps [of 1] int_length.simps [of 0])
    ultimately show ?thesis by (intro exI [of _ 0]) simp
  next
    case False
    then have "0 < m div 2" using 1 by linarith
    then obtain n where n: "int_length (m div 2) = int (Suc n)" "2 ^ n \<le> m div 2" "m div 2 < 2 ^ Suc n" using 1 by auto
    moreover have "int_length m = 1 + int_length (m div 2)" using 1 by (simp add: int_length.simps [of m])
    moreover from n have "2 ^ Suc n \<le> m" "m < 2 ^ Suc (Suc n)" by auto
    ultimately show ?thesis by (intro exI [of _ "Suc n"]) simp
  qed
qed

lemma int_length_eq: "2 ^ n \<le> m \<Longrightarrow> m < 2 ^ Suc n \<Longrightarrow> int_length m = int (Suc n)"
proof -
  assume h: "2 ^ n \<le> m" "m < 2 ^ Suc n"
  then have "0 < m" using less_le_trans [of 0 "2 ^ n" m] by simp
  then obtain l where l: "int_length m = int (Suc l)" "2 ^ l \<le> m" "m < 2 ^ Suc l" using int_length_bounds by blast
  have "\<not> l < n" using l(3) h(1) power_increasing [of "Suc l" n "2 :: int"] by fastforce
  moreover have "\<not> n < l" using l(2) h(2) power_increasing [of "Suc n" l "2 :: int"] by fastforce
  ultimately show ?thesis using l(1) by simp
qed

lemma int_length_le: "0 < m \<Longrightarrow> m < 2 ^ n \<Longrightarrow> int_length m \<le> int n"
proof -
  assume h: "0 < m" "m < 2 ^ n"
  then obtain l where l: "int_length m = int (Suc l)" "2 ^ l \<le> m" using int_length_bounds by blast
  have "\<not> n \<le> l" using l(2) h(2) power_increasing [of n l "2 :: int"] by fastforce
  then show ?thesis using l(1) by simp
qed

lemma int_length_pos: "0 < m \<Longrightarrow> 0 < int_length m"
  using int_length_bounds [of m] by auto

lemma int_length_shift: "0 < m \<Longrightarrow> int_length (m * 2 ^ j) = int_length m + int j"
proof -
  assume "0 < m"
  then obtain n where n: "int_length m = int (Suc n)" "2 ^ n \<le> m" "m < 2 ^ Suc n" using int_length_bounds by blast
  have "2 ^ (n + j) \<le> m * 2 ^ j" "m * 2 ^ j < 2 ^ Suc (n + j)" using n by (simp_all add: power_add)
  then show ?thesis using n(1) int_length_eq [of "n + j" "m * 2 ^ j"] by simp
qed

subsection \<open>Rounding depends on the number only\<close>

lemma round_half_even_shift: "round_half_even (m * 2 ^ j) (i + j) = round_half_even m i"
proof -
  have "m * 2 ^ j div 2 ^ (i + j) = m div 2 ^ i" by (simp add: power_add)
  moreover have "m * 2 ^ j mod 2 ^ (i + j) = (m mod 2 ^ i) * 2 ^ j" by (simp add: power_add mult_mod_left)
  moreover have "2 * ((m mod 2 ^ i) * 2 ^ j) > 2 ^ (i + j) \<longleftrightarrow> 2 * (m mod 2 ^ i) > 2 ^ i"
    "2 * ((m mod 2 ^ i) * 2 ^ j) = 2 ^ (i + j) \<longleftrightarrow> 2 * (m mod 2 ^ i) = 2 ^ i"
    by (simp_all add: power_add mult.assoc [symmetric])
  ultimately show ?thesis by (simp add: round_half_even_def Let_def)
qed

lemma round_half_even_exact: "i \<le> j \<Longrightarrow> round_half_even (m * 2 ^ j) i = m * 2 ^ (j - i)"
proof -
  assume "i \<le> j"
  then have "(2 :: int) ^ j = 2 ^ (j - i) * 2 ^ i" by (simp flip: power_add)
  then show ?thesis by (simp add: round_half_even_def mult.assoc [symmetric])
qed

lemma fp_round_shift:
  assumes "0 \<le> m"
  shows "fp_round P E (m * 2 ^ j) k = fp_round P E m (k + int j)"
proof (cases "m = 0")
  case False
  then have m: "0 < m" using assms by simp
  define e where "e = max (int_length m - 1 + (k + int j)) (1 - fp_bias E)"
  define s where "s = e - int P"
  have e: "max (int_length (m * 2 ^ j) - 1 + k) (1 - fp_bias E) = e"
    using m by (simp add: e_def int_length_shift algebra_simps)
  have q: "(if s \<le> k then m * 2 ^ j * 2 ^ nat (k - s) else round_half_even (m * 2 ^ j) (nat (s - k)))
    = (if s \<le> k + int j then m * 2 ^ nat (k + int j - s) else round_half_even m (nat (s - (k + int j))))"
  proof -
    consider "s \<le> k" | "k < s" "s \<le> k + int j" | "k + int j < s" by linarith
    then show ?thesis
    proof cases
      case 1
      then have "nat (k + int j - s) = j + nat (k - s)" by linarith
      then show ?thesis using 1 by (simp add: power_add mult.assoc)
    next
      case 2
      then have "nat (k + int j - s) = j - nat (s - k)" "nat (s - k) \<le> j" by linarith+
      then show ?thesis using 2 round_half_even_exact [of "nat (s - k)" j m] by simp
    next
      case 3
      then have "nat (s - k) = nat (s - (k + int j)) + j" by linarith
      then show ?thesis using 3 round_half_even_shift [of m j "nat (s - (k + int j))"] by simp
    qed
  qed
  show ?thesis using m unfolding fp_round_def e Let_def e_def [symmetric] s_def [symmetric] q by simp
qed (simp add: fp_round_def)

subsection \<open>Codes are exact\<close>

text \<open>A number with at most \<open>P + 1\<close> significant bits within the normal range is the magnitude of its code.\<close>

lemma fp_round_normal:
  assumes "0 < m" and "m < 2 ^ Suc P" and "1 - fp_bias E \<le> int_length m - 1 + k"
    and "int_length m - 1 + k \<le> fp_bias E" and "1 < E"
  shows "\<exists>j. fp_unpack P E (fp_round P E m k) = (m * 2 ^ j, k - int j)"
    and "0 \<le> fp_round P E m k \<and> fp_round P E m k < fp_inf P E"
proof -
  obtain n where n: "int_length m = int (Suc n)" "2 ^ n \<le> m" "m < 2 ^ Suc n" using int_length_bounds [OF assms(1)] by blast
  have nP: "n \<le> P" using int_length_le [OF assms(1,2)] n(1) by simp
  define j where "j = P - n"
  define e where "e = int n + k"
  define q where "q = m * 2 ^ j"
  have q: "2 ^ P \<le> q" "q < 2 ^ Suc P"
  proof -
    have "(2 :: int) ^ P = 2 ^ n * 2 ^ j" "(2 :: int) ^ Suc P = 2 ^ Suc n * 2 ^ j"
      using nP by (simp_all add: j_def flip: power_add)
    then show "2 ^ P \<le> q" "q < 2 ^ Suc P" using n by (simp_all add: q_def)
  qed
  define x where "x = e + fp_bias E"
  have x: "1 \<le> x" "x \<le> 2 ^ E - 2"
  proof -
    show "1 \<le> x" using assms(3) n(1) by (simp add: x_def e_def)
    have "2 * fp_bias E = 2 ^ E - 2" using assms(5) by (cases E) (simp_all add: fp_bias_def)
    then show "x \<le> 2 ^ E - 2" using assms(4) n(1) by (simp add: x_def e_def)
  qed
  have lt: "x * 2 ^ P + (q - 2 ^ P) < fp_inf P E"
  proof -
    have "x * 2 ^ P + (q - 2 ^ P) < (x + 1) * 2 ^ P" using q by (simp add: algebra_simps)
    also have "\<dots> \<le> (2 ^ E - 1) * 2 ^ P" using x by (intro mult_right_mono) simp_all
    finally show ?thesis by (simp add: fp_inf_def)
  qed
  have k: "nat (k - (e - int P)) = j" "e - int P \<le> k" using nP by (simp_all add: e_def j_def)
  have m: "max (int_length m - 1 + k) (1 - fp_bias E) = e" using assms(3) n(1) by (simp add: e_def)
  have "(e + fp_bias E - 1) * 2 ^ P + q = x * 2 ^ P + (q - 2 ^ P)" by (simp add: x_def algebra_simps)
  then have r: "fp_round P E m k = x * 2 ^ P + (q - 2 ^ P)"
    using assms(1) k lt unfolding fp_round_def m by (simp add: Let_def q_def)
  have "0 \<le> x * 2 ^ P" using x(1) by simp
  then show "0 \<le> fp_round P E m k \<and> fp_round P E m k < fp_inf P E" using lt q(1) unfolding r by linarith
  have "0 \<le> q - 2 ^ P" "q - 2 ^ P < 2 ^ P" using q by simp_all
  then have d: "(x * 2 ^ P + (q - 2 ^ P)) div 2 ^ P = x" "(x * 2 ^ P + (q - 2 ^ P)) mod 2 ^ P = q - 2 ^ P"
    by (rule base_split)+
  have "x - fp_bias E - int P = k - int j" using nP by (simp add: x_def e_def j_def)
  then show "\<exists>j. fp_unpack P E (fp_round P E m k) = (m * 2 ^ j, k - int j)"
    using x(1) unfolding r fp_unpack_def d Let_def q_def [symmetric] by (intro exI [of _ j]) (simp add: q_def)
qed

text \<open>Rounding the magnitude of a code gives the code.\<close>

lemma fp_round_unpack:
  assumes "0 \<le> c" and "c < fp_inf P E" and "fp_unpack P E c = (m, k)"
  shows "fp_round P E m k = c"
proof (cases "c div 2 ^ P = 0")
  case True
  then have lt: "c < 2 ^ P" using pos_imp_zdiv_pos_iff [of "2 ^ P" c] by simp
  then have c: "m = c" "k = 1 - fp_bias E - int P" "c < 2 ^ P" using True assms(1,3) by (auto simp: fp_unpack_def)
  show ?thesis
  proof (cases "c = 0")
    case False
    then have "int_length c \<le> int P" using int_length_le c(3) assms(1) by simp
    then have "max (int_length m - 1 + k) (1 - fp_bias E) = 1 - fp_bias E" using c by simp
    then show ?thesis using c False assms(2) unfolding fp_round_def by (simp add: Let_def)
  qed (simp add: c fp_round_def)
next
  case False
  define e where "e = c div 2 ^ P"
  have e: "1 \<le> e" using False assms(1) pos_imp_zdiv_nonneg_iff [of "2 ^ P" c] by (simp add: e_def)
  have m: "m = c mod 2 ^ P + 2 ^ P" "k = e - fp_bias E - int P" using False assms(3) by (auto simp: fp_unpack_def e_def)
  have mb: "2 ^ P \<le> m" "m < 2 ^ Suc P" by (simp_all add: m)
  then have b: "int_length m = int (Suc P)" by (rule int_length_eq)
  have n: "max (int_length m - 1 + k) (1 - fp_bias E) = e - fp_bias E" using e by (simp add: b m(2) max_def)
  have "(e - 1) * 2 ^ P + m = c"
  proof -
    have "e * 2 ^ P + c mod 2 ^ P = c" unfolding e_def by (rule div_mult_mod_eq)
    then show ?thesis by (simp add: m(1) algebra_simps)
  qed
  moreover have "0 < m" using mb(1) less_le_trans [of 0 "2 ^ P" m] by simp
  ultimately show ?thesis using assms(2) m(2) unfolding fp_round_def n by (simp add: Let_def)
qed

section \<open>Doubles\<close>

type_synonym js_double = "64 word"

definition num_negative :: "js_double \<Rightarrow> bool" where
  "num_negative w \<longleftrightarrow> 2 ^ 63 \<le> uint w"

definition num_code :: "js_double \<Rightarrow> int" where
  "num_code w = uint w mod 2 ^ 63"

definition make_num :: "bool \<Rightarrow> int \<Rightarrow> js_double" where
  "make_num neg c = word_of_int ((if neg then 2 ^ 63 else 0) + c)"

definition js_NaN :: js_double where
  "js_NaN = make_num False (fp_inf 52 11 + 2 ^ 51)"

definition num_isNaN :: "js_double \<Rightarrow> bool" where
  "num_isNaN w \<longleftrightarrow> fp_inf 52 11 < num_code w"

definition num_isFinite :: "js_double \<Rightarrow> bool" where
  "num_isFinite w \<longleftrightarrow> num_code w < fp_inf 52 11"

text \<open>The double nearest to a number with a sign.\<close>

definition num_of :: "bool \<Rightarrow> int \<Rightarrow> int \<Rightarrow> js_double" where
  "num_of neg m k = make_num neg (fp_round 52 11 m k)"

definition num_of_int :: "int \<Rightarrow> js_double" where
  "num_of_int i = num_of (i < 0) \<bar>i\<bar> 0"

text \<open>The integers around a finite double: towards zero, down and up.\<close>

definition trunc_mag :: "int \<times> int \<Rightarrow> int" where
  "trunc_mag x = (case x of (m, k) \<Rightarrow> if 0 \<le> k then m * 2 ^ nat k else m div 2 ^ nat (- k))"

definition ceil_mag :: "int \<times> int \<Rightarrow> int" where
  "ceil_mag x = (case x of (m, k) \<Rightarrow> if 0 \<le> k then m * 2 ^ nat k else (m + 2 ^ nat (- k) - 1) div 2 ^ nat (- k))"

definition num_trunc :: "js_double \<Rightarrow> int" where
  "num_trunc w = (let t = trunc_mag (fp_unpack 52 11 (num_code w)) in if num_negative w then - t else t)"

definition num_floor :: "js_double \<Rightarrow> int" where
  "num_floor w =
    (let x = fp_unpack 52 11 (num_code w) in if num_negative w then - ceil_mag x else trunc_mag x)"

definition num_ceil :: "js_double \<Rightarrow> int" where
  "num_ceil w =
    (let x = fp_unpack 52 11 (num_code w) in if num_negative w then - trunc_mag x else ceil_mag x)"

text \<open>The number as the integer classes see it.\<close>

definition num_js_number :: "js_double \<Rightarrow> js_number" where
  "num_js_number w = (if num_isNaN w then JsNaN else if num_isFinite w then JsInt (num_trunc w) else JsInfinity)"

text \<open>\<open>writeInt32BE\<close> and its kin on a number that is not \<open>NaN\<close>: the range is checked on the number, then the integer part is written.\<close>

definition write_number :: "nat \<Rightarrow> js_double \<Rightarrow> buffer result" where
  "write_number n w =
    (if num_isFinite w \<and> num_ceil w < 2 ^ (8 * n - 1) \<and> - (2 ^ (8 * n - 1)) \<le> num_floor w
     then Inr (be_bytes n (num_trunc w)) else Inl RangeError)"

definition writeDoubleBE :: "js_double \<Rightarrow> buffer" where
  "writeDoubleBE w = be_bytes 8 (uint w)"

definition readDoubleBE :: "buffer \<Rightarrow> nat \<Rightarrow> js_double result" where
  "readDoubleBE buf off =
    bind_result (readUIntBE 8 buf off) (\<lambda>n. let w = word_of_int n in Inr (if num_isNaN w then js_NaN else w))"

text \<open>Floats: 32 bits, 23 of fraction and 8 of exponent.\<close>

definition float_negative :: "32 word \<Rightarrow> bool" where
  "float_negative x \<longleftrightarrow> 2 ^ 31 \<le> uint x"

definition float_code :: "32 word \<Rightarrow> int" where
  "float_code x = uint x mod 2 ^ 31"

definition make_float :: "bool \<Rightarrow> int \<Rightarrow> 32 word" where
  "make_float neg c = word_of_int ((if neg then 2 ^ 31 else 0) + c)"

definition float_to_num :: "32 word \<Rightarrow> js_double" where
  "float_to_num x =
    (let c = float_code x
     in if fp_inf 23 8 < c then js_NaN
        else if c = fp_inf 23 8 then make_num (float_negative x) (fp_inf 52 11)
        else case fp_unpack 23 8 c of (m, k) \<Rightarrow> num_of (float_negative x) m k)"

definition num_to_float :: "js_double \<Rightarrow> 32 word" where
  "num_to_float w =
    (if num_isNaN w then make_float False (fp_inf 23 8 + 2 ^ 22)
     else if \<not> num_isFinite w then make_float (num_negative w) (fp_inf 23 8)
     else case fp_unpack 52 11 (num_code w) of (m, k) \<Rightarrow> make_float (num_negative w) (fp_round 23 8 m k))"

definition writeFloatBE :: "js_double \<Rightarrow> buffer" where
  "writeFloatBE w = be_bytes 4 (uint (num_to_float w))"

definition readFloatBE :: "buffer \<Rightarrow> nat \<Rightarrow> js_double result" where
  "readFloatBE buf off = bind_result (readUIntBE 4 buf off) (\<lambda>n. Inr (float_to_num (word_of_int n)))"

subsection \<open>Bits\<close>

lemma fp_inf_values: "fp_inf 52 11 = 9218868437227405312" "fp_inf 23 8 = 2139095040"
  by (simp_all add: fp_inf_def)

lemma sign_split: "0 \<le> v \<Longrightarrow> v < 2 * b \<Longrightarrow> v mod b = (if b \<le> v then v - b else v)" for b :: int
proof -
  assume v: "0 \<le> v" "v < 2 * b"
  show ?thesis
  proof (cases "b \<le> v")
    case True
    then have "v mod b = (v - b) mod b" by simp
    also have "\<dots> = v - b" using True v by (intro mod_pos_pos_trivial) linarith+
    finally show ?thesis using True by simp
  qed (use v in simp)
qed

lemma uint_make_num: "0 \<le> c \<Longrightarrow> c < 2 ^ 63 \<Longrightarrow> uint (make_num neg c) = (if neg then 2 ^ 63 else 0) + c"
  unfolding make_num_def uint_word_of_int_eq by (intro take_bit_int_eq_self) auto

lemma uint_make_float: "0 \<le> c \<Longrightarrow> c < 2 ^ 31 \<Longrightarrow> uint (make_float neg c) = (if neg then 2 ^ 31 else 0) + c"
  unfolding make_float_def uint_word_of_int_eq by (intro take_bit_int_eq_self) auto

lemma make_num_parts:
  assumes "0 \<le> c" and "c < 2 ^ 63"
  shows "num_code (make_num neg c) = c" and "num_negative (make_num neg c) = neg"
  using assms by (simp_all add: num_code_def num_negative_def uint_make_num)

lemma make_num_code: "make_num (num_negative w) (num_code w) = w"
proof -
  have u: "0 \<le> uint w" "uint w < 2 * 2 ^ 63" using uint_lt2p [of w] by simp_all
  then have "(if num_negative w then 2 ^ 63 else 0) + num_code w = uint w"
    unfolding num_code_def num_negative_def sign_split [OF u] by simp
  then show ?thesis unfolding make_num_def by simp
qed

lemma make_float_code: "make_float (float_negative x) (float_code x) = x"
proof -
  have u: "0 \<le> uint x" "uint x < 2 * 2 ^ 31" using uint_lt2p [of x] by simp_all
  then have "(if float_negative x then 2 ^ 31 else 0) + float_code x = uint x"
    unfolding float_code_def float_negative_def sign_split [OF u] by simp
  then show ?thesis unfolding make_float_def by simp
qed

subsection \<open>Exact conversions\<close>

lemma readDoubleBE_write: "readDoubleBE (xs @ writeDoubleBE w @ ys) (length xs) = Inr (if num_isNaN w then js_NaN else w)"
proof -
  have "uint w mod 256 ^ 8 = uint w" using uint_lt2p [of w] by simp
  then show ?thesis by (simp add: readDoubleBE_def writeDoubleBE_def readUIntBE_def be_uint_be_bytes)
qed

lemma js_NaN_isNaN: "num_isNaN js_NaN"
  by (simp add: js_NaN_def num_isNaN_def make_num_parts fp_inf_values)

text \<open>An integer of at most 53 bits.\<close>

lemma num_of_small:
  assumes "0 \<le> m" and "m \<le> 2 ^ 53"
  shows "\<exists>j. fp_unpack 52 11 (num_code (num_of neg m 0)) = (m * 2 ^ j, - int j) \<or>
      fp_unpack 52 11 (num_code (num_of neg m 0)) = (2 ^ 52, 1) \<and> m = 2 ^ 53"
    and "num_isFinite (num_of neg m 0)" and "num_negative (num_of neg m 0) = neg"
proof -
  have bias: "fp_bias 11 = 1023" by (simp add: fp_bias_def)
  let ?r = "fp_round 52 11 m 0"
  have *: "(\<exists>j. fp_unpack 52 11 ?r = (m * 2 ^ j, - int j) \<or> fp_unpack 52 11 ?r = (2 ^ 52, 1) \<and> m = 2 ^ 53) \<and> 0 \<le> ?r \<and> ?r < fp_inf 52 11"
  proof (cases "m = 0")
    case True
    then have "fp_unpack 52 11 ?r = (m * 2 ^ 1074, - int 1074)" "?r = 0"
      by (simp_all add: fp_round_def fp_unpack_def bias)
    then show ?thesis using fp_inf_values(1) by (metis order_refl zero_less_numeral)
  next
    case False
    show ?thesis
    proof (cases "m = 2 ^ 53")
      case True
      have "fp_unpack 52 11 (fp_round 52 11 (2 ^ 53) 0) = (2 ^ 52, 1)" "0 \<le> fp_round 52 11 (2 ^ 53) 0" "fp_round 52 11 (2 ^ 53) 0 < fp_inf 52 11"
        by code_simp+
      then show ?thesis using True by blast
    next
      case m53: False
      then have m: "0 < m" "m < 2 ^ 53" using assms False by auto
      have "int_length m \<le> 53" using int_length_le [OF m(1), of 53] m(2) by simp
      then show ?thesis using fp_round_normal [of m 52 11 0] int_length_pos [OF m(1)] m by (auto simp: bias)
    qed
  qed
  then have "0 \<le> ?r" "?r < 2 ^ 63" by (simp_all add: fp_inf_values)
  note p = make_num_parts [OF this]
  from * show "\<exists>j. fp_unpack 52 11 (num_code (num_of neg m 0)) = (m * 2 ^ j, - int j) \<or>
      fp_unpack 52 11 (num_code (num_of neg m 0)) = (2 ^ 52, 1) \<and> m = 2 ^ 53"
    and "num_isFinite (num_of neg m 0)" and "num_negative (num_of neg m 0) = neg"
    unfolding num_of_def num_isFinite_def p by auto
qed

lemma mag_exact: "trunc_mag (m * 2 ^ j, - int j) = m" "ceil_mag (m * 2 ^ j, - int j) = m"
proof -
  show "trunc_mag (m * 2 ^ j, - int j) = m" by (cases "j = 0") (simp_all add: trunc_mag_def)
  have "(m * 2 ^ j + 2 ^ j - 1) div 2 ^ j = m"
  proof -
    have "m * 2 ^ j + 2 ^ j - 1 = m * 2 ^ j + (2 ^ j - 1)" by simp
    moreover have "(m * 2 ^ j + (2 ^ j - 1)) div 2 ^ j = m" by (rule base_split(2)) simp_all
    ultimately show ?thesis by (simp only:)
  qed
  then show "ceil_mag (m * 2 ^ j, - int j) = m" by (cases "j = 0") (simp_all add: ceil_mag_def)
qed

lemma num_of_int_exact:
  assumes "\<bar>i\<bar> \<le> 2 ^ 53"
  shows "num_isFinite (num_of_int i)" and "num_trunc (num_of_int i) = i" and "num_floor (num_of_int i) = i" and "num_ceil (num_of_int i) = i"
    and "\<not> num_isNaN (num_of_int i)"
proof -
  note s = num_of_small [OF abs_ge_zero assms, of "i < 0"]
  have "trunc_mag (fp_unpack 52 11 (num_code (num_of_int i))) = \<bar>i\<bar> \<and> ceil_mag (fp_unpack 52 11 (num_code (num_of_int i))) = \<bar>i\<bar>"
    using s(1) mag_exact by (auto simp: num_of_int_def) (simp_all add: trunc_mag_def ceil_mag_def)
  then show "num_trunc (num_of_int i) = i" and "num_floor (num_of_int i) = i" and "num_ceil (num_of_int i) = i"
    using s(3) by (auto simp: num_of_int_def num_trunc_def num_floor_def num_ceil_def Let_def)
  show "num_isFinite (num_of_int i)" using s(2) by (simp add: num_of_int_def)
  then show "\<not> num_isNaN (num_of_int i)" by (simp add: num_isFinite_def num_isNaN_def)
qed

lemma write_number_int: "\<bar>i\<bar> \<le> 2 ^ 53 \<Longrightarrow> write_number n (num_of_int i) = writeIntBE n i"
  using num_of_int_exact [of i] by (simp add: write_number_def writeIntBE_def conj_commute)

text \<open>A float is a double: widening is exact, and narrowing gives it back.\<close>

lemma float_fits:
  assumes "0 \<le> c" and "c < fp_inf 23 8" and u: "fp_unpack 23 8 c = (m, k)"
  shows "0 \<le> fp_round 52 11 m k \<and> fp_round 52 11 m k < fp_inf 52 11"
    and "(case fp_unpack 52 11 (fp_round 52 11 m k) of (m, k) \<Rightarrow> fp_round 23 8 m k) = c"
proof -
  have b: "fp_bias 8 = 127" "fp_bias 11 = 1023" by (simp_all add: fp_bias_def)
  have bk: "fp_round 23 8 m k = c" using fp_round_unpack [OF assms] .
  have e: "0 \<le> c div 2 ^ 23" "c div 2 ^ 23 < 255" using assms(1,2) by (simp_all add: fp_inf_values)
  have f: "0 \<le> c mod 2 ^ 23" "c mod 2 ^ 23 < 2 ^ 23" by simp_all
  have mk: "0 \<le> m" "m < 2 ^ 24" "- 149 \<le> k" "k \<le> 104"
    using u e f unfolding fp_unpack_def b Let_def by (auto split: if_splits)
  have "(0 \<le> fp_round 52 11 m k \<and> fp_round 52 11 m k < fp_inf 52 11)
    \<and> (\<exists>j. fp_unpack 52 11 (fp_round 52 11 m k) = (m * 2 ^ j, k - int j) \<or> m = 0 \<and> fst (fp_unpack 52 11 (fp_round 52 11 m k)) = 0)"
  proof (cases "m = 0")
    case True
    then show ?thesis by (simp add: fp_round_def fp_inf_values fp_unpack_def)
  next
    case False
    then have m: "0 < m" using mk(1) by simp
    have "int_length m \<le> 24" using int_length_le [OF m, of 24] mk(2) by simp
    then show ?thesis using fp_round_normal [of m 52 11 k] m mk int_length_pos [OF m] by (auto simp: b)
  qed
  then show "0 \<le> fp_round 52 11 m k \<and> fp_round 52 11 m k < fp_inf 52 11"
    and "(case fp_unpack 52 11 (fp_round 52 11 m k) of (m, k) \<Rightarrow> fp_round 23 8 m k) = c"
    using bk fp_round_shift [OF mk(1)] by (auto split: prod.splits) (auto simp: fp_round_def)
qed

lemma float_num_roundtrip:
  assumes "\<not> num_isNaN (float_to_num x)"
  shows "num_to_float (float_to_num x) = x"
proof -
  define c where "c = float_code x"
  have c: "0 \<le> c" by (simp add: c_def float_code_def)
  have x: "make_float (float_negative x) c = x" by (simp add: c_def make_float_code)
  consider "fp_inf 23 8 < c" | "c = fp_inf 23 8" | "c < fp_inf 23 8" by linarith
  then show ?thesis
  proof cases
    case 1
    then show ?thesis using assms js_NaN_isNaN by (simp add: float_to_num_def c_def [symmetric])
  next
    case 2
    then show ?thesis using x by (simp add: float_to_num_def num_to_float_def c_def [symmetric] num_isNaN_def num_isFinite_def make_num_parts fp_inf_values)
  next
    case 3
    obtain m k where u: "fp_unpack 23 8 c = (m, k)" by (cases "fp_unpack 23 8 c")
    note fits = float_fits [OF c 3 u]
    have p: "num_code (make_num (float_negative x) (fp_round 52 11 m k)) = fp_round 52 11 m k"
      "num_negative (make_num (float_negative x) (fp_round 52 11 m k)) = float_negative x"
      using make_num_parts [of "fp_round 52 11 m k"] fits(1) by (simp_all add: fp_inf_values)
    then show ?thesis using 3 fits x u
      by (simp add: float_to_num_def num_to_float_def c_def [symmetric] num_of_def num_isNaN_def num_isFinite_def p split: prod.splits)
  qed
qed

lemma readFloatBE_write: "readFloatBE (xs @ writeFloatBE w @ ys) (length xs) = Inr (float_to_num (num_to_float w))"
proof -
  have "uint (num_to_float w) mod 256 ^ 4 = uint (num_to_float w)" using uint_lt2p [of "num_to_float w"] by simp
  then show ?thesis by (simp add: readFloatBE_def writeFloatBE_def readUIntBE_def be_uint_be_bytes)
qed

end
