(* ===== verification/Js_Numerals.thy ===== *)
theory Js_Numerals
  imports Js_Double Big_Decimal
begin

text \<open>
  Numbers and their texts: the numerals \<open>parseFloat\<close>, \<open>Number\<close> and \<open>BigInt\<close> read, the text of a number (the shortest decimal that reads as the
  same double), \<open>toFixed\<close>, and \<open>BigDecimal.fromNumber\<close> of \<^verbatim>\<open>src/lib/types/big-decimal.js\<close>, which goes through them.
\<close>

section \<open>Reading\<close>

text \<open>The double nearest to \<open>n / d\<close>: the quotient to 65 bits or more, with a last bit that tells whether something is left.\<close>

definition num_of_ratio :: "bool \<Rightarrow> int \<Rightarrow> int \<Rightarrow> js_double" where
  "num_of_ratio neg n d =
    (if n = 0 then make_num neg 0
     else let s = nat (max 0 (int_length d - int_length n + 66)); q = n * 2 ^ s div d; r = n * 2 ^ s mod d
          in num_of neg (2 * q + (if r = 0 then 0 else 1)) (- int s - 1))"

definition num_of_decimal :: "bool \<Rightarrow> int \<Rightarrow> int \<Rightarrow> js_double" where
  "num_of_decimal neg m e = (if 0 \<le> e then num_of_ratio neg (m * 10 ^ nat e) 1 else num_of_ratio neg m (10 ^ nat (- e)))"

definition num_value :: "nat \<Rightarrow> string \<Rightarrow> int" where
  "num_value radix ds = foldl (\<lambda>acc c. acc * int radix + int (digit_num c)) 0 ds"

definition take_sign :: "string \<Rightarrow> bool \<times> string" where
  "take_sign s = (if s \<noteq> [] \<and> hd s = CHR ''-'' then (True, tl s) else if s \<noteq> [] \<and> hd s = CHR ''+'' then (False, tl s) else (False, s))"

text \<open>The exponent part at the start of a text, if there is one.\<close>

definition scan_exponent :: "string \<Rightarrow> int \<times> string" where
  "scan_exponent s =
    (if s \<noteq> [] \<and> hd s \<in> {CHR ''e'', CHR ''E''} then
       let (neg, t) = take_sign (tl s); ds = takeWhile (is_digit 10) t
       in if ds = [] then (0, s) else (if neg then - num_value 10 ds else num_value 10 ds, dropWhile (is_digit 10) t)
     else (0, s))"

text \<open>The decimal numeral at the start of a text: its digits as an integer, the power of ten, and what follows.\<close>

definition scan_decimal :: "string \<Rightarrow> ((int \<times> int) \<times> string) option" where
  "scan_decimal s =
    (let ip = takeWhile (is_digit 10) s; r = dropWhile (is_digit 10) s;
         dot = (r \<noteq> [] \<and> hd r = CHR ''.'');
         fp = (if dot then takeWhile (is_digit 10) (tl r) else []);
         r2 = (if dot then dropWhile (is_digit 10) (tl r) else r)
     in if ip = [] \<and> fp = [] then None
        else let (e, r3) = scan_exponent r2 in Some ((num_value 10 (ip @ fp), e - int (length fp)), r3))"

definition js_Infinity :: "bool \<Rightarrow> js_double" where
  "js_Infinity neg = make_num neg (fp_inf 52 11)"

definition js_parseFloat :: "string \<Rightarrow> js_double" where
  "js_parseFloat s =
    (let (neg, t) = take_sign (dropWhile is_js_space s)
     in if take 8 t = ''Infinity'' then js_Infinity neg
        else case scan_decimal t of None \<Rightarrow> js_NaN | Some ((m, e), r) \<Rightarrow> num_of_decimal neg m e)"

text \<open>Digits after \<open>0x\<close>, \<open>0o\<close> or \<open>0b\<close>.\<close>

definition prefixed_digits :: "string \<Rightarrow> (nat \<times> string) option" where
  "prefixed_digits s =
    (let p = map js_lower (take 2 s) in
     if p = ''0x'' then Some (16, drop 2 s) else if p = ''0o'' then Some (8, drop 2 s) else if p = ''0b'' then Some (2, drop 2 s) else None)"

definition js_Number_text :: "string \<Rightarrow> js_double" where
  "js_Number_text s =
    (let t = js_trim s in
     if t = [] then make_num False 0
     else case prefixed_digits t of
       Some (radix, ds) \<Rightarrow> if ds \<noteq> [] \<and> list_all (is_digit radix) ds then num_of_ratio False (num_value radix ds) 1 else js_NaN
     | None \<Rightarrow>
         let (neg, u) = take_sign t
         in if u = ''Infinity'' then js_Infinity neg
            else case scan_decimal u of Some ((m, e), []) \<Rightarrow> num_of_decimal neg m e | _ \<Rightarrow> js_NaN)"

text \<open>\<open>BigInt\<close> of a text: an integer numeral, or a \<open>SyntaxError\<close>.\<close>

definition js_BigInt_text :: "string \<Rightarrow> int result" where
  "js_BigInt_text s =
    (let t = js_trim s in
     if t = [] then Inr 0
     else case prefixed_digits t of
       Some (radix, ds) \<Rightarrow> if ds \<noteq> [] \<and> list_all (is_digit radix) ds then Inr (num_value radix ds) else Inl SyntaxErr
     | None \<Rightarrow>
         let (neg, ds) = take_sign t
         in if ds \<noteq> [] \<and> list_all (is_digit 10) ds then Inr (if neg then - num_value 10 ds else num_value 10 ds) else Inl SyntaxErr)"

text \<open>\<open>BigInt\<close> of a number: a \<open>RangeError\<close> unless it is an integer.\<close>

definition js_BigInt_number :: "js_double \<Rightarrow> int result" where
  "js_BigInt_number w = (if num_isFinite w \<and> num_floor w = num_ceil w then Inr (num_trunc w) else Inl RangeError)"

section \<open>Printing\<close>

function int_text :: "int \<Rightarrow> string" where
  "int_text i = (if i < 10 then [digit_char (nat i)] else int_text (i div 10) @ [digit_char (nat (i mod 10))])"
  by pat_completeness auto
termination
  by (relation "measure nat") auto

declare int_text.simps [simp del]

text \<open>A positive finite double as a ratio.\<close>

definition num_ratio :: "js_double \<Rightarrow> int \<times> int" where
  "num_ratio w = (case fp_unpack 52 11 (num_code w) of (m, k) \<Rightarrow> if 0 \<le> k then (m * 2 ^ nat k, 1) else (m, 2 ^ nat (- k)))"

text \<open>The \<open>n\<close> with \<open>10 ^ (n - 1) \<le> a / b < 10 ^ n\<close>.\<close>

definition decimal_exponent :: "int \<Rightarrow> int \<Rightarrow> int" where
  "decimal_exponent a b =
    (if b \<le> a then int (length (int_text (a div b))) else 1 - int (length (int_text ((b - 1) div a))))"

text \<open>The numerals of \<open>k\<close> digits around \<open>a / b\<close>, with the exponent of the last digit.\<close>

definition around :: "int \<Rightarrow> int \<Rightarrow> int \<Rightarrow> int \<times> int" where
  "around a b e = (let (a, b) = (if 0 \<le> e then (a, b * 10 ^ nat e) else (a * 10 ^ nat (- e), b)) in (a div b, a * 2 - (a div b * 2 + 1) * b))"

text \<open>
  The shortest numeral, as its digits and the power of ten of the last one; of two of the same length, the one that is nearer. Seventeen
  digits are always enough.
\<close>

fun shortest :: "js_double \<Rightarrow> nat \<Rightarrow> int \<Rightarrow> int \<times> int" where
  "shortest w 0 n = (0, 0)"
| "shortest w (Suc fuel) n =
    (let k = 17 - int fuel; e = n - k; (a, b) = num_ratio w; (lo, diff) = around a b e;
         fits = (\<lambda>s. num_of_decimal False s e = w)
     in if fits lo \<and> fits (lo + 1) then (if diff < 0 then (lo, e) else (lo + 1, e))
        else if fits lo then (lo, e)
        else if fits (lo + 1) then (lo + 1, e)
        else shortest w fuel n)"

definition format_digits :: "string \<Rightarrow> int \<Rightarrow> string" where
  "format_digits ds n =
    (let k = int (length ds); e = n - 1 in
     if k \<le> n \<and> n \<le> 21 then ds @ replicate (nat (n - k)) CHR ''0''
     else if 0 < n \<and> n \<le> 21 then take (nat n) ds @ ''.'' @ drop (nat n) ds
     else if - 6 < n \<and> n \<le> 0 then ''0.'' @ replicate (nat (- n)) CHR ''0'' @ ds
     else (if k = 1 then ds else take 1 ds @ ''.'' @ drop 1 ds) @ ''e'' @ (if e < 0 then ''-'' else ''+'') @ int_text \<bar>e\<bar>)"

text \<open>Zeros at the end of the digits belong to the exponent (a numeral that is rounded up to a power of ten).\<close>

function strip_tens :: "int \<times> int \<Rightarrow> int \<times> int" where
  "strip_tens (s, e) = (if 10 \<le> s \<and> s mod 10 = 0 then strip_tens (s div 10, e + 1) else (s, e))"
  by pat_completeness auto
termination
  by (relation "measure (\<lambda>(s, e). nat s)") auto

declare strip_tens.simps [simp del]

definition num_text :: "js_double \<Rightarrow> string" where
  "num_text w =
    (if num_isNaN w then ''NaN''
     else if num_code w = 0 then ''0''
     else (if num_negative w then ''-'' else [])
       @ (if \<not> num_isFinite w then ''Infinity''
          else let p = make_num False (num_code w); (a, b) = num_ratio p;
                   (s, e) = strip_tens (shortest p 17 (decimal_exponent a b)); ds = int_text s
               in format_digits ds (e + int (length ds))))"

text \<open>\<open>toFixed(20)\<close> of a number: the nearest integer to its \<open>10 ^ 20\<close>-fold, the greater of two. Above \<open>10 ^ 21\<close> it is the usual text.\<close>

definition num_toFixed20 :: "js_double \<Rightarrow> string" where
  "num_toFixed20 w =
    (let (a, b) = num_ratio w in
     if \<not> num_isFinite w \<or> 10 ^ 21 * b \<le> a then num_text w
     else let i = (2 * a * 10 ^ 20 + b) div (2 * b); t = int_text i; t = replicate (21 - length t) CHR ''0'' @ t
          in (if num_negative w \<and> i \<noteq> 0 then ''-'' else []) @ take (length t - 20) t @ ''.'' @ drop (length t - 20) t)"

definition bd_fromNumber :: "js_double \<Rightarrow> big_decimal result" where
  "bd_fromNumber value =
    (if num_isNaN value then Inr (new_big_decimal (integer_fromNumber (JsInt 0)) 0)
     else let t = num_text value in bd_fromString (if CHR ''e'' \<in> set t then num_toFixed20 value else t))"

end
