(* ===== verification/Cql_Types.thy ===== *)
theory Cql_Types
  imports Node_Buffer Protocol_Version
begin

text \<open>
  The CQL data types of \<^verbatim>\<open>src/lib/types/index.js\<close>: their codes and names, the type information objects the encoder works on, the parser of
  type hints (\<open>dataTypes.getByName\<close>), the printer \<open>getDataTypeNameByCode\<close> and the frame header.

  A type information object has a code, the \<open>info\<close> that depends on it, and the options \<open>frozen\<close> and \<open>reversed\<close> (\<open>False\<close> where the object
  has none). A vector is a custom type whose \<open>customTypeName\<close> is \<open>"vector"\<close>; the constructor \<open>VectorInfo\<close> stands for that property
  together with its \<open>info\<close>, the subtype and the dimension.
\<close>

datatype type_info = TI (ti_code: int) (ti_info: info) (ti_frozen: bool) (ti_reversed: bool)
  and info =
    NoInfo
  | SubType type_info
  | SubTypes "type_info list"
  | UdtInfo "string option" string "(string \<times> type_info) list"
  | UdtName string
  | CustomName string
  | VectorInfo type_info js_number

abbreviation simple_type :: "int \<Rightarrow> type_info" where
  "simple_type c \<equiv> TI c NoInfo False False"

section \<open>Data types\<close>

abbreviation "dt_custom \<equiv> (0 :: int)"
abbreviation "dt_ascii \<equiv> (1 :: int)"
abbreviation "dt_bigint \<equiv> (2 :: int)"
abbreviation "dt_blob \<equiv> (3 :: int)"
abbreviation "dt_boolean \<equiv> (4 :: int)"
abbreviation "dt_counter \<equiv> (5 :: int)"
abbreviation "dt_decimal \<equiv> (6 :: int)"
abbreviation "dt_double \<equiv> (7 :: int)"
abbreviation "dt_float \<equiv> (8 :: int)"
abbreviation "dt_int \<equiv> (9 :: int)"
abbreviation "dt_text \<equiv> (10 :: int)"
abbreviation "dt_timestamp \<equiv> (11 :: int)"
abbreviation "dt_uuid \<equiv> (12 :: int)"
abbreviation "dt_varchar \<equiv> (13 :: int)"
abbreviation "dt_varint \<equiv> (14 :: int)"
abbreviation "dt_timeuuid \<equiv> (15 :: int)"
abbreviation "dt_inet \<equiv> (16 :: int)"
abbreviation "dt_date \<equiv> (17 :: int)"
abbreviation "dt_time \<equiv> (18 :: int)"
abbreviation "dt_smallint \<equiv> (19 :: int)"
abbreviation "dt_tinyint \<equiv> (20 :: int)"
abbreviation "dt_duration \<equiv> (21 :: int)"
abbreviation "dt_list \<equiv> (32 :: int)"
abbreviation "dt_map \<equiv> (33 :: int)"
abbreviation "dt_set \<equiv> (34 :: int)"
abbreviation "dt_udt \<equiv> (48 :: int)"
abbreviation "dt_tuple \<equiv> (49 :: int)"

definition dataTypes :: "(string \<times> int) list" where
  "dataTypes =
    [(''custom'', 0), (''ascii'', 1), (''bigint'', 2), (''blob'', 3), (''boolean'', 4), (''counter'', 5), (''decimal'', 6),
     (''double'', 7), (''float'', 8), (''int'', 9), (''text'', 10), (''timestamp'', 11), (''uuid'', 12), (''varchar'', 13),
     (''varint'', 14), (''timeuuid'', 15), (''inet'', 16), (''date'', 17), (''time'', 18), (''smallint'', 19), (''tinyint'', 20),
     (''duration'', 21), (''list'', 32), (''map'', 33), (''set'', 34), (''udt'', 48), (''tuple'', 49)]"

text \<open>The inverse table; every code has one name.\<close>

definition dataTypesByCode :: "int \<Rightarrow> string option" where
  "dataTypesByCode c = map_of (map (\<lambda>(k, v). (v, k)) dataTypes) c"

section \<open>Results of lists\<close>

text \<open>\<open>map\<close> with a function that may raise: the first error stops it.\<close>

fun map_result :: "('a \<Rightarrow> 'b result) \<Rightarrow> 'a list \<Rightarrow> 'b list result" where
  "map_result f [] = Inr []"
| "map_result f (x # xs) = bind_result (f x) (\<lambda>y. bind_result (map_result f xs) (\<lambda>ys. Inr (y # ys)))"

lemma map_result_cong [fundef_cong]:
  "xs = ys \<Longrightarrow> (\<And>x. x \<in> set ys \<Longrightarrow> f x = g x) \<Longrightarrow> map_result f xs = map_result g ys"
  by (induction ys arbitrary: xs) auto

lemma bind_result_cong [fundef_cong]:
  "r = s \<Longrightarrow> (\<And>x. s = Inr x \<Longrightarrow> f x = g x) \<Longrightarrow> bind_result r f = bind_result s g"
  by (cases s) auto

lemma map_result_Inr: "map_result f xs = Inr ys \<longleftrightarrow> list_all2 (\<lambda>x y. f x = Inr y) xs ys"
  by (induction xs arbitrary: ys) (auto simp: list_all2_Cons1)

lemma map_result_all: "(\<And>x. x \<in> set xs \<Longrightarrow> f x = Inr (g x)) \<Longrightarrow> map_result f xs = Inr (map g xs)"
  by (induction xs) auto

section \<open>Type hints\<close>

definition no_newline :: "string \<Rightarrow> bool" where
  "no_newline s \<longleftrightarrow> (\<forall>c \<in> set s. char_code c \<noteq> 10 \<and> char_code c \<noteq> 13)"

text \<open>\<open>/^name<(.+)>$/\<close>: the text between the brackets.\<close>

definition bracketed :: "string \<Rightarrow> string \<Rightarrow> string option" where
  "bracketed word name =
    (let n = length word + 1 in
     if take n name = word @ ''<'' \<and> length name > n + 1 \<and> last name = CHR ''>''
        \<and> no_newline (butlast (drop n name))
     then Some (butlast (drop n name)) else None)"

text \<open>
  The two types between the brackets of a map: \<open>/^(map)< *(.+) *, *(.+)>$/\<close>. The first group is greedy, so the text is split at the
  last comma that leaves a character on both sides; the spaces before the first group and after the comma are skipped as far as a
  character is left for the group.
\<close>

definition skip_spaces :: "string \<Rightarrow> string" where
  "skip_spaces s =
    (let r = dropWhile (\<lambda>c. c = CHR '' '') s in if r = [] \<and> s \<noteq> [] then [last s] else r)"

definition last_comma :: "string \<Rightarrow> nat option" where
  "last_comma s =
    (let is = filter (\<lambda>i. s ! i = CHR '','' \<and> 0 < i \<and> i + 1 < length s) [0..<length s]
     in if is = [] then None else Some (last is))"

definition map_groups :: "string \<Rightarrow> (string \<times> string) option" where
  "map_groups s = map_option (\<lambda>i. (skip_spaces (take i s), skip_spaces (drop (i + 1) s))) (last_comma s)"

text \<open>
  \<open>/^vector<\s*(.+)\s*,\s*(\d+)\s*>$/\<close>: the dimension is what follows the last comma, digits within white space.
\<close>

definition skip_white :: "string \<Rightarrow> string" where
  "skip_white s = (let r = dropWhile is_js_space s in if r = [] \<and> s \<noteq> [] then [last s] else r)"

definition vector_groups :: "string \<Rightarrow> (string \<times> string) option" where
  "vector_groups s =
    (case last_comma s of
       None \<Rightarrow> None
     | Some i \<Rightarrow>
         let d = js_trim (drop (i + 1) s)
         in if d \<noteq> [] \<and> list_all (is_digit 10) d then Some (skip_white (take i s), d) else None)"

lemma bracketed_length: "bracketed word name = Some s \<Longrightarrow> length s + 2 + length word = length name"
  by (auto simp: bracketed_def Let_def split: if_splits)

lemma skip_spaces_length: "length (skip_spaces s) \<le> length s"
  using length_dropWhile_le [of "\<lambda>c. c = CHR '' ''" s] by (cases s rule: rev_cases) (auto simp: skip_spaces_def Let_def)

lemma skip_white_length: "length (skip_white s) \<le> length s"
  using length_dropWhile_le [of is_js_space s] by (cases s rule: rev_cases) (auto simp: skip_white_def Let_def)

lemma js_trim_length: "length (js_trim s) \<le> length s"
  unfolding js_trim_def length_rev using length_dropWhile_le le_trans by (metis length_rev)

lemma map_groups_length:
  assumes "map_groups s = Some (a, b)"
  shows "length a \<le> length s" and "length b \<le> length s"
proof -
  obtain i where ab: "a = skip_spaces (take i s)" "b = skip_spaces (drop (i + 1) s)" using assms by (auto simp: map_groups_def)
  show "length a \<le> length s" using skip_spaces_length [of "take i s"] unfolding ab by simp
  show "length b \<le> length s" using skip_spaces_length [of "drop (i + 1) s"] unfolding ab by simp
qed

lemma vector_groups_length: "vector_groups s = Some (a, d) \<Longrightarrow> length a \<le> length s"
proof -
  assume "vector_groups s = Some (a, d)"
  then obtain i where "a = skip_white (take i s)" by (auto simp: vector_groups_def Let_def split: option.splits if_splits)
  then show ?thesis using skip_white_length [of "take i s"] by simp
qed

lemma split_on_length: "p \<in> set (split_on c s) \<Longrightarrow> length p \<le> length s"
proof (induction s arbitrary: p)
  case (Cons a s)
  then show ?case by (cases "split_on c s") (fastforce split: if_splits)+
qed simp

lemma bracketed_shorter: "bracketed word name = Some s \<Longrightarrow> length s < length name"
  using bracketed_length by force

lemma map_shorter: "Option.bind (bracketed word name) map_groups = Some (a, b) \<Longrightarrow> length a < length name \<and> length b < length name"
  using bracketed_shorter map_groups_length by (cases "bracketed word name") fastforce+

lemma vector_shorter: "Option.bind (bracketed word name) vector_groups = Some (a, d) \<Longrightarrow> length a < length name"
  using bracketed_shorter vector_groups_length by (cases "bracketed word name") fastforce+

lemma tuple_shorter: "p \<in> set (split_on c s) \<Longrightarrow> bracketed word name = Some s \<Longrightarrow> length (js_trim p) < length name"
  using bracketed_shorter [of word name s] split_on_length [of p c s] js_trim_length [of p] by simp

text \<open>The texts are free of line breaks where the expressions have a dot. The branches are tried in the order of the code.\<close>

function getByName :: "string \<Rightarrow> type_info result" where
  "getByName name0 =
    (let name = map js_lower name0;
         simple = (case map_of dataTypes name of Some c \<Rightarrow> Inr (simple_type c) | None \<Rightarrow> Inl TypeError)
     in if CHR ''<'' \<in> set name \<and> hd name \<noteq> CHR ''<'' then
          (case bracketed ''list'' name of
             Some s \<Rightarrow> bind_result (getByName s) (\<lambda>t. Inr (TI dt_list (SubType t) False False))
           | None \<Rightarrow>
          (case bracketed ''set'' name of
             Some s \<Rightarrow> bind_result (getByName s) (\<lambda>t. Inr (TI dt_set (SubType t) False False))
           | None \<Rightarrow>
          (case Option.bind (bracketed ''map'' name) map_groups of
             Some (k, v) \<Rightarrow> bind_result (getByName k) (\<lambda>t. bind_result (getByName v) (\<lambda>u. Inr (TI dt_map (SubTypes [t, u]) False False)))
           | None \<Rightarrow>
          (case bracketed ''udt'' name of
             Some s \<Rightarrow> Inr (TI dt_udt (UdtName s) False False)
           | None \<Rightarrow>
          (case bracketed ''tuple'' name of
             Some s \<Rightarrow> bind_result (map_result (\<lambda>x. getByName (js_trim x)) (split_on CHR '','' s))
                         (\<lambda>ts. Inr (TI dt_tuple (SubTypes ts) False False))
           | None \<Rightarrow>
          (case Option.bind (bracketed ''vector'' name) vector_groups of
             Some (s, d) \<Rightarrow> bind_result (getByName s) (\<lambda>t. Inr (TI dt_custom (VectorInfo t (js_parseInt d 10)) False False))
           | None \<Rightarrow> simple))))))
        else simple)"
  by pat_completeness auto
termination
  by (relation "measure length") (auto dest: bracketed_shorter map_shorter vector_shorter tuple_shorter)

declare getByName.simps [simp del]

section \<open>Names of types\<close>

fun number_text :: "js_number \<Rightarrow> string" where
  "number_text (JsInt n) = show_int n"
| "number_text JsNaN = ''NaN''"
| "number_text JsInfinity = ''Infinity''"

definition join_comma :: "string list \<Rightarrow> string" where
  "join_comma ws = concat (case ws of [] \<Rightarrow> [] | w # vs \<Rightarrow> w # map (\<lambda>v. CHR '','' # CHR '' '' # v) vs)"

text \<open>The property \<open>name\<close> of a text is \<open>undefined\<close>; it is printed here as a template would.\<close>

function getDataTypeNameByCode :: "type_info \<Rightarrow> string result" where
  "getDataTypeNameByCode (TI code info frozen reversed) =
    (case dataTypesByCode code of
       None \<Rightarrow> Inl ArgumentError
     | Some typeName \<Rightarrow>
         (case info of
            NoInfo \<Rightarrow> Inr typeName
          | VectorInfo t n \<Rightarrow>
              if code = dt_custom
              then bind_result (getDataTypeNameByCode t) (\<lambda>s. Inr (''vector<'' @ s @ '', '' @ number_text n @ ''>''))
              else bind_result (getDataTypeNameByCode t) (\<lambda>s. Inl ArgumentError)
          | SubTypes ts \<Rightarrow>
              bind_result (map_result getDataTypeNameByCode ts) (\<lambda>ss. Inr (typeName @ ''<'' @ join_comma ss @ ''>''))
          | SubType t \<Rightarrow> bind_result (getDataTypeNameByCode t) (\<lambda>s. Inr (typeName @ ''<'' @ s @ ''>''))
          | UdtInfo k n fs \<Rightarrow> if code = dt_udt then Inr n else Inr typeName
          | UdtName s \<Rightarrow> if s \<noteq> [] \<and> code = dt_udt then Inr ''undefined'' else Inr typeName
          | CustomName s \<Rightarrow> if s \<noteq> [] \<and> code = dt_udt then Inr ''undefined'' else Inr typeName))"
  by pat_completeness auto
termination
  by (relation "measure size") (auto simp: less_Suc_eq_le intro: le_SucI size_list_estimation')

text \<open>
  The types a hint can name: the simple types but \<open>custom\<close>, and lists, sets, tuples, maps and vectors of them, where the value of a map and
  the members of a tuple have names without a comma.
\<close>

fun no_comma :: "type_info \<Rightarrow> bool" where
  "no_comma (TI code NoInfo f r) \<longleftrightarrow> True"
| "no_comma (TI code (SubType t) f r) \<longleftrightarrow> no_comma t"
| "no_comma _ \<longleftrightarrow> False"

fun hintable :: "type_info \<Rightarrow> bool" where
  "hintable (TI code NoInfo f r) \<longleftrightarrow> code \<in> snd ` set dataTypes \<and> \<not> f \<and> \<not> r"
| "hintable (TI code (SubType t) f r) \<longleftrightarrow> code \<in> {dt_list, dt_set} \<and> hintable t \<and> \<not> f \<and> \<not> r"
| "hintable (TI code (SubTypes ts) f r) \<longleftrightarrow>
    (code = dt_map \<and> length ts = 2 \<and> no_comma (ts ! 1) \<or> code = dt_tuple \<and> ts \<noteq> [] \<and> list_all no_comma ts)
    \<and> list_all hintable ts \<and> \<not> f \<and> \<not> r"
| "hintable (TI code (VectorInfo t n) f r) \<longleftrightarrow> code = dt_custom \<and> hintable t \<and> (case n of JsInt k \<Rightarrow> 0 \<le> k | _ \<Rightarrow> False) \<and> \<not> f \<and> \<not> r"
| "hintable _ \<longleftrightarrow> False"

subsection \<open>Reading a printed name\<close>

definition plain_text :: "string \<Rightarrow> bool" where
  "plain_text s \<longleftrightarrow> s \<noteq> [] \<and> map js_lower s = s \<and> no_newline s \<and> \<not> is_js_space (hd s) \<and> \<not> is_js_space (last s)"

lemma dataTypes_names: "list_all (\<lambda>(k, v). dataTypesByCode v = Some k \<and> map_of dataTypes k = Some v \<and> plain_text k
  \<and> list_all (\<lambda>c. c \<noteq> CHR ''<'' \<and> c \<noteq> CHR '','' ) k) dataTypes"
  unfolding plain_text_def no_newline_def Ball_set [symmetric] by code_simp

lemma bracketed_print: "s \<noteq> [] \<Longrightarrow> no_newline s \<Longrightarrow> bracketed w (w @ ''<'' @ s @ ''>'') = Some s"
  by (simp add: bracketed_def butlast_append)

lemma takeWhile_stop: "c \<notin> set w \<Longrightarrow> takeWhile (\<lambda>x. x \<noteq> c) (w @ c # r) = w"
  by (induction w) auto

lemma bracketed_other:
  assumes "CHR ''<'' \<notin> set w" and "CHR ''<'' \<notin> set v" and "v \<noteq> w"
  shows "bracketed v (w @ ''<'' @ s) = None"
proof -
  have "take (length v + 1) (w @ ''<'' @ s) \<noteq> v @ ''<''"
  proof
    assume h: "take (length v + 1) (w @ ''<'' @ s) = v @ ''<''"
    then have "v @ ''<'' @ drop (length v + 1) (w @ ''<'' @ s) = w @ ''<'' @ s"
      by (metis append_assoc append_take_drop_id)
    then have "takeWhile (\<lambda>c. c \<noteq> CHR ''<'') (v @ ''<'' @ drop (length v + 1) (w @ ''<'' @ s)) = takeWhile (\<lambda>c. c \<noteq> CHR ''<'') (w @ ''<'' @ s)"
      by (simp only:)
    then have "v = w" using assms(1,2) by (simp add: takeWhile_stop)
    then show False using assms(3) by simp
  qed
  then show ?thesis by (simp add: bracketed_def Let_def)
qed

lemma last_comma_at:
  assumes "a \<noteq> []" and "b \<noteq> []" and "CHR '','' \<notin> set b"
  shows "last_comma (a @ CHR '','' # b) = Some (length a)"
proof -
  let ?s = "a @ CHR '','' # b" and ?P = "\<lambda>i. (a @ CHR '','' # b) ! i = CHR '','' \<and> 0 < i \<and> i + 1 < length (a @ CHR '','' # b)"
  have "[0..<length ?s] = [0..<Suc (length a)] @ [Suc (length a)..<Suc (length a) + length b]"
    using upt_add_eq_append [of 0 "Suc (length a)" "length b"] by (simp del: upt_Suc)
  moreover have "filter ?P [Suc (length a)..<Suc (length a) + length b] = []"
  proof -
    have "\<not> ?P i" if "Suc (length a) \<le> i" "i < Suc (length a) + length b" for i
    proof -
      have "?s ! i = b ! (i - Suc (length a))" using that by (simp add: nth_append Suc_diff_le nth_Cons')
      moreover have "b ! (i - Suc (length a)) \<in> set b" using that by (intro nth_mem) simp
      ultimately show ?thesis using assms(3) by metis
    qed
    then show ?thesis by (intro filter_False ballI) (simp del: upt_Suc)
  qed
  moreover have "?P (length a)" using assms(1,2) by simp
  then have "filter ?P [0..<Suc (length a)] = filter ?P [0..<length a] @ [length a]" by simp
  ultimately have f: "filter ?P [0..<length ?s] = filter ?P [0..<length a] @ [length a]" by (simp only: filter_append append_Nil2)
  show ?thesis unfolding last_comma_def Let_def f by simp
qed

lemma skip_spaces_plain: "s \<noteq> [] \<Longrightarrow> hd s \<noteq> CHR '' '' \<Longrightarrow> skip_spaces s = s \<and> skip_spaces (CHR '' '' # s) = s"
  by (cases s) (simp_all add: skip_spaces_def)

lemma skip_white_plain: "s \<noteq> [] \<Longrightarrow> \<not> is_js_space (hd s) \<Longrightarrow> skip_white s = s"
  by (cases s) (simp_all add: skip_white_def)

lemma plain_parts: "plain_text s \<Longrightarrow> s \<noteq> [] \<and> no_newline s \<and> hd s \<noteq> CHR '' '' \<and> js_trim s = s \<and> js_trim (CHR '' '' # s) = s"
proof -
  assume p: "plain_text s"
  have sp: "is_js_space (CHR '' '')" by code_simp
  have t: "js_trim s = s" using p by (intro js_trim_id) (simp add: plain_text_def)
  moreover have "js_trim (CHR '' '' # s) = js_trim s" using sp by (simp add: js_trim_def)
  ultimately show ?thesis using p sp by (auto simp: plain_text_def)
qed

definition flat_text :: "string \<Rightarrow> bool" where
  "flat_text s \<longleftrightarrow> map js_lower s = s \<and> no_newline s"

lemma flat_append [simp]: "flat_text (a @ b) \<longleftrightarrow> flat_text a \<and> flat_text b"
  by (auto simp: flat_text_def no_newline_def append_eq_append_conv)

lemma flat_comma [simp]: "flat_text (CHR '','' # CHR '' '' # s) \<longleftrightarrow> flat_text s"
proof -
  have "flat_text '', ''" unfolding flat_text_def no_newline_def Ball_set [symmetric] by code_simp
  then show ?thesis using flat_append [of "'', ''" s] by simp
qed

lemma flat_Nil [simp]: "flat_text []"
  by (simp add: flat_text_def no_newline_def)

lemma plain_flat: "plain_text s \<Longrightarrow> flat_text s"
  by (simp add: plain_text_def flat_text_def)

lemma plain_wrap:
  assumes "plain_text w" and "flat_text s"
  shows "plain_text (w @ ''<'' @ s @ ''>'')"
proof -
  have "js_lower CHR ''<'' = CHR ''<''" "js_lower CHR ''>'' = CHR ''>''" "\<not> is_js_space CHR ''>''"
    "char_code CHR ''<'' = 60" "char_code CHR ''>'' = 62" by code_simp+
  then show ?thesis using assms by (auto simp: plain_text_def flat_text_def no_newline_def)
qed

lemma getByName_simple: "(k, v) \<in> set dataTypes \<Longrightarrow> getByName k = Inr (simple_type v) \<and> dataTypesByCode v = Some k \<and> plain_text k \<and> CHR '','' \<notin> set k"
proof -
  assume "(k, v) \<in> set dataTypes"
  then have "dataTypesByCode v = Some k" "map_of dataTypes k = Some v" "plain_text k" "CHR ''<'' \<notin> set k" "CHR '','' \<notin> set k"
    using dataTypes_names by (force simp: list_all_iff)+
  then show ?thesis by (subst getByName.simps) (simp add: plain_text_def Let_def)
qed

text \<open>The branch a name takes, by the word before its first bracket.\<close>

lemma getByName_branch:
  assumes "n = w @ ''<'' @ s @ ''>''" and "plain_text n" and "w \<noteq> []" and "CHR ''<'' \<notin> set w" and "s \<noteq> []"
  shows "w = ''list'' \<Longrightarrow> getByName n = bind_result (getByName s) (\<lambda>t. Inr (TI dt_list (SubType t) False False))"
    and "w = ''set'' \<Longrightarrow> getByName n = bind_result (getByName s) (\<lambda>t. Inr (TI dt_set (SubType t) False False))"
    and "w = ''map'' \<Longrightarrow> map_groups s = Some (k, v) \<Longrightarrow> getByName n =
      bind_result (getByName k) (\<lambda>t. bind_result (getByName v) (\<lambda>u. Inr (TI dt_map (SubTypes [t, u]) False False)))"
    and "w = ''tuple'' \<Longrightarrow> getByName n =
      bind_result (map_result (\<lambda>x. getByName (js_trim x)) (split_on CHR '','' s)) (\<lambda>ts. Inr (TI dt_tuple (SubTypes ts) False False))"
    and "w = ''vector'' \<Longrightarrow> vector_groups s = Some (k, d) \<Longrightarrow> getByName n =
      bind_result (getByName k) (\<lambda>t. Inr (TI dt_custom (VectorInfo t (js_parseInt d 10)) False False))"
proof -
  have l: "map js_lower n = n" using assms(2) by (simp only: plain_text_def)
  have "no_newline s" using assms(1,2) by (auto simp: plain_text_def no_newline_def)
  then have b: "bracketed w n = Some s" unfolding assms(1) by (rule bracketed_print [OF assms(5)])
  have nb: "bracketed v n = None" if "v \<noteq> w" "CHR ''<'' \<notin> set v" for v
    using bracketed_other [OF assms(4) that(2,1), of "s @ ''>''"] by (simp add: assms(1))
  have c: "CHR ''<'' \<in> set n" "hd n \<noteq> CHR ''<''" using assms(1,3,4) by (cases w; auto)+
  note step = getByName.simps [of n] and ls = l c Let_def b nb
  show "w = ''list'' \<Longrightarrow> getByName n = bind_result (getByName s) (\<lambda>t. Inr (TI dt_list (SubType t) False False))"
    unfolding step using b by (simp add: ls)
  show "w = ''set'' \<Longrightarrow> getByName n = bind_result (getByName s) (\<lambda>t. Inr (TI dt_set (SubType t) False False))"
    unfolding step using b nb [of "''list''"] by (simp add: ls)
  show "w = ''map'' \<Longrightarrow> map_groups s = Some (k, v) \<Longrightarrow> getByName n =
      bind_result (getByName k) (\<lambda>t. bind_result (getByName v) (\<lambda>u. Inr (TI dt_map (SubTypes [t, u]) False False)))"
    unfolding step using b nb [of "''list''"] nb [of "''set''"] by (simp add: ls)
  show "w = ''tuple'' \<Longrightarrow> getByName n =
      bind_result (map_result (\<lambda>x. getByName (js_trim x)) (split_on CHR '','' s)) (\<lambda>ts. Inr (TI dt_tuple (SubTypes ts) False False))"
    unfolding step using b nb [of "''list''"] nb [of "''set''"] nb [of "''map''"] nb [of "''udt''"] by (simp add: ls)
  show "w = ''vector'' \<Longrightarrow> vector_groups s = Some (k, d) \<Longrightarrow> getByName n =
      bind_result (getByName k) (\<lambda>t. Inr (TI dt_custom (VectorInfo t (js_parseInt d 10)) False False))"
    unfolding step using b nb [of "''list''"] nb [of "''set''"] nb [of "''map''"] nb [of "''udt''"] nb [of "''tuple''"] by (simp add: ls)
qed

definition hint_ok :: "type_info \<Rightarrow> string \<Rightarrow> bool" where
  "hint_ok t s \<longleftrightarrow> getDataTypeNameByCode t = Inr s \<and> getByName s = Inr t \<and> plain_text s \<and> (no_comma t \<longrightarrow> CHR '','' \<notin> set s)"

lemma code_names: "dataTypesByCode 32 = Some ''list''" "dataTypesByCode 33 = Some ''map''" "dataTypesByCode 34 = Some ''set''"
  "dataTypesByCode 49 = Some ''tuple''" "dataTypesByCode 0 = Some ''custom''"
  by (simp_all add: dataTypesByCode_def dataTypes_def)

lemma word_texts: "plain_text ''list''" "plain_text ''set''" "plain_text ''map''" "plain_text ''tuple''" "plain_text ''vector''"
  unfolding plain_text_def no_newline_def Ball_set [symmetric] by code_simp+

lemma hint_sequence:
  assumes "hint_ok t s" and "code = dt_list \<and> w = ''list'' \<or> code = dt_set \<and> w = ''set''"
  shows "hint_ok (TI code (SubType t) False False) (w @ ''<'' @ s @ ''>'')"
proof -
  have s: "getDataTypeNameByCode t = Inr s" "getByName s = Inr t" "plain_text s" "no_comma t \<longrightarrow> CHR '','' \<notin> set s"
    using assms(1) by (simp_all add: hint_ok_def)
  have w: "plain_text w" "w \<noteq> []" "CHR ''<'' \<notin> set w" "CHR '','' \<notin> set w" using assms(2) word_texts by auto
  have p: "plain_text (w @ ''<'' @ s @ ''>'')" by (rule plain_wrap [OF w(1) plain_flat [OF s(3)]])
  have "s \<noteq> []" using s(3) by (simp add: plain_text_def)
  note br = getByName_branch [OF refl p w(2,3) this]
  have "getByName (w @ ''<'' @ s @ ''>'') = Inr (TI code (SubType t) False False)"
    using assms(2) br(1,2) s(2) by auto
  moreover have "getDataTypeNameByCode (TI code (SubType t) False False) = Inr (w @ ''<'' @ s @ ''>'')"
    using assms(2) s(1) by (auto simp: code_names)
  ultimately show ?thesis using p s(4) w(4) by (simp add: hint_ok_def)
qed

lemma lower_join:
  assumes "\<forall>s \<in> set ss. flat_text s"
  shows "flat_text (join_comma ss)"
proof -
  have "flat_text (concat (map (\<lambda>v. CHR '','' # CHR '' '' # v) vs))" if "\<forall>s \<in> set vs. flat_text s" for vs
    using that by (induction vs) simp_all
  then show ?thesis using assms by (cases ss) (simp_all add: join_comma_def)
qed

lemma hint_map:
  assumes "hint_ok t a" and "hint_ok u b" and "no_comma u"
  shows "hint_ok (TI dt_map (SubTypes [t, u]) False False) (''map<'' @ join_comma [a, b] @ ''>'')"
proof -
  have a: "getDataTypeNameByCode t = Inr a" "getByName a = Inr t" "plain_text a" and b: "getDataTypeNameByCode u = Inr b"
    "getByName b = Inr u" "plain_text b" "CHR '','' \<notin> set b"
    using assms by (simp_all add: hint_ok_def)
  let ?s = "join_comma [a, b]"
  have s: "?s = a @ CHR '','' # CHR '' '' # b" by (simp add: join_comma_def)
  have p: "plain_text (''map'' @ ''<'' @ ?s @ ''>'')"
    using plain_flat [OF a(3)] plain_flat [OF b(3)] by (intro plain_wrap word_texts lower_join) simp
  note pa = plain_parts [OF a(3)] and pb = plain_parts [OF b(3)]
  have "last_comma ?s = Some (length a)" unfolding s using last_comma_at [of a "CHR '' '' # b"] pa b(4) by simp
  then have "map_groups ?s = Some (a, b)" using pa pb skip_spaces_plain [of a] skip_spaces_plain [of b] by (simp add: map_groups_def s)
  then have "getByName (''map'' @ ''<'' @ ?s @ ''>'') = Inr (TI dt_map (SubTypes [t, u]) False False)"
    using getByName_branch(3) [OF refl p, of a b] a(2) b(2) by (simp add: s)
  then show ?thesis using p a(1) b(1) by (simp add: hint_ok_def code_names)
qed

lemma split_join_comma:
  assumes "ss \<noteq> []" and "\<forall>s \<in> set ss. CHR '','' \<notin> set s"
  shows "split_on CHR '','' (join_comma ss) = hd ss # map (\<lambda>s. CHR '' '' # s) (tl ss)"
proof -
  have rest: "split_on CHR '','' (w @ concat (map (\<lambda>v. CHR '','' # CHR '' '' # v) vs)) = w # map (\<lambda>s. CHR '' '' # s) vs"
    if "CHR '','' \<notin> set w" "\<forall>s \<in> set vs. CHR '','' \<notin> set s" for w vs
    using that
  proof (induction vs arbitrary: w)
    case (Cons v vs)
    have "split_on CHR '','' (CHR '' '' # v @ concat (map (\<lambda>v. CHR '','' # CHR '' '' # v) vs)) = (CHR '' '' # v) # map (\<lambda>s. CHR '' '' # s) vs"
      using Cons.IH [of "CHR '' '' # v"] Cons.prems by simp
    then show ?case using Cons.prems split_on_append [of "CHR '',''" w] by (simp add: split_on_plain)
  qed (simp add: split_on_plain)
  then show ?thesis using assms by (cases ss) (simp_all add: join_comma_def)
qed

lemma hint_tuple:
  assumes "list_all2 hint_ok ts ss" and "ts \<noteq> []" and "list_all no_comma ts"
  shows "hint_ok (TI dt_tuple (SubTypes ts) False False) (''tuple<'' @ join_comma ss @ ''>'')"
proof -
  have n: "map_result getDataTypeNameByCode ts = Inr ss"
    unfolding map_result_Inr using assms(1) by (rule list_all2_mono) (simp add: hint_ok_def)
  have ps: "\<forall>s \<in> set ss. plain_text s \<and> CHR '','' \<notin> set s"
    using assms(1,3) by (induction rule: list_all2_induct) (auto simp: hint_ok_def)
  have ne: "ss \<noteq> []" using assms(1,2) by (cases ss) auto
  let ?s = "join_comma ss"
  have p: "plain_text (''tuple'' @ ''<'' @ ?s @ ''>'')"
    using ps by (intro plain_wrap word_texts lower_join) (simp add: plain_flat)
  have "?s \<noteq> []" using ne ps by (cases ss) (auto simp: join_comma_def plain_text_def)
  note br = getByName_branch(4) [OF refl p _ _ this]
  have "map_result (\<lambda>x. getByName (js_trim x)) (hd ss # map (\<lambda>s. CHR '' '' # s) (tl ss)) = Inr ts"
  proof -
    have "list_all2 (\<lambda>s t. getByName (js_trim s) = Inr t \<and> getByName (js_trim (CHR '' '' # s)) = Inr t) ss ts"
      using assms(1) by (induction rule: list_all2_induct) (auto simp: hint_ok_def dest: plain_parts)
    then show ?thesis unfolding map_result_Inr using ne
      by (cases ss; cases ts) (auto simp: list_all2_map1 elim: list_all2_mono)
  qed
  then have "getByName (''tuple'' @ ''<'' @ ?s @ ''>'') = Inr (TI dt_tuple (SubTypes ts) False False)"
    using br split_join_comma [OF ne] ps by simp
  then show ?thesis using n p by (simp add: hint_ok_def code_names)
qed

lemma hint_vector:
  assumes "hint_ok t a" and "0 \<le> k"
  shows "hint_ok (TI dt_custom (VectorInfo t (JsInt k)) False False) (''vector<'' @ a @ '', '' @ show_int k @ ''>'')"
proof -
  have a: "getDataTypeNameByCode t = Inr a" "getByName a = Inr t" "plain_text a" using assms(1) by (simp_all add: hint_ok_def)
  let ?d = "show_nat (nat k)"
  have d: "show_int k = ?d" using assms(2) by (simp add: show_int_def)
  note ds = show_nat_digits [of "nat k"]
  have dt: "js_trim ?d = ?d" "js_trim (CHR '' '' # ?d) = ?d"
  proof -
    have "\<forall>c \<in> set ?d. \<not> is_js_space c" using ds digit_not_special(1) by blast
    then show t: "js_trim ?d = ?d" by (rule js_trim_no_space)
    have "is_js_space (CHR '' '')" by code_simp
    then show "js_trim (CHR '' '' # ?d) = ?d" using t by (simp add: js_trim_def)
  qed
  let ?s = "a @ CHR '','' # CHR '' '' # ?d"
  have dl: "flat_text ?d"
    using ds by (auto simp: flat_text_def no_newline_def js_lower_def is_digit_def digit_val_def Let_def intro!: map_idI split: if_splits)
  then have "flat_text ?s" using plain_flat [OF a(3)] by simp
  then have p: "plain_text (''vector'' @ ''<'' @ ?s @ ''>'')" by (rule plain_wrap [OF word_texts(5)])
  have nc: "CHR '','' \<notin> set ?d" using ds by (auto simp: is_digit_def digit_val_def char_code_def Let_def split: if_splits)
  have "last_comma ?s = Some (length a)" using last_comma_at [of a "CHR '' '' # ?d"] plain_parts [OF a(3)] nc by simp
  moreover have "skip_white a = a" using skip_white_plain [of a] a(3) by (simp add: plain_text_def)
  ultimately have "vector_groups ?s = Some (a, ?d)" using dt ds by (simp add: vector_groups_def list_all_iff)
  then have "getByName (''vector'' @ ''<'' @ ?s @ ''>'') = Inr (TI dt_custom (VectorInfo t (JsInt k)) False False)"
    using getByName_branch(5) [OF refl p, of a ?d] a(2) assms(2) parseInt_digits [OF ds] by (simp add: digits_value_show)
  then show ?thesis using p a(1) by (simp add: hint_ok_def code_names d)
qed

lemma list_all2_ex: "\<forall>x \<in> set xs. \<exists>y. P x y \<Longrightarrow> \<exists>ys. list_all2 P xs ys"
  by (induction xs) (auto simp: list_all2_Cons1)

lemma hintable_named: "hintable t \<Longrightarrow> \<exists>s. hint_ok t s"
proof (induction t rule: hintable.induct)
  case (1 code f r)
  then obtain k where "(k, code) \<in> set dataTypes" by auto
  then show ?case using getByName_simple [of k code] 1 by (auto simp: hint_ok_def)
next
  case (2 code t f r)
  then obtain s where "hint_ok t s" by auto
  then show ?case using hint_sequence [of t s code "if code = dt_list then ''list'' else ''set''"] 2 by auto
next
  case (3 code ts f r)
  have "\<exists>ss. list_all2 hint_ok ts ss"
    using 3 by (intro list_all2_ex) (simp add: list_all_iff)
  then obtain ss where ss: "list_all2 hint_ok ts ss" by blast
  show ?case
  proof (cases "code = dt_map")
    case True
    then obtain t u where tu: "ts = [t, u]" "no_comma u" using 3 by (auto simp: numeral_2_eq_2 length_Suc_conv)
    then obtain a b where "hint_ok t a" "hint_ok u b" using ss by (auto simp: list_all2_Cons1)
    then show ?thesis using hint_map [of t a u b] tu True 3 by auto
  next
    case False
    then have "code = dt_tuple" "ts \<noteq> []" "list_all no_comma ts" "\<not> f" "\<not> r" using 3 by auto
    then show ?thesis using hint_tuple [OF ss] by auto
  qed
next
  case (4 code t n f r)
  then obtain s k where "hint_ok t s" "n = JsInt k" "0 \<le> k" by (auto split: js_number.splits)
  then show ?case using hint_vector [of t s k] 4 by auto
qed simp_all

section \<open>Frames\<close>

record frame_header =
  fh_version :: int
  fh_flags :: int
  fh_streamId :: int
  fh_opcode :: int
  fh_bodyLength :: int

definition frame_size :: "int \<Rightarrow> nat" where
  "frame_size version = (if uses2BytesStreamIds version then 9 else 8)"

text \<open>A byte read past the end is \<open>undefined\<close>, which the operator \<open>&\<close> takes for 0.\<close>

definition byte_at_or_0 :: "buffer \<Rightarrow> nat \<Rightarrow> int" where
  "byte_at_or_0 buf i = (if i < length buf then buf ! i else 0)"

definition frame_fromBuffer :: "buffer \<Rightarrow> nat \<Rightarrow> frame_header result" where
  "frame_fromBuffer buf offset =
    (let version = js_and (byte_at_or_0 buf offset) 127 in
     bind_result (readUIntBE 1 buf (offset + 1)) (\<lambda>flags.
     bind_result (if \<not> uses2BytesStreamIds version then bind_result (readIntBE 1 buf (offset + 2)) (\<lambda>s. Inr (s, offset + 3))
                  else bind_result (readIntBE 2 buf (offset + 2)) (\<lambda>s. Inr (s, offset + 4))) (\<lambda>(streamId, offset).
     bind_result (readUIntBE 1 buf offset) (\<lambda>opcode.
     bind_result (readUIntBE 4 buf (offset + 1)) (\<lambda>bodyLength.
       Inr \<lparr>fh_version = version, fh_flags = flags, fh_streamId = streamId, fh_opcode = opcode, fh_bodyLength = bodyLength\<rparr>)))))"

definition frame_toBuffer :: "frame_header \<Rightarrow> buffer result" where
  "frame_toBuffer h =
    bind_result (writeUIntBE 1 (fh_version h)) (\<lambda>v.
    bind_result (writeUIntBE 1 (fh_flags h)) (\<lambda>f.
    bind_result (if \<not> uses2BytesStreamIds (fh_version h) then writeIntBE 1 (fh_streamId h) else writeIntBE 2 (fh_streamId h)) (\<lambda>s.
    bind_result (writeUIntBE 1 (fh_opcode h)) (\<lambda>c.
    bind_result (writeUIntBE 4 (fh_bodyLength h)) (\<lambda>l. Inr (v @ f @ s @ c @ l))))))"

lemma read_at: "writeUIntBE n v = Inr bs \<Longrightarrow> k = length xs \<Longrightarrow> readUIntBE n (xs @ bs @ ys) k = Inr v"
  "0 < n \<Longrightarrow> writeIntBE n w = Inr cs \<Longrightarrow> k = length xs \<Longrightarrow> readIntBE n (xs @ cs @ ys) k = Inr w"
  by (simp_all add: readUIntBE_write readIntBE_write)

lemma frame_roundtrip:
  assumes "frame_toBuffer h = Inr bs" and "fh_version h < 128"
  shows "frame_fromBuffer (xs @ bs) (length xs) = Inr h" and "length bs = frame_size (fh_version h)"
proof -
  let ?two = "uses2BytesStreamIds (fh_version h)"
  obtain v f s c l where w: "writeUIntBE 1 (fh_version h) = Inr v" "writeUIntBE 1 (fh_flags h) = Inr f"
    "(if \<not> ?two then writeIntBE 1 (fh_streamId h) else writeIntBE 2 (fh_streamId h)) = Inr s"
    "writeUIntBE 1 (fh_opcode h) = Inr c" "writeUIntBE 4 (fh_bodyLength h) = Inr l" and bs: "bs = v @ f @ s @ c @ l"
    using assms(1) by (auto simp: frame_toBuffer_def)
  have n: "length v = 1" "length f = 1" "length c = 1" "length l = 4" "length s = (if ?two then 2 else 1)"
    using w by (auto split: if_splits)
  show "length bs = frame_size (fh_version h)" by (simp add: bs n frame_size_def)
  have v: "v = [fh_version h]" "0 \<le> fh_version h" using w(1) assms(2) by (auto simp: writeUIntBE_def split: if_splits)
  have ver: "js_and (byte_at_or_0 (xs @ bs) (length xs)) 127 = fh_version h"
    using v assms(2) by (simp add: byte_at_or_0_def bs js_and_masks)
  note r = read_at(1) [OF w(2), of "length xs + 1" "xs @ v" "s @ c @ l"] read_at(1) [OF w(4), of "length xs + 2 + length s" "xs @ v @ f @ s" l]
    read_at(1) [OF w(5), of "length xs + 3 + length s" "xs @ v @ f @ s @ c" "[]"]
  have rs: "readIntBE (length s) (xs @ bs) (length xs + 2) = Inr (fh_streamId h)"
    using read_at(2) [of "length s" "fh_streamId h" s "length xs + 2" "xs @ v @ f" "c @ l"] w(3) n by (simp add: bs split: if_splits)
  show "frame_fromBuffer (xs @ bs) (length xs) = Inr h"
    using r rs n ver by (cases ?two) (simp_all add: frame_fromBuffer_def Let_def bs numeral_eq_Suc)
qed

section \<open>Properties\<close>

text \<open>
  C28: the name \<open>getDataTypeNameByCode\<close> prints for a type is read back by \<open>dataTypes.getByName\<close> as the same type, for the simple types and
  for lists, sets, maps, tuples and vectors of them whose map values and tuple members have names without a comma.
\<close>

theorem type_hint_roundtrip:
  assumes "hintable t"
  shows "\<exists>s. getDataTypeNameByCode t = Inr s \<and> getByName s = Inr t"
  using hintable_named [OF assms] by (auto simp: hint_ok_def)

theorem type_hint_roundtrip_witness:
  "\<exists>s. getDataTypeNameByCode (TI dt_map (SubTypes [simple_type dt_text, TI dt_list (SubType (simple_type dt_int)) False False]) False False) = Inr s
    \<and> getByName s = Inr (TI dt_map (SubTypes [simple_type dt_text, TI dt_list (SubType (simple_type dt_int)) False False]) False False)"
proof (rule type_hint_roundtrip)
  show "hintable (TI dt_map (SubTypes [simple_type dt_text, TI dt_list (SubType (simple_type dt_int)) False False]) False False)" by code_simp
qed

text \<open>The greedy group of the expression for maps takes everything up to the last comma, so a map whose value is a map is not read.\<close>

lemma type_hint_nested_map: "getByName ''map<text, map<int, text>>'' = Inl TypeError"
  by code_simp

end
