(* ===== verification/Type_Names.thy ===== *)
theory Type_Names
  imports Cql_Types Uuid
begin

text \<open>
  The parsers of type names of \<^verbatim>\<open>src/lib/encoder.js\<close>: \<open>parseParams\<close>, \<open>parseFqTypeName\<close> for the class names of the server, \<open>parseTypeName\<close>
  for CQL names, \<open>parseKeyTypes\<close> and \<open>_parseUdtName\<close>. Texts are read in place: a position and a length say which part is meant.
\<close>

section \<open>Text\<close>

definition js_substr :: "string \<Rightarrow> nat \<Rightarrow> int \<Rightarrow> string" where
  "js_substr s start len = take (nat len) (drop start s)"

definition at_index :: "string \<Rightarrow> string \<Rightarrow> nat \<Rightarrow> bool" where
  "at_index needle s i \<longleftrightarrow> take (length needle) (drop i s) = needle"

text \<open>\<open>s.indexOf(needle, start)\<close>.\<close>

definition js_indexOf :: "string \<Rightarrow> string \<Rightarrow> nat \<Rightarrow> int" where
  "js_indexOf s needle start =
    (let is = filter (at_index needle s) [start..<Suc (length s)] in if is = [] then - 1 else int (hd is))"

text \<open>
  UTF-8. A text is Latin-1 here, so a code unit takes one or two bytes. Bytes that are not the encoding of such a text decode to
  characters the model has no name for; they are shown as the character SUB.
\<close>

definition utf8_encode :: "string \<Rightarrow> buffer" where
  "utf8_encode s = concat (map (\<lambda>c. let n = int (char_code c) in if n < 128 then [n] else [192 + n div 64, 128 + n mod 64]) s)"

fun utf8_decode :: "buffer \<Rightarrow> string" where
  "utf8_decode [] = []"
| "utf8_decode (b # bs) =
    (if b < 128 then char_of (nat b) # utf8_decode bs
     else case bs of
       [] \<Rightarrow> [char_of (26 :: nat)]
     | d # ds \<Rightarrow>
         if (b = 194 \<or> b = 195) \<and> 128 \<le> d \<and> d < 192 then char_of (nat ((b - 192) * 64 + (d - 128))) # utf8_decode ds
         else char_of (26 :: nat) # utf8_decode (d # ds))"

text \<open>\<open>Buffer.from(s, 'hex')\<close> stops at the first pair that is not hexadecimal.\<close>

fun hex_decode :: "string \<Rightarrow> buffer" where
  "hex_decode (a # b # s) =
    (if is_digit 16 a \<and> is_digit 16 b then int (digit_num a * 16 + digit_num b) # hex_decode s else [])"
| "hex_decode _ = []"

section \<open>Parameters\<close>

text \<open>The state of the loop: where the current parameter starts, the level of nesting and the parameters found.\<close>

definition params_step :: "string \<Rightarrow> char \<Rightarrow> char \<Rightarrow> nat \<times> int \<times> string list \<Rightarrow> nat \<Rightarrow> nat \<times> int \<times> string list" where
  "params_step str open_char close_char st i =
    (let (paramStart, level, types) = st;
         c = (if i < length str then Some (str ! i) else None);
         level = (if c = Some open_char then level + 1 else level);
         level = (if c = Some close_char then level - 1 else level)
     in if level = 0 \<and> c = Some CHR '',''
        then (i + 1, level, types @ [js_substr str paramStart (int i - int paramStart)])
        else (paramStart, level, types))"

definition parseParams :: "string \<Rightarrow> nat \<Rightarrow> int \<Rightarrow> char \<Rightarrow> char \<Rightarrow> string list" where
  "parseParams str startIndex len open_char close_char =
    (let (paramStart, level, types) =
           foldl (params_step str open_char close_char) (startIndex, 0, []) [startIndex..<startIndex + nat len]
     in types @ [js_substr str paramStart (len - (int paramStart - int startIndex))])"

section \<open>Class names\<close>

definition marshal :: "string \<Rightarrow> string" where
  "marshal name = ''org.apache.cassandra.db.marshal.'' @ name"

definition singleTypeNames :: "(string \<times> int) list" where
  "singleTypeNames =
    [(marshal ''UTF8Type'', dt_varchar), (marshal ''AsciiType'', dt_ascii), (marshal ''UUIDType'', dt_uuid),
     (marshal ''TimeUUIDType'', dt_timeuuid), (marshal ''Int32Type'', dt_int), (marshal ''BytesType'', dt_blob),
     (marshal ''FloatType'', dt_float), (marshal ''DoubleType'', dt_double), (marshal ''BooleanType'', dt_boolean),
     (marshal ''InetAddressType'', dt_inet), (marshal ''SimpleDateType'', dt_date), (marshal ''TimeType'', dt_time),
     (marshal ''ShortType'', dt_smallint), (marshal ''ByteType'', dt_tinyint), (marshal ''DateType'', dt_timestamp),
     (marshal ''TimestampType'', dt_timestamp), (marshal ''LongType'', dt_bigint), (marshal ''DecimalType'', dt_decimal),
     (marshal ''IntegerType'', dt_varint), (marshal ''CounterColumnType'', dt_counter)]"

definition singleFqTypeNamesLength :: int where
  "singleFqTypeNamesLength = foldl (\<lambda>m (k, v). if int (length k) > m then int (length k) else m) 0 singleTypeNames"

text \<open>
  A wrapper class (\<open>ReversedType\<close>, \<open>FrozenType\<close>) at the position: the position and the length of what it wraps. The name has to be at the
  position that \<open>indexOf\<close> finds.
\<close>

definition strip_wrapper :: "string \<Rightarrow> bool \<Rightarrow> nat \<times> int \<Rightarrow> (nat \<times> int) \<times> bool" where
  "strip_wrapper name found st =
    (let (startIndex, len) = st in
     if len > int (length name) \<and> found then ((startIndex + length name + 1, len - int (length name + 2)), True)
     else ((startIndex, len), False))"

text \<open>The parameters of a complex class at the position.\<close>

definition class_params :: "string \<Rightarrow> string \<Rightarrow> nat \<Rightarrow> int \<Rightarrow> string list" where
  "class_params typeName name startIndex len =
    parseParams typeName (startIndex + length name + 1) (len - int (length name + 2)) CHR ''('' CHR '')''"

text \<open>\<open>parseVectorTypeArgs\<close> reads the arguments from the start of the text, whatever the position.\<close>

definition vector_args :: "string \<Rightarrow> string \<Rightarrow> (string \<times> js_number) result" where
  "vector_args typeName stringToExclude =
    (let params = parseParams typeName (length stringToExclude + 1) (int (length typeName) - int (length stringToExclude + 2))
           CHR ''('' CHR '')''
     in if length params = 2 then Inr (js_trim (params ! 0), js_parseInt (js_trim (params ! 1)) 10) else Inl TypeError)"

text \<open>The name and the type text of a field of a user-defined type: the position after the first colon.\<close>

definition field_split :: "string \<Rightarrow> string \<times> nat" where
  "field_split p =
    (let separatorIndex = js_indexOf p '':'' 0
     in (utf8_decode (hex_decode (js_substr p 0 separatorIndex)), nat (separatorIndex + 1)))"

subsection \<open>Lengths\<close>

lemma js_substr_length: "length (js_substr s i n) \<le> length s - i"
  by (simp add: js_substr_def)

lemma params_step_lengths:
  assumes "\<forall>p \<in> set (snd (snd st)). length p \<le> length str - k" and "k \<le> fst st" and "fst st \<le> i"
  shows "(\<forall>p \<in> set (snd (snd (params_step str opn cls st i))). length p \<le> length str - k)
    \<and> k \<le> fst (params_step str opn cls st i) \<and> fst (params_step str opn cls st i) \<le> Suc i"
proof -
  obtain ps l ts where st: "st = (ps, l, ts)" by (cases st) auto
  have "length (js_substr str ps n) \<le> length str - k" for n using js_substr_length [of str ps n] assms(2) st by simp
  then show ?thesis using assms st by (auto simp: params_step_def Let_def)
qed

lemma params_fold_lengths:
  assumes "\<forall>p \<in> set (snd (snd st)). length p \<le> length str - k" and "k \<le> fst st" and "fst st \<le> i"
  shows "(\<forall>p \<in> set (snd (snd (foldl (params_step str opn cls) st [i..<j]))). length p \<le> length str - k)
    \<and> k \<le> fst (foldl (params_step str opn cls) st [i..<j])"
  using assms
proof (induction "j - i" arbitrary: i st)
  case (Suc n)
  have ij: "[i..<j] = i # [Suc i..<j]" using Suc.hyps(2) by (simp add: upt_conv_Cons)
  note s = params_step_lengths [OF Suc.prems, of opn cls]
  then show ?case unfolding ij foldl_Cons using Suc.hyps(1) [of "Suc i" "params_step str opn cls st i"] Suc.hyps(2) by auto
qed simp

lemma parseParams_length: "p \<in> set (parseParams str k len opn cls) \<Longrightarrow> length p \<le> length str - k"
proof -
  assume p: "p \<in> set (parseParams str k len opn cls)"
  obtain ps l ts where f: "foldl (params_step str opn cls) (k, 0, []) [k..<k + nat len] = (ps, l, ts)" by (cases "foldl (params_step str opn cls) (k, 0, []) [k..<k + nat len]") auto
  have "(\<forall>p \<in> set ts. length p \<le> length str - k) \<and> k \<le> ps"
    using params_fold_lengths [of "(k, 0, [])" str k k opn cls "k + nat len"] f by simp
  moreover have "length (js_substr str ps n) \<le> length str - ps" for n by (rule js_substr_length)
  ultimately show ?thesis using p f by (auto simp: parseParams_def dest: le_trans [OF _ diff_le_mono2])
qed

lemma at_index_length: "at_index needle s i \<Longrightarrow> needle \<noteq> [] \<Longrightarrow> i + length needle \<le> length s"
  unfolding at_index_def by (metis length_drop length_take min.absorb_iff1 le_diff_conv2 linorder_not_le drop_all take_Nil nat_le_linear add.commute less_imp_le)

lemma class_params_shorter:
  assumes "p \<in> set (class_params typeName name i len)" and "at_index name typeName i" and "name \<noteq> []"
  shows "length p < length typeName"
proof -
  have "length p \<le> length typeName - (i + length name + 1)" using assms(1) unfolding class_params_def by (rule parseParams_length)
  moreover have "i + length name \<le> length typeName" "0 < length name" using at_index_length [OF assms(2,3)] assms(3) by simp_all
  ultimately show ?thesis by linarith
qed

lemma vector_args_shorter:
  assumes "vector_args typeName name = Inr (s, n)" and "at_index name typeName i" and "name \<noteq> []"
  shows "length s < length typeName"
proof -
  let ?ps = "parseParams typeName (length name + 1) (int (length typeName) - int (length name + 2)) CHR ''('' CHR '')''"
  have "length ?ps = 2" "s = js_trim (?ps ! 0)" using assms(1) by (auto simp: vector_args_def Let_def split: if_splits)
  moreover from this have "?ps ! 0 \<in> set ?ps" by (intro nth_mem) simp
  then have "length (?ps ! 0) \<le> length typeName - (length name + 1)" by (rule parseParams_length)
  ultimately show ?thesis using js_trim_length [of "?ps ! 0"] at_index_length [OF assms(2,3)] assms(3) by (cases name) auto
qed

subsection \<open>Fully qualified names\<close>

text \<open>\<open>indexOf(name, i) === i\<close> says that the name is at the position. An omitted or zero length means the whole text.\<close>

function parseFqTypeName :: "string \<Rightarrow> nat \<Rightarrow> int \<Rightarrow> type_info result" where
  "parseFqTypeName typeName startIndex len0 =
    (let len = (if len0 = 0 then int (length typeName) else len0);
         (st1, reversed) = strip_wrapper (marshal ''ReversedType'')
            (js_indexOf typeName (marshal ''ReversedType'') 0 = int startIndex) (startIndex, len);
         (st2, frozen) = strip_wrapper (marshal ''FrozenType'') (at_index (marshal ''FrozenType'') typeName (fst st1)) st1;
         (i, n) = st2
     in if typeName = marshal ''EmptyType'' then Inr (TI dt_custom (CustomName ''empty'') frozen reversed)
        else if n \<le> singleFqTypeNamesLength then
          (let name = (if i > 0 then js_substr typeName i n else typeName)
           in case map_of singleTypeNames name of
                Some typeCode \<Rightarrow> Inr (TI typeCode NoInfo frozen reversed)
              | None \<Rightarrow> if name = marshal ''DurationType'' then Inr (TI dt_duration NoInfo frozen reversed) else Inl TypeError)
        else if at_index (marshal ''ListType'') typeName i then
          (let params = class_params typeName (marshal ''ListType'') i n
           in if length params \<noteq> 1 then Inl TypeError
              else bind_result (map_result (\<lambda>x. parseFqTypeName x 0 0) params) (\<lambda>ts. Inr (TI dt_list (SubType (hd ts)) frozen reversed)))
        else if at_index (marshal ''SetType'') typeName i then
          (let params = class_params typeName (marshal ''SetType'') i n
           in if length params \<noteq> 1 then Inl TypeError
              else bind_result (map_result (\<lambda>x. parseFqTypeName x 0 0) params) (\<lambda>ts. Inr (TI dt_set (SubType (hd ts)) frozen reversed)))
        else if at_index (marshal ''MapType'') typeName i then
          (let params = class_params typeName (marshal ''MapType'') i n
           in if length params \<noteq> 2 then Inl TypeError
              else bind_result (map_result (\<lambda>x. parseFqTypeName x 0 0) params) (\<lambda>ts. Inr (TI dt_map (SubTypes ts) frozen reversed)))
        else if at_index (marshal ''UserType'') typeName i then
          (let params = class_params typeName (marshal ''UserType'') i n
           in if length params < 2 then Inl TypeError
              else bind_result
                (map_result (\<lambda>p. bind_result (parseFqTypeName p (snd (field_split p)) (int (length p) - int (snd (field_split p))))
                    (\<lambda>t. Inr (fst (field_split p), t))) (drop 2 params))
                (\<lambda>fields. Inr (TI dt_udt (UdtInfo (Some (params ! 0)) (utf8_decode (hex_decode (params ! 1))) fields) frozen reversed)))
        else if at_index (marshal ''TupleType'') typeName i then
          bind_result (map_result (\<lambda>x. parseFqTypeName x 0 0) (class_params typeName (marshal ''TupleType'') i n))
            (\<lambda>ts. Inr (TI dt_tuple (SubTypes ts) frozen reversed))
        else if at_index (marshal ''VectorType'') typeName i then
          (case vector_args typeName (marshal ''VectorType'') of
             Inl e \<Rightarrow> Inl e
           | Inr (s, d) \<Rightarrow> bind_result (parseFqTypeName s 0 0) (\<lambda>t. Inr (TI dt_custom (VectorInfo t d) frozen reversed)))
        else Inr (TI dt_custom (CustomName (js_substr typeName i n)) frozen reversed))"
  by pat_completeness auto
termination
  by (relation "measure (\<lambda>(s, i, n). length s)")
    (auto simp: marshal_def intro: class_params_shorter vector_args_shorter dest: in_set_dropD)

declare parseFqTypeName.simps [simp del]

text \<open>\<open>_parseUdtName\<close> by itself, the branch for user-defined types above.\<close>

definition parseUdtName :: "string \<Rightarrow> nat \<Rightarrow> int \<Rightarrow> type_info result" where
  "parseUdtName typeName startIndex len =
    (let udtParams = parseParams typeName startIndex len CHR ''('' CHR '')''
     in if length udtParams < 2 then Inl TypeError
        else bind_result
          (map_result (\<lambda>p. bind_result (parseFqTypeName p (snd (field_split p)) (int (length p) - int (snd (field_split p))))
              (\<lambda>t. Inr (fst (field_split p), t))) (drop 2 udtParams))
          (\<lambda>fields. Inr (TI dt_udt (UdtInfo (Some (udtParams ! 0)) (utf8_decode (hex_decode (udtParams ! 1))) fields) False False)))"

subsection \<open>Composite keys\<close>

record key_scan =
  ks_i :: nat
  ks_start :: nat
  ks_nested :: int
  ks_in_collection :: bool
  ks_has_collections :: bool
  ks_types :: "string list"

definition js_substring :: "string \<Rightarrow> nat \<Rightarrow> nat \<Rightarrow> string" where
  "js_substring s a b = take (max a b - min a b) (drop (min a b) s)"

text \<open>One turn of the loop at the position \<open>ks_i\<close>.\<close>

definition key_step :: "string \<Rightarrow> key_scan \<Rightarrow> key_scan" where
  "key_step s st =
    (let i = ks_i st; c = (if i < length s then Some (s ! i) else None) in
     if c = Some CHR '','' then
       if ks_nested st > 0 then st
       else
         let start = (if ks_in_collection st then nat (js_indexOf s '':'' (ks_start st) + 1) else ks_start st)
         in st\<lparr>ks_types := ks_types st @ [js_substring s start i], ks_start := i + 1\<rparr>
     else if c = Some CHR ''('' then
       if ks_nested st = 0 \<and> at_index (marshal ''ColumnToCollectionType'') s (ks_start st)
       then st\<lparr>ks_in_collection := True, ks_has_collections := True, ks_i := i + 1, ks_start := i + 1\<rparr>
       else st\<lparr>ks_nested := ks_nested st + 1\<rparr>
     else if c = Some CHR '')'' then
       if ks_in_collection st \<and> ks_nested st = 0
       then st\<lparr>ks_types := ks_types st @ [js_substring s (nat (js_indexOf s '':'' (ks_start st) + 1)) i], ks_start := i + 1\<rparr>
       else st\<lparr>ks_nested := ks_nested st - 1\<rparr>
     else st)"

text \<open>The loop \<open>while (++i < length)\<close>.\<close>

lemma key_step_i: "ks_i st \<le> ks_i (key_step s st)"
  by (simp add: key_step_def Let_def)

function key_loop :: "string \<Rightarrow> nat \<Rightarrow> key_scan \<Rightarrow> key_scan" where
  "key_loop s len st =
    (let st = st\<lparr>ks_i := ks_i st + 1\<rparr> in if ks_i st < len then key_loop s len (key_step s st) else st)"
  by pat_completeness auto
termination
proof (relation "measure (\<lambda>(s, len, st). len - ks_i st)", goal_cases)
  case (2 s len st x)
  then show ?case using key_step_i [of x s] by auto
qed simp

record key_types =
  kt_types :: "type_info list"
  kt_hasCollections :: bool
  kt_isComposite :: bool

definition parseKeyTypes :: "string \<Rightarrow> key_types result" where
  "parseKeyTypes typesString =
    (let isComposite = (js_indexOf typesString (marshal ''CompositeType'') 0 = 0);
         i = (if isComposite then length (marshal ''CompositeType'') + 1 else 0);
         len = (if isComposite then length typesString - 1 else length typesString);
         st = key_loop typesString len
           \<lparr>ks_i = i, ks_start = i, ks_nested = 0, ks_in_collection = False, ks_has_collections = False, ks_types = []\<rparr>;
         types = (if ks_start st < len then ks_types st @ [js_substring typesString (ks_start st) len] else ks_types st)
     in bind_result (map_result (\<lambda>name. parseFqTypeName name 0 0) types)
          (\<lambda>ts. Inr \<lparr>kt_types = ts, kt_hasCollections = ks_has_collections st, kt_isComposite = isComposite\<rparr>))"

section \<open>CQL names\<close>

text \<open>\<open>replace('""', '"')\<close> replaces the first occurrence only.\<close>

definition unescape_quotes :: "string \<Rightarrow> string" where
  "unescape_quotes s =
    (let i = js_indexOf s (replicate 2 (CHR 0x22)) 0
     in if i < 0 then s else take (nat i) s @ CHR 0x22 # drop (nat i + 2) s)"

text \<open>
  The resolver looks a user-defined type up by keyspace and name. A parser called without one (the subtype of a vector) raises when it gets
  to it. The angle brackets after a word are skipped unseen.
\<close>

definition inner_types :: "string \<Rightarrow> string \<Rightarrow> nat \<Rightarrow> int \<Rightarrow> string list" where
  "inner_types typeName word i n = parseParams typeName (i + length word + 1) (n - int (length word + 2)) CHR ''<'' CHR ''>''"

lemma inner_types_shorter:
  assumes "p \<in> set (inner_types typeName word i n)" and "at_index word typeName i" and "word \<noteq> []"
  shows "length p < length typeName"
proof -
  have "length p \<le> length typeName - (i + length word + 1)" using assms(1) unfolding inner_types_def by (rule parseParams_length)
  moreover have "i + length word \<le> length typeName" "0 < length word" using at_index_length [OF assms(2,3)] assms(3) by simp_all
  ultimately show ?thesis by linarith
qed

lemma inner_trim_shorter:
  "p \<in> set (inner_types typeName word i n) \<Longrightarrow> at_index word typeName i \<Longrightarrow> word \<noteq> [] \<Longrightarrow> length (js_trim p) < length typeName"
  using inner_types_shorter js_trim_length le_less_trans by blast

type_synonym udt_resolver = "string \<Rightarrow> string \<Rightarrow> info option result"

function parseTypeName :: "string \<Rightarrow> string \<Rightarrow> nat \<Rightarrow> int \<Rightarrow> udt_resolver option \<Rightarrow> type_info result" where
  "parseTypeName keyspace typeName startIndex len0 udtResolver =
    (let len = (if len0 = 0 then int (length typeName) else len0) in
     if at_index [CHR 0x27] typeName startIndex
     then Inr (TI dt_custom (CustomName (js_substr typeName (startIndex + 1) (len - 2))) False False)
     else
       let frozen = at_index ''frozen'' typeName startIndex;
           i = (if frozen then startIndex + 7 else startIndex);
           n = (if frozen then len - 8 else len)
       in if at_index ''list'' typeName i then
            (let innerTypes = inner_types typeName ''list'' i n
             in if length innerTypes \<noteq> 1 then Inl TypeError
                else bind_result (map_result (\<lambda>x. parseTypeName keyspace x 0 0 udtResolver) innerTypes)
                       (\<lambda>ts. Inr (TI dt_list (SubType (hd ts)) frozen False)))
          else if at_index ''set'' typeName i then
            (let innerTypes = inner_types typeName ''set'' i n
             in if length innerTypes \<noteq> 1 then Inl TypeError
                else bind_result (map_result (\<lambda>x. parseTypeName keyspace x 0 0 udtResolver) innerTypes)
                       (\<lambda>ts. Inr (TI dt_set (SubType (hd ts)) frozen False)))
          else if at_index ''map'' typeName i then
            (let innerTypes = inner_types typeName ''map'' i n
             in if length innerTypes \<noteq> 2 then Inl TypeError
                else bind_result (map_result (\<lambda>x. parseTypeName keyspace (js_trim x) 0 0 udtResolver) innerTypes)
                       (\<lambda>ts. Inr (TI dt_map (SubTypes ts) frozen False)))
          else if at_index ''tuple'' typeName i then
            bind_result (map_result (\<lambda>x. parseTypeName keyspace (js_trim x) 0 0 udtResolver) (inner_types typeName ''tuple'' i n))
              (\<lambda>ts. Inr (TI dt_tuple (SubTypes ts) frozen False))
          else if at_index ''vector'' typeName i then
            (case vector_args typeName ''vector'' of
               Inl e \<Rightarrow> Inl e
             | Inr (s, d) \<Rightarrow> bind_result (parseTypeName keyspace s 0 0 None) (\<lambda>t. Inr (TI dt_custom (VectorInfo t d) False False)))
          else
            let quoted = at_index [CHR 0x22] typeName i;
                i = (if quoted then i + 1 else i);
                n = (if quoted then n - 2 else n);
                name = (if i > 0 then js_substr typeName i n else typeName);
                name = (if quoted then unescape_quotes name else name)
            in case map_of dataTypes name of
                 Some typeCode \<Rightarrow> Inr (simple_type typeCode)
               | None \<Rightarrow>
                   if name = ''duration'' then Inr (TI dt_custom (CustomName (marshal ''DurationType'')) False False)
                   else if name = ''empty'' then Inr (TI dt_custom (CustomName ''empty'') False False)
                   else case udtResolver of
                     None \<Rightarrow> Inl TypeError
                   | Some resolve \<Rightarrow>
                       bind_result (resolve keyspace name)
                         (\<lambda>found. case found of Some udtInfo \<Rightarrow> Inr (TI dt_udt udtInfo frozen False) | None \<Rightarrow> Inl TypeError))"
  by pat_completeness auto
termination
  by (relation "measure (\<lambda>(k, s, i, n, r). length s)") (auto intro: inner_types_shorter inner_trim_shorter vector_args_shorter)

declare parseTypeName.simps [simp del]

end
