(* ===== verification/Js_Values.thy ===== *)
theory Js_Values
  imports Js_Numerals Type_Names Inet_Address Local_Date Duration Mutable_Long Utils_Collections
begin

text \<open>
  The JavaScript values the encoder takes and gives. A scalar is a primitive or an instance of a class without elements; the other values
  hold values: arrays, sets, maps, plain objects, and the driver's \<open>Tuple\<close> (\<^verbatim>\<open>src/lib/types/tuple.js\<close>) and \<open>Vector\<close>
  (\<^verbatim>\<open>src/lib/types/vector.js\<close>). Then the conversions of the language the encoder uses: \<open>String\<close>, \<open>Number\<close>, \<open>BigInt\<close>, truth, and
  the reading and enumeration of properties.

  A \<open>Date\<close> is its time value, \<open>None\<close> when it is invalid. \<open>SOther\<close> is an instance of any other class, given by the text it converts to.
\<close>

datatype 'l scalar =
    SUndefined
  | SNull
  | SUnset
  | SBoolean bool
  | SNumber js_double
  | SString string
  | SBigInt int
  | SBuffer buffer
  | SDate "int option"
  | SLong 'l
  | SMutableLong mutable_long
  | SInteger js_integer
  | SBigDecimal big_decimal
  | SUuid buffer
  | STimeUuid buffer
  | SInetAddress buffer
  | SLocalDate local_date
  | SLocalTime local_time
  | SDuration duration
  | SFloat32Array "32 word list"
  | SOther string

datatype 'l jsval =
    JScalar "'l scalar"
  | JArray "'l jsval list"
  | JSet "'l jsval list"
  | JMap "('l jsval \<times> 'l jsval) list"
  | JObject "(string \<times> 'l jsval) list"
  | JTuple "'l jsval list"
  | JVector "'l jsval list" "string option"

abbreviation "JUndefined \<equiv> JScalar SUndefined"
abbreviation "JNull \<equiv> JScalar SNull"
abbreviation "JUnset \<equiv> JScalar SUnset"
abbreviation "JNumber n \<equiv> JScalar (SNumber n)"
abbreviation "JString s \<equiv> JScalar (SString s)"

text \<open>
  What the language leaves to the engine and to code outside the repository: \<open>Date.parse\<close> on texts, the text and the local calendar date of a
  \<open>Date\<close>, \<open>Integer.toString\<close>, the own enumerable properties of a class instance, the inherited ones, the content of fresh memory, and the two
  conversions of the package \<open>long\<close> that \<open>long_bits\<close> does not have.
\<close>

record 'l engine =
  eng_long :: "'l long_bits"
  eng_longFromDouble :: "js_double \<Rightarrow> 'l"
  eng_longFromText :: "string \<Rightarrow> 'l result"
  eng_dateParse :: "string \<Rightarrow> int option"
  eng_dateText :: "int option \<Rightarrow> string"
  eng_localDate :: "int \<Rightarrow> int \<times> int \<times> int"
  eng_integerText :: "js_integer \<Rightarrow> string"
  eng_own :: "'l scalar \<Rightarrow> (string \<times> 'l scalar) list"
  eng_inherited :: "'l jsval \<Rightarrow> string \<Rightarrow> 'l scalar"
  eng_memory :: "nat \<Rightarrow> buffer"

section \<open>Tuples and vectors\<close>

definition new_tuple :: "'l jsval list \<Rightarrow> 'l jsval result" where
  "new_tuple elements = (if elements = [] then Inl TypeError else Inr (JTuple elements))"

definition tuple_fromArray :: "'l jsval list \<Rightarrow> 'l jsval result" where
  "tuple_fromArray elements = new_tuple elements"

definition tuple_get :: "'l jsval list \<Rightarrow> nat \<Rightarrow> 'l jsval" where
  "tuple_get elements index = (if index < length elements then elements ! index else JUndefined)"

text \<open>A \<open>Vector\<close> is made of an array or a \<open>Float32Array\<close>, which is copied to an array.\<close>

fun new_vector :: "'l jsval \<Rightarrow> string option \<Rightarrow> 'l jsval result" where
  "new_vector (JArray elements) subtype = (if elements = [] then Inl TypeError else Inr (JVector elements subtype))"
| "new_vector (JScalar (SFloat32Array xs)) subtype =
    (if xs = [] then Inl TypeError else Inr (JVector (map (\<lambda>x. JNumber (float_to_num x)) xs) subtype))"
| "new_vector _ subtype = Inl TypeError"

text \<open>\<open>value instanceof Vector\<close> holds of \<open>Float32Array\<close>s as well; the elements in iteration order.\<close>

fun vector_elements :: "'l jsval \<Rightarrow> 'l jsval list option" where
  "vector_elements (JVector es subtype) = Some es"
| "vector_elements (JScalar (SFloat32Array xs)) = Some (map (\<lambda>x. JNumber (float_to_num x)) xs)"
| "vector_elements _ = None"

definition vector_at :: "'l jsval list \<Rightarrow> nat \<Rightarrow> 'l jsval" where
  "vector_at elements index = (if index < length elements then elements ! index else JUndefined)"

section \<open>Texts\<close>

definition join_texts :: "string list \<Rightarrow> string" where
  "join_texts ts = concat (case ts of [] \<Rightarrow> [] | w # ws \<Rightarrow> w # map (\<lambda>v. CHR '','' # v) ws)"

definition ml_long :: "'l long_bits \<Rightarrow> mutable_long \<Rightarrow> 'l" where
  "ml_long B m = ml_toImmutable (\<lambda>lo hi unsigned. lb_fromBits B lo hi) m"

fun scalar_text :: "'l engine \<Rightarrow> 'l scalar \<Rightarrow> string" where
  "scalar_text G SUndefined = ''undefined''"
| "scalar_text G SNull = ''null''"
| "scalar_text G SUnset = ''[object Object]''"
| "scalar_text G (SBoolean b) = (if b then ''true'' else ''false'')"
| "scalar_text G (SNumber n) = num_text n"
| "scalar_text G (SString s) = s"
| "scalar_text G (SBigInt i) = (if i < 0 then CHR ''-'' # int_text (- i) else int_text i)"
| "scalar_text G (SBuffer b) = utf8_decode b"
| "scalar_text G (SDate t) = eng_dateText G t"
| "scalar_text G (SLong l) = lb_toString (eng_long G) l"
| "scalar_text G (SMutableLong m) = lb_toString (eng_long G) (ml_long (eng_long G) m)"
| "scalar_text G (SInteger i) = eng_integerText G i"
| "scalar_text G (SBigDecimal d) = bd_format (eng_integerText G (intVal d)) (bscale d)"
| "scalar_text G (SUuid b) = uuid_toString b"
| "scalar_text G (STimeUuid b) = uuid_toString b"
| "scalar_text G (SInetAddress b) = inet_toString False b"
| "scalar_text G (SLocalDate d) = local_date_toString d"
| "scalar_text G (SLocalTime t) = local_time_toString t"
| "scalar_text G (SDuration d) = duration_toString (eng_long G) d"
| "scalar_text G (SFloat32Array xs) = join_texts (map (\<lambda>x. num_text (float_to_num x)) xs)"
| "scalar_text G (SOther s) = s"

text \<open>\<open>String(value)\<close>. \<open>Array.prototype.join\<close> leaves \<open>null\<close> and \<open>undefined\<close> empty, where \<open>Tuple.toString\<close> raises.\<close>

fun js_text :: "'l engine \<Rightarrow> 'l jsval \<Rightarrow> string result" where
  "js_text G (JScalar s) = Inr (scalar_text G s)"
| "js_text G (JArray vs) =
    bind_result (map_result (\<lambda>v. if v = JNull \<or> v = JUndefined then Inr [] else js_text G v) vs) (\<lambda>ts. Inr (join_texts ts))"
| "js_text G (JSet vs) = Inr ''[object Set]''"
| "js_text G (JMap ps) = Inr ''[object Map]''"
| "js_text G (JObject ps) = Inr ''[object Object]''"
| "js_text G (JTuple vs) =
    bind_result (map_result (\<lambda>v. if v = JNull \<or> v = JUndefined then Inl TypeError else js_text G v) vs)
      (\<lambda>ts. Inr (CHR ''('' # join_texts ts @ '')''))"
| "js_text G (JVector vs subtype) =
    bind_result (map_result (\<lambda>v. if v = JNull \<or> v = JUndefined then Inr [] else js_text G v) vs)
      (\<lambda>ts. Inr (CHR ''['' # join_texts ts @ '']''))"

section \<open>Numbers and truth\<close>

fun js_Number :: "'l engine \<Rightarrow> 'l jsval \<Rightarrow> js_double result" where
  "js_Number G (JScalar SUndefined) = Inr js_NaN"
| "js_Number G (JScalar SNull) = Inr (make_num False 0)"
| "js_Number G (JScalar (SBoolean b)) = Inr (num_of_int (if b then 1 else 0))"
| "js_Number G (JScalar (SNumber n)) = Inr n"
| "js_Number G (JScalar (SBigInt i)) = Inl TypeError"
| "js_Number G (JScalar (SDate t)) = Inr (case t of None \<Rightarrow> js_NaN | Some ms \<Rightarrow> num_of_int ms)"
| "js_Number G v = bind_result (js_text G v) (\<lambda>s. Inr (js_Number_text s))"

fun js_BigInt :: "'l engine \<Rightarrow> 'l jsval \<Rightarrow> int result" where
  "js_BigInt G (JScalar SUndefined) = Inl TypeError"
| "js_BigInt G (JScalar SNull) = Inl TypeError"
| "js_BigInt G (JScalar (SBoolean b)) = Inr (if b then 1 else 0)"
| "js_BigInt G (JScalar (SNumber n)) = js_BigInt_number n"
| "js_BigInt G (JScalar (SBigInt i)) = Inr i"
| "js_BigInt G (JScalar (SDate t)) = (case t of None \<Rightarrow> Inl RangeError | Some ms \<Rightarrow> Inr ms)"
| "js_BigInt G v = bind_result (js_text G v) js_BigInt_text"

fun truthy :: "'l jsval \<Rightarrow> bool" where
  "truthy (JScalar SUndefined) \<longleftrightarrow> False"
| "truthy (JScalar SNull) \<longleftrightarrow> False"
| "truthy (JScalar (SBoolean b)) \<longleftrightarrow> b"
| "truthy (JScalar (SNumber n)) \<longleftrightarrow> \<not> num_isNaN n \<and> num_code n \<noteq> 0"
| "truthy (JScalar (SString s)) \<longleftrightarrow> s \<noteq> []"
| "truthy (JScalar (SBigInt i)) \<longleftrightarrow> i \<noteq> 0"
| "truthy _ \<longleftrightarrow> True"

section \<open>Properties\<close>

text \<open>
  A property whose name is an integer index comes before the others, in the order of the numbers, whatever the order of insertion.
\<close>

definition index_name :: "string \<Rightarrow> bool" where
  "index_name s \<longleftrightarrow> s = ''0'' \<or> s \<noteq> [] \<and> list_all (is_digit 10) s \<and> hd s \<noteq> CHR ''0'' \<and> num_value 10 s < 2 ^ 32 - 1"

definition enumerate_props :: "(string \<times> 'v) list \<Rightarrow> (string \<times> 'v) list" where
  "enumerate_props ps =
    sort_key (\<lambda>p. num_value 10 (fst p)) (filter (\<lambda>p. index_name (fst p)) ps) @ filter (\<lambda>p. \<not> index_name (fst p)) ps"

definition indexed :: "'v list \<Rightarrow> (string \<times> 'v) list" where
  "indexed vs = zip (map (\<lambda>i. int_text (int i)) [0..<length vs]) vs"

text \<open>
  The own enumerable properties, as \<open>for ... in\<close> with \<open>hasOwnProperty\<close> visits them. A \<open>Vector\<close> is a proxy whose keys are those of its array,
  the \<open>length\<close> included; sets, maps and tuples have none. No class has a \<open>Float32Array\<close> for a property, which \<open>flat\<close> makes sure of.
\<close>

fun flat :: "'l scalar \<Rightarrow> 'l scalar" where
  "flat (SFloat32Array xs) = SUndefined"
| "flat s = s"

fun own_props :: "'l engine \<Rightarrow> 'l jsval \<Rightarrow> (string \<times> 'l jsval) list" where
  "own_props G (JScalar (SString s)) = indexed (map (\<lambda>c. JString [c]) s)"
| "own_props G (JScalar (SFloat32Array xs)) = indexed (map (\<lambda>x. JNumber (float_to_num x)) xs)"
| "own_props G (JScalar s) = map (\<lambda>(k, v). (k, JScalar (flat v))) (eng_own G s)"
| "own_props G (JArray vs) = indexed vs"
| "own_props G (JObject ps) = enumerate_props ps"
| "own_props G (JVector vs subtype) = indexed vs @ [(''length'', JNumber (num_of_int (int (length vs))))]"
| "own_props G _ = []"

text \<open>\<open>value[name]\<close>.\<close>

definition get_prop :: "'l engine \<Rightarrow> 'l jsval \<Rightarrow> string \<Rightarrow> 'l jsval" where
  "get_prop G v name =
    (case map_of (own_props G v) name of Some x \<Rightarrow> x | None \<Rightarrow> JScalar (flat (eng_inherited G v name)))"

text \<open>\<open>object[name] = value\<close>. Assigning \<open>__proto__\<close> sets the prototype and makes no property.\<close>

fun set_prop :: "(string \<times> 'v) list \<Rightarrow> string \<Rightarrow> 'v \<Rightarrow> (string \<times> 'v) list" where
  "set_prop [] name v = (if name = ''__proto__'' then [] else [(name, v)])"
| "set_prop ((k, x) # ps) name v = (if k = name then (k, v) # ps else (k, x) # set_prop ps name v)"

text \<open>\<open>Map.prototype.set\<close>: keys that are primitives are compared by value, instances are all different.\<close>

definition same_primitive :: "'l scalar \<Rightarrow> 'l scalar \<Rightarrow> bool" where
  "same_primitive s t \<longleftrightarrow>
    (case s of
       SNumber a \<Rightarrow>
         (case t of SNumber b \<Rightarrow> a = b \<or> num_code a = 0 \<and> num_code b = 0 \<or> num_isNaN a \<and> num_isNaN b | _ \<Rightarrow> False)
     | SString a \<Rightarrow> t = SString a
     | SBoolean a \<Rightarrow> t = SBoolean a
     | SBigInt a \<Rightarrow> t = SBigInt a
     | SNull \<Rightarrow> t = SNull
     | SUndefined \<Rightarrow> t = SUndefined
     | _ \<Rightarrow> False)"

definition same_key :: "'l jsval \<Rightarrow> 'l jsval \<Rightarrow> bool" where
  "same_key v w \<longleftrightarrow> (case (v, w) of (JScalar a, JScalar b) \<Rightarrow> same_primitive a b | _ \<Rightarrow> False)"

fun map_set :: "('l jsval \<times> 'l jsval) list \<Rightarrow> 'l jsval \<Rightarrow> 'l jsval \<Rightarrow> ('l jsval \<times> 'l jsval) list" where
  "map_set [] key v = [(key, v)]"
| "map_set ((k, x) # ps) key v = (if same_key k key then (k, v) # ps else (k, x) # map_set ps key v)"

section \<open>Sizes\<close>

text \<open>The elements of a value and its properties are not larger than the value; a scalar has size 0, a \<open>Float32Array\<close> size 1.\<close>

primrec vsize :: "'l jsval \<Rightarrow> nat" where
  "vsize (JScalar s) = (case s of SFloat32Array xs \<Rightarrow> 1 | _ \<Rightarrow> 0)"
| "vsize (JArray vs) = Suc (sum_list (map vsize vs))"
| "vsize (JSet vs) = Suc (sum_list (map vsize vs))"
| "vsize (JMap ps) = Suc (sum_list (map (\<lambda>(a, b). a + b) (map (map_prod vsize vsize) ps)))"
| "vsize (JObject ps) = Suc (sum_list (map snd (map (map_prod id vsize) ps)))"
| "vsize (JTuple vs) = Suc (sum_list (map vsize vs))"
| "vsize (JVector vs subtype) = Suc (sum_list (map vsize vs))"

lemma vsize_members:
  "v \<in> set vs \<Longrightarrow> vsize v \<le> sum_list (map vsize vs)"
  by (simp add: member_le_sum_list)

lemma indexed_members: "(k, v) \<in> set (indexed vs) \<Longrightarrow> v \<in> set vs"
  unfolding indexed_def by (rule set_zip_rightD)

lemma flat_size [simp]: "vsize (JScalar (flat s)) = 0"
  by (cases s) simp_all

lemma own_props_size:
  assumes "(k, x) \<in> set (own_props G v)"
  shows "vsize x \<le> vsize v"
proof (cases v)
  case (JScalar s)
  have "vsize x = 0" using assms unfolding JScalar by (cases s) (auto dest!: indexed_members simp del: vsize.simps(1), auto)
  then show ?thesis by simp
next
  case (JObject ps)
  then have "(k, x) \<in> set ps" using assms by (auto simp: enumerate_props_def)
  then have "vsize x \<in> set (map snd (map (map_prod id vsize) ps))" by force
  then show ?thesis using member_le_sum_list JObject by fastforce
qed (use assms in \<open>auto dest!: indexed_members simp: le_SucI vsize_members\<close>)

lemma get_prop_size: "vsize (get_prop G v name) \<le> vsize v"
proof (cases "map_of (own_props G v) name")
  case (Some x)
  then show ?thesis using own_props_size [OF map_of_SomeD [OF Some]] by (simp add: get_prop_def)
qed (simp add: get_prop_def del: vsize.simps(1))

lemma vector_elements_size: "vector_elements v = Some es \<Longrightarrow> e \<in> set es \<Longrightarrow> vsize e < vsize v"
  by (induction v rule: vector_elements.induct) (auto simp: less_Suc_eq_le vsize_members)

end
