(* ===== verification/Encoder_Scalars.thy ===== *)
theory Encoder_Scalars
  imports Js_Values
begin

text \<open>
  The codecs of \<^verbatim>\<open>src/lib/encoder.js\<close> for the types without elements: one function per method, from the decoders of blobs, texts and
  numbers to the encoders of durations, with the encoder's state (protocol version and options).
\<close>

section \<open>State\<close>

text \<open>The options \<open>set\<close> and \<open>map\<close> hold a constructor: here whether one is given, which then is that of \<open>JSet\<close> and \<open>JMap\<close> values.\<close>

record 'l encoder =
  enc_engine :: "'l engine"
  useUndefinedAsUnset :: bool
  useBigIntAsLong :: bool
  useBigIntAsVarint :: bool
  copyBuffer :: bool
  opt_set :: bool
  opt_map :: bool
  enc_version :: int
  collectionLengthSize :: nat

definition setProtocolVersion :: "int \<Rightarrow> 'l encoder \<Rightarrow> 'l encoder" where
  "setProtocolVersion v E = E\<lparr>enc_version := v, collectionLengthSize := (if uses4BytesCollectionLength v then 4 else 2)\<rparr>"

abbreviation enc_long :: "'l encoder \<Rightarrow> 'l long_bits" where
  "enc_long E \<equiv> eng_long (enc_engine E)"

text \<open>Both handlers give the bytes of the buffer: the copy differs from the reference in its identity only.\<close>

definition handleBufferCopy :: "buffer \<Rightarrow> buffer" where
  "handleBufferCopy buf = map (\<lambda>i. buf ! i) [0..<length buf]"

definition handleBufferRef :: "buffer \<Rightarrow> buffer" where
  "handleBufferRef buf = buf"

definition handleBuffer :: "'l encoder \<Rightarrow> buffer \<Rightarrow> buffer" where
  "handleBuffer E buf = (if copyBuffer E then handleBufferCopy buf else handleBufferRef buf)"

lemma handleBuffer_id [simp]: "handleBuffer E buf = buf"
  by (simp add: handleBuffer_def handleBufferCopy_def handleBufferRef_def map_nth)

section \<open>Lengths\<close>

definition read_int_at :: "nat \<Rightarrow> buffer \<Rightarrow> int \<Rightarrow> int result" where
  "read_int_at n buf off = (if off < 0 then Inl RangeError else readIntBE n buf (nat off))"

definition decodeCollectionLengthV3 :: "buffer \<Rightarrow> int \<Rightarrow> int result" where
  "decodeCollectionLengthV3 bytes off = read_int_at 4 bytes off"

definition decodeCollectionLengthV2 :: "buffer \<Rightarrow> int \<Rightarrow> int result" where
  "decodeCollectionLengthV2 bytes off = (if off < 0 then Inl RangeError else readUIntBE 2 bytes (nat off))"

definition decodeCollectionLength :: "'l encoder \<Rightarrow> buffer \<Rightarrow> int \<Rightarrow> int result" where
  "decodeCollectionLength E = (if collectionLengthSize E = 4 then decodeCollectionLengthV3 else decodeCollectionLengthV2)"

definition getLengthBufferV2 :: "int \<Rightarrow> buffer result" where
  "getLengthBufferV2 n = (if n = 0 then Inr [0, 0] else writeUIntBE 2 n)"

definition getLengthBufferV3 :: "int \<Rightarrow> buffer result" where
  "getLengthBufferV3 n = (if n = 0 then Inr [0, 0, 0, 0] else writeIntBE 4 n)"

definition getLengthBuffer :: "'l encoder \<Rightarrow> int \<Rightarrow> buffer result" where
  "getLengthBuffer E = (if collectionLengthSize E = 4 then getLengthBufferV3 else getLengthBufferV2)"

section \<open>Decoders\<close>

definition decodeBlob :: "'l encoder \<Rightarrow> buffer \<Rightarrow> 'l jsval result" where
  "decodeBlob E bytes = Inr (JScalar (SBuffer (handleBuffer E bytes)))"

definition decodeUtf8String :: "buffer \<Rightarrow> 'l jsval result" where
  "decodeUtf8String bytes = Inr (JString (utf8_decode bytes))"

text \<open>\<open>toString('ascii')\<close> clears the highest bit of each byte.\<close>

definition ascii_decode :: "buffer \<Rightarrow> string" where
  "ascii_decode bytes = map (\<lambda>b. char_of (nat (b mod 128))) bytes"

definition decodeAsciiString :: "buffer \<Rightarrow> 'l jsval result" where
  "decodeAsciiString bytes = Inr (JString (ascii_decode bytes))"

definition decodeBoolean :: "buffer \<Rightarrow> 'l jsval result" where
  "decodeBoolean bytes = bind_result (readUIntBE 1 bytes 0) (\<lambda>b. Inr (JScalar (SBoolean (b \<noteq> 0))))"

definition decodeDouble :: "buffer \<Rightarrow> 'l jsval result" where
  "decodeDouble bytes = bind_result (readDoubleBE bytes 0) (\<lambda>n. Inr (JNumber n))"

definition decodeFloat :: "buffer \<Rightarrow> 'l jsval result" where
  "decodeFloat bytes = bind_result (readFloatBE bytes 0) (\<lambda>n. Inr (JNumber n))"

definition decodeInt :: "buffer \<Rightarrow> 'l jsval result" where
  "decodeInt bytes = bind_result (readIntBE 4 bytes 0) (\<lambda>n. Inr (JNumber (num_of_int n)))"

definition decodeSmallint :: "buffer \<Rightarrow> 'l jsval result" where
  "decodeSmallint bytes = bind_result (readIntBE 2 bytes 0) (\<lambda>n. Inr (JNumber (num_of_int n)))"

definition decodeTinyint :: "buffer \<Rightarrow> 'l jsval result" where
  "decodeTinyint bytes = bind_result (readIntBE 1 bytes 0) (\<lambda>n. Inr (JNumber (num_of_int n)))"

definition long_fromBuffer :: "'l long_bits \<Rightarrow> buffer \<Rightarrow> 'l result" where
  "long_fromBuffer B bytes =
    bind_result (readIntBE 4 bytes 4) (\<lambda>low. bind_result (readIntBE 4 bytes 0) (\<lambda>high. Inr (lb_fromBits B low high)))"

definition decodeCqlLongAsLong :: "'l encoder \<Rightarrow> buffer \<Rightarrow> 'l jsval result" where
  "decodeCqlLongAsLong E bytes = bind_result (long_fromBuffer (enc_long E) bytes) (\<lambda>l. Inr (JScalar (SLong l)))"

definition decodeCqlLongAsBigInt :: "buffer \<Rightarrow> 'l jsval result" where
  "decodeCqlLongAsBigInt bytes =
    bind_result (readUIntBE 4 bytes 0) (\<lambda>high. bind_result (readUIntBE 4 bytes 4) (\<lambda>low.
      Inr (JScalar (SBigInt (signed_take_bit 63 (push_bit 32 high OR low))))))"

definition decodeLong :: "'l encoder \<Rightarrow> buffer \<Rightarrow> 'l jsval result" where
  "decodeLong E bytes = (if useBigIntAsLong E then decodeCqlLongAsBigInt bytes else decodeCqlLongAsLong E bytes)"

definition decodeVarintAsInteger :: "buffer \<Rightarrow> 'l jsval result" where
  "decodeVarintAsInteger bytes = Inr (JScalar (SInteger (integer_fromBuffer bytes)))"

text \<open>The loops go from the last byte to the first. The buffer is not empty (\<open>decode\<close> gives \<open>null\<close> for an empty one).\<close>

definition decodeVarintAsBigInt :: "buffer \<Rightarrow> 'l jsval result" where
  "decodeVarintAsBigInt bytes =
    (let n = length bytes;
         result = (if bytes ! 0 \<le> 127
           then foldl (\<lambda>result i. result OR push_bit (8 * i) (bytes ! (n - 1 - i))) 0 [0..<n]
           else NOT (foldl (\<lambda>result i. result OR push_bit (8 * i) (NOT (bytes ! (n - 1 - i)) AND 255)) 0 [0..<n]))
     in Inr (JScalar (SBigInt result)))"

definition decodeVarint :: "'l encoder \<Rightarrow> buffer \<Rightarrow> 'l jsval result" where
  "decodeVarint E bytes = (if useBigIntAsVarint E then decodeVarintAsBigInt bytes else decodeVarintAsInteger bytes)"

definition decodeDecimal :: "buffer \<Rightarrow> 'l jsval result" where
  "decodeDecimal bytes = bind_result (bd_fromBuffer bytes) (\<lambda>d. Inr (JScalar (SBigDecimal d)))"

text \<open>\<open>new Date(n)\<close> is invalid beyond 100 000 000 days from the epoch.\<close>

definition new_date :: "int \<Rightarrow> int option" where
  "new_date ms = (if \<bar>ms\<bar> \<le> 8640000000000000 then Some ms else None)"

definition decodeTimestamp :: "'l encoder \<Rightarrow> buffer \<Rightarrow> 'l jsval result" where
  "decodeTimestamp E bytes =
    bind_result (long_fromBuffer (enc_long E) bytes) (\<lambda>l. Inr (JScalar (SDate (new_date (lb_toNumber (enc_long E) l)))))"

definition decodeDate :: "buffer \<Rightarrow> 'l jsval result" where
  "decodeDate bytes = bind_result (local_date_fromBuffer bytes) (\<lambda>d. Inr (JScalar (SLocalDate d)))"

definition decodeTime :: "'l encoder \<Rightarrow> buffer \<Rightarrow> 'l jsval result" where
  "decodeTime E bytes = bind_result (local_time_fromBuffer (enc_long E) bytes) (\<lambda>t. Inr (JScalar (SLocalTime t)))"

definition decodeUuid :: "'l encoder \<Rightarrow> buffer \<Rightarrow> 'l jsval result" where
  "decodeUuid E bytes = bind_result (new_uuid (handleBuffer E bytes)) (\<lambda>u. Inr (JScalar (SUuid u)))"

definition decodeTimeUuid :: "'l encoder \<Rightarrow> buffer \<Rightarrow> 'l jsval result" where
  "decodeTimeUuid E bytes = bind_result (new_timeuuid_buffer (handleBuffer E bytes)) (\<lambda>u. Inr (JScalar (STimeUuid u)))"

definition decodeInet :: "'l encoder \<Rightarrow> buffer \<Rightarrow> 'l jsval result" where
  "decodeInet E bytes = bind_result (new_inet (handleBuffer E bytes)) (\<lambda>a. Inr (JScalar (SInetAddress a)))"

definition decodeDuration :: "'l encoder \<Rightarrow> buffer \<Rightarrow> 'l jsval result" where
  "decodeDuration E bytes = bind_result (duration_fromBuffer (enc_long E) bytes) (\<lambda>d. Inr (JScalar (SDuration d)))"

section \<open>Encoders\<close>

text \<open>A number, or a text that \<open>parseFloat\<close> reads as one.\<close>

definition float_value :: "'l jsval \<Rightarrow> js_double result" where
  "float_value v =
    (case v of
       JScalar (SString s) \<Rightarrow> if num_isNaN (js_parseFloat s) then Inl TypeError else Inr (js_parseFloat s)
     | JScalar (SNumber n) \<Rightarrow> Inr n
     | _ \<Rightarrow> Inl TypeError)"

definition encodeFloat :: "'l jsval \<Rightarrow> buffer result" where
  "encodeFloat v = bind_result (float_value v) (\<lambda>n. Inr (writeFloatBE n))"

definition encodeDouble :: "'l jsval \<Rightarrow> buffer result" where
  "encodeDouble v = bind_result (float_value v) (\<lambda>n. Inr (writeDoubleBE n))"

definition long_toBuffer :: "'l long_bits \<Rightarrow> 'l \<Rightarrow> buffer result" where
  "long_toBuffer B l =
    bind_result (writeUIntBE 4 (lb_getHighBitsUnsigned B l)) (\<lambda>hi.
    bind_result (writeUIntBE 4 (lb_getLowBitsUnsigned B l)) (\<lambda>lo. Inr (hi @ lo)))"

definition encodeBigIntFromLong :: "'l encoder \<Rightarrow> 'l jsval \<Rightarrow> buffer result" where
  "encodeBigIntFromLong E v =
    (case v of
       JScalar (SNumber n) \<Rightarrow> long_toBuffer (enc_long E) (eng_longFromDouble (enc_engine E) n)
     | JScalar (SString s) \<Rightarrow> bind_result (eng_longFromText (enc_engine E) s) (long_toBuffer (enc_long E))
     | JScalar (SLong l) \<Rightarrow> long_toBuffer (enc_long E) l
     | JScalar (SMutableLong m) \<Rightarrow> long_toBuffer (enc_long E) (ml_long (enc_long E) m)
     | _ \<Rightarrow> Inl TypeError)"

text \<open>\<open>Number(i) >>> 0\<close>.\<close>

definition num_to_uint32 :: "js_double \<Rightarrow> int" where
  "num_to_uint32 w = (if num_isFinite w then to_uint32 (num_trunc w) else 0)"

definition encodeBigIntFromBigInt :: "'l jsval \<Rightarrow> buffer result" where
  "encodeBigIntFromBigInt v =
    bind_result (case v of JScalar (SString s) \<Rightarrow> js_BigInt_text s | JScalar (SBigInt i) \<Rightarrow> Inr i | _ \<Rightarrow> Inl TypeError) (\<lambda>value.
    bind_result (writeUIntBE 4 (num_to_uint32 (num_of_int (drop_bit 32 value)))) (\<lambda>hi.
    bind_result (writeUIntBE 4 (num_trunc (num_of_int (value AND 4294967295)))) (\<lambda>lo. Inr (hi @ lo))))"

definition encodeLong :: "'l encoder \<Rightarrow> 'l jsval \<Rightarrow> buffer result" where
  "encodeLong E v = (if useBigIntAsLong E then encodeBigIntFromBigInt v else encodeBigIntFromLong E v)"

definition encodeTimestamp :: "'l encoder \<Rightarrow> 'l jsval \<Rightarrow> buffer result" where
  "encodeTimestamp E v =
    (let v1 = (case v of JScalar (SString s) \<Rightarrow> JScalar (SDate (eng_dateParse (enc_engine E) s)) | _ \<Rightarrow> v) in
     bind_result
       (case v1 of
          JScalar (SDate t) \<Rightarrow> (case t of None \<Rightarrow> Inl TypeError | Some ms \<Rightarrow> Inr (JNumber (num_of_int ms)))
        | _ \<Rightarrow> Inr v1) (\<lambda>v2.
     if useBigIntAsLong E then bind_result (js_BigInt (enc_engine E) v2) (\<lambda>i. encodeLong E (JScalar (SBigInt i)))
     else encodeLong E v2))"

text \<open>Whatever is raised inside the \<open>try\<close> is wrapped into a \<open>TypeError\<close>.\<close>

definition as_type_error :: "'a result \<Rightarrow> 'a result" where
  "as_type_error r = (case r of Inl e \<Rightarrow> Inl TypeError | Inr x \<Rightarrow> Inr x)"

definition encodeDate :: "'l encoder \<Rightarrow> 'l jsval \<Rightarrow> buffer result" where
  "encodeDate E v =
    bind_result
      (case v of
         JScalar (SString s) \<Rightarrow> as_type_error (local_date_fromString s)
       | JScalar (SDate t) \<Rightarrow>
           as_type_error (local_date_fromDate (case t of None \<Rightarrow> None | Some ms \<Rightarrow> Some (eng_localDate (enc_engine E) ms)))
       | JScalar (SLocalDate d) \<Rightarrow> Inr d
       | _ \<Rightarrow> Inl TypeError) local_date_toBuffer"

definition encodeTime :: "'l encoder \<Rightarrow> 'l jsval \<Rightarrow> buffer result" where
  "encodeTime E v =
    bind_result
      (case v of
         JScalar (SString s) \<Rightarrow> as_type_error (local_time_fromString (enc_long E) s)
       | JScalar (SLocalTime t) \<Rightarrow> Inr t
       | _ \<Rightarrow> Inl TypeError) (local_time_toBuffer (enc_long E))"

definition encodeUuid :: "'l jsval \<Rightarrow> buffer result" where
  "encodeUuid v =
    (case v of
       JScalar (SString s) \<Rightarrow> as_type_error (uuid_fromString s)
     | JScalar (SUuid b) \<Rightarrow> Inr b
     | JScalar (STimeUuid b) \<Rightarrow> Inr b
     | _ \<Rightarrow> Inl TypeError)"

definition encodeInet :: "'l encoder \<Rightarrow> 'l jsval \<Rightarrow> buffer result" where
  "encodeInet E v =
    (case v of
       JScalar (SString s) \<Rightarrow> inet_fromString (eng_memory (enc_engine E) 16) s
     | JScalar (SInetAddress b) \<Rightarrow> Inr b
     | JScalar (SBuffer b) \<Rightarrow> Inr b
     | _ \<Rightarrow> Inl TypeError)"

definition encodeVarintFromInteger :: "'l jsval \<Rightarrow> buffer result" where
  "encodeVarintFromInteger v =
    (case v of
       JScalar (SNumber n) \<Rightarrow> Inr (integer_toBuffer (integer_fromNumber (num_js_number n)))
     | JScalar (SString s) \<Rightarrow> bind_result (integer_fromString s 10) (\<lambda>i. Inr (integer_toBuffer i))
     | JScalar (SBuffer b) \<Rightarrow> Inr b
     | JScalar (SInteger i) \<Rightarrow> Inr (integer_toBuffer i)
     | _ \<Rightarrow> Inl TypeError)"

text \<open>The bytes of an integer down to where only its sign is left: 0 or -1.\<close>

function sign_parts :: "int \<Rightarrow> buffer \<Rightarrow> buffer" where
  "sign_parts value parts =
    (if value = 0 \<or> value = - 1 then parts else sign_parts (drop_bit 8 value) ((value AND 255) # parts))"
  by pat_completeness auto
termination
proof (relation "measure (\<lambda>(v, p). nat \<bar>v\<bar>)", goal_cases)
  case (2 v p)
  then show ?case by (auto simp: drop_bit_eq_div)
qed simp

declare sign_parts.simps [simp del]

definition encodeVarintFromBigInt :: "'l jsval \<Rightarrow> buffer result" where
  "encodeVarintFromBigInt v =
    bind_result (case v of JScalar (SString s) \<Rightarrow> js_BigInt_text s | JScalar (SBigInt i) \<Rightarrow> Inr i | _ \<Rightarrow> Inl TypeError) (\<lambda>value.
      if value = 0 then Inr [0]
      else if value = - 1 then Inr [255]
      else let parts = sign_parts value []
           in if value > 0 then Inr (if hd parts > 127 then 0 # parts else parts)
              else Inr (if hd parts \<le> 127 then 255 # parts else parts))"

definition encodeVarint :: "'l encoder \<Rightarrow> 'l jsval \<Rightarrow> buffer result" where
  "encodeVarint E v = (if useBigIntAsVarint E then encodeVarintFromBigInt v else encodeVarintFromInteger v)"

definition encodeDecimal :: "'l jsval \<Rightarrow> buffer result" where
  "encodeDecimal v =
    bind_result
      (case v of
         JScalar (SNumber n) \<Rightarrow> bd_fromNumber n
       | JScalar (SString s) \<Rightarrow> bd_fromString s
       | JScalar (SBigDecimal d) \<Rightarrow> Inr d
       | _ \<Rightarrow> Inl TypeError) bd_toBuffer"

text \<open>\<open>Buffer.from(s, 'ascii')\<close> keeps the low byte of each code unit.\<close>

definition encodeString :: "(string \<Rightarrow> buffer) \<Rightarrow> 'l jsval \<Rightarrow> buffer result" where
  "encodeString encoding v = (case v of JScalar (SString s) \<Rightarrow> Inr (encoding s) | _ \<Rightarrow> Inl TypeError)"

definition encodeUtf8String :: "'l jsval \<Rightarrow> buffer result" where
  "encodeUtf8String v = encodeString utf8_encode v"

definition encodeAsciiString :: "'l jsval \<Rightarrow> buffer result" where
  "encodeAsciiString v = encodeString (map (\<lambda>c. int (char_code c))) v"

definition encodeBlob :: "'l jsval \<Rightarrow> buffer result" where
  "encodeBlob v = (case v of JScalar (SBuffer b) \<Rightarrow> Inr b | _ \<Rightarrow> Inl TypeError)"

definition encodeBoolean :: "'l jsval \<Rightarrow> buffer result" where
  "encodeBoolean v = Inr (if truthy v then [1] else [0])"

text \<open>\<open>isNaN(value)\<close> converts the value to a number, and so does the write.\<close>

definition encode_number :: "nat \<Rightarrow> 'l encoder \<Rightarrow> 'l jsval \<Rightarrow> buffer result" where
  "encode_number n E v =
    bind_result (js_Number (enc_engine E) v) (\<lambda>w. if num_isNaN w then Inl TypeError else write_number n w)"

definition encodeInt :: "'l encoder \<Rightarrow> 'l jsval \<Rightarrow> buffer result" where
  "encodeInt E v = encode_number 4 E v"

definition encodeSmallint :: "'l encoder \<Rightarrow> 'l jsval \<Rightarrow> buffer result" where
  "encodeSmallint E v = encode_number 2 E v"

definition encodeTinyint :: "'l encoder \<Rightarrow> 'l jsval \<Rightarrow> buffer result" where
  "encodeTinyint E v = encode_number 1 E v"

definition encodeDuration :: "'l encoder \<Rightarrow> 'l jsval \<Rightarrow> buffer result" where
  "encodeDuration E v =
    (case v of
       JScalar (SDuration d) \<Rightarrow>
         (let m = eng_memory (enc_engine E) in Inr (fst (duration_toBuffer (enc_long E) d (m 9, m 9, m 9))))
     | _ \<Rightarrow> Inl TypeError)"

end
