(* ===== verification/Encoder.thy ===== *)
theory Encoder
  imports Encoder_Scalars
begin

text \<open>
  The class \<open>Encoder\<close> of \<^verbatim>\<open>src/lib/encoder.js\<close>: the guess of a type from a value, \<open>encode\<close> and \<open>decode\<close>, and the codecs of the types with
  elements. A codec of that kind takes \<open>encode\<close> or \<open>decode\<close> as its first argument, for the elements, and the two functions are tied
  together at the end.
\<close>

section \<open>Types as arguments\<close>

text \<open>
  What \<open>encode\<close> takes for type information: nothing, a code, the name of a type, a type, or an object without a code. The elements of
  the \<open>info\<close> of a type are used the same way.
\<close>

datatype type_arg = NoType | CodeArg int | NameArg string | InfoArg type_info | BadArg

fun info_arg :: "info \<Rightarrow> type_arg" where
  "info_arg NoInfo = NoType"
| "info_arg (SubType t) = InfoArg t"
| "info_arg (UdtName s) = NameArg s"
| "info_arg (CustomName s) = NameArg s"
| "info_arg _ = BadArg"

fun number_arg :: "js_number \<Rightarrow> type_arg" where
  "number_arg (JsInt n) = CodeArg n"
| "number_arg _ = NoType"

text \<open>The elements of \<open>info\<close> by index, where it is an array or a text. An object has no \<open>length\<close>, so a loop over it does nothing.\<close>

fun info_items :: "info \<Rightarrow> type_arg list" where
  "info_items (SubTypes ts) = map InfoArg ts"
| "info_items (VectorInfo t n) = [InfoArg t, number_arg n]"
| "info_items (UdtName s) = map (\<lambda>c. NameArg [c]) s"
| "info_items (CustomName s) = map (\<lambda>c. NameArg [c]) s"
| "info_items _ = []"

definition info_item :: "info \<Rightarrow> nat \<Rightarrow> type_arg" where
  "info_item info i = (if i < length (info_items info) then info_items info ! i else NoType)"

section \<open>Guessing a type\<close>

definition vector_type :: "type_info \<Rightarrow> js_number \<Rightarrow> type_info" where
  "vector_type t n = TI dt_custom (VectorInfo t n) False False"

fun guess_scalar :: "'l scalar \<Rightarrow> type_info option result" where
  "guess_scalar (SNumber n) = Inr (Some (simple_type dt_double))"
| "guess_scalar (SString s) = Inr (Some (simple_type (if length s = 36 \<and> uuidRegex s then dt_uuid else dt_text)))"
| "guess_scalar (SBoolean b) = Inr (Some (simple_type dt_boolean))"
| "guess_scalar (SBuffer b) = Inr (Some (simple_type dt_blob))"
| "guess_scalar (SDate t) = Inr (Some (simple_type dt_timestamp))"
| "guess_scalar (SLong l) = Inr (Some (simple_type dt_bigint))"
| "guess_scalar (SInteger i) = Inr (Some (simple_type dt_varint))"
| "guess_scalar (SBigDecimal d) = Inr (Some (simple_type dt_decimal))"
| "guess_scalar (SUuid b) = Inr (Some (simple_type dt_uuid))"
| "guess_scalar (STimeUuid b) = Inr (Some (simple_type dt_uuid))"
| "guess_scalar (SInetAddress b) = Inr (Some (simple_type dt_inet))"
| "guess_scalar (SLocalDate d) = Inr (Some (simple_type dt_date))"
| "guess_scalar (SLocalTime t) = Inr (Some (simple_type dt_time))"
| "guess_scalar (SDuration d) = Inr (Some (TI dt_custom (CustomName (marshal ''DurationType'')) False False))"
| "guess_scalar (SFloat32Array xs) =
    (if xs = [] then Inl TypeError else Inr (Some (vector_type (simple_type dt_float) (JsInt (int (length xs))))))"
| "guess_scalar _ = Inr None"

text \<open>The subtype of a vector is its own, where it can be read, or else the type of the first element.\<close>

definition named_subtype :: "string option \<Rightarrow> type_info option" where
  "named_subtype subtype =
    (case subtype of Some s \<Rightarrow> if s = [] then None else (case getByName s of Inr t \<Rightarrow> Some t | Inl e \<Rightarrow> None) | None \<Rightarrow> None)"

fun guessDataType :: "'l jsval \<Rightarrow> type_info option result" where
  "guessDataType (JScalar s) = guess_scalar s"
| "guessDataType (JTuple es) = Inr (Some (simple_type dt_tuple))"
| "guessDataType (JVector [] subtype) = Inl TypeError"
| "guessDataType (JVector (e # es) subtype) =
    bind_result (case named_subtype subtype of Some t \<Rightarrow> Inr (Some t) | None \<Rightarrow> guessDataType e)
      (\<lambda>found. case found of
         Some t \<Rightarrow> Inr (Some (vector_type t (JsInt (int (length (e # es))))))
       | None \<Rightarrow> Inl TypeError)"
| "guessDataType (JArray es) = Inr (Some (simple_type dt_list))"
| "guessDataType _ = Inr None"

text \<open>The type of the call: an argument that is falsy (nothing, the code 0, the empty name) leaves it to the guess.\<close>

fun resolve_type :: "'l jsval \<Rightarrow> type_arg \<Rightarrow> type_info result" where
  "resolve_type v BadArg = Inl TypeError"
| "resolve_type v (InfoArg t) = Inr t"
| "resolve_type v (CodeArg n) =
    (if n = 0 then bind_result (guessDataType v) (\<lambda>found. case found of Some t \<Rightarrow> Inr t | None \<Rightarrow> Inl TypeError)
     else Inr (simple_type n))"
| "resolve_type v (NameArg s) =
    (if s = [] then bind_result (guessDataType v) (\<lambda>found. case found of Some t \<Rightarrow> Inr t | None \<Rightarrow> Inl TypeError)
     else getByName s)"
| "resolve_type v NoType = bind_result (guessDataType v) (\<lambda>found. case found of Some t \<Rightarrow> Inr t | None \<Rightarrow> Inl TypeError)"

section \<open>Encoding with elements\<close>

text \<open>\<open>null\<close> for a null value, \<open>undefined\<close> for an unset one.\<close>

datatype encoded = EBytes buffer | ENull | EUndefined

type_synonym 'l encode_fun = "'l jsval \<Rightarrow> type_arg \<Rightarrow> encoded result"

definition bytes_result :: "buffer result \<Rightarrow> encoded result" where
  "bytes_result r = bind_result r (\<lambda>b. Inr (EBytes b))"

fun encoded_length :: "encoded \<Rightarrow> int" where
  "encoded_length (EBytes b) = int (length b)"
| "encoded_length _ = 0"

text \<open>\<open>Buffer.concat\<close> raises when a part is not a buffer.\<close>

fun buffer_concat :: "encoded list \<Rightarrow> encoded result" where
  "buffer_concat [] = Inr (EBytes [])"
| "buffer_concat (EBytes b # ps) =
    bind_result (buffer_concat ps) (\<lambda>r. case r of EBytes c \<Rightarrow> Inr (EBytes (b @ c)) | _ \<Rightarrow> Inl TypeError)"
| "buffer_concat (_ # ps) = Inl TypeError"

definition nullish :: "'l jsval \<Rightarrow> bool" where
  "nullish v \<longleftrightarrow> v = JNull \<or> v = JUndefined \<or> v = JUnset"

definition list_item :: "'l encode_fun \<Rightarrow> 'l encoder \<Rightarrow> type_arg \<Rightarrow> 'l jsval \<Rightarrow> encoded list result" where
  "list_item enc E a val =
    (if nullish val then Inl TypeError
     else bind_result (enc val a) (\<lambda>b. bind_result (getLengthBuffer E (encoded_length b)) (\<lambda>l. Inr [EBytes l, b])))"

definition encodeList :: "'l encode_fun \<Rightarrow> 'l encoder \<Rightarrow> 'l jsval \<Rightarrow> type_info \<Rightarrow> encoded result" where
  "encodeList enc E v t =
    (case v of
       JArray vs \<Rightarrow>
         if vs = [] then Inr ENull
         else bind_result (getLengthBuffer E (int (length vs))) (\<lambda>n.
           bind_result (map_result (list_item enc E (info_arg (ti_info t))) vs) (\<lambda>parts.
           buffer_concat (EBytes n # concat parts)))
     | _ \<Rightarrow> Inl TypeError)"

definition encodeSet :: "'l encode_fun \<Rightarrow> 'l encoder \<Rightarrow> 'l jsval \<Rightarrow> type_info \<Rightarrow> encoded result" where
  "encodeSet enc E v t =
    (case v of JSet vs \<Rightarrow> if opt_set E then encodeList enc E (JArray vs) t else encodeList enc E v t | _ \<Rightarrow> encodeList enc E v t)"

text \<open>The key and the value of an entry, as \<open>addItem\<close> adds them. A value that is encoded as \<open>null\<close> leaves its length 0 only.\<close>

definition addItem :: "'l encode_fun \<Rightarrow> 'l encoder \<Rightarrow> info \<Rightarrow> 'l jsval \<times> 'l jsval \<Rightarrow> encoded list result" where
  "addItem enc E info entry =
    (let (key, val) = entry in
     if nullish key then Inl TypeError
     else if nullish val then Inl TypeError
     else bind_result (enc key (info_item info 0)) (\<lambda>k.
       bind_result (getLengthBuffer E (encoded_length k)) (\<lambda>kl.
       bind_result (enc val (info_item info 1)) (\<lambda>x.
       bind_result (getLengthBuffer E (encoded_length x)) (\<lambda>xl.
         Inr ([EBytes kl, k, EBytes xl] @ (if x = ENull then [] else [x])))))))"

definition map_entries :: "'l encoder \<Rightarrow> 'l jsval \<Rightarrow> ('l jsval \<times> 'l jsval) list" where
  "map_entries E v =
    (let props = map (\<lambda>(k, x). (JString k, x)) (own_props (enc_engine E) v)
     in case v of JMap ps \<Rightarrow> if opt_map E then ps else props | _ \<Rightarrow> props)"

definition encodeMap :: "'l encode_fun \<Rightarrow> 'l encoder \<Rightarrow> 'l jsval \<Rightarrow> type_info \<Rightarrow> encoded result" where
  "encodeMap enc E v t =
    bind_result (map_result (addItem enc E (ti_info t)) (map_entries E v)) (\<lambda>parts.
    bind_result (getLengthBuffer E (int (length (map_entries E v)))) (\<lambda>n.
    buffer_concat (EBytes n # concat parts)))"

definition nullValueBuffer :: buffer where
  "nullValueBuffer = [255, 255, 255, 255]"

text \<open>A field: its length and its bytes. An unset field is \<open>undefined\<close> here, so that it is written as \<open>null\<close> too.\<close>

fun field_bytes :: "encoded \<Rightarrow> buffer result" where
  "field_bytes (EBytes b) = bind_result (writeIntBE 4 (int (length b))) (\<lambda>l. Inr (l @ b))"
| "field_bytes _ = Inr nullValueBuffer"

definition encodeUdt :: "'l encode_fun \<Rightarrow> 'l encoder \<Rightarrow> 'l jsval \<Rightarrow> type_info \<Rightarrow> encoded result" where
  "encodeUdt enc E v t =
    (case ti_info t of
       UdtInfo ks n fs \<Rightarrow>
         bind_result (map_result (\<lambda>(name, ft). bind_result (enc (get_prop (enc_engine E) v name) (InfoArg ft)) field_bytes) fs)
           (\<lambda>parts. Inr (EBytes (concat parts)))
     | _ \<Rightarrow> Inl TypeError)"

text \<open>\<open>value.length\<close> as \<open>Math.min\<close> converts it.\<close>

definition value_length :: "'l engine \<Rightarrow> 'l jsval \<Rightarrow> js_double result" where
  "value_length G v =
    (case v of
       JArray vs \<Rightarrow> Inr (num_of_int (int (length vs)))
     | JScalar (SString s) \<Rightarrow> Inr (num_of_int (int (length s)))
     | JScalar (SFloat32Array xs) \<Rightarrow> Inr (num_of_int (int (length xs)))
     | _ \<Rightarrow> js_Number G (get_prop G v ''length''))"

definition encodeTuple :: "'l encode_fun \<Rightarrow> 'l encoder \<Rightarrow> 'l jsval \<Rightarrow> type_info \<Rightarrow> encoded result" where
  "encodeTuple enc E v t =
    (if ti_info t = NoInfo then Inl TypeError
     else let items = info_items (ti_info t) in
       case v of
         JTuple es \<Rightarrow>
           bind_result (map_result (\<lambda>(a, e). bind_result (enc e a) field_bytes) (zip items es)) (\<lambda>parts. Inr (EBytes (concat parts)))
       | _ \<Rightarrow>
           bind_result (value_length (enc_engine E) v) (\<lambda>n.
             if items = [] \<or> num_isNaN n \<or> num_negative n \<or> num_code n = 0 then Inr (EBytes []) else Inl TypeError))"

fun times_number :: "int \<Rightarrow> js_number \<Rightarrow> js_number" where
  "times_number k (JsInt n) = JsInt (k * n)"
| "times_number k n = n"

fun serializationSizeIfFixed :: "type_info \<Rightarrow> js_number" where
  "serializationSizeIfFixed (TI code info f r) =
    (if code = dt_bigint then JsInt 8
     else if code = dt_boolean then JsInt 1
     else if code = dt_timestamp then JsInt 8
     else if code = dt_double then JsInt 8
     else if code = dt_float then JsInt 4
     else if code = dt_int then JsInt 4
     else if code = dt_timeuuid then JsInt 16
     else if code = dt_uuid then JsInt 16
     else if code = dt_custom then
       (case info of
          VectorInfo t n \<Rightarrow>
            (case serializationSizeIfFixed t of JsInt k \<Rightarrow> if k = - 1 then JsInt (- 1) else times_number k n | x \<Rightarrow> x)
        | _ \<Rightarrow> JsInt (- 1))
     else JsInt (- 1))"

definition vector_item :: "'l encode_fun \<Rightarrow> type_info \<Rightarrow> 'l jsval \<Rightarrow> encoded list result" where
  "vector_item enc t e =
    bind_result (enc e (InfoArg t)) (\<lambda>b.
      if serializationSizeIfFixed t = JsInt (- 1)
      then (case b of EBytes x \<Rightarrow> bind_result (uvintPack (int (length x))) (\<lambda>l. Inr [EBytes l, b]) | _ \<Rightarrow> Inl TypeError)
      else Inr [b])"

definition encodeVector :: "'l encode_fun \<Rightarrow> 'l jsval \<Rightarrow> type_info \<Rightarrow> js_number \<Rightarrow> encoded result" where
  "encodeVector enc v t dimension =
    (case vector_elements v of
       None \<Rightarrow> Inl TypeError
     | Some es \<Rightarrow>
         if dimension \<noteq> JsInt (int (length es)) then Inl TypeError
         else if es = [] then Inl TypeError
         else bind_result (map_result (vector_item enc t) es) (\<lambda>parts. buffer_concat (concat parts)))"

definition starts_with :: "string \<Rightarrow> string \<Rightarrow> bool" where
  "starts_with p s \<longleftrightarrow> take (length p) s = p"

definition encode_custom_name :: "'l encode_fun \<Rightarrow> 'l encoder \<Rightarrow> 'l jsval \<Rightarrow> string \<Rightarrow> encoded result" where
  "encode_custom_name enc E v name =
    (if starts_with (marshal ''VectorType'') name then
       bind_result (parseFqTypeName name 0 0) (\<lambda>t. case ti_info t of VectorInfo u n \<Rightarrow> encodeVector enc v u n | _ \<Rightarrow> Inl TypeError)
     else if name = marshal ''DurationType'' then bytes_result (encodeDuration E v)
     else Inl TypeError)"

definition encodeCustom :: "'l encode_fun \<Rightarrow> 'l encoder \<Rightarrow> 'l jsval \<Rightarrow> type_info \<Rightarrow> encoded result" where
  "encodeCustom enc E v t =
    (case ti_info t of
       VectorInfo u n \<Rightarrow> encodeVector enc v u n
     | CustomName name \<Rightarrow> encode_custom_name enc E v name
     | UdtName name \<Rightarrow> encode_custom_name enc E v name
     | _ \<Rightarrow> Inl TypeError)"

text \<open>The table of encoders.\<close>

definition encoders :: "'l encode_fun \<Rightarrow> 'l encoder \<Rightarrow> 'l jsval \<Rightarrow> type_info \<Rightarrow> encoded result" where
  "encoders enc E v t =
    (let code = ti_code t in
     if code = dt_custom then encodeCustom enc E v t
     else if code = dt_ascii then bytes_result (encodeAsciiString v)
     else if code = dt_bigint \<or> code = dt_counter then bytes_result (encodeLong E v)
     else if code = dt_blob then bytes_result (encodeBlob v)
     else if code = dt_boolean then bytes_result (encodeBoolean v)
     else if code = dt_decimal then bytes_result (encodeDecimal v)
     else if code = dt_double then bytes_result (encodeDouble v)
     else if code = dt_float then bytes_result (encodeFloat v)
     else if code = dt_int then bytes_result (encodeInt E v)
     else if code = dt_text \<or> code = dt_varchar then bytes_result (encodeUtf8String v)
     else if code = dt_timestamp then bytes_result (encodeTimestamp E v)
     else if code = dt_uuid \<or> code = dt_timeuuid then bytes_result (encodeUuid v)
     else if code = dt_varint then bytes_result (encodeVarint E v)
     else if code = dt_inet then bytes_result (encodeInet E v)
     else if code = dt_date then bytes_result (encodeDate E v)
     else if code = dt_time then bytes_result (encodeTime E v)
     else if code = dt_smallint then bytes_result (encodeSmallint E v)
     else if code = dt_tinyint then bytes_result (encodeTinyint E v)
     else if code = dt_duration then bytes_result (encodeDuration E v)
     else if code = dt_list then encodeList enc E v t
     else if code = dt_map then encodeMap enc E v t
     else if code = dt_set then encodeSet enc E v t
     else if code = dt_udt then encodeUdt enc E v t
     else if code = dt_tuple then encodeTuple enc E v t
     else Inl PlainError)"

subsection \<open>The recursion\<close>

text \<open>
  A call for an element is for a smaller value, or (the entries of an object for a map, the fields of one for a user-defined type) for a value
  that is not larger and a smaller type.
\<close>

fun arg_size :: "type_arg \<Rightarrow> nat" where
  "arg_size (InfoArg t) = Suc (size t)"
| "arg_size (CodeArg n) = (if n = 0 then 0 else 2)"
| "arg_size (NameArg s) = (if s = [] then 0 else case getByName s of Inr t \<Rightarrow> Suc (size t) | Inl e \<Rightarrow> 0)"
| "arg_size _ = 0"

definition element_call :: "'l jsval \<Rightarrow> type_info \<Rightarrow> 'l jsval \<Rightarrow> type_arg \<Rightarrow> bool" where
  "element_call v t x a \<longleftrightarrow>
    vsize x < vsize v \<or> (ti_code t = dt_map \<or> ti_code t = dt_udt) \<and> vsize x \<le> vsize v \<and> arg_size a \<le> size t"

lemma getByName_char: "getByName [c] = Inl TypeError"
proof -
  have "map_of dataTypes [x] = None" for x by (simp add: dataTypes_def)
  then show ?thesis by (cases "js_lower c = CHR ''<''") (simp_all add: getByName.simps [of "[c]"] Let_def)
qed

lemma info_item_size: "arg_size (info_item info i) \<le> size (TI code info f r)"
proof (cases info)
  case (SubTypes ts)
  have "arg_size (InfoArg (ts ! i)) \<le> Suc (size_list size ts)" if "i < length ts"
    using size_list_estimation' [OF nth_mem [OF that], of _ size] by simp
  then show ?thesis using SubTypes by (auto simp: info_item_def)
next
  case (VectorInfo t n)
  then show ?thesis by (cases n) (auto simp: info_item_def less_Suc_eq nth_Cons split: nat.split)
qed (auto simp: info_item_def getByName_char)

lemma map_entries_size:
  assumes "(k, x) \<in> set (map_entries E v)"
  shows "vsize x \<le> vsize v" and "vsize k \<le> vsize v"
proof -
  consider (props) n where "k = JString n" "(n, x) \<in> set (own_props (enc_engine E) v)" | (map) ps where "v = JMap ps" "(k, x) \<in> set ps"
    using assms by (auto simp: map_entries_def Let_def split: jsval.splits if_splits)
  then have "vsize x \<le> vsize v \<and> vsize k \<le> vsize v"
  proof cases
    case props
    then show ?thesis using own_props_size by auto
  next
    case map
    then have "vsize k + vsize x \<in> set (map (\<lambda>(a, b). a + b) (map (map_prod vsize vsize) ps))" by force
    from member_le_sum_list [OF this] show ?thesis using map(1) by simp
  qed
  then show "vsize x \<le> vsize v" and "vsize k \<le> vsize v" by simp_all
qed

lemma encodeList_cong:
  "(\<And>x a. vsize x < vsize v \<Longrightarrow> enc x a = enc' x a) \<Longrightarrow> encodeList enc E v t = encodeList enc' E v t"
proof (cases v)
  case (JArray vs)
  assume *: "\<And>x a. vsize x < vsize v \<Longrightarrow> enc x a = enc' x a"
  have "list_item enc E a x = list_item enc' E a x" if "x \<in> set vs" for x a
    using * [of x a] vsize_members [OF that] by (simp add: JArray list_item_def)
  then have "map_result (list_item enc E a) vs = map_result (list_item enc' E a) vs" for a by (intro map_result_cong) auto
  then show ?thesis by (simp add: encodeList_def JArray)
qed (simp_all add: encodeList_def)

lemma encodeSet_cong:
  "(\<And>x a. vsize x < vsize v \<Longrightarrow> enc x a = enc' x a) \<Longrightarrow> encodeSet enc E v t = encodeSet enc' E v t"
  using encodeList_cong [of v enc enc' E t] encodeList_cong [of "JArray _" enc enc' E t] by (cases v) (simp_all add: encodeSet_def)

lemma encodeVector_cong:
  assumes "\<And>x a. vsize x < vsize v \<Longrightarrow> enc x a = enc' x a"
  shows "encodeVector enc v t d = encodeVector enc' v t d"
proof (cases "vector_elements v")
  case (Some es)
  have "vector_item enc t x = vector_item enc' t x" if "x \<in> set es" for x
    using assms vector_elements_size [OF Some that] by (simp add: vector_item_def)
  then have "map_result (vector_item enc t) es = map_result (vector_item enc' t) es" by (intro map_result_cong) auto
  then show ?thesis by (simp add: encodeVector_def Some)
qed (simp add: encodeVector_def)

lemma encodeCustom_cong:
  assumes "\<And>x a. vsize x < vsize v \<Longrightarrow> enc x a = enc' x a"
  shows "encodeCustom enc E v t = encodeCustom enc' E v t"
proof -
  have v: "encodeVector enc v u d = encodeVector enc' v u d" for u d using assms by (rule encodeVector_cong)
  have "encode_custom_name enc E v s = encode_custom_name enc' E v s" for s by (simp add: encode_custom_name_def v cong: info.case_cong)
  then show ?thesis by (simp add: encodeCustom_def v cong: info.case_cong)
qed

lemma encodeTuple_cong:
  assumes "\<And>x a. vsize x < vsize v \<Longrightarrow> enc x a = enc' x a"
  shows "encodeTuple enc E v t = encodeTuple enc' E v t"
proof (cases v)
  case (JTuple es)
  have "map_result (\<lambda>(a, e). bind_result (enc e a) field_bytes) (zip as es) = map_result (\<lambda>(a, e). bind_result (enc' e a) field_bytes) (zip as es)" for as
  proof (intro map_result_cong refl, clarify)
    fix a x assume "(a, x) \<in> set (zip as es)"
    then have "vsize x < vsize v" using vsize_members [of x es] by (auto simp: JTuple dest: set_zip_rightD)
    then show "bind_result (enc x a) field_bytes = bind_result (enc' x a) field_bytes" using assms by simp
  qed
  then show ?thesis by (simp add: encodeTuple_def JTuple)
qed (simp_all add: encodeTuple_def)

lemma encodeMap_cong:
  assumes "\<And>x a. vsize x < vsize v \<or> vsize x \<le> vsize v \<and> arg_size a \<le> size t \<Longrightarrow> enc x a = enc' x a"
  shows "encodeMap enc E v t = encodeMap enc' E v t"
proof -
  obtain code info f r where t: "t = TI code info f r" by (cases t)
  have "addItem enc E info p = addItem enc' E info p" if "p \<in> set (map_entries E v)" for p
  proof -
    obtain k x where p: "p = (k, x)" by (cases p)
    have "enc k (info_item info 0) = enc' k (info_item info 0)" "enc x (info_item info 1) = enc' x (info_item info 1)"
      using map_entries_size [of k x E v] that p info_item_size [of info] by (auto simp: t intro!: assms)
    then show ?thesis by (simp add: addItem_def p)
  qed
  then have "map_result (addItem enc E info) (map_entries E v) = map_result (addItem enc' E info) (map_entries E v)" by (intro map_result_cong) auto
  then show ?thesis by (simp add: encodeMap_def t)
qed

lemma encodeUdt_cong:
  assumes "\<And>x a. vsize x < vsize v \<or> vsize x \<le> vsize v \<and> arg_size a \<le> size t \<Longrightarrow> enc x a = enc' x a"
  shows "encodeUdt enc E v t = encodeUdt enc' E v t"
proof (cases "ti_info t")
  case (UdtInfo ks n fs)
  then obtain code f r where t: "t = TI code (UdtInfo ks n fs) f r" by (cases t) auto
  have "enc (get_prop (enc_engine E) v name) (InfoArg ft) = enc' (get_prop (enc_engine E) v name) (InfoArg ft)"
    if "(name, ft) \<in> set fs" for name ft
  proof -
    have "size ft \<le> size_list (size_prod (\<lambda>_. 0) size) fs" using size_list_estimation' [OF that, of _ "size_prod (\<lambda>_. 0) size"] by simp
    then show ?thesis using get_prop_size [of "enc_engine E" v name] by (intro assms) (simp add: t)
  qed
  then have "map_result (\<lambda>(name, ft). bind_result (enc (get_prop (enc_engine E) v name) (InfoArg ft)) field_bytes) fs
    = map_result (\<lambda>(name, ft). bind_result (enc' (get_prop (enc_engine E) v name) (InfoArg ft)) field_bytes) fs"
    by (intro map_result_cong) auto
  then show ?thesis by (simp add: encodeUdt_def t)
qed (simp_all add: encodeUdt_def)

lemma encoders_cong [fundef_cong]:
  assumes "E = E'" and "v = v'" and "t = t'" and "\<And>x a. element_call v' t' x a \<Longrightarrow> enc x a = enc' x a"
  shows "encoders enc E v t = encoders enc' E' v' t'"
proof -
  have strict: "\<And>x a. vsize x < vsize v' \<Longrightarrow> enc x a = enc' x a" using assms(4) by (simp add: element_call_def)
  have e: "encodeList enc E' v' t' = encodeList enc' E' v' t'" "encodeSet enc E' v' t' = encodeSet enc' E' v' t'"
    "encodeTuple enc E' v' t' = encodeTuple enc' E' v' t'" "encodeCustom enc E' v' t' = encodeCustom enc' E' v' t'"
    using strict by (intro encodeList_cong encodeSet_cong encodeTuple_cong encodeCustom_cong; simp)+
  have m: "ti_code t' = dt_map \<Longrightarrow> encodeMap enc E' v' t' = encodeMap enc' E' v' t'"
    using assms(4) by (intro encodeMap_cong) (auto simp: element_call_def)
  have u: "ti_code t' = dt_udt \<Longrightarrow> encodeUdt enc E' v' t' = encodeUdt enc' E' v' t'"
    using assms(4) by (intro encodeUdt_cong) (auto simp: element_call_def)
  show ?thesis using m u unfolding assms(1-3) encoders_def Let_def by (simp add: e)
qed

lemma guess_code: "guessDataType v = Inr (Some t) \<Longrightarrow> ti_code t \<noteq> dt_map \<and> ti_code t \<noteq> dt_udt"
proof (cases v)
  case (JScalar s)
  assume "guessDataType v = Inr (Some t)"
  then show ?thesis unfolding JScalar by (cases s) (auto simp: vector_type_def split: if_splits)
next
  case (JVector es subtype)
  assume "guessDataType v = Inr (Some t)"
  then show ?thesis unfolding JVector by (cases es) (auto simp: vector_type_def split: option.splits)
qed auto

lemma element_call_decreases:
  assumes "resolve_type v a = Inr t" and "element_call v t x b"
  shows "vsize x < vsize v \<or> vsize x \<le> vsize v \<and> arg_size b < arg_size a"
proof -
  have "vsize x < vsize v \<or> (ti_code t = dt_map \<or> ti_code t = dt_udt) \<and> vsize x \<le> vsize v \<and> arg_size b \<le> size t"
    using assms(2) by (simp add: element_call_def)
  moreover have "size t < arg_size a" if "ti_code t = dt_map \<or> ti_code t = dt_udt"
    using assms(1) that guess_code [of v t] by (cases a) (auto split: if_splits option.splits)
  ultimately show ?thesis by linarith
qed

text \<open>\<open>undefined\<close> stands for \<open>null\<close> or, with the option and from version 4 on, for \<open>unset\<close>.\<close>

definition given_value :: "'l encoder \<Rightarrow> 'l jsval \<Rightarrow> 'l jsval" where
  "given_value E v = (if v = JUndefined then if useUndefinedAsUnset E \<and> enc_version E \<ge> 4 then JUnset else JNull else v)"

lemma given_size: "vsize (given_value E v) = vsize v"
  by (simp add: given_value_def)

definition as_buffer :: "'l jsval \<Rightarrow> buffer option" where
  "as_buffer v = (case v of JScalar (SBuffer b) \<Rightarrow> Some b | _ \<Rightarrow> None)"

function encode :: "'l encoder \<Rightarrow> 'l jsval \<Rightarrow> type_arg \<Rightarrow> encoded result" where
  "encode E v0 a =
    (let v = given_value E v0 in
     if v = JUnset then (if \<not> supportsUnset (enc_version E) then Inl TypeError else Inr EUndefined)
     else if v = JNull then Inr ENull
     else case as_buffer v of
       Some b \<Rightarrow> Inr (EBytes b)
     | None \<Rightarrow> bind_result (resolve_type v a) (\<lambda>t. encoders (\<lambda>x b. encode E x b) E v t))"
  by pat_completeness auto
termination
  by (relation "measures [\<lambda>(E, v, a). vsize v, \<lambda>(E, v, a). arg_size a]")
    (auto dest!: element_call_decreases simp: given_size)

declare encode.simps [simp del]

end
