(* ===== verification/Class_Names.thy ===== *)
theory Class_Names
  imports Type_Names
begin

text \<open>
  The class names of types: a printer for the types the server describes (\<open>fq_name\<close>), and that \<open>parseFqTypeName\<close> reads what it prints.
  The heart is that \<open>parseParams\<close> separates parameters whose parentheses are balanced and whose commas are inside parentheses.
\<close>

section \<open>Encodings\<close>

lemma hex_decode_text: "bytes_ok buf \<Longrightarrow> hex_decode (hex_text buf) = buf"
proof (induction buf)
  case (Cons b buf)
  then have d: "nat b div 16 < 16" "nat b mod 16 < 16" "0 \<le> b" by auto
  then show ?case using Cons radix_char_digit [OF d(1)] radix_char_digit [OF d(2)] by (simp add: hex_text_def)
qed (simp add: hex_text_def)

lemma utf8_bytes_ok: "bytes_ok (utf8_encode s)"
proof (induction s)
  case (Cons c s)
  have "char_code c < 256" by (simp add: char_code_def)
  then show ?case using Cons by (auto simp: utf8_encode_def Let_def)
qed (simp add: utf8_encode_def)

lemma two_byte_lead: "128 \<le> n \<Longrightarrow> n < 256 \<Longrightarrow> n div 64 = 2 \<or> n div 64 = (3 :: int)"
  by presburger

lemma utf8_roundtrip: "utf8_decode (utf8_encode s) = s"
proof (induction s)
  case (Cons c s)
  have lt: "char_code c < 256" by (simp add: char_code_def)
  have c: "char_of (char_code c) = c" by (simp add: char_code_def)
  show ?case
  proof (cases "char_code c < 128")
    case True
    then show ?thesis using Cons c by (simp add: utf8_encode_def Let_def)
  next
    case False
    let ?n = "int (char_code c)"
    have q: "?n div 64 = 2 \<or> ?n div 64 = 3" using False lt by (intro two_byte_lead) simp_all
    have "nat (?n div 64 * 64 + ?n mod 64) = char_code c" by simp
    then show ?thesis using q Cons c False by (auto simp: utf8_encode_def Let_def)
  qed
qed (simp add: utf8_encode_def)

lemma hex_utf8_roundtrip: "utf8_decode (hex_decode (hex_text (utf8_encode s))) = s"
  by (simp add: hex_decode_text utf8_bytes_ok utf8_roundtrip)

section \<open>Balanced texts\<close>

text \<open>The level of nesting after a text, where a comma at level 0 or a parenthesis that closes nothing ends the walk.\<close>

fun nesting :: "nat \<Rightarrow> string \<Rightarrow> nat option" where
  "nesting l [] = Some l"
| "nesting l (c # s) =
    (if c = CHR ''('' then nesting (Suc l) s
     else if c = CHR '')'' then (if l = 0 then None else nesting (l - 1) s)
     else if c = CHR '','' then (if l = 0 then None else nesting l s)
     else nesting l s)"

definition closed :: "string \<Rightarrow> bool" where
  "closed s \<longleftrightarrow> nesting 0 s = Some 0"

lemma nesting_append: "nesting l (s @ r) = Option.bind (nesting l s) (\<lambda>m. nesting m r)"
  by (induction l s rule: nesting.induct) auto

lemma nesting_shift: "nesting l s = Some m \<Longrightarrow> nesting (l + k) s = Some (m + k)"
  by (induction l s rule: nesting.induct) (auto split: if_splits)

lemma closed_nesting: "closed s \<Longrightarrow> nesting l s = Some l"
  using nesting_shift [of 0 s 0 l] by (simp add: closed_def)

lemma closed_append: "closed s \<Longrightarrow> closed r \<Longrightarrow> closed (s @ r)"
  by (simp add: closed_def nesting_append)

lemma closed_plain: "\<forall>c \<in> set s. c \<noteq> CHR ''('' \<and> c \<noteq> CHR '')'' \<and> c \<noteq> CHR '','' \<Longrightarrow> closed s"
  unfolding closed_def by (induction s) auto

fun join_params :: "string list \<Rightarrow> string" where
  "join_params [] = []"
| "join_params [p] = p"
| "join_params (p # q # ps) = p @ CHR '','' # join_params (q # ps)"

lemma closed_parens: "list_all closed ps \<Longrightarrow> closed (CHR ''('' # join_params ps @ '')'')"
proof -
  assume ps: "list_all closed ps"
  have "nesting 1 (join_params ps) = Some 1"
    using ps by (induction ps rule: join_params.induct) (simp_all add: nesting_append closed_nesting)
  then show ?thesis by (simp add: closed_def nesting_append)
qed

section \<open>Separating parameters\<close>

lemma upt_first: "[n..<n + Suc k] = n # [Suc n..<Suc n + k]"
  using upt_conv_Cons [of n "n + Suc k"] by simp

lemma params_fold_closed:
  "nesting l p = Some m \<Longrightarrow>
    foldl (params_step (pre @ p @ post) CHR ''('' CHR '')'') (ps, int l, ts) [length pre..<length pre + length p] = (ps, int m, ts)"
proof (induction p arbitrary: pre l)
  case (Cons c p)
  have u: "[length pre..<length pre + length (c # p)] = length pre # [length (pre @ [c])..<length (pre @ [c]) + length p]"
    using upt_first [of "length pre" "length p"] by (simp del: upt_Suc)
  have n: "(pre @ (c # p) @ post) ! length pre = c" by simp
  define k where "k = (if c = CHR ''('' then Suc l else if c = CHR '')'' then l - 1 else l)"
  have k: "params_step (pre @ (c # p) @ post) CHR ''('' CHR '')'' (ps, int l, ts) (length pre) = (ps, int k, ts)"
    "nesting k p = Some m"
    using Cons.prems by (auto simp: k_def params_step_def Let_def of_nat_diff split: if_splits)
  show ?case unfolding u foldl_Cons k(1) using Cons.IH [OF k(2), of "pre @ [c]"] by simp
qed simp

lemma params_fold_join:
  assumes "list_all closed ps" and "ps \<noteq> []"
  shows "\<exists>k. foldl (params_step (pre @ join_params ps @ post) CHR ''('' CHR '')'') (length pre, 0, ts)
       [length pre..<length pre + length (join_params ps)] = (k, 0, ts @ butlast ps)
    \<and> k + length (last ps) = length pre + length (join_params ps)"
  using assms
proof (induction ps arbitrary: pre ts rule: join_params.induct)
  case (2 p)
  then show ?case using params_fold_closed [of 0 p 0 pre post "length pre" ts] by (simp add: closed_def)
next
  case (3 p q ps)
  let ?r = "join_params (q # ps)" and ?s = "pre @ join_params (p # q # ps) @ post" and ?pre = "pre @ p @ '',''"
  let ?f = "foldl (params_step ?s CHR ''('' CHR '')'')"
  have s: "?s = pre @ p @ (CHR '','' # ?r @ post)" "?s = ?pre @ ?r @ post" by simp_all
  have u: "[length pre..<length pre + length (join_params (p # q # ps))]
    = [length pre..<length pre + length p] @ [length pre + length p] @ [length ?pre..<length ?pre + length ?r]"
  proof -
    have "[length pre..<length pre + length (join_params (p # q # ps))]
      = [length pre..<length pre + length p] @ [length pre + length p..<length pre + length p + Suc (length ?r)]"
      using upt_add_eq_append [of "length pre" "length pre + length p" "Suc (length ?r)"] by (simp add: add.assoc del: upt_Suc)
    then show ?thesis unfolding upt_first by simp
  qed
  have a: "?f (length pre, 0, ts) [length pre..<length pre + length p] = (length pre, 0, ts)"
    unfolding s(1) using params_fold_closed [of 0 p 0 pre _ "length pre" ts] 3 by (simp add: closed_def)
  have c: "params_step ?s CHR ''('' CHR '')'' (length pre, 0, ts) (length pre + length p) = (length ?pre, 0, ts @ [p])"
    by (simp add: params_step_def js_substr_def nth_append)
  obtain k where k: "foldl (params_step (?pre @ ?r @ post) CHR ''('' CHR '')'') (length ?pre, 0, ts @ [p])
      [length ?pre..<length ?pre + length ?r] = (k, 0, (ts @ [p]) @ butlast (q # ps))"
    "k + length (last (q # ps)) = length ?pre + length ?r"
    using 3(1) [of ?pre "ts @ [p]"] 3(2) by auto
  have "?f (length pre, 0, ts) [length pre..<length pre + length (join_params (p # q # ps))] = (k, 0, ts @ butlast (p # q # ps))"
    unfolding u foldl_append a using c k(1) unfolding s(2) by simp
  then show ?case using k(2) by auto
qed simp

lemma join_params_last: "ps \<noteq> [] \<Longrightarrow> \<exists>xs. join_params ps = xs @ last ps"
  by (induction ps rule: join_params.induct) auto

lemma parseParams_join:
  assumes "list_all closed ps" and "ps \<noteq> []"
  shows "parseParams (pre @ join_params ps @ post) (length pre) (int (length (join_params ps))) CHR ''('' CHR '')'' = ps"
proof -
  obtain k where k: "foldl (params_step (pre @ join_params ps @ post) CHR ''('' CHR '')'') (length pre, 0, [])
       [length pre..<length pre + length (join_params ps)] = (k, 0, butlast ps)"
    "k + length (last ps) = length pre + length (join_params ps)" using params_fold_join [OF assms, of pre post "[]"] by auto
  obtain xs where xs: "join_params ps = xs @ last ps" using join_params_last [OF assms(2)] by blast
  have "k = length (pre @ xs)" using k(2) xs by simp
  then have "js_substr (pre @ join_params ps @ post) k (int (length (join_params ps)) - (int k - int (length pre))) = last ps"
    by (simp add: js_substr_def xs)
  then show ?thesis using k(1) assms(2) by (simp add: parseParams_def)
qed

section \<open>The printer\<close>

definition wrap_class :: "string \<Rightarrow> string list \<Rightarrow> string" where
  "wrap_class name ps = marshal name @ CHR ''('' # join_params ps @ '')''"

definition single_name :: "int \<Rightarrow> string" where
  "single_name code =
    (if code = dt_duration then marshal ''DurationType''
     else case map_of (map (\<lambda>(k, v). (v, k)) singleTypeNames) code of Some s \<Rightarrow> s | None \<Rightarrow> [])"

definition field_text :: "string \<Rightarrow> string \<Rightarrow> string" where
  "field_text n t = hex_text (utf8_encode n) @ CHR '':'' # t"

definition decorate :: "bool \<Rightarrow> bool \<Rightarrow> string \<Rightarrow> string" where
  "decorate frozen reversed s =
    (let s = (if frozen then wrap_class ''FrozenType'' [s] else s) in if reversed then wrap_class ''ReversedType'' [s] else s)"

fun fq_name :: "type_info \<Rightarrow> string" where
  "fq_name (TI code info f r) = decorate f r
    (case info of
       NoInfo \<Rightarrow> single_name code
     | SubType t \<Rightarrow> wrap_class (if code = dt_list then ''ListType'' else ''SetType'') [fq_name t]
     | SubTypes ts \<Rightarrow> wrap_class (if code = dt_map then ''MapType'' else ''TupleType'') (map fq_name ts)
     | UdtInfo ks n fs \<Rightarrow>
         wrap_class ''UserType''
           ((case ks of Some k \<Rightarrow> k | None \<Rightarrow> []) # hex_text (utf8_encode n) # map (\<lambda>(k, t). field_text k (fq_name t)) fs)
     | UdtName n \<Rightarrow> n
     | CustomName s \<Rightarrow> if s = ''empty'' then marshal ''EmptyType'' else s
     | VectorInfo t d \<Rightarrow> wrap_class ''VectorType'' [fq_name t, CHR '' '' # number_text d])"

text \<open>
  The types a class name can describe. A vector stands alone: not frozen, not reversed and not the type of a field, since
  \<open>parseVectorTypeArgs\<close> reads from the start of the text. A custom class is longer than the longest name of a simple type.
\<close>

definition known_classes :: "string list" where
  "known_classes = map marshal
    [''ReversedType'', ''FrozenType'', ''ListType'', ''SetType'', ''MapType'', ''UserType'', ''TupleType'', ''VectorType'']"

definition custom_class :: "string \<Rightarrow> bool" where
  "custom_class s \<longleftrightarrow> closed s \<and> int (length s) > singleFqTypeNamesLength \<and> \<not> is_js_space (hd s) \<and> \<not> is_js_space (last s)
    \<and> list_all (\<lambda>k. take (length k) s \<noteq> k) known_classes"

fun stands_alone :: "type_info \<Rightarrow> bool" where
  "stands_alone (TI code info f r) \<longleftrightarrow>
    r \<or> (case info of VectorInfo t d \<Rightarrow> True | CustomName s \<Rightarrow> s = ''empty'' | _ \<Rightarrow> False)"

fun class_named :: "type_info \<Rightarrow> bool" where
  "class_named (TI code info f r) \<longleftrightarrow>
    (case info of
       NoInfo \<Rightarrow> code = dt_duration \<or> code \<in> snd ` set singleTypeNames
     | SubType t \<Rightarrow> (code = dt_list \<or> code = dt_set) \<and> class_named t
     | SubTypes ts \<Rightarrow> (code = dt_map \<and> length ts = 2 \<or> code = dt_tuple \<and> ts \<noteq> []) \<and> list_all class_named ts
     | UdtInfo ks n fs \<Rightarrow> code = dt_udt \<and> (case ks of Some k \<Rightarrow> closed k | None \<Rightarrow> False) \<and> fs \<noteq> []
         \<and> list_all (\<lambda>(k, t). class_named t \<and> \<not> stands_alone t) fs
     | UdtName n \<Rightarrow> False
     | CustomName s \<Rightarrow> code = dt_custom \<and> (s = ''empty'' \<and> \<not> f \<and> \<not> r \<or> custom_class s)
     | VectorInfo t d \<Rightarrow> code = dt_custom \<and> class_named t \<and> (case d of JsInt n \<Rightarrow> 0 \<le> n | _ \<Rightarrow> False) \<and> \<not> f \<and> \<not> r)"

lemma hex_plain: "\<forall>c \<in> set (hex_text (utf8_encode n)). c \<noteq> CHR ''('' \<and> c \<noteq> CHR '')'' \<and> c \<noteq> CHR '','' \<and> c \<noteq> CHR '':'' \<and> c \<noteq> CHR ''o''"
proof -
  have "\<not> is_digit 16 CHR ''(''" "\<not> is_digit 16 CHR '')''" "\<not> is_digit 16 CHR '',''" "\<not> is_digit 16 CHR '':''" "\<not> is_digit 16 CHR ''o''"
    by code_simp+
  then show ?thesis using hex_text_digits [OF utf8_bytes_ok] by metis
qed

lemma closed_marshal: "closed name \<Longrightarrow> closed (marshal name)"
  unfolding marshal_def by (intro closed_append) (code_simp, simp)

lemma closed_wrap: "closed name \<Longrightarrow> list_all closed ps \<Longrightarrow> closed (wrap_class name ps)"
  unfolding wrap_class_def by (intro closed_append closed_marshal closed_parens)

lemma class_words: "closed ''ReversedType''" "closed ''FrozenType''" "closed ''ListType''" "closed ''SetType''" "closed ''MapType''"
  "closed ''UserType''" "closed ''TupleType''" "closed ''VectorType''" "closed ''EmptyType''" "closed ''DurationType''"
  by code_simp+

lemma closed_decorate: "closed s \<Longrightarrow> closed (decorate f r s)"
  by (simp add: decorate_def Let_def closed_wrap class_words)

lemma single_names: "list_all (\<lambda>(k, c). closed (single_name c) \<and> map_of singleTypeNames (single_name c) = Some c
  \<and> c \<noteq> dt_duration \<and> single_name c \<noteq> marshal ''DurationType'' \<and> single_name c \<noteq> marshal ''EmptyType''
  \<and> take 2 (drop 32 (single_name c)) \<noteq> ''Re'' \<and> take 2 (drop 32 (single_name c)) \<noteq> ''Fr''
  \<and> int (length (single_name c)) \<le> singleFqTypeNamesLength \<and> length (single_name c) \<ge> 34) singleTypeNames"
  by code_simp

lemma single_duration: "map_of singleTypeNames (marshal ''DurationType'') = None" "int (length (marshal ''DurationType'')) \<le> singleFqTypeNamesLength"
  "take 2 (drop 32 (marshal ''DurationType'')) = ''Du''" "length (marshal ''DurationType'') = 44"
  by code_simp+

lemma singleFqTypeNamesLength_value: "singleFqTypeNamesLength = 49"
  by code_simp

lemma show_nat_plain: "closed (CHR '' '' # show_nat n)"
proof -
  have "\<not> is_digit 10 CHR ''(''" "\<not> is_digit 10 CHR '')''" "\<not> is_digit 10 CHR '',''" by code_simp+
  then show ?thesis using show_nat_digits by (intro closed_plain) auto
qed

lemma fq_name_closed: "class_named t \<Longrightarrow> closed (fq_name t)"
proof (induction t rule: fq_name.induct)
  case (1 code info f r)
  show ?case
  proof (cases info)
    case NoInfo
    then show ?thesis using 1(5) single_names
      by (auto simp: list_all_iff single_name_def class_words intro!: closed_decorate closed_marshal)
  next
    case (SubType t)
    then show ?thesis using 1 by (auto intro!: closed_decorate closed_wrap class_words)
  next
    case (SubTypes ts)
    then show ?thesis using 1(2) [OF SubTypes] 1(5) by (auto simp: list_all_iff intro!: closed_decorate closed_wrap class_words)
  next
    case (UdtInfo ks n fs)
    have "closed (hex_text (utf8_encode n))" for n using hex_plain by (intro closed_plain) blast
    moreover from this have "closed (field_text k s)" if "closed s" for k s
      using that by (simp add: field_text_def closed_def nesting_append)
    ultimately show ?thesis using 1(3) [OF UdtInfo] 1(5) UdtInfo
      by (fastforce simp: list_all_iff intro!: closed_decorate closed_wrap class_words split: option.splits)
  next
    case (UdtName n)
    then show ?thesis using 1 by simp
  next
    case (CustomName s)
    then show ?thesis using 1(5) by (auto simp: custom_class_def class_words intro!: closed_decorate closed_marshal)
  next
    case (VectorInfo t d)
    then show ?thesis using 1(4) [OF VectorInfo] 1(5) show_nat_plain
      by (auto simp: show_int_def intro!: closed_decorate closed_wrap class_words split: js_number.splits)
  qed
qed

section \<open>Reading a printed name\<close>

definition parse_class :: "string \<Rightarrow> nat \<Rightarrow> int \<Rightarrow> bool \<Rightarrow> bool \<Rightarrow> type_info result" where
  "parse_class typeName i n frozen reversed =
    (if typeName = marshal ''EmptyType'' then Inr (TI dt_custom (CustomName ''empty'') frozen reversed)
     else if n \<le> singleFqTypeNamesLength then
       (let name = (if i > 0 then js_substr typeName i n else typeName)
        in case map_of singleTypeNames name of
             Some typeCode \<Rightarrow> Inr (TI typeCode NoInfo frozen reversed)
           | None \<Rightarrow> if name = marshal ''DurationType'' then Inr (TI dt_duration NoInfo frozen reversed) else Inl TypeError)
     else if at_index (marshal ''ListType'') typeName i then
       (let params = class_params typeName (marshal ''ListType'') i n
        in if length params \<noteq> 1 then Inl TypeError
           else bind_result (map_result (\<lambda>x. parseFqTypeName x 0 0) params) (\<lambda>ts. Inr (TI dt_list (SubType (hd ts)) frozen reversed)))
     else if at_index (marshal ''SetType'') typeName i then
       (let params = class_params typeName (marshal ''SetType'') i n
        in if length params \<noteq> 1 then Inl TypeError
           else bind_result (map_result (\<lambda>x. parseFqTypeName x 0 0) params) (\<lambda>ts. Inr (TI dt_set (SubType (hd ts)) frozen reversed)))
     else if at_index (marshal ''MapType'') typeName i then
       (let params = class_params typeName (marshal ''MapType'') i n
        in if length params \<noteq> 2 then Inl TypeError
           else bind_result (map_result (\<lambda>x. parseFqTypeName x 0 0) params) (\<lambda>ts. Inr (TI dt_map (SubTypes ts) frozen reversed)))
     else if at_index (marshal ''UserType'') typeName i then
       bind_result (parseUdtName typeName (i + length (marshal ''UserType'') + 1) (n - int (length (marshal ''UserType'') + 2)))
         (\<lambda>t. Inr (TI dt_udt (ti_info t) frozen reversed))
     else if at_index (marshal ''TupleType'') typeName i then
       bind_result (map_result (\<lambda>x. parseFqTypeName x 0 0) (class_params typeName (marshal ''TupleType'') i n))
         (\<lambda>ts. Inr (TI dt_tuple (SubTypes ts) frozen reversed))
     else if at_index (marshal ''VectorType'') typeName i then
       (case vector_args typeName (marshal ''VectorType'') of
          Inl e \<Rightarrow> Inl e
        | Inr (s, d) \<Rightarrow> bind_result (parseFqTypeName s 0 0) (\<lambda>t. Inr (TI dt_custom (VectorInfo t d) frozen reversed)))
     else Inr (TI dt_custom (CustomName (js_substr typeName i n)) frozen reversed))"

text \<open>The branch for user-defined types is \<open>_parseUdtName\<close> with the options put in.\<close>

lemma udt_branch:
  "bind_result (parseUdtName typeName k m) (\<lambda>t. Inr (TI dt_udt (ti_info t) f r)) =
    (let params = parseParams typeName k m CHR ''('' CHR '')''
     in if length params < 2 then Inl TypeError
        else bind_result
          (map_result (\<lambda>p. bind_result (parseFqTypeName p (snd (field_split p)) (int (length p) - int (snd (field_split p))))
              (\<lambda>t. Inr (fst (field_split p), t))) (drop 2 params))
          (\<lambda>fields. Inr (TI dt_udt (UdtInfo (Some (params ! 0)) (utf8_decode (hex_decode (params ! 1))) fields) f r)))"
  by (simp add: parseUdtName_def Let_def bind_result_assoc)

lemma parseFqTypeName_class:
  "parseFqTypeName typeName startIndex len0 =
    (let len = (if len0 = 0 then int (length typeName) else len0);
         (st1, reversed) = strip_wrapper (marshal ''ReversedType'')
            (js_indexOf typeName (marshal ''ReversedType'') 0 = int startIndex) (startIndex, len);
         (st2, frozen) = strip_wrapper (marshal ''FrozenType'') (at_index (marshal ''FrozenType'') typeName (fst st1)) st1
     in parse_class typeName (fst st2) (snd st2) frozen reversed)"
  unfolding parseFqTypeName.simps [of typeName startIndex len0] parse_class_def udt_branch class_params_def
  by (simp add: Let_def split: prod.split)

lemma at_index_append: "at_index needle (a @ s) (length a) \<longleftrightarrow> take (length needle) s = needle"
  by (simp add: at_index_def)

lemma indexOf_at: "js_indexOf s needle 0 = int k \<Longrightarrow> at_index needle s k"
proof -
  assume h: "js_indexOf s needle 0 = int k"
  let ?is = "filter (at_index needle s) [0..<Suc (length s)]"
  have "?is \<noteq> []" "k = hd ?is" using h by (auto simp: js_indexOf_def Let_def simp del: upt_Suc split: if_splits)
  then have "k \<in> set ?is" by (metis hd_in_set)
  then show ?thesis by (simp del: upt_Suc)
qed

lemma indexOf_start: "at_index needle s 0 \<Longrightarrow> js_indexOf s needle 0 = 0"
  using upt_conv_Cons [of 0 "Suc (length s)"] by (simp add: js_indexOf_def Let_def del: upt_Suc)

definition dec_open :: "bool \<Rightarrow> bool \<Rightarrow> string" where
  "dec_open f r = (if r then marshal ''ReversedType'' @ ''('' else []) @ (if f then marshal ''FrozenType'' @ ''('' else [])"

definition dec_close :: "bool \<Rightarrow> bool \<Rightarrow> string" where
  "dec_close f r = (if f then '')'' else []) @ (if r then '')'' else [])"

lemma decorate_parts: "decorate f r s = dec_open f r @ s @ dec_close f r"
  by (simp add: decorate_def dec_open_def dec_close_def wrap_class_def Let_def)

lemma marshal_take [simp]: "take (length (marshal x)) (marshal y @ s) = marshal x \<longleftrightarrow> take (length x) (y @ s) = x"
  by (simp add: marshal_def)

lemma marshal_length: "length (marshal x) = 32 + length x"
  by (simp add: marshal_def)

definition plain_head :: "string \<Rightarrow> bool" where
  "plain_head s \<longleftrightarrow> s \<noteq> [] \<and> (\<forall>z. take (length (marshal ''ReversedType'')) (s @ z) \<noteq> marshal ''ReversedType'')
    \<and> (\<forall>z. take (length (marshal ''FrozenType'')) (s @ z) \<noteq> marshal ''FrozenType'')"

lemma parse_decorated:
  assumes "plain_head s" and "pre = [] \<or> \<not> r"
  shows "parseFqTypeName (pre @ decorate f r s) (length pre) (int (length (decorate f r s)))
    = parse_class (pre @ decorate f r s) (length (pre @ dec_open f r)) (int (length s)) f r"
proof -
  let ?w = "pre @ decorate f r s" and ?r = "marshal ''ReversedType''" and ?f = "marshal ''FrozenType''"
  let ?p1 = "pre @ (if r then ?r @ ''('' else [])"
  let ?s1 = "decorate f False s"
  have w1: "?w = ?p1 @ ?s1 @ (if r then '')'' else [])" by (simp add: decorate_parts dec_open_def dec_close_def)
  have r: "js_indexOf ?w ?r 0 = int (length pre) \<longleftrightarrow> r"
  proof (cases r)
    case True
    then have "at_index ?r ?w 0" using assms(2) by (simp add: at_index_def decorate_parts dec_open_def)
    then show ?thesis using True assms(2) by (simp add: indexOf_start)
  next
    case False
    have "\<not> at_index ?r ?w (length pre)"
      using assms(1) False by (auto simp: at_index_append decorate_parts dec_open_def plain_head_def simp del: take_append)
    then show ?thesis using False indexOf_at by blast
  qed
  have s: "s \<noteq> []" using assms(1) by (simp add: plain_head_def)
  then have n0: "length (decorate f r s) \<noteq> 0" by (simp add: decorate_parts)
  have f: "at_index ?f ?w (length ?p1) \<longleftrightarrow> f"
    unfolding w1 at_index_append using assms(1) by (auto simp: decorate_parts dec_open_def plain_head_def simp del: take_append)
  have st1: "strip_wrapper ?r r (length pre, int (length (decorate f r s))) = ((length ?p1, int (length ?s1)), r)"
    using s by (auto simp: strip_wrapper_def decorate_parts dec_open_def dec_close_def)
  have st2: "strip_wrapper ?f f (length ?p1, int (length ?s1)) = ((length (pre @ dec_open f r), int (length s)), f)"
    using s by (auto simp: strip_wrapper_def decorate_parts dec_open_def dec_close_def)
  show ?thesis
    unfolding parseFqTypeName_class [of ?w] r
    using n0 st1 st2 f by (simp add: Let_def)
qed

lemma parse_whole: "parseFqTypeName s 0 0 = parseFqTypeName s 0 (int (length s))"
  by (simp add: parseFqTypeName_class [of s])

lemma class_params_wrap:
  assumes "list_all closed ps" and "ps \<noteq> []"
  shows "class_params (a @ wrap_class name ps @ b) (marshal name) (length a) (int (length (wrap_class name ps))) = ps"
  using parseParams_join [OF assms, of "a @ marshal name @ ''(''" "CHR '')'' # b"] by (simp add: class_params_def wrap_class_def)

lemma plain_head_wrap: "name \<in> set [''ListType'', ''SetType'', ''MapType'', ''UserType'', ''TupleType'', ''VectorType''] \<Longrightarrow> plain_head (wrap_class name ps)"
  by (auto simp: plain_head_def wrap_class_def simp del: take_append)

lemma plain_head_custom:
  assumes "custom_class s"
  shows "plain_head s"
proof -
  have c: "s \<noteq> []" "list_all (\<lambda>k. take (length k) s \<noteq> k) known_classes" "int (length s) > singleFqTypeNamesLength"
    using assms by (auto simp: custom_class_def singleFqTypeNamesLength_value)
  then show ?thesis by (simp add: plain_head_def known_classes_def marshal_length singleFqTypeNamesLength_value)
qed

lemma plain_head_single:
  assumes "34 \<le> length s" and "take 2 (drop 32 s) \<noteq> ''Re''" and "take 2 (drop 32 s) \<noteq> ''Fr''"
  shows "plain_head s"
proof -
  have "take 2 (drop 32 (take (length (marshal x)) (s @ z))) = take 2 (drop 32 s)" if "2 \<le> length x" for x z
    using assms(1) that by (auto simp: marshal_length drop_take min_def)
  moreover have "take 2 (drop 32 (marshal x)) = take 2 x" for x by (simp add: marshal_def)
  ultimately have "take (length (marshal x)) (s @ z) \<noteq> marshal x" if "2 \<le> length x" "take 2 x \<noteq> take 2 (drop 32 s)" for x z
    using that by metis
  then show ?thesis using assms by (auto simp: plain_head_def simp del: take_append)
qed

lemma not_empty_class:
  assumes "pre = [] \<or> CHR '':'' \<in> set pre" and "s \<noteq> marshal ''EmptyType''"
  shows "pre @ decorate f r s \<noteq> marshal ''EmptyType''"
proof
  assume h: "pre @ decorate f r s = marshal ''EmptyType''"
  have e: "CHR '':'' \<notin> set (marshal ''EmptyType'')" "CHR ''('' \<notin> set (marshal ''EmptyType'')" by (simp_all add: marshal_def)
  have "set pre \<subseteq> set (marshal ''EmptyType'')" "set (dec_open f r) \<subseteq> set (marshal ''EmptyType'')"
    unfolding h [symmetric] by (auto simp: decorate_parts)
  then have "pre = []" "\<not> f" "\<not> r" using e assms(1) by (auto simp: dec_open_def split: if_splits)
  then show False using h assms(2) by (simp add: decorate_def)
qed

lemma parse_class_single:
  assumes "pre = [] \<or> CHR '':'' \<in> set pre" and "s \<noteq> marshal ''EmptyType''" and "int (length s) \<le> singleFqTypeNamesLength"
    and "map_of singleTypeNames s = (if code = dt_duration then None else Some code)" and "code = dt_duration \<Longrightarrow> s = marshal ''DurationType''"
  shows "parse_class (pre @ decorate f r s) (length (pre @ dec_open f r)) (int (length s)) f r = Inr (TI code NoInfo f r)"
proof -
  let ?w = "pre @ decorate f r s" and ?i = "length (pre @ dec_open f r)"
  have "(if ?i > 0 then js_substr ?w ?i (int (length s)) else ?w) = s"
  proof (cases "?i > 0")
    case True
    have "?w = (pre @ dec_open f r) @ s @ dec_close f r" by (simp add: decorate_parts)
    then show ?thesis using True by (simp add: js_substr_def)
  next
    case False
    then have "pre = []" "\<not> f" "\<not> r" by (auto simp: dec_open_def split: if_splits)
    then show ?thesis using False by (simp add: decorate_def)
  qed
  then show ?thesis using not_empty_class [OF assms(1,2)] assms(3-5) unfolding parse_class_def by (simp add: Let_def)
qed

lemma at_class:
  "at_index (marshal x) (a @ wrap_class name ps @ b) (length a) \<longleftrightarrow> take (length x) (name @ CHR ''('' # join_params ps @ CHR '')'' # b) = x"
  unfolding at_index_append wrap_class_def append_assoc by (simp del: take_append)

lemma parse_class_wrap:
  assumes "pre = [] \<or> CHR '':'' \<in> set pre" and "list_all closed ps" and "ps \<noteq> []" and "length (join_params ps) > 32"
    and w: "w = pre @ decorate f r (wrap_class name ps)" and i: "i = length (pre @ dec_open f r)" and n: "n = int (length (wrap_class name ps))"
  shows "name = ''ListType'' \<Longrightarrow> parse_class w i n f r = (if length ps \<noteq> 1 then Inl TypeError
      else bind_result (map_result (\<lambda>x. parseFqTypeName x 0 0) ps) (\<lambda>ts. Inr (TI dt_list (SubType (hd ts)) f r)))"
    and "name = ''SetType'' \<Longrightarrow> parse_class w i n f r = (if length ps \<noteq> 1 then Inl TypeError
      else bind_result (map_result (\<lambda>x. parseFqTypeName x 0 0) ps) (\<lambda>ts. Inr (TI dt_set (SubType (hd ts)) f r)))"
    and "name = ''MapType'' \<Longrightarrow> parse_class w i n f r = (if length ps \<noteq> 2 then Inl TypeError
      else bind_result (map_result (\<lambda>x. parseFqTypeName x 0 0) ps) (\<lambda>ts. Inr (TI dt_map (SubTypes ts) f r)))"
    and "name = ''TupleType'' \<Longrightarrow> parse_class w i n f r
      = bind_result (map_result (\<lambda>x. parseFqTypeName x 0 0) ps) (\<lambda>ts. Inr (TI dt_tuple (SubTypes ts) f r))"
    and "name = ''UserType'' \<Longrightarrow> parse_class w i n f r = (if length ps < 2 then Inl TypeError
      else bind_result
        (map_result (\<lambda>p. bind_result (parseFqTypeName p (snd (field_split p)) (int (length p) - int (snd (field_split p))))
            (\<lambda>t. Inr (fst (field_split p), t))) (drop 2 ps))
        (\<lambda>fields. Inr (TI dt_udt (UdtInfo (Some (ps ! 0)) (utf8_decode (hex_decode (ps ! 1))) fields) f r)))"
    and "name = ''VectorType'' \<Longrightarrow> pre = [] \<Longrightarrow> \<not> f \<Longrightarrow> \<not> r \<Longrightarrow> parse_class w i n f r =
      (if length ps = 2 then bind_result (parseFqTypeName (js_trim (ps ! 0)) 0 0)
         (\<lambda>t. Inr (TI dt_custom (VectorInfo t (js_parseInt (js_trim (ps ! 1)) 10)) f r)) else Inl TypeError)"
proof -
  let ?a = "pre @ dec_open f r" and ?b = "dec_close f r"
  have wp: "w = ?a @ wrap_class name ps @ ?b" by (simp add: w decorate_parts)
  have ne: "wrap_class name ps \<noteq> marshal ''EmptyType''"
    by (auto simp: wrap_class_def marshal_def dest!: arg_cong [of _ _ "\<lambda>s. CHR ''('' \<in> set s"])
  note E = not_empty_class [OF assms(1) ne, of f r, folded w]
  have P: "class_params w (marshal name) i n = ps" unfolding wp i n by (rule class_params_wrap [OF assms(2,3)])
  have A: "at_index (marshal x) w i \<longleftrightarrow> take (length x) (name @ CHR ''('' # join_params ps @ CHR '')'' # ?b) = x" for x
    unfolding wp i by (rule at_class)
  have N: "length name > 6 \<Longrightarrow> \<not> n \<le> singleFqTypeNamesLength"
    using assms(4) by (simp add: n wrap_class_def marshal_length singleFqTypeNamesLength_value)
  { assume "name = ''ListType''"
    then show "parse_class w i n f r = (if length ps \<noteq> 1 then Inl TypeError
      else bind_result (map_result (\<lambda>x. parseFqTypeName x 0 0) ps) (\<lambda>ts. Inr (TI dt_list (SubType (hd ts)) f r)))"
      using E N A P unfolding parse_class_def by (simp add: Let_def) }
  { assume "name = ''SetType''"
    then show "parse_class w i n f r = (if length ps \<noteq> 1 then Inl TypeError
      else bind_result (map_result (\<lambda>x. parseFqTypeName x 0 0) ps) (\<lambda>ts. Inr (TI dt_set (SubType (hd ts)) f r)))"
      using E N A P unfolding parse_class_def by (simp add: Let_def) }
  { assume "name = ''MapType''"
    then show "parse_class w i n f r = (if length ps \<noteq> 2 then Inl TypeError
      else bind_result (map_result (\<lambda>x. parseFqTypeName x 0 0) ps) (\<lambda>ts. Inr (TI dt_map (SubTypes ts) f r)))"
      using E N A P unfolding parse_class_def by (simp add: Let_def) }
  { assume "name = ''TupleType''"
    then show "parse_class w i n f r
      = bind_result (map_result (\<lambda>x. parseFqTypeName x 0 0) ps) (\<lambda>ts. Inr (TI dt_tuple (SubTypes ts) f r))"
      using E N A P unfolding parse_class_def by (simp add: Let_def) }
  { assume "name = ''UserType''"
    then show "parse_class w i n f r = (if length ps < 2 then Inl TypeError
      else bind_result
        (map_result (\<lambda>p. bind_result (parseFqTypeName p (snd (field_split p)) (int (length p) - int (snd (field_split p))))
            (\<lambda>t. Inr (fst (field_split p), t))) (drop 2 ps))
        (\<lambda>fields. Inr (TI dt_udt (UdtInfo (Some (ps ! 0)) (utf8_decode (hex_decode (ps ! 1))) fields) f r)))"
      using E N A P [unfolded class_params_def] unfolding parse_class_def udt_branch by (simp add: Let_def) }
  { assume v: "name = ''VectorType''" and "pre = []" "\<not> f" "\<not> r"
    then have "w = wrap_class name ps" "i = 0" by (simp_all add: w i decorate_def dec_open_def)
    then have "parseParams w (length (marshal ''VectorType'') + 1) (int (length w) - int (length (marshal ''VectorType'') + 2)) CHR ''('' CHR '')'' = ps"
      using P by (simp add: class_params_def n v)
    then have V: "vector_args w (marshal ''VectorType'')
      = (if length ps = 2 then Inr (js_trim (ps ! 0), js_parseInt (js_trim (ps ! 1)) 10) else Inl TypeError)"
      by (simp add: vector_args_def)
    then show "parse_class w i n f r =
      (if length ps = 2 then bind_result (parseFqTypeName (js_trim (ps ! 0)) 0 0)
         (\<lambda>t. Inr (TI dt_custom (VectorInfo t (js_parseInt (js_trim (ps ! 1)) 10)) f r)) else Inl TypeError)"
      using E N A v unfolding parse_class_def by (simp add: V Let_def) }
qed

subsection \<open>Fields of user-defined types\<close>

lemma indexOf_first:
  assumes "at_index needle s k" and "\<forall>j < k. \<not> at_index needle s j" and "k \<le> length s"
  shows "js_indexOf s needle 0 = int k"
proof -
  have "[0..<Suc (length s)] = [0..<k] @ k # [Suc k..<Suc (length s)]"
    using upt_add_eq_append [of 0 k "Suc (length s) - k"] upt_conv_Cons [of k "Suc (length s)"] assms(3) by (simp del: upt_Suc)
  moreover have "filter (at_index needle s) [0..<k] = []" using assms(2) by (simp add: filter_empty_conv)
  ultimately show ?thesis using assms(1) by (simp add: js_indexOf_def Let_def del: upt_Suc)
qed

lemma indexOf_char: "c \<notin> set x \<Longrightarrow> js_indexOf (x @ c # y) [c] 0 = int (length x)"
proof (rule indexOf_first)
  assume c: "c \<notin> set x"
  show "\<forall>j < length x. \<not> at_index [c] (x @ c # y) j"
  proof (intro allI impI)
    fix j assume j: "j < length x"
    then have "x ! j \<noteq> c" using c nth_mem by metis
    then show "\<not> at_index [c] (x @ c # y) j" using j by (simp add: at_index_def take_Suc_conv_app_nth hd_drop_conv_nth take_Suc nth_append)
  qed
qed (simp_all add: at_index_def)

lemma field_split_text: "field_split (field_text n t) = (n, length (hex_text (utf8_encode n)) + 1)"
proof -
  let ?h = "hex_text (utf8_encode n)"
  have "CHR '':'' \<notin> set ?h" using hex_plain by blast
  then have i: "js_indexOf (field_text n t) '':'' 0 = int (length ?h)" unfolding field_text_def by (rule indexOf_char)
  have "js_substr (field_text n t) 0 (int (length ?h)) = ?h" by (simp add: js_substr_def field_text_def)
  moreover have "nat (int (length ?h) + 1) = length ?h + 1" by linarith
  ultimately show ?thesis unfolding field_split_def i Let_def by (simp only: hex_utf8_roundtrip)
qed

subsection \<open>Ends and lengths of names\<close>

definition trimmed :: "string \<Rightarrow> bool" where
  "trimmed s \<longleftrightarrow> s \<noteq> [] \<and> \<not> is_js_space (hd s) \<and> \<not> is_js_space (last s)"

lemma trimmed_trim: "trimmed s \<Longrightarrow> js_trim s = s"
proof -
  assume t: "trimmed s"
  then have "dropWhile is_js_space s = s" "dropWhile is_js_space (rev s) = rev s"
    by (simp_all add: trimmed_def dropWhile_eq_self_iff hd_rev)
  then show ?thesis by (simp add: js_trim_def)
qed

lemma trimmed_wrap: "trimmed (wrap_class name ps)"
proof -
  have "\<not> is_js_space CHR ''o''" "\<not> is_js_space CHR '')''" by code_simp+
  then show ?thesis by (simp add: trimmed_def wrap_class_def marshal_def)
qed

lemma trimmed_decorate: "trimmed s \<Longrightarrow> trimmed (decorate f r s)"
  using trimmed_wrap by (simp add: decorate_def Let_def)

lemma single_trimmed: "list_all (\<lambda>(k, c). hd (single_name c) = CHR ''o'' \<and> last (single_name c) = CHR ''e'') singleTypeNames"
  "last (marshal ''DurationType'') = CHR ''e''" "last (marshal ''EmptyType'') = CHR ''e''"
  by code_simp+

lemma letters_no_space: "\<not> is_js_space CHR ''o''" "\<not> is_js_space CHR ''e''"
  by code_simp+

lemma marshal_hd: "marshal x \<noteq> []" "hd (marshal x) = CHR ''o''"
  by (simp_all add: marshal_def)

lemma trimmed_single:
  assumes "code = dt_duration \<or> code \<in> snd ` set singleTypeNames"
  shows "trimmed (single_name code)" and "34 \<le> length (single_name code)"
proof -
  have "single_name code \<noteq> [] \<and> hd (single_name code) = CHR ''o'' \<and> last (single_name code) = CHR ''e'' \<and> 34 \<le> length (single_name code)"
  proof (cases "code = dt_duration")
    case True
    then show ?thesis using single_trimmed(2) marshal_hd by (simp add: single_name_def marshal_length)
  next
    case False
    then obtain k where k: "(k, code) \<in> set singleTypeNames" using assms by auto
    have "34 \<le> length (single_name code)" using single_names k by (auto simp: list_all_iff)
    moreover have "hd (single_name code) = CHR ''o'' \<and> last (single_name code) = CHR ''e''"
      using single_trimmed(1) k by (auto simp: list_all_iff)
    ultimately show ?thesis by auto
  qed
  then show "trimmed (single_name code)" and "34 \<le> length (single_name code)" using letters_no_space by (simp_all add: trimmed_def)
qed

lemma fq_name_trimmed: "class_named t \<Longrightarrow> trimmed (fq_name t) \<and> 32 < length (fq_name t)"
proof -
  assume t: "class_named t"
  obtain code info f r where T: "t = TI code info f r" by (cases t)
  have d: "length s \<le> length (decorate f r s)" for s by (simp add: decorate_parts)
  have w: "32 < length (wrap_class name ps)" for name ps by (simp add: wrap_class_def marshal_length)
  have "\<exists>s. fq_name t = decorate f r s \<and> trimmed s \<and> 32 < length s"
    using t trimmed_single [of code] trimmed_wrap w single_trimmed(3) marshal_hd letters_no_space
    by (cases info) (auto simp: T trimmed_def custom_class_def marshal_length singleFqTypeNamesLength_value)
  then show ?thesis using trimmed_decorate d less_le_trans by metis
qed

lemma join_length: "p \<in> set ps \<Longrightarrow> length p \<le> length (join_params ps)"
  by (induction ps rule: join_params.induct) auto

subsection \<open>The round trip\<close>

definition reads_back :: "type_info \<Rightarrow> bool" where
  "reads_back t \<longleftrightarrow> (\<forall>pre. pre = [] \<or> \<not> stands_alone t \<and> CHR '':'' \<in> set pre \<longrightarrow>
    parseFqTypeName (pre @ fq_name t) (length pre) (int (length (fq_name t))) = Inr t)"

lemma reads_back_whole: "reads_back t \<Longrightarrow> parseFqTypeName (fq_name t) 0 0 = Inr t"
  unfolding reads_back_def parse_whole by (drule spec [of _ "[]"]) simp

lemma reads_back_list: "list_all reads_back ts \<Longrightarrow> map_result (\<lambda>x. parseFqTypeName x 0 0) (map fq_name ts) = Inr ts"
  by (induction ts) (simp_all add: reads_back_whole)

lemma reads_back_field:
  assumes "reads_back t" and "\<not> stands_alone t" and p: "p = field_text k (fq_name t)"
  shows "bind_result (parseFqTypeName p (snd (field_split p)) (int (length p) - int (snd (field_split p))))
    (\<lambda>t. Inr (fst (field_split p), t)) = Inr (k, t)"
proof -
  let ?pre = "hex_text (utf8_encode k) @ '':''"
  have q: "p = ?pre @ fq_name t" by (simp add: p field_text_def)
  have "parseFqTypeName (?pre @ fq_name t) (length ?pre) (int (length (fq_name t))) = Inr t"
    using assms(1,2) unfolding reads_back_def by (drule_tac spec [of _ ?pre]) simp
  moreover have "field_split p = (k, length ?pre)" by (simp add: p field_split_text)
  moreover have "int (length p) - int (length ?pre) = int (length (fq_name t))" by (simp add: q)
  ultimately show ?thesis by (simp add: q)
qed

lemma reads_back_wrap:
  assumes "fq_name t = decorate f r (wrap_class name ps)" and "t = TI code info f r"
    and "name \<in> set [''ListType'', ''SetType'', ''MapType'', ''UserType'', ''TupleType'', ''VectorType'']"
    and "\<And>pre. pre = [] \<or> CHR '':'' \<in> set pre \<Longrightarrow> pre = [] \<or> \<not> stands_alone t \<Longrightarrow>
      parse_class (pre @ decorate f r (wrap_class name ps)) (length (pre @ dec_open f r)) (int (length (wrap_class name ps))) f r = Inr t"
  shows "reads_back t"
  unfolding reads_back_def assms(1)
proof (intro allI impI)
  fix pre :: string
  assume p: "pre = [] \<or> \<not> stands_alone t \<and> CHR '':'' \<in> set pre"
  then have q: "pre = [] \<or> \<not> r" by (auto simp: assms(2))
  show "parseFqTypeName (pre @ decorate f r (wrap_class name ps)) (length pre) (int (length (decorate f r (wrap_class name ps)))) = Inr t"
    unfolding parse_decorated [OF plain_head_wrap [OF assms(3)] q] using p by (intro assms(4)) auto
qed

lemma reads_back_sequence:
  assumes "class_named t" and "reads_back t" and "code = dt_list \<or> code = dt_set"
  shows "reads_back (TI code (SubType t) f r)"
proof -
  have c: "list_all closed [fq_name t]" "length (join_params [fq_name t]) > 32" using fq_name_closed fq_name_trimmed assms(1) by simp_all
  show ?thesis
  proof (rule reads_back_wrap [OF _ refl])
    fix pre :: string
    assume p: "pre = [] \<or> CHR '':'' \<in> set pre"
    let ?n = "if code = dt_list then ''ListType'' else ''SetType''"
    show "parse_class (pre @ decorate f r (wrap_class ?n [fq_name t])) (length (pre @ dec_open f r)) (int (length (wrap_class ?n [fq_name t]))) f r
      = Inr (TI code (SubType t) f r)"
      using assms(3) parse_class_wrap(1,2) [OF p c(1) _ c(2) refl refl refl] reads_back_whole [OF assms(2)] by (elim disjE) simp_all
  qed simp_all
qed

lemma named_list:
  assumes "list_all class_named ts" and "ts \<noteq> []"
  shows "list_all closed (map fq_name ts)" and "length (join_params (map fq_name ts)) > 32"
proof -
  show "list_all closed (map fq_name ts)" using assms(1) by (auto simp: list_all_iff intro: fq_name_closed)
  obtain t where t: "t \<in> set ts" using assms(2) by (cases ts) auto
  then have "length (fq_name t) > 32" using assms(1) fq_name_trimmed by (auto simp: list_all_iff)
  then show "length (join_params (map fq_name ts)) > 32" using join_length [of "fq_name t" "map fq_name ts"] t by simp
qed

lemma reads_back_members:
  assumes "list_all class_named ts" and "list_all reads_back ts" and "code = dt_map \<and> length ts = 2 \<or> code = dt_tuple \<and> ts \<noteq> []"
  shows "reads_back (TI code (SubTypes ts) f r)"
proof -
  have ne: "ts \<noteq> []" using assms(3) by auto
  note c = named_list [OF assms(1) ne]
  show ?thesis
  proof (rule reads_back_wrap [OF _ refl])
    fix pre :: string
    assume p: "pre = [] \<or> CHR '':'' \<in> set pre"
    let ?n = "if code = dt_map then ''MapType'' else ''TupleType''"
    show "parse_class (pre @ decorate f r (wrap_class ?n (map fq_name ts))) (length (pre @ dec_open f r))
      (int (length (wrap_class ?n (map fq_name ts)))) f r = Inr (TI code (SubTypes ts) f r)"
      using assms(3) ne parse_class_wrap(3,4) [OF p c(1) _ c(2) refl refl refl] reads_back_list [OF assms(2)] by (elim disjE) simp_all
  qed simp_all
qed

lemma reads_back_udt:
  assumes "closed ks" and "fs \<noteq> []" and "list_all (\<lambda>(k, t). class_named t \<and> \<not> stands_alone t) fs" and "list_all (\<lambda>(k, t). reads_back t) fs"
  shows "reads_back (TI dt_udt (UdtInfo (Some ks) n fs) f r)"
proof -
  let ?fs = "map (\<lambda>(k, t). field_text k (fq_name t)) fs"
  let ?ps = "ks # hex_text (utf8_encode n) # ?fs"
  have h: "closed (hex_text (utf8_encode n))" for n using hex_plain by (intro closed_plain) blast
  then have "closed (field_text k s)" if "closed s" for k s using that by (simp add: field_text_def closed_def nesting_append)
  then have c1: "list_all closed ?ps" using assms(1,3) h fq_name_closed by (auto simp: list_all_iff)
  obtain k t fs' where f: "fs = (k, t) # fs'" using assms(2) by (cases fs) auto
  then have "32 < length (fq_name t)" using fq_name_trimmed assms(3) by auto
  then have c2: "32 < length (join_params ?ps)" using join_length [of "field_text k (fq_name t)" ?ps] f by (simp add: field_text_def)
  have m: "map_result (\<lambda>p. bind_result (parseFqTypeName p (snd (field_split p)) (int (length p) - int (snd (field_split p))))
      (\<lambda>t. Inr (fst (field_split p), t))) ?fs = Inr fs"
    using assms(3,4)
  proof (induction fs)
    case (Cons x fs)
    obtain k t where x: "x = (k, t)" by (cases x)
    show ?case using Cons reads_back_field [OF _ _ refl, of t k] by (simp add: x)
  qed simp
  show ?thesis
  proof (rule reads_back_wrap [OF _ refl])
    fix pre :: string
    assume p: "pre = [] \<or> CHR '':'' \<in> set pre"
    show "parse_class (pre @ decorate f r (wrap_class ''UserType'' ?ps)) (length (pre @ dec_open f r)) (int (length (wrap_class ''UserType'' ?ps))) f r
      = Inr (TI dt_udt (UdtInfo (Some ks) n fs) f r)"
      using parse_class_wrap(5) [OF p c1 _ c2 refl refl refl] m by (simp add: hex_utf8_roundtrip)
  qed simp_all
qed

lemma reads_back_vector:
  assumes "class_named t" and "reads_back t" and "0 \<le> d"
  shows "reads_back (TI dt_custom (VectorInfo t (JsInt d)) False False)"
proof -
  let ?d = "CHR '' '' # show_nat (nat d)" and ?ps = "[fq_name t, CHR '' '' # show_nat (nat d)]"
  have c: "list_all closed ?ps" "length (join_params ?ps) > 32" using fq_name_closed [OF assms(1)] fq_name_trimmed [OF assms(1)] show_nat_plain by simp_all
  have t: "js_trim (fq_name t) = fq_name t" using fq_name_trimmed [OF assms(1)] by (simp add: trimmed_trim)
  have "js_trim ?d = show_nat (nat d)"
  proof -
    have "\<forall>c \<in> set (show_nat (nat d)). \<not> is_js_space c" using show_nat_digits digit_not_special(1) by blast
    then have "js_trim (show_nat (nat d)) = show_nat (nat d)" by (rule js_trim_no_space)
    moreover have "is_js_space CHR '' ''" by code_simp
    ultimately show ?thesis by (simp add: js_trim_def)
  qed
  moreover have "js_parseInt (show_nat (nat d)) 10 = JsInt d"
    using parseInt_digits [of "show_nat (nat d)" 10] show_nat_digits [of "nat d"] assms(3) by (simp add: digits_value_show)
  ultimately have D: "js_parseInt (js_trim (?ps ! 1)) 10 = JsInt d" by simp
  show ?thesis
  proof (rule reads_back_wrap [OF _ refl])
    fix pre :: string
    assume "pre = [] \<or> CHR '':'' \<in> set pre" "pre = [] \<or> \<not> stands_alone (TI dt_custom (VectorInfo t (JsInt d)) False False)"
    then have p: "pre = []" by simp
    show "parse_class (pre @ decorate False False (wrap_class ''VectorType'' ?ps)) (length (pre @ dec_open False False))
      (int (length (wrap_class ''VectorType'' ?ps))) False False = Inr (TI dt_custom (VectorInfo t (JsInt d)) False False)"
      using parse_class_wrap(6) [OF disjI1 [OF p] c(1) _ c(2) refl refl refl refl p not_False_eq_True [THEN iffD2, OF TrueI] not_False_eq_True [THEN iffD2, OF TrueI]] D t reads_back_whole [OF assms(2)] by simp
  qed (use assms(3) in \<open>simp_all add: show_int_def\<close>)
qed

lemma reads_back_single:
  assumes "code = dt_duration \<or> code \<in> snd ` set singleTypeNames"
  shows "reads_back (TI code NoInfo f r)"
  unfolding reads_back_def
proof (intro allI impI)
  fix pre :: string
  let ?s = "single_name code"
  assume p: "pre = [] \<or> \<not> stands_alone (TI code NoInfo f r) \<and> CHR '':'' \<in> set pre"
  have s: "take 2 (drop 32 ?s) \<noteq> ''Re''" "take 2 (drop 32 ?s) \<noteq> ''Fr''" "?s \<noteq> marshal ''EmptyType''" "int (length ?s) \<le> singleFqTypeNamesLength"
    "map_of singleTypeNames ?s = (if code = dt_duration then None else Some code)" "code = dt_duration \<Longrightarrow> ?s = marshal ''DurationType''"
  proof -
    show "code = dt_duration \<Longrightarrow> ?s = marshal ''DurationType''" by (simp add: single_name_def)
    have "code \<noteq> dt_duration \<Longrightarrow> \<exists>k. (k, code) \<in> set singleTypeNames" using assms by auto
    then show "take 2 (drop 32 ?s) \<noteq> ''Re''" "take 2 (drop 32 ?s) \<noteq> ''Fr''" "?s \<noteq> marshal ''EmptyType''"
      "int (length ?s) \<le> singleFqTypeNamesLength" "map_of singleTypeNames ?s = (if code = dt_duration then None else Some code)"
      using single_names single_duration
      by (cases "code = dt_duration"; fastforce simp: list_all_iff single_name_def [of dt_duration] marshal_def [of "''EmptyType''"])+
  qed
  have "plain_head ?s" using plain_head_single [OF _ s(1,2)] trimmed_single(2) [OF assms] by simp
  then have "parseFqTypeName (pre @ decorate f r ?s) (length pre) (int (length (decorate f r ?s)))
    = parse_class (pre @ decorate f r ?s) (length (pre @ dec_open f r)) (int (length ?s)) f r"
    using p by (intro parse_decorated) auto
  then show "parseFqTypeName (pre @ fq_name (TI code NoInfo f r)) (length pre) (int (length (fq_name (TI code NoInfo f r)))) = Inr (TI code NoInfo f r)"
    using parse_class_single [OF _ s(3-6)] p by auto
qed

lemma reads_back_custom:
  assumes "custom_class s"
  shows "reads_back (TI dt_custom (CustomName s) f r)"
  unfolding reads_back_def
proof (intro allI impI)
  fix pre :: string
  let ?t = "TI dt_custom (CustomName s) f r" and ?a = "pre @ dec_open f r" and ?w = "pre @ decorate f r s"
  assume p: "pre = [] \<or> \<not> stands_alone ?t \<and> CHR '':'' \<in> set pre"
  have n: "int (length s) > 49" using assms by (simp add: custom_class_def singleFqTypeNamesLength_value)
  then have e: "s \<noteq> marshal ''EmptyType''" "s \<noteq> ''empty''" by (auto simp: marshal_def)
  have w: "?w = ?a @ s @ dec_close f r" by (simp add: decorate_parts)
  have "\<not> at_index k ?w (length ?a)" if "k \<in> set known_classes" for k
  proof -
    have "list_all (\<lambda>k. int (length k) \<le> 49) known_classes" by code_simp
    then have "length k \<le> length s" using that n by (auto simp: list_all_iff)
    then show ?thesis unfolding w at_index_append using assms that by (auto simp: custom_class_def list_all_iff)
  qed
  moreover have "js_substr ?w (length ?a) (int (length s)) = s" unfolding w by (simp add: js_substr_def)
  ultimately have "parse_class ?w (length ?a) (int (length s)) f r = Inr ?t"
    using not_empty_class [of pre s f r] p e n unfolding parse_class_def
    by (simp add: known_classes_def singleFqTypeNamesLength_value) blast
  moreover have "pre = [] \<or> \<not> r" using p by auto
  ultimately show "parseFqTypeName (pre @ fq_name ?t) (length pre) (int (length (fq_name ?t))) = Inr ?t"
    using parse_decorated [OF plain_head_custom [OF assms], of pre r f] e by simp
qed

lemma reads_back_empty: "reads_back (TI dt_custom (CustomName ''empty'') False False)"
proof -
  have "js_indexOf (marshal ''EmptyType'') (marshal ''ReversedType'') 0 \<noteq> 0" "\<not> at_index (marshal ''FrozenType'') (marshal ''EmptyType'') 0"
    by code_simp+
  then have "parseFqTypeName (marshal ''EmptyType'') 0 (int (length (marshal ''EmptyType''))) = Inr (TI dt_custom (CustomName ''empty'') False False)"
    unfolding parseFqTypeName_class by (simp add: strip_wrapper_def parse_class_def)
  then show ?thesis by (simp add: reads_back_def decorate_def)
qed

lemma class_named_reads_back: "class_named t \<Longrightarrow> reads_back t"
proof (induction t rule: fq_name.induct)
  case (1 code info f r)
  show ?case
  proof (cases info)
    case NoInfo
    then show ?thesis using 1(5) by (simp add: reads_back_single)
  next
    case (SubType t)
    then show ?thesis using 1(1) [OF SubType] 1(5) by (simp add: reads_back_sequence)
  next
    case (SubTypes ts)
    then show ?thesis using 1(2) [OF SubTypes] 1(5) by (simp add: reads_back_members list_all_iff)
  next
    case (UdtInfo ks n fs)
    then obtain k where "ks = Some k" "closed k" "fs \<noteq> []" "code = dt_udt" using 1(5) by (auto split: option.splits)
    moreover have "list_all (\<lambda>(k, t). reads_back t) fs" using 1(3) [OF UdtInfo] 1(5) UdtInfo by (fastforce simp: list_all_iff)
    ultimately show ?thesis using UdtInfo 1(5) by (simp add: reads_back_udt)
  next
    case (UdtName n)
    then show ?thesis using 1 by simp
  next
    case (CustomName s)
    then show ?thesis using 1(5) reads_back_empty reads_back_custom by auto
  next
    case (VectorInfo t d)
    then show ?thesis using 1(4) [OF VectorInfo] 1(5) by (auto simp: reads_back_vector split: js_number.splits)
  qed
qed

section \<open>Properties\<close>

text \<open>
  C27: \<open>parseFqTypeName\<close> reads the class name of a type of \<open>class_named\<close> as that type: simple types, lists, sets, maps, tuples,
  vectors, user-defined types and custom classes nested in one another, with their frozen and reversed marks, within these limits. A
  vector and the empty type have neither mark; a vector has a dimension of at least 0. A vector, the empty type and a
  reversed type are not directly the type of a field of a user-defined type, which names its keyspace and has at least
  one field; a tuple is not empty. The name of a custom class is longer than the longest class name of a simple type,
  balanced in its parentheses and without commas outside them (as is the name of a keyspace), without spaces at its ends and does not start with the name of a collection or a wrapper.
\<close>

theorem class_name_roundtrip:
  assumes "class_named t"
  shows "parseFqTypeName (fq_name t) 0 0 = Inr t"
  using class_named_reads_back [OF assms] by (rule reads_back_whole)

theorem class_name_roundtrip_witness:
  "parseFqTypeName (fq_name (TI dt_map (SubTypes [simple_type dt_int, TI dt_udt (UdtInfo (Some ''ks'') ''address''
      [(''street'', simple_type dt_varchar), (''zip'', TI dt_list (SubType (simple_type dt_int)) True False)]) True False]) False True)) 0 0
    = Inr (TI dt_map (SubTypes [simple_type dt_int, TI dt_udt (UdtInfo (Some ''ks'') ''address''
      [(''street'', simple_type dt_varchar), (''zip'', TI dt_list (SubType (simple_type dt_int)) True False)]) True False]) False True)"
  by (rule class_name_roundtrip) code_simp

text \<open>
  A vector that is frozen is not read: its arguments are looked for at the start of the text, inside the name of the wrapper.
\<close>

lemma frozen_vector_unread:
  "parseFqTypeName (decorate True False (fq_name (TI dt_custom (VectorInfo (simple_type dt_int) (JsInt 3)) False False))) 0 0 = Inl TypeError"
  by code_simp

text \<open>A user-defined type whose name starts with the name of a collection is taken for that collection.\<close>

lemma udt_name_prefix:
  "parseTypeName ''ks'' ''settings'' 0 0 (Some (\<lambda>ks n. Inr (if n = ''settings'' then Some (UdtInfo (Some ks) n []) else None))) = Inl TypeError"
  by code_simp

text \<open>In a CQL name the parameters of a vector are separated as in a class name, so a comma inside angle brackets counts.\<close>

lemma cql_vector_of_maps: "parseTypeName ''ks'' ''vector<map<int, text>, 3>'' 0 0 (Some (\<lambda>ks n. Inr None)) = Inl TypeError"
  by code_simp

lemma cql_names:
  "parseTypeName ''ks'' ''frozen<map<text, frozen<list<int>>>>'' 0 0 None
    = Inr (TI dt_map (SubTypes [simple_type dt_text, TI dt_list (SubType (simple_type dt_int)) True False]) True False)"
  "parseTypeName ''ks'' ''vector<float, 3>'' 0 0 None = Inr (TI dt_custom (VectorInfo (simple_type dt_float) (JsInt 3)) False False)"
  "parseTypeName ''ks'' ''duration'' 0 0 None = Inr (simple_type dt_duration)"
  by code_simp+

end
