(* ===== verification/Decoder.thy ===== *)
theory Decoder
  imports Encoder Class_Names
begin

text \<open>
  \<open>decode\<close> of \<^verbatim>\<open>src/lib/encoder.js\<close> and the decoders of the types with elements. They read a buffer at an offset that the lengths
  in the buffer move, also backwards, so that it is an integer; the offset of \<open>decodeVector\<close> may become \<open>NaN\<close>, which is \<open>None\<close>.
\<close>

section \<open>Slices\<close>

text \<open>\<open>buffer.slice(start, end)\<close>: a negative position counts from the end of the buffer.\<close>

definition slice_index :: "buffer \<Rightarrow> int \<Rightarrow> nat" where
  "slice_index buf i = (if i < 0 then nat (max 0 (int (length buf) + i)) else min (nat i) (length buf))"

definition js_slice :: "buffer \<Rightarrow> int \<Rightarrow> int \<Rightarrow> buffer" where
  "js_slice buf s e = take (slice_index buf e - slice_index buf s) (drop (slice_index buf s) buf)"

section \<open>Types of elements\<close>

text \<open>A type, no type at all (\<open>null\<close> or \<open>undefined\<close>, whose \<open>code\<close> raises), or something without a code.\<close>

datatype dec_arg = DecType type_info | DecNone | DecBad

type_synonym 'l decode_fun = "buffer \<Rightarrow> type_info \<Rightarrow> 'l jsval result"

fun decode_element :: "'l decode_fun \<Rightarrow> dec_arg \<Rightarrow> buffer \<Rightarrow> 'l jsval result" where
  "decode_element dec (DecType t) b = dec b t"
| "decode_element dec DecNone b = Inl TypeError"
| "decode_element dec DecBad b = (if b = [] then Inr JNull else Inl PlainError)"

fun sub_dec :: "info \<Rightarrow> dec_arg" where
  "sub_dec NoInfo = DecNone"
| "sub_dec (SubType t) = DecType t"
| "sub_dec _ = DecBad"

fun dec_items :: "info \<Rightarrow> dec_arg list" where
  "dec_items (SubTypes ts) = map DecType ts"
| "dec_items (VectorInfo t n) = [DecType t, DecBad]"
| "dec_items (UdtName s) = replicate (length s) DecBad"
| "dec_items (CustomName s) = replicate (length s) DecBad"
| "dec_items _ = []"

definition dec_item :: "info \<Rightarrow> nat \<Rightarrow> dec_arg" where
  "dec_item info i = (if i < length (dec_items info) then dec_items info ! i else DecNone)"

section \<open>Lists, sets and maps\<close>

fun list_loop :: "(buffer \<Rightarrow> 'l jsval result) \<Rightarrow> 'l encoder \<Rightarrow> buffer \<Rightarrow> nat \<Rightarrow> int \<Rightarrow> 'l jsval list result" where
  "list_loop f E bytes 0 off = Inr []"
| "list_loop f E bytes (Suc n) off =
    bind_result (decodeCollectionLength E bytes off) (\<lambda>len.
    let off = off + int (collectionLengthSize E) in
    bind_result (f (js_slice bytes off (off + len))) (\<lambda>v.
    bind_result (list_loop f E bytes n (off + len)) (\<lambda>vs. Inr (v # vs))))"

text \<open>\<open>new Array(n)\<close> raises a \<open>RangeError\<close> for a negative length.\<close>

definition decode_items :: "'l decode_fun \<Rightarrow> 'l encoder \<Rightarrow> buffer \<Rightarrow> type_info \<Rightarrow> 'l jsval list result" where
  "decode_items dec E bytes t =
    bind_result (decodeCollectionLength E bytes 0) (\<lambda>totalItems.
      if totalItems < 0 then Inl RangeError
      else list_loop (decode_element dec (sub_dec (ti_info t))) E bytes (nat totalItems) (int (collectionLengthSize E)))"

definition decodeList :: "'l decode_fun \<Rightarrow> 'l encoder \<Rightarrow> buffer \<Rightarrow> type_info \<Rightarrow> 'l jsval result" where
  "decodeList dec E bytes t = bind_result (decode_items dec E bytes t) (\<lambda>vs. Inr (JArray vs))"

text \<open>A JavaScript set keeps the first of equal values.\<close>

fun set_add :: "'l jsval list \<Rightarrow> 'l jsval \<Rightarrow> 'l jsval list" where
  "set_add vs v = (if list_ex (\<lambda>x. same_key x v) vs then vs else vs @ [v])"

definition decodeSet :: "'l decode_fun \<Rightarrow> 'l encoder \<Rightarrow> buffer \<Rightarrow> type_info \<Rightarrow> 'l jsval result" where
  "decodeSet dec E bytes t =
    bind_result (decode_items dec E bytes t) (\<lambda>vs. Inr (if opt_set E then JSet (foldl set_add [] vs) else JArray vs))"

fun read_values ::
  "(buffer \<Rightarrow> 'l jsval result) \<Rightarrow> (buffer \<Rightarrow> 'l jsval result) \<Rightarrow> ('l jsval \<Rightarrow> 'k result) \<Rightarrow> 'l encoder \<Rightarrow> buffer \<Rightarrow> nat \<Rightarrow> int
    \<Rightarrow> ('k \<times> 'l jsval) list result" where
  "read_values fk fv conv E bytes 0 off = Inr []"
| "read_values fk fv conv E bytes (Suc n) off =
    bind_result (decodeCollectionLength E bytes off) (\<lambda>keyLength.
    let off = off + int (collectionLengthSize E) in
    bind_result (fk (js_slice bytes off (off + keyLength))) (\<lambda>key.
    let off = off + keyLength in
    bind_result (decodeCollectionLength E bytes off) (\<lambda>valueLength.
    let off = off + int (collectionLengthSize E) in
    bind_result (if valueLength < 0 then Inr (JNull, off)
                 else bind_result (fv (js_slice bytes off (off + valueLength))) (\<lambda>v. Inr (v, off + valueLength))) (\<lambda>(v, off).
    bind_result (conv key) (\<lambda>k.
    bind_result (read_values fk fv conv E bytes n off) (\<lambda>ps. Inr ((k, v) # ps)))))))"

definition decodeMap :: "'l decode_fun \<Rightarrow> 'l encoder \<Rightarrow> buffer \<Rightarrow> type_info \<Rightarrow> 'l jsval result" where
  "decodeMap dec E bytes t =
    bind_result (decodeCollectionLength E bytes 0) (\<lambda>totalItems.
    let fk = decode_element dec (dec_item (ti_info t) 0); fv = decode_element dec (dec_item (ti_info t) 1);
        n = nat totalItems; off = int (collectionLengthSize E)
    in if opt_map E
       then bind_result (read_values fk fv Inr E bytes n off) (\<lambda>ps. Inr (JMap (foldl (\<lambda>m (k, v). map_set m k v) [] ps)))
       else bind_result (read_values fk fv (js_text (enc_engine E)) E bytes n off)
              (\<lambda>ps. Inr (JObject (foldl (\<lambda>m (k, v). set_prop m k v) [] ps))))"

section \<open>User-defined types and tuples\<close>

text \<open>The loop over the fields ends with the buffer.\<close>

fun fields_loop :: "(buffer \<Rightarrow> 'l jsval result) list \<Rightarrow> buffer \<Rightarrow> int \<Rightarrow> 'l jsval list result" where
  "fields_loop [] bytes off = Inr []"
| "fields_loop (f # fs) bytes off =
    (if int (length bytes) \<le> off then Inr []
     else bind_result (read_int_at 4 bytes off) (\<lambda>len.
       let off = off + 4 in
       if len < 0 then bind_result (fields_loop fs bytes off) (\<lambda>vs. Inr (JNull # vs))
       else bind_result (f (js_slice bytes off (off + len))) (\<lambda>v.
         bind_result (fields_loop fs bytes (off + len)) (\<lambda>vs. Inr (v # vs)))))"

definition decodeUdt :: "'l decode_fun \<Rightarrow> buffer \<Rightarrow> type_info \<Rightarrow> 'l jsval result" where
  "decodeUdt dec bytes t =
    (case ti_info t of
       UdtInfo ks n fs \<Rightarrow>
         bind_result (fields_loop (map (\<lambda>(name, ft) b. dec b ft) fs) bytes 0)
           (\<lambda>vs. Inr (JObject (foldl (\<lambda>m (k, v). set_prop m k v) [] (zip (map fst fs) vs))))
     | _ \<Rightarrow> Inl TypeError)"

text \<open>
  The array has as many elements as the type, or one where \<open>info\<close> is an object without a \<open>length\<close>; what is not in the buffer is left
  \<open>undefined\<close>.
\<close>

definition decodeTuple :: "'l decode_fun \<Rightarrow> buffer \<Rightarrow> type_info \<Rightarrow> 'l jsval result" where
  "decodeTuple dec bytes t =
    (let items = dec_items (ti_info t);
         count = (case ti_info t of SubType u \<Rightarrow> 1 | UdtInfo ks n fs \<Rightarrow> 1 | _ \<Rightarrow> length items)
     in if ti_info t = NoInfo then Inl TypeError
        else bind_result (fields_loop (map (decode_element dec) items) bytes 0)
          (\<lambda>vs. tuple_fromArray (vs @ replicate (count - length vs) JUndefined)))"

section \<open>Vectors\<close>

text \<open>One turn of the loop: the bytes of the element and the offset after it.\<close>

definition vector_step :: "js_number \<Rightarrow> buffer \<Rightarrow> int option \<Rightarrow> (buffer \<times> int option) result" where
  "vector_step elemLength buf off =
    (if elemLength = JsInt (- 1) then
       (let (sz, bytesRead) = uvintUnpack (case off of Some p \<Rightarrow> js_slice buf p (int (length buf)) | None \<Rightarrow> buf)
        in case (off, sz) of
             (Some p, Some k) \<Rightarrow>
               let p = p + int bytesRead
               in if p + k > int (length buf) then Inl TypeError else Inr (js_slice buf p (p + k), Some (p + k))
           | (Some p, None) \<Rightarrow> Inr (js_slice buf (p + int bytesRead) 0, None)
           | _ \<Rightarrow> Inr ([], None))
     else case (off, elemLength) of
       (Some p, JsInt n) \<Rightarrow> if p + n > int (length buf) then Inl TypeError else Inr (js_slice buf p (p + n), Some (p + n))
     | (Some p, _) \<Rightarrow> Inr (js_slice buf p 0, None)
     | _ \<Rightarrow> Inr ([], None))"

fun vector_loop :: "(buffer \<Rightarrow> 'l jsval result) \<Rightarrow> js_number \<Rightarrow> buffer \<Rightarrow> nat \<Rightarrow> int option \<Rightarrow> ('l jsval list \<times> int option) result" where
  "vector_loop f elemLength buf 0 off = Inr ([], off)"
| "vector_loop f elemLength buf (Suc n) off =
    bind_result (vector_step elemLength buf off) (\<lambda>(b, off).
    bind_result (f b) (\<lambda>v.
    bind_result (vector_loop f elemLength buf n off) (\<lambda>(vs, off). Inr (v # vs, off))))"

definition decodeVector :: "'l decode_fun \<Rightarrow> buffer \<Rightarrow> type_info \<Rightarrow> js_number \<Rightarrow> 'l jsval result" where
  "decodeVector dec buf t dimension =
    bind_result (vector_loop (\<lambda>b. dec b t) (serializationSizeIfFixed t) buf (case dimension of JsInt n \<Rightarrow> nat n | _ \<Rightarrow> 0) (Some 0))
      (\<lambda>(rv, off).
        if off \<noteq> Some (int (length buf)) then Inl TypeError
        else bind_result (getDataTypeNameByCode t) (\<lambda>name. new_vector (JArray rv) (Some name)))"

definition decode_custom_name :: "'l decode_fun \<Rightarrow> 'l encoder \<Rightarrow> buffer \<Rightarrow> string \<Rightarrow> 'l jsval result" where
  "decode_custom_name dec E bytes name =
    (if starts_with (marshal ''VectorType'') name then
       bind_result (parseFqTypeName name 0 0) (\<lambda>t. case ti_info t of VectorInfo u n \<Rightarrow> decodeVector dec bytes u n | _ \<Rightarrow> Inl TypeError)
     else if name = marshal ''DurationType'' then decodeDuration E bytes
     else decodeBlob E bytes)"

definition decodeCustom :: "'l decode_fun \<Rightarrow> 'l encoder \<Rightarrow> buffer \<Rightarrow> type_info \<Rightarrow> 'l jsval result" where
  "decodeCustom dec E bytes t =
    (case ti_info t of
       VectorInfo u n \<Rightarrow> decodeVector dec bytes u n
     | CustomName name \<Rightarrow> decode_custom_name dec E bytes name
     | UdtName name \<Rightarrow> decode_custom_name dec E bytes name
     | _ \<Rightarrow> decodeBlob E bytes)"

text \<open>The table of decoders.\<close>

definition decoders :: "'l decode_fun \<Rightarrow> 'l encoder \<Rightarrow> buffer \<Rightarrow> type_info \<Rightarrow> 'l jsval result" where
  "decoders dec E bytes t =
    (let code = ti_code t in
     if code = dt_custom then decodeCustom dec E bytes t
     else if code = dt_ascii then decodeAsciiString bytes
     else if code = dt_bigint \<or> code = dt_counter then decodeLong E bytes
     else if code = dt_blob then decodeBlob E bytes
     else if code = dt_boolean then decodeBoolean bytes
     else if code = dt_decimal then decodeDecimal bytes
     else if code = dt_double then decodeDouble bytes
     else if code = dt_float then decodeFloat bytes
     else if code = dt_int then decodeInt bytes
     else if code = dt_text \<or> code = dt_varchar then decodeUtf8String bytes
     else if code = dt_timestamp then decodeTimestamp E bytes
     else if code = dt_uuid then decodeUuid E bytes
     else if code = dt_varint then decodeVarint E bytes
     else if code = dt_timeuuid then decodeTimeUuid E bytes
     else if code = dt_inet then decodeInet E bytes
     else if code = dt_date then decodeDate bytes
     else if code = dt_time then decodeTime E bytes
     else if code = dt_smallint then decodeSmallint bytes
     else if code = dt_tinyint then decodeTinyint bytes
     else if code = dt_duration then decodeDuration E bytes
     else if code = dt_list then decodeList dec E bytes t
     else if code = dt_map then decodeMap dec E bytes t
     else if code = dt_set then decodeSet dec E bytes t
     else if code = dt_udt then decodeUdt dec bytes t
     else if code = dt_tuple then decodeTuple dec bytes t
     else Inl PlainError)"

definition zeroLengthTypesSupported :: "int \<Rightarrow> bool" where
  "zeroLengthTypesSupported code \<longleftrightarrow> code \<in> {dt_text, dt_ascii, dt_varchar, dt_custom, dt_blob}"

section \<open>The recursion\<close>

text \<open>
  The types of the elements are parts of the type, or come from the name of a vector class. A parsed name has no further names of vectors
  in it, so that the number of such names decreases.
\<close>

fun named_vectors :: "type_info \<Rightarrow> nat" where
  "named_vectors (TI code info f r) =
    (case info of
       NoInfo \<Rightarrow> 0
     | SubType t \<Rightarrow> named_vectors t
     | SubTypes ts \<Rightarrow> sum_list (map named_vectors ts)
     | UdtInfo ks n fs \<Rightarrow> sum_list (map (\<lambda>(k, t). named_vectors t) fs)
     | UdtName s \<Rightarrow> if starts_with (marshal ''VectorType'') s then 1 else 0
     | CustomName s \<Rightarrow> if starts_with (marshal ''VectorType'') s then 1 else 0
     | VectorInfo t n \<Rightarrow> named_vectors t)"

lemma named_vectors_info [simp]:
  "named_vectors (TI c NoInfo f r) = 0"
  "named_vectors (TI c (SubType t) f r) = named_vectors t"
  "named_vectors (TI c (SubTypes ts) f r) = sum_list (map named_vectors ts)"
  "named_vectors (TI c (UdtInfo ks n fs) f r) = sum_list (map (\<lambda>(k, t). named_vectors t) fs)"
  "named_vectors (TI c (UdtName s) f r) = (if starts_with (marshal ''VectorType'') s then 1 else 0)"
  "named_vectors (TI c (CustomName s) f r) = (if starts_with (marshal ''VectorType'') s then 1 else 0)"
  "named_vectors (TI c (VectorInfo t d) f r) = named_vectors t"
  by simp_all

declare named_vectors.simps [simp del]

text \<open>A name that is left as the name of a custom class does not start with that of a vector: the parser would have seen it.\<close>

lemma named_vectors_list: "list_all (\<lambda>t. named_vectors t = 0) ts \<Longrightarrow> sum_list (map named_vectors ts) = 0"
  by (simp add: list_all_iff)

lemma starts_with_at: "starts_with p (js_substr s i n) \<Longrightarrow> at_index p s i"
proof -
  assume "starts_with p (js_substr s i n)"
  then have h: "take (length p) (take (nat n) (drop i s)) = p" by (simp add: starts_with_def js_substr_def)
  have "length p \<le> nat n" using arg_cong [OF h, of length] by simp
  then show ?thesis using h by (simp add: at_index_def min_def)
qed

lemma map_result_zero:
  assumes "map_result f xs = Inr ts" and "\<And>x t. x \<in> set xs \<Longrightarrow> f x = Inr t \<Longrightarrow> P t"
  shows "list_all P ts"
  using assms unfolding map_result_Inr by (induction xs ts rule: list_all2_induct) auto

lemma map_result_snd:
  assumes "map_result (\<lambda>p. bind_result (f p) (\<lambda>t. Inr (g p, t))) xs = Inr ts" and "\<And>x t. x \<in> set xs \<Longrightarrow> f x = Inr t \<Longrightarrow> P t"
  shows "list_all P (map snd ts)"
  using assms unfolding map_result_Inr by (induction xs ts rule: list_all2_induct) fastforce+

lemma parse_class_no_named:
  assumes IH: "\<And>p j m u. length p < length s \<Longrightarrow> parseFqTypeName p j m = Inr u \<Longrightarrow> named_vectors u = 0"
    and t: "parse_class s i n f r = Inr t"
  shows "named_vectors t = 0"
proof -
  have all: "list_all (\<lambda>u. named_vectors u = 0) ts"
    if "map_result (\<lambda>x. parseFqTypeName x 0 0) (class_params s c i n) = Inr ts" "at_index c s i" "c \<noteq> []" for ts c
    using that(1) by (rule map_result_zero) (use IH class_params_shorter [OF _ that(2,3)] in blast)
  have ne: "marshal x \<noteq> []" for x by (simp add: marshal_def)
  have hd: "named_vectors (hd ts) = 0"
    if "map_result (\<lambda>x. parseFqTypeName x 0 0) (class_params s c i n) = Inr ts" "at_index c s i" "c \<noteq> []" "length (class_params s c i n) = 1" for ts c
  proof -
    have "length ts = 1" using that(1,4) by (auto simp: map_result_Inr dest: list_all2_lengthD)
    then show ?thesis using all [OF that(1-3)] by (cases ts) auto
  qed
  have mem: "list_all (\<lambda>u. named_vectors u = 0) ts \<Longrightarrow> named_vectors (TI c (SubTypes ts) f r) = 0" for ts c f r
    using named_vectors_list by simp
  have udt: "named_vectors (TI dt_udt (ti_info x) f r) = 0" if x: "parseUdtName s k m = Inr x" and "k = Suc (i + length (marshal ''UserType''))"
    "at_index (marshal ''UserType'') s i" for k m x
  proof -
    let ?ps = "parseParams s k m CHR ''('' CHR '')''"
    let ?m = "map_result (\<lambda>p. bind_result (parseFqTypeName p (snd (field_split p)) (int (length p) - int (snd (field_split p))))
        (\<lambda>t. Inr (fst (field_split p), t))) (drop 2 ?ps)"
    have "(if length ?ps < 2 then Inl TypeError
      else bind_result ?m (\<lambda>fs. Inr (TI dt_udt (UdtInfo (Some (?ps ! 0)) (utf8_decode (hex_decode (?ps ! 1))) fs) f r)))
        = Inr (TI dt_udt (ti_info x) f r)"
      using udt_branch [of s k m f r] x by (simp add: Let_def)
    then obtain fs where fs: "?m = Inr fs" and "TI dt_udt (ti_info x) f r = TI dt_udt (UdtInfo (Some (?ps ! 0)) (utf8_decode (hex_decode (?ps ! 1))) fs) f r"
      by (cases ?m) (auto split: if_splits)
    moreover have "length p < length s" if "p \<in> set (drop 2 ?ps)" for p
    proof -
      have "length p \<le> length s - k" using parseParams_length in_set_dropD [OF that] by blast
      then show ?thesis using \<open>k = _\<close> at_index_length [OF \<open>at_index _ _ _\<close> ne] marshal_length [of "''UserType''"] by linarith
    qed
    then have "list_all (\<lambda>u. named_vectors u = 0) (map snd fs)" using fs IH by (intro map_result_snd [OF fs]) blast
    ultimately show ?thesis by (auto simp: list_all_iff)
  qed
  have cust: "\<not> starts_with (marshal ''VectorType'') (js_substr s i n)" if "\<not> at_index (marshal ''VectorType'') s i" using that starts_with_at by blast
  have vec: "named_vectors u = 0" if "vector_args s (marshal ''VectorType'') = Inr (x, d)" "at_index (marshal ''VectorType'') s i" "parseFqTypeName x 0 0 = Inr u" for x d u
    using IH [OF vector_args_shorter [OF that(1,2) ne] that(3)] .
  have "\<not> starts_with (marshal ''VectorType'') ''empty''" by code_simp
  with t show ?thesis unfolding parse_class_def
    by (auto simp: Let_def split: if_splits option.splits sum.splits
      dest: hd [OF _ _ ne] all [OF _ _ ne, THEN named_vectors_list] cust intro: udt [OF _ refl]) (rule vec, assumption+)
qed

lemma parse_no_named: "parseFqTypeName s i n = Inr t \<Longrightarrow> named_vectors t = 0"
proof (induction "length s" arbitrary: s i n t rule: less_induct)
  case less
  have "\<exists>j m f r. parseFqTypeName s i n = parse_class s j m f r"
    unfolding parseFqTypeName_class [of s] Let_def by (auto split: prod.split)
  then obtain j m f r where "parseFqTypeName s i n = parse_class s j m f r" by blast
  then show ?case using parse_class_no_named [of s j m f r t] less by metis
qed

definition element_type :: "type_info \<Rightarrow> type_info \<Rightarrow> bool" where
  "element_type t s \<longleftrightarrow> named_vectors s < named_vectors t \<or> named_vectors s \<le> named_vectors t \<and> size s < size t"

lemma element_types:
  "element_type (TI c (SubType t) f r) t"
  "element_type (TI c (VectorInfo t d) f r) t"
  "t \<in> set ts \<Longrightarrow> element_type (TI c (SubTypes ts) f r) t"
  "(k, t) \<in> set fs \<Longrightarrow> element_type (TI c (UdtInfo ks n fs) f r) t"
proof -
  show "t \<in> set ts \<Longrightarrow> element_type (TI c (SubTypes ts) f r) t"
    using member_le_sum_list [of "named_vectors t" "map named_vectors ts"] size_list_estimation' [of t ts "size t" size]
    by (simp add: element_type_def)
  show "element_type (TI c (UdtInfo ks n fs) f r) t" if "(k, t) \<in> set fs"
  proof -
    have "named_vectors t \<in> set (map (\<lambda>(k, t). named_vectors t) fs)" using that by force
    moreover have "size t \<le> size_list (size_prod (\<lambda>_. 0) size) fs" using size_list_estimation' [OF that, of _ "size_prod (\<lambda>_. 0) size"] by simp
    ultimately show ?thesis using member_le_sum_list [of "named_vectors t" "map (\<lambda>(k, t). named_vectors t) fs"] by (simp add: element_type_def)
  qed
qed (simp_all add: element_type_def)

lemma decode_element_cong:
  assumes "\<And>b s. element_type t s \<Longrightarrow> dec b s = dec' b s" and "\<And>s. a = DecType s \<Longrightarrow> element_type t s"
  shows "decode_element dec a = decode_element dec' a"
  using assms by (cases a) (auto simp: fun_eq_iff)

lemma sub_dec_type: "sub_dec (ti_info t) = DecType s \<Longrightarrow> element_type t s"
  using element_types(1) by (cases t; cases "ti_info t") auto

lemma dec_items_type: "DecType s \<in> set (dec_items (ti_info t)) \<Longrightarrow> element_type t s"
  using element_types(2,3) by (cases t; cases "ti_info t") auto

lemma dec_item_type: "dec_item (ti_info t) i = DecType s \<Longrightarrow> element_type t s"
  using dec_items_type by (auto simp: dec_item_def split: if_splits) (metis nth_mem)

lemma decodeVector_cong: "(\<And>b. dec b u = dec' b u) \<Longrightarrow> decodeVector dec bytes u n = decodeVector dec' bytes u n"
  by (simp add: decodeVector_def)

lemma decodeCustom_cong:
  assumes "\<And>b s. element_type t s \<Longrightarrow> dec b s = dec' b s"
  shows "decodeCustom dec E bytes t = decodeCustom dec' E bytes t"
proof -
  obtain c info f r where t: "t = TI c info f r" by (cases t)
  have n: "decode_custom_name dec E bytes s = decode_custom_name dec' E bytes s" if "info = CustomName s \<or> info = UdtName s" for s
  proof (cases "starts_with (marshal ''VectorType'') s")
    case True
    have "element_type t u" if "parseFqTypeName s 0 0 = Inr w" "ti_info w = VectorInfo u n" for w u n
    proof -
      have "named_vectors u = 0" using parse_no_named [OF that(1)] that(2) by (cases w) simp
      moreover have "named_vectors t = 1" using \<open>info = _ \<or> _\<close> True by (auto simp: t)
      ultimately show ?thesis by (simp add: element_type_def)
    qed
    then have v: "decodeVector dec bytes u n = decodeVector dec' bytes u n" if "parseFqTypeName s 0 0 = Inr w" "ti_info w = VectorInfo u n" for w u n
      using that assms by (intro decodeVector_cong) blast
    show ?thesis using v by (cases "parseFqTypeName s 0 0") (auto simp: decode_custom_name_def split: info.split)
  qed (simp add: decode_custom_name_def)
  have "decodeVector dec bytes u k = decodeVector dec' bytes u k" if "info = VectorInfo u k" for u k
    using that assms element_types(2) by (intro decodeVector_cong) (auto simp: t)
  then show ?thesis using n by (cases info) (simp_all add: decodeCustom_def t)
qed

lemma decoders_cong [fundef_cong]:
  assumes "E = E'" and "bytes = bytes'" and "t = t'" and "\<And>b s. element_type t' s \<Longrightarrow> dec b s = dec' b s"
  shows "decoders dec E bytes t = decoders dec' E' bytes' t'"
proof -
  have d: "decode_element dec a = decode_element dec' a" if "\<And>s. a = DecType s \<Longrightarrow> element_type t' s" for a
    using decode_element_cong [of t' dec dec' a] assms(4) that by blast
  have i: "decode_items dec E' bytes' t' = decode_items dec' E' bytes' t'" using d [of "sub_dec (ti_info t')"] sub_dec_type [of t'] by (simp add: decode_items_def cong: if_cong)
  have m: "decodeMap dec E' bytes' t' = decodeMap dec' E' bytes' t'" using d [of "dec_item (ti_info t') _"] dec_item_type [of t'] by (simp add: decodeMap_def Let_def cong: if_cong)
  have "map (decode_element dec) (dec_items (ti_info t')) = map (decode_element dec') (dec_items (ti_info t'))"
  proof (intro map_cong refl d)
    fix a s assume "a \<in> set (dec_items (ti_info t'))" "a = DecType s"
    then show "element_type t' s" using dec_items_type by blast
  qed
  then have p: "decodeTuple dec bytes' t' = decodeTuple dec' bytes' t'" unfolding decodeTuple_def Let_def by (simp only:)
  have u: "decodeUdt dec bytes' t' = decodeUdt dec' bytes' t'"
  proof (cases "ti_info t'")
    case (UdtInfo ks n fs)
    then obtain c f r where t: "t' = TI c (UdtInfo ks n fs) f r" by (cases t') auto
    have "map (\<lambda>(name, ft) b. dec b ft) fs = map (\<lambda>(name, ft) b. dec' b ft) fs"
      using assms(4) element_types(4) by (intro map_cong) (auto simp: t)
    then show ?thesis unfolding decodeUdt_def t by (simp only: type_info.sel info.case)
  qed (simp_all add: decodeUdt_def)
  have c: "decodeCustom dec E' bytes' t' = decodeCustom dec' E' bytes' t'" using assms(4) by (rule decodeCustom_cong)
  show ?thesis unfolding assms(1-3) decoders_def Let_def by (simp add: i m p u c decodeList_def decodeSet_def)
qed

text \<open>\<open>None\<close> is the buffer \<open>null\<close>.\<close>

function decode_bytes :: "'l encoder \<Rightarrow> buffer \<Rightarrow> type_info \<Rightarrow> 'l jsval result" where
  "decode_bytes E bytes t =
    (if bytes = [] \<and> \<not> zeroLengthTypesSupported (ti_code t) then Inr JNull
     else decoders (\<lambda>b s. decode_bytes E b s) E bytes t)"
  by pat_completeness auto
termination
  by (relation "measures [\<lambda>(E, b, t). named_vectors t, \<lambda>(E, b, t). size t]") (auto simp: element_type_def)

declare decode_bytes.simps [simp del]

definition decode :: "'l encoder \<Rightarrow> buffer option \<Rightarrow> type_info \<Rightarrow> 'l jsval result" where
  "decode E buf t = (case buf of None \<Rightarrow> Inr JNull | Some b \<Rightarrow> decode_bytes E b t)"

end
