(* ===== verification/Mapping_Query.thy ===== *)
theory Mapping_Query
  imports Cql_Types
begin

text \<open>
  The statements the object mapper generates: the query operators (\<^verbatim>\<open>src/lib/mapping/q.js\<close>) and the query
  generator (\<^verbatim>\<open>src/lib/mapping/query-generator.js\<close>).

  For each statement the generator builds a query text with placeholders and a script that reads the parameters
  from a document. The script is an array literal of getter expressions; a getter is an element of a datatype
  here, with its text (\<open>getter_text\<close>) and its value (\<open>eval_getter\<close>), and an element that is missing between
  two commas is the hole of a JavaScript array literal. The theorems show that text and script go through the
  same list of bindings, in the same order.
\<close>

section \<open>Operators and assignments\<close>

text \<open>
  The values of a document. \<open>'v\<close> are the plain values of the user, which have no property named \<open>value\<close>. A
  \<open>QueryOperator\<close> has its key, its value and \<open>isInOperator\<close>; one with \<open>hasChildValues\<close> is a \<open>QueryOperatorPair\<close>
  with the two elements of its value. A \<open>QueryAssignment\<close> has its sign, its value and \<open>inverted\<close>.
\<close>

datatype 'v qval =
    QUndefined
  | QNull
  | QPlain 'v
  | QArray "'v qval list"
  | QueryOperator string "'v qval" bool
  | QueryOperatorPair string "'v qval" "'v qval"
  | QueryAssignment string "'v qval" bool

definition in_op :: "'v qval \<Rightarrow> 'v qval result" where
  "in_op arr = (case arr of QArray xs \<Rightarrow> Inr (QueryOperator ''IN'' arr True) | _ \<Rightarrow> Inl ArgumentError)"

definition gt :: "'v qval \<Rightarrow> 'v qval" where "gt v = QueryOperator ''>'' v False"
definition gte :: "'v qval \<Rightarrow> 'v qval" where "gte v = QueryOperator ''>='' v False"
definition lt :: "'v qval \<Rightarrow> 'v qval" where "lt v = QueryOperator ''<'' v False"
definition lte :: "'v qval \<Rightarrow> 'v qval" where "lte v = QueryOperator ''<='' v False"
definition notEq :: "'v qval \<Rightarrow> 'v qval" where "notEq v = QueryOperator ''!='' v False"
definition and_op :: "'v qval \<Rightarrow> 'v qval \<Rightarrow> 'v qval" where "and_op c1 c2 = QueryOperatorPair ''AND'' c1 c2"
definition incr :: "'v qval \<Rightarrow> 'v qval" where "incr v = QueryAssignment ''+'' v False"
definition decr :: "'v qval \<Rightarrow> 'v qval" where "decr v = QueryAssignment ''-'' v False"
definition append_op :: "'v qval \<Rightarrow> 'v qval" where "append_op v = QueryAssignment ''+'' v False"
definition prepend :: "'v qval \<Rightarrow> 'v qval" where "prepend v = QueryAssignment ''+'' v True"
definition remove_op :: "'v qval \<Rightarrow> 'v qval" where "remove_op v = QueryAssignment ''-'' v False"

section \<open>Documents and tables\<close>

type_synonym 'v doc = "(string \<times> 'v qval) list"

definition doc_get :: "'v doc \<Rightarrow> string \<Rightarrow> 'v qval" where
  "doc_get d p = (case map_of d p of None \<Rightarrow> QUndefined | Some v \<Rightarrow> v)"

text \<open>
  A flag of the user's \<open>docInfo\<close>: the code reads some of them with \<open>=== true\<close> and some for their truth value.
\<close>

datatype flag = Falsy | TrueFlag | Truthy

text \<open>
  \<open>docInfo\<close>: \<open>None\<close> for a field that is not given; \<open>limit\<close> and \<open>ttl\<close> are present only when they are numbers.
\<close>

record 'v doc_info =
  di_fields :: "string list option"
  di_limit :: "'v option"
  di_orderBy :: "(string \<times> string) list option"
  di_ttl :: "'v option"
  di_ifNotExists :: flag
  di_ifExists :: flag
  di_when :: "'v doc option"
  di_deleteOnlyColumns :: flag

definition no_doc_info :: "'v doc_info" where
  "no_doc_info = \<lparr>di_fields = None, di_limit = None, di_orderBy = None, di_ttl = None, di_ifNotExists = Falsy,
     di_ifExists = Falsy, di_when = None, di_deleteOnlyColumns = Falsy\<rparr>"

text \<open>A property of a document with its column, its value and whether the model has a function for it.\<close>

type_synonym 'v model_fn = "'v qval \<Rightarrow> 'v qval result"

record 'v prop_info =
  propertyName :: string
  columnName :: string
  pvalue :: "'v qval"
  fromModel :: "'v model_fn option"

record column =
  col_name :: string
  col_code :: int
  isStatic :: bool

record table_meta =
  tname :: string
  partitionKeys :: "column list"
  clusteringKeys :: "column list"
  tcolumns :: "column list"

definition columnsByName :: "table_meta \<Rightarrow> string \<Rightarrow> column option" where
  "columnsByName t n = List.find (\<lambda>c. col_name c = n) (tcolumns t)"

definition primaryKeys :: "table_meta \<Rightarrow> string list" where
  "primaryKeys t = map col_name (partitionKeys t @ clusteringKeys t)"

section \<open>Texts\<close>

text \<open>\<open>join\<close> with a separator of any length.\<close>

fun join_str :: "string \<Rightarrow> string list \<Rightarrow> string" where
  "join_str sep [] = []"
| "join_str sep [w] = w"
| "join_str sep (w # v # vs) = w @ sep @ join_str sep (v # vs)"

definition quoted :: "string \<Rightarrow> string" where
  "quoted c = CHR 0x22 # c @ [CHR 0x22]"

section \<open>Getters\<close>

datatype getter =
    GDoc string
  | GWhen string
  | GValue getter
  | GItem getter nat
  | GCall string getter
  | GMapCall string getter
  | GLimit
  | GTtl

fun getter_text :: "getter \<Rightarrow> string" where
  "getter_text (GDoc p) = ''doc['' @ [CHR 0x27] @ p @ [CHR 0x27] @ '']''"
| "getter_text (GWhen p) = ''docInfo.when['' @ [CHR 0x27] @ p @ [CHR 0x27] @ '']''"
| "getter_text (GValue g) = getter_text g @ ''.value''"
| "getter_text (GItem g n) = getter_text g @ ''['' @ show_nat n @ '']''"
| "getter_text (GCall p g) = ''mappingInfo.getFromModelFn('' @ [CHR 0x27] @ p @ [CHR 0x27] @ '')('' @ getter_text g @ '')''"
| "getter_text (GMapCall p g) =
     getter_text g @ ''.map(v => '' @ ''mappingInfo.getFromModelFn('' @ [CHR 0x27] @ p @ [CHR 0x27] @ '')(v))''"
| "getter_text GLimit = ''docInfo['' @ [CHR 0x27] @ ''limit'' @ [CHR 0x27] @ '']''"
| "getter_text GTtl = ''docInfo['' @ [CHR 0x27] @ ''ttl'' @ [CHR 0x27] @ '']''"

text \<open>
  The array literal made of pieces joined by commas: an empty piece before a comma is a hole, an empty last
  piece is a trailing comma and adds nothing.
\<close>

fun array_literal :: "getter list list \<Rightarrow> getter option list" where
  "array_literal [] = []"
| "array_literal [gs] = map Some gs"
| "array_literal (gs # hs # ps) = (if gs = [] then [None] else map Some gs) @ array_literal (hs # ps)"

definition script_text :: "string \<Rightarrow> getter list list \<Rightarrow> string" where
  "script_text name ps = ''(function '' @ name @ ''(doc, docInfo, mappingInfo) {'' @ [CHR 0x0A] @ ''  return ['' @
     join_str '', '' (map (\<lambda>gs. join_str '', '' (map getter_text gs)) ps) @ ''];'' @ [CHR 0x0A] @ ''})''"

text \<open>A params getter: the name of its function and the pieces of the array literal it returns.\<close>

type_synonym params_getter = "string \<times> getter list list"

text \<open>Running a script: \<open>fns\<close> is \<open>mappingInfo.getFromModelFn\<close>.\<close>

fun read_value :: "'v qval \<Rightarrow> 'v qval result" where
  "read_value QUndefined = Inl TypeError"
| "read_value QNull = Inl TypeError"
| "read_value (QPlain v) = Inr QUndefined"
| "read_value (QArray xs) = Inr QUndefined"
| "read_value (QueryOperator k v i) = Inr v"
| "read_value (QueryOperatorPair k a b) = Inr (QArray [a, b])"
| "read_value (QueryAssignment s v i) = Inr v"

fun read_item :: "nat \<Rightarrow> 'v qval \<Rightarrow> 'v qval result" where
  "read_item n QUndefined = Inl TypeError"
| "read_item n QNull = Inl TypeError"
| "read_item n (QArray xs) = Inr (if n < length xs then xs ! n else QUndefined)"
| "read_item n v = Inr QUndefined"

definition call_fn :: "'v model_fn option \<Rightarrow> 'v qval \<Rightarrow> 'v qval result" where
  "call_fn f v = (case f of None \<Rightarrow> Inl TypeError | Some g \<Rightarrow> g v)"

fun eval_getter :: "(string \<Rightarrow> 'v model_fn option) \<Rightarrow> 'v doc \<Rightarrow> 'v doc_info option \<Rightarrow> getter \<Rightarrow> 'v qval result" where
  "eval_getter fns doc di (GDoc p) = Inr (doc_get doc p)"
| "eval_getter fns doc di (GWhen p) =
     (case di of None \<Rightarrow> Inl TypeError
      | Some d \<Rightarrow> (case di_when d of None \<Rightarrow> Inl TypeError | Some w \<Rightarrow> Inr (doc_get w p)))"
| "eval_getter fns doc di (GValue g) = bind_result (eval_getter fns doc di g) read_value"
| "eval_getter fns doc di (GItem g n) = bind_result (eval_getter fns doc di g) (read_item n)"
| "eval_getter fns doc di (GCall p g) = bind_result (eval_getter fns doc di g) (call_fn (fns p))"
| "eval_getter fns doc di (GMapCall p g) =
     bind_result (eval_getter fns doc di g)
       (\<lambda>v. case v of QArray xs \<Rightarrow> bind_result (map_result (call_fn (fns p)) xs) (\<lambda>ys. Inr (QArray ys)) | _ \<Rightarrow> Inl TypeError)"
| "eval_getter fns doc di GLimit =
     (case di of None \<Rightarrow> Inl TypeError | Some d \<Rightarrow> Inr (case di_limit d of None \<Rightarrow> QUndefined | Some v \<Rightarrow> QPlain v))"
| "eval_getter fns doc di GTtl =
     (case di of None \<Rightarrow> Inl TypeError | Some d \<Rightarrow> Inr (case di_ttl d of None \<Rightarrow> QUndefined | Some v \<Rightarrow> QPlain v))"

definition run_script :: "(string \<Rightarrow> 'v model_fn option) \<Rightarrow> 'v doc \<Rightarrow> 'v doc_info option \<Rightarrow> params_getter \<Rightarrow> 'v qval list result" where
  "run_script fns doc di s =
     map_result (\<lambda>x. case x of None \<Rightarrow> Inr QUndefined | Some g \<Rightarrow> eval_getter fns doc di g) (array_literal (snd s))"

subsection \<open>The expressions of the generator\<close>

definition getMappingFunctionCall :: "string \<Rightarrow> getter \<Rightarrow> getter" where
  "getMappingFunctionCall propName g = GCall propName g"

fun valueGetterSingle :: "getter \<Rightarrow> string \<Rightarrow> 'v qval \<Rightarrow> bool \<Rightarrow> getter list" where
  "valueGetterSingle prefix p (QueryOperatorPair k a b) fromModelFn =
     valueGetterSingle (GItem (GValue prefix) 0) p a fromModelFn @ valueGetterSingle (GItem (GValue prefix) 1) p b fromModelFn"
| "valueGetterSingle prefix p (QueryOperator k v isIn) fromModelFn =
     (if isIn \<and> fromModelFn then [GMapCall p (GValue prefix)]
      else if \<not> fromModelFn then [GValue prefix] else [getMappingFunctionCall p (GValue prefix)])"
| "valueGetterSingle prefix p v fromModelFn = (if \<not> fromModelFn then [prefix] else [getMappingFunctionCall p prefix])"

definition valueGetterExpression :: "'v prop_info list \<Rightarrow> (string \<Rightarrow> getter) \<Rightarrow> getter list" where
  "valueGetterExpression ps obj =
     concat (map (\<lambda>p. valueGetterSingle (obj (propertyName p)) (propertyName p) (pvalue p) (fromModel p \<noteq> None)) ps)"

fun is_assignment :: "'v qval \<Rightarrow> bool" where
  "is_assignment (QueryAssignment s v i) = True"
| "is_assignment v = False"

definition assignmentGetterExpression :: "'v prop_info list \<Rightarrow> getter list" where
  "assignmentGetterExpression ps =
     map (\<lambda>p. let g = (if is_assignment (pvalue p) then GValue (GDoc (propertyName p)) else GDoc (propertyName p))
              in if fromModel p \<noteq> None then getMappingFunctionCall (propertyName p) g else g) ps"

fun getSingleCondition :: "string \<Rightarrow> 'v qval \<Rightarrow> string" where
  "getSingleCondition c (QueryOperatorPair k a b) = getSingleCondition c a @ '' '' @ k @ '' '' @ getSingleCondition c b"
| "getSingleCondition c (QueryOperator k v i) = quoted c @ '' '' @ k @ '' ?''"
| "getSingleCondition c v = quoted c @ '' = ?''"

definition getConditionWithOperators :: "'v prop_info list \<Rightarrow> string" where
  "getConditionWithOperators ps = join_str '' AND '' (map (\<lambda>p. getSingleCondition (columnName p) (pvalue p)) ps)"

section \<open>Statements\<close>

definition getSelect :: "string \<Rightarrow> string \<Rightarrow> 'v prop_info list \<Rightarrow> 'v prop_info list \<Rightarrow> (string \<times> string) list \<Rightarrow> 'v option \<Rightarrow> string" where
  "getSelect tableName keyspace ps fs orderBy limit =
     ''SELECT '' @ (if fs \<noteq> [] then join_str '', '' (map (\<lambda>p. quoted (columnName p)) fs) else ''*'') @
     '' FROM '' @ keyspace @ ''.'' @ tableName @
     (if ps \<noteq> [] then '' WHERE '' @ getConditionWithOperators ps else []) @
     (if orderBy \<noteq> [] then '' ORDER BY '' @ join_str '', '' (map (\<lambda>(c, d). quoted c @ '' '' @ d) orderBy) else []) @
     (if limit \<noteq> None then '' LIMIT ?'' else [])"

text \<open>The limit is preceded by a comma only when there are properties.\<close>

definition selectParamsGetter :: "'v prop_info list \<Rightarrow> 'v option \<Rightarrow> params_getter" where
  "selectParamsGetter ps limit =
     (''getParametersSelect'',
      if limit = None then [valueGetterExpression ps GDoc]
      else if ps \<noteq> [] then [valueGetterExpression ps GDoc, [GLimit]] else [[GLimit]])"

text \<open>What \<open>getInsert\<close>, \<open>getUpdate\<close> and \<open>getDelete\<close> return; \<open>isCounter\<close> is \<open>None\<close> where there is no such field.\<close>

record query_info =
  query :: string
  paramsGetter :: params_getter
  isIdempotent :: bool
  isCounter :: "bool option"

definition getInsertQuery :: "string \<Rightarrow> string \<Rightarrow> 'v prop_info list \<Rightarrow> flag \<Rightarrow> 'v option \<Rightarrow> string" where
  "getInsertQuery tableName keyspace ps ifNotExists ttl =
     ''INSERT INTO '' @ keyspace @ ''.'' @ tableName @ '' ('' @ join_str '', '' (map (\<lambda>p. quoted (columnName p)) ps) @
     '') VALUES ('' @ join_str '', '' (map (\<lambda>_. ''?'') ps) @ '')'' @
     (if ifNotExists = TrueFlag then '' IF NOT EXISTS'' else []) @
     (if ttl \<noteq> None then '' USING TTL ?'' else [])"

definition insertParamsGetter :: "'v prop_info list \<Rightarrow> 'v option \<Rightarrow> params_getter" where
  "insertParamsGetter ps ttl =
     (''getParametersInsert'',
      if ttl \<noteq> None then [valueGetterExpression ps GDoc, [GTtl]] else [valueGetterExpression ps GDoc])"

definition in_table :: "table_meta \<Rightarrow> 'v prop_info \<Rightarrow> bool" where
  "in_table t p \<longleftrightarrow> columnsByName t (columnName p) \<noteq> None"

definition getInsert :: "table_meta \<Rightarrow> string \<Rightarrow> 'v prop_info list \<Rightarrow> 'v doc_info option \<Rightarrow> flag \<Rightarrow> query_info" where
  "getInsert t keyspace ps di ifNotExists =
     (let ttl = Option.bind di di_ttl; qs = filter (in_table t) ps
      in \<lparr>query = getInsertQuery (tname t) keyspace qs ifNotExists ttl, paramsGetter = insertParamsGetter qs ttl,
          isIdempotent = (ifNotExists = Falsy), isCounter = None\<rparr>)"

definition is_key :: "string list \<Rightarrow> 'v prop_info \<Rightarrow> bool" where
  "is_key pks p \<longleftrightarrow> columnName p \<in> set pks"

definition setClause :: "'v prop_info \<Rightarrow> string" where
  "setClause p = (case pvalue p of
       QueryAssignment sign v inverted \<Rightarrow>
         (if inverted then quoted (columnName p) @ '' = ? '' @ sign @ '' '' @ quoted (columnName p)
          else quoted (columnName p) @ '' = '' @ quoted (columnName p) @ '' '' @ sign @ '' ?'')
     | _ \<Rightarrow> quoted (columnName p) @ '' = ?'')"

definition keyClause :: "string list \<Rightarrow> 'v prop_info list \<Rightarrow> string" where
  "keyClause pks ps = join_str '' AND '' (map (\<lambda>p. quoted (columnName p) @ '' = ?'') (filter (is_key pks) ps))"

definition ifClause :: "'v prop_info list \<Rightarrow> flag \<Rightarrow> string" where
  "ifClause whn ifExists =
     (if ifExists = TrueFlag then '' IF EXISTS'' else if whn \<noteq> [] then '' IF '' @ getConditionWithOperators whn else [])"

definition getUpdateQuery :: "string \<Rightarrow> string \<Rightarrow> string list \<Rightarrow> 'v prop_info list \<Rightarrow> 'v prop_info list \<Rightarrow> flag \<Rightarrow> 'v option \<Rightarrow> string" where
  "getUpdateQuery tableName keyspace pks ps whn ifExists ttl =
     ''UPDATE '' @ keyspace @ ''.'' @ tableName @ '' '' @ (if ttl \<noteq> None then ''USING TTL ? '' else []) @ ''SET '' @
     join_str '', '' (map setClause (filter (\<lambda>p. \<not> is_key pks p) ps)) @ '' WHERE '' @ keyClause pks ps @ ifClause whn ifExists"

definition updateParamsGetter :: "string list \<Rightarrow> 'v prop_info list \<Rightarrow> 'v prop_info list \<Rightarrow> 'v option \<Rightarrow> params_getter" where
  "updateParamsGetter pks ps whn ttl =
     (''getParametersUpdate'',
      (if ttl \<noteq> None then [[GTtl]] else []) @
      [assignmentGetterExpression (filter (\<lambda>p. \<not> is_key pks p) ps), valueGetterExpression (filter (is_key pks) ps) GDoc] @
      (if whn \<noteq> [] then [valueGetterExpression whn GWhen] else []))"

text \<open>The idempotency of an update: appending to a list and counters are not idempotent.\<close>

definition list_assignment :: "table_meta \<Rightarrow> 'v prop_info \<Rightarrow> bool" where
  "list_assignment t p = (case columnsByName t (columnName p) of
     None \<Rightarrow> False | Some c \<Rightarrow> col_code c = dt_list \<and> is_assignment (pvalue p))"

definition counter_column :: "table_meta \<Rightarrow> 'v prop_info \<Rightarrow> bool" where
  "counter_column t p = (case columnsByName t (columnName p) of
     None \<Rightarrow> False | Some c \<Rightarrow> \<not> (col_code c = dt_list \<and> is_assignment (pvalue p)) \<and> col_code c = dt_counter)"

definition getUpdate :: "table_meta \<Rightarrow> string \<Rightarrow> 'v prop_info list \<Rightarrow> 'v doc_info option \<Rightarrow> 'v prop_info list \<Rightarrow> flag \<Rightarrow> query_info" where
  "getUpdate t keyspace ps di whn ifExists =
     (let ttl = Option.bind di di_ttl; pks = primaryKeys t; qs = filter (in_table t) ps;
          idem = \<not> (\<exists>p \<in> set ps. list_assignment t p \<or> counter_column t p)
      in \<lparr>query = getUpdateQuery (tname t) keyspace pks qs whn ifExists ttl, paramsGetter = updateParamsGetter pks qs whn ttl,
          isIdempotent = (idem \<and> whn = [] \<and> ifExists = Falsy), isCounter = Some (\<exists>p \<in> set ps. counter_column t p)\<rparr>)"

definition getDeleteQuery :: "string \<Rightarrow> string \<Rightarrow> string list \<Rightarrow> 'v prop_info list \<Rightarrow> 'v prop_info list \<Rightarrow> flag \<Rightarrow> flag \<Rightarrow> string" where
  "getDeleteQuery tableName keyspace pks ps whn ifExists deleteOnlyColumns =
     ''DELETE'' @
     (if deleteOnlyColumns \<noteq> Falsy then
        (let cols = join_str '', '' (map (\<lambda>p. quoted (columnName p)) (filter (\<lambda>p. \<not> is_key pks p) ps))
         in if cols \<noteq> [] then '' '' @ cols else [])
      else []) @
     '' FROM '' @ keyspace @ ''.'' @ tableName @ '' WHERE '' @ keyClause pks ps @ ifClause whn ifExists"

definition deleteParamsGetter :: "string list \<Rightarrow> 'v prop_info list \<Rightarrow> 'v prop_info list \<Rightarrow> params_getter" where
  "deleteParamsGetter pks ps whn =
     (''getParametersDelete'',
      [valueGetterExpression (filter (is_key pks) ps) GDoc] @ (if whn \<noteq> [] then [valueGetterExpression whn GWhen] else []))"

definition getDelete :: "table_meta \<Rightarrow> string \<Rightarrow> 'v prop_info list \<Rightarrow> 'v doc_info option \<Rightarrow> 'v prop_info list \<Rightarrow> flag \<Rightarrow> query_info" where
  "getDelete t keyspace ps di whn ifExists =
     (let pks = primaryKeys t; qs = filter (in_table t) ps;
          only = (case di of None \<Rightarrow> Falsy | Some d \<Rightarrow> di_deleteOnlyColumns d)
      in \<lparr>query = getDeleteQuery (tname t) keyspace pks qs whn ifExists only, paramsGetter = deleteParamsGetter pks qs whn,
          isIdempotent = (whn = [] \<and> ifExists = Falsy), isCounter = None\<rparr>)"

section \<open>Text and parameters agree\<close>

text \<open>
  The reference: the bindings of a statement, each the text of one placeholder with its column and operator, and
  the value bound to it, after the model's function where there is one.
\<close>

fun leaves :: "'v qval \<Rightarrow> (string \<times> 'v qval \<times> bool) list" where
  "leaves (QueryOperatorPair k a b) = leaves a @ leaves b"
| "leaves (QueryOperator k v i) = [(k, v, i)]"
| "leaves v = [(''='', v, False)]"

definition convert :: "'v model_fn option \<Rightarrow> 'v qval \<Rightarrow> bool \<Rightarrow> 'v qval result" where
  "convert f v each = (case f of None \<Rightarrow> Inr v
     | Some g \<Rightarrow> if each then (case v of QArray xs \<Rightarrow> bind_result (map_result g xs) (\<lambda>ys. Inr (QArray ys)) | _ \<Rightarrow> Inl TypeError) else g v)"

type_synonym 'v binding = "string \<times> 'v qval result"

definition condition_bindings :: "'v prop_info list \<Rightarrow> 'v binding list" where
  "condition_bindings ps =
     concat (map (\<lambda>p. map (\<lambda>(k, v, i). (quoted (columnName p) @ '' '' @ k @ '' ?'', convert (fromModel p) v i)) (leaves (pvalue p))) ps)"

fun assigned :: "'v qval \<Rightarrow> 'v qval" where
  "assigned (QueryAssignment s v i) = v"
| "assigned v = v"

definition set_bindings :: "'v prop_info list \<Rightarrow> 'v binding list" where
  "set_bindings ps = map (\<lambda>p. (setClause p, convert (fromModel p) (assigned (pvalue p)) False)) ps"

definition key_bindings :: "'v prop_info list \<Rightarrow> 'v binding list" where
  "key_bindings ps = map (\<lambda>p. (quoted (columnName p) @ '' = ?'', convert (fromModel p) (pvalue p) False)) ps"

definition number_bindings :: "string \<Rightarrow> 'v option \<Rightarrow> 'v binding list" where
  "number_bindings s n = (case n of None \<Rightarrow> [] | Some v \<Rightarrow> [(s, Inr (QPlain v))])"

definition bound_values :: "'v binding list \<Rightarrow> 'v qval list result" where
  "bound_values bs = map_result snd bs"

text \<open>Conditions as \<open>q\<close> makes them, and values without an operator.\<close>

fun q_made :: "'v qval \<Rightarrow> bool" where
  "q_made (QueryOperatorPair k a b) \<longleftrightarrow> k = ''AND'' \<and> q_made a \<and> q_made b"
| "q_made v \<longleftrightarrow> True"

fun no_operator :: "'v qval \<Rightarrow> bool" where
  "no_operator (QueryOperatorPair k a b) = False"
| "no_operator (QueryOperator k v i) = False"
| "no_operator v = True"

text \<open>The property infos were made from the document that is read, with the functions of the same model.\<close>

definition made_from :: "(string \<Rightarrow> 'v model_fn option) \<Rightarrow> 'v doc \<Rightarrow> 'v prop_info list \<Rightarrow> bool" where
  "made_from fns doc ps \<longleftrightarrow> (\<forall>p \<in> set ps. doc_get doc (propertyName p) = pvalue p \<and> fns (propertyName p) = fromModel p)"

lemma made_from_filter [simp]: "made_from fns doc ps \<Longrightarrow> made_from fns doc (filter P ps)"
  by (simp add: made_from_def)

lemma map_result_append:
  "map_result f (xs @ ys) = bind_result (map_result f xs) (\<lambda>a. bind_result (map_result f ys) (\<lambda>b. Inr (a @ b)))"
proof (induction xs)
  case Nil
  show ?case by (cases "map_result f ys") simp_all
next
  case (Cons x xs)
  then show ?case by (cases "f x"; cases "map_result f xs"; cases "map_result f ys") simp_all
qed

lemma map_result_map: "map_result f (map g xs) = map_result (\<lambda>x. f (g x)) xs"
  by (induction xs) auto

lemma map_result_concat:
  "(\<And>x. x \<in> set xs \<Longrightarrow> map_result f (g x) = map_result f' (g' x)) \<Longrightarrow>
   map_result f (concat (map g xs)) = map_result f' (concat (map g' xs))"
  by (induction xs) (auto simp: map_result_append)

lemma join_str_append:
  "join_str sep (xs @ ys) = (if xs = [] then join_str sep ys else if ys = [] then join_str sep xs
     else join_str sep xs @ sep @ join_str sep ys)"
proof (induction sep xs rule: join_str.induct)
  case (2 sep w)
  then show ?case by (cases ys) auto
qed auto

lemma join_str_concat:
  "(\<And>x. x \<in> set xs \<Longrightarrow> g x \<noteq> [] \<and> f x = join_str sep (g x)) \<Longrightarrow> join_str sep (map f xs) = join_str sep (concat (map g xs))"
proof (induction xs)
  case (Cons x xs)
  have "join_str sep (map f (x # xs)) = join_str sep ([f x] @ map f xs)" by simp
  also have "\<dots> = (if xs = [] then f x else f x @ sep @ join_str sep (map f xs))" by (simp only: join_str_append) simp
  also have "\<dots> = join_str sep (g x @ concat (map g xs))"
    using Cons by (cases xs) (auto simp: join_str_append)
  finally show ?case by simp
qed simp

lemma leaves_not_Nil [simp]: "leaves v \<noteq> []"
  by (induction v rule: leaves.induct) auto

lemma single_condition_text:
  "q_made v \<Longrightarrow> getSingleCondition c v = join_str '' AND '' (map (\<lambda>(k, _). quoted c @ '' '' @ k @ '' ?'') (leaves v))"
  by (induction v rule: leaves.induct) (auto simp: join_str_append)

lemma conditions_text:
  assumes "\<forall>p \<in> set ps. q_made (pvalue p)"
  shows "getConditionWithOperators ps = join_str '' AND '' (map fst (condition_bindings ps))"
proof -
  have "map fst (condition_bindings ps) =
      concat (map (\<lambda>p. map (\<lambda>(k, _). quoted (columnName p) @ '' '' @ k @ '' ?'') (leaves (pvalue p))) ps)"
    by (simp add: condition_bindings_def map_concat case_prod_unfold comp_def)
  then show ?thesis unfolding getConditionWithOperators_def
    using assms by (simp only:) (rule join_str_concat, auto simp: single_condition_text)
qed

text \<open>The getters of a condition read the operands of its operators.\<close>

lemma value_getters_single:
  "eval_getter fns doc di pre = Inr v \<Longrightarrow> fns p = f \<Longrightarrow>
   map_result (eval_getter fns doc di) (valueGetterSingle pre p v (f \<noteq> None)) =
   map_result (\<lambda>(k, v, i). convert f v i) (leaves v)"
proof (induction pre p v "f \<noteq> None" rule: valueGetterSingle.induct)
  case (1 prefix p k a b)
  then show ?case by (simp add: map_result_append)
next
  case (2 prefix p k v i)
  then show ?case by (cases v; cases f) (auto simp: getMappingFunctionCall_def convert_def call_fn_def[abs_def])
qed (auto simp: getMappingFunctionCall_def convert_def call_fn_def split: option.splits)

lemma value_getters:
  assumes "made_from fns d ps" "\<And>p. p \<in> set ps \<Longrightarrow> eval_getter fns doc di (obj (propertyName p)) = Inr (doc_get d (propertyName p))"
  shows "map_result (eval_getter fns doc di) (valueGetterExpression ps obj) = bound_values (condition_bindings ps)"
  unfolding valueGetterExpression_def bound_values_def condition_bindings_def
proof (rule map_result_concat)
  fix p assume p: "p \<in> set ps"
  then have "eval_getter fns doc di (obj (propertyName p)) = Inr (pvalue p)" "fns (propertyName p) = fromModel p"
    using assms by (simp_all add: made_from_def)
  from value_getters_single[OF this]
  show "map_result (eval_getter fns doc di) (valueGetterSingle (obj (propertyName p)) (propertyName p) (pvalue p) (fromModel p \<noteq> None)) =
        map_result snd (map (\<lambda>(k, v, i). (quoted (columnName p) @ '' '' @ k @ '' ?'', convert (fromModel p) v i)) (leaves (pvalue p)))"
    by (simp add: map_result_map case_prod_unfold)
qed

lemma plain_conditions: "\<forall>p \<in> set ps. no_operator (pvalue p) \<Longrightarrow> condition_bindings ps = key_bindings ps"
proof -
  have one: "no_operator v \<Longrightarrow> leaves v = [(''='', v, False)]" for v :: "'a qval" by (cases v) auto
  show "\<forall>p \<in> set ps. no_operator (pvalue p) \<Longrightarrow> condition_bindings ps = key_bindings ps"
    by (induction ps) (auto simp: condition_bindings_def key_bindings_def one)
qed

lemma assignment_getters:
  "made_from fns doc ps \<Longrightarrow> map_result (eval_getter fns doc di) (assignmentGetterExpression ps) = bound_values (set_bindings ps)"
proof (induction ps)
  case (Cons p ps)
  have "eval_getter fns doc di (if is_assignment (pvalue p) then GValue (GDoc (propertyName p)) else GDoc (propertyName p)) = Inr (assigned (pvalue p))"
    using Cons.prems by (cases "pvalue p") (auto simp: made_from_def)
  then have "eval_getter fns doc di (let g = (if is_assignment (pvalue p) then GValue (GDoc (propertyName p)) else GDoc (propertyName p))
       in if fromModel p \<noteq> None then getMappingFunctionCall (propertyName p) g else g) = convert (fromModel p) (assigned (pvalue p)) False"
    using Cons.prems by (auto simp: Let_def getMappingFunctionCall_def convert_def call_fn_def made_from_def split: option.splits)
  with Cons show ?case by (simp add: assignmentGetterExpression_def bound_values_def set_bindings_def made_from_def)
qed (simp add: assignmentGetterExpression_def bound_values_def set_bindings_def)


lemma array_literal_full: "\<forall>gs \<in> set (butlast ps). gs \<noteq> [] \<Longrightarrow> array_literal ps = map Some (concat ps)"
  by (induction ps rule: array_literal.induct) (auto split: if_splits)

text \<open>Running a script whose pieces before the last are not empty.\<close>

lemma run_script_pieces:
  assumes "\<forall>gs \<in> set (butlast ps). gs \<noteq> []"
  shows "run_script fns doc di (nm, ps) = map_result (eval_getter fns doc di) (concat ps)"
  by (simp add: run_script_def array_literal_full[OF assms] map_result_map)

lemma value_getter_not_Nil [simp]: "valueGetterSingle g p v f \<noteq> []"
  by (induction g p v f rule: valueGetterSingle.induct) auto

lemma getters_not_Nil [simp]:
  "valueGetterExpression ps obj = [] \<longleftrightarrow> ps = []"
  "assignmentGetterExpression ps = [] \<longleftrightarrow> ps = []"
  by (auto simp: valueGetterExpression_def assignmentGetterExpression_def concat_eq_Nil_conv)

lemma bound_values_append:
  "bound_values (xs @ ys) = bind_result (bound_values xs) (\<lambda>a. bind_result (bound_values ys) (\<lambda>b. Inr (a @ b)))"
  by (simp add: bound_values_def map_result_append)

lemma keyClause_bindings: "keyClause pks ps = join_str '' AND '' (map fst (key_bindings (filter (is_key pks) ps)))"
  by (simp add: keyClause_def key_bindings_def comp_def)

lemma setClause_bindings: "map setClause ps = map fst (set_bindings ps)"
  by (simp add: set_bindings_def comp_def)

text \<open>The conditions of \<open>docInfo.when\<close> are made from that document.\<close>

definition when_made_from :: "(string \<Rightarrow> 'v model_fn option) \<Rightarrow> 'v doc_info option \<Rightarrow> 'v prop_info list \<Rightarrow> bool" where
  "when_made_from fns di whn \<longleftrightarrow> whn = [] \<or> (\<exists>d w. di = Some d \<and> di_when d = Some w \<and> made_from fns w whn)"

lemma when_getters:
  assumes "when_made_from fns di whn"
  shows "map_result (eval_getter fns doc di) (valueGetterExpression whn GWhen) = bound_values (condition_bindings whn)"
proof (cases "whn = []")
  case False
  with assms obtain d w where "di = Some d" "di_when d = Some w" "made_from fns w whn" by (auto simp: when_made_from_def)
  then show ?thesis by (intro value_getters) auto
qed (simp add: valueGetterExpression_def bound_values_def condition_bindings_def)

lemma number_getters:
  "di = Some d \<Longrightarrow> di_limit d = Some n \<Longrightarrow> eval_getter fns doc di GLimit = Inr (QPlain n)"
  "di = Some d \<Longrightarrow> di_ttl d = Some n \<Longrightarrow> eval_getter fns doc di GTtl = Inr (QPlain n)"
  by simp_all

text \<open>
  C14: A SELECT statement and its script agree: the WHERE clause of the text is the list of bindings of the
  document's properties, one placeholder each, followed by the one of LIMIT, and running the script on the
  document returns the values bound to those placeholders in the same order (with the model's functions applied,
  to each element for IN), or the error such a function raises.
\<close>

theorem select_binds_parameters:
  assumes "made_from fns doc ps" "\<forall>p \<in> set ps. q_made (pvalue p)" "limit = Option.bind di di_limit"
  shows "getSelect tableName keyspace ps fs orderBy limit =
           ''SELECT '' @ (if fs = [] then ''*'' else join_str '', '' (map (\<lambda>p. quoted (columnName p)) fs)) @
           '' FROM '' @ keyspace @ ''.'' @ tableName @
           (if ps = [] then [] else '' WHERE '' @ join_str '' AND '' (map fst (condition_bindings ps))) @
           (if orderBy = [] then [] else '' ORDER BY '' @ join_str '', '' (map (\<lambda>(c, d). quoted c @ '' '' @ d) orderBy)) @
           concat (map fst (number_bindings '' LIMIT ?'' limit)) \<and>
         run_script fns doc di (selectParamsGetter ps limit) =
           bound_values (condition_bindings ps @ number_bindings '' LIMIT ?'' limit)"
proof
  show "getSelect tableName keyspace ps fs orderBy limit =
           ''SELECT '' @ (if fs = [] then ''*'' else join_str '', '' (map (\<lambda>p. quoted (columnName p)) fs)) @
           '' FROM '' @ keyspace @ ''.'' @ tableName @
           (if ps = [] then [] else '' WHERE '' @ join_str '' AND '' (map fst (condition_bindings ps))) @
           (if orderBy = [] then [] else '' ORDER BY '' @ join_str '', '' (map (\<lambda>(c, d). quoted c @ '' '' @ d) orderBy)) @
           concat (map fst (number_bindings '' LIMIT ?'' limit))"
    using conditions_text[OF assms(2)] by (simp add: getSelect_def number_bindings_def split: option.split)
  have vals: "map_result (eval_getter fns doc di) (valueGetterExpression ps GDoc) = bound_values (condition_bindings ps)"
    using assms(1) by (intro value_getters) auto
  show "run_script fns doc di (selectParamsGetter ps limit) = bound_values (condition_bindings ps @ number_bindings '' LIMIT ?'' limit)"
  proof (cases limit)
    case None
    then show ?thesis using vals
      by (simp add: selectParamsGetter_def run_script_pieces number_bindings_def)
  next
    case (Some n)
    then obtain d where d: "di = Some d" "di_limit d = Some n" using assms(3) by (cases di) auto
    have "run_script fns doc di (selectParamsGetter ps limit) =
        map_result (eval_getter fns doc di) (valueGetterExpression ps GDoc @ [GLimit])"
      using Some by (auto simp: selectParamsGetter_def run_script_pieces valueGetterExpression_def)
    then show ?thesis using vals d Some
      by (simp add: map_result_append bound_values_append number_bindings_def bound_values_def)
  qed
qed


definition example_fns :: "string \<Rightarrow> int model_fn option" where
  "example_fns p = (if p = ''age'' then Some (\<lambda>v. case v of QPlain n \<Rightarrow> Inr (QPlain (n + 1)) | _ \<Rightarrow> Inl TypeError) else None)"

definition example_doc :: "int doc" where
  "example_doc = [(''id'', QPlain 5), (''age'', and_op (gte (QPlain 18)) (lt (QPlain 30)))]"

definition example_props :: "int prop_info list" where
  "example_props = map (\<lambda>(p, v). \<lparr>propertyName = p, columnName = p, pvalue = v, fromModel = example_fns p\<rparr>) example_doc"

theorem select_binds_parameters_witness:
  "run_script example_fns example_doc (Some (no_doc_info\<lparr>di_limit := Some 10\<rparr>)) (selectParamsGetter example_props (Some 10)) =
     Inr [QPlain 5, QPlain 19, QPlain 31, QPlain 10]"
proof -
  have "made_from example_fns example_doc example_props" "\<forall>p \<in> set example_props. q_made (pvalue p)"
    by (auto simp: made_from_def example_props_def example_doc_def doc_get_def and_op_def gte_def lt_def)
  from conjunct2[OF select_binds_parameters[OF this, of "Some 10" "Some (no_doc_info\<lparr>di_limit := Some 10\<rparr>)"]]
  show ?thesis
    by (simp add: no_doc_info_def condition_bindings_def number_bindings_def bound_values_def example_props_def example_doc_def
        and_op_def gte_def lt_def convert_def example_fns_def)
qed

lemma insert_binds_parameters:
  assumes "made_from fns doc ps" "\<forall>p \<in> set ps. no_operator (pvalue p)" "ttl = Option.bind di di_ttl" "ps \<noteq> []"
  shows "run_script fns doc di (insertParamsGetter ps ttl) = bound_values (key_bindings ps @ number_bindings '' USING TTL ?'' ttl)"
proof -
  have vals: "map_result (eval_getter fns doc di) (valueGetterExpression ps GDoc) = bound_values (key_bindings ps)"
    using assms(1) value_getters[of fns doc ps doc di GDoc] by (simp add: plain_conditions[OF assms(2)])
  show ?thesis
  proof (cases ttl)
    case None
    then show ?thesis using vals by (simp add: insertParamsGetter_def run_script_pieces number_bindings_def)
  next
    case (Some n)
    then obtain d where "di = Some d" "di_ttl d = Some n" using assms(3) by (cases di) auto
    then show ?thesis using vals Some assms(4)
      by (simp add: insertParamsGetter_def run_script_pieces map_result_append bound_values_append number_bindings_def)
         (simp add: bound_values_def)
  qed
qed

lemma update_parameters:
  assumes "made_from fns doc ps" "when_made_from fns di whn" "ttl = Option.bind di di_ttl"
    and "\<forall>p \<in> set ps. is_key pks p \<longrightarrow> no_operator (pvalue p)"
    and "\<exists>p \<in> set ps. is_key pks p" "\<exists>p \<in> set ps. \<not> is_key pks p"
  shows "run_script fns doc di (updateParamsGetter pks ps whn ttl) =
           bound_values (number_bindings ''USING TTL ? '' ttl @ set_bindings (filter (\<lambda>p. \<not> is_key pks p) ps) @
             key_bindings (filter (is_key pks) ps) @ condition_bindings whn)"
proof -
  define sets where "sets = filter (\<lambda>p. \<not> is_key pks p) ps"
  define keys where "keys = filter (is_key pks) ps"
  have ne: "sets \<noteq> []" "keys \<noteq> []" using assms(5,6) by (auto simp: sets_def keys_def filter_empty_conv)
  have made: "made_from fns doc sets" "made_from fns doc keys" using assms(1) by (simp_all add: sets_def keys_def)
  have plain: "\<forall>p \<in> set keys. no_operator (pvalue p)" using assms(4) by (simp add: keys_def)
  have k: "map_result (eval_getter fns doc di) (valueGetterExpression keys GDoc) = bound_values (key_bindings keys)"
    using value_getters[OF made(2), of doc di GDoc] by (simp add: plain_conditions[OF plain])
  have t: "map_result (eval_getter fns doc di) (if ttl \<noteq> None then [GTtl] else []) = bound_values (number_bindings ''USING TTL ? '' ttl)"
    using assms(3) by (cases di) (auto simp: number_bindings_def bound_values_def split: option.splits)
  have "run_script fns doc di (updateParamsGetter pks ps whn ttl) =
      map_result (eval_getter fns doc di) ((if ttl \<noteq> None then [GTtl] else []) @ assignmentGetterExpression sets @
        valueGetterExpression keys GDoc @ valueGetterExpression whn GWhen)"
    unfolding updateParamsGetter_def sets_def[symmetric] keys_def[symmetric]
    by (subst run_script_pieces) (use ne in \<open>auto simp: valueGetterExpression_def\<close>)
  also have "\<dots> = bound_values (number_bindings ''USING TTL ? '' ttl @ set_bindings sets @ key_bindings keys @ condition_bindings whn)"
    unfolding map_result_append t assignment_getters[OF made(1)] k when_getters[OF assms(2)] bound_values_append ..
  finally show ?thesis
    by (simp add: sets_def keys_def)
qed

lemma update_text:
  assumes "\<forall>p \<in> set whn. q_made (pvalue p)"
  shows "getUpdateQuery tableName keyspace pks ps whn ifExists ttl =
           ''UPDATE '' @ keyspace @ ''.'' @ tableName @ '' '' @ concat (map fst (number_bindings ''USING TTL ? '' ttl)) @
           ''SET '' @ join_str '', '' (map fst (set_bindings (filter (\<lambda>p. \<not> is_key pks p) ps))) @
           '' WHERE '' @ join_str '' AND '' (map fst (key_bindings (filter (is_key pks) ps))) @
           (if ifExists = TrueFlag then '' IF EXISTS''
            else if whn = [] then [] else '' IF '' @ join_str '' AND '' (map fst (condition_bindings whn)))"
  unfolding getUpdateQuery_def setClause_bindings keyClause_bindings ifClause_def
  using conditions_text[OF assms] by (simp add: number_bindings_def split: option.split)

text \<open>
  An UPDATE statement and its script agree when it sets at least one column, names at least one key, and has
  not both kinds of condition: the text is made of the placeholder of TTL, the assignments, the keys and the
  conditions, and the script returns the values bound to them in this order.
\<close>

theorem update_binds_parameters:
  assumes "made_from fns doc ps" "when_made_from fns di whn" "ttl = Option.bind di di_ttl"
    and "\<forall>p \<in> set ps. is_key pks p \<longrightarrow> no_operator (pvalue p)" "\<forall>p \<in> set whn. q_made (pvalue p)"
    and "\<exists>p \<in> set ps. is_key pks p" "\<exists>p \<in> set ps. \<not> is_key pks p" "ifExists = TrueFlag \<longrightarrow> whn = []"
  shows "getUpdateQuery tableName keyspace pks ps whn ifExists ttl =
           ''UPDATE '' @ keyspace @ ''.'' @ tableName @ '' '' @ concat (map fst (number_bindings ''USING TTL ? '' ttl)) @
           ''SET '' @ join_str '', '' (map fst (set_bindings (filter (\<lambda>p. \<not> is_key pks p) ps))) @
           '' WHERE '' @ join_str '' AND '' (map fst (key_bindings (filter (is_key pks) ps))) @
           (if ifExists = TrueFlag then '' IF EXISTS''
            else if whn = [] then [] else '' IF '' @ join_str '' AND '' (map fst (condition_bindings whn))) \<and>
         run_script fns doc di (updateParamsGetter pks ps whn ttl) =
           bound_values (number_bindings ''USING TTL ? '' ttl @ set_bindings (filter (\<lambda>p. \<not> is_key pks p) ps) @
             key_bindings (filter (is_key pks) ps) @ condition_bindings whn)"
  using update_text[OF assms(5)] update_parameters[OF assms(1-4,6,7)] by (rule conjI)

definition update_doc :: "int doc" where
  "update_doc = [(''id'', QPlain 5), (''hits'', incr (QPlain 2)), (''tags'', prepend (QArray [QPlain 1]))]"

definition update_props :: "int prop_info list" where
  "update_props = map (\<lambda>(p, v). \<lparr>propertyName = p, columnName = p, pvalue = v, fromModel = None\<rparr>) update_doc"

theorem update_binds_parameters_witness:
  "run_script (\<lambda>_. None) update_doc (Some (no_doc_info\<lparr>di_ttl := Some 60\<rparr>)) (updateParamsGetter [''id''] update_props [] (Some 60)) =
     Inr [QPlain 60, QPlain 2, QArray [QPlain 1], QPlain 5]"
proof -
  have "made_from (\<lambda>_. None) update_doc update_props"
    by (auto simp: made_from_def update_props_def update_doc_def doc_get_def incr_def prepend_def)
  from conjunct2[OF update_binds_parameters[OF this, of "Some (no_doc_info\<lparr>di_ttl := Some 60\<rparr>)" "[]" "Some 60" "[''id'']" Falsy]]
  show ?thesis
    by (simp add: no_doc_info_def when_made_from_def update_props_def update_doc_def incr_def prepend_def is_key_def
        condition_bindings_def number_bindings_def key_bindings_def set_bindings_def bound_values_def convert_def)
qed

lemma delete_binds_parameters:
  assumes "made_from fns doc ps" "when_made_from fns di whn" "\<forall>p \<in> set ps. is_key pks p \<longrightarrow> no_operator (pvalue p)"
    and "\<exists>p \<in> set ps. is_key pks p"
  shows "run_script fns doc di (deleteParamsGetter pks ps whn) =
           bound_values (key_bindings (filter (is_key pks) ps) @ condition_bindings whn)"
proof -
  define keys where "keys = filter (is_key pks) ps"
  have ne: "keys \<noteq> []" using assms(4) by (auto simp: keys_def filter_empty_conv)
  have plain: "\<forall>p \<in> set keys. no_operator (pvalue p)" using assms(3) by (simp add: keys_def)
  have made: "made_from fns doc keys" using assms(1) by (simp add: keys_def)
  have "run_script fns doc di (deleteParamsGetter pks ps whn) =
      map_result (eval_getter fns doc di) (valueGetterExpression keys GDoc @ valueGetterExpression whn GWhen)"
    unfolding deleteParamsGetter_def keys_def[symmetric]
    by (subst run_script_pieces) (use ne in \<open>auto simp: valueGetterExpression_def\<close>)
  also have "\<dots> = bound_values (key_bindings keys @ condition_bindings whn)"
    using value_getters[OF made, of doc di GDoc]
    by (simp add: map_result_append when_getters[OF assms(2)] bound_values_append plain_conditions[OF plain])
  finally show ?thesis by (simp add: keys_def)
qed

section \<open>Operators where the statement has none\<close>

text \<open>
  An operator on a key of an UPDATE is read as an equality: the text has \<open>=\<close> and the script binds the operand.
  With \<open>q.and\<close> the script returns more values than there are placeholders.
\<close>

lemma update_key_operator:
  defines "ps k \<equiv> [\<lparr>propertyName = ''id'', columnName = ''id'', pvalue = k, fromModel = None\<rparr>,
                 \<lparr>propertyName = ''a'', columnName = ''a'', pvalue = QPlain (1 :: int), fromModel = None\<rparr>]"
  shows "getUpdateQuery ''t'' ''ks'' [''id''] (ps (gt (QPlain 5))) [] Falsy None = getUpdateQuery ''t'' ''ks'' [''id''] (ps (QPlain 5)) [] Falsy None"
    and "run_script (\<lambda>_. None) [(''id'', gt (QPlain (5 :: int))), (''a'', QPlain 1)] None (updateParamsGetter [''id''] (ps (gt (QPlain 5))) [] None) =
         Inr [QPlain 1, QPlain 5]"
    and "getUpdateQuery ''t'' ''ks'' [''id''] (ps (and_op (gt (QPlain 5)) (lt (QPlain 9)))) [] Falsy None =
         getUpdateQuery ''t'' ''ks'' [''id''] (ps (QPlain 5)) [] Falsy None"
    and "run_script (\<lambda>_. None) [(''id'', and_op (gt (QPlain (5 :: int))) (lt (QPlain 9))), (''a'', QPlain 1)] None
           (updateParamsGetter [''id''] (ps (and_op (gt (QPlain 5)) (lt (QPlain 9)))) [] None) = Inr [QPlain 1, QPlain 5, QPlain 9]"
  unfolding ps_def by code_simp+

text \<open>An UPDATE without assignments: the text has an empty SET clause and the array a hole.\<close>

lemma update_without_columns:
  "run_script (\<lambda>_. None) [(''id'', QPlain (5 :: int))] None
     (updateParamsGetter [''id''] [\<lparr>propertyName = ''id'', columnName = ''id'', pvalue = QPlain 5, fromModel = None\<rparr>] [] None) =
   Inr [QUndefined, QPlain 5]"
  by code_simp

end
