(* ===== verification/Mapping_Info.thy ===== *)
theory Mapping_Info
  imports Mapping_Query
begin

text \<open>
  The mapping information of a model: the naming conventions (\<^verbatim>\<open>src/lib/mapping/table-mappings.js\<close>), the parsed
  options of a model (\<^verbatim>\<open>model-mapping-info.js\<close>) and the adapter of the user's \<open>docInfo\<close> and execution options
  (\<^verbatim>\<open>doc-info-adapter.js\<close>).
\<close>

section \<open>Naming conventions\<close>

definition lower_letter :: "char \<Rightarrow> bool" where
  "lower_letter c \<longleftrightarrow> 97 \<le> char_code c \<and> char_code c \<le> 122"

definition upper_letter :: "char \<Rightarrow> bool" where
  "upper_letter c \<longleftrightarrow> 65 \<le> char_code c \<and> char_code c \<le> 90"

definition js_upper :: "char \<Rightarrow> char" where
  "js_upper c = (if lower_letter c then char_of (char_code c - 32) else c)"

text \<open>The matches of \<open>/[a-z][A-Z]/g\<close> do not overlap: a match consumes both characters.\<close>

fun insert_underscores :: "string \<Rightarrow> string" where
  "insert_underscores (a # b # s) =
     (if lower_letter a \<and> upper_letter b then a # CHR ''_'' # b # insert_underscores s else a # insert_underscores (b # s))"
| "insert_underscores s = s"

text \<open>The matches of \<open>/_[a-z]/g\<close>; one at the start of the name is left as it is.\<close>

fun drop_underscores :: "bool \<Rightarrow> string \<Rightarrow> string" where
  "drop_underscores start (a # b # s) =
     (if a = CHR ''_'' \<and> lower_letter b then
        (if start then [a, b] else [js_upper b]) @ drop_underscores False s
      else a # drop_underscores False (b # s))"
| "drop_underscores start s = s"

datatype table_mappings = DefaultTableMappings | UnderscoreCqlToCamelCaseMappings | CustomMappings "string \<Rightarrow> string" "string \<Rightarrow> string"

fun mappings_getColumnName :: "table_mappings \<Rightarrow> string \<Rightarrow> string" where
  "mappings_getColumnName DefaultTableMappings p = p"
| "mappings_getColumnName UnderscoreCqlToCamelCaseMappings p = map js_lower (insert_underscores p)"
| "mappings_getColumnName (CustomMappings toColumn toProperty) p = toColumn p"

fun mappings_getPropertyName :: "table_mappings \<Rightarrow> string \<Rightarrow> string" where
  "mappings_getPropertyName DefaultTableMappings c = c"
| "mappings_getPropertyName UnderscoreCqlToCamelCaseMappings c = drop_underscores True c"
| "mappings_getPropertyName (CustomMappings toColumn toProperty) c = toProperty c"

section \<open>Mapping information\<close>

record 'v model_column_info =
  mc_columnName :: string
  mc_propertyName :: string
  mc_toModel :: "'v model_fn option"
  mc_fromModel :: "'v model_fn option"

record model_table =
  mt_name :: string
  mt_isView :: bool

text \<open>
  \<open>ModelMappingInfo\<close>: \<open>mi_columns\<close> is the map of columns in insertion order, \<open>mi_documentProperties\<close> the map the
  constructor builds from it, in which a later column overrides an earlier one of the same property.
\<close>

record 'v mapping_info =
  mi_keyspace :: "string option"
  mi_tables :: "model_table list"
  mi_mappings :: table_mappings
  mi_columns :: "(string \<times> 'v model_column_info) list"
  mi_documentProperties :: "string \<Rightarrow> 'v model_column_info option"

definition new_mapping_info :: "string option \<Rightarrow> model_table list \<Rightarrow> table_mappings \<Rightarrow> (string \<times> 'v model_column_info) list \<Rightarrow> 'v mapping_info" where
  "new_mapping_info ks tables mappings columns =
     \<lparr>mi_keyspace = ks, mi_tables = tables, mi_mappings = mappings, mi_columns = columns,
      mi_documentProperties = foldl (\<lambda>m (_, c). m(mc_propertyName c \<mapsto> c)) (\<lambda>_. None) columns\<rparr>"

definition getColumnName :: "'v mapping_info \<Rightarrow> string \<Rightarrow> string" where
  "getColumnName mi p = (case mi_documentProperties mi p of
     Some c \<Rightarrow> mc_columnName c | None \<Rightarrow> mappings_getColumnName (mi_mappings mi) p)"

definition getPropertyName :: "'v mapping_info \<Rightarrow> string \<Rightarrow> string" where
  "getPropertyName mi c = (case map_of (mi_columns mi) c of
     Some i \<Rightarrow> mc_propertyName i | None \<Rightarrow> mappings_getPropertyName (mi_mappings mi) c)"

definition getFromModelFn :: "'v mapping_info \<Rightarrow> string \<Rightarrow> 'v model_fn option" where
  "getFromModelFn mi p = Option.bind (mi_documentProperties mi p) mc_fromModel"

definition getToModelFn :: "'v mapping_info \<Rightarrow> string \<Rightarrow> 'v model_fn option" where
  "getToModelFn mi c = Option.bind (map_of (mi_columns mi) c) mc_toModel"

subsection \<open>Parsing the options of a model\<close>

text \<open>
  The options as the user gives them: an absent, null or empty text is falsy; a conversion function may be absent
  or something that is not a function.
\<close>

datatype 'v fn_option = NoFn | Fn "'v model_fn" | NotFn

datatype 'v column_option = ColFalsy | ColName string | ColObject "string option" "'v fn_option" "'v fn_option"

datatype table_item = TableFalsy | TableName string | TableObject "string option" bool

datatype mappings_option = MappingsAbsent | Mappings table_mappings | MappingsOther

record 'v model_options =
  mo_tables :: "table_item list"
  mo_mappings :: mappings_option
  mo_columns :: "(string \<times> 'v column_option) list"
  mo_keyspace :: "string option"

definition str_or :: "string option \<Rightarrow> string option \<Rightarrow> string option" where
  "str_or a b = (if a \<noteq> None \<and> a \<noteq> Some [] then a else b)"

definition truthy_str :: "string option \<Rightarrow> bool" where
  "truthy_str a \<longleftrightarrow> a \<noteq> None \<and> a \<noteq> Some []"

fun the_fn :: "'v fn_option \<Rightarrow> 'v model_fn option" where
  "the_fn (Fn f) = Some f"
| "the_fn _ = None"

text \<open>The constructor of \<open>ModelColumnInfo\<close> checks the functions.\<close>

fun not_fn :: "'v fn_option \<Rightarrow> bool" where
  "not_fn NotFn = True"
| "not_fn _ = False"

definition new_column_info :: "string \<Rightarrow> string \<Rightarrow> 'v fn_option \<Rightarrow> 'v fn_option \<Rightarrow> 'v model_column_info result" where
  "new_column_info c p tf ff =
     (if not_fn tf \<or> not_fn ff then Inl TypeError
      else Inr \<lparr>mc_columnName = c, mc_propertyName = p, mc_toModel = the_fn tf, mc_fromModel = the_fn ff\<rparr>)"

fun column_info_parse :: "string \<Rightarrow> 'v column_option \<Rightarrow> 'v model_column_info result" where
  "column_info_parse c ColFalsy = new_column_info c c NoFn NoFn"
| "column_info_parse c (ColName p) = (if p = [] then new_column_info c c NoFn NoFn else new_column_info c p NoFn NoFn)"
| "column_info_parse c (ColObject n t f) = new_column_info c (case n of None \<Rightarrow> c | Some p \<Rightarrow> if p = [] then c else p) t f"

fun parse_table :: "table_item \<Rightarrow> model_table result" where
  "parse_table TableFalsy = Inl PlainError"
| "parse_table (TableName n) = (if n = [] then Inl PlainError else Inr \<lparr>mt_name = n, mt_isView = False\<rparr>)"
| "parse_table (TableObject n v) = (case n of None \<Rightarrow> Inl PlainError
     | Some s \<Rightarrow> if s = [] then Inl PlainError else Inr \<lparr>mt_name = s, mt_isView = v\<rparr>)"

definition createDefault :: "string \<Rightarrow> string option \<Rightarrow> 'v mapping_info" where
  "createDefault modelName ks = new_mapping_info ks [\<lparr>mt_name = modelName, mt_isView = False\<rparr>] DefaultTableMappings []"

definition create_info :: "string \<Rightarrow> string option \<Rightarrow> 'v model_options option \<Rightarrow> 'v mapping_info result" where
  "create_info modelName currentKeyspace opts =
     (if \<not> truthy_str currentKeyspace \<and> (case opts of None \<Rightarrow> True | Some mo \<Rightarrow> \<not> truthy_str (mo_keyspace mo)) then Inl PlainError
      else case opts of
        None \<Rightarrow> Inr (createDefault modelName currentKeyspace)
      | Some mo \<Rightarrow>
          bind_result (if mo_tables mo \<noteq> [] then map_result parse_table (mo_tables mo)
                       else Inr [\<lparr>mt_name = modelName, mt_isView = False\<rparr>]) (\<lambda>tables.
          case mo_mappings mo of MappingsOther \<Rightarrow> Inl PlainError
          | _ \<Rightarrow> bind_result (map_result (\<lambda>(c, v). bind_result (column_info_parse c v) (\<lambda>i. Inr (c, i))) (mo_columns mo)) (\<lambda>columns.
            Inr (new_mapping_info (str_or (mo_keyspace mo) currentKeyspace) tables
                  (case mo_mappings mo of Mappings m \<Rightarrow> m | _ \<Rightarrow> DefaultTableMappings) columns))))"

text \<open>\<open>parse\<close>: a map from model names to their information; the keys of an object are distinct.\<close>

definition parse_models :: "(string \<times> 'v model_options option) list option \<Rightarrow> string option \<Rightarrow> (string \<times> 'v mapping_info) list result" where
  "parse_models models ks = (case models of None \<Rightarrow> Inr []
     | Some ms \<Rightarrow> map_result (\<lambda>(n, mo). bind_result (create_info n ks mo) (\<lambda>i. Inr (n, i))) ms)"

section \<open>Adapting docInfo and options\<close>

definition getPropertiesInfo :: "string list \<Rightarrow> 'v doc_info option \<Rightarrow> 'v doc \<Rightarrow> 'v mapping_info \<Rightarrow> 'v prop_info list" where
  "getPropertiesInfo docKeys di doc mi =
     (let keys = (case Option.bind di di_fields of Some fs \<Rightarrow> (if fs \<noteq> [] then fs else docKeys) | None \<Rightarrow> docKeys)
      in map (\<lambda>p. \<lparr>propertyName = p, columnName = getColumnName mi p, pvalue = doc_get doc p, fromModel = getFromModelFn mi p\<rparr>) keys)"

definition adaptOrderBy :: "'v doc_info option \<Rightarrow> 'v mapping_info \<Rightarrow> (string \<times> string) list result" where
  "adaptOrderBy di mi = (case Option.bind di di_orderBy of
     None \<Rightarrow> Inr []
   | Some os \<Rightarrow> map_result (\<lambda>(k, v). let ordering = map js_upper v
       in if ordering \<noteq> ''ASC'' \<and> ordering \<noteq> ''DESC'' then Inl ArgumentError else Inr (getColumnName mi k, ordering)) os)"

text \<open>
  Execution options of the user: nothing, the name of a profile, or an object. An option of the object is \<open>None\<close>
  when it is undefined.
\<close>

record 'v exec_object =
  eo_executionProfile :: "'v option"
  eo_fetchSize :: "'v option"
  eo_pageState :: "'v option"
  eo_timestamp :: "'v option"
  eo_logged :: "bool option"
  eo_isIdempotent :: "bool option"

datatype 'v exec_options = NoOptions | ProfileName 'v | OptionsObject "'v exec_object"

record 'v query_options =
  qo_prepare :: bool
  qo_executionProfile :: "'v option"
  qo_fetchSize :: "'v option"
  qo_pageState :: "'v option"
  qo_timestamp :: "'v option"
  qo_logged :: "bool option"
  qo_isIdempotent :: "bool option"
  qo_counter :: "bool option"

definition base_options :: "bool option \<Rightarrow> 'v query_options" where
  "base_options idem = \<lparr>qo_prepare = True, qo_executionProfile = None, qo_fetchSize = None, qo_pageState = None,
     qo_timestamp = None, qo_logged = None, qo_isIdempotent = idem, qo_counter = None\<rparr>"

fun adaptOptions :: "'v exec_options \<Rightarrow> bool \<Rightarrow> 'v query_options" where
  "adaptOptions NoOptions idem = base_options (Some idem)"
| "adaptOptions (ProfileName n) idem = (base_options (Some idem))\<lparr>qo_executionProfile := Some n\<rparr>"
| "adaptOptions (OptionsObject x) idem =
     (base_options (case eo_isIdempotent x of None \<Rightarrow> Some idem | Some b \<Rightarrow> Some b))
       \<lparr>qo_executionProfile := eo_executionProfile x, qo_timestamp := eo_timestamp x\<rparr>"

definition adaptAllOptions :: "'v exec_options \<Rightarrow> bool \<Rightarrow> 'v query_options" where
  "adaptAllOptions eo overrideIdempotency =
     (let opts = (case eo of
          NoOptions \<Rightarrow> base_options None
        | ProfileName n \<Rightarrow> (base_options None)\<lparr>qo_executionProfile := Some n\<rparr>
        | OptionsObject x \<Rightarrow> (base_options (eo_isIdempotent x))
            \<lparr>qo_executionProfile := eo_executionProfile x, qo_fetchSize := eo_fetchSize x,
             qo_pageState := eo_pageState x, qo_timestamp := eo_timestamp x\<rparr>)
      in if overrideIdempotency then opts\<lparr>qo_isIdempotent := Some True\<rparr> else opts)"

fun adaptBatchOptions :: "'v exec_options \<Rightarrow> bool \<Rightarrow> bool option \<Rightarrow> 'v query_options" where
  "adaptBatchOptions NoOptions idem counter = (base_options (Some idem))\<lparr>qo_counter := counter\<rparr>"
| "adaptBatchOptions (ProfileName n) idem counter = (base_options (Some idem))\<lparr>qo_counter := counter, qo_executionProfile := Some n\<rparr>"
| "adaptBatchOptions (OptionsObject x) idem counter =
     (base_options (case eo_isIdempotent x of None \<Rightarrow> Some idem | Some b \<Rightarrow> Some b))
       \<lparr>qo_counter := counter, qo_executionProfile := eo_executionProfile x, qo_timestamp := eo_timestamp x,
        qo_logged := Some (eo_logged x \<noteq> Some False)\<rparr>"


section \<open>Snake case and camel case\<close>

text \<open>A column name made of words of lower-case letters joined by underscores.\<close>

definition word_ok :: "string \<Rightarrow> bool" where
  "word_ok w \<longleftrightarrow> w \<noteq> [] \<and> (\<forall>c \<in> set w. lower_letter c)"

definition capitalised :: "string \<Rightarrow> string" where
  "capitalised w = js_upper (hd w) # tl w"

lemma lower_not_underscore: "lower_letter c \<Longrightarrow> c \<noteq> CHR ''_''"
  by (auto simp: lower_letter_def char_code_def)

lemma letter_cases:
  assumes "lower_letter c"
  shows "upper_letter (js_upper c)" "\<not> lower_letter (js_upper c)" "js_lower (js_upper c) = c" "js_lower c = c" "\<not> upper_letter c"
proof -
  have bound: "97 \<le> (of_char c :: nat)" "(of_char c :: nat) \<le> 122" using assms by (simp_all add: lower_letter_def char_code_def)
  have u: "(of_char (js_upper c) :: nat) = of_char c - 32"
    using assms bound by (simp add: js_upper_def char_code_def)
  show "upper_letter (js_upper c)" "\<not> lower_letter (js_upper c)"
    using bound u by (auto simp: upper_letter_def lower_letter_def char_code_def)
  show "js_lower (js_upper c) = c" "js_lower c = c" "\<not> upper_letter c"
    using bound u by (auto simp: js_lower_def char_code_def upper_letter_def)
qed

lemma drop_underscores_word:
  "\<forall>c \<in> set w. c \<noteq> CHR ''_'' \<Longrightarrow> drop_underscores b (w @ s) = w @ drop_underscores (b \<and> w = []) s"
proof (induction w arbitrary: b)
  case (Cons a w)
  then show ?case by (cases "w @ s") auto
qed simp

lemma drop_underscores_join:
  "\<forall>w \<in> set ws. word_ok w \<Longrightarrow> ws \<noteq> [] \<Longrightarrow>
   drop_underscores False (concat (map (\<lambda>w. CHR ''_'' # w) ws)) = concat (map capitalised ws)"
proof (induction ws)
  case (Cons w ws)
  then obtain a v where w: "w = a # v" "lower_letter a" "\<forall>c \<in> set v. lower_letter c" by (cases w) (auto simp: word_ok_def)
  then have v: "\<forall>c \<in> set v. c \<noteq> CHR ''_''" using lower_not_underscore by blast
  show ?case
  proof (cases "ws = []")
    case True
    then show ?thesis using w drop_underscores_word[OF v, of False "[]"] by (simp add: capitalised_def)
  next
    case False
    then show ?thesis using w drop_underscores_word[OF v, of False] Cons by (simp add: capitalised_def)
  qed
qed simp

lemma join_underscores: "join_on d (w # ws) = w @ concat (map (\<lambda>w. d # w) ws)"
  by (induction ws arbitrary: w) auto

text \<open>Back from camel case: an underscore is inserted where a lower-case letter meets a capital.\<close>

lemma js_lower_underscore [simp]: "js_lower (CHR ''_'') = CHR ''_''"
  by (simp add: js_lower_def char_code_def)

lemma insert_underscores_lower:
  "\<forall>c \<in> set w. lower_letter c \<Longrightarrow> w \<noteq> [] \<Longrightarrow> s = [] \<or> upper_letter (hd s) \<Longrightarrow>
   map js_lower (insert_underscores (w @ s)) = w @ (if s = [] then [] else CHR ''_'' # js_lower (hd s) # map js_lower (insert_underscores (tl s)))"
proof (induction w)
  case (Cons a w)
  show ?case
  proof (cases w)
    case Nil
    then show ?thesis using Cons.prems by (cases s) (auto simp: letter_cases)
  next
    case (Cons b v)
    then show ?thesis using Cons.IH Cons.prems by (simp add: letter_cases)
  qed
qed simp


lemma camel_back:
  "\<forall>c \<in> set w. lower_letter c \<Longrightarrow> w \<noteq> [] \<Longrightarrow> \<forall>v \<in> set ws. word_ok v \<Longrightarrow> \<forall>v \<in> set (butlast ws). 2 \<le> length v \<Longrightarrow>
   map js_lower (insert_underscores (w @ concat (map capitalised ws))) = w @ concat (map (\<lambda>v. CHR ''_'' # v) ws)"
proof (induction ws arbitrary: w)
  case Nil
  then show ?case using insert_underscores_lower[of w "[]"] by simp
next
  case (Cons v vs)
  then obtain a u where v: "v = a # u" "lower_letter a" "\<forall>c \<in> set u. lower_letter c" by (cases v) (auto simp: word_ok_def)
  have again: "map js_lower (insert_underscores (w @ concat (map capitalised (v # vs)))) =
      w @ CHR ''_'' # a # map js_lower (insert_underscores (u @ concat (map capitalised vs)))"
    using insert_underscores_lower[of w "concat (map capitalised (v # vs))"] Cons.prems v
    by (simp add: capitalised_def letter_cases)
  show ?case
  proof (cases u)
    case Nil
    then have "vs = []" using Cons.prems(4) v by (auto split: if_splits)
    then show ?thesis using again v Nil by simp
  next
    case (Cons b t)
    then have "map js_lower (insert_underscores (u @ concat (map capitalised vs))) = u @ concat (map (\<lambda>v. CHR ''_'' # v) vs)"
      using Cons.IH[of u] Cons.prems v by (auto split: if_splits dest: in_set_butlastD)
    then show ?thesis using again v by simp
  qed
qed

text \<open>
  The camel-case convention reads its own names back: for a column name of words of lower-case letters joined
  by underscores, in which every word between the first and the last has at least two letters, the property name
  made from the column gives the same column back.
\<close>

theorem camel_case_roundtrip:
  assumes "\<forall>v \<in> set (w # ws). word_ok v" "\<forall>v \<in> set (butlast ws). 2 \<le> length v"
  shows "mappings_getColumnName UnderscoreCqlToCamelCaseMappings
           (mappings_getPropertyName UnderscoreCqlToCamelCaseMappings (join_on (CHR ''_'') (w # ws))) = join_on (CHR ''_'') (w # ws)"
proof -
  have w: "\<forall>c \<in> set w. lower_letter c" "w \<noteq> []" using assms(1) by (auto simp: word_ok_def)
  then have "\<forall>c \<in> set w. c \<noteq> CHR ''_''" using lower_not_underscore by blast
  from drop_underscores_word[OF this, of True] drop_underscores_word[OF this, of True "[]"] w
  have "drop_underscores True (join_on (CHR ''_'') (w # ws)) = w @ concat (map capitalised ws)"
    using drop_underscores_join[of ws] assms(1) by (cases "ws = []") (auto simp: join_underscores)
  then show ?thesis using camel_back[OF w, of ws] assms by (simp add: join_underscores)
qed

theorem camel_case_roundtrip_witness:
  "mappings_getPropertyName UnderscoreCqlToCamelCaseMappings ''user_last_name'' = ''userLastName'' \<and>
   mappings_getColumnName UnderscoreCqlToCamelCaseMappings
     (mappings_getPropertyName UnderscoreCqlToCamelCaseMappings ''user_last_name'') = ''user_last_name''"
proof
  show "mappings_getPropertyName UnderscoreCqlToCamelCaseMappings ''user_last_name'' = ''userLastName''" by code_simp
  show "mappings_getColumnName UnderscoreCqlToCamelCaseMappings
     (mappings_getPropertyName UnderscoreCqlToCamelCaseMappings ''user_last_name'') = ''user_last_name''"
    using camel_case_roundtrip[of "''user''" "[''last'', ''name'']"] by (simp add: word_ok_def lower_letter_def char_code_def)
qed

text \<open>With a middle word of one letter the column is not found again.\<close>

lemma camel_case_single_letter:
  "mappings_getColumnName UnderscoreCqlToCamelCaseMappings
     (mappings_getPropertyName UnderscoreCqlToCamelCaseMappings ''point_x_axis'') = ''point_xaxis''"
  by code_simp

section \<open>Columns named in the options\<close>

lemma documentProperties_other:
  "p \<notin> mc_propertyName ` snd ` set cs \<Longrightarrow> foldl (\<lambda>m (_, c). m(mc_propertyName c \<mapsto> c)) m cs p = m p"
  by (induction cs arbitrary: m) (auto simp: case_prod_beta)

lemma documentProperties_in:
  "distinct (map (mc_propertyName \<circ> snd) cs) \<Longrightarrow> (k, c) \<in> set cs \<Longrightarrow>
   foldl (\<lambda>m (_, c). m(mc_propertyName c \<mapsto> c)) m cs (mc_propertyName c) = Some c"
proof (induction cs arbitrary: m)
  case (Cons d cs)
  show ?case
  proof (cases "d = (k, c)")
    case True
    then have "mc_propertyName c \<notin> mc_propertyName ` snd ` set cs" using Cons.prems(1) by (auto simp: image_iff)
    then show ?thesis using True documentProperties_other[of "mc_propertyName c" cs "m(mc_propertyName c \<mapsto> c)"]
      by (simp add: fun_upd_same del: fun_upd_apply)
  next
    case False
    then show ?thesis using Cons by simp
  qed
qed simp

text \<open>
  Names of columns given in the options round trip, when no two of them have the same property: the property of
  such a column leads back to it.
\<close>

lemma named_columns_roundtrip:
  assumes "distinct (map (mc_propertyName \<circ> snd) cs)" "distinct (map fst cs)" "(k, c) \<in> set cs" "mc_columnName c = k"
  shows "getColumnName (new_mapping_info ks ts ms cs) (getPropertyName (new_mapping_info ks ts ms cs) k) = k"
  using assms documentProperties_in[OF assms(1,3)]
  by (simp add: getColumnName_def getPropertyName_def new_mapping_info_def)

text \<open>The infos of a document's own keys are made from the document.\<close>

lemma getPropertiesInfo_made_from: "made_from (getFromModelFn mi) doc (getPropertiesInfo ks di doc mi)"
  by (auto simp: made_from_def getPropertiesInfo_def Let_def)

end
