(* ===== verification/Mapping_Cache.thy ===== *)
theory Mapping_Cache
  imports Mapping_Info
begin

text \<open>
  The keys of the mapper's query caches (\<^verbatim>\<open>src/lib/mapping/cache.js\<close>): a generator yields the parts that identify
  the shape of a request, the properties of the document with their operators, then the parts for \<open>docInfo\<close>. The
  key of a SELECT determines the statement; the keys of UPDATE and DELETE do not, because the properties of
  \<open>docInfo.when\<close> follow those of the document with nothing between.
\<close>

section \<open>The keys\<close>

datatype key_part = KText string | KBool bool

fun yieldOperators :: "'v qval \<Rightarrow> key_part list" where
  "yieldOperators (QueryOperatorPair k a b) = KText k # yieldOperators a @ KText ''|/|'' # yieldOperators b"
| "yieldOperators (QueryOperator k v i) = [KText k]"
| "yieldOperators v = []"

definition yieldKeyAndOperators :: "string list \<Rightarrow> 'v doc \<Rightarrow> key_part list" where
  "yieldKeyAndOperators ks obj = concat (map (\<lambda>k. KText k # yieldOperators (doc_get obj k)) ks)"

fun yieldQs :: "'v qval \<Rightarrow> key_part list" where
  "yieldQs (QueryAssignment s v i) = [KText s, KBool i]"
| "yieldQs v = yieldOperators v"

definition yieldKeyAndAllQs :: "string list \<Rightarrow> 'v doc \<Rightarrow> key_part list" where
  "yieldKeyAndAllQs ks obj = concat (map (\<lambda>k. KText k # yieldQs (doc_get obj k)) ks)"

text \<open>The part for \<open>docInfo.fields\<close>, which is the same in every generator.\<close>

definition yieldFields :: "'v doc_info \<Rightarrow> key_part list" where
  "yieldFields d = (case di_fields d of None \<Rightarrow> [] | Some fs \<Rightarrow> if fs = [] then [] else KText ''|f|'' # map KText fs)"

definition getSelectDocInfo :: "'v doc_info option \<Rightarrow> key_part list" where
  "getSelectDocInfo di = (case di of None \<Rightarrow> []
     | Some d \<Rightarrow> yieldFields d @ (if di_limit d \<noteq> None then [KText ''|l|''] else []) @
         (case di_orderBy d of None \<Rightarrow> [] | Some os \<Rightarrow> KText ''|o|'' # concat (map (\<lambda>(k, v). [KText k, KText v]) os)))"

definition getSelectKey :: "string list \<Rightarrow> 'v doc \<Rightarrow> 'v doc_info option \<Rightarrow> key_part list" where
  "getSelectKey docKeys doc di = yieldKeyAndOperators docKeys doc @ getSelectDocInfo di"

definition getSelectAllKey :: "'v doc_info option \<Rightarrow> key_part list" where
  "getSelectAllKey di = KText ''root'' # getSelectDocInfo di"

definition getInsertKey :: "string list \<Rightarrow> 'v doc_info option \<Rightarrow> key_part list" where
  "getInsertKey docKeys di = map KText docKeys @ (case di of None \<Rightarrow> []
     | Some d \<Rightarrow> yieldFields d @ (if di_ttl d \<noteq> None then [KText ''|t|''] else []) @
         (if di_ifNotExists d \<noteq> Falsy then [KText ''|e|''] else []))"

definition getUpdateKey :: "string list \<Rightarrow> 'v doc \<Rightarrow> 'v doc_info option \<Rightarrow> key_part list" where
  "getUpdateKey docKeys doc di = yieldKeyAndAllQs docKeys doc @ (case di of None \<Rightarrow> []
     | Some d \<Rightarrow> yieldFields d @ (if di_ttl d \<noteq> None then [KText ''|t|''] else []) @
         (if di_ifExists d \<noteq> Falsy then [KText ''|e|''] else []) @
         (case di_when d of None \<Rightarrow> [] | Some w \<Rightarrow> yieldKeyAndOperators (map fst w) w))"

definition getRemoveKey :: "string list \<Rightarrow> 'v doc \<Rightarrow> 'v doc_info option \<Rightarrow> key_part list" where
  "getRemoveKey docKeys doc di = yieldKeyAndOperators docKeys doc @ (case di of None \<Rightarrow> []
     | Some d \<Rightarrow> yieldFields d @ (if di_ifExists d \<noteq> Falsy then [KText ''|e|''] else []) @
         (if di_deleteOnlyColumns d \<noteq> Falsy then [KText ''|dc|''] else []) @
         (case di_when d of None \<Rightarrow> [] | Some w \<Rightarrow> yieldKeyAndOperators (map fst w) w))"

lemmas key_defs = getSelectKey_def getSelectAllKey_def getInsertKey_def getUpdateKey_def getRemoveKey_def
  yieldFields_def yieldKeyAndOperators_def yieldKeyAndAllQs_def getSelectDocInfo_def

section \<open>A SELECT is determined by its key\<close>

text \<open>The operators \<open>q\<close> makes, and names that are neither an operator nor a separator of the keys.\<close>

definition operator_keys :: "string list" where
  "operator_keys = [''IN'', ''>'', ''>='', ''<'', ''<='', ''!='', ''AND'']"

definition separators :: "string list" where
  "separators = [''|f|'', ''|l|'', ''|o|'', ''|t|'', ''|e|'', ''|dc|'', ''|/|'']"

definition plain_name :: "string \<Rightarrow> bool" where
  "plain_name s \<longleftrightarrow> s \<notin> set operator_keys \<and> s \<notin> set separators"

fun q_value :: "'v qval \<Rightarrow> bool" where
  "q_value (QueryOperatorPair k a b) \<longleftrightarrow> k = ''AND'' \<and> q_value a \<and> q_value b"
| "q_value (QueryOperator k v i) \<longleftrightarrow> k \<in> set operator_keys \<and> k \<noteq> ''AND'' \<and> (i \<longleftrightarrow> k = ''IN'')"
| "q_value v \<longleftrightarrow> True"

text \<open>Two values of the same shape give the same condition and the same getters.\<close>

fun same_shape :: "'v qval \<Rightarrow> 'v qval \<Rightarrow> bool" where
  "same_shape (QueryOperatorPair k a b) (QueryOperatorPair k' a' b') \<longleftrightarrow> k = k' \<and> same_shape a a' \<and> same_shape b b'"
| "same_shape (QueryOperator k v i) (QueryOperator k' v' i') \<longleftrightarrow> k = k' \<and> i = i'"
| "same_shape v w \<longleftrightarrow> no_operator v \<and> no_operator w"

lemma no_operator_simps:
  assumes "no_operator v"
  shows "getSingleCondition c v = quoted c @ '' = ?''"
    and "valueGetterSingle g p v f = (if f then [getMappingFunctionCall p g] else [g])"
    and "yieldOperators v = []"
    and "same_shape v w \<longleftrightarrow> no_operator w"
    and "same_shape w v \<longleftrightarrow> no_operator w"
  using assms by (cases v; cases w; auto)+

lemma same_shape_cases [consumes 1, case_names pair op plain]:
  assumes "same_shape v w"
  obtains k a b a' b' where "v = QueryOperatorPair k a b" "w = QueryOperatorPair k a' b'" "same_shape a a'" "same_shape b b'"
  | k i x y where "v = QueryOperator k x i" "w = QueryOperator k y i"
  | "no_operator v" "no_operator w"
  using assms by (cases v; cases w) auto

lemma same_shape_condition: "same_shape v w \<Longrightarrow> getSingleCondition c v = getSingleCondition c w"
proof (induction v arbitrary: w)
  case (QueryOperatorPair k a b)
  from QueryOperatorPair.prems show ?case
    by (cases rule: same_shape_cases) (auto simp: QueryOperatorPair.IH[symmetric])
qed (erule same_shape_cases; auto simp: no_operator_simps)+

lemma same_shape_getter: "same_shape v w \<Longrightarrow> valueGetterSingle g p v f = valueGetterSingle g p w f"
proof (induction v arbitrary: w g)
  case (QueryOperatorPair k a b)
  from QueryOperatorPair.prems show ?case
    by (cases rule: same_shape_cases) (auto simp: QueryOperatorPair.IH[symmetric])
qed (erule same_shape_cases; auto simp: no_operator_simps)+

text \<open>The operators of a value are read off the front of a key in one way.\<close>

definition no_op_first :: "key_part list \<Rightarrow> bool" where
  "no_op_first r \<longleftrightarrow> (\<forall>x \<in> set operator_keys. r = [] \<or> hd r \<noteq> KText x)"

lemma no_op_first_simps [simp]:
  "no_op_first []"
  "no_op_first (KText x # r) \<longleftrightarrow> x \<notin> set operator_keys"
  by (auto simp: no_op_first_def)

lemma operator_parts [simp]: "''AND'' \<in> set operator_keys" "''|/|'' \<notin> set operator_keys"
  by (simp_all add: operator_keys_def)

lemma yieldOperators_unique:
  "q_value v \<Longrightarrow> q_value w \<Longrightarrow> yieldOperators v @ r = yieldOperators w @ s \<Longrightarrow> no_op_first r \<Longrightarrow> no_op_first s \<Longrightarrow>
   same_shape v w \<and> r = s"
proof (induction v arbitrary: w r s)
  case (QueryOperatorPair k a b)
  show ?case
  proof (cases w)
    case (QueryOperatorPair k' a' b')
    then have "yieldOperators a @ KText ''|/|'' # yieldOperators b @ r = yieldOperators a' @ KText ''|/|'' # yieldOperators b' @ s"
      using QueryOperatorPair.prems by simp
    with QueryOperatorPair.IH(1)[of a' "KText ''|/|'' # yieldOperators b @ r" "KText ''|/|'' # yieldOperators b' @ s"]
    have "same_shape a a'" "yieldOperators b @ r = yieldOperators b' @ s"
      using QueryOperatorPair.prems QueryOperatorPair by auto
    with QueryOperatorPair.IH(2)[of b' r s] show ?thesis using QueryOperatorPair.prems QueryOperatorPair by auto
  qed (use QueryOperatorPair.prems in auto)
next
  case (QueryOperator k x i)
  show ?case
  proof (cases w)
    case (QueryOperator k' x' i')
    then show ?thesis using QueryOperator.prems by auto
  qed (use QueryOperator.prems in auto)
qed (use operator_parts in \<open>case_tac w; auto\<close>)+


text \<open>What follows the properties of a document starts with a separator.\<close>

definition sep_first :: "key_part list \<Rightarrow> bool" where
  "sep_first r \<longleftrightarrow> r = [] \<or> (\<exists>x \<in> set separators. hd r = KText x)"

lemma sep_first_simps [simp]:
  "sep_first []"
  "sep_first (KText x # r) \<longleftrightarrow> x \<in> set separators"
  by (auto simp: sep_first_def)

lemma separators_not_operators: "x \<in> set separators \<Longrightarrow> x \<notin> set operator_keys"
  by (auto simp: separators_def operator_keys_def)

lemma sep_first_no_op: "sep_first r \<Longrightarrow> no_op_first r"
  by (cases r) (auto simp: sep_first_def no_op_first_def dest: separators_not_operators)

definition names_ok :: "string list \<Rightarrow> 'v doc \<Rightarrow> bool" where
  "names_ok ks d \<longleftrightarrow> (\<forall>k \<in> set ks. plain_name k \<and> q_value (doc_get d k))"

lemma names_ok_Cons [simp]: "names_ok (k # ks) d \<longleftrightarrow> plain_name k \<and> q_value (doc_get d k) \<and> names_ok ks d"
  by (auto simp: names_ok_def)

lemma yieldKeyAndOperators_simps [simp]:
  "yieldKeyAndOperators [] d = []"
  "yieldKeyAndOperators (k # ks) d = KText k # yieldOperators (doc_get d k) @ yieldKeyAndOperators ks d"
  by (simp_all add: yieldKeyAndOperators_def)

lemma keys_no_op: "names_ok ks d \<Longrightarrow> sep_first r \<Longrightarrow> no_op_first (yieldKeyAndOperators ks d @ r)"
  by (cases ks) (auto simp: sep_first_no_op plain_name_def)

lemma document_parts_unique:
  "names_ok ks d \<Longrightarrow> names_ok ks' d' \<Longrightarrow> sep_first r \<Longrightarrow> sep_first r' \<Longrightarrow>
   yieldKeyAndOperators ks d @ r = yieldKeyAndOperators ks' d' @ r' \<Longrightarrow>
   ks = ks' \<and> (\<forall>k \<in> set ks. same_shape (doc_get d k) (doc_get d' k)) \<and> r = r'"
proof (induction ks arbitrary: ks')
  case Nil
  then show ?case by (cases ks') (auto simp: plain_name_def)
next
  case (Cons k ks)
  then obtain k' ls where ks': "ks' = k' # ls" by (cases ks') (auto simp: plain_name_def)
  then have "k = k'" "yieldOperators (doc_get d k) @ yieldKeyAndOperators ks d @ r = yieldOperators (doc_get d' k) @ yieldKeyAndOperators ls d' @ r'"
    using Cons.prems(5) by auto
  with yieldOperators_unique[OF _ _ this(2)] keys_no_op[of ks d r] keys_no_op[of ls d' r'] Cons ks'
  show ?case by auto
qed

lemma field_parts_unique:
  "\<forall>f \<in> set fs. plain_name f \<Longrightarrow> \<forall>f \<in> set fs'. plain_name f \<Longrightarrow> sep_first r \<Longrightarrow> sep_first r' \<Longrightarrow>
   map KText fs @ r = map KText fs' @ r' \<Longrightarrow> fs = fs' \<and> r = r'"
proof (induction fs arbitrary: fs')
  case Nil then show ?case by (cases fs') (auto simp: plain_name_def)
next
  case (Cons f fs)
  have "fs' \<noteq> []"
  proof
    assume "fs' = []"
    then have "r' = KText f # map KText fs @ r" using Cons.prems(5) by simp
    then show False using Cons.prems(1,4) by (simp add: plain_name_def)
  qed
  then obtain f' gs where fs': "fs' = f' # gs" by (cases fs') auto
  with Cons.prems(5) have "f = f'" "map KText fs @ r = map KText gs @ r'" by auto
  with Cons.IH[of gs] Cons.prems(1-4) fs' show ?case by simp
qed

text \<open>What a SELECT takes from \<open>docInfo\<close>: the fields, whether there is a limit, and the order.\<close>

definition fields_of :: "'v doc_info option \<Rightarrow> string list" where
  "fields_of di = (case Option.bind di di_fields of None \<Rightarrow> [] | Some fs \<Rightarrow> fs)"

definition limit_of :: "'v doc_info option \<Rightarrow> 'v option" where
  "limit_of di = Option.bind di di_limit"

definition order_of :: "'v doc_info option \<Rightarrow> (string \<times> string) list option" where
  "order_of di = Option.bind di di_orderBy"

lemma order_parts_unique:
  "concat (map (\<lambda>(k, v). [KText k, KText v]) os) = concat (map (\<lambda>(k, v). [KText k, KText v]) os') \<Longrightarrow> os = os'"
proof (induction os arbitrary: os')
  case Nil then show ?case by (cases os') auto
next
  case (Cons x os) then show ?case by (cases os') (auto simp: case_prod_beta prod_eq_iff)
qed

definition select_tail :: "bool \<Rightarrow> (string \<times> string) list option \<Rightarrow> key_part list" where
  "select_tail limited z = (if limited then [KText ''|l|''] else []) @
     (case z of None \<Rightarrow> [] | Some os \<Rightarrow> KText ''|o|'' # concat (map (\<lambda>(k, v). [KText k, KText v]) os))"

lemma getSelectDocInfo_parts:
  "getSelectDocInfo di = (if fields_of di = [] then [] else KText ''|f|'' # map KText (fields_of di)) @
     select_tail (limit_of di \<noteq> None) (order_of di)"
  by (auto simp: getSelectDocInfo_def fields_of_def limit_of_def order_of_def yieldFields_def select_tail_def split: option.splits)

lemma separator_members [simp]: "''|f|'' \<in> set separators" "''|l|'' \<in> set separators" "''|o|'' \<in> set separators"
  by (simp_all add: separators_def)

lemma select_tail_facts:
  "sep_first (select_tail l z)"
  "select_tail l z \<noteq> KText ''|f|'' # r"
  "select_tail l z = select_tail l' z' \<Longrightarrow> l = l' \<and> z = z'"
  by (auto simp: select_tail_def split: if_splits option.splits dest: order_parts_unique)

lemma select_info_unique:
  assumes "getSelectDocInfo di = getSelectDocInfo di'" "\<forall>f \<in> set (fields_of di). plain_name f" "\<forall>f \<in> set (fields_of di'). plain_name f"
  shows "fields_of di = fields_of di' \<and> (limit_of di = None \<longleftrightarrow> limit_of di' = None) \<and> order_of di = order_of di'"
proof -
  have eq: "(if fields_of di = [] then [] else KText ''|f|'' # map KText (fields_of di)) @ select_tail (limit_of di \<noteq> None) (order_of di) =
      (if fields_of di' = [] then [] else KText ''|f|'' # map KText (fields_of di')) @ select_tail (limit_of di' \<noteq> None) (order_of di')"
    using assms(1) unfolding getSelectDocInfo_parts .
  have "fields_of di = fields_of di' \<and> select_tail (limit_of di \<noteq> None) (order_of di) = select_tail (limit_of di' \<noteq> None) (order_of di')"
  proof (cases "fields_of di = [] \<or> fields_of di' = []")
    case True
    then show ?thesis using eq select_tail_facts(2) select_tail_facts(2)[symmetric] by (auto split: if_splits)
  next
    case False
    then show ?thesis using eq field_parts_unique[OF assms(2,3) select_tail_facts(1) select_tail_facts(1)] by auto
  qed
  then show ?thesis using select_tail_facts(3) by blast
qed

text \<open>The statement of a SELECT on a table, as the handler builds it: the text and the script.\<close>

definition select_statement :: "'v mapping_info \<Rightarrow> string \<Rightarrow> string \<Rightarrow> string list \<Rightarrow> 'v doc \<Rightarrow> 'v doc_info option \<Rightarrow> (string \<times> params_getter) result" where
  "select_statement mi keyspace tableName docKeys doc di =
     bind_result (adaptOrderBy di mi) (\<lambda>orderBy.
       let ps = getPropertiesInfo docKeys None doc mi; fs = getPropertiesInfo [] di doc mi
       in Inr (getSelect tableName keyspace ps fs orderBy (Option.bind di di_limit), selectParamsGetter ps (Option.bind di di_limit)))"

lemma select_key_parts:
  assumes "getSelectKey ks d di = getSelectKey ks' d' di'"
    and "names_ok ks d" "names_ok ks' d'" "\<forall>f \<in> set (fields_of di). plain_name f" "\<forall>f \<in> set (fields_of di'). plain_name f"
  shows "ks = ks'" "\<forall>k \<in> set ks. same_shape (doc_get d k) (doc_get d' k)" "fields_of di = fields_of di'"
    "limit_of di = None \<longleftrightarrow> limit_of di' = None" "order_of di = order_of di'"
proof -
  have sep: "sep_first (getSelectDocInfo e)" for e :: "'a doc_info option"
    unfolding getSelectDocInfo_parts by (simp add: select_tail_facts(1))
  have sep': "sep_first (getSelectDocInfo e)" for e :: "'b doc_info option"
    unfolding getSelectDocInfo_parts by (simp add: select_tail_facts(1))
  note parts = document_parts_unique[OF assms(2,3) sep sep' assms(1)[unfolded getSelectKey_def]]
  then show "ks = ks'" "\<forall>k \<in> set ks. same_shape (doc_get d k) (doc_get d' k)" by simp_all
  from parts have "getSelectDocInfo di = getSelectDocInfo di'" by simp
  from select_info_unique[OF this assms(4,5)]
  show "fields_of di = fields_of di'" "limit_of di = None \<longleftrightarrow> limit_of di' = None" "order_of di = order_of di'" by simp_all
qed

lemma select_statement_same:
  assumes "getSelectKey ks d di = getSelectKey ks' d' di'"
    and "names_ok ks d" "names_ok ks' d'" "\<forall>f \<in> set (fields_of di). plain_name f" "\<forall>f \<in> set (fields_of di'). plain_name f"
  shows "select_statement mi keyspace tableName ks d di = select_statement mi keyspace tableName ks' d' di'"
proof -
  note ks = select_key_parts(1,2)[OF assms] and fl = select_key_parts(3)[OF assms]
  have di: "Option.bind di di_limit = None \<longleftrightarrow> Option.bind di' di_limit = None" "Option.bind di di_orderBy = Option.bind di' di_orderBy"
    using select_key_parts(4,5)[OF assms] by (simp_all add: limit_of_def order_of_def)
  have order: "adaptOrderBy di mi = adaptOrderBy di' mi" using di(2) by (simp add: adaptOrderBy_def)
  have cols: "map columnName (getPropertiesInfo [] e f mi) = map (getColumnName mi) (fields_of e)" for e f
    by (auto simp: getPropertiesInfo_def fields_of_def Let_def split: option.splits)
  have fs: "map (\<lambda>p. quoted (columnName p)) (getPropertiesInfo [] di d mi) = map (\<lambda>p. quoted (columnName p)) (getPropertiesInfo [] di' d' mi)"
    using cols[of di d] cols[of di' d'] fl by (metis (mono_tags, lifting) list.map_comp comp_def map_eq_conv)
  have fs_nil: "getPropertiesInfo [] di d mi = [] \<longleftrightarrow> getPropertiesInfo [] di' d' mi = []" using fs by (metis map_is_Nil_conv)
  have cond: "getConditionWithOperators (getPropertiesInfo ks None d mi) = getConditionWithOperators (getPropertiesInfo ks None d' mi)"
    using ks(2) by (auto simp: getConditionWithOperators_def getPropertiesInfo_def comp_def same_shape_condition intro!: arg_cong[of _ _ "join_str _"])
  have getters: "valueGetterExpression (getPropertiesInfo ks None d mi) GDoc = valueGetterExpression (getPropertiesInfo ks None d' mi) GDoc"
    using ks(2) by (auto simp: valueGetterExpression_def getPropertiesInfo_def comp_def same_shape_getter intro!: arg_cong[of _ _ concat])
  have nil: "getPropertiesInfo ks None e mi = [] \<longleftrightarrow> ks = []" for e :: "'a doc" by (simp add: getPropertiesInfo_def)
  show ?thesis
    using order fs fs_nil cond getters nil di(1)
    by (cases "adaptOrderBy di' mi") (auto simp: select_statement_def ks(1)[symmetric] getSelect_def selectParamsGetter_def Let_def)
qed




section \<open>Keys that collide\<close>

text \<open>
  The key of an UPDATE of three properties is the key of an UPDATE of two of them with a condition on the third,
  although the statements differ; so is that of a DELETE.
\<close>

definition when_info :: "int doc_info option" where
  "when_info = Some (no_doc_info\<lparr>di_when := Some [(''state'', QPlain 1)]\<rparr>)"

lemma update_key_collision:
  "getUpdateKey [''id'', ''name'', ''state''] [(''id'', QPlain 1), (''name'', QPlain 2), (''state'', QPlain (3 :: int))] None =
   getUpdateKey [''id'', ''name''] [(''id'', QPlain 1), (''name'', QPlain 2)] when_info"
  by code_simp

lemma remove_key_collision:
  "getRemoveKey [''id'', ''state''] [(''id'', QPlain 1), (''state'', QPlain (3 :: int))] None = getRemoveKey [''id''] [(''id'', QPlain 1)] when_info"
  by code_simp

text \<open>An UPDATE without assignments has the key of the DELETE of the same document.\<close>

lemma update_key_is_remove_key:
  assumes "\<forall>k \<in> set ks. \<not> is_assignment (doc_get d k)"
  shows "getUpdateKey ks d None = getRemoveKey ks d None"
proof -
  have "\<not> is_assignment v \<Longrightarrow> yieldQs v = yieldOperators v" for v :: "'a qval" by (cases v) auto
  then show ?thesis using assms by (simp add: getUpdateKey_def getRemoveKey_def yieldKeyAndAllQs_def yieldKeyAndOperators_def cong: map_cong)
qed

text \<open>The keys have at least one part, for a document with at least one property.\<close>

lemma keys_not_Nil:
  "ks \<noteq> [] \<Longrightarrow> getSelectKey ks d di \<noteq> []"
  "getSelectAllKey di \<noteq> []"
  "ks \<noteq> [] \<Longrightarrow> getInsertKey ks di \<noteq> []"
  "ks \<noteq> [] \<Longrightarrow> getUpdateKey ks d di \<noteq> []"
  "ks \<noteq> [] \<Longrightarrow> getRemoveKey ks d di \<noteq> []"
  by (auto simp: key_defs)

end
