(* ===== verification/Mapping_Selector.thy ===== *)
theory Mapping_Selector
  imports Mapping_Cache
begin

text \<open>
  The choice of the tables and views of a statement (\<^verbatim>\<open>src/lib/mapping/object-selector.js\<close>). The metadata of the
  model's tables is an argument: \<open>None\<close> for a table the cluster does not have.
\<close>

section \<open>Keys among the properties\<close>

datatype key_match = MatchAll | MatchNone | MatchSome

definition contains_key :: "column list \<Rightarrow> 'v prop_info \<Rightarrow> bool" where
  "contains_key ks p \<longleftrightarrow> filter (\<lambda>k. columnName p = col_name k) ks \<noteq> []"

definition keysAreIncluded :: "column list \<Rightarrow> 'v prop_info list \<Rightarrow> key_match" where
  "keysAreIncluded ks ps =
     (if ks = [] then MatchAll
      else let matches = foldl (\<lambda>acc p. acc + (if contains_key ks p then 1 else 0)) 0 ps
           in if matches = (0 :: nat) then MatchNone else if matches = length ks then MatchAll else MatchSome)"

definition staticColumnCount :: "table_meta \<Rightarrow> nat" where
  "staticColumnCount t = foldl (\<lambda>acc c. acc + (if isStatic c then 1 else 0)) 0 (tcolumns t)"

definition hasStaticColumn :: "table_meta \<Rightarrow> bool" where
  "hasStaticColumn t \<longleftrightarrow> staticColumnCount t > 0"

section \<open>Selection\<close>

text \<open>The ORDER BY columns are the first clustering keys, in their order.\<close>

definition order_matches :: "table_meta \<Rightarrow> (string \<times> string) list \<Rightarrow> bool" where
  "order_matches t orderBy \<longleftrightarrow>
     (\<forall>i < length orderBy. i < length (clusteringKeys t) \<and> col_name (clusteringKeys t ! i) = fst (orderBy ! i))"

definition select_matches :: "bool \<Rightarrow> 'v prop_info list \<Rightarrow> 'v prop_info list \<Rightarrow> (string \<times> string) list \<Rightarrow> table_meta \<Rightarrow> bool" where
  "select_matches allPKsDefined ps fs orderBy t \<longleftrightarrow>
     keysAreIncluded (partitionKeys t) ps = MatchAll \<and>
     (allPKsDefined \<longrightarrow> keysAreIncluded (clusteringKeys t) ps = MatchAll) \<and>
     (length ps > length (partitionKeys t) \<longrightarrow>
        (\<forall>p \<in> set ps. contains_key (partitionKeys t) p \<or> contains_key (clusteringKeys t) p)) \<and>
     (\<forall>p \<in> set fs. in_table t p) \<and> order_matches t orderBy"

text \<open>The loop stops at the first table that matches, or at one that could not be retrieved.\<close>

fun getForSelect :: "table_meta option list \<Rightarrow> bool \<Rightarrow> 'v prop_info list \<Rightarrow> 'v prop_info list \<Rightarrow> (string \<times> string) list \<Rightarrow> string result" where
  "getForSelect [] allPKsDefined ps fs orderBy = Inl PlainError"
| "getForSelect (None # ts) allPKsDefined ps fs orderBy = Inl PlainError"
| "getForSelect (Some t # ts) allPKsDefined ps fs orderBy =
     (if select_matches allPKsDefined ps fs orderBy t then Inr (tname t) else getForSelect ts allPKsDefined ps fs orderBy)"

definition getForSelectAll :: "'v mapping_info \<Rightarrow> string" where
  "getForSelectAll mi = mt_name (hd (mi_tables mi))"

text \<open>The filter of the mutations visits every table and raises on one that is missing.\<close>

definition filter_tables :: "(table_meta \<Rightarrow> bool) \<Rightarrow> table_meta option list \<Rightarrow> table_meta list result" where
  "filter_tables P ts =
     (if None \<in> set ts then Inl PlainError
      else let r = filter P (map the ts) in if r = [] then Inl PlainError else Inr r)"

definition insert_matches :: "'v prop_info list \<Rightarrow> table_meta \<Rightarrow> bool" where
  "insert_matches ps t \<longleftrightarrow> keysAreIncluded (partitionKeys t) ps = MatchAll \<and>
     (case keysAreIncluded (clusteringKeys t) ps of
        MatchAll \<Rightarrow> True
      | MatchSome \<Rightarrow> False
      | MatchNone \<Rightarrow> length ps = length (partitionKeys t) + staticColumnCount t \<and> staticColumnCount t > 0)"

definition getForInsert :: "table_meta option list \<Rightarrow> 'v prop_info list \<Rightarrow> table_meta list result" where
  "getForInsert ts ps = filter_tables (insert_matches ps) ts"

definition applicableColumns :: "table_meta \<Rightarrow> 'v prop_info list \<Rightarrow> nat" where
  "applicableColumns t ps = foldl (\<lambda>acc p. acc + (if in_table t p then 1 else 0)) 0 ps"

definition update_matches :: "'v prop_info list \<Rightarrow> 'v prop_info list \<Rightarrow> table_meta \<Rightarrow> bool" where
  "update_matches ps whn t \<longleftrightarrow>
     keysAreIncluded (partitionKeys t) ps = MatchAll \<and>
     keysAreIncluded (clusteringKeys t) ps \<noteq> MatchSome \<and>
     \<not> (keysAreIncluded (clusteringKeys t) ps = MatchNone \<and> \<not> hasStaticColumn t) \<and>
     \<not> (applicableColumns t ps \<le> length (partitionKeys t) + length (clusteringKeys t) \<and>
        (\<not> hasStaticColumn t \<or> applicableColumns t ps \<le> length (partitionKeys t))) \<and>
     (\<forall>p \<in> set whn. in_table t p)"

definition getForUpdate :: "table_meta option list \<Rightarrow> 'v prop_info list \<Rightarrow> 'v prop_info list \<Rightarrow> table_meta list result" where
  "getForUpdate ts ps whn = filter_tables (update_matches ps whn) ts"

definition delete_matches :: "'v prop_info list \<Rightarrow> 'v prop_info list \<Rightarrow> table_meta \<Rightarrow> bool" where
  "delete_matches ps whn t \<longleftrightarrow>
     (\<forall>k \<in> set (primaryKeys t). k \<in> set (map columnName ps)) \<and> (\<forall>p \<in> set whn. in_table t p)"

definition getForDelete :: "table_meta option list \<Rightarrow> 'v prop_info list \<Rightarrow> 'v prop_info list \<Rightarrow> table_meta list result" where
  "getForDelete ts ps whn = filter_tables (delete_matches ps whn) ts"

section \<open>What a match of keys means\<close>

lemma foldl_count: "foldl (\<lambda>acc p. acc + (if P p then 1 else 0)) n ps = n + length (filter P ps)" for n :: nat
  by (induction ps arbitrary: n) auto

lemma contains_key_iff: "contains_key ks p \<longleftrightarrow> columnName p \<in> col_name ` set ks"
  by (auto simp: contains_key_def filter_empty_conv)

lemma matches_card:
  assumes "distinct (map columnName ps)"
  shows "length (filter (contains_key ks) ps) = card (columnName ` set ps \<inter> col_name ` set ks)"
proof -
  have d: "distinct (map columnName (filter (contains_key ks) ps))" using assms by (simp add: distinct_map_filter)
  have "length (filter (contains_key ks) ps) = card (set (map columnName (filter (contains_key ks) ps)))"
    using distinct_card[OF d] by simp
  also have "set (map columnName (filter (contains_key ks) ps)) = columnName ` set ps \<inter> col_name ` set ks"
    by (auto simp: contains_key_iff)
  finally show ?thesis .
qed

lemma keysAreIncluded_spec:
  assumes "distinct (map columnName ps)" "distinct (map col_name ks)"
  shows "keysAreIncluded ks ps = MatchAll \<longleftrightarrow> col_name ` set ks \<subseteq> columnName ` set ps"
    and "keysAreIncluded ks ps = MatchNone \<longleftrightarrow> ks \<noteq> [] \<and> col_name ` set ks \<inter> columnName ` set ps = {}"
proof -
  let ?K = "col_name ` set ks" and ?P = "columnName ` set ps"
  have len: "length ks = card ?K" using distinct_card[OF assms(2)] by simp
  have m: "foldl (\<lambda>acc p. acc + (if contains_key ks p then 1 else 0)) 0 ps = card (?P \<inter> ?K)"
    by (simp only: foldl_count matches_card[OF assms(1)] add_0)
  have all: "card (?P \<inter> ?K) = card ?K \<longleftrightarrow> ?K \<subseteq> ?P"
    using card_subset_eq[of ?K "?P \<inter> ?K"] by (auto simp: Int_absorb1)
  have none: "card (?P \<inter> ?K) = 0 \<longleftrightarrow> ?K \<inter> ?P = {}" by (auto simp: card_eq_0_iff)
  have z: "ks \<noteq> [] \<Longrightarrow> card ?K \<noteq> 0" by auto
  show "keysAreIncluded ks ps = MatchAll \<longleftrightarrow> ?K \<subseteq> ?P"
    unfolding keysAreIncluded_def Let_def m using all none len z by (cases "ks = []") auto
  show "keysAreIncluded ks ps = MatchNone \<longleftrightarrow> ks \<noteq> [] \<and> ?K \<inter> ?P = {}"
    unfolding keysAreIncluded_def Let_def m using all none len z by (cases "ks = []") auto
qed

text \<open>A table of the cluster: its columns have different names, and its keys are among them.\<close>

definition table_ok :: "table_meta \<Rightarrow> bool" where
  "table_ok t \<longleftrightarrow> distinct (map col_name (tcolumns t)) \<and> distinct (primaryKeys t) \<and> partitionKeys t \<noteq> [] \<and>
     set (primaryKeys t) \<subseteq> col_name ` set (tcolumns t)"

lemma table_ok_keys: "table_ok t \<Longrightarrow> distinct (map col_name (partitionKeys t)) \<and> distinct (map col_name (clusteringKeys t))"
  by (simp add: table_ok_def primaryKeys_def)

lemma in_table_iff: "in_table t p \<longleftrightarrow> columnName p \<in> col_name ` set (tcolumns t)"
  by (force simp: in_table_def columnsByName_def find_None_iff)

text \<open>
  The table chosen for a SELECT is the first of the model that can answer it: every table before it fails a
  condition, its partition keys (and with \<open>allPKsDefined\<close> its clustering keys) are all among the properties, every
  property is a primary key of it, the fields are columns of it, and the ORDER BY columns are its first clustering
  keys in their order.
\<close>

theorem getForSelect_first_match:
  assumes "getForSelect ts allPKs ps fs orderBy = Inr n" "distinct (map columnName ps)" "\<forall>t. Some t \<in> set ts \<longrightarrow> table_ok t"
  shows "\<exists>pre t post. ts = pre @ Some t # post \<and> tname t = n \<and>
     (\<forall>u \<in> set pre. \<exists>s. u = Some s \<and> \<not> select_matches allPKs ps fs orderBy s) \<and>
     col_name ` set (partitionKeys t) \<subseteq> columnName ` set ps \<and>
     (allPKs \<longrightarrow> col_name ` set (clusteringKeys t) \<subseteq> columnName ` set ps) \<and>
     columnName ` set ps \<subseteq> set (primaryKeys t) \<and>
     columnName ` set fs \<subseteq> col_name ` set (tcolumns t) \<and>
     map fst orderBy = map col_name (take (length orderBy) (clusteringKeys t))"
proof -
  from assms(1) have "\<exists>pre t post. ts = pre @ Some t # post \<and> tname t = n \<and> select_matches allPKs ps fs orderBy t \<and>
     (\<forall>u \<in> set pre. \<exists>s. u = Some s \<and> \<not> select_matches allPKs ps fs orderBy s)"
  proof (induction ts allPKs ps fs orderBy rule: getForSelect.induct)
    case (3 t ts allPKs ps fs orderBy)
    show ?case
    proof (cases "select_matches allPKs ps fs orderBy t")
      case True
      then show ?thesis using 3 by (intro exI[of _ "[]"]) auto
    next
      case False
      then obtain pre t' post where "ts = pre @ Some t' # post" "tname t' = n" "select_matches allPKs ps fs orderBy t'"
        "\<forall>u \<in> set pre. \<exists>s. u = Some s \<and> \<not> select_matches allPKs ps fs orderBy s" using 3 by auto
      then show ?thesis using False by (intro exI[of _ "Some t # pre"]) auto
    qed
  qed auto
  then obtain pre t post where t: "ts = pre @ Some t # post" "tname t = n" "select_matches allPKs ps fs orderBy t"
    "\<forall>u \<in> set pre. \<exists>s. u = Some s \<and> \<not> select_matches allPKs ps fs orderBy s" by blast
  have ok: "table_ok t" using assms(3) t(1) by auto
  note spec = keysAreIncluded_spec(1)[OF assms(2)]
  have pk: "col_name ` set (partitionKeys t) \<subseteq> columnName ` set ps"
    and ck: "allPKs \<longrightarrow> col_name ` set (clusteringKeys t) \<subseteq> columnName ` set ps"
    using t(3) spec table_ok_keys[OF ok] by (auto simp: select_matches_def)
  have cols: "columnName ` set ps \<subseteq> set (primaryKeys t)"
  proof (cases "length ps > length (partitionKeys t)")
    case True
    then show ?thesis using t(3) by (auto simp: select_matches_def contains_key_iff primaryKeys_def)
  next
    case False
    have "card (columnName ` set ps) \<le> card (col_name ` set (partitionKeys t))"
      using False distinct_card[OF assms(2)] distinct_card[OF conjunct1[OF table_ok_keys[OF ok]]] by simp
    then have "columnName ` set ps = col_name ` set (partitionKeys t)" using card_seteq[OF _ pk] by simp
    then show ?thesis by (auto simp: primaryKeys_def)
  qed
  have fields: "columnName ` set fs \<subseteq> col_name ` set (tcolumns t)" using t(3) by (auto simp: select_matches_def in_table_iff)
  have order: "map fst orderBy = map col_name (take (length orderBy) (clusteringKeys t))"
  proof (rule nth_equalityI)
    have o: "order_matches t orderBy" using t(3) by (simp add: select_matches_def)
    then have "length orderBy \<le> length (clusteringKeys t)"
      by (cases "length orderBy") (auto simp: order_matches_def Suc_le_eq)
    then show "length (map fst orderBy) = length (map col_name (take (length orderBy) (clusteringKeys t)))" by simp
    fix i assume "i < length (map fst orderBy)"
    then show "map fst orderBy ! i = map col_name (take (length orderBy) (clusteringKeys t)) ! i"
      using o by (simp add: order_matches_def)
  qed
  show ?thesis using t pk ck cols fields order by blast
qed


definition users_table :: table_meta where
  "users_table = (let c = (\<lambda>n. \<lparr>col_name = n, col_code = dt_int, isStatic = False\<rparr>)
     in \<lparr>tname = ''users'', partitionKeys = [c ''id''], clusteringKeys = [c ''age''], tcolumns = [c ''id'', c ''age'', c ''name'']\<rparr>)"

lemma users_table_ok: "table_ok users_table"
  by (simp add: table_ok_def users_table_def primaryKeys_def Let_def)

theorem getForSelect_first_match_witness:
  "getForSelect [Some users_table] True example_props [] [(''age'', ''DESC'')] = Inr ''users'' \<and>
   (\<exists>t. tname t = ''users'' \<and> columnName ` set example_props \<subseteq> set (primaryKeys t))"
proof
  show ok: "getForSelect [Some users_table] True example_props [] [(''age'', ''DESC'')] = Inr ''users''" by code_simp
  have "distinct (map columnName example_props)" by (simp add: example_props_def example_doc_def)
  from getForSelect_first_match[OF ok this] show "\<exists>t. tname t = ''users'' \<and> columnName ` set example_props \<subseteq> set (primaryKeys t)"
    using users_table_ok by auto
qed

section \<open>Updates set a column\<close>

lemma filter_tables_selected: "filter_tables P ts = Inr r \<Longrightarrow> t \<in> set r \<Longrightarrow> P t \<and> Some t \<in> set ts"
  by (auto simp: filter_tables_def Let_def split: if_splits) (metis option.collapse)

lemma update_selects_columns:
  assumes "update_matches ps whn t" "table_ok t" "\<not> hasStaticColumn t" "distinct (map columnName ps)"
  shows "(\<exists>p \<in> set (filter (in_table t) ps). is_key (primaryKeys t) p) \<and> (\<exists>p \<in> set (filter (in_table t) ps). \<not> is_key (primaryKeys t) p)"
proof
  have pk: "col_name ` set (partitionKeys t) \<subseteq> columnName ` set ps"
    using assms(1) keysAreIncluded_spec(1)[OF assms(4)] table_ok_keys[OF assms(2)] by (simp add: update_matches_def)
  obtain k where k: "k \<in> set (partitionKeys t)" using assms(2) by (cases "partitionKeys t") (auto simp: table_ok_def)
  with pk obtain p where "p \<in> set ps" "columnName p = col_name k" by (force)
  moreover have "col_name k \<in> set (primaryKeys t)" using k by (simp add: primaryKeys_def)
  ultimately show "\<exists>p \<in> set (filter (in_table t) ps). is_key (primaryKeys t) p"
    using assms(2) by (force simp: in_table_iff is_key_def table_ok_def)
  show "\<exists>p \<in> set (filter (in_table t) ps). \<not> is_key (primaryKeys t) p"
  proof (rule ccontr)
    assume "\<not> (\<exists>p \<in> set (filter (in_table t) ps). \<not> is_key (primaryKeys t) p)"
    then have sub: "columnName ` set (filter (in_table t) ps) \<subseteq> set (primaryKeys t)" by (auto simp: is_key_def)
    have d: "distinct (map columnName (filter (in_table t) ps))" using assms(4) by (simp add: distinct_map_filter)
    have "length (filter (in_table t) ps) = card (columnName ` set (filter (in_table t) ps))" using distinct_card[OF d] by simp
    also have "\<dots> \<le> card (set (primaryKeys t))" by (rule card_mono) (use sub in auto)
    also have "\<dots> \<le> length (partitionKeys t) + length (clusteringKeys t)"
      using card_length[of "primaryKeys t"] by (simp add: primaryKeys_def)
    finally have "applicableColumns t ps \<le> length (partitionKeys t) + length (clusteringKeys t)"
      by (simp only: applicableColumns_def foldl_count add_0)
    then show False using assms(1,3) by (simp add: update_matches_def)
  qed
qed

text \<open>
  C17: On every table the selector chooses for an UPDATE, one without static columns, the statement and its script agree, for
  a document whose columns are distinct, whose keys have no operators and whose conditions have those of the module \<open>q\<close>.
  The text has the table, the placeholder of TTL, the assignments of the other columns, the keys, and \<open>IF EXISTS\<close> or the
  conditions of \<open>when\<close>; the script returns the values bound to these placeholders in the same order. Only with both
  \<open>ifExists\<close> and \<open>when\<close>, which the handler refuses, the text leaves the conditions out while the script returns their
  values as well.
\<close>

theorem update_on_selected_table:
  assumes "getForUpdate ts (getPropertiesInfo docKeys di doc mi) whn = Inr sel" "t \<in> set sel" "table_ok t" "\<not> hasStaticColumn t"
    and "ps = filter (in_table t) (getPropertiesInfo docKeys di doc mi)" "distinct (map columnName (getPropertiesInfo docKeys di doc mi))"
    and "when_made_from (getFromModelFn mi) di whn" "\<forall>p \<in> set ps. is_key (primaryKeys t) p \<longrightarrow> no_operator (pvalue p)"
    and "\<forall>p \<in> set whn. q_made (pvalue p)"
    and "u = getUpdate t keyspace (getPropertiesInfo docKeys di doc mi) di whn ifExists"
    and "ttl_bs = number_bindings ''USING TTL ? '' (Option.bind di di_ttl)" "set_bs = set_bindings (filter (\<lambda>p. \<not> is_key (primaryKeys t) p) ps)"
    and "key_bs = key_bindings (filter (is_key (primaryKeys t)) ps)" "when_bs = condition_bindings whn"
  shows "query u = ''UPDATE '' @ keyspace @ ''.'' @ tname t @ '' '' @ concat (map fst ttl_bs) @ ''SET '' @ join_str '', '' (map fst set_bs) @
           '' WHERE '' @ join_str '' AND '' (map fst key_bs) @
           (if ifExists = TrueFlag then '' IF EXISTS'' else if whn = [] then [] else '' IF '' @ join_str '' AND '' (map fst when_bs)) \<and>
         set_bs \<noteq> [] \<and> key_bs \<noteq> [] \<and>
         run_script (getFromModelFn mi) doc di (paramsGetter u) = bound_values (ttl_bs @ set_bs @ key_bs @ when_bs)"
proof -
  have "update_matches (getPropertiesInfo docKeys di doc mi) whn t"
    using filter_tables_selected[OF assms(1)[unfolded getForUpdate_def] assms(2)] by simp
  from update_selects_columns[OF this assms(3,4,6)] assms(5)
  have e: "\<exists>p \<in> set ps. is_key (primaryKeys t) p" "\<exists>p \<in> set ps. \<not> is_key (primaryKeys t) p" by auto
  then have "set_bs \<noteq> []" "key_bs \<noteq> []"
    by (auto simp: assms(12,13) set_bindings_def key_bindings_def filter_empty_conv)
  moreover have made: "made_from (getFromModelFn mi) doc ps" unfolding assms(5) by (intro made_from_filter getPropertiesInfo_made_from)
  moreover have "query u = getUpdateQuery (tname t) keyspace (primaryKeys t) ps whn ifExists (Option.bind di di_ttl)"
    "paramsGetter u = updateParamsGetter (primaryKeys t) ps whn (Option.bind di di_ttl)"
    by (simp_all add: assms(5,10) getUpdate_def Let_def)
  ultimately show ?thesis
    using update_parameters[OF made assms(7) refl assms(8) e] update_text[OF assms(9)] unfolding assms(11-14) by simp
qed

definition users_doc :: "int doc" where
  "users_doc = [(''id'', QPlain 1), (''age'', QPlain 30), (''name'', QPlain 8)]"

theorem update_on_selected_table_witness:
  "query (getUpdate users_table ''ks'' (getPropertiesInfo [''id'', ''age'', ''name''] None users_doc (createDefault ''users'' (Some ''ks''))) None [] Falsy) =
     ''UPDATE ks.users SET '' @ quoted ''name'' @ '' = ? WHERE '' @ quoted ''id'' @ '' = ? AND '' @ quoted ''age'' @ '' = ?'' \<and>
   run_script (getFromModelFn (createDefault ''users'' (Some ''ks''))) users_doc None
     (paramsGetter (getUpdate users_table ''ks'' (getPropertiesInfo [''id'', ''age'', ''name''] None users_doc (createDefault ''users'' (Some ''ks''))) None [] Falsy)) =
   Inr [QPlain 8, QPlain 1, QPlain 30]"
proof -
  let ?mi = "createDefault ''users'' (Some ''ks'') :: int mapping_info"
  let ?ps = "getPropertiesInfo [''id'', ''age'', ''name''] None users_doc ?mi"
  note defs = getPropertiesInfo_def createDefault_def new_mapping_info_def getColumnName_def getFromModelFn_def doc_get_def users_doc_def
  have sel: "getForUpdate [Some users_table] ?ps [] = Inr [users_table]" by code_simp
  have cols: "filter (in_table users_table) ?ps = ?ps" by (simp add: in_table_iff defs users_table_def Let_def)
  have static: "\<not> hasStaticColumn users_table" by code_simp
  have hyps: "distinct (map columnName ?ps)" "when_made_from (getFromModelFn ?mi) None []"
    "\<forall>p \<in> set (filter (in_table users_table) ?ps). is_key (primaryKeys users_table) p \<longrightarrow> no_operator (pvalue p)"
    unfolding cols by (simp_all add: defs when_made_from_def Let_def)
  have parts: "set_bindings (filter (\<lambda>p. \<not> is_key (primaryKeys users_table) p) (filter (in_table users_table) ?ps)) = [(quoted ''name'' @ '' = ?'', Inr (QPlain 8))]"
    "key_bindings (filter (is_key (primaryKeys users_table)) (filter (in_table users_table) ?ps)) =
      [(quoted ''id'' @ '' = ?'', Inr (QPlain 1)), (quoted ''age'' @ '' = ?'', Inr (QPlain 30))]"
    unfolding cols by (simp_all add: defs is_key_def users_table_def primaryKeys_def Let_def set_bindings_def key_bindings_def setClause_def convert_def)
  have bs: "number_bindings ''USING TTL ? '' (Option.bind (None :: int doc_info option) di_ttl) = []" "condition_bindings ([] :: int prop_info list) = []"
    by (simp_all add: number_bindings_def condition_bindings_def)
  show ?thesis
    using update_on_selected_table[OF sel _ users_table_ok static refl hyps _ refl refl refl refl refl, of "''ks''" Falsy] unfolding parts bs
    by (simp add: bound_values_def users_table_def)
qed

text \<open>
  A table with a static column is chosen for an UPDATE that gives its primary key only: the statement then has an
  empty SET clause.
\<close>

lemma update_without_columns_selected:
  defines "t \<equiv> users_table\<lparr>tcolumns := tcolumns users_table @ [\<lparr>col_name = ''city'', col_code = dt_text, isStatic = True\<rparr>]\<rparr>"
    and "ps \<equiv> map (\<lambda>n. \<lparr>propertyName = n, columnName = n, pvalue = QPlain (1 :: int), fromModel = None\<rparr>) [''id'', ''age'']"
  shows "getForUpdate [Some t] ps [] = Inr [t]" "filter (\<lambda>p. \<not> is_key (primaryKeys t) p) (filter (in_table t) ps) = []"
  unfolding t_def ps_def by code_simp+

end
