(* ===== verification/Mapping_Tree.thy ===== *)
theory Mapping_Tree
  imports Js_Prelude
begin

text \<open>
  The radix tree of \<^verbatim>\<open>src/lib/mapping/tree.js\<close>, in which the mapper keeps its query caches. A key is a
  sequence of parts; a node holds the parts below its parent, a value or \<open>null\<close>, and its edges. The tree
  refines a finite map from keys to values: \<open>getOrCreate\<close> returns the value stored under the key, and stores
  the handler's one when there is none.
\<close>

section \<open>Nodes\<close>

text \<open>A value of \<open>null\<close> is \<open>None\<close>; the handler never returns it.\<close>

datatype ('k, 'v) tnode = Node (key: "'k list") (node_value: "'v option") (edges: "('k, 'v) tnode list")

text \<open>
  The inner loop over the parts of a node at position 1 and above: the index at which the node has to branch
  out, if any, and the parts of the key that are left. The first part was matched by the parent.
\<close>

fun match_parts :: "nat \<Rightarrow> 'k list \<Rightarrow> 'k list \<Rightarrow> nat option \<times> 'k list" where
  "match_parts i [] ks = (None, ks)"
| "match_parts i (x # xs) [] = (Some i, [])"
| "match_parts i (x # xs) (k # ks) = (if x \<noteq> k then (Some i, k # ks) else match_parts (Suc i) xs ks)"

text \<open>
  \<open>_createBranch\<close>: the node keeps the parts before the index, and a new node takes the rest with the value and
  the edges; the flag tells whether an item was added.
\<close>

definition createBranch :: "('k, 'v) tnode \<Rightarrow> nat \<Rightarrow> bool \<Rightarrow> 'v \<Rightarrow> ('k, 'v) tnode \<times> bool" where
  "createBranch n i useNewValue v =
     (Node (take i (key n)) (if useNewValue then Some v else None) [Node (drop i (key n)) (node_value n) (edges n)],
      useNewValue)"

lemma size_edges_less [termination_simp]: "Suc (2 * size_list size (edges n)) < 2 * size (n :: ('k, 'v) tnode)"
  by (cases n) simp

text \<open>
  The walk of \<open>getOrCreate\<close> from a node, with \<open>v\<close> the value the handler would return: the node after the call,
  the result, and whether \<open>_onItemAdded\<close> was called.
\<close>

function (sequential) walk :: "('k, 'v) tnode \<Rightarrow> 'k list \<Rightarrow> 'v \<Rightarrow> ('k, 'v) tnode \<times> 'v option \<times> bool"
  and walk_edges :: "('k, 'v) tnode list \<Rightarrow> 'k \<Rightarrow> 'k list \<Rightarrow> 'v \<Rightarrow> (('k, 'v) tnode list \<times> 'v option \<times> bool) option" where
  "walk n ks v =
     (case match_parts 1 (tl (key n)) ks of
        (Some i, []) \<Rightarrow> (let (n', added) = createBranch n i True v in (n', node_value n', added))
      | (Some i, rest) \<Rightarrow>
          (let (n', added) = createBranch n i False v
           in (Node (key n') (node_value n') (edges n' @ [Node rest (Some v) []]), Some v, True))
      | (None, []) \<Rightarrow>
          (if node_value n = None \<and> edges n \<noteq> [] then (Node (key n) (Some v) (edges n), Some v, False)
           else (n, node_value n, False))
      | (None, k # rest) \<Rightarrow>
          (case walk_edges (edges n) k rest v of
             None \<Rightarrow> (Node (key n) (node_value n) (edges n @ [Node (k # rest) (Some v) []]), Some v, True)
           | Some (es, r, added) \<Rightarrow> (Node (key n) (node_value n) es, r, added)))"
| "walk_edges [] k rest v = None"
| "walk_edges (e # es) k rest v =
     (if key e \<noteq> [] \<and> hd (key e) = k then
        (let (e', r, added) = walk e rest v in Some (e' # es, r, added))
      else case walk_edges es k rest v of None \<Rightarrow> None | Some (es', r, added) \<Rightarrow> Some (e # es', r, added))"
  by pat_completeness auto

termination
proof (relation "measure (\<lambda>x. case x of Inl (n, _, _) \<Rightarrow> 2 * size n | Inr (es, _, _, _) \<Rightarrow> 2 * size_list size es + 1)")
qed (auto simp: size_edges_less)

declare walk.simps [simp del]

text \<open>\<open>Tree\<close>: the root, a node with no parts and no value, and the number of items announced by \<open>add\<close> events.\<close>

record ('k, 'v) tree =
  root :: "('k, 'v) tnode"
  tree_length :: nat

definition new_tree :: "('k, 'v) tree" where
  "new_tree = \<lparr>root = Node [] None [], tree_length = 0\<rparr>"

definition onItemAdded :: "('k, 'v) tree \<Rightarrow> ('k, 'v) tree" where
  "onItemAdded t = t\<lparr>tree_length := tree_length t + 1\<rparr>"

definition getOrCreate :: "('k, 'v) tree \<Rightarrow> 'k list \<Rightarrow> 'v \<Rightarrow> ('k, 'v) tree \<times> 'v option" where
  "getOrCreate t ks v =
     (let (r, x, added) = walk (root t) ks v; t' = t\<lparr>root := r\<rparr>
      in (if added then onItemAdded t' else t', x))"

section \<open>The map a tree stands for\<close>

text \<open>The value below a node under the parts \<open>ks\<close>, which start with the node's own.\<close>

fun strip :: "'k list \<Rightarrow> 'k list \<Rightarrow> 'k list option" where
  "strip [] ks = Some ks"
| "strip (x # xs) [] = None"
| "strip (x # xs) (k # ks) = (if x = k then strip xs ks else None)"

function (sequential) lookup :: "('k, 'v) tnode \<Rightarrow> 'k list \<Rightarrow> 'v option"
  and lookup_edges :: "('k, 'v) tnode list \<Rightarrow> 'k list \<Rightarrow> 'v option" where
  "lookup n ks = (case strip (key n) ks of
       None \<Rightarrow> None
     | Some [] \<Rightarrow> node_value n
     | Some rest \<Rightarrow> lookup_edges (edges n) rest)"
| "lookup_edges [] ks = None"
| "lookup_edges (e # es) ks = (if hd (key e) = hd ks then lookup e ks else lookup_edges es ks)"
  by pat_completeness auto
termination
proof (relation "measure (\<lambda>x. case x of Inl (n, _) \<Rightarrow> 2 * size n | Inr (es, _) \<Rightarrow> 2 * size_list size es + 1)")
qed (auto simp: size_edges_less)

declare lookup.simps [simp del]

text \<open>
  Well-formedness: below the root every node has parts, siblings start with different parts, and a node without
  a value has edges.
\<close>

fun node_ok :: "('k, 'v) tnode \<Rightarrow> bool" where
  "node_ok (Node ks v es) \<longleftrightarrow> ks \<noteq> [] \<and> (v = None \<longrightarrow> es \<noteq> []) \<and> distinct (map (\<lambda>e. hd (key e)) es) \<and> (\<forall>e \<in> set es. node_ok e)"

definition tree_ok :: "('k, 'v) tree \<Rightarrow> bool" where
  "tree_ok t \<longleftrightarrow> key (root t) = [] \<and> distinct (map (\<lambda>e. hd (key e)) (edges (root t))) \<and> (\<forall>e \<in> set (edges (root t)). node_ok e)"

definition tree_map :: "('k, 'v) tree \<Rightarrow> 'k list \<Rightarrow> 'v option" where
  "tree_map t ks = lookup (root t) ks"

lemma node_ok_iff:
  "node_ok n \<longleftrightarrow> key n \<noteq> [] \<and> (node_value n = None \<longrightarrow> edges n \<noteq> []) \<and>
     distinct (map (\<lambda>e. hd (key e)) (edges n)) \<and> (\<forall>e \<in> set (edges n). node_ok e)"
  by (cases n) simp

lemma strip_append [simp]: "strip xs (xs @ ys) = Some ys"
  by (induction xs) auto

lemma strip_Some: "strip xs ks = Some r \<longleftrightarrow> ks = xs @ r"
  by (induction xs ks rule: strip.induct) auto

lemma lookup_hd_differs: "key n \<noteq> [] \<Longrightarrow> ks = [] \<or> hd ks \<noteq> hd (key n) \<Longrightarrow> lookup n ks = None"
  by (cases "key n"; cases ks) (auto simp: lookup.simps)

text \<open>How the inner loop splits the parts of a node and of the key.\<close>

lemma match_parts_None: "match_parts i xs ks = (None, r) \<longleftrightarrow> ks = xs @ r"
  by (induction i xs ks rule: match_parts.induct) auto

lemma match_parts_Some:
  "match_parts i xs ks = (Some j, r) \<Longrightarrow>
     \<exists>n < length xs. j = i + n \<and> ks = take n xs @ r \<and> (r = [] \<or> hd r \<noteq> xs ! n)"
proof (induction i xs ks rule: match_parts.induct)
  case (3 i x xs k ks)
  show ?case
  proof (cases "x = k")
    case True
    with 3 obtain n where "n < length xs" "j = Suc i + n" "ks = take n xs @ r" "r = [] \<or> hd r \<noteq> xs ! n" by auto
    with True show ?thesis by (intro exI[of _ "Suc n"]) auto
  qed (use 3 in auto)
qed auto


section \<open>What a walk does\<close>

text \<open>What a walk relies on: a node that is well formed, except that the root has no parts.\<close>

definition walkable :: "('k, 'v) tnode \<Rightarrow> bool" where
  "walkable n \<longleftrightarrow> (key n \<noteq> [] \<longrightarrow> node_value n = None \<longrightarrow> edges n \<noteq> []) \<and>
     distinct (map (\<lambda>e. hd (key e)) (edges n)) \<and> (\<forall>e \<in> set (edges n). node_ok e)"

lemma node_ok_walkable: "node_ok n \<longleftrightarrow> key n \<noteq> [] \<and> walkable n"
  using node_ok_iff[of n] by (auto simp: walkable_def)

text \<open>What a call stores and returns, for a node or its edges, as a map \<open>m\<close> before and \<open>m'\<close> after.\<close>

definition stored :: "('a \<Rightarrow> 'v option) \<Rightarrow> ('a \<Rightarrow> 'v option) \<Rightarrow> 'a \<Rightarrow> 'v \<Rightarrow> 'v option \<Rightarrow> bool" where
  "stored m m' ks v r \<longleftrightarrow> (case m ks of Some x \<Rightarrow> r = Some x \<and> m' = m | None \<Rightarrow> r = Some v \<and> m' = m(ks \<mapsto> v))"

definition edge_map :: "('k, 'v) tnode list \<Rightarrow> 'k list \<Rightarrow> 'v option" where
  "edge_map es ks = (if ks = [] then None else lookup_edges es ks)"

lemma edge_map_simps [simp]:
  "edge_map [] ks = None"
  "edge_map es [] = None"
  by (simp_all add: edge_map_def)

lemma edge_map_Cons: "key e \<noteq> [] \<Longrightarrow> edge_map (e # es) ks = (if ks \<noteq> [] \<and> hd (key e) = hd ks then lookup e ks else edge_map es ks)"
  by (simp add: edge_map_def)

lemma lookup_edge_map: "lookup n ks = (case strip (key n) ks of None \<Rightarrow> None | Some [] \<Rightarrow> node_value n | Some rest \<Rightarrow> edge_map (edges n) rest)"
  by (subst lookup.simps) (simp add: edge_map_def split: option.splits list.splits)

lemma edge_map_none: "\<forall>e \<in> set es. hd (key e) \<noteq> hd ks \<Longrightarrow> edge_map es ks = None"
  by (induction es) (auto simp: edge_map_def)

lemma edge_map_snoc:
  "\<forall>e \<in> set es. hd (key e) \<noteq> hd (key n) \<Longrightarrow> key n \<noteq> [] \<Longrightarrow>
   edge_map (es @ [n]) ks = (if ks \<noteq> [] \<and> hd ks = hd (key n) then lookup n ks else edge_map es ks)"
  by (induction es) (auto simp: edge_map_def)

lemma lookup_leaf: "lookup (Node ks v []) qs = (if qs = ks then v else None)"
proof (cases "strip ks qs")
  case None
  then have "qs \<noteq> ks" using strip_append[of ks "[]"] by auto
  with None show ?thesis by (simp add: lookup_edge_map)
next
  case (Some r)
  then show ?thesis using strip_Some[of ks qs r] by (cases r) (simp_all add: lookup_edge_map)
qed

text \<open>The branching of a node: its map does not change, apart from the value put at the branch.\<close>

lemma strip_take_drop: "strip xs ks = (case strip (take i xs) ks of None \<Rightarrow> None | Some r \<Rightarrow> strip (drop i xs) r)"
proof (induction i arbitrary: xs ks)
  case (Suc i)
  show ?case
  proof (cases "xs = [] \<or> ks = []")
    case False
    then obtain x xs' k ks' where "xs = x # xs'" "ks = k # ks'" by (auto simp: neq_Nil_conv)
    then show ?thesis using Suc[of xs' ks'] by (simp cong: option.case_cong)
  qed (cases xs; auto)
qed simp

lemma lookup_split:
  assumes "0 < i" "i < length (key n)"
  shows "lookup (Node (take i (key n)) w [Node (drop i (key n)) (node_value n) (edges n)]) qs =
           (if qs = take i (key n) then w else lookup n qs)"
proof (cases "strip (take i (key n)) qs")
  case None
  moreover from this have "qs \<noteq> take i (key n)" using strip_append[of "take i (key n)" "[]"] by auto
  ultimately show ?thesis by (simp add: lookup_edge_map strip_take_drop[of "key n" qs i])
next
  case (Some r)
  then have qs: "qs = take i (key n) @ r" by (simp add: strip_Some)
  have ne: "drop i (key n) \<noteq> []" using assms by simp
  then obtain d ds where d: "drop i (key n) = d # ds" by (cases "drop i (key n)") auto
  show ?thesis
  proof (cases r)
    case Nil
    then show ?thesis using qs Some by (simp add: lookup_edge_map)
  next
    case (Cons a as)
    have "lookup (Node (drop i (key n)) (node_value n) (edges n)) r = lookup n qs"
      using Some by (simp add: lookup_edge_map strip_take_drop[of "key n" qs i] cong: option.case_cong list.case_cong)
    moreover have "\<not> (hd (d # ds) = hd r) \<Longrightarrow> lookup n qs = None"
      using Some d Cons by (simp add: lookup_edge_map strip_take_drop[of "key n" qs i])
    ultimately show ?thesis using Some Cons qs d by (auto simp: lookup_edge_map[of "Node (take i (key n)) w _"] edge_map_Cons)
  qed
qed


text \<open>A new leaf among the edges of a node.\<close>

lemma lookup_new_leaf:
  assumes "\<forall>e \<in> set es. hd (key e) \<noteq> hd r" "r \<noteq> []"
  shows "lookup (Node ks w es) (ks @ r) = None"
    and "lookup (Node ks w (es @ [Node r (Some v) []])) = (lookup (Node ks w es))(ks @ r \<mapsto> v)"
proof -
  show none: "lookup (Node ks w es) (ks @ r) = None"
    using assms edge_map_none[of es r] by (cases r) (auto simp: lookup_edge_map)
  show "lookup (Node ks w (es @ [Node r (Some v) []])) = (lookup (Node ks w es))(ks @ r \<mapsto> v)"
  proof
    fix qs
    show "lookup (Node ks w (es @ [Node r (Some v) []])) qs = ((lookup (Node ks w es))(ks @ r \<mapsto> v)) qs"
    proof (cases "strip ks qs")
      case None
      then have "qs \<noteq> ks @ r" by auto
      with None show ?thesis by (simp add: lookup_edge_map)
    next
      case (Some q)
      have "edge_map (es @ [Node r (Some v) []]) q = (if q = r then Some v else edge_map es q)"
        using assms edge_map_snoc[of es "Node r (Some v) []" q] edge_map_none[of es q]
        by (auto simp: lookup_leaf)
      with Some assms(2) show ?thesis using strip_Some[of ks qs q] by (cases q) (auto simp: lookup_edge_map)
    qed
  qed
qed

text \<open>The cases of a walk, by where it stops: in the parts of a node, at the node, or at its edges.\<close>

lemma walk_branch:
  assumes "match_parts 1 (tl (key n)) ks = (Some i, r)" "walkable n" "walk n ks v = (n', x, b)"
  shows "walkable n' \<and> key n' \<noteq> [] \<and> key n \<noteq> [] \<and> hd (key n') = hd (key n) \<and>
         stored (lookup n) (lookup n') (take 1 (key n) @ ks) v x"
proof -
  from match_parts_Some[OF assms(1)] obtain j where j: "j < length (tl (key n))" "i = 1 + j"
    "ks = take j (tl (key n)) @ r" "r = [] \<or> hd r \<noteq> tl (key n) ! j" by auto
  then obtain p ps where key: "key n = p # ps" by (cases "key n") auto
  have i: "0 < i" "i < length (key n)" using j key by auto
  have ks: "take 1 (key n) @ ks = take i (key n) @ r" using j key by simp
  define low where "low = Node (drop i (key n)) (node_value n) (edges n)"
  have low: "node_ok low" using assms(2) i by (simp add: low_def walkable_def key)
  have none: "lookup n (take i (key n)) = None"
    using i strip_take_drop[of "key n" "take i (key n)" i] strip_append[of "take i (key n)" "[]"]
    by (cases "drop i (key n)") (auto simp: lookup_edge_map)
  show ?thesis
  proof (cases r)
    case Nil
    then have n': "n' = Node (take i (key n)) (Some v) [low]" "x = Some v"
      using assms(1,3) by (auto simp: walk.simps createBranch_def low_def)
    have "lookup n' = (lookup n)(take i (key n) \<mapsto> v)"
      using lookup_split[OF i, of "Some v"] by (simp add: n' low_def fun_eq_iff)
    with none show ?thesis using n' low i key ks Nil by (auto simp: walkable_def stored_def)
  next
    case (Cons k rest)
    then have n': "n' = Node (take i (key n)) None ([low] @ [Node r (Some v) []])" "x = Some v"
      using assms(1,3) by (auto simp: walk.simps createBranch_def low_def)
    have differ: "\<forall>e \<in> set [low]. hd (key e) \<noteq> hd r" "r \<noteq> []"
      using j key Cons by (auto simp: low_def hd_drop_conv_nth)
    have "lookup (Node (take i (key n)) None [low]) = lookup n"
      using lookup_split[OF i, of None] none by (simp add: low_def fun_eq_iff)
    with lookup_new_leaf(1)[OF differ, of "take i (key n)" None] lookup_new_leaf(2)[OF differ, of "take i (key n)" None v]
    have "lookup n (take i (key n) @ r) = None" "lookup n' = (lookup n)(take i (key n) @ r \<mapsto> v)" by (simp_all add: n')
    then show ?thesis using n' low i key ks differ by (auto simp: walkable_def stored_def)
  qed
qed

lemma walk_here:
  assumes "match_parts 1 (tl (key n)) ks = (None, [])" "walkable n" "key n \<noteq> []" "walk n ks v = (n', x, b)"
  shows "walkable n' \<and> key n' = key n \<and> stored (lookup n) (lookup n') (take 1 (key n) @ ks) v x"
proof -
  have ks: "take 1 (key n) @ ks = key n"
    using assms(1,3) by (cases "key n") (auto simp: match_parts_None)
  have here: "lookup n (key n) = node_value n" using strip_append[of "key n" "[]"] by (simp add: lookup_edge_map)
  show ?thesis
  proof (cases "node_value n")
    case None
    then have n': "n' = Node (key n) (Some v) (edges n)" "x = Some v"
      using assms by (auto simp: walk.simps walkable_def)
    have "lookup n' qs = ((lookup n)(key n \<mapsto> v)) qs" for qs
      using strip_Some[of "key n" qs] strip_append[of "key n" "[]"]
      by (auto simp: n' lookup_edge_map split: option.split list.split)
    then show ?thesis using None ks here n' assms(2) by (auto simp: stored_def walkable_def fun_eq_iff)
  next
    case (Some y)
    then have "n' = n" "x = Some y" using assms(1,4) by (auto simp: walk.simps)
    then show ?thesis using Some ks here assms(2) by (auto simp: stored_def)
  qed
qed


lemma walk_edges_none: "walk_edges es k rest v = None \<Longrightarrow> \<forall>e \<in> set es. key e \<noteq> [] \<Longrightarrow> \<forall>e \<in> set es. hd (key e) \<noteq> k"
  by (induction es) (auto split: if_splits option.splits prod.splits)

lemma stored_below:
  assumes "stored (edge_map es) (edge_map es') r v x" "r \<noteq> []"
  shows "stored (lookup (Node ks w es)) (lookup (Node ks w es')) (ks @ r) v x"
proof -
  have below: "lookup (Node ks w fs) (ks @ r) = edge_map fs r" for fs
    using assms(2) by (cases r) (simp_all add: lookup_edge_map)
  have same: "lookup (Node ks w es') = (if edge_map es r = None then (lookup (Node ks w es))(ks @ r \<mapsto> v) else lookup (Node ks w es))"
  proof
    fix qs
    show "lookup (Node ks w es') qs = (if edge_map es r = None then (lookup (Node ks w es))(ks @ r \<mapsto> v) else lookup (Node ks w es)) qs"
    proof (cases "strip ks qs")
      case None
      then have "qs \<noteq> ks @ r" by auto
      with None show ?thesis by (simp add: lookup_edge_map)
    next
      case (Some q)
      then show ?thesis using assms strip_Some[of ks qs q]
        by (cases q) (auto simp: lookup_edge_map stored_def split: option.splits)
    qed
  qed
  show ?thesis using assms(1) below[of es] same by (auto simp: stored_def split: option.splits)
qed

lemma walk_stores:
  fixes n :: "('k, 'v) tnode" and es :: "('k, 'v) tnode list"
  shows "walkable n \<Longrightarrow> walk n ks v = (n', x, b) \<Longrightarrow> key n \<noteq> [] \<or> ks \<noteq> [] \<Longrightarrow>
     walkable n' \<and> (key n = [] \<longleftrightarrow> key n' = []) \<and> take 1 (key n') = take 1 (key n) \<and>
     stored (lookup n) (lookup n') (take 1 (key n) @ ks) v x"
  and "\<forall>e \<in> set es. node_ok e \<Longrightarrow> walk_edges es k rest v = Some (es', x, b) \<Longrightarrow>
     (\<forall>e \<in> set es'. node_ok e) \<and> map (\<lambda>e. hd (key e)) es' = map (\<lambda>e. hd (key e)) es \<and>
     stored (edge_map es) (edge_map es') (k # rest) v x"
proof (induction n ks v and es k rest v arbitrary: n' x b and es' x b rule: walk_walk_edges.induct)
  case (1 n ks v)
  obtain m r where m: "match_parts 1 (tl (key n)) ks = (m, r)" by fastforce
  consider (branch) i where "m = Some i" | (here) "m = None" "r = []" | (below) k rest where "m = None" "r = k # rest"
    by (cases m; cases r) auto
  then show ?case
  proof cases
    case (branch i)
    from walk_branch[OF m[unfolded branch] 1(2,3)] show ?thesis by (cases "key n"; cases "key n'") simp_all
  next
    case here
    then have "key n \<noteq> []" using m 1(4) by (auto simp: match_parts_None)
    from walk_here[OF m[unfolded here] 1(2) this 1(3)] this show ?thesis by simp
  next
    case below
    have ks: "ks = tl (key n) @ k # rest" using m below by (simp add: match_parts_None)
    have full: "take 1 (key n) @ ks = key n @ k # rest" using ks by (cases "key n") auto
    have ok: "\<forall>e \<in> set (edges n). node_ok e" using 1(2) by (simp add: walkable_def)
    show ?thesis
    proof (cases "walk_edges (edges n) k rest v")
      case None
      have "\<forall>e \<in> set (edges n). key e \<noteq> []" using ok by (simp add: node_ok_walkable)
      with walk_edges_none[OF None] have new: "\<forall>e \<in> set (edges n). hd (key e) \<noteq> hd (k # rest)" by simp
      have n': "n' = Node (key n) (node_value n) (edges n @ [Node (k # rest) (Some v) []])" "x = Some v"
        using 1(3) None m below by (auto simp: walk.simps)
      have "stored (lookup n) (lookup n') (key n @ k # rest) v x"
        using lookup_new_leaf(1)[OF new, of "key n" "node_value n"] lookup_new_leaf(2)[OF new, of "key n" "node_value n" v]
        by (simp add: n' stored_def)
      then show ?thesis using n' new ok 1(2) unfolding full by (auto simp: walkable_def)
    next
      case (Some t)
      then obtain es x' b' where t: "walk_edges (edges n) k rest v = Some (es, x', b')" by (cases t) auto
      have n': "n' = Node (key n) (node_value n) es" "x = x'"
        using 1(3) t m below by (auto simp: walk.simps)
      from 1(1)[of m r] m below ok t
      have es: "\<forall>e \<in> set es. node_ok e" "map (\<lambda>e. hd (key e)) es = map (\<lambda>e. hd (key e)) (edges n)"
        "stored (edge_map (edges n)) (edge_map es) (k # rest) v x'" by auto
      have "stored (lookup n) (lookup n') (key n @ k # rest) v x"
        using stored_below[OF es(3), of "key n" "node_value n"] by (simp add: n')
      moreover have "edges n = [] \<longleftrightarrow> es = []" using es(2) by (metis map_is_Nil_conv)
      ultimately show ?thesis using n' es 1(2) unfolding full by (auto simp: walkable_def)
    qed
  qed
next
  case (3 e es k rest v)
  have ok: "key e \<noteq> []" "walkable e" using 3(3) by (auto simp: node_ok_walkable)
  show ?case
  proof (cases "hd (key e) = k")
    case True
    obtain e' y c where w: "walk e rest v = (e', y, c)" by (metis prod_cases3)
    from 3(1)[OF _ ok(2) w] ok True
    have e': "walkable e'" "key e' \<noteq> []" "take 1 (key e') = take 1 (key e)" "stored (lookup e) (lookup e') (k # rest) v y"
      by (cases "key e"; auto)+
    have hd': "hd (key e') = k" using e'(2,3) ok(1) True by (cases "key e"; cases "key e'") auto
    have es': "es' = e' # es" "x = y" using 3(4) w True ok by auto
    have "edge_map (f # es) qs = (if qs \<noteq> [] \<and> k = hd qs then lookup f qs else edge_map es qs)"
      if "key f \<noteq> []" "hd (key f) = k" for f qs using edge_map_Cons[of f es qs] that by simp
    then have "stored (edge_map (e # es)) (edge_map es') (k # rest) v x"
      using e' ok True hd' es' by (auto simp: stored_def fun_eq_iff split: option.splits)
    then show ?thesis using e' es' hd' True 3(3) by (auto simp: node_ok_walkable)
  next
    case False
    then obtain fs where fs: "walk_edges es k rest v = Some (fs, x, b)" "es' = e # fs"
      using 3(4) by (auto split: option.splits)
    from 3(2)[OF _ _ fs(1)] False 3(3)
    have IH: "\<forall>e \<in> set fs. node_ok e" "map (\<lambda>e. hd (key e)) fs = map (\<lambda>e. hd (key e)) es"
      "stored (edge_map es) (edge_map fs) (k # rest) v x" by auto
    have "stored (edge_map (e # es)) (edge_map es') (k # rest) v x"
      using IH(3) False ok(1) by (auto simp: stored_def fs fun_eq_iff edge_map_Cons split: option.splits)
    then show ?thesis using IH fs 3(3) by auto
  qed
qed auto


section \<open>The tree as a keyed store\<close>

lemma tree_ok_walkable: "tree_ok t \<longleftrightarrow> key (root t) = [] \<and> walkable (root t)"
  by (auto simp: tree_ok_def walkable_def)

lemma new_tree_ok: "tree_ok new_tree" "tree_map new_tree ks = None"
  by (simp_all add: tree_ok_def new_tree_def tree_map_def lookup_leaf)

lemma getOrCreate_stored:
  assumes "tree_ok t" "ks \<noteq> []" "getOrCreate t ks v = (t', x)"
  shows "tree_ok t' \<and> stored (tree_map t) (tree_map t') ks v x"
proof -
  obtain r y b where w: "walk (root t) ks v = (r, y, b)" by (metis prod_cases3)
  have t': "root t' = r" "x = y" using assms(3) w by (auto simp: getOrCreate_def Let_def onItemAdded_def split: if_splits)
  have "walkable (root t)" "key (root t) = []" using assms(1) by (simp_all add: tree_ok_walkable)
  then show ?thesis using walk_stores(1)[OF _ w] assms(2) by (simp add: tree_ok_walkable t' tree_map_def[abs_def])
qed

text \<open>What the mapper's handler relies on: the items of its caches live under their keys.\<close>

locale keyed_store =
  fixes store_ok :: "'s \<Rightarrow> bool"
    and store_map :: "'s \<Rightarrow> 'k list \<Rightarrow> 'v option"
    and get_or_create :: "'s \<Rightarrow> 'k list \<Rightarrow> 'v \<Rightarrow> 's \<times> 'v option"
  assumes get_or_create: "store_ok s \<Longrightarrow> ks \<noteq> [] \<Longrightarrow> get_or_create s ks v = (s', x) \<Longrightarrow>
    store_ok s' \<and> stored (store_map s) (store_map s') ks v x"
begin

text \<open>A sequence of calls, each with its key and the handler's value.\<close>

definition calls :: "'s \<Rightarrow> ('k list \<times> 'v) list \<Rightarrow> 's" where
  "calls s cs = foldl (\<lambda>s (ks, v). fst (get_or_create s ks v)) s cs"

lemma call_ok: "store_ok s \<Longrightarrow> ks \<noteq> [] \<Longrightarrow> store_ok (fst (get_or_create s ks v))"
  using get_or_create[of s ks v] by (cases "get_or_create s ks v") auto

lemma call_keeps: "store_ok s \<Longrightarrow> ks \<noteq> [] \<Longrightarrow> store_map s qs = Some x \<Longrightarrow> store_map (fst (get_or_create s ks v)) qs = Some x"
  using get_or_create[of s ks v]
  by (cases "get_or_create s ks v") (auto simp: stored_def split: option.splits)

lemma calls_keep:
  "store_ok s \<Longrightarrow> \<forall>(ks, v) \<in> set cs. ks \<noteq> [] \<Longrightarrow> store_map s qs = Some x \<Longrightarrow>
   store_ok (calls s cs) \<and> store_map (calls s cs) qs = Some x"
proof (induction cs arbitrary: s)
  case (Cons c cs)
  then show ?case using call_ok[of s "fst c" "snd c"] call_keeps[of s "fst c" qs x "snd c"]
    by (auto simp: calls_def case_prod_beta)
qed (simp add: calls_def)

lemma call_returns: "store_ok s \<Longrightarrow> ks \<noteq> [] \<Longrightarrow> snd (get_or_create s ks v) = store_map (fst (get_or_create s ks v)) ks"
  using get_or_create[of s ks v]
  by (cases "get_or_create s ks v") (auto simp: stored_def split: option.splits)

text \<open>The value returned for a key is the one every later call with that key returns.\<close>

theorem same_item_later:
  assumes "store_ok s" "ks \<noteq> []" "\<forall>(qs, w) \<in> set cs. qs \<noteq> []"
  shows "\<exists>x. snd (get_or_create s ks v) = Some x \<and>
             snd (get_or_create (calls (fst (get_or_create s ks v)) cs) ks v') = Some x"
proof -
  obtain s' x where s': "get_or_create s ks v = (s', x)" by fastforce
  from get_or_create[OF assms(1,2) s'] obtain y where y: "x = Some y" "store_map s' ks = Some y" "store_ok s'"
    by (auto simp: stored_def split: option.splits)
  from calls_keep[OF y(3) assms(3) y(2)] have c: "store_ok (calls s' cs)" "store_map (calls s' cs) ks = Some y" by auto
  with call_returns[OF c(1) assms(2), of v'] call_keeps[OF c(1) assms(2) c(2), of v'] y s' show ?thesis by simp
qed

end

interpretation tree_store: keyed_store tree_ok tree_map getOrCreate
  by unfold_locales (rule getOrCreate_stored)

text \<open>
  C3: \<open>getOrCreate\<close> refines a map update: on a well-formed tree and a key with at least one part the tree stays
  well formed; a key that is stored returns its value and changes no entry; any other key returns the handler's
  value, which is then stored under that key and leaves every other entry as it was.
\<close>

theorem tree_refines_map:
  assumes "tree_ok t" "ks \<noteq> []" "getOrCreate t ks v = (t', x)"
  shows "tree_ok t' \<and>
         (case tree_map t ks of
            Some y \<Rightarrow> x = Some y \<and> tree_map t' = tree_map t
          | None \<Rightarrow> x = Some v \<and> tree_map t' = (tree_map t)(ks \<mapsto> v))"
  using getOrCreate_stored[OF assms] by (simp add: stored_def)

definition example_tree :: "(string, nat) tree" where
  "example_tree = fst (getOrCreate (fst (getOrCreate new_tree [''id'', ''name''] 1)) [''id'', ''age''] 2)"

lemma example_tree_ok: "tree_ok example_tree"
  unfolding example_tree_def by (intro tree_store.call_ok new_tree_ok) simp_all

theorem tree_refines_map_witness:
  "tree_ok (fst (getOrCreate example_tree [''id''] 3)) \<and> snd (getOrCreate example_tree [''id''] 3) = Some 3 \<and>
   tree_map (fst (getOrCreate example_tree [''id''] 3)) [''id'', ''name''] = Some 1"
proof -
  have t: "tree_map example_tree [''id''] = None" "tree_map example_tree [''id'', ''name''] = Some 1" by code_simp+
  show ?thesis using tree_refines_map[OF example_tree_ok, of "[''id'']" 3 "fst (getOrCreate example_tree [''id''] 3)" "snd (getOrCreate example_tree [''id''] 3)"]
    by (simp add: t)
qed

text \<open>
  The counter misses items: a value put at a node that was made by a branch is not announced, so the warning
  about the size of a cache comes late.
\<close>

lemma tree_length_misses_items:
  "tree_length (fst (getOrCreate example_tree [''id''] 3)) = 2"
  "tree_map (fst (getOrCreate example_tree [''id''] 3)) [''id''] = Some 3"
  "tree_map (fst (getOrCreate example_tree [''id''] 3)) [''id'', ''name''] = Some 1"
  "tree_map (fst (getOrCreate example_tree [''id''] 3)) [''id'', ''age''] = Some 2"
  by code_simp+

end
