(* ===== verification/Mapping_Handler.thy ===== *)
theory Mapping_Handler
  imports Mapping_Selector Mapping_Tree
begin

text \<open>
  The handler of a model (\<^verbatim>\<open>src/lib/mapping/mapping-handler.js\<close>), the items of a batch
  (\<^verbatim>\<open>model-batch-item.js\<close>, \<^verbatim>\<open>model-batch-mapper.js\<close>), the model mapper (\<^verbatim>\<open>model-mapper.js\<close>) and the mapper
  (\<^verbatim>\<open>mapper.js\<close>).

  A cache is a tree of references to items; an item is created empty and filled when the statement is ready. The
  two halves are separate operations (\<open>cache_start\<close>, \<open>cache_finish\<close>), because the handler waits for the metadata
  of the tables in between and other requests may run. The metadata of the tables is an argument; a call of the
  client is the value it is called with.
\<close>

section \<open>Caches\<close>

record 'e cache =
  c_tree :: "(key_part, nat) tree"
  c_items :: "'e option list"

definition new_cache :: "'e cache" where
  "new_cache = \<lparr>c_tree = new_tree, c_items = []\<rparr>"

text \<open>
  Looking an item up: its reference and its content, \<open>None\<close> for an item that is not filled yet. The handler's
  function makes a new item when the tree calls it, that is when the new reference comes back. A tree that
  returns \<open>null\<close> makes the read of the item raise.
\<close>

definition cache_start :: "'e cache \<Rightarrow> key_part list \<Rightarrow> 'e cache \<times> (nat \<times> 'e option) result" where
  "cache_start c ks =
     (let n = length (c_items c); (t, r) = getOrCreate (c_tree c) ks n
      in case r of
           None \<Rightarrow> (c\<lparr>c_tree := t\<rparr>, Inl TypeError)
         | Some a \<Rightarrow> (let items = (if a = n then c_items c @ [None] else c_items c)
                      in (\<lparr>c_tree = t, c_items = items\<rparr>, Inr (a, items ! a))))"

definition cache_finish :: "'e cache \<Rightarrow> nat \<Rightarrow> 'e \<Rightarrow> 'e cache" where
  "cache_finish c a e = c\<lparr>c_items := (c_items c)[a := Some e]\<rparr>"

text \<open>Both halves with nothing in between: \<open>created\<close> is what the handler makes for an item that is not filled.\<close>

definition cached :: "'e cache \<Rightarrow> key_part list \<Rightarrow> 'e result \<Rightarrow> 'e cache \<times> 'e result" where
  "cached c ks created = (case cache_start c ks of
       (c', Inl err) \<Rightarrow> (c', Inl err)
     | (c', Inr (a, Some e)) \<Rightarrow> (c', Inr e)
     | (c', Inr (a, None)) \<Rightarrow> (case created of Inl err \<Rightarrow> (c', Inl err) | Inr e \<Rightarrow> (cache_finish c' a e, Inr e)))"

section \<open>The handler\<close>

datatype executor =
    SelectExecutor string params_getter
  | SingleExecutor query_info
  | BatchExecutor "query_info list" bool

record 'v handler =
  h_info :: "'v mapping_info"
  h_select :: "executor cache"
  h_selectAll :: "executor cache"
  h_insert :: "executor cache"
  h_update :: "executor cache"
  h_remove :: "executor cache"

definition new_handler :: "'v mapping_info \<Rightarrow> 'v handler" where
  "new_handler mi = \<lparr>h_info = mi, h_select = new_cache, h_selectAll = new_cache, h_insert = new_cache,
     h_update = new_cache, h_remove = new_cache\<rparr>"

text \<open>\<open>Object.keys\<close> of a document, whose properties are distinct.\<close>

definition docKeys :: "'v doc \<Rightarrow> string list" where
  "docKeys doc = map fst doc"

text \<open>The keyspace in a query text; \<open>_create\<close> and \<open>forModel\<close> have checked that there is one.\<close>

definition ks_text :: "'v mapping_info \<Rightarrow> string" where
  "ks_text mi = (case mi_keyspace mi of None \<Rightarrow> ''undefined'' | Some s \<Rightarrow> s)"

subsection \<open>SELECT\<close>

definition create_select :: "'v mapping_info \<Rightarrow> table_meta option list \<Rightarrow> bool \<Rightarrow> 'v doc \<Rightarrow> 'v doc_info option \<Rightarrow> executor result" where
  "create_select mi tables allPKsDefined doc di =
     (let ps = getPropertiesInfo (docKeys doc) None doc mi; fs = getPropertiesInfo [] di doc mi; limit = Option.bind di di_limit
      in bind_result (adaptOrderBy di mi) (\<lambda>orderBy.
         bind_result (getForSelect tables allPKsDefined ps fs orderBy) (\<lambda>tableName.
           Inr (SelectExecutor (getSelect tableName (ks_text mi) ps fs orderBy limit) (selectParamsGetter ps limit)))))"

definition getSelectExecutor :: "'v handler \<Rightarrow> table_meta option list \<Rightarrow> 'v doc \<Rightarrow> 'v doc_info option \<Rightarrow> bool \<Rightarrow> 'v handler \<times> executor result" where
  "getSelectExecutor h tables doc di allPKsDefined =
     (if docKeys doc = [] then (h, Inl PlainError)
      else let (c, r) = cached (h_select h) (getSelectKey (docKeys doc) doc di) (create_select (h_info h) tables allPKsDefined doc di)
           in (h\<lparr>h_select := c\<rparr>, r))"

definition create_selectAll :: "'v mapping_info \<Rightarrow> 'v doc_info option \<Rightarrow> executor result" where
  "create_selectAll mi di =
     (let fs = getPropertiesInfo [] di [] mi; limit = Option.bind di di_limit
      in bind_result (adaptOrderBy di mi) (\<lambda>orderBy.
           Inr (SelectExecutor (getSelect (getForSelectAll mi) (ks_text mi) ([] :: 'v prop_info list) fs orderBy limit)
                  (selectParamsGetter ([] :: 'v prop_info list) limit))))"

definition getSelectAllExecutor :: "'v handler \<Rightarrow> 'v doc_info option \<Rightarrow> 'v handler \<times> executor result" where
  "getSelectAllExecutor h di =
     (let (c, r) = cached (h_selectAll h) (getSelectAllKey di) (create_selectAll (h_info h) di) in (h\<lparr>h_selectAll := c\<rparr>, r))"

subsection \<open>Mutations\<close>

text \<open>The metadata the mutations ask for is that of the tables that are not views.\<close>

definition createInsertQueries :: "'v mapping_info \<Rightarrow> table_meta option list \<Rightarrow> 'v doc \<Rightarrow> 'v doc_info option \<Rightarrow> query_info list result" where
  "createInsertQueries mi tables doc di =
     (let ps = getPropertiesInfo (docKeys doc) di doc mi; ifNotExists = (case di of None \<Rightarrow> Falsy | Some d \<Rightarrow> di_ifNotExists d)
      in bind_result (getForInsert tables ps) (\<lambda>ts.
           if length ts > 1 \<and> ifNotExists \<noteq> Falsy then Inl PlainError
           else Inr (map (\<lambda>t. getInsert t (ks_text mi) ps di ifNotExists) ts)))"

definition when_infos :: "'v mapping_info \<Rightarrow> 'v doc_info option \<Rightarrow> 'v prop_info list" where
  "when_infos mi di = (case Option.bind di di_when of None \<Rightarrow> [] | Some w \<Rightarrow> getPropertiesInfo (map fst w) None w mi)"

definition ifExists_of :: "'v doc_info option \<Rightarrow> flag" where
  "ifExists_of di = (case di of None \<Rightarrow> Falsy | Some d \<Rightarrow> di_ifExists d)"

definition createUpdateQueries :: "'v mapping_info \<Rightarrow> table_meta option list \<Rightarrow> 'v doc \<Rightarrow> 'v doc_info option \<Rightarrow> query_info list result" where
  "createUpdateQueries mi tables doc di =
     (let ps = getPropertiesInfo (docKeys doc) di doc mi; whn = when_infos mi di; ifExists = ifExists_of di
      in if whn \<noteq> [] \<and> ifExists \<noteq> Falsy then Inl PlainError
         else bind_result (getForUpdate tables ps whn) (\<lambda>ts.
           if length ts > 1 \<and> (whn \<noteq> [] \<or> ifExists \<noteq> Falsy) then Inl PlainError
           else Inr (map (\<lambda>t. getUpdate t (ks_text mi) ps di whn ifExists) ts)))"

definition createDeleteQueries :: "'v mapping_info \<Rightarrow> table_meta option list \<Rightarrow> 'v doc \<Rightarrow> 'v doc_info option \<Rightarrow> query_info list result" where
  "createDeleteQueries mi tables doc di =
     (let ps = getPropertiesInfo (docKeys doc) di doc mi; whn = when_infos mi di; ifExists = ifExists_of di
      in if whn \<noteq> [] \<and> ifExists \<noteq> Falsy then Inl PlainError
         else bind_result (getForDelete tables ps whn) (\<lambda>ts.
           if length ts > 1 \<and> (whn \<noteq> [] \<or> ifExists \<noteq> Falsy) then Inl PlainError
           else Inr (map (\<lambda>t. getDelete t (ks_text mi) ps di whn ifExists) ts)))"

text \<open>\<open>_setSingleExecutor\<close> and \<open>_setBatchExecutor\<close>.\<close>

definition executor_of :: "query_info list \<Rightarrow> executor" where
  "executor_of qs = (case qs of [q] \<Rightarrow> SingleExecutor q | _ \<Rightarrow> BatchExecutor qs (foldl (\<lambda>acc q. acc \<and> isIdempotent q) True qs))"

definition getInsertExecutor :: "'v handler \<Rightarrow> table_meta option list \<Rightarrow> 'v doc \<Rightarrow> 'v doc_info option \<Rightarrow> 'v handler \<times> executor result" where
  "getInsertExecutor h tables doc di =
     (if docKeys doc = [] then (h, Inl PlainError)
      else let (c, r) = cached (h_insert h) (getInsertKey (docKeys doc) di)
                          (bind_result (createInsertQueries (h_info h) tables doc di) (\<lambda>qs. Inr (executor_of qs)))
           in (h\<lparr>h_insert := c\<rparr>, r))"

definition getUpdateExecutor :: "'v handler \<Rightarrow> table_meta option list \<Rightarrow> 'v doc \<Rightarrow> 'v doc_info option \<Rightarrow> 'v handler \<times> executor result" where
  "getUpdateExecutor h tables doc di =
     (if docKeys doc = [] then (h, Inl PlainError)
      else let (c, r) = cached (h_update h) (getUpdateKey (docKeys doc) doc di)
                          (bind_result (createUpdateQueries (h_info h) tables doc di) (\<lambda>qs. Inr (executor_of qs)))
           in (h\<lparr>h_update := c\<rparr>, r))"

definition getDeleteExecutor :: "'v handler \<Rightarrow> table_meta option list \<Rightarrow> 'v doc \<Rightarrow> 'v doc_info option \<Rightarrow> 'v handler \<times> executor result" where
  "getDeleteExecutor h tables doc di =
     (if docKeys doc = [] then (h, Inl PlainError)
      else let (c, r) = cached (h_remove h) (getRemoveKey (docKeys doc) doc di)
                          (bind_result (createDeleteQueries (h_info h) tables doc di) (\<lambda>qs. Inr (executor_of qs)))
           in (h\<lparr>h_remove := c\<rparr>, r))"

subsection \<open>Execution\<close>

text \<open>The call an executor makes on the client: one statement, or a batch of them.\<close>

datatype 'v client_call =
    ClientExecute string "'v qval list" "'v query_options"
  | ClientBatch "(string \<times> 'v qval list) list" "'v query_options"

definition run_query :: "'v mapping_info \<Rightarrow> 'v doc \<Rightarrow> 'v doc_info option \<Rightarrow> query_info \<Rightarrow> (string \<times> 'v qval list) result" where
  "run_query mi doc di q = bind_result (run_script (getFromModelFn mi) doc di (paramsGetter q)) (\<lambda>ps. Inr (query q, ps))"

fun execute :: "'v mapping_info \<Rightarrow> executor \<Rightarrow> 'v doc \<Rightarrow> 'v doc_info option \<Rightarrow> 'v exec_options \<Rightarrow> 'v client_call result" where
  "execute mi (SelectExecutor q s) doc di eo =
     bind_result (run_script (getFromModelFn mi) doc di s) (\<lambda>ps. Inr (ClientExecute q ps (adaptAllOptions eo True)))"
| "execute mi (SingleExecutor q) doc di eo =
     bind_result (run_query mi doc di q) (\<lambda>(t, ps). Inr (ClientExecute t ps (adaptOptions eo (isIdempotent q))))"
| "execute mi (BatchExecutor qs idem) doc di eo =
     bind_result (map_result (run_query mi doc di) qs) (\<lambda>bs. Inr (ClientBatch bs (adaptOptions eo idem)))"

text \<open>
  The operations of \<open>ModelMapper\<close>: the executor of the request is run on the same document. \<open>get\<close> takes the first
  document of the result.
\<close>

definition mapper_get :: "'v handler \<Rightarrow> table_meta option list \<Rightarrow> 'v doc \<Rightarrow> 'v doc_info option \<Rightarrow> 'v exec_options \<Rightarrow> 'v handler \<times> 'v client_call result" where
  "mapper_get h ts doc di eo = (let (h', r) = getSelectExecutor h ts doc di True in (h', bind_result r (\<lambda>e. execute (h_info h) e doc di eo)))"

definition mapper_find :: "'v handler \<Rightarrow> table_meta option list \<Rightarrow> 'v doc \<Rightarrow> 'v doc_info option \<Rightarrow> 'v exec_options \<Rightarrow> 'v handler \<times> 'v client_call result" where
  "mapper_find h ts doc di eo = (let (h', r) = getSelectExecutor h ts doc di False in (h', bind_result r (\<lambda>e. execute (h_info h) e doc di eo)))"

definition mapper_findAll :: "'v handler \<Rightarrow> 'v doc_info option \<Rightarrow> 'v exec_options \<Rightarrow> 'v handler \<times> 'v client_call result" where
  "mapper_findAll h di eo = (let (h', r) = getSelectAllExecutor h di in (h', bind_result r (\<lambda>e. execute (h_info h) e [] di eo)))"

definition mapper_insert :: "'v handler \<Rightarrow> table_meta option list \<Rightarrow> 'v doc \<Rightarrow> 'v doc_info option \<Rightarrow> 'v exec_options \<Rightarrow> 'v handler \<times> 'v client_call result" where
  "mapper_insert h ts doc di eo = (let (h', r) = getInsertExecutor h ts doc di in (h', bind_result r (\<lambda>e. execute (h_info h) e doc di eo)))"

definition mapper_update :: "'v handler \<Rightarrow> table_meta option list \<Rightarrow> 'v doc \<Rightarrow> 'v doc_info option \<Rightarrow> 'v exec_options \<Rightarrow> 'v handler \<times> 'v client_call result" where
  "mapper_update h ts doc di eo = (let (h', r) = getUpdateExecutor h ts doc di in (h', bind_result r (\<lambda>e. execute (h_info h) e doc di eo)))"

definition mapper_remove :: "'v handler \<Rightarrow> table_meta option list \<Rightarrow> 'v doc \<Rightarrow> 'v doc_info option \<Rightarrow> 'v exec_options \<Rightarrow> 'v handler \<times> 'v client_call result" where
  "mapper_remove h ts doc di eo = (let (h', r) = getDeleteExecutor h ts doc di in (h', bind_result r (\<lambda>e. execute (h_info h) e doc di eo)))"

section \<open>Batches\<close>

text \<open>
  An item of a batch caches the promise of its queries, that is their result with an error too; an exception
  raised before there is a promise leaves the item empty.
\<close>

datatype batch_op = BatchInsert | BatchUpdate | BatchRemove

record batch_mapper =
  bm_insert :: "query_info list result cache"
  bm_update :: "query_info list result cache"
  bm_remove :: "query_info list result cache"

definition new_batch_mapper :: batch_mapper where
  "new_batch_mapper = \<lparr>bm_insert = new_cache, bm_update = new_cache, bm_remove = new_cache\<rparr>"

fun getCacheKey :: "batch_op \<Rightarrow> 'v doc \<Rightarrow> 'v doc_info option \<Rightarrow> key_part list" where
  "getCacheKey BatchInsert doc di = getInsertKey (docKeys doc) di"
| "getCacheKey BatchUpdate doc di = getUpdateKey (docKeys doc) doc di"
| "getCacheKey BatchRemove doc di = getRemoveKey (docKeys doc) doc di"

fun createQueries :: "batch_op \<Rightarrow> 'v mapping_info \<Rightarrow> table_meta option list \<Rightarrow> 'v doc \<Rightarrow> 'v doc_info option \<Rightarrow> query_info list result" where
  "createQueries BatchInsert mi ts doc di = createInsertQueries mi ts doc di"
| "createQueries BatchUpdate mi ts doc di = createUpdateQueries mi ts doc di"
| "createQueries BatchRemove mi ts doc di = createDeleteQueries mi ts doc di"

definition raises_at_once :: "batch_op \<Rightarrow> 'v mapping_info \<Rightarrow> 'v doc_info option \<Rightarrow> bool" where
  "raises_at_once bop mi di \<longleftrightarrow> bop \<noteq> BatchInsert \<and> when_infos mi di \<noteq> [] \<and> ifExists_of di \<noteq> Falsy"

definition batch_queries :: "query_info list result cache \<Rightarrow> batch_op \<Rightarrow> 'v mapping_info \<Rightarrow> table_meta option list \<Rightarrow> 'v doc \<Rightarrow> 'v doc_info option
    \<Rightarrow> query_info list result cache \<times> query_info list result" where
  "batch_queries c bop mi ts doc di =
     (let created = createQueries bop mi ts doc di;
          (c', r) = cached c (getCacheKey bop doc di) (if raises_at_once bop mi di then Inl PlainError else Inr created)
      in (c', bind_result r id))"

text \<open>\<open>getQueries\<close> of an item of the batch mapper: \<open>remove\<close> makes its item with the cache of \<open>update\<close>.\<close>

definition getQueries :: "batch_mapper \<Rightarrow> batch_op \<Rightarrow> 'v mapping_info \<Rightarrow> table_meta option list \<Rightarrow> 'v doc \<Rightarrow> 'v doc_info option \<Rightarrow> batch_mapper \<times> query_info list result" where
  "getQueries bm bop mi ts doc di = (case bop of
       BatchInsert \<Rightarrow> (let (c, r) = batch_queries (bm_insert bm) BatchInsert mi ts doc di in (bm\<lparr>bm_insert := c\<rparr>, r))
     | BatchUpdate \<Rightarrow> (let (c, r) = batch_queries (bm_update bm) BatchUpdate mi ts doc di in (bm\<lparr>bm_update := c\<rparr>, r))
     | BatchRemove \<Rightarrow> (let (c, r) = batch_queries (bm_update bm) BatchRemove mi ts doc di in (bm\<lparr>bm_update := c\<rparr>, r)))"

text \<open>\<open>pushQueries\<close>: the statements in order, whether all are idempotent, and \<open>isCounter\<close> of the last.\<close>

definition pushQueries :: "'v mapping_info \<Rightarrow> 'v doc \<Rightarrow> 'v doc_info option \<Rightarrow> query_info list \<Rightarrow> ((string \<times> 'v qval list) list \<times> bool \<times> bool option) result" where
  "pushQueries mi doc di qs =
     bind_result (map_result (run_query mi doc di) qs) (\<lambda>bs.
       Inr (bs, list_all isIdempotent qs, if qs = [] then None else isCounter (last qs)))"

text \<open>
  \<open>Mapper.batch\<close> over the items of one model: the items ask for their queries in order, and push their statements
  in the order \<open>settle\<close> in which the promises settle.
\<close>

type_synonym 'v batch_item = "batch_op \<times> 'v doc \<times> 'v doc_info option"

fun push_items :: "batch_mapper \<Rightarrow> 'v mapping_info \<Rightarrow> table_meta option list \<Rightarrow> 'v batch_item list
    \<Rightarrow> batch_mapper \<times> ((string \<times> 'v qval list) list \<times> bool \<times> bool option) list result" where
  "push_items bm mi ts [] = (bm, Inr [])"
| "push_items bm mi ts ((bop, doc, di) # is) =
     (let (bm1, r) = getQueries bm bop mi ts doc di; (bm2, rs) = push_items bm1 mi ts is
      in (bm2, bind_result (bind_result r (pushQueries mi doc di)) (\<lambda>x. bind_result rs (\<lambda>xs. Inr (x # xs)))))"

type_synonym 'v pushed = "(string \<times> 'v qval list) list \<times> bool \<times> bool option"

definition mapper_batch :: "('v pushed list \<Rightarrow> 'v pushed list) \<Rightarrow> batch_mapper \<Rightarrow> 'v mapping_info \<Rightarrow> table_meta option list \<Rightarrow> 'v batch_item list
    \<Rightarrow> 'v exec_options \<Rightarrow> batch_mapper \<times> 'v client_call result" where
  "mapper_batch settle bm mi ts items eo =
     (if items = [] then (bm, Inl ArgumentError)
      else let (bm', r) = push_items bm mi ts items
           in (bm', bind_result r (\<lambda>xs.
                Inr (ClientBatch (concat (map fst (settle xs)))
                  (adaptBatchOptions eo (list_all (\<lambda>(_, i, _). i) xs) (snd (snd (last (settle xs)))))))))"

section \<open>Mappers by model\<close>

text \<open>The mapper keeps the parsed infos and the model mappers it has made; \<open>forModel\<close> makes one on the first request.\<close>

record 'v mapper =
  m_keyspace :: "string option"
  m_infos :: "string \<Rightarrow> 'v mapping_info option"
  m_mappers :: "string \<Rightarrow> ('v handler \<times> batch_mapper) option"

definition new_mapper :: "string option \<Rightarrow> (string \<times> 'v model_options option) list option \<Rightarrow> 'v mapper result" where
  "new_mapper ks models = bind_result (parse_models models ks) (\<lambda>is.
     Inr \<lparr>m_keyspace = ks, m_infos = map_of is, m_mappers = (\<lambda>_. None)\<rparr>)"

definition forModel :: "'v mapper \<Rightarrow> string \<Rightarrow> 'v mapper \<times> ('v handler \<times> batch_mapper) result" where
  "forModel m name = (case m_mappers m name of
       Some h \<Rightarrow> (m, Inr h)
     | None \<Rightarrow>
         (case (case m_infos m name of
                  Some mi \<Rightarrow> Inr mi
                | None \<Rightarrow> if \<not> truthy_str (m_keyspace m) then Inl PlainError else Inr (createDefault name (m_keyspace m))) of
            Inl err \<Rightarrow> (m, Inl err)
          | Inr mi \<Rightarrow> (let h = (new_handler mi, new_batch_mapper) in (m\<lparr>m_mappers := (m_mappers m)(name \<mapsto> h)\<rparr>, Inr h))))"


section \<open>What is in a cache\<close>

text \<open>
  The invariant of a cache: the tree is well formed, its references point to items, different keys have different
  items, and \<open>R\<close> holds between a key and the content of its item.
\<close>

definition items_ok :: "(key_part list \<Rightarrow> 'e \<Rightarrow> bool) \<Rightarrow> (key_part list \<Rightarrow> nat option) \<Rightarrow> 'e option list \<Rightarrow> bool" where
  "items_ok R m items \<longleftrightarrow> (\<forall>ks a. m ks = Some a \<longrightarrow> a < length items) \<and>
     (\<forall>ks ls a. m ks = Some a \<longrightarrow> m ls = Some a \<longrightarrow> ks = ls) \<and> (\<forall>ks a e. m ks = Some a \<longrightarrow> items ! a = Some e \<longrightarrow> R ks e)"

definition cache_ok :: "(key_part list \<Rightarrow> 'e \<Rightarrow> bool) \<Rightarrow> 'e cache \<Rightarrow> bool" where
  "cache_ok R c \<longleftrightarrow> tree_ok (c_tree c) \<and> items_ok R (tree_map (c_tree c)) (c_items c)"

lemma items_ok_new: "items_ok R m items \<Longrightarrow> m ks = None \<Longrightarrow> items_ok R (m(ks \<mapsto> length items)) (items @ [None])"
  unfolding items_ok_def
proof (intro conjI allI impI)
  fix qs a e
  assume ok: "(\<forall>ks a. m ks = Some a \<longrightarrow> a < length items) \<and> (\<forall>ks ls a. m ks = Some a \<longrightarrow> m ls = Some a \<longrightarrow> ks = ls) \<and>
      (\<forall>ks a e. m ks = Some a \<longrightarrow> items ! a = Some e \<longrightarrow> R ks e)"
  show "(m(ks \<mapsto> length items)) qs = Some a \<Longrightarrow> a < length (items @ [None])" using ok by (auto split: if_splits simp: less_Suc_eq)
  show "(m(ks \<mapsto> length items)) qs = Some a \<Longrightarrow> (items @ [None]) ! a = Some e \<Longrightarrow> R qs e"
    using ok by (auto split: if_splits simp: nth_append)
  fix ls
  show "(m(ks \<mapsto> length items)) qs = Some a \<Longrightarrow> (m(ks \<mapsto> length items)) ls = Some a \<Longrightarrow> qs = ls"
    using ok by (auto split: if_splits dest!: spec)
qed

lemma new_cache_ok: "cache_ok R new_cache"
  by (simp add: cache_ok_def items_ok_def new_cache_def new_tree_ok)

lemma cache_start_ok:
  assumes "cache_ok R c" "ks \<noteq> []" "cache_start c ks = (c', r)"
  shows "\<exists>a. r = Inr (a, c_items c' ! a) \<and> tree_map (c_tree c') ks = Some a \<and> cache_ok R c' \<and>
     (\<forall>ls b. tree_map (c_tree c) ls = Some b \<longrightarrow> tree_map (c_tree c') ls = Some b)"
proof -
  obtain t x where g: "getOrCreate (c_tree c) ks (length (c_items c)) = (t, x)" by fastforce
  have ok: "tree_ok (c_tree c)" using assms(1) by (simp add: cache_ok_def)
  have st: "tree_ok t" "stored (tree_map (c_tree c)) (tree_map t) ks (length (c_items c)) x"
    using tree_store.get_or_create[OF ok assms(2) g] by auto
  show ?thesis
  proof (cases "tree_map (c_tree c) ks")
    case None
    then have x: "x = Some (length (c_items c))" "tree_map t = (tree_map (c_tree c))(ks \<mapsto> length (c_items c))"
      using st(2) by (simp_all add: stored_def)
    have c': "c' = \<lparr>c_tree = t, c_items = c_items c @ [None]\<rparr>" "r = Inr (length (c_items c), None)"
      using assms(3) g x by (auto simp: cache_start_def Let_def)
    have "cache_ok R c'" using assms(1) st(1) items_ok_new[of R "tree_map (c_tree c)" "c_items c" ks] None by (simp add: cache_ok_def c'(1) x(2))
    then show ?thesis using c' x None by auto
  next
    case (Some a)
    then have x: "x = Some a" "tree_map t = tree_map (c_tree c)" using st(2) by (simp_all add: stored_def)
    have "a < length (c_items c)" using assms(1) Some by (simp add: cache_ok_def items_ok_def)
    then have c': "c' = \<lparr>c_tree = t, c_items = c_items c\<rparr>" "r = Inr (a, c_items c ! a)"
      using assms(3) g x by (auto simp: cache_start_def Let_def)
    have "cache_ok R c'" using assms(1) st(1) by (simp add: cache_ok_def c' x(2))
    then show ?thesis using c' x Some by auto
  qed
qed

lemma cache_finish_ok:
  assumes "cache_ok R c" "tree_map (c_tree c) ks = Some a" "R ks e"
  shows "cache_ok R (cache_finish c a e)"
  using assms unfolding cache_ok_def cache_finish_def items_ok_def
  by (simp add: nth_list_update) metis

lemma cached_ok:
  assumes "cache_ok R c" "ks \<noteq> []" "cached c ks created = (c', r)" "\<And>e. created = Inr e \<Longrightarrow> R ks e"
  shows "cache_ok R c' \<and> (\<forall>e. r = Inr e \<longrightarrow> R ks e)"
proof -
  obtain c1 x where s: "cache_start c ks = (c1, x)" by fastforce
  from cache_start_ok[OF assms(1,2) s] obtain a where a: "x = Inr (a, c_items c1 ! a)" "tree_map (c_tree c1) ks = Some a" "cache_ok R c1"
    by blast
  show ?thesis
  proof (cases "c_items c1 ! a")
    case (Some e)
    then have "c' = c1" "r = Inr e" using assms(3) s a(1) by (auto simp: cached_def)
    then show ?thesis using a Some by (auto simp: cache_ok_def items_ok_def)
  next
    case None
    then show ?thesis using assms(3,4) s a cache_finish_ok[OF a(3,2)]
      by (cases created) (auto simp: cached_def)
  qed
qed

section \<open>Requests for SELECT executors, interleaved\<close>

text \<open>A request the key can tell apart: distinct properties with plain names, and operators made by \<open>q\<close>.\<close>

definition request_ok :: "'v doc \<Rightarrow> 'v doc_info option \<Rightarrow> bool" where
  "request_ok doc di \<longleftrightarrow> doc \<noteq> [] \<and> names_ok (docKeys doc) doc \<and> (\<forall>f \<in> set (fields_of di). plain_name f)"

text \<open>
  The runs of the handler on SELECT requests whose flags \<open>allPKsDefined\<close> are in \<open>P\<close>: a request looks its key up, which
  may give the item's executor; a request that found an empty item finishes later, in any order, with the executor
  that was made for it with its flag, or fails.
\<close>

inductive select_run ::
    "'v mapping_info \<Rightarrow> table_meta option list \<Rightarrow> bool set \<Rightarrow> executor cache \<Rightarrow> (nat \<times> bool \<times> 'v doc \<times> 'v doc_info option) list \<Rightarrow> bool"
  for mi :: "'v mapping_info" and ts :: "table_meta option list" and P :: "bool set" where
  run_new: "select_run mi ts P new_cache []"
| run_hit: "select_run mi ts P c ws \<Longrightarrow> request_ok (doc :: 'v doc) di \<Longrightarrow>
    cache_start c (getSelectKey (docKeys doc) doc di) = (c', Inr (a, Some e)) \<Longrightarrow> select_run mi ts P c' ws"
| run_miss: "select_run mi ts P c ws \<Longrightarrow> request_ok doc di \<Longrightarrow> pks \<in> P \<Longrightarrow>
    cache_start c (getSelectKey (docKeys doc) doc di) = (c', Inr (a, None)) \<Longrightarrow> select_run mi ts P c' ((a, pks, doc, di) # ws)"
| run_finish: "select_run mi ts P c (us @ (a, pks, doc, di) # ws) \<Longrightarrow> create_select mi ts pks doc di = Inr e \<Longrightarrow>
    select_run mi ts P (cache_finish c a e) (us @ ws)"
| run_fail: "select_run mi ts P c (us @ (a, pks, doc, di) # ws) \<Longrightarrow> create_select mi ts pks doc di = Inl err \<Longrightarrow>
    select_run mi ts P c (us @ ws)"

text \<open>Requests with the same key make the same executor.\<close>

lemma same_columns:
  assumes "fields_of di = fields_of di'"
  shows "map columnName (getPropertiesInfo [] di d mi) = map columnName (getPropertiesInfo [] di' d' mi)"
    and "map columnName (getPropertiesInfo ks None d mi) = map columnName (getPropertiesInfo ks None d' mi)"
  using assms by (auto simp: getPropertiesInfo_def fields_of_def Let_def split: option.splits if_splits)

lemma getForSelect_columns:
  fixes ps ps' fs fs' :: "'v prop_info list"
  assumes "map columnName ps = map columnName ps'" "map columnName fs = map columnName fs'"
  shows "getForSelect ts pks ps fs ob = getForSelect ts pks ps' fs' ob"
proof -
  have len: "length ps = length ps'" using assms(1) by (metis length_map)
  have filt: "length (filter (contains_key ks) ps) = length (filter (contains_key ks) ps')" for ks
  proof -
    have "length (filter (contains_key ks) qs) = length (filter (\<lambda>c. c \<in> col_name ` set ks) (map columnName qs))" for qs :: "'v prop_info list"
      by (simp add: filter_map comp_def contains_key_iff[abs_def])
    then show ?thesis by (metis assms(1))
  qed
  have keys: "keysAreIncluded ks ps = keysAreIncluded ks ps'" for ks
    using filt[of ks] by (simp only: keysAreIncluded_def foldl_count)
  have sets: "columnName ` set ps = columnName ` set ps'" "columnName ` set fs = columnName ` set fs'"
    using assms by (metis set_map)+
  have "(\<forall>p \<in> set ps. contains_key (partitionKeys t) p \<or> contains_key (clusteringKeys t) p) \<longleftrightarrow>
        (\<forall>c \<in> columnName ` set ps. c \<in> col_name ` set (partitionKeys t) \<or> c \<in> col_name ` set (clusteringKeys t))" for ps :: "'v prop_info list" and t :: table_meta
    by (simp add: contains_key_iff)
  moreover have "(\<forall>p \<in> set fs. in_table t p) \<longleftrightarrow> (\<forall>c \<in> columnName ` set fs. c \<in> col_name ` set (tcolumns t))" for fs :: "'v prop_info list" and t
    by (simp add: in_table_iff)
  ultimately have "select_matches pks ps fs ob t = select_matches pks ps' fs' ob t" for t
    unfolding select_matches_def keys len by (simp only: sets)
  then show ?thesis
    by (induction ts pks ps fs ob rule: getForSelect.induct) auto
qed


lemma create_select_same:
  assumes "getSelectKey (docKeys d) d di = getSelectKey (docKeys d') d' di'" "request_ok d di" "request_ok d' di'"
  shows "create_select mi ts pks d di = create_select mi ts pks d' di'"
proof -
  have names: "names_ok (docKeys d) d" "names_ok (docKeys d') d'" "\<forall>f \<in> set (fields_of di). plain_name f" "\<forall>f \<in> set (fields_of di'). plain_name f"
    using assms(2,3) by (simp_all add: request_ok_def)
  note same = select_statement_same[OF assms(1) names]
  have ks: "docKeys d = docKeys d'" "fields_of di = fields_of di'" "adaptOrderBy di mi = adaptOrderBy di' mi"
    using select_key_parts[OF assms(1) names] by (simp_all add: adaptOrderBy_def order_of_def)
  have tab: "getForSelect ts pks (getPropertiesInfo (docKeys d) None d mi) (getPropertiesInfo [] di d mi) ob =
      getForSelect ts pks (getPropertiesInfo (docKeys d') None d' mi) (getPropertiesInfo [] di' d' mi) ob" for ob
    unfolding ks(1) by (intro getForSelect_columns same_columns(1)[OF ks(2)] same_columns(2)[OF ks(2)])
  have st: "bind_result (adaptOrderBy di' mi) (\<lambda>ob. Inr (getSelect n (ks_text mi) (getPropertiesInfo (docKeys d) None d mi) (getPropertiesInfo [] di d mi) ob (Option.bind di di_limit),
        selectParamsGetter (getPropertiesInfo (docKeys d) None d mi) (Option.bind di di_limit))) =
      bind_result (adaptOrderBy di' mi) (\<lambda>ob. Inr (getSelect n (ks_text mi) (getPropertiesInfo (docKeys d') None d' mi) (getPropertiesInfo [] di' d' mi) ob (Option.bind di' di_limit),
        selectParamsGetter (getPropertiesInfo (docKeys d') None d' mi) (Option.bind di' di_limit)))" for n
    using same[of mi "ks_text mi" n] unfolding select_statement_def Let_def ks(3) .
  show ?thesis
  proof (cases "adaptOrderBy di' mi")
    case (Inl e)
    then show ?thesis by (simp add: create_select_def Let_def ks(3))
  next
    case (Inr ob)
    then show ?thesis using st by (cases "getForSelect ts pks (getPropertiesInfo (docKeys d') None d' mi) (getPropertiesInfo [] di' d' mi) ob")
        (simp_all add: create_select_def Let_def ks(3) tab)
  qed
qed

text \<open>What the caches of a run hold: the executor every request with the key would make with a flag of the run.\<close>

definition select_entry :: "'v mapping_info \<Rightarrow> table_meta option list \<Rightarrow> bool set \<Rightarrow> key_part list \<Rightarrow> executor \<Rightarrow> bool" where
  "select_entry mi ts P ks e \<longleftrightarrow>
     (\<exists>pks \<in> P. \<forall>doc di. request_ok doc di \<longrightarrow> getSelectKey (docKeys doc) doc di = ks \<longrightarrow> create_select mi ts pks doc di = Inr e)"

definition waiting_ok :: "bool set \<Rightarrow> executor cache \<Rightarrow> (nat \<times> bool \<times> 'v doc \<times> 'v doc_info option) list \<Rightarrow> bool" where
  "waiting_ok P c ws \<longleftrightarrow>
     (\<forall>(a, pks, doc, di) \<in> set ws. pks \<in> P \<and> request_ok doc di \<and> tree_map (c_tree c) (getSelectKey (docKeys doc) doc di) = Some a)"

lemma request_key: "request_ok doc di \<Longrightarrow> getSelectKey (docKeys doc) doc di \<noteq> []"
  by (auto simp: request_ok_def docKeys_def intro!: keys_not_Nil)

lemma waiting_ok_Cons:
  "waiting_ok P c ((a, pks, doc, di) # ws) \<longleftrightarrow>
     pks \<in> P \<and> request_ok doc di \<and> tree_map (c_tree c) (getSelectKey (docKeys doc) doc di) = Some a \<and> waiting_ok P c ws"
  by (simp add: waiting_ok_def)

lemma waiting_start:
  assumes "cache_ok R c" "request_ok doc di" "cache_start c (getSelectKey (docKeys doc) doc di) = (c', Inr (a, x))"
  shows "cache_ok R c' \<and> tree_map (c_tree c') (getSelectKey (docKeys doc) doc di) = Some a \<and> (waiting_ok P c ws \<longrightarrow> waiting_ok P c' ws)"
  using cache_start_ok[OF assms(1) request_key[OF assms(2)] assms(3)] by (auto simp: waiting_ok_def case_prod_beta)

lemma select_run_ok: "select_run mi ts P c ws \<Longrightarrow> cache_ok (select_entry mi ts P) c \<and> waiting_ok P c ws"
proof (induction rule: select_run.induct)
  case run_new
  show ?case by (simp add: new_cache_ok waiting_ok_def)
next
  case (run_hit c ws doc di c' a e)
  from run_hit.IH waiting_start[OF conjunct1[OF run_hit.IH] run_hit.hyps(2,3), of P ws] show ?case by simp
next
  case (run_miss c ws doc di pks c' a)
  from run_miss.IH run_miss.hyps(2,3) waiting_start[OF conjunct1[OF run_miss.IH] run_miss.hyps(2,4), of P ws] show ?case
    by (simp add: waiting_ok_Cons)
next
  case (run_finish c us a pks doc di ws e)
  from run_finish.IH have w: "request_ok doc di" "tree_map (c_tree c) (getSelectKey (docKeys doc) doc di) = Some a" "pks \<in> P"
    by (auto simp: waiting_ok_def)
  have entry: "select_entry mi ts P (getSelectKey (docKeys doc) doc di) e"
    unfolding select_entry_def
  proof (intro bexI[OF _ w(3)] allI impI)
    fix doc' :: "'a doc" and di' :: "'a doc_info option"
    assume "request_ok doc' di'" "getSelectKey (docKeys doc') doc' di' = getSelectKey (docKeys doc) doc di"
    then show "create_select mi ts pks doc' di' = Inr e" using create_select_same[of doc' di' doc di mi ts pks] w(1) run_finish.hyps(2) by simp
  qed
  have "cache_ok (select_entry mi ts P) (cache_finish c a e)" by (rule cache_finish_ok[of "select_entry mi ts P", OF conjunct1[OF run_finish.IH] w(2) entry])
  moreover have "waiting_ok P (cache_finish c a e) (us @ ws)" using run_finish.IH by (simp add: waiting_ok_def cache_finish_def)
  ultimately show ?case by simp
next
  case (run_fail c us a pks doc di ws err)
  then show ?case by (auto simp: waiting_ok_def)
qed

text \<open>
  C15: In every interleaving of SELECT requests whose flags \<open>allPKsDefined\<close> are in \<open>P\<close>, an executor found in the cache is the
  one the request would have made itself with one of these flags: it has the table, the query text and the script of its own
  shape. So the cache is transparent when all requests have the same flag. The requests have properties whose names are no
  operators or separators of the keys, and operators made by the module \<open>q\<close>.
\<close>

theorem select_cache_transparent:
  assumes "select_run mi ts P c ws" "request_ok doc di" "cache_start c (getSelectKey (docKeys doc) doc di) = (c', Inr (a, Some e))"
  shows "(\<exists>pks \<in> P. create_select mi ts pks doc di = Inr e) \<and> (\<forall>pks. P = {pks} \<longrightarrow> create_select mi ts pks doc di = Inr e)"
proof -
  have ok: "cache_ok (select_entry mi ts P) c" using select_run_ok[OF assms(1)] by simp
  from cache_start_ok[OF ok request_key[OF assms(2)] assms(3)]
  have "cache_ok (select_entry mi ts P) c'" "tree_map (c_tree c') (getSelectKey (docKeys doc) doc di) = Some a" "c_items c' ! a = Some e" by auto
  then have "select_entry mi ts P (getSelectKey (docKeys doc) doc di) e" by (auto simp: cache_ok_def items_ok_def)
  then show ?thesis using assms(2) by (auto simp: select_entry_def)
qed

abbreviation users_info :: "int mapping_info" where
  "users_info \<equiv> createDefault ''users'' (Some ''ks'')"

definition key_doc :: "int \<Rightarrow> int doc" where
  "key_doc n = [(''id'', QPlain n)]"

definition users_executor :: executor where
  "users_executor = (case create_select users_info [Some users_table] False (key_doc 1) None of Inr e \<Rightarrow> e)"

definition filled_cache :: "executor cache" where
  "filled_cache = cache_finish (fst (cache_start new_cache (getSelectKey (docKeys (key_doc 1)) (key_doc 1) None))) 0 users_executor"

lemma filled_cache_run: "select_run users_info [Some users_table] {False} filled_cache []"
proof -
  have r: "request_ok (key_doc 1) None"
    by (simp add: request_ok_def key_doc_def docKeys_def plain_name_def operator_keys_def separators_def fields_of_def doc_get_def names_ok_def)
  have miss: "cache_start new_cache (getSelectKey (docKeys (key_doc 1)) (key_doc 1) None) =
      (fst (cache_start new_cache (getSelectKey (docKeys (key_doc 1)) (key_doc 1) None)), Inr (0, None :: executor option))" by code_simp
  have made: "create_select users_info [Some users_table] False (key_doc 1) None = Inr users_executor" by code_simp
  from run_finish[of users_info "[Some users_table]" "{False}" _ "[]" 0 False "key_doc 1" None "[]"] run_miss[OF run_new r _ miss] made
  show ?thesis by (simp add: filled_cache_def)
qed

theorem select_cache_transparent_witness:
  "snd (cache_start filled_cache (getSelectKey (docKeys (key_doc 2)) (key_doc 2) None)) = Inr (0, Some users_executor) \<and>
   create_select users_info [Some users_table] False (key_doc 2) None = Inr users_executor"
proof
  show hit: "snd (cache_start filled_cache (getSelectKey (docKeys (key_doc 2)) (key_doc 2) None)) = Inr (0, Some users_executor)" by code_simp
  have r: "request_ok (key_doc 2) None"
    by (simp add: request_ok_def key_doc_def docKeys_def plain_name_def operator_keys_def separators_def fields_of_def doc_get_def names_ok_def)
  show "create_select users_info [Some users_table] False (key_doc 2) None = Inr users_executor"
    using select_cache_transparent[OF filled_cache_run r prod.collapse[symmetric, of "cache_start filled_cache (getSelectKey (docKeys (key_doc 2)) (key_doc 2) None)", unfolded hit]]
    by blast
qed

section \<open>Where the caches mix requests up\<close>

text \<open>
  \<open>allPKsDefined\<close> is not part of the key: \<open>get\<close> with an incomplete primary key raises on its own, and runs the
  cached statement after a \<open>find\<close> with the same document.
\<close>

lemma get_after_find:
  "snd (mapper_get (new_handler users_info) [Some users_table] (key_doc 1) None NoOptions) = Inl PlainError"
  "snd (mapper_get (fst (mapper_find (new_handler users_info) [Some users_table] (key_doc 1) None NoOptions)) [Some users_table] (key_doc 1) None NoOptions) =
   snd (mapper_find (new_handler users_info) [Some users_table] (key_doc 1) None NoOptions)"
  "snd (mapper_find (new_handler users_info) [Some users_table] (key_doc 1) None NoOptions) \<noteq> Inl PlainError"
  by code_simp+

text \<open>
  The key of an UPDATE does not separate the conditions: after an update of three properties, an update of two of
  them with a condition on the third runs the first statement, without the condition, and sets the third column to
  \<open>undefined\<close>.
\<close>

definition account_table :: table_meta where
  "account_table = (let c = (\<lambda>n. \<lparr>col_name = n, col_code = dt_int, isStatic = False\<rparr>)
     in \<lparr>tname = ''account'', partitionKeys = [c ''id''], clusteringKeys = [], tcolumns = [c ''id'', c ''name'', c ''state'']\<rparr>)"

lemma update_drops_condition:
  defines "full \<equiv> [(''id'', QPlain 1), (''name'', QPlain 2), (''state'', QPlain (3 :: int))]"
    and "part \<equiv> [(''id'', QPlain 1), (''name'', QPlain (2 :: int))]"
  shows "snd (mapper_update (fst (mapper_update (new_handler users_info) [Some account_table] full None NoOptions)) [Some account_table] part when_info NoOptions) =
     Inr (ClientExecute (query (getUpdate account_table ''ks'' (getPropertiesInfo [''id'', ''name'', ''state''] None full users_info) None [] Falsy))
           [QPlain 2, QUndefined, QPlain 1] (adaptOptions NoOptions True))"
  unfolding full_def part_def by code_simp

text \<open>A key that was filled returns its content whatever the next request would have made.\<close>

lemma cached_again:
  assumes "cache_ok R c" "ks \<noteq> []" "cached c ks x = (c', Inr e)"
  shows "snd (cached c' ks y) = Inr e"
proof -
  obtain c1 r1 where s1: "cache_start c ks = (c1, r1)" by fastforce
  from cache_start_ok[OF assms(1,2) s1] obtain a where a: "r1 = Inr (a, c_items c1 ! a)" "tree_map (c_tree c1) ks = Some a" "cache_ok R c1" by blast
  have lt: "a < length (c_items c1)" using a by (simp add: cache_ok_def items_ok_def)
  have c': "c_tree c' = c_tree c1" "c_items c' ! a = Some e"
    using assms(3) s1 a(1) lt by (auto simp: cached_def cache_finish_def split: option.splits sum.splits)
  have lt': "a < length (c_items c')" using assms(3) s1 a(1) lt by (auto simp: cached_def cache_finish_def split: option.splits sum.splits)
  obtain t z where g: "getOrCreate (c_tree c') ks (length (c_items c')) = (t, z)" by fastforce
  have "tree_ok (c_tree c')" using a(3) by (simp add: c' cache_ok_def)
  from tree_store.get_or_create[OF this assms(2) g] have "z = Some a" using a(2) by (simp add: stored_def c')
  then show ?thesis using g c' lt' by (auto simp: cached_def cache_start_def Let_def)
qed

text \<open>
  \<open>batching.remove\<close> uses the cache of the updates: once a batch has had an update of a document, a remove of a
  document with the same properties returns the queries of the update, and never those of the delete.
\<close>

theorem batch_remove_runs_update:
  assumes "cache_ok (\<lambda>_ _. True) (bm_update bm)" "doc \<noteq> []" "\<forall>k \<in> set (docKeys doc). \<not> is_assignment (doc_get doc k)"
    and "getQueries bm BatchUpdate mi ts doc None = (bm', r)"
  shows "snd (getQueries bm' BatchRemove mi ts doc None) = r"
proof -
  have raise: "\<not> raises_at_once bop mi None" for bop by (simp add: raises_at_once_def when_infos_def)
  have key: "getUpdateKey (docKeys doc) doc None = getRemoveKey (docKeys doc) doc None" by (rule update_key_is_remove_key[OF assms(3)])
  have ne: "getUpdateKey (docKeys doc) doc None \<noteq> []" using keys_not_Nil(4)[of "docKeys doc"] assms(2) by (simp add: docKeys_def)
  obtain c x where c: "cached (bm_update bm) (getUpdateKey (docKeys doc) doc None) (Inr (createUpdateQueries mi ts doc None)) = (c, x)" by fastforce
  have bm': "bm' = bm\<lparr>bm_update := c\<rparr>" "r = bind_result x id"
    using assms(4) c raise by (auto simp: getQueries_def batch_queries_def Let_def)
  obtain e where e: "x = Inr e"
    using c cache_start_ok[OF assms(1) ne prod.collapse[symmetric]] by (auto simp: cached_def split: prod.splits option.splits sum.splits)
  from cached_again[OF assms(1) ne c[unfolded e]] have "snd (cached c (getUpdateKey (docKeys doc) doc None) y) = Inr e" for y .
  then show ?thesis using bm' e raise key by (simp add: getQueries_def batch_queries_def Let_def case_prod_beta)
qed

theorem batch_remove_runs_update_witness:
  "snd (getQueries (fst (getQueries new_batch_mapper BatchUpdate users_info [Some users_table] users_doc None)) BatchRemove users_info [Some users_table] users_doc None) =
   snd (getQueries new_batch_mapper BatchUpdate users_info [Some users_table] users_doc None) \<and>
   snd (getQueries new_batch_mapper BatchRemove users_info [Some users_table] users_doc None) \<noteq>
   snd (getQueries new_batch_mapper BatchUpdate users_info [Some users_table] users_doc None)"
proof
  show "snd (getQueries (fst (getQueries new_batch_mapper BatchUpdate users_info [Some users_table] users_doc None)) BatchRemove users_info [Some users_table] users_doc None) =
   snd (getQueries new_batch_mapper BatchUpdate users_info [Some users_table] users_doc None)"
    by (rule batch_remove_runs_update[OF _ _ _ prod.collapse[symmetric]])
       (simp_all add: new_batch_mapper_def new_cache_ok users_doc_def docKeys_def doc_get_def)
  show "snd (getQueries new_batch_mapper BatchRemove users_info [Some users_table] users_doc None) \<noteq>
   snd (getQueries new_batch_mapper BatchUpdate users_info [Some users_table] users_doc None)" by code_simp
qed

end
