(* ===== verification/Mapping_Result.thy ===== *)
theory Mapping_Result
  imports Mapping_Handler
begin

text \<open>
  The results of the mapper: the adapters that turn a row into a document (\<^verbatim>\<open>src/lib/mapping/result-mapper.js\<close>),
  the \<open>Result\<close> class (\<^verbatim>\<open>result.js\<close>) and the executors of custom queries (\<open>getExecutorFromQuery\<close> of
  \<^verbatim>\<open>mapping-handler.js\<close>). A generated adapter is kept as the list of columns its script was written from; the
  documents are made by \<open>newObjectInstance\<close> as empty objects.
\<close>

record 'v result_set =
  rs_columns :: "(string \<times> int) list option"
  rs_rows :: "'v doc list option"
  rs_rowLength :: "nat option"
  rs_pageState :: "string option"

datatype adapter =
    Noop
  | RowAdapter "string list"
  | ConditionalRowAdapter "string list"

text \<open>Setting a property of an object: in place, or at the end.\<close>

fun doc_set :: "string \<Rightarrow> 'v qval \<Rightarrow> 'v doc \<Rightarrow> 'v doc" where
  "doc_set p v [] = [(p, v)]"
| "doc_set p v ((q, w) # d) = (if p = q then (q, v) # d else (q, w) # doc_set p v d)"

section \<open>Adapters\<close>

definition getSelectAdapter :: "'v result_set \<Rightarrow> adapter result" where
  "getSelectAdapter rs = (case rs_columns rs of None \<Rightarrow> Inl PlainError | Some cs \<Rightarrow> Inr (RowAdapter (map fst cs)))"

definition conditionalRowAdapter :: "'v result_set \<Rightarrow> adapter" where
  "conditionalRowAdapter rs = ConditionalRowAdapter (map fst (tl (the (rs_columns rs))))"

definition is_applied :: "string \<times> int \<Rightarrow> bool" where
  "is_applied c \<longleftrightarrow> fst c = ''[applied]'' \<and> snd c = dt_boolean"

definition getMutationAdapter :: "'v result_set \<Rightarrow> adapter" where
  "getMutationAdapter rs = (case rs_columns rs of
       None \<Rightarrow> Noop
     | Some [c] \<Rightarrow> if is_applied c then Noop else conditionalRowAdapter rs
     | Some cs \<Rightarrow> conditionalRowAdapter rs)"

text \<open>The adapter of a custom query and whether it may be cached.\<close>

definition getCustomQueryAdapter :: "'v result_set \<Rightarrow> (bool \<times> adapter) result" where
  "getCustomQueryAdapter rs = (case rs_columns rs of
       None \<Rightarrow> Inr (True, Noop)
     | Some [] \<Rightarrow> Inr (True, Noop)
     | Some (c # cs) \<Rightarrow> if is_applied c then Inr (False, conditionalRowAdapter rs)
         else bind_result (getSelectAdapter rs) (\<lambda>a. Inr (True, a)))"

text \<open>Running an adapter on a row; \<open>None\<close> is the \<open>undefined\<close> of the empty function.\<close>

definition adapt_column :: "'v mapping_info \<Rightarrow> 'v doc \<Rightarrow> string \<Rightarrow> 'v qval result" where
  "adapt_column mi row c = (case getToModelFn mi c of None \<Rightarrow> Inr (doc_get row c) | Some f \<Rightarrow> f (doc_get row c))"

fun adapt_row :: "'v mapping_info \<Rightarrow> 'v doc \<Rightarrow> string list \<Rightarrow> 'v doc \<Rightarrow> 'v doc result" where
  "adapt_row mi row [] item = Inr item"
| "adapt_row mi row (c # cs) item = bind_result (adapt_column mi row c) (\<lambda>v. adapt_row mi row cs (doc_set (getPropertyName mi c) v item))"

fun run_adapter :: "'v mapping_info \<Rightarrow> adapter \<Rightarrow> 'v doc \<Rightarrow> 'v doc option result" where
  "run_adapter mi Noop row = Inr None"
| "run_adapter mi (RowAdapter cs) row = bind_result (adapt_row mi row cs []) (\<lambda>d. Inr (Some d))"
| "run_adapter mi (ConditionalRowAdapter cs) row =
     Inr (Some (foldl (\<lambda>d c. doc_set (getPropertyName mi c) (doc_get row c) d) [] cs))"

section \<open>Result\<close>

definition isEmptyLwt :: "'v result_set \<Rightarrow> bool" where
  "isEmptyLwt rs \<longleftrightarrow> (case rs_columns rs of Some [c] \<Rightarrow> rs_rowLength rs = Some 1 \<and> fst c = ''[applied]'' | _ \<Rightarrow> False)"

definition result_length :: "'v result_set \<Rightarrow> nat" where
  "result_length rs = (if isEmptyLwt rs then 0 else case rs_rowLength rs of None \<Rightarrow> 0 | Some n \<Rightarrow> n)"

text \<open>\<open>first\<close>: the outer \<open>None\<close> is \<open>null\<close>; the rows are there when there is a row length.\<close>

definition result_first :: "'v mapping_info \<Rightarrow> adapter \<Rightarrow> 'v result_set \<Rightarrow> 'v doc option option result" where
  "result_first mi a rs =
     (if rs_rowLength rs \<in> {None, Some 0} \<or> isEmptyLwt rs then Inr None
      else case rs_rows rs of
             Some (row # _) \<Rightarrow> bind_result (run_adapter mi a row) (\<lambda>d. Inr (Some d))
           | _ \<Rightarrow> Inl TypeError)"

definition result_toArray :: "'v mapping_info \<Rightarrow> adapter \<Rightarrow> 'v result_set \<Rightarrow> 'v doc option list result" where
  "result_toArray mi a rs = (case rs_rows rs of
       None \<Rightarrow> Inr []
     | Some rows \<Rightarrow> if isEmptyLwt rs then Inr [] else map_result (run_adapter mi a) rows)"

text \<open>The iterator reads the length of the rows, so it raises where there are none.\<close>

definition result_iterate :: "'v mapping_info \<Rightarrow> adapter \<Rightarrow> 'v result_set \<Rightarrow> 'v doc option list result" where
  "result_iterate mi a rs =
     (if isEmptyLwt rs then Inr []
      else case rs_rows rs of None \<Rightarrow> Inl TypeError | Some rows \<Rightarrow> map_result (run_adapter mi a) rows)"

section \<open>Custom queries\<close>

text \<open>
  The cache of the adapters of custom queries: a map from query texts, in insertion order. The result is that of
  the client's call; the flag tells that the warning about the size of the cache is logged.
\<close>

definition cacheHighWaterMark :: nat where "cacheHighWaterMark = 100"

text \<open>\<open>_validateCacheLength\<close>, called with the length of a tree when an item is added: whether the warning is logged.\<close>

definition validateCacheLength :: "nat \<Rightarrow> bool" where
  "validateCacheLength n \<longleftrightarrow> n = cacheHighWaterMark"

definition custom_adapter :: "(string \<times> adapter) list \<Rightarrow> string \<Rightarrow> 'v result_set \<Rightarrow> ((string \<times> adapter) list \<times> bool \<times> adapter) result" where
  "custom_adapter cs q rs = (case map_of cs q of
       Some a \<Rightarrow> Inr (cs, False, a)
     | None \<Rightarrow> bind_result (getCustomQueryAdapter rs) (\<lambda>(canCache, a).
         if canCache then Inr (cs @ [(q, a)], length (cs @ [(q, a)]) = cacheHighWaterMark, a) else Inr (cs, False, a)))"

text \<open>The options given when the executor was made win over those of a call.\<close>

definition custom_options :: "'v exec_options option \<Rightarrow> 'v exec_options \<Rightarrow> 'v query_options" where
  "custom_options common eo = (case common of Some c \<Rightarrow> adaptAllOptions c False | None \<Rightarrow> adaptAllOptions eo False)"

section \<open>Documents read back\<close>

lemma doc_get_set: "doc_get (doc_set p v d) q = (if q = p then v else doc_get d q)"
  by (induction d) (auto simp: doc_get_def)

lemma adapt_row_reads:
  assumes "adapt_row mi row cs item = Inr d" "distinct (map (getPropertyName mi) cs)"
  shows "(\<forall>c \<in> set cs. adapt_column mi row c = Inr (doc_get d (getPropertyName mi c))) \<and>
         (\<forall>p. p \<notin> getPropertyName mi ` set cs \<longrightarrow> doc_get d p = doc_get item p)"
  using assms
proof (induction cs arbitrary: item)
  case (Cons c cs)
  then obtain v where v: "adapt_column mi row c = Inr v" "adapt_row mi row cs (doc_set (getPropertyName mi c) v item) = Inr d"
    by (cases "adapt_column mi row c") auto
  from Cons.IH[OF v(2)] Cons.prems(2) v(1) show ?case by (auto simp: doc_get_set)
qed simp

text \<open>
  A row becomes a document and its properties lead back to the columns: for a SELECT result whose columns have
  different properties, every property of the document holds the value of its column, after the model's function,
  and nothing else is set; reading the array of a result gives one document per row.
\<close>

theorem select_rows_adapted:
  assumes "rs_columns rs = Some cs" "distinct (map (getPropertyName mi) (map fst cs))" "rs_rows rs = Some rows" "\<not> isEmptyLwt rs"
    and "getSelectAdapter rs = Inr a" "result_toArray mi a rs = Inr ds"
  shows "length ds = length rows \<and>
    (\<forall>i < length rows. \<exists>d. ds ! i = Some d \<and>
       (\<forall>c \<in> set (map fst cs). adapt_column mi (rows ! i) c = Inr (doc_get d (getPropertyName mi c))) \<and>
       (\<forall>p. p \<notin> getPropertyName mi ` set (map fst cs) \<longrightarrow> doc_get d p = QUndefined))"
proof -
  have a: "a = RowAdapter (map fst cs)" using assms(1,5) by (simp add: getSelectAdapter_def)
  have "map_result (run_adapter mi a) rows = Inr ds" using assms(3,4,6) by (simp add: result_toArray_def)
  then have all: "list_all2 (\<lambda>row x. run_adapter mi a row = Inr x) rows ds" by (simp add: map_result_Inr)
  have "\<exists>d. ds ! i = Some d \<and> (\<forall>c \<in> set (map fst cs). adapt_column mi (rows ! i) c = Inr (doc_get d (getPropertyName mi c))) \<and>
       (\<forall>p. p \<notin> getPropertyName mi ` set (map fst cs) \<longrightarrow> doc_get d p = QUndefined)" if i: "i < length rows" for i
  proof -
    have "run_adapter mi a (rows ! i) = Inr (ds ! i)" using all i by (rule list_all2_nthD)
    then obtain d where d: "adapt_row mi (rows ! i) (map fst cs) [] = Inr d" "ds ! i = Some d"
      by (cases "adapt_row mi (rows ! i) (map fst cs) []") (auto simp: a)
    from adapt_row_reads[OF d(1) assms(2)] d(2) show ?thesis by (auto simp: doc_get_def)
  qed
  then show ?thesis using list_all2_lengthD[OF all] by simp
qed

definition users_result :: "int result_set" where
  "users_result = \<lparr>rs_columns = Some [(''id'', dt_int), (''first_name'', dt_int)],
     rs_rows = Some [[(''id'', QPlain 1), (''first_name'', QPlain 7)]], rs_rowLength = Some 1, rs_pageState = None\<rparr>"

abbreviation camel_info :: "int mapping_info" where
  "camel_info \<equiv> new_mapping_info (Some ''ks'') [] UnderscoreCqlToCamelCaseMappings []"

theorem select_rows_adapted_witness:
  "\<exists>d. result_toArray camel_info (RowAdapter [''id'', ''first_name'']) users_result = Inr [Some d] \<and>
     adapt_column camel_info [(''id'', QPlain 1), (''first_name'', QPlain 7)] ''first_name'' = Inr (doc_get d ''firstName'')"
proof -
  let ?d = "[(''id'', QPlain 1), (''firstName'', QPlain (7 :: int))]"
  have r: "result_toArray camel_info (RowAdapter [''id'', ''first_name'']) users_result = Inr [Some ?d]"
    "getSelectAdapter users_result = Inr (RowAdapter [''id'', ''first_name''])" "\<not> isEmptyLwt users_result"
    "distinct (map (getPropertyName camel_info) [''id'', ''first_name''])" "getPropertyName camel_info ''first_name'' = ''firstName''" by code_simp+
  have "adapt_column camel_info [(''id'', QPlain 1), (''first_name'', QPlain 7)] ''first_name'' = Inr (doc_get ?d ''firstName'')"
    using select_rows_adapted[of users_result "[(''id'', dt_int), (''first_name'', dt_int)]" camel_info
        "[[(''id'', QPlain 1), (''first_name'', QPlain 7)]]" "RowAdapter [''id'', ''first_name'']" "[Some ?d]"] r
    by (simp add: users_result_def)
  with r(1) show ?thesis by blast
qed

text \<open>Conditional results are never cached, because their columns depend on the parameters.\<close>

lemma conditional_not_cached:
  "rs_columns rs = Some (c # cs) \<Longrightarrow> is_applied c \<Longrightarrow> map_of m q = None \<Longrightarrow>
   custom_adapter m q rs = Inr (m, False, conditionalRowAdapter rs)"
  by (simp add: custom_adapter_def getCustomQueryAdapter_def)

end
