(* ===== verification/Load_Balancing.thy ===== *)
theory Load_Balancing
  imports Utils_Collections "HOL-Library.Multiset"
begin

text \<open>
  The load balancing policies of \<^verbatim>\<open>src/lib/policies/load-balancing.js\<close> and the map of hosts of
  \<^verbatim>\<open>src/lib/host.js\<close> they read.

  A host is a reference; the two properties of it that the policies read, its address and its datacenter, are the
  argument \<open>api\<close>. A query plan is an iterator: a state with a \<open>next\<close> function that returns the new state and a
  host, or \<open>None\<close> when it is done. The loops that skip hosts of a child iterator are partial functions, whose
  value is \<open>None\<close> when they do not return. The interface of an iterator is the locale \<open>query_plan\<close>: the hosts that
  are left, and how \<open>next\<close> consumes them; every policy interprets it, the wrapping ones over any child.
  Random numbers are fractions \<open>k / n\<close> with \<open>k < n\<close>.
\<close>

section \<open>Hosts\<close>

record 'h host_api =
  h_address :: "'h \<Rightarrow> string"
  h_datacenter :: "'h \<Rightarrow> string option"

text \<open>\<open>HostMap\<close>: the items in insertion order and the cached array of values.\<close>

record 'h host_map =
  hm_items :: "(string \<times> 'h) list"
  hm_values :: "'h list option"

definition hm_get :: "'h host_map \<Rightarrow> string \<Rightarrow> 'h option" where
  "hm_get m k = map_of (hm_items m) k"

definition hm_keys :: "'h host_map \<Rightarrow> string list" where
  "hm_keys m = map fst (hm_items m)"

definition hm_values_op :: "'h host_map \<Rightarrow> 'h host_map \<times> 'h list" where
  "hm_values_op m = (case hm_values m of
     Some vs \<Rightarrow> (m, vs) | None \<Rightarrow> (m\<lparr>hm_values := Some (map snd (hm_items m))\<rparr>, map snd (hm_items m)))"

text \<open>\<open>Map.set\<close>: in place for a known key, at the end for a new one. \<open>fromRust\<close> makes a host per wrapper.\<close>

fun map_put :: "string \<Rightarrow> 'h \<Rightarrow> (string \<times> 'h) list \<Rightarrow> (string \<times> 'h) list" where
  "map_put k v [] = [(k, v)]"
| "map_put k v ((k', v') # xs) = (if k = k' then (k', v) # xs else (k', v') # map_put k v xs)"

definition hm_fromRust :: "('w \<Rightarrow> string) \<Rightarrow> ('w \<Rightarrow> 'h) \<Rightarrow> 'w list \<Rightarrow> 'h host_map" where
  "hm_fromRust address fromRust ws = \<lparr>hm_items = foldl (\<lambda>is w. map_put (address w) (fromRust w) is) [] ws, hm_values = None\<rparr>"

section \<open>Iterators\<close>

text \<open>Calling \<open>next\<close> on a child until it is done or returns an accepted host.\<close>

partial_function (option) skip_until :: "('i \<Rightarrow> ('i \<times> 'h option) option) \<Rightarrow> ('h \<Rightarrow> bool) \<Rightarrow> 'i \<Rightarrow> ('i \<times> 'h option) option" where
  [code]: "skip_until nx ok it = (case nx it of
       None \<Rightarrow> None
     | Some (it', None) \<Rightarrow> Some (it', None)
     | Some (it', Some h) \<Rightarrow> if ok h then Some (it', Some h) else skip_until nx ok it')"

text \<open>Draining an iterator: \<open>None\<close> when the calls are not enough or one does not return.\<close>

fun drain :: "nat \<Rightarrow> ('i \<Rightarrow> ('i \<times> 'h option) option) \<Rightarrow> 'i \<Rightarrow> 'h list option" where
  "drain 0 nx it = None"
| "drain (Suc n) nx it = (case nx it of
       None \<Rightarrow> None
     | Some (it', None) \<Rightarrow> Some []
     | Some (it', Some h) \<Rightarrow> map_option (\<lambda>hs. h # hs) (drain n nx it'))"

locale query_plan =
  fixes nx :: "'i \<Rightarrow> ('i \<times> 'h option) option"
    and plan :: "'i \<Rightarrow> 'h list"
  assumes next_done: "plan it = [] \<Longrightarrow> \<exists>it'. nx it = Some (it', None) \<and> plan it' = []"
    and next_host: "plan it = h # hs \<Longrightarrow> \<exists>it'. nx it = Some (it', Some h) \<and> plan it' = hs"
begin

lemma drain_plan: "length (plan it) < n \<Longrightarrow> drain n nx it = Some (plan it)"
proof (induction n arbitrary: it)
  case (Suc n)
  show ?case
  proof (cases "plan it")
    case Nil
    then show ?thesis using next_done[of it] by auto
  next
    case (Cons h hs)
    then obtain it' where "nx it = Some (it', Some h)" "plan it' = hs" using next_host by blast
    then show ?thesis using Suc Cons by simp
  qed
qed simp

text \<open>Skipping returns the first accepted host of the plan, and always returns.\<close>

lemma skip_until_plan:
  "\<exists>it'. skip_until nx ok it = Some (it', case filter ok (plan it) of [] \<Rightarrow> None | h # _ \<Rightarrow> Some h) \<and>
         filter ok (plan it') = tl (filter ok (plan it))"
proof (induction "plan it" arbitrary: it)
  case Nil
  then obtain it' where "nx it = Some (it', None)" "plan it' = []" using next_done[of it] by auto
  then show ?case using Nil by (subst skip_until.simps) auto
next
  case (Cons h hs)
  then obtain it' where it': "nx it = Some (it', Some h)" "plan it' = hs" using next_host[of it h hs] by auto
  show ?case
  proof (cases "ok h")
    case True
    then show ?thesis using it' Cons(2)[symmetric] by (subst skip_until.simps) auto
  next
    case False
    then show ?thesis using it' Cons(1)[of it'] Cons(2)[symmetric] by (subst skip_until.simps) auto
  qed
qed

end

text \<open>Filtering an iterator, as the allow list does.\<close>

locale filtered_plan = query_plan nx plan for nx :: "'i \<Rightarrow> ('i \<times> 'h option) option" and plan :: "'i \<Rightarrow> 'h list" +
  fixes ok :: "'h \<Rightarrow> bool"

sublocale filtered_plan \<subseteq> filtered: query_plan "skip_until nx ok" "\<lambda>it. filter ok (plan it)"
proof
  fix it show "filter ok (plan it) = [] \<Longrightarrow> \<exists>it'. skip_until nx ok it = Some (it', None) \<and> filter ok (plan it') = []"
    using skip_until_plan[of ok it] by auto
next
  fix it h hs show "filter ok (plan it) = h # hs \<Longrightarrow> \<exists>it'. skip_until nx ok it = Some (it', Some h) \<and> filter ok (plan it') = hs"
    using skip_until_plan[of ok it] by auto
qed

section \<open>Round robin\<close>

datatype distance = DistLocal | DistRemote | DistIgnored

text \<open>
  An index is a JavaScript number: adding one rounds above \<open>2 ^ 53\<close>. The policies' own index is reset to zero when
  it reaches \<open>utils.maxInt\<close>, which is \<open>2 ^ 53\<close>; the index of a plan is not.
\<close>

definition maxInt :: int where
  "maxInt = 9007199254740992"

definition exceeds_maxInt :: "int \<Rightarrow> bool" where
  "exceeds_maxInt i \<longleftrightarrow> i \<ge> maxInt"

definition increment :: "int \<Rightarrow> int" where
  "increment i = js_round (i + 1)"

definition next_index :: "int \<Rightarrow> int" where
  "next_index i = (let j = increment i in if exceeds_maxInt j then 0 else j)"

record 'h round_robin =
  rr_hosts :: "'h list option"
  rr_index :: int

definition new_round_robin :: "'h round_robin" where
  "new_round_robin = \<lparr>rr_hosts = None, rr_index = 0\<rparr>"

definition rr_init :: "'h list \<Rightarrow> 'h round_robin \<Rightarrow> 'h round_robin" where
  "rr_init hs p = p\<lparr>rr_hosts := Some hs\<rparr>"

record 'h index_iter =
  ii_hosts :: "'h list"
  ii_counter :: nat
  ii_planIndex :: int

text \<open>With no hosts the remainder is \<open>NaN\<close>, which the iterator never reads.\<close>

definition rr_newQueryPlan :: "'h round_robin \<Rightarrow> 'h round_robin \<times> 'h index_iter result" where
  "rr_newQueryPlan p = (case rr_hosts p of
       None \<Rightarrow> (p, Inl PlainError)
     | Some hs \<Rightarrow> (p\<lparr>rr_index := next_index (rr_index p)\<rparr>,
         Inr \<lparr>ii_hosts = hs, ii_counter = 0, ii_planIndex = rr_index p mod int (length hs)\<rparr>))"

definition rr_next :: "'h index_iter \<Rightarrow> ('h index_iter \<times> 'h option) option" where
  "rr_next it =
     (let c = ii_counter it + 1; n = length (ii_hosts it)
      in if c > n then Some (it\<lparr>ii_counter := c\<rparr>, None)
         else Some (it\<lparr>ii_counter := c, ii_planIndex := increment (ii_planIndex it)\<rparr>, Some (ii_hosts it ! nat (ii_planIndex it mod int n))))"

section \<open>Datacenter-aware round robin\<close>

record 'h dc_aware =
  dc_hosts :: "'h list option"
  dc_index :: int
  dc_localDc :: "string option"
  dc_localHosts :: "'h list option"

definition new_dc_aware :: "string option \<Rightarrow> 'h dc_aware" where
  "new_dc_aware localDc = \<lparr>dc_hosts = None, dc_index = 0, dc_localDc = localDc, dc_localHosts = None\<rparr>"

definition truthy_dc :: "string option \<Rightarrow> bool" where
  "truthy_dc d \<longleftrightarrow> d \<noteq> None \<and> d \<noteq> Some []"

text \<open>
  \<open>setLocalDc\<close>: the datacenter of the policy, or that of the client's options (\<open>None\<close> without a client or
  options), which has to be one of the hosts. The datacenter is set before the checks.
\<close>

definition setLocalDc :: "'h host_api \<Rightarrow> string option option \<Rightarrow> 'h list \<Rightarrow> string option \<Rightarrow> string option \<times> unit result" where
  "setLocalDc api client hs localDc =
     (let dc = (case client of None \<Rightarrow> localDc | Some opt \<Rightarrow> if truthy_dc localDc then localDc else opt)
      in (dc, if \<not> truthy_dc dc then Inl ArgumentError
              else if dc \<notin> h_datacenter api ` set hs then Inl ArgumentError else Inr ()))"

definition dc_init :: "'h host_api \<Rightarrow> string option option \<Rightarrow> 'h list \<Rightarrow> 'h dc_aware \<Rightarrow> 'h dc_aware \<times> unit result" where
  "dc_init api client hs p =
     (let (dc, r) = setLocalDc api client hs (dc_localDc p) in (p\<lparr>dc_hosts := Some hs, dc_localDc := dc\<rparr>, r))"

text \<open>A host added to or removed from the map clears the cache of local hosts.\<close>

definition dc_hosts_changed :: "'h list \<Rightarrow> 'h dc_aware \<Rightarrow> 'h dc_aware" where
  "dc_hosts_changed hs p = p\<lparr>dc_hosts := Some hs, dc_localHosts := None\<rparr>"

definition dc_getDistance :: "'h host_api \<Rightarrow> 'h dc_aware \<Rightarrow> 'h \<Rightarrow> distance" where
  "dc_getDistance api p h = (if h_datacenter api h = dc_localDc p then DistLocal else DistIgnored)"

definition resolveLocalHosts :: "'h host_api \<Rightarrow> 'h list \<Rightarrow> 'h dc_aware \<Rightarrow> 'h dc_aware" where
  "resolveLocalHosts api hs p = (case dc_localHosts p of
       Some _ \<Rightarrow> p
     | None \<Rightarrow> p\<lparr>dc_localHosts := Some (filter (\<lambda>h. truthy_dc (h_datacenter api h) \<and> h_datacenter api h = dc_localDc p) hs)\<rparr>)"

definition dc_newQueryPlan :: "'h host_api \<Rightarrow> 'h dc_aware \<Rightarrow> 'h dc_aware \<times> 'h index_iter result" where
  "dc_newQueryPlan api p = (case dc_hosts p of
       None \<Rightarrow> (p, Inl PlainError)
     | Some hs \<Rightarrow> (let p' = resolveLocalHosts api hs (p\<lparr>dc_index := next_index (dc_index p)\<rparr>)
         in (p', Inr \<lparr>ii_hosts = the (dc_localHosts p'), ii_counter = 0, ii_planIndex = dc_index p'\<rparr>)))"

definition dc_next :: "'h index_iter \<Rightarrow> ('h index_iter \<times> 'h option) option" where
  "dc_next it =
     (let n = length (ii_hosts it)
      in if ii_counter it < n then
           Some (it\<lparr>ii_counter := ii_counter it + 1, ii_planIndex := increment (ii_planIndex it)\<rparr>, Some (ii_hosts it ! nat (ii_planIndex it mod int n)))
         else Some (it\<lparr>ii_counter := ii_counter it + 1\<rparr>, None))"

section \<open>Token awareness\<close>

record ('i, 'h) token_iter =
  ti_localReplicas :: "'h list"
  ti_replicaIndex :: nat
  ti_replicaMap :: "string list"
  ti_startIndex :: nat
  ti_child :: 'i

definition new_token_iter :: "'h host_api \<Rightarrow> ('h \<Rightarrow> distance) \<Rightarrow> nat \<times> nat \<Rightarrow> 'h list \<Rightarrow> 'i \<Rightarrow> ('i, 'h) token_iter" where
  "new_token_iter api getDistance random replicas child =
     (let ls = filter (\<lambda>h. getDistance h = DistLocal) replicas
      in \<lparr>ti_localReplicas = ls, ti_replicaIndex = 0, ti_replicaMap = map (h_address api) ls,
          ti_startIndex = fst random * length ls div snd random, ti_child = child\<rparr>)"

definition computeNext :: "'h host_api \<Rightarrow> ('i \<Rightarrow> ('i \<times> 'h option) option) \<Rightarrow> ('i, 'h) token_iter \<Rightarrow> (('i, 'h) token_iter \<times> 'h option) option" where
  "computeNext api child_next it =
     (let n = length (ti_localReplicas it)
      in if ti_replicaIndex it < n then
           Some (it\<lparr>ti_replicaIndex := ti_replicaIndex it + 1\<rparr>, Some (ti_localReplicas it ! ((ti_startIndex it + ti_replicaIndex it) mod n)))
         else map_option (\<lambda>(c, r). (it\<lparr>ti_child := c\<rparr>, r))
                (skip_until child_next (\<lambda>h. h_address api h \<notin> set (ti_replicaMap it)) (ti_child it)))"

text \<open>The plan of the policy: the child's own without a routing key or replicas.\<close>

datatype ('i, 'h) token_plan = ChildPlan 'i | TokenPlan "('i, 'h) token_iter"

definition token_newQueryPlan :: "'h host_api \<Rightarrow> ('h \<Rightarrow> distance) \<Rightarrow> (string option \<Rightarrow> 'r \<Rightarrow> 'h list option) \<Rightarrow> nat \<times> nat \<Rightarrow>
    string option \<Rightarrow> (string option \<times> 'r option) option \<Rightarrow> (string option \<Rightarrow> 'p \<times> 'i result) \<Rightarrow> 'p \<times> ('i, 'h) token_plan result" where
  "token_newQueryPlan api getDistance getReplicas random keyspace opts child_plan =
     (let ks = (case opts of Some (Some k, _) \<Rightarrow> if k \<noteq> [] then Some k else keyspace | _ \<Rightarrow> keyspace);
          replicas = (case opts of Some (_, Some key) \<Rightarrow> getReplicas ks key | _ \<Rightarrow> None);
          (p, r) = child_plan ks
      in (p, bind_result r (\<lambda>it. Inr (case replicas of None \<Rightarrow> ChildPlan it | Some rs \<Rightarrow> TokenPlan (new_token_iter api getDistance random rs it)))))"

fun token_next :: "'h host_api \<Rightarrow> ('i \<Rightarrow> ('i \<times> 'h option) option) \<Rightarrow> ('i, 'h) token_plan \<Rightarrow> (('i, 'h) token_plan \<times> 'h option) option" where
  "token_next api child_next (ChildPlan it) = map_option (\<lambda>(c, r). (ChildPlan c, r)) (child_next it)"
| "token_next api child_next (TokenPlan it) = map_option (\<lambda>(c, r). (TokenPlan c, r)) (computeNext api child_next it)"

section \<open>Allow list\<close>

definition al_contains :: "'h host_api \<Rightarrow> string list \<Rightarrow> 'h \<Rightarrow> bool" where
  "al_contains api allowList h \<longleftrightarrow> h_address api h \<in> set allowList"

definition al_getDistance :: "'h host_api \<Rightarrow> string list \<Rightarrow> ('h \<Rightarrow> distance) \<Rightarrow> 'h \<Rightarrow> distance" where
  "al_getDistance api allowList getDistance h = (if \<not> al_contains api allowList h then DistIgnored else getDistance h)"

definition al_next :: "'h host_api \<Rightarrow> string list \<Rightarrow> ('i \<Rightarrow> ('i \<times> 'h option) option) \<Rightarrow> 'i \<Rightarrow> ('i \<times> 'h option) option" where
  "al_next api allowList child_next = skip_until child_next (al_contains api allowList)"

section \<open>Plans of the policies\<close>

text \<open>The hosts left in a round-robin iterator, and in a token-aware one over a child.\<close>

definition index_plan :: "'h index_iter \<Rightarrow> 'h list" where
  "index_plan it = map (\<lambda>i. ii_hosts it ! nat ((increment ^^ i) (ii_planIndex it) mod int (length (ii_hosts it))))
     [0..<length (ii_hosts it) - ii_counter it]"

lemma index_plan_Nil: "index_plan it = [] \<longleftrightarrow> length (ii_hosts it) \<le> ii_counter it"
  by (auto simp: index_plan_def)

lemma index_plan_Cons:
  assumes "ii_counter it < length (ii_hosts it)"
  shows "index_plan it = ii_hosts it ! nat (ii_planIndex it mod int (length (ii_hosts it))) #
           index_plan (it\<lparr>ii_counter := ii_counter it + 1, ii_planIndex := increment (ii_planIndex it)\<rparr>)"
proof -
  obtain m where m: "length (ii_hosts it) - ii_counter it = Suc m" using assms by (metis Suc_diff_Suc)
  have m': "length (ii_hosts it) - (ii_counter it + 1) = m" using m by simp
  show ?thesis
    unfolding index_plan_def m map_upt_Suc using m' by (simp add: funpow_swap1)
qed

lemma increment_exact: "0 \<le> i \<Longrightarrow> i < maxInt \<Longrightarrow> increment i = i + 1"
  by (simp add: increment_def maxInt_def)

lemma increments_exact: "0 \<le> i \<Longrightarrow> i + int n \<le> maxInt \<Longrightarrow> (increment ^^ n) i = i + int n"
  by (induction n) (simp_all add: increment_exact)

text \<open>A new index iterator goes once round its hosts, unless its index leaves the exact integers on the way.\<close>

lemma index_plan_start:
  assumes "ii_counter it = 0" "0 \<le> ii_planIndex it" "ii_planIndex it + int (length (ii_hosts it)) \<le> maxInt"
  shows "index_plan it = rotate (nat (ii_planIndex it mod int (length (ii_hosts it)))) (ii_hosts it)"
proof (cases "ii_hosts it = []")
  case False
  let ?n = "length (ii_hosts it)" and ?k = "ii_planIndex it"
  have n: "0 < ?n" using False by simp
  show ?thesis
  proof (rule nth_equalityI)
    fix i assume "i < length (index_plan it)"
    then have i: "i < ?n" by (simp add: index_plan_def assms)
    have "nat ((?k + int i) mod int ?n) = (nat (?k mod int ?n) + i) mod ?n"
      using n by (simp add: nat_mod_distrib nat_int_add mod_add_left_eq[of ?k "int ?n" "int i", symmetric] flip: nat_int_add of_nat_mod)
    then show "index_plan it ! i = rotate (nat (?k mod int ?n)) (ii_hosts it) ! i"
      using i increments_exact[of ?k i] assms by (simp add: index_plan_def nth_rotate)
  qed (simp add: index_plan_def assms)
qed (simp add: index_plan_def)

interpretation rr: query_plan rr_next index_plan
proof
  fix it :: "'h index_iter" assume "index_plan it = []"
  then show "\<exists>it'. rr_next it = Some (it', None) \<and> index_plan it' = []"
    by (simp add: index_plan_Nil rr_next_def)
next
  fix it :: "'h index_iter" and h hs assume p: "index_plan it = h # hs"
  then have c: "ii_counter it < length (ii_hosts it)" using index_plan_Nil[of it] by (simp add: not_le)
  then show "\<exists>it'. rr_next it = Some (it', Some h) \<and> index_plan it' = hs"
    using p index_plan_Cons[OF c] by (auto simp: rr_next_def Let_def)
qed

interpretation dc: query_plan dc_next index_plan
proof
  fix it :: "'h index_iter" assume "index_plan it = []"
  then show "\<exists>it'. dc_next it = Some (it', None) \<and> index_plan it' = []"
    by (simp add: index_plan_Nil dc_next_def)
next
  fix it :: "'h index_iter" and h hs assume p: "index_plan it = h # hs"
  then have c: "ii_counter it < length (ii_hosts it)" using index_plan_Nil[of it] by (simp add: not_le)
  then show "\<exists>it'. dc_next it = Some (it', Some h) \<and> index_plan it' = hs"
    using p index_plan_Cons[OF c] by (auto simp: dc_next_def Let_def)
qed

definition token_iter_plan :: "'h host_api \<Rightarrow> ('i \<Rightarrow> 'h list) \<Rightarrow> ('i, 'h) token_iter \<Rightarrow> 'h list" where
  "token_iter_plan api plan it =
     (let n = length (ti_localReplicas it)
      in map (\<lambda>i. ti_localReplicas it ! ((ti_startIndex it + i) mod n)) [ti_replicaIndex it..<n] @
         filter (\<lambda>h. h_address api h \<notin> set (ti_replicaMap it)) (plan (ti_child it)))"

locale token_aware_plan = query_plan nx plan for nx :: "'i \<Rightarrow> ('i \<times> 'h option) option" and plan :: "'i \<Rightarrow> 'h list" +
  fixes api :: "'h host_api"

sublocale token_aware_plan \<subseteq> token: query_plan "computeNext api nx" "token_iter_plan api plan"
proof
  fix it assume p: "token_iter_plan api plan it = []"
  then have "length (ti_localReplicas it) \<le> ti_replicaIndex it" "filter (\<lambda>h. h_address api h \<notin> set (ti_replicaMap it)) (plan (ti_child it)) = []"
    by (auto simp: token_iter_plan_def Let_def)
  then show "\<exists>it'. computeNext api nx it = Some (it', None) \<and> token_iter_plan api plan it' = []"
    using skip_until_plan[of "\<lambda>h. h_address api h \<notin> set (ti_replicaMap it)" "ti_child it"]
    by (auto simp: computeNext_def Let_def token_iter_plan_def)
next
  fix it h hs assume p: "token_iter_plan api plan it = h # hs"
  show "\<exists>it'. computeNext api nx it = Some (it', Some h) \<and> token_iter_plan api plan it' = hs"
  proof (cases "ti_replicaIndex it < length (ti_localReplicas it)")
    case True
    then show ?thesis using p by (auto simp: computeNext_def Let_def token_iter_plan_def upt_conv_Cons)
  next
    case False
    then have "filter (\<lambda>h. h_address api h \<notin> set (ti_replicaMap it)) (plan (ti_child it)) = h # hs"
      using p by (simp add: token_iter_plan_def Let_def)
    then show ?thesis using False skip_until_plan[of "\<lambda>h. h_address api h \<notin> set (ti_replicaMap it)" "ti_child it"]
      by (auto simp: computeNext_def Let_def token_iter_plan_def)
  qed
qed

text \<open>Token awareness over both round robins, and an allow list over it.\<close>

interpretation token_rr: token_aware_plan rr_next index_plan api for api :: "'h host_api"
  by unfold_locales

interpretation token_dc: token_aware_plan dc_next index_plan api for api :: "'h host_api"
  by unfold_locales

interpretation allow_dc: filtered_plan dc_next index_plan "al_contains api allowList" for api :: "'h host_api" and allowList
  by unfold_locales

interpretation allow_token_dc: filtered_plan "computeNext api dc_next" "token_iter_plan api index_plan" "al_contains api allowList"
  for api :: "'h host_api" and allowList
  by unfold_locales

lemma next_index_value: "0 \<le> i \<Longrightarrow> i < maxInt \<Longrightarrow> next_index i = (if i + 1 = maxInt then 0 else i + 1)"
  by (auto simp: next_index_def increment_exact exceeds_maxInt_def)

text \<open>
  Round robin is complete and fair: a plan of an initialised policy returns every host exactly once, as the
  hosts rotated by the policy's index, then says it is done; the next plan starts one host further, and the index
  starts again at zero when it reaches \<open>utils.maxInt\<close>. An array has fewer than \<open>2 ^ 32\<close> elements.
\<close>

theorem round_robin_plan:
  assumes "rr_hosts p = Some hs" "length hs < 2 ^ 32" "rr_newQueryPlan p = (p', Inr it)" "0 \<le> rr_index p" "rr_index p < maxInt"
  shows "drain (Suc (length hs)) rr_next it = Some (rotate (nat (rr_index p mod int (length hs))) hs) \<and>
         rr_hosts p' = Some hs \<and> rr_index p' = (if rr_index p + 1 = maxInt then 0 else rr_index p + 1)"
proof -
  have it: "it = \<lparr>ii_hosts = hs, ii_counter = 0, ii_planIndex = rr_index p mod int (length hs)\<rparr>" "p' = p\<lparr>rr_index := next_index (rr_index p)\<rparr>"
    using assms(1,3) by (auto simp: rr_newQueryPlan_def)
  have "index_plan it = rotate (nat (rr_index p mod int (length hs))) hs"
  proof (cases "hs = []")
    case False
    then have "rr_index p mod int (length hs) < int (length hs)" by simp
    then have "rr_index p mod int (length hs) + int (length hs) \<le> maxInt" using assms(2) by (simp add: maxInt_def)
    then show ?thesis using index_plan_start[of it] it(1) False by simp
  qed (simp add: it index_plan_def)
  moreover have "drain (Suc (length (index_plan it))) rr_next it = Some (index_plan it)" by (rule rr.drain_plan) simp
  ultimately show ?thesis using it(2) assms(1) next_index_value[OF assms(4,5)] by simp
qed

theorem round_robin_plan_witness:
  "drain 4 rr_next \<lparr>ii_hosts = [10, 20, 30 :: nat], ii_counter = 0, ii_planIndex = 1\<rparr> = Some [20, 30, 10]"
proof -
  have "drain (Suc (length [10, 20, 30 :: nat])) rr_next \<lparr>ii_hosts = [10, 20, 30 :: nat], ii_counter = 0, ii_planIndex = 1\<rparr> =
      Some (rotate (nat (4 mod int (length [10, 20, 30 :: nat]))) [10, 20, 30])"
    using round_robin_plan[of "\<lparr>rr_hosts = Some [10, 20, 30 :: nat], rr_index = 4\<rparr>" "[10, 20, 30]"
        "\<lparr>rr_hosts = Some [10, 20, 30], rr_index = next_index 4\<rparr>" "\<lparr>ii_hosts = [10, 20, 30], ii_counter = 0, ii_planIndex = 1\<rparr>"]
    by (simp add: rr_newQueryPlan_def maxInt_def)
  then show ?thesis by (simp add: numeral_eq_Suc)
qed

text \<open>
  The cache of local hosts is empty or holds the hosts of the local datacenter: it is so after the policy is made
  and initialised, and a new plan and a change of the hosts keep it so.
\<close>

definition dc_locals :: "'h host_api \<Rightarrow> 'h dc_aware \<Rightarrow> 'h list \<Rightarrow> 'h list" where
  "dc_locals api p hs = filter (\<lambda>h. truthy_dc (h_datacenter api h) \<and> h_datacenter api h = dc_localDc p) hs"

definition dc_cache_ok :: "'h host_api \<Rightarrow> 'h dc_aware \<Rightarrow> bool" where
  "dc_cache_ok api p \<longleftrightarrow> dc_localHosts p = None \<or> (\<exists>hs. dc_hosts p = Some hs \<and> dc_localHosts p = Some (dc_locals api p hs))"

lemma dc_cache_kept:
  shows "dc_cache_ok api (fst (dc_init api client hs (new_dc_aware localDc)))"
    and "dc_cache_ok api (dc_hosts_changed hs p)"
    and "dc_cache_ok api p \<Longrightarrow> dc_cache_ok api (fst (dc_newQueryPlan api p))"
  by (auto simp: dc_cache_ok_def dc_init_def new_dc_aware_def dc_hosts_changed_def dc_newQueryPlan_def resolveLocalHosts_def dc_locals_def Let_def
      split: prod.splits option.splits)

lemma dc_plan:
  assumes "dc_hosts p = Some hs" "dc_cache_ok api p" "dc_newQueryPlan api p = (p', Inr it)" "0 \<le> dc_index p" "dc_index p + int (length hs) < maxInt"
  shows "index_plan it = rotate (nat (dc_index p' mod int (length (dc_locals api p hs)))) (dc_locals api p hs)"
    and "dc_index p' = (if dc_index p + 1 = maxInt then 0 else dc_index p + 1)"
proof -
  have it: "it = \<lparr>ii_hosts = dc_locals api p hs, ii_counter = 0, ii_planIndex = next_index (dc_index p)\<rparr>" "dc_index p' = next_index (dc_index p)"
    using assms(1-3) by (auto simp: dc_newQueryPlan_def resolveLocalHosts_def dc_cache_ok_def dc_locals_def split: option.splits)
  show i: "dc_index p' = (if dc_index p + 1 = maxInt then 0 else dc_index p + 1)"
    using next_index_value[of "dc_index p"] assms(4,5) it(2) by simp
  have "length (dc_locals api p hs) \<le> length hs" by (simp add: dc_locals_def)
  then have "ii_planIndex it + int (length (ii_hosts it)) \<le> maxInt" "0 \<le> ii_planIndex it" using assms(4,5) i it by (auto split: if_splits)
  then show "index_plan it = rotate (nat (dc_index p' mod int (length (dc_locals api p hs)))) (dc_locals api p hs)"
    using index_plan_start[of it] it by simp
qed

lemma token_replicas_rotated:
  "ti_replicaIndex it = 0 \<Longrightarrow> map (\<lambda>i. ti_localReplicas it ! ((ti_startIndex it + i) mod length (ti_localReplicas it))) [ti_replicaIndex it..<length (ti_localReplicas it)] =
   rotate (ti_startIndex it) (ti_localReplicas it)"
  by (rule nth_equalityI) (auto simp: nth_rotate)

text \<open>
  C9: A token-aware plan over the datacenter-aware policy returns first the replicas that are in the local datacenter,
  rotated by the random start, then the other hosts of the local datacenter, rotated by the policy's index, and then is
  done: each local host exactly once and no other host. The policy has its hosts, a local datacenter that is not empty
  and a cache of local hosts that is empty or right, the hosts have different addresses, the replicas are different
  hosts of the cluster, and the index is so far below \<open>utils.maxInt\<close> that a plan does not run past it.
\<close>

theorem token_aware_plan_complete:
  assumes "dc_hosts p = Some hs" "dc_cache_ok api p" "truthy_dc (dc_localDc p)" "0 \<le> dc_index p" "dc_index p + int (length hs) < maxInt"
    and "dc_newQueryPlan api p = (p', Inr child)"
    and "distinct (map (h_address api) hs)" "distinct replicas" "set replicas \<subseteq> set hs"
    and "it = new_token_iter api (dc_getDistance api p) random replicas child"
    and "ls = filter (\<lambda>h. h_datacenter api h = dc_localDc p) replicas" "locals = filter (\<lambda>h. h_datacenter api h = dc_localDc p) hs"
    and "plan = rotate (fst random * length ls div snd random) ls @
                filter (\<lambda>h. h \<notin> set replicas) (rotate (nat (dc_index p' mod int (length locals))) locals)"
  shows "drain (Suc (length hs)) (computeNext api dc_next) it = Some plan \<and> distinct plan \<and> set plan = set locals"
proof -
  have dl: "dc_locals api p hs = locals"
  proof -
    have "(\<lambda>h. truthy_dc (h_datacenter api h) \<and> h_datacenter api h = dc_localDc p) = (\<lambda>h. h_datacenter api h = dc_localDc p)" using assms(3) by auto
    then show ?thesis by (simp add: dc_locals_def assms(12))
  qed
  have child: "index_plan child = rotate (nat (dc_index p' mod int (length locals))) locals"
    using dc_plan(1)[OF assms(1,2,6,4,5)] unfolding dl .
  have ls: "ti_localReplicas it = ls" "ti_replicaIndex it = 0" "ti_replicaMap it = map (h_address api) ls" "ti_child it = child"
    "ti_startIndex it = fst random * length ls div snd random"
    using assms(10) by (simp_all add: new_token_iter_def Let_def dc_getDistance_def assms(11))
  have inj: "inj_on (h_address api) (set hs)" using assms(7) by (simp add: distinct_map)
  have replica: "h_address api h \<notin> set (map (h_address api) ls) \<longleftrightarrow> h \<notin> set replicas" if "h \<in> set locals" for h
    using that inj assms(9,11,12) by (auto dest: inj_onD)
  have "filter (\<lambda>h. h_address api h \<notin> set (map (h_address api) ls)) (index_plan child) = filter (\<lambda>h. h \<notin> set replicas) (index_plan child)"
    using replica by (intro filter_cong) (auto simp: child)
  then have plan: "token_iter_plan api index_plan it = plan"
    using token_replicas_rotated[OF ls(2)] by (simp add: token_iter_plan_def Let_def ls child assms(13))
  have dh: "distinct hs" using assms(7) by (simp add: distinct_map)
  have d: "distinct plan" using assms(8,11) dh by (auto simp: assms(12,13))
  have st: "set plan = set locals" using assms(9) by (auto simp: assms(11-13))
  have "length plan \<le> length hs"
    using distinct_card[OF d] distinct_card[OF dh] st card_mono[of "set hs" "set locals"] by (simp add: assms(12))
  then show ?thesis
    using token_dc.token.drain_plan[of api it "Suc (length hs)"] plan d st by simp
qed

definition example_api :: "nat host_api" where
  "example_api = \<lparr>h_address = (\<lambda>h. [char_of (48 + h)]), h_datacenter = (\<lambda>h. Some (if h < 3 then ''dc1'' else ''dc2''))\<rparr>"

definition example_dc :: "nat dc_aware" where
  "example_dc = (new_dc_aware (Some ''dc1''))\<lparr>dc_hosts := Some [0, 1, 2, 3]\<rparr>"

theorem token_aware_plan_complete_witness:
  "drain 5 (computeNext example_api dc_next)
     (new_token_iter example_api (dc_getDistance example_api example_dc) (1, 2) [2, 3] \<lparr>ii_hosts = [0, 1, 2], ii_counter = 0, ii_planIndex = 1\<rparr>) =
   Some [2, 1, 0]"
proof -
  have p: "dc_newQueryPlan example_api example_dc =
      (example_dc\<lparr>dc_index := 1, dc_localHosts := Some [0, 1, 2]\<rparr>, Inr \<lparr>ii_hosts = [0, 1, 2], ii_counter = 0, ii_planIndex = 1\<rparr>)"
    by (simp add: dc_newQueryPlan_def example_dc_def new_dc_aware_def resolveLocalHosts_def next_index_def increment_def exceeds_maxInt_def maxInt_def
        example_api_def truthy_dc_def)
  have addr: "distinct (map (h_address example_api) [0, 1, 2, 3])" by code_simp
  have ok: "dc_cache_ok example_api example_dc" "truthy_dc (dc_localDc example_dc)" "dc_index example_dc = 0" "dc_hosts example_dc = Some [0, 1, 2, 3]"
    by (simp_all add: example_dc_def new_dc_aware_def truthy_dc_def dc_cache_ok_def)
  have loc: "filter (\<lambda>h. h_datacenter example_api h = dc_localDc example_dc) [2, 3] = [2]"
    "filter (\<lambda>h. h_datacenter example_api h = dc_localDc example_dc) [0, 1, 2, 3] = [0, 1, 2]"
    by (simp_all add: example_api_def example_dc_def new_dc_aware_def)
  have "drain (Suc (length [0, 1, 2, 3 :: nat])) (computeNext example_api dc_next)
      (new_token_iter example_api (dc_getDistance example_api example_dc) (1, 2) [2, 3] \<lparr>ii_hosts = [0, 1, 2], ii_counter = 0, ii_planIndex = 1\<rparr>) =
    Some (rotate (1 * length [2 :: nat] div 2) [2] @ filter (\<lambda>h. h \<notin> set [2, 3]) (rotate (nat (1 mod int (length [0, 1, 2 :: nat]))) [0, 1, 2]))"
    using token_aware_plan_complete[OF ok(4,1,2) _ _ p addr, of "[2, 3]" _ "(1, 2)", OF _ _ _ _ refl refl refl refl]
    unfolding loc by (simp add: ok maxInt_def)
  then show ?thesis by (simp add: numeral_eq_Suc)
qed

text \<open>An allow list over a plan yields the allowed hosts of it, in the same order.\<close>

lemma allow_list_plan:
  "drain (Suc (length (token_iter_plan api index_plan it))) (al_next api allowList (computeNext api dc_next)) it =
   Some (filter (al_contains api allowList) (token_iter_plan api index_plan it))"
  unfolding al_next_def by (rule allow_token_dc.filtered.drain_plan) (simp add: less_Suc_eq_le)

end
