(* ===== verification/Default_Balancing.thy ===== *)
theory Default_Balancing
  imports Load_Balancing
begin

text \<open>
  \<open>DefaultLoadBalancingPolicy\<close> of \<^verbatim>\<open>src/lib/policies/load-balancing.js\<close> over the hosts of \<^verbatim>\<open>src/lib/host.js\<close>. Its
  plans are generators, which run as far as the next host when they are asked for one: a generator is the point it
  stands at, and \<open>next\<close> also changes the policy, because the walk over the local hosts takes the policy's index when
  it starts. A generator that raises is finished.

  The plans ask \<open>Host.isUp\<close> of every local host, and that method raises that it is not implemented. So no replica
  gets past the check of \<open>_getReplicasAndLocalHosts\<close>: the counts it takes after the check and the reordering of three
  and more replicas (newly up, unhealthy, least busy of two) cannot be reached and are not modelled.
\<close>

section \<open>The policy\<close>

record 'h default_policy =
  dp_hosts :: "'h list option"
  dp_filteredHosts :: "'h list option"
  dp_preferredHost :: "'h option"
  dp_index :: nat
  dp_localDc :: "string option"
  dp_filter :: "'h \<Rightarrow> bool"

text \<open>The constructor, with the local datacenter and the filter of its options.\<close>

definition new_default_policy :: "string option \<Rightarrow> ('h \<Rightarrow> bool) option \<Rightarrow> 'h default_policy" where
  "new_default_policy localDc flt = \<lparr>dp_hosts = None, dp_filteredHosts = None, dp_preferredHost = None, dp_index = 0, dp_localDc = localDc,
     dp_filter = (case flt of None \<Rightarrow> (\<lambda>h. True) | Some f \<Rightarrow> f)\<rparr>"

definition dp_init :: "'h host_api \<Rightarrow> string option option \<Rightarrow> 'h list \<Rightarrow> 'h default_policy \<Rightarrow> 'h default_policy \<times> unit result" where
  "dp_init api client hs p = (let (dc, r) = setLocalDc api client hs (dp_localDc p) in (p\<lparr>dp_hosts := Some hs, dp_localDc := dc\<rparr>, r))"

definition dp_hosts_changed :: "'h list \<Rightarrow> 'h default_policy \<Rightarrow> 'h default_policy" where
  "dp_hosts_changed hs p = p\<lparr>dp_hosts := Some hs, dp_filteredHosts := None\<rparr>"

definition dp_getDistance :: "'h host_api \<Rightarrow> 'h default_policy \<Rightarrow> 'h \<Rightarrow> distance" where
  "dp_getDistance api p h =
     (if dp_preferredHost p = Some h then DistLocal
      else if \<not> dp_filter p h then DistIgnored
      else if h_datacenter api h = dp_localDc p then DistLocal else DistIgnored)"

definition getIndex :: "'h default_policy \<Rightarrow> nat \<times> 'h default_policy" where
  "getIndex p = (let i = dp_index p + 1 in (dp_index p, p\<lparr>dp_index := (if i = 2147483647 then 0 else i)\<rparr>))"

definition is_local :: "'h host_api \<Rightarrow> 'h default_policy \<Rightarrow> 'h \<Rightarrow> bool" where
  "is_local api p h \<longleftrightarrow> dp_filter p h \<and> h_datacenter api h = dp_localDc p"

text \<open>Before \<open>init\<close> there is no map of hosts to read.\<close>

definition getFilteredLocalHosts :: "'h host_api \<Rightarrow> 'h default_policy \<Rightarrow> ('h list \<times> 'h default_policy) result" where
  "getFilteredLocalHosts api p = (case dp_filteredHosts p of
       Some hs \<Rightarrow> Inr (hs, p)
     | None \<Rightarrow> (case dp_hosts p of
           None \<Rightarrow> Inl TypeError
         | Some hs \<Rightarrow> (let ls = filter (is_local api p) hs in Inr (ls, p\<lparr>dp_filteredHosts := Some ls\<rparr>))))"

text \<open>\<open>Host.isUp\<close> is not implemented by this driver.\<close>

definition host_isUp :: "'h \<Rightarrow> bool result" where
  "host_isUp h = Inl PlainError"

section \<open>Generators\<close>

datatype 'h gen =
    GenLocal "'h list option"
  | GenLocalAt "'h list" nat nat "'h list option"
  | GenReplicas "'h list" nat
  | GenDone

text \<open>The loop of \<open>_getLocalHosts\<close> from \<open>i\<close> on: the next host and where to go on, or the end.\<close>

function local_scan :: "'h list option \<Rightarrow> 'h list \<Rightarrow> nat \<Rightarrow> nat \<Rightarrow> (nat \<times> 'h) option result" where
  "local_scan localReplicas hosts idx i =
     (if i < length hosts then
        (let h = hosts ! ((i + idx) mod length hosts)
         in if (case localReplicas of None \<Rightarrow> True | Some rs \<Rightarrow> h \<notin> set rs)
            then (case host_isUp h of
                Inl e \<Rightarrow> Inl e
              | Inr up \<Rightarrow> if up then Inr (Some (i + 1, h)) else local_scan localReplicas hosts idx (i + 1))
            else local_scan localReplicas hosts idx (i + 1))
      else Inr None)"
  by pat_completeness auto
termination by (relation "measure (\<lambda>(_, hosts, _, i). length hosts - i)") auto

declare local_scan.simps [simp del]

definition local_next :: "'h default_policy \<Rightarrow> 'h list \<Rightarrow> nat \<Rightarrow> nat \<Rightarrow> 'h list option \<Rightarrow> ('h default_policy \<times> 'h gen) \<times> 'h option result" where
  "local_next p hosts idx i localReplicas = (case local_scan localReplicas hosts idx i of
       Inl e \<Rightarrow> ((p, GenDone), Inl e)
     | Inr None \<Rightarrow> ((p, GenDone), Inr None)
     | Inr (Some (i', h)) \<Rightarrow> ((p, GenLocalAt hosts idx i' localReplicas), Inr (Some h)))"

definition local_start :: "'h host_api \<Rightarrow> 'h default_policy \<Rightarrow> 'h list option \<Rightarrow> ('h default_policy \<times> 'h gen) \<times> 'h option result" where
  "local_start api p localReplicas = (case getFilteredLocalHosts api p of
       Inl e \<Rightarrow> ((p, GenDone), Inl e)
     | Inr (hosts, p1) \<Rightarrow> (let (idx, p2) = getIndex p1 in local_next p2 hosts idx 0 localReplicas))"

fun gen_next :: "'h host_api \<Rightarrow> 'h default_policy \<times> 'h gen \<Rightarrow> ('h default_policy \<times> 'h gen) \<times> 'h option result" where
  "gen_next api (p, GenLocal localReplicas) = local_start api p localReplicas"
| "gen_next api (p, GenLocalAt hosts idx i localReplicas) = local_next p hosts idx i localReplicas"
| "gen_next api (p, GenReplicas rs i) =
     (if i < length rs then ((p, GenReplicas rs (i + 1)), Inr (Some (rs ! i))) else local_start api p (Some rs))"
| "gen_next api (p, GenDone) = ((p, GenDone), Inr None)"

text \<open>The loop of \<open>_getPreferredHostFirst\<close> over the other generator, which leaves the preferred host out.\<close>

partial_function (option) skip_preferred :: "('i \<Rightarrow> 'i \<times> 'h option result) \<Rightarrow> 'h \<Rightarrow> 'i \<Rightarrow> ('i \<times> 'h option result) option" where
  [code]: "skip_preferred nx h it = (case nx it of
       (it', Inr (Some x)) \<Rightarrow> if x \<noteq> h then Some (it', Inr (Some x)) else skip_preferred nx h it'
     | (it', r) \<Rightarrow> Some (it', r))"

datatype 'h default_iter = PlainGen "'h gen" | PreferredGen 'h bool "'h gen"

fun default_next :: "'h host_api \<Rightarrow> 'h default_policy \<times> 'h default_iter \<Rightarrow> (('h default_policy \<times> 'h default_iter) \<times> 'h option result) option" where
  "default_next api (p, PlainGen g) = (case gen_next api (p, g) of ((p', g'), r) \<Rightarrow> Some ((p', PlainGen g'), r))"
| "default_next api (p, PreferredGen h False g) = Some ((p, PreferredGen h True g), Inr (Some h))"
| "default_next api (p, PreferredGen h True g) =
     map_option (\<lambda>((p', g'), r). ((p', case r of Inr (Some _) \<Rightarrow> PreferredGen h True g' | _ \<Rightarrow> PlainGen GenDone), r))
       (skip_preferred (gen_next api) h (p, g))"

section \<open>New plans\<close>

text \<open>The pass over the replicas of \<open>_getReplicasAndLocalHosts\<close>, up to and including the check that the host is up.\<close>

fun scan_replicas :: "'h host_api \<Rightarrow> 'h default_policy \<Rightarrow> 'h list \<Rightarrow> 'h list result" where
  "scan_replicas api p [] = Inr []"
| "scan_replicas api p (h # hs) =
     (if \<not> is_local api p h then scan_replicas api p hs
      else case host_isUp h of
          Inl e \<Rightarrow> Inl e
        | Inr up \<Rightarrow> bind_result (scan_replicas api p hs) (\<lambda>rs. Inr (if up then h # rs else rs)))"

definition getReplicasAndLocalHosts :: "'h host_api \<Rightarrow> (string \<Rightarrow> 'r \<Rightarrow> 'h list option) \<Rightarrow> 'h default_policy \<Rightarrow> string \<Rightarrow> 'r \<Rightarrow> 'h gen result" where
  "getReplicasAndLocalHosts api getReplicas p keyspace routingKey = (case getReplicas keyspace routingKey of
       None \<Rightarrow> Inr (GenLocal None)
     | Some rs \<Rightarrow> bind_result (scan_replicas api p rs) (\<lambda>rs'. Inr (GenReplicas rs' 0)))"

text \<open>The options of an execution the policy reads: keyspace, routing key and preferred host.\<close>

definition default_newQueryPlan :: "'h host_api \<Rightarrow> (string \<Rightarrow> 'r \<Rightarrow> 'h list option) \<Rightarrow>
    'h default_policy \<Rightarrow> string option \<Rightarrow> (string option \<times> 'r option \<times> 'h option) option \<Rightarrow> 'h default_policy \<times> 'h default_iter result" where
  "default_newQueryPlan api getReplicas p keyspace opts =
     (let ks = (case opts of Some (k, _, _) \<Rightarrow> if truthy_dc k then k else keyspace | None \<Rightarrow> keyspace);
          key = (case opts of Some (_, r, _) \<Rightarrow> r | None \<Rightarrow> None);
          preferred = (case opts of Some (_, _, h) \<Rightarrow> h | None \<Rightarrow> None)
      in case (if \<not> truthy_dc ks then Inr (GenLocal None) else case key of
                 None \<Rightarrow> Inr (GenLocal None)
               | Some r \<Rightarrow> getReplicasAndLocalHosts api getReplicas p (the ks) r) of
           Inl e \<Rightarrow> (p, Inl e)
         | Inr g \<Rightarrow> (case preferred of
               None \<Rightarrow> (p, Inr (PlainGen g))
             | Some h \<Rightarrow> (p\<lparr>dp_preferredHost := Some h\<rparr>, Inr (PreferredGen h False g))))"

section \<open>What the plans give\<close>

text \<open>The first \<open>n\<close> answers of an iterator; \<open>None\<close> when one does not return.\<close>

fun answers :: "nat \<Rightarrow> ('i \<Rightarrow> ('i \<times> 'a) option) \<Rightarrow> 'i \<Rightarrow> 'a list option" where
  "answers 0 nx it = Some []"
| "answers (Suc n) nx it = (case nx it of None \<Rightarrow> None | Some (it', r) \<Rightarrow> map_option (\<lambda>rs. r # rs) (answers n nx it'))"

definition dp_locals :: "'h host_api \<Rightarrow> 'h default_policy \<Rightarrow> 'h list \<Rightarrow> 'h list" where
  "dp_locals api p hs = filter (is_local api p) hs"

definition dp_cache_ok :: "'h host_api \<Rightarrow> 'h default_policy \<Rightarrow> bool" where
  "dp_cache_ok api p \<longleftrightarrow> (\<exists>hs. dp_hosts p = Some hs \<and> (dp_filteredHosts p = None \<or> dp_filteredHosts p = Some (dp_locals api p hs)))"

lemma local_scan_raises: "local_scan None hosts idx 0 = (if hosts = [] then Inr None else Inl PlainError)"
  by (subst local_scan.simps) (simp add: host_isUp_def)

lemma local_scan_except_none: "local_scan (Some []) hosts idx 0 = (if hosts = [] then Inr None else Inl PlainError)"
  by (subst local_scan.simps) (simp add: host_isUp_def)

lemma scan_replicas_value:
  "scan_replicas api p rs = (if \<exists>h \<in> set rs. is_local api p h then Inl PlainError else Inr [])"
  by (induction rs) (auto simp: host_isUp_def)

text \<open>The two generators a plan can start with: over the local hosts, alone or after no replica.\<close>

definition starts_locally :: "'h gen \<Rightarrow> bool" where
  "starts_locally g \<longleftrightarrow> g = GenLocal None \<or> g = GenReplicas [] 0"

lemma gen_next_start:
  assumes "starts_locally g" "dp_cache_ok api p" "dp_hosts p = Some hs"
  shows "\<exists>p'. gen_next api (p, g) = ((p', GenDone), if dp_locals api p hs = [] then Inr None else Inl PlainError)"
proof -
  have "\<exists>p'. getFilteredLocalHosts api p = Inr (dp_locals api p hs, p')"
    using assms(2,3) by (auto simp: dp_cache_ok_def getFilteredLocalHosts_def dp_locals_def Let_def)
  then show ?thesis using assms(1)
    by (auto simp: starts_locally_def local_start_def getIndex_def local_next_def local_scan_raises local_scan_except_none Let_def)
qed

lemma answers_done: "answers n (default_next api) (p, PlainGen GenDone) = Some (replicate n (Inr None))"
  by (induction n) auto

lemma plain_answers:
  assumes "starts_locally g" "dp_cache_ok api p" "dp_hosts p = Some hs"
  shows "answers (Suc n) (default_next api) (p, PlainGen g) =
    Some ((if dp_locals api p hs = [] then Inr None else Inl PlainError) # replicate n (Inr None))"
  using gen_next_start[OF assms] by (auto simp: answers_done)

lemma preferred_answers:
  assumes "starts_locally g" "dp_cache_ok api p" "dp_hosts p = Some hs"
  shows "answers (Suc (Suc n)) (default_next api) (p, PreferredGen h False g) =
    Some (Inr (Some h) # (if dp_locals api p hs = [] then Inr None else Inl PlainError) # replicate n (Inr None))"
proof -
  obtain p' where nx: "gen_next api (p, g) = ((p', GenDone), if dp_locals api p hs = [] then Inr None else Inl PlainError)"
    using gen_next_start[OF assms] by blast
  have "skip_preferred (gen_next api) h (p, g) = Some ((p', GenDone), if dp_locals api p hs = [] then Inr None else Inl PlainError)"
    using nx by (subst skip_preferred.simps) simp
  then show ?thesis by (simp add: answers_done)
qed


definition example_policy :: "nat default_policy" where
  "example_policy = (new_default_policy (Some ''dc1'') None)\<lparr>dp_hosts := Some [0, 1, 2, 3]\<rparr>"


end
