(* ===== verification/Event_Debouncer.thy ===== *)
theory Event_Debouncer
  imports Js_Prelude "HOL-Library.Multiset"
begin

text \<open>
  The debouncer of schema and topology events (\<^verbatim>\<open>src/lib/metadata/event-debouncer.js\<close>): events wait in a queue
  until no new one has come for a while, then they are processed together; an event for the whole cluster or for
  a whole keyspace supersedes the others.

  Processing calls handlers, which are code of the event's sender. The handler of a superseding event gives a promise,
  and the callbacks that wait for it are called when it settles: until then they are a flight of the model, which a
  step of its own ends, with an error or without, or which never ends. The other handlers are called one by one, each
  followed by the callback of its event. A handler may raise when it is called, as the argument \<open>throws\<close> says; the
  rest of the processing is skipped then, and the error leaves through the timer, or rejects the promise of the event
  that is being received.
\<close>

section \<open>Events and queues\<close>

text \<open>
  An event with its identity, whether it is marked with \<open>all\<close>, the keyspace (the text \<open>undefined\<close> for none) and
  whether \<open>cqlObject\<close> is undefined, that is whether it is for the whole keyspace.
\<close>

record event =
  ev_id :: nat
  ev_all :: bool
  ev_keyspace :: string
  ev_whole :: bool

record keyspace_events =
  ke_events :: "event list"
  ke_mainEvent :: "event option"

record event_queue =
  q_callbacks :: "event list"
  q_keyspaces :: "(string \<times> keyspace_events) list"
  q_mainEvent :: "event option"

text \<open>The timer is the delay it was set with; setting one replaces the one before.\<close>

record debouncer =
  d_delay :: nat
  d_queue :: "event_queue option"
  d_timeout :: "nat option"

datatype action =
    RunHandler event
  | CallBack event "js_error option"
  | WarnOverflow
  | RejectPromise event js_error
  | Uncaught js_error

text \<open>
  The keyspaces of a queue are the properties of an object, in the order they were added. That is so for names that
  are no numerals, which an object orders by value, and that objects do not have from \<open>Object.prototype\<close>.
\<close>

definition inherited_names :: "string list" where
  "inherited_names = [''constructor'', ''toString'', ''toLocaleString'', ''valueOf'', ''hasOwnProperty'', ''isPrototypeOf'', ''propertyIsEnumerable'',
     ''__proto__'', ''__defineGetter__'', ''__defineSetter__'', ''__lookupGetter__'', ''__lookupSetter__'']"

definition plain_keyspace :: "string \<Rightarrow> bool" where
  "plain_keyspace n \<longleftrightarrow> n \<notin> set inherited_names \<and> \<not> (n \<noteq> [] \<and> set n \<subseteq> set ''0123456789'')"

definition queueOverflowThreshold :: nat where "queueOverflowThreshold = 1000"

definition new_debouncer :: "nat \<Rightarrow> debouncer" where
  "new_debouncer delay = \<lparr>d_delay = delay, d_queue = None, d_timeout = None\<rparr>"

definition empty_queue :: event_queue where
  "empty_queue = \<lparr>q_callbacks = [], q_keyspaces = [], q_mainEvent = None\<rparr>"

section \<open>Processing\<close>

text \<open>
  What processing does at once: the actions, the flights it leaves (the superseding event whose handler runs, with the
  events that wait for it), and the error of a handler that raised.
\<close>

record processed =
  p_actions :: "action list"
  p_flights :: "(event \<times> event list) list"
  p_raised :: "js_error option"

text \<open>The loop over the events of a keyspace without a superseding one.\<close>

fun process_events :: "(event \<Rightarrow> js_error option) \<Rightarrow> event list \<Rightarrow> processed" where
  "process_events throws [] = \<lparr>p_actions = [], p_flights = [], p_raised = None\<rparr>"
| "process_events throws (e # es) = (case throws e of
       Some err \<Rightarrow> \<lparr>p_actions = [RunHandler e], p_flights = [], p_raised = Some err\<rparr>
     | None \<Rightarrow> (let p = process_events throws es in p\<lparr>p_actions := RunHandler e # CallBack e None # p_actions p\<rparr>))"

text \<open>Calling the handler of a superseding event for the events that wait.\<close>

definition start_flight :: "(event \<Rightarrow> js_error option) \<Rightarrow> event \<Rightarrow> event list \<Rightarrow> processed" where
  "start_flight throws m es = (case throws m of
       Some err \<Rightarrow> \<lparr>p_actions = [RunHandler m], p_flights = [], p_raised = Some err\<rparr>
     | None \<Rightarrow> \<lparr>p_actions = [RunHandler m], p_flights = [(m, es)], p_raised = None\<rparr>)"

definition process_keyspace :: "(event \<Rightarrow> js_error option) \<Rightarrow> keyspace_events \<Rightarrow> processed" where
  "process_keyspace throws k = (case ke_mainEvent k of
       Some m \<Rightarrow> start_flight throws m (ke_events k)
     | None \<Rightarrow> process_events throws (ke_events k))"

text \<open>\<open>utils.each\<close> over the keyspaces: it does not wait for the flights, and an error ends it.\<close>

fun process_keyspaces :: "(event \<Rightarrow> js_error option) \<Rightarrow> (string \<times> keyspace_events) list \<Rightarrow> processed" where
  "process_keyspaces throws [] = \<lparr>p_actions = [], p_flights = [], p_raised = None\<rparr>"
| "process_keyspaces throws ((_, k) # ks) =
     (let p = process_keyspace throws k
      in if p_raised p \<noteq> None then p
         else let ps = process_keyspaces throws ks
              in \<lparr>p_actions = p_actions p @ p_actions ps, p_flights = p_flights p @ p_flights ps, p_raised = p_raised ps\<rparr>)"

definition processQueue :: "(event \<Rightarrow> js_error option) \<Rightarrow> event_queue \<Rightarrow> processed" where
  "processQueue throws q = (case q_mainEvent q of
       Some m \<Rightarrow> start_flight throws m (q_callbacks q)
     | None \<Rightarrow> process_keyspaces throws (q_keyspaces q))"

text \<open>A flight settles: the callbacks of its events are called with the error, or without one.\<close>

definition settle_flight :: "js_error option \<Rightarrow> event \<times> event list \<Rightarrow> action list" where
  "settle_flight err fl = map (\<lambda>e. CallBack e err) (snd fl)"

text \<open>\<open>process\<close> of \<open>_slideDelay\<close>: the queue and the timer are cleared first.\<close>

definition process_now :: "(event \<Rightarrow> js_error option) \<Rightarrow> debouncer \<Rightarrow> debouncer \<times> processed" where
  "process_now throws d = (d\<lparr>d_queue := None, d_timeout := None\<rparr>, case d_queue d of
       None \<Rightarrow> \<lparr>p_actions = [], p_flights = [], p_raised = Some TypeError\<rparr>
     | Some q \<Rightarrow> processQueue throws q)"

definition slideDelay :: "(event \<Rightarrow> js_error option) \<Rightarrow> nat \<Rightarrow> debouncer \<Rightarrow> debouncer \<times> processed" where
  "slideDelay throws delay d =
     (if delay = 0 then process_now throws d else (d\<lparr>d_timeout := Some delay\<rparr>, \<lparr>p_actions = [], p_flights = [], p_raised = None\<rparr>))"

text \<open>The timer fires: an error of a handler is an uncaught one.\<close>

definition timer_fires :: "(event \<Rightarrow> js_error option) \<Rightarrow> debouncer \<Rightarrow> debouncer \<times> action list \<times> (event \<times> event list) list" where
  "timer_fires throws d = (let (d', p) = process_now throws d
     in (d', p_actions p @ (case p_raised p of None \<Rightarrow> [] | Some err \<Rightarrow> [Uncaught err]), p_flights p))"

section \<open>Receiving\<close>

text \<open>Adding to the events of a keyspace, which are made on the first event for it.\<close>

definition add_event :: "event \<Rightarrow> keyspace_events \<Rightarrow> keyspace_events" where
  "add_event e k = \<lparr>ke_events = ke_events k @ [e], ke_mainEvent = (if ev_whole e then Some e else ke_mainEvent k)\<rparr>"

fun add_to_keyspace :: "event \<Rightarrow> (string \<times> keyspace_events) list \<Rightarrow> (string \<times> keyspace_events) list" where
  "add_to_keyspace e [] = [(ev_keyspace e, add_event e \<lparr>ke_events = [], ke_mainEvent = None\<rparr>)]"
| "add_to_keyspace e ((n, k) # ks) = (if n = ev_keyspace e then (n, add_event e k) # ks else (n, k) # add_to_keyspace e ks)"

definition enqueue :: "event \<Rightarrow> event_queue \<Rightarrow> event_queue" where
  "enqueue e q =
     (let q1 = q\<lparr>q_mainEvent := (if ev_all e then Some e else q_mainEvent q), q_callbacks := q_callbacks q @ [e]\<rparr>
      in if q_mainEvent q1 \<noteq> None then q1 else q1\<lparr>q_keyspaces := add_to_keyspace e (q_keyspaces q1)\<rparr>)"

text \<open>The body of the promise: an error of a handler that is called at once rejects the promise of the event.\<close>

definition eventReceived :: "(event \<Rightarrow> js_error option) \<Rightarrow> event \<Rightarrow> bool \<Rightarrow> debouncer \<Rightarrow>
    debouncer \<times> action list \<times> (event \<times> event list) list" where
  "eventReceived throws e processNow d =
     (let q = (case d_queue d of None \<Rightarrow> empty_queue | Some q \<Rightarrow> q);
          delay = (if \<not> processNow then d_delay d else 0);
          warn = (if length (q_callbacks q) = queueOverflowThreshold then [WarnOverflow] else []);
          (d', p) = slideDelay throws delay (d\<lparr>d_queue := Some (enqueue e q)\<rparr>)
      in (d', warn @ p_actions p @ (case p_raised p of None \<Rightarrow> [] | Some err \<Rightarrow> [RejectPromise e err]), p_flights p))"

definition shutdown :: "debouncer \<Rightarrow> debouncer \<times> action list" where
  "shutdown d = (case d_queue d of
       None \<Rightarrow> (d, [])
     | Some q \<Rightarrow> (d\<lparr>d_queue := None, d_timeout := None\<rparr>, map (\<lambda>e. CallBack e None) (q_callbacks q)))"

section \<open>Runs\<close>

text \<open>
  The runs of a debouncer, with the flights under way, the events received and the actions done so far: an event
  comes, the timer fires, a flight settles with or without an error, or the debouncer is shut down.
\<close>

inductive deb_run :: "(event \<Rightarrow> js_error option) \<Rightarrow> nat \<Rightarrow> debouncer \<Rightarrow> (event \<times> event list) list \<Rightarrow> event list \<Rightarrow> action list \<Rightarrow> bool"
  for throws :: "event \<Rightarrow> js_error option" and delay :: nat where
  run_new: "deb_run throws delay (new_debouncer delay) [] [] []"
| run_receive: "deb_run throws delay d fls es acts \<Longrightarrow> plain_keyspace (ev_keyspace e) \<Longrightarrow> eventReceived throws e now d = (d', out, new) \<Longrightarrow>
    deb_run throws delay d' (fls @ new) (es @ [e]) (acts @ out)"
| run_fire: "deb_run throws delay d fls es acts \<Longrightarrow> d_timeout d \<noteq> None \<Longrightarrow> timer_fires throws d = (d', out, new) \<Longrightarrow>
    deb_run throws delay d' (fls @ new) es (acts @ out)"
| run_settle: "deb_run throws delay d (xs @ fl # ys) es acts \<Longrightarrow> deb_run throws delay d (xs @ ys) es (acts @ settle_flight err fl)"
| run_shutdown: "deb_run throws delay d fls es acts \<Longrightarrow> shutdown d = (d', out) \<Longrightarrow> deb_run throws delay d' fls es (acts @ out)"

fun called_back :: "action \<Rightarrow> event list" where
  "called_back (CallBack e err) = [e]"
| "called_back _ = []"

fun handled :: "action \<Rightarrow> event list" where
  "handled (RunHandler e) = [e]"
| "handled _ = []"

definition callbacks_of :: "action list \<Rightarrow> event list" where
  "callbacks_of acts = concat (map called_back acts)"

definition handlers_of :: "action list \<Rightarrow> event list" where
  "handlers_of acts = concat (map handled acts)"

lemma callbacks_of_simps [simp]:
  "callbacks_of [] = []"
  "callbacks_of (xs @ ys) = callbacks_of xs @ callbacks_of ys"
  "callbacks_of (a # xs) = called_back a @ callbacks_of xs"
  "callbacks_of (map (\<lambda>e. CallBack e x) es) = es"
  by (simp_all add: callbacks_of_def) (induction es; simp)

lemma handlers_of_simps [simp]:
  "handlers_of [] = []"
  "handlers_of (xs @ ys) = handlers_of xs @ handlers_of ys"
  "handlers_of (a # xs) = handled a @ handlers_of xs"
  "handlers_of (map (\<lambda>e. CallBack e x) es) = []"
  by (simp_all add: handlers_of_def)

definition in_flight :: "(event \<times> event list) list \<Rightarrow> event list" where
  "in_flight fls = concat (map snd fls)"

lemma in_flight_simps [simp]:
  "in_flight [] = []"
  "in_flight (xs @ ys) = in_flight xs @ in_flight ys"
  "in_flight (fl # xs) = snd fl @ in_flight xs"
  by (simp_all add: in_flight_def)

lemma settle_callbacks [simp]: "callbacks_of (settle_flight err fl) = snd fl"
  by (simp add: settle_flight_def)

text \<open>
  The invariant of a queue: while no event for the whole cluster has come, the keyspaces hold the events of the
  callbacks, each once.
\<close>

definition waiting :: "(string \<times> keyspace_events) list \<Rightarrow> event multiset" where
  "waiting ks = sum_list (map (\<lambda>(_, k). mset (ke_events k)) ks)"

definition queue_ok :: "event_queue \<Rightarrow> bool" where
  "queue_ok q \<longleftrightarrow> q_mainEvent q = None \<longrightarrow> waiting (q_keyspaces q) = mset (q_callbacks q)"

lemma waiting_add: "waiting (add_to_keyspace e ks) = waiting ks + {#e#}"
  by (induction e ks rule: add_to_keyspace.induct) (auto simp: waiting_def add_event_def)

lemma enqueue_ok: "queue_ok q \<Longrightarrow> queue_ok (enqueue e q) \<and> q_callbacks (enqueue e q) = q_callbacks q @ [e]"
  by (auto simp: queue_ok_def enqueue_def Let_def waiting_add)

text \<open>
  What processing does with events: they are called back or in flight, each once, unless a handler raised; then some
  are neither, and the last handler called is the one that raised.
\<close>

definition accounts :: "(event \<Rightarrow> js_error option) \<Rightarrow> processed \<Rightarrow> event multiset \<Rightarrow> bool" where
  "accounts throws p es \<longleftrightarrow> mset (callbacks_of (p_actions p)) + mset (in_flight (p_flights p)) \<subseteq># es \<and>
     (case p_raised p of
        None \<Rightarrow> mset (callbacks_of (p_actions p)) + mset (in_flight (p_flights p)) = es
      | Some err \<Rightarrow> \<exists>m \<in> set (handlers_of (p_actions p)). throws m = Some err)"

lemma start_flight_accounts: "accounts throws (start_flight throws m es) (mset es)"
  by (auto simp: accounts_def start_flight_def split: option.splits)

lemma process_events_accounts: "accounts throws (process_events throws es) (mset es)"
  by (induction es) (auto simp: accounts_def Let_def split: option.splits)

lemma process_keyspace_accounts: "accounts throws (process_keyspace throws k) (mset (ke_events k))"
  by (simp add: process_keyspace_def start_flight_accounts process_events_accounts split: option.splits)

lemma process_keyspaces_accounts: "accounts throws (process_keyspaces throws ks) (waiting ks)"
proof (induction throws ks rule: process_keyspaces.induct)
  case (2 throws n k ks)
  define p where "p = process_keyspace throws k"
  define ps where "ps = process_keyspaces throws ks"
  have p: "accounts throws p (mset (ke_events k))" unfolding p_def by (rule process_keyspace_accounts)
  have w: "waiting ((n, k) # ks) = mset (ke_events k) + waiting ks" by (simp add: waiting_def)
  show ?case
  proof (cases "p_raised p")
    case (Some err)
    then have "process_keyspaces throws ((n, k) # ks) = p" by (simp add: p_def Let_def)
    then show ?thesis using p Some unfolding w accounts_def
      by (auto intro: subset_mset.order_trans[OF _ mset_subset_eq_add_left])
  next
    case None
    then have ps: "accounts throws ps (waiting ks)" using 2[OF p_def] by (simp add: ps_def p_def)
    have eq: "process_keyspaces throws ((n, k) # ks) =
        \<lparr>p_actions = p_actions p @ p_actions ps, p_flights = p_flights p @ p_flights ps, p_raised = p_raised ps\<rparr>"
      using None by (simp add: p_def ps_def Let_def)
    have me: "mset (callbacks_of (p_actions p)) + mset (in_flight (p_flights p)) = mset (ke_events k)" using p None by (simp add: accounts_def)
    show ?thesis using ps unfolding eq w accounts_def me[symmetric]
      by (auto simp: ac_simps split: option.splits)
  qed
qed (simp add: accounts_def waiting_def)

lemma processQueue_accounts: "queue_ok q \<Longrightarrow> accounts throws (processQueue throws q) (mset (q_callbacks q))"
  using process_keyspaces_accounts[of throws "q_keyspaces q"]
  by (auto simp: processQueue_def queue_ok_def start_flight_accounts split: option.splits)

text \<open>The invariant of a debouncer: a queue that is well formed has a timer, and there is no timer without one.\<close>

definition debouncer_ok :: "debouncer \<Rightarrow> bool" where
  "debouncer_ok d \<longleftrightarrow> (case d_queue d of None \<Rightarrow> d_timeout d = None | Some q \<Rightarrow> d_timeout d \<noteq> None \<and> queue_ok q)"

definition pending :: "debouncer \<Rightarrow> event list" where
  "pending d = (case d_queue d of None \<Rightarrow> [] | Some q \<Rightarrow> q_callbacks q)"


text \<open>Receiving: the events pending before and the new one are pending, called back, in flight or lost to an error.\<close>

lemma process_now_accounts:
  "debouncer_ok d \<Longrightarrow> d_queue d \<noteq> None \<Longrightarrow> accounts throws (snd (process_now throws d)) (mset (pending d))"
  using processQueue_accounts by (auto simp: process_now_def debouncer_ok_def pending_def split: option.splits)

definition accounts_out :: "(event \<Rightarrow> js_error option) \<Rightarrow> action list \<Rightarrow> (event \<times> event list) list \<Rightarrow> event multiset \<Rightarrow> event multiset \<Rightarrow> bool" where
  "accounts_out throws out new lost es \<longleftrightarrow> mset (callbacks_of out) + mset (in_flight new) + lost = es \<and>
     (lost \<noteq> {#} \<longrightarrow> (\<exists>m \<in> set (handlers_of out). throws m \<noteq> None))"

lemma accounts_outI:
  assumes "accounts throws p es" "callbacks_of out = callbacks_of (p_actions p)" "handlers_of out = handlers_of (p_actions p)"
  shows "\<exists>lost. accounts_out throws out (p_flights p) lost es"
proof -
  define lost where "lost = es - (mset (callbacks_of (p_actions p)) + mset (in_flight (p_flights p)))"
  have "mset (callbacks_of (p_actions p)) + mset (in_flight (p_flights p)) + lost = es"
    using assms(1) by (simp only: lost_def accounts_def subset_mset.add_diff_inverse)
  moreover have "\<exists>m \<in> set (handlers_of (p_actions p)). throws m \<noteq> None" if "lost \<noteq> {#}"
    using assms(1) that by (auto simp: accounts_def lost_def split: option.splits)
  ultimately show ?thesis using assms(2,3) by (auto simp: accounts_out_def)
qed

lemma eventReceived_ok:
  assumes "debouncer_ok d" "eventReceived throws e now d = (d', out, new)"
  shows "debouncer_ok d' \<and> (\<exists>lost. mset (pending d') + mset (callbacks_of out) + mset (in_flight new) + lost = mset (pending d) + {#e#} \<and>
     (lost \<noteq> {#} \<longrightarrow> (\<exists>m \<in> set (handlers_of out). throws m \<noteq> None)))"
proof -
  define q where "q = (case d_queue d of None \<Rightarrow> empty_queue | Some q \<Rightarrow> q)"
  have q: "queue_ok q" "q_callbacks q = pending d"
    using assms(1) by (auto simp: q_def debouncer_ok_def pending_def queue_ok_def empty_queue_def waiting_def split: option.splits)
  note en = enqueue_ok[OF q(1), of e]
  show ?thesis
  proof (cases "(if \<not> now then d_delay d else 0) = 0")
    case True
    define p where "p = processQueue throws (enqueue e q)"
    have o: "d' = d\<lparr>d_queue := None, d_timeout := None\<rparr>" "new = p_flights p" "callbacks_of out = callbacks_of (p_actions p)"
      "handlers_of out = handlers_of (p_actions p)"
      using assms(2) True
      by (auto simp: eventReceived_def q_def[symmetric] p_def Let_def slideDelay_def process_now_def split: option.splits)
    have "accounts throws p (mset (pending d) + {#e#})"
      using processQueue_accounts[of "enqueue e q" throws] en q(2) by (simp add: p_def)
    from accounts_outI[OF this o(3,4)] show ?thesis using o(1,2)
      by (auto simp: accounts_out_def debouncer_ok_def pending_def)
  next
    case False
    then have "d' = d\<lparr>d_queue := Some (enqueue e q), d_timeout := Some (if \<not> now then d_delay d else 0)\<rparr>" "callbacks_of out = []" "new = []"
      using assms(2) by (auto simp: eventReceived_def q_def[symmetric] Let_def slideDelay_def split: if_splits)
    then show ?thesis using en q(2) by (simp add: debouncer_ok_def pending_def)
  qed
qed

lemma timer_fires_ok:
  assumes "debouncer_ok d" "d_timeout d \<noteq> None" "timer_fires throws d = (d', out, new)"
  shows "debouncer_ok d' \<and> pending d' = [] \<and> (\<exists>lost. accounts_out throws out new lost (mset (pending d)))"
proof -
  have q: "d_queue d \<noteq> None" using assms(1,2) by (auto simp: debouncer_ok_def split: option.splits)
  define p where "p = snd (process_now throws d)"
  have o: "new = p_flights p" "callbacks_of out = callbacks_of (p_actions p)" "handlers_of out = handlers_of (p_actions p)"
    "d' = d\<lparr>d_queue := None, d_timeout := None\<rparr>"
    using assms(3) by (auto simp: timer_fires_def p_def process_now_def Let_def split: option.splits)
  show ?thesis using accounts_outI[OF process_now_accounts[OF assms(1) q, of throws, folded p_def] o(2,3)] o(1,4)
    by (auto simp: debouncer_ok_def pending_def)
qed

text \<open>The account of a run: every event received is called back, pending, in flight, or lost to a handler that raised.\<close>

definition run_account :: "(event \<Rightarrow> js_error option) \<Rightarrow> debouncer \<Rightarrow> (event \<times> event list) list \<Rightarrow> event list \<Rightarrow> action list \<Rightarrow> bool" where
  "run_account throws d fls es acts \<longleftrightarrow> debouncer_ok d \<and>
     (\<exists>lost. mset (callbacks_of acts) + mset (pending d) + mset (in_flight fls) + lost = mset es \<and>
       (lost \<noteq> {#} \<longrightarrow> (\<exists>m \<in> set (handlers_of acts). throws m \<noteq> None)))"

lemma run_account_step:
  assumes "run_account throws d fls es acts" "debouncer_ok d'"
    and "mset (pending d') + mset (callbacks_of out) + mset (in_flight new) + lost' = mset (pending d) + mset new_es"
    and "lost' \<noteq> {#} \<Longrightarrow> \<exists>m \<in> set (handlers_of out). throws m \<noteq> None"
  shows "run_account throws d' (fls @ new) (es @ new_es) (acts @ out)"
proof -
  obtain lost where l: "mset (callbacks_of acts) + mset (pending d) + mset (in_flight fls) + lost = mset es"
    "lost \<noteq> {#} \<longrightarrow> (\<exists>m \<in> set (handlers_of acts). throws m \<noteq> None)"
    using assms(1) by (auto simp: run_account_def)
  have "mset (callbacks_of (acts @ out)) + mset (pending d') + mset (in_flight (fls @ new)) + (lost + lost') =
      mset (callbacks_of acts) + mset (in_flight fls) + lost + (mset (pending d') + mset (callbacks_of out) + mset (in_flight new) + lost')"
    by (simp add: ac_simps)
  also have "\<dots> = mset (es @ new_es)" unfolding assms(3) using l(1) by (simp add: ac_simps)
  finally have "mset (callbacks_of (acts @ out)) + mset (pending d') + mset (in_flight (fls @ new)) + (lost + lost') = mset (es @ new_es)" .
  moreover have "lost + lost' \<noteq> {#} \<longrightarrow> (\<exists>m \<in> set (handlers_of (acts @ out)). throws m \<noteq> None)"
    using l(2) assms(4) by auto
  ultimately show ?thesis using assms(2) unfolding run_account_def by blast
qed

lemma run_ok: "deb_run throws delay d fls es acts \<Longrightarrow> run_account throws d fls es acts"
proof (induction rule: deb_run.induct)
  case run_new
  show ?case by (simp add: run_account_def debouncer_ok_def new_debouncer_def pending_def)
next
  case (run_receive d fls es acts e now d' out new)
  have "debouncer_ok d" using run_receive.IH by (simp add: run_account_def)
  from eventReceived_ok[OF this run_receive.hyps(3)] show ?case
    using run_account_step[OF run_receive.IH, of d' out new _ "[e]"] by auto
next
  case (run_fire d fls es acts d' out new)
  have "debouncer_ok d" using run_fire.IH by (simp add: run_account_def)
  from timer_fires_ok[OF this run_fire.hyps(2,3)] show ?case
    using run_account_step[OF run_fire.IH, of d' out new _ "[]"] by (auto simp: accounts_out_def)
next
  case (run_settle d xs fl ys es acts err)
  then show ?case by (auto simp: run_account_def ac_simps settle_flight_def)
next
  case (run_shutdown d fls es acts d' out)
  then have "debouncer_ok d'" "mset (pending d') + mset (callbacks_of out) = mset (pending d)"
    by (auto simp: run_account_def shutdown_def debouncer_ok_def pending_def split: option.splits)
  then show ?case using run_account_step[OF run_shutdown.IH, of d' out "[]" "{#}" "[]"] by simp
qed

text \<open>The flights can all settle.\<close>

lemma all_settle: "deb_run throws delay d fls es acts \<Longrightarrow> deb_run throws delay d [] es (acts @ concat (map (settle_flight err) fls))"
proof (induction fls arbitrary: acts)
  case (Cons fl fls)
  have "deb_run throws delay d fls es (acts @ settle_flight err fl)"
    using run_settle[of throws delay d "[]" fl fls es acts err] Cons.prems by simp
  from Cons.IH[OF this] show ?case by simp
qed simp

lemma run_account_exact:
  assumes "run_account throws d fls es acts" "\<forall>m \<in> set (handlers_of acts). throws m = None"
  shows "mset (callbacks_of acts) + mset (pending d) + mset (in_flight fls) = mset es"
  using assms by (auto simp: run_account_def)

text \<open>
  C11: In every run of the debouncer, whose events are for keyspaces with plain names, no event is called back twice,
  and none that has been called back is still pending or in flight. As long as no handler that was called has raised,
  every event received has been called back, is pending, or is in flight with a handler that has not settled; as long
  as one is pending the timer is set. When no handler raises, the firing of the timer leaves nothing pending, and once
  the handlers in flight have settled every event received has been called back exactly once. A shutdown calls back
  the pending ones.
\<close>

theorem debouncer_calls_back_once:
  assumes "deb_run throws delay d fls es acts"
  shows "mset (callbacks_of acts) + mset (pending d) + mset (in_flight fls) \<subseteq># mset es \<and>
         (pending d \<noteq> [] \<longrightarrow> d_timeout d \<noteq> None) \<and>
         ((\<forall>m \<in> set (handlers_of acts). throws m = None) \<longrightarrow>
            mset (callbacks_of acts) + mset (pending d) + mset (in_flight fls) = mset es \<and>
            mset (callbacks_of (acts @ snd (shutdown d))) + mset (in_flight fls) = mset es) \<and>
         ((\<forall>m. throws m = None) \<and> d_timeout d \<noteq> None \<and> timer_fires throws d = (d', out, new) \<longrightarrow>
            pending d' = [] \<and> mset (callbacks_of (acts @ out @ concat (map (settle_flight err) (fls @ new)))) = mset es)"
proof -
  have ra: "run_account throws d fls es acts" using run_ok[OF assms] .
  then have ok: "debouncer_ok d" by (simp add: run_account_def)
  have 1: "mset (callbacks_of acts) + mset (pending d) + mset (in_flight fls) \<subseteq># mset es"
    using ra by (auto simp: run_account_def) (metis mset_subset_eq_add_left)
  have 2: "pending d \<noteq> [] \<longrightarrow> d_timeout d \<noteq> None" using ok by (auto simp: debouncer_ok_def pending_def split: option.splits)
  have 3: "callbacks_of (snd (shutdown d)) = pending d" by (auto simp: shutdown_def pending_def split: option.splits)
  have 4: "pending d' = [] \<and> mset (callbacks_of (acts @ out @ concat (map (settle_flight err) (fls @ new)))) = mset es"
    if t: "\<forall>m. throws m = None" "d_timeout d \<noteq> None" "timer_fires throws d = (d', out, new)"
  proof -
    have p: "pending d' = []" using timer_fires_ok[OF ok t(2,3)] by simp
    have "deb_run throws delay d' [] es ((acts @ out) @ concat (map (settle_flight err) (fls @ new)))"
      by (rule all_settle[OF run_fire[OF assms t(2,3)]])
    from run_account_exact[OF run_ok[OF this]] t(1) p show ?thesis by simp
  qed
  show ?thesis using 1 2 4 run_account_exact[OF ra] 3 by (auto simp: ac_simps)
qed

definition example_event :: "nat \<Rightarrow> event" where
  "example_event i = \<lparr>ev_id = i, ev_all = False, ev_keyspace = ''ks1'', ev_whole = (i = 2)\<rparr>"

theorem debouncer_calls_back_once_witness:
  "\<exists>d out new. timer_fires (\<lambda>_. None) (fst (eventReceived (\<lambda>_. None) (example_event 2) False
       (fst (eventReceived (\<lambda>_. None) (example_event 1) False (new_debouncer 1000))))) = (d, out, new) \<and>
     new = [(example_event 2, [example_event 1, example_event 2])] \<and> callbacks_of out = [] \<and>
     mset (callbacks_of (out @ concat (map (settle_flight (Some PlainError)) new))) = mset [example_event 1, example_event 2]"
proof -
  define d1 where "d1 = fst (eventReceived (\<lambda>_. None) (example_event 1) False (new_debouncer 1000))"
  define d2 where "d2 = fst (eventReceived (\<lambda>_. None) (example_event 2) False d1)"
  have e1: "eventReceived (\<lambda>_. None) (example_event 1) False (new_debouncer 1000) = (d1, [], [])"
    by (simp add: d1_def eventReceived_def new_debouncer_def empty_queue_def slideDelay_def queueOverflowThreshold_def Let_def)
  have e2: "eventReceived (\<lambda>_. None) (example_event 2) False d1 = (d2, [], [])" and t: "d_timeout d2 \<noteq> None"
    by (simp_all add: d2_def d1_def eventReceived_def new_debouncer_def empty_queue_def enqueue_def slideDelay_def queueOverflowThreshold_def
        example_event_def Let_def)
  have n: "plain_keyspace (ev_keyspace (example_event i))" for i by (simp add: plain_keyspace_def inherited_names_def example_event_def)
  have "deb_run (\<lambda>_. None) 1000 d2 (([] @ []) @ []) (([] @ [example_event 1]) @ [example_event 2]) (([] @ []) @ [])"
    by (rule run_receive[OF run_receive[OF run_new n e1] n e2])
  then have r: "deb_run (\<lambda>_. None) 1000 d2 [] [example_event 1, example_event 2] []" by simp
  obtain d out new where f: "timer_fires (\<lambda>_. None) d2 = (d, out, new)" by (metis prod_cases3)
  have "new = [(example_event 2, [example_event 1, example_event 2])]" "callbacks_of out = []"
    using f by (auto simp: timer_fires_def process_now_def processQueue_def process_keyspace_def start_flight_def d2_def d1_def eventReceived_def
        new_debouncer_def empty_queue_def enqueue_def add_event_def slideDelay_def queueOverflowThreshold_def example_event_def Let_def)
  then show ?thesis
    using debouncer_calls_back_once[OF r, of d out new "Some PlainError"] t f unfolding d2_def d1_def by simp
qed

text \<open>An event for the whole cluster supersedes the others: processing runs its handler only.\<close>

lemma main_event_handler: "q_mainEvent q = Some m \<Longrightarrow> handlers_of (p_actions (processQueue throws q)) = [m]"
  by (simp add: processQueue_def start_flight_def split: option.splits)

text \<open>A handler that raises loses the events behind it: they are neither called back nor in flight.\<close>

lemma raising_handler_loses:
  "process_events (\<lambda>e. if e = e1 then Some PlainError else None) [e1, e2] = \<lparr>p_actions = [RunHandler e1], p_flights = [], p_raised = Some PlainError\<rparr>"
  by simp

end
