(* ===== verification/Concurrent.thy ===== *)
theory Concurrent
  imports Js_Prelude "HOL-Library.Multiset"
begin

text \<open>
  Concurrent execution (\<^verbatim>\<open>src/lib/concurrent/index.js\<close>): \<open>ArrayBasedExecutor\<close>, which runs a fixed number of workers
  over an array of parameters, \<open>StreamBasedExecutor\<close>, which starts a request per item of a stream and pauses it,
  and the \<open>ResultSetGroup\<close> they fill. The requests of the client end in any order and with any result, so both
  executors are step relations; each step is a piece of the code between two waits.
\<close>

section \<open>Results\<close>

text \<open>An item of the group is the result or the error of an execution.\<close>

record 'r group =
  rg_collectResults :: bool
  rg_maxErrors :: nat
  rg_totalExecuted :: nat
  rg_errors :: "js_error list"
  rg_resultItems :: "nat \<Rightarrow> 'r result option"

text \<open>\<open>option || 100\<close>: an option that is absent or 0 is 100.\<close>

definition or_100 :: "nat option \<Rightarrow> nat" where
  "or_100 v = (case v of None \<Rightarrow> 100 | Some n \<Rightarrow> if n = 0 then 100 else n)"

definition new_group :: "bool \<Rightarrow> nat option \<Rightarrow> 'r group" where
  "new_group collectResults maxErrors =
     \<lparr>rg_collectResults = collectResults, rg_maxErrors = or_100 maxErrors,
      rg_totalExecuted = 0, rg_errors = [], rg_resultItems = (\<lambda>_. None)\<rparr>"

definition setResultItem :: "nat \<Rightarrow> 'r \<Rightarrow> 'r group \<Rightarrow> 'r group" where
  "setResultItem i rs g = g\<lparr>rg_totalExecuted := rg_totalExecuted g + 1,
     rg_resultItems := (if rg_collectResults g then (rg_resultItems g)(i \<mapsto> Inr rs) else rg_resultItems g)\<rparr>"

definition setError :: "nat \<Rightarrow> js_error \<Rightarrow> 'r group \<Rightarrow> 'r group" where
  "setError i err g = g\<lparr>rg_totalExecuted := rg_totalExecuted g + 1,
     rg_errors := (if length (rg_errors g) < rg_maxErrors g then rg_errors g @ [err] else rg_errors g),
     rg_resultItems := (if rg_collectResults g then (rg_resultItems g)(i \<mapsto> Inl err) else rg_resultItems g)\<rparr>"

section \<open>The executor over an array\<close>

text \<open>The fixed part: the queries of the parameters, the level and \<open>raiseOnFirstError\<close>.\<close>

record array_config =
  ac_queries :: "string list"
  ac_level :: nat
  ac_raise :: bool

text \<open>\<open>Math.min(concurrencyLevel || 100, parameters.length)\<close>.\<close>

definition array_config_of :: "string list \<Rightarrow> nat option \<Rightarrow> bool \<Rightarrow> array_config" where
  "array_config_of qs level raise =
     \<lparr>ac_queries = qs, ac_level = min (or_100 level) (length qs), ac_raise = raise\<rparr>"

text \<open>
  A worker is between two executions, waits for a query to be prepared or for an execution, has ended, or its
  promise was rejected. The number is the iteration.
\<close>

datatype worker = Ready nat | Preparing nat | Executing nat | Ended | Rejected

text \<open>
  \<open>xs_rejection\<close> is the error of the first worker that was rejected, with which \<open>Promise.all\<close> is;
  \<open>xs_log\<close> is the history of the executions that ended.
\<close>

record 'r array_state =
  xs_workers :: "worker list"
  xs_stop :: bool
  xs_result :: "'r group"
  xs_cache :: "string list"
  xs_rejection :: "js_error option"
  xs_log :: "nat list"

definition new_array_state :: "array_config \<Rightarrow> 'r group \<Rightarrow> 'r array_state" where
  "new_array_state cfg g = \<lparr>xs_workers = replicate (ac_level cfg) (Ready 0), xs_stop = False, xs_result = g, xs_cache = [], xs_rejection = None, xs_log = []\<rparr>"

definition item_index :: "array_config \<Rightarrow> nat \<Rightarrow> nat \<Rightarrow> nat" where
  "item_index cfg w it = w + ac_level cfg * it"

definition set_worker :: "nat \<Rightarrow> worker \<Rightarrow> 'r array_state \<Rightarrow> 'r array_state" where
  "set_worker w x s = s\<lparr>xs_workers := (xs_workers s)[w := x]\<rparr>"

definition reject_worker :: "nat \<Rightarrow> js_error \<Rightarrow> 'r array_state \<Rightarrow> 'r array_state" where
  "reject_worker w err s = set_worker w Rejected (s\<lparr>xs_rejection := (case xs_rejection s of None \<Rightarrow> Some err | Some e \<Rightarrow> Some e)\<rparr>)"

text \<open>\<open>_executeOneAtATime\<close> up to its first wait.\<close>

definition executeOneAtATime :: "array_config \<Rightarrow> nat \<Rightarrow> nat \<Rightarrow> 'r array_state \<Rightarrow> 'r array_state" where
  "executeOneAtATime cfg w it s =
     (let i = item_index cfg w it
      in if i \<ge> length (ac_queries cfg) \<or> xs_stop s then set_worker w Ended s
         else if ac_queries cfg ! i \<in> set (xs_cache s) then set_worker w (Executing it) s
         else set_worker w (Preparing it) s)"

text \<open>The query was prepared and is stored, or preparing it failed, which nothing catches.\<close>

definition prepared :: "array_config \<Rightarrow> nat \<Rightarrow> nat \<Rightarrow> 'r array_state \<Rightarrow> 'r array_state" where
  "prepared cfg w it s = set_worker w (Executing it) (s\<lparr>xs_cache := ac_queries cfg ! item_index cfg w it # xs_cache s\<rparr>)"

definition prepare_failed :: "nat \<Rightarrow> js_error \<Rightarrow> 'r array_state \<Rightarrow> 'r array_state" where
  "prepare_failed w err s = reject_worker w err s"

text \<open>The execution ended with a result, or with an error (\<open>_setError\<close>); the next iteration follows.\<close>

definition executed :: "array_config \<Rightarrow> nat \<Rightarrow> nat \<Rightarrow> 'r \<Rightarrow> 'r array_state \<Rightarrow> 'r array_state" where
  "executed cfg w it rs s = set_worker w (Ready (it + 1))
     (s\<lparr>xs_result := setResultItem (item_index cfg w it) rs (xs_result s), xs_log := xs_log s @ [item_index cfg w it]\<rparr>)"

definition execution_failed :: "array_config \<Rightarrow> nat \<Rightarrow> nat \<Rightarrow> js_error \<Rightarrow> 'r array_state \<Rightarrow> 'r array_state" where
  "execution_failed cfg w it err s =
     (let s' = s\<lparr>xs_result := setError (item_index cfg w it) err (xs_result s), xs_log := xs_log s @ [item_index cfg w it]\<rparr>
      in if ac_raise cfg then reject_worker w err (s'\<lparr>xs_stop := True\<rparr>) else set_worker w (Ready (it + 1)) s')"

inductive array_step :: "array_config \<Rightarrow> 'r array_state \<Rightarrow> 'r array_state \<Rightarrow> bool" for cfg :: array_config where
  step_start: "w < length (xs_workers s) \<Longrightarrow> xs_workers s ! w = Ready it \<Longrightarrow> array_step cfg s (executeOneAtATime cfg w it s)"
| step_prepared: "w < length (xs_workers s) \<Longrightarrow> xs_workers s ! w = Preparing it \<Longrightarrow> array_step cfg s (prepared cfg w it s)"
| step_prepare_failed: "w < length (xs_workers s) \<Longrightarrow> xs_workers s ! w = Preparing it \<Longrightarrow> array_step cfg s (prepare_failed w err s)"
| step_executed: "w < length (xs_workers s) \<Longrightarrow> xs_workers s ! w = Executing it \<Longrightarrow> array_step cfg s (executed cfg w it rs s)"
| step_failed: "w < length (xs_workers s) \<Longrightarrow> xs_workers s ! w = Executing it \<Longrightarrow> array_step cfg s (execution_failed cfg w it err s)"

inductive_cases array_stepE [elim]: "array_step cfg s s'"

inductive array_run :: "array_config \<Rightarrow> 'r group \<Rightarrow> 'r array_state \<Rightarrow> bool" for cfg :: array_config and g :: "'r group" where
  array_new: "array_run cfg g (new_array_state cfg g)"
| array_more: "array_run cfg g s \<Longrightarrow> array_step cfg s s' \<Longrightarrow> array_run cfg g s'"

text \<open>\<open>Promise.all\<close>: rejected once a worker is, resolved with the group when all have ended.\<close>

definition array_outcome :: "'r array_state \<Rightarrow> 'r group result option" where
  "array_outcome s =
     (case xs_rejection s of
        Some err \<Rightarrow> Some (Inl err)
      | None \<Rightarrow> if list_all (\<lambda>x. x = Ended) (xs_workers s) then Some (Inr (xs_result s)) else None)"

section \<open>What the workers have done\<close>

text \<open>The executions a worker has finished: those of the iterations before its current one; all of its own once it ended.\<close>

fun finished :: "array_config \<Rightarrow> nat \<Rightarrow> worker \<Rightarrow> nat set \<Rightarrow> bool" where
  "finished cfg w (Ready it) D \<longleftrightarrow> D = item_index cfg w ` {..<it} \<and> (\<forall>j < it. item_index cfg w j < length (ac_queries cfg))"
| "finished cfg w (Preparing it) D \<longleftrightarrow> D = item_index cfg w ` {..<it} \<and> (\<forall>j \<le> it. item_index cfg w j < length (ac_queries cfg))"
| "finished cfg w (Executing it) D \<longleftrightarrow> D = item_index cfg w ` {..<it} \<and> (\<forall>j \<le> it. item_index cfg w j < length (ac_queries cfg))"
| "finished cfg w Ended D \<longleftrightarrow> D = item_index cfg w ` {j. item_index cfg w j < length (ac_queries cfg)}"
| "finished cfg w Rejected D \<longleftrightarrow> D \<subseteq> item_index cfg w ` {j. item_index cfg w j < length (ac_queries cfg)}"

text \<open>The part of the log that belongs to a worker.\<close>

definition log_of :: "array_config \<Rightarrow> nat \<Rightarrow> nat list \<Rightarrow> nat set" where
  "log_of cfg w xs = {i \<in> set xs. i mod ac_level cfg = w}"

definition array_inv :: "array_config \<Rightarrow> 'r array_state \<Rightarrow> bool" where
  "array_inv cfg s \<longleftrightarrow> length (xs_workers s) = ac_level cfg \<and> distinct (xs_log s) \<and>
     (\<forall>i \<in> set (xs_log s). i < length (ac_queries cfg)) \<and> rg_totalExecuted (xs_result s) = length (xs_log s) \<and>
     (xs_stop s \<or> Rejected \<in> set (xs_workers s) \<longrightarrow> xs_rejection s \<noteq> None) \<and>
     (\<forall>w < length (xs_workers s). xs_workers s ! w = Ended \<and> xs_stop s \<or> finished cfg w (xs_workers s ! w) (log_of cfg w (xs_log s)))"

lemma item_index_mod: "w < ac_level cfg \<Longrightarrow> item_index cfg w it mod ac_level cfg = w"
  by (simp add: item_index_def)

lemma item_index_inj: "0 < ac_level cfg \<Longrightarrow> item_index cfg w a = item_index cfg w b \<longleftrightarrow> a = b"
  by (simp add: item_index_def)

lemma log_of_snoc: "w < ac_level cfg \<Longrightarrow> v < ac_level cfg \<Longrightarrow>
   log_of cfg v (xs @ [item_index cfg w it]) = (if v = w then insert (item_index cfg w it) (log_of cfg v xs) else log_of cfg v xs)"
  by (auto simp: log_of_def item_index_mod)

lemma log_of_item: "w < ac_level cfg \<Longrightarrow> item_index cfg w it \<in> set xs \<longleftrightarrow> item_index cfg w it \<in> log_of cfg w xs"
  by (simp add: log_of_def item_index_mod)

lemma item_index_mono: "item_index cfg w it \<ge> n \<Longrightarrow> item_index cfg w j < n \<Longrightarrow> j < it"
  by (rule ccontr) (simp add: item_index_def, meson add_left_mono mult_le_mono2 not_less order_trans leD)

lemmas step_defs = executeOneAtATime_def prepared_def prepare_failed_def executed_def execution_failed_def reject_worker_def set_worker_def
  setResultItem_def setError_def Let_def

text \<open>A step replaces one worker, which has not ended, and extends the log by at most the item that worker executes.\<close>

definition extends_log :: "array_config \<Rightarrow> nat \<Rightarrow> worker \<Rightarrow> nat list \<Rightarrow> nat list \<Rightarrow> bool" where
  "extends_log cfg w x xs ys \<longleftrightarrow> ys = xs \<or> (\<exists>it. x = Executing it \<and> ys = xs @ [item_index cfg w it])"

lemma log_of_other: "extends_log cfg w x xs ys \<Longrightarrow> w < ac_level cfg \<Longrightarrow> v < ac_level cfg \<Longrightarrow> v \<noteq> w \<Longrightarrow> log_of cfg v ys = log_of cfg v xs"
  by (auto simp: extends_log_def log_of_snoc)

lemma extended_log:
  assumes "extends_log cfg w x xs ys" "w < ac_level cfg" "finished cfg w x (log_of cfg w xs)"
    "distinct xs" "\<forall>i \<in> set xs. i < length (ac_queries cfg)"
  shows "distinct ys \<and> (\<forall>i \<in> set ys. i < length (ac_queries cfg))"
  using assms by (auto simp: extends_log_def log_of_item item_index_inj)

lemma array_inv_update:
  assumes inv: "array_inv cfg s" and w: "w < length (xs_workers s)" and x: "xs_workers s ! w = x" "x \<noteq> Ended"
    and ws: "xs_workers s' = (xs_workers s)[w := y]" and log: "extends_log cfg w x (xs_log s) (xs_log s')"
    and total: "rg_totalExecuted (xs_result s') = length (xs_log s')"
    and stop: "xs_stop s \<Longrightarrow> xs_stop s'" "xs_stop s' \<Longrightarrow> xs_stop s \<or> y = Rejected"
    and rej: "xs_rejection s \<noteq> None \<or> y = Rejected \<Longrightarrow> xs_rejection s' \<noteq> None"
    and fin: "y = Ended \<and> xs_stop s' \<or> finished cfg w y (log_of cfg w (xs_log s'))"
  shows "array_inv cfg s'"
proof -
  have lev: "length (xs_workers s) = ac_level cfg" and lw: "w < ac_level cfg" using inv w by (auto simp: array_inv_def)
  have old: "finished cfg w x (log_of cfg w (xs_log s))" using inv w x by (auto simp: array_inv_def)
  have a: "distinct (xs_log s') \<and> (\<forall>i \<in> set (xs_log s'). i < length (ac_queries cfg))"
    using extended_log[OF log lw old] inv by (simp add: array_inv_def)
  have b: "xs_stop s' \<or> Rejected \<in> set (xs_workers s') \<longrightarrow> xs_rejection s' \<noteq> None"
    using inv rej stop(2) ws set_update_subset_insert[of "xs_workers s" w y] by (auto simp: array_inv_def)
  have c: "xs_workers s' ! v = Ended \<and> xs_stop s' \<or> finished cfg v (xs_workers s' ! v) (log_of cfg v (xs_log s'))"
    if "v < length (xs_workers s')" for v
  proof (cases "v = w")
    case True
    then show ?thesis using fin ws w by simp
  next
    case False
    then have "log_of cfg v (xs_log s') = log_of cfg v (xs_log s)" "xs_workers s' ! v = xs_workers s ! v"
      using log_of_other[OF log lw] that lev ws by auto
    then show ?thesis using inv that ws stop(1) by (auto simp: array_inv_def)
  qed
  show ?thesis using a b c lev ws total by (simp add: array_inv_def)
qed

lemma array_inv_finished:
  assumes "array_inv cfg s" "w < length (xs_workers s)" "xs_workers s ! w \<noteq> Ended"
  shows "w < ac_level cfg" "finished cfg w (xs_workers s ! w) (log_of cfg w (xs_log s))" "rg_totalExecuted (xs_result s) = length (xs_log s)"
  using assms by (auto simp: array_inv_def)

lemma finished_ended: "finished cfg w (Ready it) D \<Longrightarrow> item_index cfg w it \<ge> length (ac_queries cfg) \<Longrightarrow> finished cfg w Ended D"
  using item_index_mono[of "length (ac_queries cfg)" cfg w it] by (auto intro!: arg_cong[where f = "image (item_index cfg w)"])

lemma finished_next: "finished cfg w (Ready it) D \<Longrightarrow> item_index cfg w it < length (ac_queries cfg) \<Longrightarrow>
   finished cfg w (Preparing it) D \<and> finished cfg w (Executing it) D"
  by (auto simp: le_less)

lemma finished_done: "finished cfg w (Executing it) D \<Longrightarrow>
   finished cfg w (Ready (it + 1)) (insert (item_index cfg w it) D) \<and> finished cfg w Rejected (insert (item_index cfg w it) D)"
  by (auto simp: less_Suc_eq_le lessThan_Suc)

lemma array_inv_start:
  assumes "array_inv cfg s" "w < length (xs_workers s)" "xs_workers s ! w = Ready it"
  shows "array_inv cfg (executeOneAtATime cfg w it s)"
proof -
  note f = array_inv_finished[OF assms(1,2), unfolded assms(3)]
  show ?thesis
    using finished_ended[OF f(2)] finished_next[OF f(2)] f(3)
    by (intro array_inv_update[OF assms(1,2,3), where y = "xs_workers (executeOneAtATime cfg w it s) ! w"])
      (use assms(2) in \<open>auto simp: step_defs extends_log_def split: if_splits\<close>)
qed

lemma array_inv_wait:
  assumes "array_inv cfg s" "w < length (xs_workers s)" "xs_workers s ! w = Preparing it"
  shows "array_inv cfg (prepared cfg w it s)" "array_inv cfg (prepare_failed w err s)"
proof -
  note f = array_inv_finished[OF assms(1,2), unfolded assms(3)]
  show "array_inv cfg (prepared cfg w it s)"
    using f by (intro array_inv_update[OF assms(1,2,3), where y = "Executing it"]) (auto simp: step_defs extends_log_def)
  show "array_inv cfg (prepare_failed w err s)"
    using f by (intro array_inv_update[OF assms(1,2,3), where y = Rejected]) (auto simp: step_defs extends_log_def split: option.split)
qed

lemma array_inv_executed:
  assumes "array_inv cfg s" "w < length (xs_workers s)" "xs_workers s ! w = Executing it"
  shows "array_inv cfg (executed cfg w it rs s)" "array_inv cfg (execution_failed cfg w it err s)"
proof -
  note f = array_inv_finished[OF assms(1,2), unfolded assms(3)]
  note d = finished_done[OF f(2)]
  show "array_inv cfg (executed cfg w it rs s)"
    using f(1,3) d by (intro array_inv_update[OF assms(1,2,3), where y = "Ready (it + 1)"])
      (auto simp: step_defs extends_log_def log_of_snoc simp del: finished.simps)
  show "array_inv cfg (execution_failed cfg w it err s)"
    using f(1,3) d by (intro array_inv_update[OF assms(1,2,3), where y = "if ac_raise cfg then Rejected else Ready (it + 1)"])
      (auto simp: step_defs extends_log_def log_of_snoc simp del: finished.simps split: option.split if_splits)
qed

lemma array_inv_step: "array_step cfg s s' \<Longrightarrow> array_inv cfg s \<Longrightarrow> array_inv cfg s'"
  by (auto intro: array_inv_start array_inv_wait array_inv_executed)

text \<open>The group: the items it has are those of the log, and it keeps at most \<open>maxErrors\<close> errors.\<close>

definition group_inv :: "bool \<Rightarrow> nat \<Rightarrow> 'r array_state \<Rightarrow> bool" where
  "group_inv collect maxErrors s \<longleftrightarrow> rg_collectResults (xs_result s) = collect \<and> rg_maxErrors (xs_result s) = maxErrors \<and>
     dom (rg_resultItems (xs_result s)) = (if collect then set (xs_log s) else {}) \<and> length (rg_errors (xs_result s)) \<le> maxErrors"

lemma group_inv_step: "array_step cfg s s' \<Longrightarrow> group_inv c m s \<Longrightarrow> group_inv c m s'"
  by (erule array_step.cases) (auto simp: group_inv_def step_defs)

lemma array_run_inv:
  assumes "array_run cfg g s" "g = new_group collect maxErrors"
  shows "array_inv cfg s \<and> group_inv collect (or_100 maxErrors) s"
  using assms
proof (induction rule: array_run.induct)
  case array_new
  then show ?case by (auto simp: array_inv_def group_inv_def new_array_state_def new_group_def log_of_def)
next
  case (array_more s s')
  then show ?case using array_inv_step group_inv_step by blast
qed

lemma outcome_resolved:
  assumes "array_outcome s = Some (Inr g)"
  shows "g = xs_result s" "\<forall>w < length (xs_workers s). xs_workers s ! w = Ended"
proof -
  have "list_all (\<lambda>x. x = Ended) (xs_workers s) \<and> g = xs_result s"
    using assms by (auto simp: array_outcome_def split: option.splits if_splits)
  then show "g = xs_result s" "\<forall>w < length (xs_workers s). xs_workers s ! w = Ended" by (auto simp: list_all_length)
qed

lemma resolved_log:
  assumes inv: "array_inv cfg s" and out: "array_outcome s = Some (Inr g)" and lev: "ac_level cfg = 0 \<Longrightarrow> ac_queries cfg = []"
  shows "set (xs_log s) = {..<length (ac_queries cfg)}"
proof -
  note e = outcome_resolved[OF out]
  have lw: "length (xs_workers s) = ac_level cfg" using inv by (simp add: array_inv_def)
  have "\<not> xs_stop s" using inv out by (auto simp: array_inv_def array_outcome_def)
  then have fin: "finished cfg w Ended (log_of cfg w (xs_log s))" if "w < ac_level cfg" for w
    using inv e(2) that lw by (auto simp: array_inv_def)
  have "i \<in> set (xs_log s)" if i: "i < length (ac_queries cfg)" for i
  proof -
    have pos: "0 < ac_level cfg" using lev i by fastforce
    then have "item_index cfg (i mod ac_level cfg) (i div ac_level cfg) = i" by (simp add: item_index_def)
    moreover have "i mod ac_level cfg < ac_level cfg" using pos by simp
    ultimately have "i \<in> log_of cfg (i mod ac_level cfg) (xs_log s)"
      using fin[of "i mod ac_level cfg"] i by (auto intro!: image_eqI[of _ _ "i div ac_level cfg"])
    then show ?thesis by (simp add: log_of_def)
  qed
  then show ?thesis using inv by (auto simp: array_inv_def)
qed

text \<open>
  C4: An execution over an array runs every item at most once, whatever the order in which its requests end, and
  the group counts the executions and keeps at most its number of errors. When the promise is resolved, every item
  of the array was executed exactly once, and a group that collects has a result or an error for each.
\<close>

theorem array_executor_complete:
  assumes "array_run (array_config_of qs level raise) (new_group collect maxErrors) s"
  shows "distinct (xs_log s) \<and> rg_totalExecuted (xs_result s) = length (xs_log s) \<and>
         length (rg_errors (xs_result s)) \<le> or_100 maxErrors \<and>
         (\<forall>g. array_outcome s = Some (Inr g) \<longrightarrow>
            mset (xs_log s) = mset [0..<length qs] \<and> rg_totalExecuted g = length qs \<and>
            (collect \<longrightarrow> dom (rg_resultItems g) = {..<length qs}))"
proof -
  let ?cfg = "array_config_of qs level raise"
  from array_run_inv[OF assms refl]
  have inv: "array_inv ?cfg s" and gi: "group_inv collect (or_100 maxErrors) s" by auto
  have lev: "ac_level ?cfg = 0 \<Longrightarrow> ac_queries ?cfg = []" by (auto simp: array_config_of_def or_100_def min_def split: option.splits if_splits)
  have qs: "ac_queries ?cfg = qs" by (simp add: array_config_of_def)
  have d: "distinct (xs_log s)" "rg_totalExecuted (xs_result s) = length (xs_log s)" using inv by (auto simp: array_inv_def)
  have "mset (xs_log s) = mset [0..<length qs] \<and> rg_totalExecuted g = length qs \<and> (collect \<longrightarrow> dom (rg_resultItems g) = {..<length qs})"
    if "array_outcome s = Some (Inr g)" for g
  proof -
    have st: "set (xs_log s) = {..<length qs}" using resolved_log[OF inv that lev] qs by simp
    then have "set (xs_log s) = set [0..<length qs]" by (simp add: lessThan_atLeast0)
    then have m: "mset (xs_log s) = mset [0..<length qs]" by (rule iffD1[OF set_eq_iff_mset_eq_distinct[OF d(1) distinct_upt]])
    have "length (xs_log s) = length qs" using mset_eq_length[OF m] by simp
    then show ?thesis using st m d(2) gi outcome_resolved(1)[OF that] by (simp add: group_inv_def)
  qed
  moreover have "length (rg_errors (xs_result s)) \<le> or_100 maxErrors"
    using gi by (simp add: group_inv_def)
  ultimately show ?thesis using d by simp
qed

definition example_run :: "nat array_state list" where
  "example_run =
     (let cfg = array_config_of [''q''] (Some 4) True; s0 = new_array_state cfg (new_group True None);
          s1 = executeOneAtATime cfg 0 0 s0; s2 = prepared cfg 0 0 s1; s3 = executed cfg 0 0 7 s2
      in [s0, s1, s2, s3, executeOneAtATime cfg 0 1 s3])"

lemmas example_run_simps = example_run_def step_defs array_config_of_def new_array_state_def new_group_def or_100_def item_index_def

lemma example_array_run: "array_run (array_config_of [''q''] (Some 4) True) (new_group True None) (example_run ! 4)"
proof -
  let ?cfg = "array_config_of [''q''] (Some 4) True"
  have "array_run ?cfg (new_group True None) (example_run ! 0)"
    using array_new[of ?cfg "new_group True None :: nat group"] by (simp add: example_run_def Let_def)
  then have "array_run ?cfg (new_group True None) (example_run ! 1)"
    by (rule array_more) (use step_start[of 0 "example_run ! 0" 0 ?cfg] in \<open>simp add: example_run_simps\<close>)
  then have "array_run ?cfg (new_group True None) (example_run ! 2)"
    by (rule array_more) (use step_prepared[of 0 "example_run ! 1" 0 ?cfg] in \<open>simp add: example_run_simps\<close>)
  then have "array_run ?cfg (new_group True None) (example_run ! 3)"
    by (rule array_more) (use step_executed[of 0 "example_run ! 2" 0 ?cfg 7] in \<open>simp add: example_run_simps\<close>)
  then show ?thesis
    by (rule array_more) (use step_start[of 0 "example_run ! 3" 1 ?cfg] in \<open>simp add: example_run_simps\<close>)
qed

theorem array_executor_complete_witness:
  "mset (xs_log (example_run ! 4)) = mset [0..<1] \<and> dom (rg_resultItems (xs_result (example_run ! 4))) = {..<1}"
proof -
  have "array_outcome (example_run ! 4) = Some (Inr (xs_result (example_run ! 4)))"
    by (simp add: array_outcome_def example_run_simps)
  then show ?thesis using array_executor_complete[OF example_array_run] by simp
qed

section \<open>The array executor ends\<close>

text \<open>Each worker makes at most three steps an iteration: it starts, its query is prepared, its execution ends.\<close>

fun worker_weight :: "array_config \<Rightarrow> worker \<Rightarrow> nat" where
  "worker_weight cfg (Ready it) = 3 * (length (ac_queries cfg) + 1 - it)"
| "worker_weight cfg (Preparing it) = 3 * (length (ac_queries cfg) + 1 - it) - 1"
| "worker_weight cfg (Executing it) = 3 * (length (ac_queries cfg) + 1 - it) - 2"
| "worker_weight cfg _ = 0"

definition array_weight :: "array_config \<Rightarrow> 'r array_state \<Rightarrow> nat" where
  "array_weight cfg s = sum_list (map (worker_weight cfg) (xs_workers s))"

lemma iteration_bound:
  assumes "0 < ac_level cfg" "\<forall>j < it. item_index cfg w j < n"
  shows "it \<le> n"
proof (cases it)
  case (Suc k)
  then have "w + ac_level cfg * k < n" using assms(2) by (simp add: item_index_def)
  moreover have "k \<le> ac_level cfg * k" using assms(1) by simp
  ultimately show ?thesis using Suc by linarith
qed simp

lemma weight_update: "w < length xs \<Longrightarrow> f y < f (xs ! w) \<Longrightarrow> sum_list (map f (xs[w := y])) < (sum_list (map f xs) :: nat)"
  by (induction xs arbitrary: w) (auto simp: nth_Cons split: nat.splits)

lemma array_weight_step:
  assumes inv: "array_inv cfg s" and st: "array_step cfg s s'"
  shows "array_weight cfg s' < array_weight cfg s"
proof -
  have upd: "xs_workers s' = (xs_workers s)[w := y] \<Longrightarrow> w < length (xs_workers s) \<Longrightarrow>
      worker_weight cfg y < worker_weight cfg (xs_workers s ! w) \<Longrightarrow> ?thesis" for w y
    by (simp add: array_weight_def weight_update)
  have bound: "it \<le> length (ac_queries cfg)"
    if "w < length (xs_workers s)" "xs_workers s ! w \<in> {Ready it, Preparing it, Executing it}" for w it
  proof -
    have "w < ac_level cfg" "finished cfg w (xs_workers s ! w) (log_of cfg w (xs_log s))"
      using array_inv_finished[OF inv that(1)] that(2) by auto
    then show ?thesis using that(2) by (intro iteration_bound[of cfg it w]) auto
  qed
  from st show ?thesis
  proof cases
    case (step_start w it)
    then show ?thesis using bound[of w it]
      by (intro upd[of w "xs_workers s' ! w"]) (auto simp: step_defs)
  next
    case (step_prepared w it)
    then show ?thesis using bound[of w it] by (intro upd[of w "Executing it"]) (auto simp: step_defs)
  next
    case (step_prepare_failed w it err)
    then show ?thesis using bound[of w it] by (intro upd[of w Rejected]) (auto simp: step_defs)
  next
    case (step_executed w it rs)
    then show ?thesis using bound[of w it] by (intro upd[of w "Ready (it + 1)"]) (auto simp: step_defs)
  next
    case (step_failed w it err)
    then show ?thesis using bound[of w it]
      by (intro upd[of w "xs_workers s' ! w"]) (auto simp: step_defs)
  qed
qed

lemma array_progress:
  assumes "array_inv cfg s" "array_outcome s = None"
  shows "\<exists>s'. array_step cfg s s'"
proof -
  have "\<not> list_all (\<lambda>x. x = Ended) (xs_workers s)" "Rejected \<notin> set (xs_workers s)"
    using assms by (auto simp: array_outcome_def array_inv_def split: option.splits if_splits)
  then obtain w where w: "w < length (xs_workers s)" "xs_workers s ! w \<noteq> Ended" "xs_workers s ! w \<noteq> Rejected"
    by (auto simp: list_all_length in_set_conv_nth)
  then show ?thesis by (cases "xs_workers s ! w") (blast intro: array_step.intros)+
qed

text \<open>
  C37: The execution over an array ends, if each of its requests does: it makes at most three steps for each worker
  and iteration, and as long as the promise has neither been resolved nor rejected another step is possible.
\<close>

theorem array_executor_ends:
  assumes "array_run cfg (new_group collect maxErrors) s"
  shows "(\<forall>s'. array_step cfg s s' \<longrightarrow> array_weight cfg s' < array_weight cfg s) \<and>
         (array_outcome s = None \<longrightarrow> (\<exists>s'. array_step cfg s s'))"
  using array_run_inv[OF assms refl] array_weight_step array_progress by blast

lemma example_run_start: "array_run (array_config_of [''q''] (Some 4) True) (new_group True None :: nat group) (example_run ! 0)"
  using array_new[of "array_config_of [''q''] (Some 4) True" "new_group True None :: nat group"] by (simp add: example_run_def Let_def)

theorem array_executor_ends_witness:
  "\<exists>s'. array_step (array_config_of [''q''] (Some 4) True) (example_run ! 0) s'"
proof -
  have "array_outcome (example_run ! 0) = None" by (simp add: array_outcome_def example_run_simps)
  then show ?thesis using array_executor_ends[OF example_run_start] by simp
qed

text \<open>
  The error of a query that cannot be prepared is not caught: the promise is rejected although
  \<open>raiseOnFirstError\<close> is false, the group does not count it, and the other workers go on.
\<close>

lemma prepare_failure_rejects: "xs_rejection s = None \<Longrightarrow>
   array_outcome (prepare_failed w err s) = Some (Inl err) \<and> xs_stop (prepare_failed w err s) = xs_stop s \<and>
   rg_errors (xs_result (prepare_failed w err s)) = rg_errors (xs_result s)"
  by (simp add: step_defs array_outcome_def)

section \<open>The executor over a stream\<close>

text \<open>
  The state of \<open>StreamBasedExecutor\<close>, with what the client has under way (\<open>se_running\<close>, the indexes of the requests
  that have not settled), the requests that have settled and whose last continuation has not run (\<open>se_checks\<close>), the
  parameters the client was called with so far (\<open>se_requests\<close>), and the log. \<open>se_outcome\<close> is what the promise settled with; only the first call of its callbacks has an effect.
\<close>

record ('p, 'r) stream_state =
  se_level :: nat
  se_raise :: bool
  se_inFlight :: nat
  se_index :: nat
  se_result :: "'r group"
  se_readEnded :: bool
  se_paused :: bool
  se_outcome :: "'r group result option"
  se_running :: "nat list"
  se_checks :: nat
  se_log :: "nat list"
  se_requests :: "'p list"

definition new_stream_state :: "nat option \<Rightarrow> bool \<Rightarrow> 'r group \<Rightarrow> ('p, 'r) stream_state" where
  "new_stream_state level raise g =
     \<lparr>se_level = or_100 level, se_raise = raise, se_inFlight = 0, se_index = 0, se_result = g, se_readEnded = False,
      se_paused = False, se_outcome = None, se_running = [], se_checks = 0, se_log = [], se_requests = []\<rparr>"

definition settle :: "'r group result \<Rightarrow> ('p, 'r) stream_state \<Rightarrow> ('p, 'r) stream_state" where
  "settle v s = (if se_outcome s = None then s\<lparr>se_outcome := Some v\<rparr> else s)"

definition setReadEnded :: "js_error option \<Rightarrow> ('p, 'r) stream_state \<Rightarrow> ('p, 'r) stream_state" where
  "setReadEnded err s =
     (if se_readEnded s then s
      else let s' = s\<lparr>se_readEnded := True\<rparr>
           in case err of
                Some e \<Rightarrow> settle (Inl e) s'
              | None \<Rightarrow> if se_inFlight s' = 0 then settle (Inr (se_result s')) s' else s')"

text \<open>\<open>_executeOne\<close>; an item of the stream is an array of parameters or something else.\<close>

datatype 'p stream_item = ArrayItem 'p | OtherItem

definition executeOne :: "'p stream_item \<Rightarrow> ('p, 'r) stream_state \<Rightarrow> ('p, 'r) stream_state" where
  "executeOne item s = (case item of
       OtherItem \<Rightarrow> setReadEnded (Some TypeError) s
     | ArrayItem params \<Rightarrow>
         if se_readEnded s then s
         else let s' = s\<lparr>se_inFlight := se_inFlight s + 1, se_index := se_index s + 1, se_running := se_index s # se_running s,
                         se_requests := se_requests s @ [params]\<rparr>
              in if se_inFlight s' \<ge> se_level s' then s'\<lparr>se_paused := True\<rparr> else s')"

text \<open>A request settles: the first continuation, or the one of the error with \<open>_setError\<close>.\<close>

definition request_settled :: "nat \<Rightarrow> 'r result \<Rightarrow> ('p, 'r) stream_state \<Rightarrow> ('p, 'r) stream_state" where
  "request_settled i out s =
     (let s' = s\<lparr>se_inFlight := se_inFlight s - 1, se_running := remove1 i (se_running s), se_checks := se_checks s + 1,
                 se_log := se_log s @ [i]\<rparr>
      in case out of
           Inr rs \<Rightarrow> s'\<lparr>se_result := setResultItem i rs (se_result s')\<rparr>
         | Inl err \<Rightarrow> let s'' = s'\<lparr>se_result := setError i err (se_result s')\<rparr>
                      in if se_raise s'' then settle (Inl err) (s''\<lparr>se_readEnded := True\<rparr>) else s'')"

text \<open>The last continuation.\<close>

definition after_request :: "('p, 'r) stream_state \<Rightarrow> ('p, 'r) stream_state" where
  "after_request s =
     (let s' = s\<lparr>se_paused := False, se_checks := se_checks s - 1\<rparr>
      in if se_readEnded s' \<and> se_inFlight s' = 0 then settle (Inr (se_result s')) s' else s')"

text \<open>
  The runs, with the events so far: a stream that is not paused emits an item, it fails or ends, a request settles, its
  last continuation runs. With \<open>strict\<close> the stream emits only once the continuations of the settled requests have run,
  as it does unless it emits from a microtask.
\<close>

datatype ('p, 'r) stream_event = Data "'p stream_item" | StreamEnded "js_error option" | Settled nat "'r result" | Continued

inductive stream_run :: "bool \<Rightarrow> ('p, 'r) stream_state \<Rightarrow> ('p, 'r) stream_event list \<Rightarrow> ('p, 'r) stream_state \<Rightarrow> bool"
  for strict :: bool and s0 :: "('p, 'r) stream_state" where
  stream_new: "stream_run strict s0 [] s0"
| stream_data: "stream_run strict s0 evs s \<Longrightarrow> \<not> se_paused s \<Longrightarrow> (strict \<Longrightarrow> se_checks s = 0) \<Longrightarrow> stream_run strict s0 (evs @ [Data item]) (executeOne item s)"
| stream_ended: "stream_run strict s0 evs s \<Longrightarrow> stream_run strict s0 (evs @ [StreamEnded err]) (setReadEnded err s)"
| stream_settled: "stream_run strict s0 evs s \<Longrightarrow> i \<in> set (se_running s) \<Longrightarrow> stream_run strict s0 (evs @ [Settled i out]) (request_settled i out s)"
| stream_after: "stream_run strict s0 evs s \<Longrightarrow> 0 < se_checks s \<Longrightarrow> stream_run strict s0 (evs @ [Continued]) (after_request s)"

text \<open>
  The items an execution takes: the arrays the stream emits before an event ends the reading, which are the end or an
  error of the stream, an item that is no array and, when errors are raised, a request that fails.
\<close>

fun ends_reading :: "bool \<Rightarrow> ('p, 'r) stream_event \<Rightarrow> bool" where
  "ends_reading raise (Data OtherItem) = True"
| "ends_reading raise (StreamEnded err) = True"
| "ends_reading raise (Settled i (Inl err)) = raise"
| "ends_reading raise _ = False"

fun item_params :: "('p, 'r) stream_event \<Rightarrow> 'p list" where
  "item_params (Data (ArrayItem params)) = [params]"
| "item_params _ = []"

definition accepted :: "bool \<Rightarrow> ('p, 'r) stream_event list \<Rightarrow> 'p list" where
  "accepted raise evs = concat (map item_params (takeWhile (\<lambda>e. \<not> ends_reading raise e) evs))"

lemma accepted_snoc:
  "accepted raise (evs @ [e]) =
     (if (\<exists>x \<in> set evs. ends_reading raise x) \<or> ends_reading raise e then accepted raise evs else accepted raise evs @ item_params e)"
proof (cases "\<exists>x \<in> set evs. ends_reading raise x")
  case True
  then obtain x where "x \<in> set evs" "\<not> \<not> ends_reading raise x" by blast
  from takeWhile_append1[of x evs "\<lambda>e. \<not> ends_reading raise e" "[e]", OF this] show ?thesis using True by (simp add: accepted_def)
next
  case False
  then have t: "takeWhile (\<lambda>e. \<not> ends_reading raise e) evs = evs"
    "takeWhile (\<lambda>e. \<not> ends_reading raise e) (evs @ [e]) = evs @ takeWhile (\<lambda>e. \<not> ends_reading raise e) [e]"
    by (auto simp: takeWhile_eq_all_conv)
  show ?thesis unfolding accepted_def t using False by auto
qed

text \<open>The parts of the invariant: the executions, the outcome, and the bound of a strict run.\<close>

definition executions_inv :: "('p, 'r) stream_state \<Rightarrow> bool" where
  "executions_inv s \<longleftrightarrow> mset (se_running s) + mset (se_log s) = mset [0..<se_index s] \<and> se_inFlight s = length (se_running s) \<and>
     rg_totalExecuted (se_result s) = length (se_log s)"

definition outcome_inv :: "('p, 'r) stream_state \<Rightarrow> bool" where
  "outcome_inv s \<longleftrightarrow> (se_readEnded s \<and> se_inFlight s = 0 \<and> se_checks s = 0 \<longrightarrow> se_outcome s \<noteq> None) \<and>
     (\<forall>g. se_outcome s = Some (Inr g) \<longrightarrow> g = se_result s \<and> se_readEnded s \<and> se_inFlight s = 0) \<and>
     (se_raise s \<and> rg_errors (se_result s) \<noteq> [] \<longrightarrow> (\<exists>e. se_outcome s = Some (Inl e)))"

definition level_inv :: "('p, 'r) stream_state \<Rightarrow> bool" where
  "level_inv s \<longleftrightarrow> se_inFlight s \<le> se_level s \<and> (\<not> se_paused s \<or> 0 < se_checks s \<longrightarrow> se_inFlight s < se_level s)"

definition reading_inv :: "bool \<Rightarrow> ('p, 'r) stream_event list \<Rightarrow> ('p, 'r) stream_state \<Rightarrow> bool" where
  "reading_inv raise evs s \<longleftrightarrow> se_raise s = raise \<and> se_readEnded s = (\<exists>x \<in> set evs. ends_reading raise x) \<and>
     se_requests s = accepted raise evs \<and> se_index s = length (se_requests s)"

lemmas stream_defs = executeOne_def setReadEnded_def request_settled_def after_request_def settle_def setResultItem_def setError_def Let_def

lemma request_settled_fields:
  "se_running (request_settled i out s) = remove1 i (se_running s)" "se_log (request_settled i out s) = se_log s @ [i]"
  "se_index (request_settled i out s) = se_index s" "se_inFlight (request_settled i out s) = se_inFlight s - 1"
  "rg_totalExecuted (se_result (request_settled i out s)) = rg_totalExecuted (se_result s) + 1"
  by (auto simp: stream_defs split: sum.split)

lemma se_level_fields [simp]:
  "se_level (executeOne item s) = se_level s" "se_level (setReadEnded err s) = se_level s"
  "se_level (request_settled i out s) = se_level s" "se_level (after_request s) = se_level s"
  by (auto simp: stream_defs split: sum.split option.split stream_item.split)

lemma reading_inv_steps:
  assumes "reading_inv raise evs s"
  shows "reading_inv raise (evs @ [Data item]) (executeOne item s)" "reading_inv raise (evs @ [StreamEnded err]) (setReadEnded err s)"
    "reading_inv raise (evs @ [Settled i out]) (request_settled i out s)" "reading_inv raise (evs @ [Continued]) (after_request s)"
proof -
  show "reading_inv raise (evs @ [Data item]) (executeOne item s)"
    using assms by (cases item) (auto simp: reading_inv_def accepted_snoc stream_defs)
  show "reading_inv raise (evs @ [Settled i out]) (request_settled i out s)"
    using assms by (cases out) (auto simp: reading_inv_def accepted_snoc stream_defs)
qed (use assms in \<open>auto simp: reading_inv_def accepted_snoc stream_defs split: option.splits\<close>)

lemma executions_inv_steps:
  assumes "executions_inv s"
  shows "executions_inv (executeOne item s)" "executions_inv (setReadEnded err s)" "executions_inv (after_request s)"
    "i \<in> set (se_running s) \<Longrightarrow> executions_inv (request_settled i out s)"
proof -
  show "i \<in> set (se_running s) \<Longrightarrow> executions_inv (request_settled i out s)"
  proof -
    assume i: "i \<in> set (se_running s)"
    have "mset (remove1 i (se_running s)) + mset (se_log s @ [i]) = mset (se_running s) + mset (se_log s)"
      using i by (simp add: union_assoc)
    also have "\<dots> = mset [0..<se_index s]" using assms by (simp add: executions_inv_def)
    finally show ?thesis using assms i unfolding executions_inv_def request_settled_fields by (simp only: length_remove1) simp
  qed
qed (use assms in \<open>auto simp: executions_inv_def stream_defs atLeast0_lessThan_Suc split: option.splits stream_item.splits\<close>)

lemma outcome_inv_steps:
  assumes "outcome_inv s" "executions_inv s"
  shows "outcome_inv (executeOne item s)" "outcome_inv (setReadEnded err s)" "0 < se_checks s \<Longrightarrow> outcome_inv (after_request s)"
    "i \<in> set (se_running s) \<Longrightarrow> outcome_inv (request_settled i out s)"
proof -
  show "i \<in> set (se_running s) \<Longrightarrow> outcome_inv (request_settled i out s)"
  proof -
    assume "i \<in> set (se_running s)"
    then have "0 < se_inFlight s" using assms(2) by (auto simp: executions_inv_def length_pos_if_in_set)
    then have "\<And>g. se_outcome s \<noteq> Some (Inr g)" using assms(1) by (auto simp: outcome_inv_def)
    then have "se_outcome s = None \<or> (\<exists>e. se_outcome s = Some (Inl e))" by (metis option.exhaust sum.exhaust)
    then show ?thesis using assms(1) by (cases out) (auto simp: outcome_inv_def stream_defs)
  qed
  show "outcome_inv (setReadEnded err s)" for err
    using assms(1) by (auto simp: outcome_inv_def stream_defs split: option.splits)
  then show "outcome_inv (executeOne item s)"
    using assms(1) by (auto simp: executeOne_def Let_def split: stream_item.split) (auto simp: outcome_inv_def)
  show "0 < se_checks s \<Longrightarrow> outcome_inv (after_request s)"
    using assms(1) by (auto simp: outcome_inv_def stream_defs)
qed

lemma level_inv_steps:
  assumes "level_inv s" "executions_inv s"
  shows "\<not> se_paused s \<Longrightarrow> se_checks s = 0 \<Longrightarrow> level_inv (executeOne item s)" "level_inv (setReadEnded err s)"
    "0 < se_checks s \<Longrightarrow> level_inv (after_request s)" "i \<in> set (se_running s) \<Longrightarrow> level_inv (request_settled i out s)"
proof -
  show "i \<in> set (se_running s) \<Longrightarrow> level_inv (request_settled i out s)"
  proof -
    assume "i \<in> set (se_running s)"
    then have "0 < se_inFlight s" using assms(2) by (auto simp: executions_inv_def length_pos_if_in_set)
    then show ?thesis using assms(1) by (auto simp: level_inv_def stream_defs split: sum.splits)
  qed
qed (use assms(1) in \<open>auto simp: level_inv_def stream_defs split: option.splits stream_item.splits\<close>)

lemma stream_run_inv:
  assumes "stream_run strict s0 evs s" "s0 = new_stream_state level raise (new_group collect maxErrors)"
  shows "executions_inv s \<and> outcome_inv s \<and> (strict \<longrightarrow> level_inv s) \<and> se_level s = or_100 level \<and> reading_inv raise evs s"
  using assms
proof (induction rule: stream_run.induct)
  case stream_new
  then show ?case
    by (auto simp: executions_inv_def outcome_inv_def level_inv_def reading_inv_def accepted_def new_stream_state_def new_group_def or_100_def
        split: option.split)
next
  case (stream_data evs s item)
  then show ?case using executions_inv_steps outcome_inv_steps level_inv_steps reading_inv_steps by auto
next
  case (stream_ended evs s err)
  then show ?case using executions_inv_steps outcome_inv_steps level_inv_steps reading_inv_steps by auto
next
  case (stream_settled evs s i out)
  then show ?case using executions_inv_steps outcome_inv_steps level_inv_steps reading_inv_steps by auto
next
  case (stream_after evs s)
  then show ?case using executions_inv_steps outcome_inv_steps level_inv_steps reading_inv_steps by auto
qed

text \<open>
  C10: An execution over a stream calls the client once, in order, for each array the stream emits until the reading is
  ended, by the end or an error of the stream, by an item that is no array or, when errors are raised, by a request that
  fails; what the stream emits later is ignored. Each of these requests is running or has settled once, and is counted
  then. Once the reading has ended and no request is left the promise has settled; when it is resolved every request has
  been executed, and if errors are raised none has failed. Unless the stream emits from a microtask there are never more
  requests in flight than the level.
\<close>

theorem stream_executor_complete:
  assumes "stream_run strict (new_stream_state level raise (new_group collect maxErrors)) evs s"
  shows "se_requests s = accepted raise evs \<and> se_index s = length (accepted raise evs) \<and>
         se_readEnded s = (\<exists>e \<in> set evs. ends_reading raise e) \<and>
         mset (se_running s) + mset (se_log s) = mset [0..<se_index s] \<and>
         (se_readEnded s \<and> se_running s = [] \<and> se_checks s = 0 \<longrightarrow> se_outcome s \<noteq> None) \<and>
         (\<forall>g. se_outcome s = Some (Inr g) \<longrightarrow>
            g = se_result s \<and> se_running s = [] \<and> rg_totalExecuted g = se_index s \<and> (se_raise s \<longrightarrow> rg_errors g = [])) \<and>
         (strict \<longrightarrow> se_inFlight s = length (se_running s) \<and> se_inFlight s \<le> or_100 level)"
proof -
  from stream_run_inv[OF assms refl]
  have e: "executions_inv s" and o_inv: "outcome_inv s" and l: "strict \<longrightarrow> level_inv s" "se_level s = or_100 level"
    and rd: "reading_inv raise evs s" by auto
  have ms: "mset (se_running s) + mset (se_log s) = mset [0..<se_index s]" and fl: "se_inFlight s = length (se_running s)"
    and tot: "rg_totalExecuted (se_result s) = length (se_log s)" using e by (simp_all add: executions_inv_def)
  have cnt: "length (se_log s) = se_index s" if "se_running s = []"
    using ms that mset_eq_length[of "se_log s" "[0..<se_index s]"] by simp
  have "g = se_result s \<and> se_running s = [] \<and> rg_totalExecuted g = se_index s \<and> (se_raise s \<longrightarrow> rg_errors g = [])"
    if "se_outcome s = Some (Inr g)" for g
  proof -
    have "g = se_result s" "se_running s = []" "se_raise s \<longrightarrow> rg_errors g = []" using o_inv that fl by (auto simp: outcome_inv_def)
    then show ?thesis using cnt tot by simp
  qed
  moreover have "se_readEnded s \<and> se_running s = [] \<and> se_checks s = 0 \<longrightarrow> se_outcome s \<noteq> None"
    using o_inv fl by (simp add: outcome_inv_def)
  moreover have "strict \<longrightarrow> se_inFlight s = length (se_running s) \<and> se_inFlight s \<le> or_100 level"
    using l fl by (auto simp: level_inv_def)
  moreover have "se_requests s = accepted raise evs" "se_index s = length (accepted raise evs)" "se_readEnded s = (\<exists>e \<in> set evs. ends_reading raise e)"
    using rd by (auto simp: reading_inv_def)
  ultimately show ?thesis using ms by blast
qed

definition example_stream :: "(string, nat) stream_state" where
  "example_stream = executeOne (ArrayItem ''b'') (after_request (request_settled 0 (Inr 7) (setReadEnded None (executeOne (ArrayItem ''a'')
     (new_stream_state None True (new_group True None))))))"

theorem stream_executor_complete_witness:
  "se_outcome example_stream = Some (Inr (se_result example_stream)) \<and> rg_totalExecuted (se_result example_stream) = 1 \<and>
   se_requests example_stream = [''a'']"
proof -
  let ?s0 = "new_stream_state None True (new_group True None) :: (string, nat) stream_state"
  let ?evs = "(((([] @ [Data (ArrayItem ''a'')]) @ [StreamEnded None]) @ [Settled 0 (Inr (7 :: nat))]) @ [Continued]) @ [Data (ArrayItem ''b'')]"
  note ev = example_stream_def stream_defs new_stream_state_def or_100_def new_group_def
  have run: "stream_run True ?s0 ?evs example_stream"
    unfolding example_stream_def
    by (rule stream_data[OF stream_after[OF stream_settled[OF stream_ended[OF stream_data[OF stream_new]]]]]) (simp_all add: ev)
  have "se_outcome example_stream = Some (Inr (se_result example_stream))" by (simp add: ev)
  moreover have "accepted True ?evs = [''a'']" by (simp add: accepted_def)
  ultimately show ?thesis using stream_executor_complete[OF run] by simp
qed

text \<open>A stream that emits from a microtask can exceed the level: here the level is 2 and three requests are in flight.\<close>

lemma stream_level_exceeded:
  "\<exists>evs s. stream_run False (new_stream_state (Some 2) True (new_group False None :: nat group)) evs (s :: (unit, nat) stream_state) \<and> se_inFlight s = 3"
proof -
  let ?s0 = "new_stream_state (Some 2) True (new_group False None) :: (unit, nat) stream_state"
  let ?x = "executeOne (ArrayItem ())"
  let ?s4 = "?x (after_request (?x (?x (after_request (request_settled 1 (Inr 0) (request_settled 0 (Inr 0) (?x (?x ?s0))))))))"
  note ev = stream_defs new_stream_state_def or_100_def new_group_def
  have "\<exists>evs. stream_run False ?s0 evs ?s4"
    by (rule exI, rule stream_data[OF stream_after[OF stream_data[OF stream_data[OF stream_after[OF stream_settled[OF stream_settled[OF
          stream_data[OF stream_data[OF stream_new]]]]]]]]]) (simp_all add: ev)
  moreover have "se_inFlight ?s4 = 3" by (simp add: ev)
  ultimately show ?thesis by blast
qed

section \<open>The entry point\<close>

text \<open>The kinds of arguments \<open>executeConcurrent\<close> tells apart, and the executor it makes.\<close>

datatype query_arg = QueryText string | QueryArray "string list" | OtherQuery
datatype params_arg = ParamArray nat | ParamStream | OtherParams
datatype ('p, 'r) executor = ArrayExecutor array_config "'r group" | StreamExecutor "('p, 'r) stream_state"

record concurrent_options =
  co_level :: "nat option"
  co_raiseOnFirstError :: "bool option"
  co_collectResults :: bool
  co_maxErrors :: "nat option"

definition raise_option :: "concurrent_options \<Rightarrow> bool" where
  "raise_option opts \<longleftrightarrow> co_raiseOnFirstError opts \<noteq> Some False"

definition group_option :: "concurrent_options \<Rightarrow> 'r group" where
  "group_option opts = new_group (co_collectResults opts) (co_maxErrors opts)"

definition array_executor :: "string list \<Rightarrow> concurrent_options \<Rightarrow> ('p, 'r) executor" where
  "array_executor qs opts = ArrayExecutor (array_config_of qs (co_level opts) (raise_option opts)) (group_option opts)"

definition executeConcurrent :: "bool \<Rightarrow> query_arg \<Rightarrow> params_arg \<Rightarrow> concurrent_options \<Rightarrow> ('p, 'r) executor result" where
  "executeConcurrent hasClient query parameters opts =
     (if \<not> hasClient then Inl TypeError
      else case query of
             QueryText q \<Rightarrow>
               (case parameters of
                  ParamArray n \<Rightarrow> Inr (array_executor (replicate n q) opts)
                | ParamStream \<Rightarrow> Inr (StreamExecutor (new_stream_state (co_level opts) (raise_option opts) (group_option opts)))
                | OtherParams \<Rightarrow> Inl TypeError)
           | QueryArray qs \<Rightarrow> Inr (array_executor qs opts)
           | OtherQuery \<Rightarrow> Inl TypeError)"

end
