(* ===== verification/Execution_Options.thy ===== *)
theory Execution_Options
  imports Utils_Collections Timestamp_Generator Protocol_Version Duration Type_Names Load_Balancing
begin

text \<open>
  Execution profiles (\<^verbatim>\<open>src/lib/execution-profile.js\<close>), the options of an execution, which fall back from the request to its
  profile and to the client (\<^verbatim>\<open>src/lib/execution-options.js\<close>), and what of them reaches the native layer
  (\<^verbatim>\<open>src/lib/query-options.js\<close>). An option that is not given is \<open>undefined\<close>, here \<open>None\<close>. Policies, hosts, hints and callbacks are
  references, which this code only passes on; the \<open>Long\<close> class is a parameter.
\<close>

type_synonym ref = nat

section \<open>Profiles\<close>

record profile =
  pf_name :: string
  pf_consistency :: "nat option"
  pf_loadBalancing :: "ref option"
  pf_readTimeout :: "int option"
  pf_retry :: "ref option"
  pf_serialConsistency :: "nat option"

text \<open>The constructor; \<open>None\<close> is a name that is not a string. The options are the other fields.\<close>

definition new_profile :: "string option \<Rightarrow> profile \<Rightarrow> profile result" where
  "new_profile name options = (case name of None \<Rightarrow> Inl TypeError | Some n \<Rightarrow> Inr (options\<lparr>pf_name := n\<rparr>))"

definition bare_profile :: "string \<Rightarrow> profile" where
  "bare_profile n = \<lparr>pf_name = n, pf_consistency = None, pf_loadBalancing = None, pf_readTimeout = None, pf_retry = None,
     pf_serialConsistency = None\<rparr>"

text \<open>
  The manager. Its default profile is an element of its profiles, given by its index, so that an update of the one
  is an update of the other.
\<close>

record profile_manager =
  pm_profiles :: "profile list"
  pm_default :: nat
  pm_defaultRetry :: "ref option"
  pm_policies :: "ref list"
  pm_map :: "(string \<times> nat) list"

definition or_else :: "'a option \<Rightarrow> 'a option \<Rightarrow> 'a option" where
  "or_else a b = (case a of Some x \<Rightarrow> Some x | None \<Rightarrow> b)"

fun first_index :: "('a \<Rightarrow> bool) \<Rightarrow> 'a list \<Rightarrow> nat option" where
  "first_index P [] = None"
| "first_index P (x # xs) = (if P x then Some 0 else map_option Suc (first_index P xs))"

text \<open>\<open>_setDefault\<close>: the profiles, the index of the default one and its configured retry policy.\<close>

definition setDefault :: "ref \<Rightarrow> ref \<Rightarrow> profile list \<Rightarrow> profile list \<times> nat \<times> ref option" where
  "setDefault loadBalancing retry ps =
     (let (ps1, d) = (case first_index (\<lambda>p. pf_name p = ''default'') ps of
                        Some i \<Rightarrow> (ps, i)
                      | None \<Rightarrow> (ps @ [bare_profile ''default''], length ps));
          p = ps1 ! d
      in (ps1[d := p\<lparr>pf_loadBalancing := or_else (pf_loadBalancing p) (Some loadBalancing), pf_retry := or_else (pf_retry p) (Some retry)\<rparr>],
          d, pf_retry p))"

text \<open>The body of the loop over the profiles, for the profile at an index.\<close>

definition register_profile :: "nat \<Rightarrow> profile_manager \<Rightarrow> profile_manager" where
  "register_profile i m =
     (let p = pm_profiles m ! i;
          lb = or_else (pf_loadBalancing p) (pf_loadBalancing (pm_profiles m ! pm_default m))
      in m\<lparr>pm_map := AList.update (pf_name p) i (pm_map m), pm_profiles := (pm_profiles m)[i := p\<lparr>pf_loadBalancing := lb\<rparr>],
           pm_policies := (case lb of None \<Rightarrow> pm_policies m | Some l \<Rightarrow> if l \<in> set (pm_policies m) then pm_policies m else pm_policies m @ [l])\<rparr>)"

definition new_profile_manager :: "ref \<Rightarrow> ref \<Rightarrow> profile list option \<Rightarrow> profile_manager" where
  "new_profile_manager loadBalancing retry profiles =
     (let (ps, d, r) = setDefault loadBalancing retry (case profiles of None \<Rightarrow> [] | Some ps \<Rightarrow> ps)
      in fold register_profile [0..<length ps] \<lparr>pm_profiles = ps, pm_default = d, pm_defaultRetry = r, pm_policies = [], pm_map = []\<rparr>)"

text \<open>The argument of \<open>getProfile\<close> is a profile, or a name that may be missing or empty.\<close>

datatype profile_arg = ByProfile profile | ByName string | NoName

definition getProfile :: "profile_manager \<Rightarrow> profile_arg \<Rightarrow> profile option" where
  "getProfile m a = (case a of
       ByProfile p \<Rightarrow> Some p
     | ByName n \<Rightarrow> map_option (\<lambda>i. pm_profiles m ! i) (map_of (pm_map m) (if n = [] then ''default'' else n))
     | NoName \<Rightarrow> map_option (\<lambda>i. pm_profiles m ! i) (map_of (pm_map m) ''default''))"

definition getDefault :: "profile_manager \<Rightarrow> profile" where
  "getDefault m = pm_profiles m ! pm_default m"

definition getDefaultLoadBalancing :: "profile_manager \<Rightarrow> ref option" where
  "getDefaultLoadBalancing m = pf_loadBalancing (getDefault m)"

fun dist_rank :: "distance \<Rightarrow> nat" where
  "dist_rank DistLocal = 0"
| "dist_rank DistRemote = 1"
| "dist_rank DistIgnored = 2"

text \<open>The loop of \<open>getDistance\<close>, which ends early at a local distance.\<close>

fun closest :: "(ref \<Rightarrow> distance) \<Rightarrow> ref list \<Rightarrow> distance \<Rightarrow> distance" where
  "closest dist [] d = d"
| "closest dist (l # ls) d =
     (if dist_rank (dist l) < dist_rank d then (if dist l = DistLocal then DistLocal else closest dist ls (dist l))
      else closest dist ls d)"

definition getDistance :: "(ref \<Rightarrow> distance) \<Rightarrow> profile_manager \<Rightarrow> distance" where
  "getDistance dist m = closest dist (pm_policies m) DistIgnored"

section \<open>Options\<close>

datatype 'l ts_arg = TsNull | TsGiven "'l timestamp"
datatype page_arg = PageText string | PageBuffer buffer
type_synonym payload = "(string \<times> buffer) list"

record 'l query_options =
  qo_autoPage :: "bool option"
  qo_captureStackTrace :: "bool option"
  qo_consistency :: "nat option"
  qo_counter :: "bool option"
  qo_customPayload :: "payload option"
  qo_executeAs :: "string option"
  qo_executionProfile :: profile_arg
  qo_fetchSize :: "int option"
  qo_hints :: "ref option"
  qo_host :: "ref option"
  qo_isIdempotent :: "bool option"
  qo_keyspace :: "string option"
  qo_logged :: "bool option"
  qo_paged :: "bool option"
  qo_pageState :: "page_arg option"
  qo_prepare :: "bool option"
  qo_readTimeout :: "int option"
  qo_retry :: "ref option"
  qo_routingIndexes :: "nat list option"
  qo_routingKey :: "buffer list option"
  qo_routingNames :: "string list option"
  qo_serialConsistency :: "nat option"
  qo_timestamp :: "'l ts_arg option"
  qo_traceQuery :: "bool option"

definition emptyOptions :: "'l query_options" where
  "emptyOptions = \<lparr>qo_autoPage = None, qo_captureStackTrace = None, qo_consistency = None, qo_counter = None, qo_customPayload = None,
     qo_executeAs = None, qo_executionProfile = NoName, qo_fetchSize = None, qo_hints = None, qo_host = None, qo_isIdempotent = None,
     qo_keyspace = None, qo_logged = None, qo_paged = None, qo_pageState = None, qo_prepare = None, qo_readTimeout = None,
     qo_retry = None, qo_routingIndexes = None, qo_routingKey = None, qo_routingNames = None, qo_serialConsistency = None,
     qo_timestamp = None, qo_traceQuery = None\<rparr>"

text \<open>What the options read of the client.\<close>

record 'l client =
  cl_queryOptions :: "'l query_options"
  cl_profileManager :: profile_manager
  cl_readTimeout :: "int option"
  cl_retry :: ref
  cl_timestampGeneration :: "generator option"
  cl_protocolVersion :: int

text \<open>The object the native layer builds its options from; \<open>rt_Number\<close> is a timestamp that was not converted.\<close>

datatype rust_timestamp = RtBigInt int | RtNumber int | RtNull

record rust_options =
  ro_autoPage :: "bool option"
  ro_captureStackTrace :: "bool option"
  ro_consistency :: "nat option"
  ro_counter :: "bool option"
  ro_fetchSize :: "int option"
  ro_isIdempotent :: "bool option"
  ro_keyspace :: "string option"
  ro_logged :: "bool option"
  ro_prepare :: "bool option"
  ro_readTimeout :: "int option"
  ro_routingIndexes :: "nat list option"
  ro_routingNames :: "string list option"
  ro_serialConsistency :: "nat option"
  ro_timestamp :: "rust_timestamp option"
  ro_traceQuery :: "bool option"

record 'l execution_options =
  eo_queryOptions :: "'l query_options"
  eo_rowCallback :: "ref option"
  eo_routingKey :: "buffer list option"
  eo_hints :: "ref option"
  eo_keyspace :: "string option"
  eo_routingIndexes :: "nat list option"
  eo_pageState :: "buffer option"
  eo_client :: "'l client"
  eo_profile :: profile
  eo_customPayload :: "payload option"
  eo_rustWrapper :: "rust_options option"

definition proxyExecuteKey :: string where "proxyExecuteKey = ''ProxyExecute''"

definition text_or :: "string option \<Rightarrow> string option \<Rightarrow> string option" where
  "text_or a b = (case a of Some s \<Rightarrow> if s \<noteq> [] then Some s else b | None \<Rightarrow> b)"

text \<open>A payload has the key with a buffer, which counts as true.\<close>

definition createCustomPayload :: "'l query_options \<Rightarrow> 'l query_options \<Rightarrow> payload option" where
  "createCustomPayload userOptions defaultQueryOptions =
     (let customPayload = or_else (qo_customPayload userOptions) (qo_customPayload defaultQueryOptions)
      in case text_or (qo_executeAs userOptions) (qo_executeAs defaultQueryOptions) of
           None \<Rightarrow> customPayload
         | Some executeAs \<Rightarrow>
             if executeAs = [] then customPayload
             else case customPayload of
                    None \<Rightarrow> Some [(proxyExecuteKey, utf8_encode executeAs)]
                  | Some p \<Rightarrow> if map_of p proxyExecuteKey = None then Some (p @ [(proxyExecuteKey, utf8_encode executeAs)]) else Some p)"

definition create_options :: "'l query_options option \<Rightarrow> 'l client \<Rightarrow> ref option \<Rightarrow> 'l execution_options result" where
  "create_options queryOptions client rowCallback =
     (let q = (case queryOptions of None \<Rightarrow> emptyOptions | Some q \<Rightarrow> q)
      in case getProfile (cl_profileManager client) (qo_executionProfile q) of
           None \<Rightarrow> Inl ArgumentError
         | Some p \<Rightarrow> Inr \<lparr>eo_queryOptions = q, eo_rowCallback = rowCallback, eo_routingKey = qo_routingKey q, eo_hints = qo_hints q,
             eo_keyspace = qo_keyspace q, eo_routingIndexes = qo_routingIndexes q,
             eo_pageState = map_option (\<lambda>a. case a of PageText s \<Rightarrow> hex_decode s | PageBuffer b \<Rightarrow> b) (qo_pageState q),
             eo_client = client, eo_profile = p, eo_customPayload = createCustomPayload q (cl_queryOptions client), eo_rustWrapper = None\<rparr>)"

subsection \<open>Getters\<close>

definition getCaptureStackTrace :: "'l execution_options \<Rightarrow> bool option" where
  "getCaptureStackTrace e = ifUndefined (qo_captureStackTrace (eo_queryOptions e)) (qo_captureStackTrace (cl_queryOptions (eo_client e)))"

definition getConsistency :: "'l execution_options \<Rightarrow> nat option" where
  "getConsistency e = ifUndefined3 (qo_consistency (eo_queryOptions e)) (pf_consistency (eo_profile e)) (qo_consistency (cl_queryOptions (eo_client e)))"

definition getFetchSize :: "'l execution_options \<Rightarrow> int option" where
  "getFetchSize e = ifUndefined (qo_fetchSize (eo_queryOptions e)) (qo_fetchSize (cl_queryOptions (eo_client e)))"

definition isAutoPage :: "'l execution_options \<Rightarrow> bool option" where
  "isAutoPage e = ifUndefined (qo_autoPage (eo_queryOptions e)) (qo_autoPage (cl_queryOptions (eo_client e)))"

definition isBatchCounter :: "'l execution_options \<Rightarrow> bool option" where
  "isBatchCounter e = ifUndefined (qo_counter (eo_queryOptions e)) (Some False)"

definition isBatchLogged :: "'l execution_options \<Rightarrow> bool option" where
  "isBatchLogged e = ifUndefined3 (qo_logged (eo_queryOptions e)) (qo_logged (cl_queryOptions (eo_client e))) (Some True)"

definition isIdempotent :: "'l execution_options \<Rightarrow> bool option" where
  "isIdempotent e = ifUndefined (qo_isIdempotent (eo_queryOptions e)) (qo_isIdempotent (cl_queryOptions (eo_client e)))"

definition isPrepared :: "'l execution_options \<Rightarrow> bool option" where
  "isPrepared e = ifUndefined (qo_prepare (eo_queryOptions e)) (qo_prepare (cl_queryOptions (eo_client e)))"

definition isQueryTracing :: "'l execution_options \<Rightarrow> bool option" where
  "isQueryTracing e = ifUndefined (qo_traceQuery (eo_queryOptions e)) (qo_traceQuery (cl_queryOptions (eo_client e)))"

definition isPaged :: "'l execution_options \<Rightarrow> bool option" where
  "isPaged e = ifUndefined (qo_paged (eo_queryOptions e)) (qo_paged (cl_queryOptions (eo_client e)))"

definition getReadTimeout :: "'l execution_options \<Rightarrow> int option" where
  "getReadTimeout e = ifUndefined3 (qo_readTimeout (eo_queryOptions e)) (pf_readTimeout (eo_profile e)) (cl_readTimeout (eo_client e))"

definition getRetryPolicy :: "'l execution_options \<Rightarrow> ref option" where
  "getRetryPolicy e = ifUndefined3 (qo_retry (eo_queryOptions e)) (pf_retry (eo_profile e)) (Some (cl_retry (eo_client e)))"

definition getSerialConsistency :: "'l execution_options \<Rightarrow> nat option" where
  "getSerialConsistency e = ifUndefined3 (qo_serialConsistency (eo_queryOptions e)) (pf_serialConsistency (eo_profile e))
     (qo_serialConsistency (cl_queryOptions (eo_client e)))"

text \<open>The other getters read a field of the object or of the request.\<close>

abbreviation "getLoadBalancingPolicy e \<equiv> pf_loadBalancing (eo_profile e)"
abbreviation "getKeyspace e \<equiv> eo_keyspace e"
abbreviation "getTimestamp e \<equiv> qo_timestamp (eo_queryOptions e)"

text \<open>
  \<open>getOrGenerateTimestamp\<close>: a \<open>Long\<close> or null, with the state of the client's generator after the call. The two
  numbers are the clock readings the generator makes.
\<close>

definition as_long :: "'l long_ops \<Rightarrow> 'l timestamp \<Rightarrow> 'l" where
  "as_long L t = (case t of TsNumber n \<Rightarrow> long_fromNumber L n | TsLong l \<Rightarrow> l)"

definition getOrGenerateTimestamp :: "'l long_ops \<Rightarrow> 'l execution_options \<Rightarrow> int \<Rightarrow> int \<Rightarrow> 'l option \<times> generator option" where
  "getOrGenerateTimestamp L e now logNow =
     (let g = cl_timestampGeneration (eo_client e)
      in case getTimestamp e of
           Some TsNull \<Rightarrow> (None, g)
         | Some (TsGiven t) \<Rightarrow> (Some (as_long L t), g)
         | None \<Rightarrow>
             (case g of
                None \<Rightarrow> (None, None)
              | Some gen \<Rightarrow>
                  if supportsTimestamp (cl_protocolVersion (eo_client e))
                  then let (t, _, gen') = next_timestamp L gen now logNow in (Some (as_long L t), Some gen')
                  else (None, g)))"

subsection \<open>The native layer\<close>

text \<open>
  \<open>queryOptionsIntoWrapper\<close>. It reads \<open>counter\<close>, \<open>keyspace\<close>, \<open>logged\<close>, \<open>prepare\<close> and \<open>traceQuery\<close> as properties of the
  object, which has no property of these names: its fields begin with an underscore and its getters have other names.
  They are \<open>undefined\<close>.
\<close>

definition rust_timestamp_of :: "'l long_bits \<Rightarrow> 'l ts_arg option \<Rightarrow> rust_timestamp option" where
  "rust_timestamp_of B t = (case t of
       None \<Rightarrow> None
     | Some TsNull \<Rightarrow> Some RtNull
     | Some (TsGiven (TsLong l)) \<Rightarrow> Some (RtBigInt (longToBigint B l))
     | Some (TsGiven (TsNumber n)) \<Rightarrow> Some (if n \<noteq> 0 then RtBigInt n else RtNumber 0))"

definition queryOptionsIntoWrapper :: "'l long_bits \<Rightarrow> 'l execution_options \<Rightarrow> rust_options" where
  "queryOptionsIntoWrapper B e =
     \<lparr>ro_autoPage = isAutoPage e, ro_captureStackTrace = getCaptureStackTrace e, ro_consistency = getConsistency e, ro_counter = None,
      ro_fetchSize = getFetchSize e, ro_isIdempotent = isIdempotent e, ro_keyspace = None, ro_logged = None, ro_prepare = None,
      ro_readTimeout = getReadTimeout e, ro_routingIndexes = eo_routingIndexes e, ro_routingNames = qo_routingNames (eo_queryOptions e),
      ro_serialConsistency = getSerialConsistency e, ro_timestamp = rust_timestamp_of B (getTimestamp e), ro_traceQuery = None\<rparr>"

definition wrapOptionsIfNotWrappedYet :: "'l long_bits \<Rightarrow> 'l execution_options \<Rightarrow> 'l execution_options" where
  "wrapOptionsIfNotWrappedYet B e = (if eo_rustWrapper e = None then e\<lparr>eo_rustWrapper := Some (queryOptionsIntoWrapper B e)\<rparr> else e)"

definition getRustOptions :: "'l long_bits \<Rightarrow> 'l execution_options \<Rightarrow> 'l execution_options \<times> rust_options" where
  "getRustOptions B e = (let e' = wrapOptionsIfNotWrappedYet B e in (e', the (eo_rustWrapper e')))"

text \<open>The calls a client makes on the options of an execution: the setters, and reading the options for the native layer.\<close>

datatype options_op =
    SetCustomPayload "payload option"
  | SetHints "ref option"
  | SetKeyspace "string option"
  | SetPageState "buffer option"
  | SetRoutingIndexes "nat list option"
  | SetRoutingKey "buffer list option"
  | ReadRustOptions

fun apply_op :: "'l long_bits \<Rightarrow> options_op \<Rightarrow> 'l execution_options \<Rightarrow> 'l execution_options \<times> rust_options list" where
  "apply_op B (SetCustomPayload p) e = (e\<lparr>eo_customPayload := p\<rparr>, [])"
| "apply_op B (SetHints h) e = (e\<lparr>eo_hints := h\<rparr>, [])"
| "apply_op B (SetKeyspace k) e = (e\<lparr>eo_keyspace := k\<rparr>, [])"
| "apply_op B (SetPageState s) e = (e\<lparr>eo_pageState := s\<rparr>, [])"
| "apply_op B (SetRoutingIndexes r) e = (e\<lparr>eo_routingIndexes := r\<rparr>, [])"
| "apply_op B (SetRoutingKey k) e = (e\<lparr>eo_routingKey := k\<rparr>, [])"
| "apply_op B ReadRustOptions e = (let (e', r) = getRustOptions B e in (e', [r]))"

fun apply_ops :: "'l long_bits \<Rightarrow> options_op list \<Rightarrow> 'l execution_options \<Rightarrow> 'l execution_options \<times> rust_options list" where
  "apply_ops B [] e = (e, [])"
| "apply_ops B (x # xs) e = (let (e1, r1) = apply_op B x e; (e2, r2) = apply_ops B xs e1 in (e2, r1 @ r2))"

section \<open>What the manager promises\<close>

lemma first_index_Some: "first_index P xs = Some i \<Longrightarrow> i < length xs \<and> P (xs ! i)"
  by (induction xs arbitrary: i) (auto split: if_splits)

lemma names_update: "pf_name p = pf_name (xs ! i) \<Longrightarrow> map pf_name (xs[i := p]) = map pf_name xs"
proof (cases "i < length xs")
  case True
  assume "pf_name p = pf_name (xs ! i)"
  then have "map pf_name (xs[i := p]) = (map pf_name xs)[i := map pf_name xs ! i]" using True by (simp add: map_update)
  then show ?thesis by simp
qed (simp add: list_update_beyond)

text \<open>The invariant of the loop: the first \<open>k\<close> profiles have been registered.\<close>

definition registered :: "profile list \<Rightarrow> nat \<Rightarrow> nat \<Rightarrow> profile_manager \<Rightarrow> bool" where
  "registered ps d k m \<longleftrightarrow> map pf_name (pm_profiles m) = map pf_name ps \<and> pm_default m = d \<and> pm_profiles m ! d = ps ! d \<and>
     distinct (pm_policies m) \<and> (\<forall>j < k. \<exists>l \<in> set (pm_policies m). pf_loadBalancing (pm_profiles m ! j) = Some l) \<and>
     (\<forall>n. case map_of (pm_map m) n of None \<Rightarrow> \<forall>j < k. pf_name (ps ! j) \<noteq> n | Some i \<Rightarrow> i < k \<and> pf_name (ps ! i) = n)"

lemma registered_length: "registered ps d k m \<Longrightarrow> length (pm_profiles m) = length ps"
  unfolding registered_def by (metis length_map)

lemma registered_name: "registered ps d k m \<Longrightarrow> i < length ps \<Longrightarrow> pf_name (pm_profiles m ! i) = pf_name (ps ! i)"
proof -
  assume r: "registered ps d k m" and i: "i < length ps"
  have "map pf_name (pm_profiles m) ! i = map pf_name ps ! i" using r by (simp add: registered_def)
  then show ?thesis using i registered_length[OF r] by simp
qed

lemma register_step:
  assumes r: "registered ps d k m" and k: "k < length ps" and d: "d < length ps" "pf_loadBalancing (ps ! d) = Some l"
  shows "registered ps d (Suc k) (register_profile k m)"
proof -
  let ?p = "pm_profiles m ! k"
  have len: "length (pm_profiles m) = length ps" by (rule registered_length[OF r])
  have def_lb: "pf_loadBalancing (pm_profiles m ! pm_default m) = Some l" using r d(2) by (simp add: registered_def)
  obtain x where x: "or_else (pf_loadBalancing ?p) (pf_loadBalancing (pm_profiles m ! pm_default m)) = Some x"
    using def_lb by (cases "pf_loadBalancing ?p") (auto simp: or_else_def)
  define m' where "m' = register_profile k m"
  have m': "pm_profiles m' = (pm_profiles m)[k := ?p\<lparr>pf_loadBalancing := Some x\<rparr>]" "pm_default m' = pm_default m"
    "pm_policies m' = (if x \<in> set (pm_policies m) then pm_policies m else pm_policies m @ [x])"
    "pm_map m' = AList.update (pf_name ?p) k (pm_map m)"
    using x by (simp_all add: m'_def register_profile_def Let_def)
  have names: "map pf_name (pm_profiles m') = map pf_name ps"
    using r by (simp add: m' registered_def names_update)
  have dflt: "pm_profiles m' ! d = ps ! d"
  proof (cases "k = d")
    case True
    then have "x = l" using x r d(2) by (simp add: registered_def or_else_def)
    then show ?thesis using True r k len d(2) by (simp add: m' registered_def)
  next
    case False
    then show ?thesis using r by (simp add: m' registered_def)
  qed
  have pols: "\<forall>j < Suc k. \<exists>l \<in> set (pm_policies m'). pf_loadBalancing (pm_profiles m' ! j) = Some l"
    using r k len by (auto simp: m' registered_def nth_list_update less_Suc_eq)
  have maps: "case map_of (pm_map m') n of None \<Rightarrow> \<forall>j < Suc k. pf_name (ps ! j) \<noteq> n | Some i \<Rightarrow> i < Suc k \<and> pf_name (ps ! i) = n" for n
  proof -
    have "case map_of (pm_map m) n of None \<Rightarrow> \<forall>j < k. pf_name (ps ! j) \<noteq> n | Some i \<Rightarrow> i < k \<and> pf_name (ps ! i) = n"
      using r by (simp add: registered_def)
    moreover have "pf_name ?p = pf_name (ps ! k)" by (rule registered_name[OF r k])
    ultimately show ?thesis by (auto simp: m' update_conv' less_Suc_eq split: option.splits if_splits)
  qed
  show ?thesis using r names dflt pols maps unfolding m'_def[symmetric] by (simp add: registered_def m')
qed

lemma register_all:
  assumes "d < length ps" "pf_loadBalancing (ps ! d) = Some l" "k \<le> length ps"
  shows "registered ps d k (fold register_profile [0..<k] \<lparr>pm_profiles = ps, pm_default = d, pm_defaultRetry = r, pm_policies = [], pm_map = []\<rparr>)"
  using assms(3)
proof (induction k)
  case 0
  then show ?case by (simp add: registered_def)
next
  case (Suc k)
  then show ?case using register_step[OF Suc.IH _ assms(1,2)] by simp
qed

lemma setDefault_ok:
  assumes "setDefault lb retry ps = (ps', d, r)"
  shows "d < length ps'" "pf_name (ps' ! d) = ''default''" "pf_loadBalancing (ps' ! d) \<noteq> None" "pf_retry (ps' ! d) \<noteq> None"
    "map pf_name ps' = map pf_name ps \<or> map pf_name ps' = map pf_name ps @ [''default''] \<and> ''default'' \<notin> set (map pf_name ps)"
proof -
  have none: "first_index P xs = None \<longleftrightarrow> (\<forall>x \<in> set xs. \<not> P x)" for P and xs :: "profile list" by (induction xs) auto
  have upd: "map pf_name (xs[i := (xs ! i)\<lparr>pf_loadBalancing := a, pf_retry := b\<rparr>]) = map pf_name xs" for xs i a b
    by (rule names_update) simp
  from assms show "d < length ps'" "pf_name (ps' ! d) = ''default''" "pf_loadBalancing (ps' ! d) \<noteq> None" "pf_retry (ps' ! d) \<noteq> None"
    by (auto simp: setDefault_def Let_def or_else_def bare_profile_def nth_append dest: first_index_Some split: option.splits)
  from assms show "map pf_name ps' = map pf_name ps \<or> map pf_name ps' = map pf_name ps @ [''default''] \<and> ''default'' \<notin> set (map pf_name ps)"
    by (auto simp: setDefault_def Let_def upd none bare_profile_def split: option.splits)
qed

text \<open>
  C40: A profile manager gives every profile a load-balancing policy, of a list that has each policy once; its default
  profile is named \<open>default\<close> and has a retry policy. A profile found by a name is one of that name, a name is not found
  only if no profile has it, and unless two profiles have the same name the profile of a request that names none is the
  default one.
\<close>

theorem profile_manager_complete:
  assumes "m = new_profile_manager lb retry (Some ps)"
  shows "distinct (pm_policies m) \<and> (\<forall>p \<in> set (pm_profiles m). \<exists>l \<in> set (pm_policies m). pf_loadBalancing p = Some l) \<and>
         pf_name (getDefault m) = ''default'' \<and> pf_retry (getDefault m) \<noteq> None \<and>
         (\<forall>n. n \<noteq> [] \<longrightarrow> (case getProfile m (ByName n) of
            None \<Rightarrow> n \<notin> pf_name ` set (pm_profiles m) | Some p \<Rightarrow> p \<in> set (pm_profiles m) \<and> pf_name p = n)) \<and>
         (distinct (map pf_name ps) \<longrightarrow> getProfile m NoName = Some (getDefault m))"
proof -
  obtain ps' d r where sd: "setDefault lb retry ps = (ps', d, r)" by (cases "setDefault lb retry ps") auto
  note ok = setDefault_ok[OF sd]
  obtain l where l: "pf_loadBalancing (ps' ! d) = Some l" using ok(3) by auto
  have reg: "registered ps' d (length ps') m"
    using register_all[OF ok(1) l order_refl, of r] sd assms by (simp add: new_profile_manager_def)
  have len: "length (pm_profiles m) = length ps'" by (rule registered_length[OF reg])
  have name: "pf_name (pm_profiles m ! i) = pf_name (ps' ! i)" if "i < length ps'" for i by (rule registered_name[OF reg that])
  have dm: "pm_default m = d" "pm_profiles m ! d = ps' ! d" using reg by (simp_all add: registered_def)
  have look: "case map_of (pm_map m) n of None \<Rightarrow> \<forall>j < length ps'. pf_name (ps' ! j) \<noteq> n | Some i \<Rightarrow> i < length ps' \<and> pf_name (ps' ! i) = n" for n
    using reg by (simp add: registered_def)
  have "\<exists>x \<in> set (pm_policies m). pf_loadBalancing p = Some x" if "p \<in> set (pm_profiles m)" for p
    using that reg len by (auto simp: registered_def in_set_conv_nth)
  moreover have "case getProfile m (ByName n) of None \<Rightarrow> n \<notin> pf_name ` set (pm_profiles m) | Some p \<Rightarrow> p \<in> set (pm_profiles m) \<and> pf_name p = n"
    if "n \<noteq> []" for n
  proof (cases "map_of (pm_map m) n")
    case None
    then have "\<forall>j < length ps'. pf_name (ps' ! j) \<noteq> n" using look[of n] by simp
    then have "n \<notin> pf_name ` set (pm_profiles m)" using name len by (metis (mono_tags, lifting) imageE in_set_conv_nth)
    then show ?thesis using None that by (simp add: getProfile_def)
  next
    case (Some i)
    then show ?thesis using look[of n] that name[of i] len by (simp add: getProfile_def)
  qed
  moreover have "getProfile m NoName = Some (getDefault m)" if "distinct (map pf_name ps)"
  proof -
    have "distinct (map pf_name ps')" using ok(5) that by auto
    moreover obtain i where i: "map_of (pm_map m) ''default'' = Some i" "i < length ps'" "pf_name (ps' ! i) = ''default''"
      using look[of "''default''"] ok(1,2) by (auto split: option.splits)
    ultimately have "i = d" using ok(1,2) by (simp add: distinct_conv_nth) metis
    then show ?thesis using i(1) dm by (simp add: getProfile_def getDefault_def)
  qed
  ultimately show ?thesis using reg ok(2,4) dm by (simp add: registered_def getDefault_def)
qed

definition example_profiles :: "profile list" where
  "example_profiles = [(bare_profile ''reads'')\<lparr>pf_loadBalancing := Some 5\<rparr>]"

theorem profile_manager_complete_witness:
  "getProfile (new_profile_manager 1 2 (Some example_profiles)) NoName = Some (getDefault (new_profile_manager 1 2 (Some example_profiles)))"
proof -
  have "distinct (map pf_name example_profiles)" by (simp add: example_profiles_def)
  then show ?thesis using profile_manager_complete[OF refl, of 1 2 example_profiles] by blast
qed

text \<open>With two profiles of the name \<open>default\<close> the manager's default is the first, and a request that names none gets the second.\<close>

lemma two_defaults:
  "let m = new_profile_manager 1 2 (Some [(bare_profile ''default'')\<lparr>pf_loadBalancing := Some 5\<rparr>, (bare_profile ''default'')\<lparr>pf_loadBalancing := Some 6\<rparr>])
   in getDefaultLoadBalancing m = Some 5 \<and> map_option pf_loadBalancing (getProfile m NoName) = Some (Some 6)"
  by code_simp

text \<open>The distance of a host is the least its policies give, or ignored.\<close>

lemma closest_least: "dist_rank (closest dist ls d) \<le> dist_rank d \<and> (\<forall>l \<in> set ls. dist_rank (closest dist ls d) \<le> dist_rank (dist l)) \<and>
   closest dist ls d \<in> insert d (dist ` set ls)"
proof (induction ls arbitrary: d)
  case (Cons l ls)
  from Cons.IH[of "dist l"] Cons.IH[of d] show ?case by (cases "dist l") (auto intro: less_imp_le order_trans)
qed simp

section \<open>What reaches the native layer\<close>

lemma wrapped_reads:
  "eo_rustWrapper e = Some r \<Longrightarrow> apply_ops B ops e = (e', rs) \<Longrightarrow> set rs \<subseteq> {r}"
proof (induction ops arbitrary: e rs e')
  case (Cons x xs)
  obtain e1 r1 where 1: "apply_op B x e = (e1, r1)" by (cases "apply_op B x e")
  obtain e2 r2 where 2: "apply_ops B xs e1 = (e2, r2)" by (cases "apply_ops B xs e1")
  have "eo_rustWrapper e1 = Some r \<and> set r1 \<subseteq> {r}"
    using 1 Cons.prems(1) by (cases x) (auto simp: getRustOptions_def wrapOptionsIfNotWrappedYet_def Let_def)
  then show ?case using Cons.IH[OF _ 2] Cons.prems(2) 1 2 by auto
qed simp

text \<open>The routing indexes the last call of their setter before the first reading left.\<close>

fun routing_at_first_read :: "options_op list \<Rightarrow> nat list option \<Rightarrow> nat list option" where
  "routing_at_first_read (ReadRustOptions # ops) r = r"
| "routing_at_first_read (SetRoutingIndexes r' # ops) r = routing_at_first_read ops r'"
| "routing_at_first_read (_ # ops) r = routing_at_first_read ops r"
| "routing_at_first_read [] r = r"

text \<open>The part of the options the wrapper is made of.\<close>

definition wrapper_of :: "'l long_bits \<Rightarrow> 'l query_options \<Rightarrow> profile \<Rightarrow> 'l client \<Rightarrow> nat list option \<Rightarrow> rust_options" where
  "wrapper_of B q p c r =
     \<lparr>ro_autoPage = ifUndefined (qo_autoPage q) (qo_autoPage (cl_queryOptions c)),
      ro_captureStackTrace = ifUndefined (qo_captureStackTrace q) (qo_captureStackTrace (cl_queryOptions c)),
      ro_consistency = ifUndefined3 (qo_consistency q) (pf_consistency p) (qo_consistency (cl_queryOptions c)),
      ro_counter = None, ro_fetchSize = ifUndefined (qo_fetchSize q) (qo_fetchSize (cl_queryOptions c)),
      ro_isIdempotent = ifUndefined (qo_isIdempotent q) (qo_isIdempotent (cl_queryOptions c)),
      ro_keyspace = None, ro_logged = None, ro_prepare = None,
      ro_readTimeout = ifUndefined3 (qo_readTimeout q) (pf_readTimeout p) (cl_readTimeout c),
      ro_routingIndexes = r, ro_routingNames = qo_routingNames q,
      ro_serialConsistency = ifUndefined3 (qo_serialConsistency q) (pf_serialConsistency p) (qo_serialConsistency (cl_queryOptions c)),
      ro_timestamp = rust_timestamp_of B (qo_timestamp q), ro_traceQuery = None\<rparr>"

lemma queryOptionsIntoWrapper_eq: "queryOptionsIntoWrapper B e = wrapper_of B (eo_queryOptions e) (eo_profile e) (eo_client e) (eo_routingIndexes e)"
  by (simp add: queryOptionsIntoWrapper_def wrapper_of_def isAutoPage_def getCaptureStackTrace_def getConsistency_def getFetchSize_def
      isIdempotent_def getReadTimeout_def getSerialConsistency_def)

lemma first_read:
  "eo_rustWrapper e = None \<Longrightarrow> apply_ops B ops e = (e', rs) \<Longrightarrow>
   set rs \<subseteq> {wrapper_of B (eo_queryOptions e) (eo_profile e) (eo_client e) (routing_at_first_read ops (eo_routingIndexes e))}"
proof (induction ops arbitrary: e rs e')
  case (Cons x xs)
  obtain e1 r1 where 1: "apply_op B x e = (e1, r1)" by (cases "apply_op B x e")
  obtain e2 r2 where 2: "apply_ops B xs e1 = (e2, r2)" by (cases "apply_ops B xs e1")
  have rs: "rs = r1 @ r2" using Cons.prems(2) 1 2 by simp
  show ?case
  proof (cases "x = ReadRustOptions")
    case True
    then have "eo_rustWrapper e1 = Some (queryOptionsIntoWrapper B e)" "r1 = [queryOptionsIntoWrapper B e]"
      using 1 Cons.prems(1) by (auto simp: getRustOptions_def wrapOptionsIfNotWrappedYet_def Let_def)
    then show ?thesis using wrapped_reads[OF _ 2] rs True by (auto simp: queryOptionsIntoWrapper_eq)
  next
    case False
    then have "r1 = []" "eo_rustWrapper e1 = None" "eo_queryOptions e1 = eo_queryOptions e" "eo_profile e1 = eo_profile e"
      "eo_client e1 = eo_client e" "routing_at_first_read (x # xs) (eo_routingIndexes e) = routing_at_first_read xs (eo_routingIndexes e1)"
      using 1 Cons.prems(1) by (cases x; auto)+
    then show ?thesis using Cons.IH[OF _ 2] rs by simp
  qed
qed simp

text \<open>
  C20: Whatever calls are made on the options of an execution, each time they are read for the native layer they are the
  same. The consistency, the serial consistency and the read timeout are those of the request, else those of its
  profile, else those of the client; the paging, the stack traces, the fetch size and the idempotence are those of the
  request, else those of the client; the timestamp and the routing names are those of the request only, and the routing
  indexes are those at the first reading. The native layer never gets the keyspace, nor \<open>logged\<close>, \<open>counter\<close>, \<open>prepare\<close>
  or \<open>traceQuery\<close>, whatever the request asks for.
\<close>

theorem native_options:
  assumes "create_options (Some q) c cb = Inr e" "getProfile (cl_profileManager c) (qo_executionProfile q) = Some p"
    and "apply_ops B ops e = (e', rs)" "r \<in> set rs"
  shows "ro_consistency r = ifUndefined3 (qo_consistency q) (pf_consistency p) (qo_consistency (cl_queryOptions c)) \<and>
         ro_serialConsistency r = ifUndefined3 (qo_serialConsistency q) (pf_serialConsistency p) (qo_serialConsistency (cl_queryOptions c)) \<and>
         ro_readTimeout r = ifUndefined3 (qo_readTimeout q) (pf_readTimeout p) (cl_readTimeout c) \<and>
         ro_autoPage r = ifUndefined (qo_autoPage q) (qo_autoPage (cl_queryOptions c)) \<and>
         ro_captureStackTrace r = ifUndefined (qo_captureStackTrace q) (qo_captureStackTrace (cl_queryOptions c)) \<and>
         ro_fetchSize r = ifUndefined (qo_fetchSize q) (qo_fetchSize (cl_queryOptions c)) \<and>
         ro_isIdempotent r = ifUndefined (qo_isIdempotent q) (qo_isIdempotent (cl_queryOptions c)) \<and>
         ro_timestamp r = rust_timestamp_of B (qo_timestamp q) \<and> ro_routingNames r = qo_routingNames q \<and>
         ro_routingIndexes r = routing_at_first_read ops (qo_routingIndexes q) \<and>
         ro_keyspace r = None \<and> ro_logged r = None \<and> ro_counter r = None \<and> ro_prepare r = None \<and> ro_traceQuery r = None"
proof -
  have "eo_rustWrapper e = None" "eo_queryOptions e = q" "eo_profile e = p" "eo_client e = c" "eo_routingIndexes e = qo_routingIndexes q"
    using assms(1,2) by (auto simp: create_options_def Let_def)
  then have "r = wrapper_of B q p c (routing_at_first_read ops (qo_routingIndexes q))"
    using first_read[OF _ assms(3)] assms(4) by auto
  then show ?thesis by (simp add: wrapper_of_def)
qed

definition example_client :: "64 word client" where
  "example_client = \<lparr>cl_queryOptions = emptyOptions\<lparr>qo_consistency := Some 10\<rparr>, cl_profileManager = new_profile_manager 1 2 None,
     cl_readTimeout = Some 12000, cl_retry = 2, cl_timestampGeneration = None, cl_protocolVersion = 4\<rparr>"

definition example_request :: "64 word query_options" where
  "example_request = emptyOptions\<lparr>qo_keyspace := Some ''ks1'', qo_prepare := Some True, qo_fetchSize := Some 20\<rparr>"

theorem native_options_witness:
  "\<exists>r. snd (apply_ops word64_bits [SetRoutingIndexes (Some [1]), ReadRustOptions] (projr (create_options (Some example_request) example_client None))) = [r] \<and>
     ro_consistency r = Some 10 \<and> ro_fetchSize r = Some 20 \<and> ro_readTimeout r = Some 12000 \<and> ro_routingIndexes r = Some [1] \<and> ro_keyspace r = None"
proof -
  let ?p = "bare_profile ''default''\<lparr>pf_loadBalancing := Some 1, pf_retry := Some 2\<rparr>"
  let ?ops = "[SetRoutingIndexes (Some [1]), ReadRustOptions]"
  have p: "getProfile (cl_profileManager example_client) (qo_executionProfile example_request) = Some ?p" by code_simp
  then obtain e where e: "create_options (Some example_request) example_client None = Inr e" by (auto simp: create_options_def Let_def)
  obtain r e' where r: "apply_ops word64_bits ?ops e = (e', [r])" by (simp add: getRustOptions_def Let_def)
  show ?thesis using native_options[OF e p r, of r] r e
    by (simp add: example_request_def example_client_def emptyOptions_def bare_profile_def ifUndefined_def ifUndefined3_def)
qed

end
