(* ===== verification/Client_Options.thy ===== *)
theory Client_Options
  imports Utils_Collections Uuid Protocol_Version
begin

text \<open>
  The options of a client (\<^verbatim>\<open>src/lib/client-options.js\<close>): the user's object is merged into the defaults by
  \<open>deepExtend\<close> of \<^verbatim>\<open>src/lib/utils.js\<close>, validated, completed once the protocol version is known, and handed to the native layer.
  The values a user can give are dynamic, so the model has a type of option values.
\<close>

section \<open>Option values\<close>

text \<open>
  A function carries the names of the functions of its prototype, an instance of a class the names of its classes.
  \<open>OObject\<close> is an anonymous object. The own properties have distinct names. A number is an integer, a fraction
  \<open>m / 2 ^ (k + 1)\<close> with an odd \<open>m\<close>, an infinity with its sign, or \<open>NaN\<close>.
\<close>

datatype optval =
    OUndefined
  | ONull
  | OBoolean bool
  | ONumber int
  | OFraction int nat
  | OInfinity bool
  | ONaN
  | OText string
  | OUuid buffer
  | OArray "optval list"
  | OFunction "string list"
  | OObject "(string \<times> optval) list"
  | OInstance "string list" "(string \<times> optval) list"

type_synonym props = "(string \<times> optval) list"

fun o_truthy :: "optval \<Rightarrow> bool" where
  "o_truthy OUndefined = False"
| "o_truthy ONull = False"
| "o_truthy (OBoolean b) = b"
| "o_truthy (ONumber n) = (n \<noteq> 0)"
| "o_truthy ONaN = False"
| "o_truthy (OText s) = (s \<noteq> [])"
| "o_truthy _ = True"

definition o_get :: "props \<Rightarrow> string \<Rightarrow> optval" where
  "o_get ps k = (case map_of ps k of None \<Rightarrow> OUndefined | Some v \<Rightarrow> v)"

fun own :: "optval \<Rightarrow> props" where
  "own (OObject ps) = ps"
| "own (OInstance cs ps) = ps"
| "own (OArray vs) = zip (map show_nat [0..<length vs]) vs"
| "own (OText s) = zip (map show_nat [0..<length s]) (map (\<lambda>c. OText [c]) s)"
| "own _ = []"

fun instance_of :: "string \<Rightarrow> optval \<Rightarrow> bool" where
  "instance_of c (OInstance cs ps) \<longleftrightarrow> c \<in> set cs"
| "instance_of c _ \<longleftrightarrow> False"

fun is_text :: "optval \<Rightarrow> bool" where
  "is_text (OText s) = True"
| "is_text _ = False"

fun is_array :: "optval \<Rightarrow> bool" where
  "is_array (OArray vs) = True"
| "is_array _ = False"

text \<open>\<open>typeof v === 'object'\<close> and \<open>v !== null\<close>.\<close>

fun is_object :: "optval \<Rightarrow> bool" where
  "is_object (OObject ps) = True"
| "is_object (OInstance cs ps) = True"
| "is_object (OArray vs) = True"
| "is_object (OUuid b) = True"
| "is_object _ = False"

section \<open>Merging\<close>

lemma map_of_size: "map_of target k = Some (OObject tp) \<Longrightarrow>
   size_list (size_prod (\<lambda>_. 0) size) tp < size_list (size_prod (\<lambda>_. 0) size) target"
  by (induction target) (auto split: if_splits)

text \<open>
  One source of \<open>deepExtend\<close>: a property of the target that is an anonymous object is extended in its turn, every other one
  is replaced. The inner call begins with an empty object, into which an anonymous object is copied.
\<close>

function deep_extend :: "props \<Rightarrow> props \<Rightarrow> props" where
  "deep_extend target src =
     foldl (\<lambda>t kv. AList.update (fst kv)
              (case map_of target (fst kv) of
                 Some (OObject tp) \<Rightarrow> OObject (deep_extend tp (own (snd kv)))
               | _ \<Rightarrow> snd kv) t)
       target src"
  by pat_completeness auto

termination by (relation "measure (\<lambda>(t, s). size_list (size_prod (\<lambda>_. 0) size) t)") (auto simp: map_of_size)

declare deep_extend.simps [simp del]

definition deepExtend :: "props \<Rightarrow> props list \<Rightarrow> props" where
  "deepExtend target sources = foldl deep_extend target sources"

section \<open>Defaults\<close>

definition defaultOptions :: props where
  "defaultOptions =
     [(''policies'', OObject
         [(''addressResolution'', OInstance [''AddressTranslator''] []),
          (''loadBalancing'', OInstance [''DefaultLoadBalancingPolicy'', ''LoadBalancingPolicy''] []),
          (''reconnection'', OInstance [''ExponentialReconnectionPolicy'', ''ReconnectionPolicy''] []),
          (''retry'', OInstance [''RetryPolicy''] []),
          (''speculativeExecution'', OInstance [''NoSpeculativeExecutionPolicy'', ''SpeculativeExecutionPolicy''] []),
          (''timestampGeneration'', OInstance [''MonotonicTimestampGenerator'', ''TimestampGenerator''] [])]),
      (''queryOptions'', OObject
         [(''fetchSize'', ONumber 5000), (''prepare'', OBoolean False), (''captureStackTrace'', OBoolean False), (''paged'', OBoolean True)]),
      (''protocolOptions'', OObject
         [(''port'', ONumber 9042), (''maxSchemaAgreementWaitSeconds'', ONumber 10), (''maxVersion'', ONumber 0), (''noCompact'', OBoolean False)]),
      (''pooling'', OObject [(''heartBeatInterval'', ONumber 30000), (''warmup'', OBoolean True)]),
      (''socketOptions'', OObject
         [(''connectTimeout'', ONumber 5000), (''defunctReadTimeoutThreshold'', ONumber 64), (''keepAlive'', OBoolean True),
          (''keepAliveDelay'', ONumber 0), (''readTimeout'', ONumber 12000), (''tcpNoDelay'', OBoolean True),
          (''coalescingThreshold'', ONumber 65536)]),
      (''authProvider'', ONull),
      (''requestTracker'', ONull),
      (''metrics'', OInstance [''DefaultMetrics'', ''ClientMetrics''] []),
      (''maxPrepared'', ONull),
      (''refreshSchemaDelay'', ONumber 1000),
      (''isMetadataSyncEnabled'', OBoolean True),
      (''prepareOnAllHosts'', OBoolean True),
      (''rePrepareOnUp'', OBoolean True),
      (''encoding'', OObject [(''copyBuffer'', OBoolean True), (''useUndefinedAsUnset'', OBoolean True)]),
      (''monitorReporting'', OObject [(''enabled'', OBoolean True)])]"

section \<open>Validation\<close>

definition ensure :: "bool \<Rightarrow> js_error \<Rightarrow> unit result" where
  "ensure b e = (if b then Inr () else Inl e)"

fun all_ok :: "unit result list \<Rightarrow> unit result" where
  "all_ok [] = Inr ()"
| "all_ok (r # rs) = bind_result r (\<lambda>_. all_ok rs)"

definition validatePoliciesOptions :: "optval \<Rightarrow> unit result" where
  "validatePoliciesOptions policiesOptions =
     (let g = o_get (own policiesOptions)
      in all_ok
           [ensure (o_truthy policiesOptions) TypeError,
            ensure (instance_of ''LoadBalancingPolicy'' (g ''loadBalancing'')) TypeError,
            ensure (instance_of ''ReconnectionPolicy'' (g ''reconnection'')) TypeError,
            ensure (instance_of ''RetryPolicy'' (g ''retry'')) TypeError,
            ensure (instance_of ''AddressTranslator'' (g ''addressResolution'')) TypeError,
            ensure (g ''timestampGeneration'' = ONull \<or> instance_of ''TimestampGenerator'' (g ''timestampGeneration'')) TypeError])"

fun supported_version :: "optval \<Rightarrow> bool" where
  "supported_version (ONumber n) = isSupported n"
| "supported_version _ = False"

definition validateProtocolOptions :: "optval \<Rightarrow> unit result" where
  "validateProtocolOptions protocolOptions =
     (let version = o_get (own protocolOptions) ''maxVersion''
      in all_ok [ensure (o_truthy protocolOptions) TypeError, ensure (\<not> o_truthy version \<or> supported_version version) TypeError])"

fun is_number :: "optval \<Rightarrow> bool" where
  "is_number (ONumber n) = True"
| "is_number (OFraction m k) = True"
| "is_number (OInfinity neg) = True"
| "is_number ONaN = True"
| "is_number _ = False"

text \<open>The comparison \<open>v <= 0\<close> of a number; with \<open>NaN\<close> it is false.\<close>

fun le_zero :: "optval \<Rightarrow> bool" where
  "le_zero (ONumber n) = (n \<le> 0)"
| "le_zero (OFraction m k) = (m \<le> 0)"
| "le_zero (OInfinity neg) = neg"
| "le_zero _ = False"

definition validateSocketOptions :: "optval \<Rightarrow> unit result" where
  "validateSocketOptions socketOptions =
     (let threshold = o_get (own socketOptions) ''coalescingThreshold''
      in all_ok [ensure (o_truthy socketOptions) TypeError, ensure (is_number (o_get (own socketOptions) ''readTimeout'')) TypeError,
                 ensure (\<not> (\<not> is_number threshold \<or> le_zero threshold)) TypeError])"

text \<open>The provider is set if there is neither one nor credentials.\<close>

definition validateAuthenticationOptions :: "props \<Rightarrow> props result" where
  "validateAuthenticationOptions options =
     (let provider = o_get options ''authProvider''; credentials = o_get options ''credentials''
      in if \<not> o_truthy provider
         then if o_truthy credentials
              then bind_result (ensure (is_text (o_get (own credentials) ''username'') \<and> is_text (o_get (own credentials) ''password'')) TypeError)
                     (\<lambda>_. Inr options)
              else Inr (AList.update ''authProvider'' (OInstance [''NoAuthProvider'', ''AuthProvider''] []) options)
         else bind_result (ensure (instance_of ''AuthProvider'' provider) TypeError) (\<lambda>_. Inr options))"

fun has_methods :: "string list \<Rightarrow> optval \<Rightarrow> bool" where
  "has_methods ms (OFunction names) \<longleftrightarrow> set ms \<subseteq> set names"
| "has_methods ms _ \<longleftrightarrow> False"

text \<open>The engine has BigInt, so the last check of the encoding options never fails.\<close>

definition validateEncodingOptions :: "optval \<Rightarrow> unit result" where
  "validateEncodingOptions encodingOptions =
     (let m = o_get (own encodingOptions) ''map''; s = o_get (own encodingOptions) ''set''
      in all_ok [ensure (\<not> o_truthy m \<or> has_methods [''forEach'', ''set''] m) TypeError,
                 ensure (\<not> o_truthy s \<or> has_methods [''forEach'', ''add''] s) TypeError])"

fun is_uuid :: "optval \<Rightarrow> bool" where
  "is_uuid (OUuid b) = True"
| "is_uuid _ = False"

definition missing :: "optval \<Rightarrow> bool" where
  "missing v \<longleftrightarrow> v = OUndefined \<or> v = ONull"

definition validateApplicationInfo :: "props \<Rightarrow> unit result" where
  "validateApplicationInfo options =
     all_ok [ensure (missing (o_get options ''applicationName'') \<or> is_text (o_get options ''applicationName'')) TypeError,
             ensure (missing (o_get options ''applicationVersion'') \<or> is_text (o_get options ''applicationVersion'')) TypeError,
             ensure (missing (o_get options ''id'') \<or> is_uuid (o_get options ''id'')) TypeError]"

definition validateMonitorReporting :: "props \<Rightarrow> unit result" where
  "validateMonitorReporting options = ensure (is_object (o_get options ''monitorReporting'')) TypeError"

fun valid_contacts :: "optval \<Rightarrow> bool" where
  "valid_contacts (OArray hs) \<longleftrightarrow> hs \<noteq> [] \<and> list_all o_truthy hs"
| "valid_contacts _ \<longleftrightarrow> False"

text \<open>
  The checks of \<open>extend\<close> in the order of the code. In between, \<open>sni\<close>, \<open>logEmitter\<close>, \<open>authProvider\<close> and \<open>encoding\<close> are set.
\<close>

definition extend_options :: "props \<Rightarrow> props \<Rightarrow> props result" where
  "extend_options baseOptions userOptions =
     (let o0 = deepExtend baseOptions [defaultOptions, userOptions];
          o1 = AList.update ''sni'' OUndefined o0;
          o2 = (if o_truthy (o_get o1 ''logEmitter'') then o1 else AList.update ''logEmitter'' (OFunction []) o1)
      in bind_result (all_ok
           [ensure (\<not> o_truthy (o_get o0 ''cloud'')) ReferenceError,
            ensure (valid_contacts (o_get o0 ''contactPoints'')) TypeError,
            ensure (o_truthy (o_get o2 ''queryOptions'')) TypeError,
            ensure (o_get o2 ''requestTracker'' = ONull \<or> instance_of ''RequestTracker'' (o_get o2 ''requestTracker'')) TypeError,
            ensure (instance_of ''ClientMetrics'' (o_get o2 ''metrics'')) TypeError,
            validatePoliciesOptions (o_get o2 ''policies''),
            validateProtocolOptions (o_get o2 ''protocolOptions''),
            validateSocketOptions (o_get o2 ''socketOptions'')])
         (\<lambda>_. bind_result (validateAuthenticationOptions o2)
         (\<lambda>o3. let o4 = (if o_truthy (o_get o3 ''encoding'') then o3 else AList.update ''encoding'' (OObject []) o3)
               in bind_result (all_ok
                    [validateEncodingOptions (o_get o4 ''encoding''),
                     ensure (\<not> o_truthy (o_get o4 ''profiles'') \<or> is_array (o_get o4 ''profiles'')) TypeError,
                     validateApplicationInfo o4,
                     validateMonitorReporting o4])
                  (\<lambda>_. Inr o4))))"

section \<open>After the validation\<close>

definition coreConnectionsPerHostV2 :: props where
  "coreConnectionsPerHostV2 = [(''0'', ONumber 2), (''1'', ONumber 1), (''2'', ONumber 0)]"

definition coreConnectionsPerHostV3 :: props where
  "coreConnectionsPerHostV3 = [(''0'', ONumber 1), (''1'', ONumber 1), (''2'', ONumber 0)]"

definition maxRequestsPerConnectionV2 :: int where "maxRequestsPerConnectionV2 = 128"
definition maxRequestsPerConnectionV3 :: int where "maxRequestsPerConnectionV3 = 2048"

text \<open>\<open>setMetadataDependent\<close>, given the protocol version and whether the cluster is a hosted one.\<close>

definition setMetadataDependent :: "int \<Rightarrow> bool \<Rightarrow> props \<Rightarrow> props" where
  "setMetadataDependent version isDbaas options =
     (let core = (if \<not> uses2BytesStreamIds version then coreConnectionsPerHostV2 else coreConnectionsPerHostV3);
          max_requests = (if \<not> uses2BytesStreamIds version then maxRequestsPerConnectionV2 else maxRequestsPerConnectionV3);
          q = o_get options ''queryOptions'';
          q' = (if o_get (own q) ''consistency'' = OUndefined
                then OObject (AList.update ''consistency'' (ONumber (if isDbaas then 6 else 10)) (own q)) else q)
      in AList.update ''pooling''
           (OObject (deepExtend [] [[(''coreConnectionsPerHost'', OObject core), (''maxRequestsPerConnection'', ONumber max_requests)],
                                    own (o_get options ''pooling'')]))
           (AList.update ''queryOptions'' q' options))"

record session_options =
  so_connectPoints :: optval
  so_applicationName :: optval
  so_applicationVersion :: optval
  so_clientId :: optval
  so_keyspace :: optval
  so_cacheSize :: optval
  so_credentialsUsername :: optval
  so_credentialsPassword :: optval
  so_sslOptions :: optval

fun id_text :: "optval \<Rightarrow> optval" where
  "id_text (OUuid b) = OText (uuid_toString b)"
| "id_text v = v"

text \<open>The credentials of \<open>setRustOptions\<close>: those of the options, else those of a plain-text provider.\<close>

definition rust_credentials :: "props \<Rightarrow> (optval \<times> optval) result" where
  "rust_credentials options =
     (let credentials = o_get options ''credentials''; provider = o_get options ''authProvider''
      in if o_truthy credentials then Inr (o_get (own credentials) ''username'', o_get (own credentials) ''password'')
         else if \<not> o_truthy provider then Inr (OUndefined, OUndefined)
         else if instance_of ''PlainTextAuthProvider'' provider then Inr (o_get (own provider) ''username'', o_get (own provider) ''password'')
         else if instance_of ''NoAuthProvider'' provider then Inr (OUndefined, OUndefined)
         else Inl ArgumentError)"

text \<open>The options, in which an identifier becomes its text, and the object for the native layer.\<close>

definition setRustOptions :: "props \<Rightarrow> (props \<times> session_options) result" where
  "setRustOptions options =
     bind_result (rust_credentials options)
       (\<lambda>(user, password). Inr
          (if is_uuid (o_get options ''id'') then AList.update ''id'' (id_text (o_get options ''id'')) options else options,
           \<lparr>so_connectPoints = o_get options ''contactPoints'', so_applicationName = o_get options ''applicationName'',
            so_applicationVersion = o_get options ''applicationVersion'', so_clientId = id_text (o_get options ''id''),
            so_keyspace = o_get options ''keyspace'',
            so_cacheSize = (if o_truthy (o_get options ''maxPrepared'') then o_get options ''maxPrepared'' else OUndefined),
            so_credentialsUsername = user, so_credentialsPassword = password,
            so_sslOptions = (if o_truthy (o_get options ''sslOptions'') then o_get options ''sslOptions'' else OUndefined)\<rparr>))"

section \<open>What merging does\<close>

lemma map_of_foldl_update:
  "distinct (map fst src) \<Longrightarrow> map_of (foldl (\<lambda>t kv. AList.update (fst kv) (f kv) t) t src) k =
     (case map_of src k of None \<Rightarrow> map_of t k | Some v \<Rightarrow> Some (f (k, v)))"
proof (induction src arbitrary: t)
  case (Cons kv src)
  have "map_of src k = None" if "k = fst kv" using Cons.prems that by (auto simp: map_of_eq_None_iff)
  then show ?case using Cons by (auto simp: update_conv' split: option.split)
qed simp

lemma deep_extend_lookup:
  "distinct (map fst src) \<Longrightarrow> map_of (deep_extend t src) k =
     (case map_of src k of
        None \<Rightarrow> map_of t k
      | Some v \<Rightarrow> Some (case map_of t k of Some (OObject tp) \<Rightarrow> OObject (deep_extend tp (own v)) | _ \<Rightarrow> v))"
  unfolding deep_extend.simps[of t src] by (simp add: map_of_foldl_update cong: option.case_cong optval.case_cong)

lemma update_append: "k \<notin> fst ` set t \<Longrightarrow> AList.update k v t = t @ [(k, v)]"
  by (induction t) auto

lemma deep_extend_empty: "distinct (map fst src) \<Longrightarrow> deep_extend [] src = src"
proof -
  have "distinct (map fst (t @ src)) \<Longrightarrow> foldl (\<lambda>t kv. AList.update (fst kv) (snd kv) t) t src = t @ src" for t
  proof (induction src arbitrary: t)
    case (Cons kv src)
    then show ?case by (simp add: update_append)
  qed simp
  then show "distinct (map fst src) \<Longrightarrow> ?thesis" by (simp add: deep_extend.simps)
qed

text \<open>The option at a key of a section.\<close>

definition option_at :: "props \<Rightarrow> string \<Rightarrow> string \<Rightarrow> optval" where
  "option_at ps s k = o_get (own (o_get ps s)) k"

definition option_sections :: "string list" where
  "option_sections = [''policies'', ''queryOptions'', ''protocolOptions'', ''pooling'', ''socketOptions'', ''encoding'', ''monitorReporting'']"

fun props_distinct :: "optval \<Rightarrow> bool" where
  "props_distinct (OObject ps) \<longleftrightarrow> distinct (map fst ps)"
| "props_distinct (OInstance cs ps) \<longleftrightarrow> distinct (map fst ps)"
| "props_distinct _ \<longleftrightarrow> True"

lemma own_distinct: "props_distinct v \<Longrightarrow> distinct (map fst (own v))"
proof -
  have "inj show_nat" by (rule inj_on_inverseI[where g = "digits_value 10"]) (simp add: digits_value_show)
  then have "distinct (map show_nat [0..<n])" for n by (simp add: distinct_map inj_on_def inj_def)
  then show "props_distinct v \<Longrightarrow> ?thesis" by (cases v) simp_all
qed

fun anonymous :: "optval \<Rightarrow> bool" where
  "anonymous (OObject ps) = True"
| "anonymous _ = False"

lemma default_section:
  assumes "s \<in> set option_sections"
  shows "\<exists>ps. map_of defaultOptions s = Some (OObject ps) \<and> list_all (\<lambda>kv. \<not> anonymous (snd kv)) ps"
proof -
  have "list_all (\<lambda>s. case map_of defaultOptions s of Some (OObject ps) \<Rightarrow> list_all (\<lambda>kv. \<not> anonymous (snd kv)) ps | _ \<Rightarrow> False) option_sections"
    by code_simp
  then have "case map_of defaultOptions s of Some (OObject ps) \<Rightarrow> list_all (\<lambda>kv. \<not> anonymous (snd kv)) ps | _ \<Rightarrow> False"
    using assms by (simp add: list_all_iff)
  then show ?thesis by (auto split: option.splits optval.splits)
qed

text \<open>
  C39: In the merged options every section of the defaults is an object, whatever the user gives for it; an option of a
  section is the user's if the user's section has it, even if it is undefined, and the default otherwise.
\<close>

theorem extend_merges:
  assumes "distinct (map fst user)" "props_distinct (o_get user s)" "s \<in> set option_sections"
  shows "(\<exists>ps. o_get (deepExtend [] [defaultOptions, user]) s = OObject ps) \<and>
         option_at (deepExtend [] [defaultOptions, user]) s k =
           (case map_of (own (o_get user s)) k of Some v \<Rightarrow> v | None \<Rightarrow> option_at defaultOptions s k)"
proof -
  obtain ps where ps: "map_of defaultOptions s = Some (OObject ps)" "list_all (\<lambda>kv. \<not> anonymous (snd kv)) ps"
    using default_section[OF assms(3)] by blast
  have merged: "deepExtend [] [defaultOptions, user] = deep_extend defaultOptions user"
    using deep_extend_empty[of defaultOptions] by (simp add: deepExtend_def) (simp add: defaultOptions_def)
  have scalar: "map_of ps k \<noteq> Some (OObject x)" for x using ps(2) by (fastforce simp: list_all_iff dest!: map_of_SomeD)
  have sec: "o_get (deep_extend defaultOptions user) s = OObject (deep_extend ps (own (o_get user s)))"
  proof (cases "map_of user s")
    case None
    then show ?thesis using ps(1) assms(1) by (simp add: o_get_def deep_extend_lookup) (simp add: deep_extend.simps)
  next
    case (Some v)
    then show ?thesis using ps(1) assms(1) by (simp add: o_get_def deep_extend_lookup)
  qed
  have "o_get (deep_extend ps (own (o_get user s))) k = (case map_of (own (o_get user s)) k of Some v \<Rightarrow> v | None \<Rightarrow> o_get ps k)"
    using scalar own_distinct[OF assms(2)] by (auto simp: o_get_def deep_extend_lookup split: option.split optval.split)
  moreover have "option_at defaultOptions s k = o_get ps k" using ps(1) by (simp add: option_at_def o_get_def)
  ultimately show ?thesis using sec unfolding merged
    by (simp add: option_at_def[of "deep_extend defaultOptions user"] cong: option.case_cong)
qed

definition example_user :: props where
  "example_user = [(''contactPoints'', OArray [OText ''127.0.0.1'']), (''policies'', ONull),
     (''socketOptions'', OObject [(''readTimeout'', ONumber 0)])]"

theorem extend_merges_witness:
  "option_at (deepExtend [] [defaultOptions, example_user]) ''socketOptions'' ''readTimeout'' = ONumber 0"
  using extend_merges[of example_user "''socketOptions''" "''readTimeout''"]
  by (simp add: example_user_def option_sections_def o_get_def)

section \<open>What the validation promises\<close>

lemma all_ok_Inr [simp]: "all_ok rs = Inr u \<longleftrightarrow> (\<forall>r \<in> set rs. r = Inr ())"
proof (induction rs)
  case (Cons r rs)
  then show ?case by (cases r) auto
qed simp

lemma ensure_Inr [simp]: "ensure b e = Inr u \<longleftrightarrow> b"
  by (simp add: ensure_def)

lemma ensure_Inl [simp]: "ensure b e = Inl e' \<longleftrightarrow> \<not> b \<and> e' = e"
  by (auto simp: ensure_def)

lemma all_ok_Inl: "all_ok rs = Inl e \<Longrightarrow> Inl e \<in> set rs"
proof (induction rs)
  case (Cons r rs)
  then show ?case by (cases r) auto
qed simp

lemma o_get_update [simp]: "o_get (AList.update k v ps) k' = (if k' = k then v else o_get ps k')"
  by (simp add: o_get_def update_conv')

lemma bind_result_Inl: "bind_result r f = Inl e \<longleftrightarrow> r = Inl e \<or> (\<exists>x. r = Inr x \<and> f x = Inl e)"
  by (cases r) auto

lemmas validation_defs = validatePoliciesOptions_def validateProtocolOptions_def validateSocketOptions_def validateEncodingOptions_def
  validateApplicationInfo_def validateMonitorReporting_def

lemma auth_validated:
  assumes "validateAuthenticationOptions ps = Inr qs"
  shows "(instance_of ''AuthProvider'' (o_get qs ''authProvider'') \<or>
          is_text (option_at qs ''credentials'' ''username'') \<and> is_text (option_at qs ''credentials'' ''password'')) \<and>
         (\<forall>k. k \<noteq> ''authProvider'' \<longrightarrow> o_get qs k = o_get ps k)"
  using assms by (auto simp: validateAuthenticationOptions_def Let_def option_at_def split: if_splits)

lemma extend_options_Inr:
  assumes "extend_options base user = Inr ps"
  shows "valid_contacts (o_get ps ''contactPoints'')" "\<not> o_truthy (o_get ps ''cloud'')"
    "o_get ps ''requestTracker'' = ONull \<or> instance_of ''RequestTracker'' (o_get ps ''requestTracker'')"
    "instance_of ''ClientMetrics'' (o_get ps ''metrics'')"
    "validatePoliciesOptions (o_get ps ''policies'') = Inr ()" "validateProtocolOptions (o_get ps ''protocolOptions'') = Inr ()"
    "validateSocketOptions (o_get ps ''socketOptions'') = Inr ()" "validateEncodingOptions (o_get ps ''encoding'') = Inr ()"
    "\<not> o_truthy (o_get ps ''profiles'') \<or> is_array (o_get ps ''profiles'')" "validateApplicationInfo ps = Inr ()"
    "validateMonitorReporting ps = Inr ()" "o_truthy (o_get ps ''logEmitter'')"
    "instance_of ''AuthProvider'' (o_get ps ''authProvider'') \<or>
       is_text (option_at ps ''credentials'' ''username'') \<and> is_text (option_at ps ''credentials'' ''password'')"
proof -
  define o0 where "o0 = deepExtend base [defaultOptions, user]"
  define o1 where "o1 = AList.update ''sni'' OUndefined o0"
  define o2 where "o2 = (if o_truthy (o_get o1 ''logEmitter'') then o1 else AList.update ''logEmitter'' (OFunction []) o1)"
  have o2: "o_get o2 k = (if k = ''sni'' then OUndefined else if k = ''logEmitter'' \<and> \<not> o_truthy (o_get o0 k) then OFunction [] else o_get o0 k)" for k
    by (auto simp: o2_def o1_def)
  note checks = assms[unfolded extend_options_def Let_def, folded o0_def, folded o1_def, folded o2_def]
  obtain o3 where o3: "validateAuthenticationOptions o2 = Inr o3" using checks by auto
  define o4 where "o4 = (if o_truthy (o_get o3 ''encoding'') then o3 else AList.update ''encoding'' (OObject []) o3)"
  note auth = auth_validated[OF o3]
  have o4: "o_get o4 k = (if k = ''encoding'' \<and> \<not> o_truthy (o_get o3 k) then OObject [] else o_get o3 k)" for k
    by (auto simp: o4_def)
  have ps: "ps = o4" using checks o3 by (simp add: o4_def)
  have eq: "o_get ps k = o_get o2 k" if "k \<noteq> ''authProvider''" "k \<noteq> ''encoding''" for k using auth that by (simp add: ps o4)
  show "valid_contacts (o_get ps ''contactPoints'')" "\<not> o_truthy (o_get ps ''cloud'')"
    using checks by (simp_all add: eq o2)
  show "o_get ps ''requestTracker'' = ONull \<or> instance_of ''RequestTracker'' (o_get ps ''requestTracker'')"
    "instance_of ''ClientMetrics'' (o_get ps ''metrics'')"
    "validatePoliciesOptions (o_get ps ''policies'') = Inr ()" "validateProtocolOptions (o_get ps ''protocolOptions'') = Inr ()"
    "validateSocketOptions (o_get ps ''socketOptions'') = Inr ()"
    using checks by (simp_all add: eq)
  show "o_truthy (o_get ps ''logEmitter'')" by (simp add: eq o2)
  show "validateEncodingOptions (o_get ps ''encoding'') = Inr ()" "\<not> o_truthy (o_get ps ''profiles'') \<or> is_array (o_get ps ''profiles'')"
    "validateApplicationInfo ps = Inr ()" "validateMonitorReporting ps = Inr ()"
    using checks o3 by (simp_all add: o4_def[symmetric] ps)
  show "instance_of ''AuthProvider'' (o_get ps ''authProvider'') \<or>
       is_text (option_at ps ''credentials'' ''username'') \<and> is_text (option_at ps ''credentials'' ''password'')"
    using conjunct1[OF auth] by (simp add: ps o4 option_at_def)
qed

text \<open>The numbers above zero.\<close>

fun positive :: "optval \<Rightarrow> bool" where
  "positive (ONumber n) = (n > 0)"
| "positive (OFraction m k) = (m > 0)"
| "positive (OInfinity neg) = (\<not> neg)"
| "positive _ = False"


definition example_options :: props where
  "example_options = projr (extend_options [] example_user)"

lemma example_extended: "extend_options [] example_user = Inr example_options"
proof -
  have "\<not> isl (extend_options [] example_user)" by code_simp
  then show ?thesis by (simp add: example_options_def)
qed


lemma nan_threshold_accepted:
  "validateSocketOptions (OObject [(''readTimeout'', ONumber 0), (''coalescingThreshold'', ONaN)]) = Inr ()"
  by (simp add: validateSocketOptions_def ensure_def o_get_def)

text \<open>
  C38: The validation fails with a \<open>TypeError\<close>, or with the error for the options of a cloud if there are any. Options it
  accepts are handed to the native layer with their contact points and their client id, which is missing (undefined or
  null) or a text, unless they have a provider of another class than the two that are supported and no credentials,
  which is an error of the arguments.
\<close>

theorem extend_then_rust:
  shows "(\<forall>e. extend_options base user = Inl e \<longrightarrow>
            e = TypeError \<or> e = ReferenceError \<and> o_truthy (o_get (deepExtend base [defaultOptions, user]) ''cloud'')) \<and>
         (\<forall>ps. extend_options base user = Inr ps \<longrightarrow>
            (case setRustOptions ps of
               Inr (ps', so) \<Rightarrow> so_connectPoints so = o_get ps ''contactPoints'' \<and> (missing (so_clientId so) \<or> is_text (so_clientId so)) \<and>
                                so_clientId so = o_get ps' ''id''
             | Inl e \<Rightarrow> e = ArgumentError \<and> \<not> o_truthy (o_get ps ''credentials'') \<and>
                        \<not> instance_of ''PlainTextAuthProvider'' (o_get ps ''authProvider'') \<and>
                        \<not> instance_of ''NoAuthProvider'' (o_get ps ''authProvider'')))"
proof (intro conjI allI impI)
  fix e
  assume "extend_options base user = Inl e"
  then show "e = TypeError \<or> e = ReferenceError \<and> o_truthy (o_get (deepExtend base [defaultOptions, user]) ''cloud'')"
    by (auto simp: extend_options_def Let_def bind_result_Inl validation_defs validateAuthenticationOptions_def
        dest!: all_ok_Inl split: if_splits)
next
  fix ps
  assume a: "extend_options base user = Inr ps"
  have id: "missing (id_text (o_get ps ''id'')) \<or> is_text (id_text (o_get ps ''id''))"
    using extend_options_Inr(10)[OF a] by (cases "o_get ps ''id''") (auto simp: validation_defs missing_def)
  have same: "id_text v = v" if "\<not> is_uuid v" for v using that by (cases v) auto
  show "case setRustOptions ps of
          Inr (ps', so) \<Rightarrow> so_connectPoints so = o_get ps ''contactPoints'' \<and> (missing (so_clientId so) \<or> is_text (so_clientId so)) \<and>
                           so_clientId so = o_get ps' ''id''
        | Inl e \<Rightarrow> e = ArgumentError \<and> \<not> o_truthy (o_get ps ''credentials'') \<and>
                   \<not> instance_of ''PlainTextAuthProvider'' (o_get ps ''authProvider'') \<and> \<not> instance_of ''NoAuthProvider'' (o_get ps ''authProvider'')"
    using id same by (auto simp: setRustOptions_def rust_credentials_def Let_def)
qed

theorem extend_then_rust_witness:
  "(case setRustOptions example_options of Inr (ps', so) \<Rightarrow> so_connectPoints so = o_get example_options ''contactPoints'' | Inl e \<Rightarrow> False)"
proof -
  have "\<not> isl (setRustOptions example_options)" by code_simp
  then show ?thesis using extend_then_rust[of "[]" example_user] example_extended by (auto split: sum.splits)
qed

end
