(* ===== verification/Routing_Key.thy ===== *)
theory Routing_Key
  imports Encoder
begin

text \<open>
  Routing keys (\<^verbatim>\<open>src/lib/encoder.js\<close>): \<open>setRoutingKeyFromUser\<close> and \<open>setRoutingKeyFromMeta\<close> build the partition key of a request
  out of its encoded parameters, which the token of the request is computed from. A key of several parts is a composite:
  each part with its 16-bit length before and a zero byte after it, written into a buffer of fresh memory, whose content is
  an argument.
\<close>

section \<open>The options a routing key is set in\<close>

text \<open>
  The routing key as the user gives it: nothing, a buffer, a token or a range, an array of parts, of which some may be
  missing, or something else.
\<close>

datatype routing_value = NoRoutingKey | KeyBuffer buffer | KeyToken | KeyParts "buffer option list" | KeyInvalid

record routing_options =
  rt_key :: routing_value
  rt_indexes :: "nat option list option"
  rt_names :: "string list option"
  rt_hints :: "type_arg list option"

section \<open>Concatenation\<close>

text \<open>Copying bytes into a buffer at an offset; what does not fit is left out.\<close>

definition put_bytes :: "buffer \<Rightarrow> nat \<Rightarrow> buffer \<Rightarrow> buffer" where
  "put_bytes buf off bs = take off buf @ take (length buf - off) bs @ drop (off + length bs) buf"

fun concat_parts :: "buffer list \<Rightarrow> buffer \<Rightarrow> nat \<Rightarrow> buffer result" where
  "concat_parts [] buf off = Inr buf"
| "concat_parts (item # items) buf off =
     bind_result (if off + 2 \<le> length buf then writeUIntBE 2 (int (length item)) else Inl RangeError)
       (\<lambda>len. concat_parts items
          (put_bytes (put_bytes (put_bytes buf off len) (off + 2) item) (off + 2 + length item) [0])
          (off + 2 + length item + 1))"

definition concatRoutingKey :: "(nat \<Rightarrow> buffer) \<Rightarrow> buffer list \<Rightarrow> nat \<Rightarrow> buffer option result" where
  "concatRoutingKey mem parts len_total =
     (if len_total = 0 then Inr None
      else case parts of
             [p] \<Rightarrow> Inr (Some p)
           | _ \<Rightarrow> bind_result (concat_parts parts (mem len_total) 0) (\<lambda>k. Inr (Some k)))"

definition set_key :: "buffer option \<Rightarrow> routing_options \<Rightarrow> routing_options" where
  "set_key k opts = opts\<lparr>rt_key := (case k of None \<Rightarrow> NoRoutingKey | Some b \<Rightarrow> KeyBuffer b)\<rparr>"

section \<open>Encoding the parts\<close>

text \<open>
  \<open>_encodeRoutingKeyParts\<close>: the total length and the parts; a length of 0 for an index that is missing or a parameter that
  has no bytes.
\<close>

fun encodeRoutingKeyParts :: "(nat \<Rightarrow> encoded result) \<Rightarrow> nat option list \<Rightarrow> nat \<Rightarrow> buffer list \<Rightarrow> (nat \<times> buffer list) result" where
  "encodeRoutingKeyParts encodeParam [] len_total parts = Inr (len_total, parts)"
| "encodeRoutingKeyParts encodeParam (None # idx) len_total parts = Inr (0, parts)"
| "encodeRoutingKeyParts encodeParam (Some i # idx) len_total parts =
     bind_result (encodeParam i) (\<lambda>item. case item of
       EBytes b \<Rightarrow> encodeRoutingKeyParts encodeParam idx (len_total + length b + 3) (parts @ [b])
     | _ \<Rightarrow> Inr (0, parts))"

text \<open>The common end of the two operations; an error of the encoding is caught and leaves the options as they are.\<close>

definition set_from_parts :: "(nat \<Rightarrow> buffer) \<Rightarrow> (nat \<Rightarrow> encoded result) \<Rightarrow> nat option list \<Rightarrow> routing_options \<Rightarrow> routing_options result" where
  "set_from_parts mem encodeParam routingIndexes opts =
     (case encodeRoutingKeyParts encodeParam routingIndexes 0 [] of
        Inl e \<Rightarrow> Inr opts
      | Inr (len_total, parts) \<Rightarrow>
          if len_total = 0 then Inr opts
          else bind_result (concatRoutingKey mem parts len_total) (\<lambda>k. Inr (set_key k opts)))"

definition at_or :: "'a \<Rightarrow> 'a list \<Rightarrow> nat \<Rightarrow> 'a" where
  "at_or d xs i = (if i < length xs then xs ! i else d)"

definition setRoutingKeyFromMeta ::
  "(nat \<Rightarrow> buffer) \<Rightarrow> 'l encoder \<Rightarrow> type_arg list \<Rightarrow> 'l jsval list \<Rightarrow> routing_options \<Rightarrow> routing_options result" where
  "setRoutingKeyFromMeta mem E columns params opts =
     (case rt_indexes opts of
        None \<Rightarrow> Inr opts
      | Some idx \<Rightarrow> set_from_parts mem (\<lambda>i. encode E (at_or JUndefined params i) (at_or NoType columns i)) idx opts)"

text \<open>The parts the user gave; \<open>None\<close> for a missing one.\<close>

definition user_parts_length :: "buffer list \<Rightarrow> nat" where
  "user_parts_length ps = sum_list (map (\<lambda>p. length p + 3) ps)"

text \<open>
  With names for the parameters (\<open>keys\<close>) a parameter is a record with its value, and the routing names give the indexes;
  names without keys raise.
\<close>

definition named_indexes :: "(string \<times> nat) list option \<Rightarrow> routing_options \<Rightarrow> nat option list option result" where
  "named_indexes keys opts =
     (case rt_names opts of
        None \<Rightarrow> Inr (rt_indexes opts)
      | Some ns \<Rightarrow>
          (case keys of
             None \<Rightarrow> if ns = [] then Inr (Some []) else Inl TypeError
           | Some ks \<Rightarrow> Inr (Some (map (map_of ks) ns))))"

text \<open>Without a parameter at an index, reading its value raises if there are keys; the error is caught.\<close>

definition encode_user_param :: "'l encoder \<Rightarrow> (string \<times> nat) list option \<Rightarrow> type_arg list \<Rightarrow> 'l jsval list \<Rightarrow> nat \<Rightarrow> encoded result" where
  "encode_user_param E keys hints params i =
     (if keys \<noteq> None \<and> i \<ge> length params then Inl TypeError else encode E (at_or JUndefined params i) (at_or NoType hints i))"

definition setRoutingKeyFromUser ::
  "(nat \<Rightarrow> buffer) \<Rightarrow> 'l encoder \<Rightarrow> 'l jsval list option \<Rightarrow> (string \<times> nat) list option \<Rightarrow> routing_options \<Rightarrow> routing_options result" where
  "setRoutingKeyFromUser mem E params keys opts =
     (case rt_key opts of
        KeyParts [p] \<Rightarrow> Inr (set_key p opts)
      | KeyParts ps \<Rightarrow>
          if None \<in> set ps then Inr (set_key None opts)
          else bind_result (concatRoutingKey mem (map the ps) (user_parts_length (map the ps))) (\<lambda>k. Inr (set_key k opts))
      | KeyBuffer b \<Rightarrow> Inr opts
      | KeyToken \<Rightarrow> Inr opts
      | KeyInvalid \<Rightarrow> Inl TypeError
      | NoRoutingKey \<Rightarrow>
          (case params of
             None \<Rightarrow> Inr opts
           | Some [] \<Rightarrow> Inr opts
           | Some vs \<Rightarrow>
               bind_result (named_indexes keys opts) (\<lambda>found. case found of
                 None \<Rightarrow> Inr opts
               | Some idx \<Rightarrow>
                   set_from_parts mem (encode_user_param E keys (case rt_hints opts of None \<Rightarrow> [] | Some hs \<Rightarrow> hs) vs) idx opts)))"

section \<open>Composite keys\<close>

text \<open>The composite format, and its reader.\<close>

definition composite_part :: "buffer \<Rightarrow> buffer" where
  "composite_part p = be_bytes 2 (int (length p)) @ p @ [0]"

definition routing_key_of :: "buffer list \<Rightarrow> buffer" where
  "routing_key_of parts = (case parts of [p] \<Rightarrow> p | _ \<Rightarrow> concat (map composite_part parts))"

function split_composite :: "buffer \<Rightarrow> buffer list option" where
  "split_composite k =
     (if k = [] then Some []
      else let n = nat (be_uint (take 2 k))
           in if length k \<ge> n + 3 \<and> k ! (n + 2) = 0 then map_option ((#) (take n (drop 2 k))) (split_composite (drop (n + 3) k)) else None)"
  by pat_completeness auto
termination by (relation "measure length") auto

declare split_composite.simps [simp del]

lemma length_composite_part [simp]: "length (composite_part p) = length p + 3"
  by (simp add: composite_part_def)

lemma writeUInt16_length: "length p < 65536 \<Longrightarrow> writeUIntBE 2 (int (length p)) = Inr (be_bytes 2 (int (length p)))"
  by (simp add: writeUIntBE_def)

lemma put_part:
  assumes "length pre = off" "length rest \<ge> length p + 3"
  shows "put_bytes (put_bytes (put_bytes (pre @ rest) off (be_bytes 2 n)) (off + 2) p) (off + 2 + length p) [0]
    = (pre @ be_bytes 2 n @ p @ [0]) @ drop (length p + 3) rest"
  using assms by (simp add: put_bytes_def eval_nat_numeral)

lemma concat_parts_eq:
  "length pre = off \<Longrightarrow> length rest = user_parts_length parts \<Longrightarrow> \<forall>p \<in> set parts. length p < 65536 \<Longrightarrow>
   concat_parts parts (pre @ rest) off = Inr (pre @ concat (map composite_part parts))"
proof (induction parts arbitrary: pre rest off)
  case Nil
  then show ?case by (simp add: user_parts_length_def)
next
  case (Cons p ps)
  have len: "length rest = length p + 3 + user_parts_length ps" using Cons.prems(2) by (simp add: user_parts_length_def)
  have "concat_parts (p # ps) (pre @ rest) off = concat_parts ps ((pre @ composite_part p) @ drop (length p + 3) rest) (off + 2 + length p + 1)"
    using Cons.prems len put_part[of pre off p rest "int (length p)"] by (simp add: writeUInt16_length composite_part_def)
  also have "\<dots> = Inr ((pre @ composite_part p) @ concat (map composite_part ps))"
    by (rule Cons.IH) (use Cons.prems len in \<open>auto simp: user_parts_length_def\<close>)
  finally show ?case by simp
qed

lemma concat_parts_long:
  "length pre = off \<Longrightarrow> length rest = user_parts_length parts \<Longrightarrow> \<exists>p \<in> set parts. length p \<ge> 65536 \<Longrightarrow>
   concat_parts parts (pre @ rest) off = Inl RangeError"
proof (induction parts arbitrary: pre rest off)
  case (Cons p ps)
  have len: "length rest = length p + 3 + user_parts_length ps" using Cons.prems(2) by (simp add: user_parts_length_def)
  show ?case
  proof (cases "length p < 65536")
    case True
    then have "concat_parts (p # ps) (pre @ rest) off = concat_parts ps ((pre @ composite_part p) @ drop (length p + 3) rest) (off + 2 + length p + 1)"
      using Cons.prems len put_part[of pre off p rest "int (length p)"] by (simp add: writeUInt16_length composite_part_def)
    also have "\<dots> = Inl RangeError"
      by (rule Cons.IH) (use Cons.prems len True in auto)
    finally show ?thesis .
  next
    case False
    then show ?thesis using Cons.prems len by (simp add: writeUIntBE_def)
  qed
qed simp

text \<open>A single part may have any length, the parts of a composite fewer than \<open>2 ^ 16\<close> bytes.\<close>

definition parts_fit :: "buffer list \<Rightarrow> bool" where
  "parts_fit parts \<longleftrightarrow> length parts = 1 \<or> (\<forall>p \<in> set parts. length p < 65536)"

lemma concatRoutingKey_eq:
  assumes "\<And>n. length (mem n) = n" "parts \<noteq> []" "parts_fit parts"
  shows "concatRoutingKey mem parts (user_parts_length parts) = Inr (Some (routing_key_of parts))"
proof -
  have "user_parts_length parts \<noteq> 0" using assms(2) by (cases parts) (simp_all add: user_parts_length_def)
  then show ?thesis
    using concat_parts_eq[of "[]" 0 "mem (user_parts_length parts)" parts] assms
    by (auto simp: concatRoutingKey_def routing_key_of_def parts_fit_def simp del: concat_parts.simps split: list.splits)
qed

lemma concatRoutingKey_long:
  assumes "\<And>n. length (mem n) = n" "parts \<noteq> []" "\<not> parts_fit parts"
  shows "concatRoutingKey mem parts (user_parts_length parts) = Inl RangeError"
proof -
  have n: "user_parts_length parts \<noteq> 0" using assms(2) by (cases parts) (simp_all add: user_parts_length_def)
  have "\<exists>p \<in> set parts. length p \<ge> 65536" "length parts \<noteq> 1" using assms(3) by (auto simp: parts_fit_def not_less)
  then show ?thesis
    using n concat_parts_long[of "[]" 0 "mem (user_parts_length parts)" parts] assms(1,2)
    by (auto simp: concatRoutingKey_def simp del: concat_parts.simps split: list.splits)
qed

lemma split_composite_part:
  assumes "length p < 65536"
  shows "split_composite (composite_part p @ k) = map_option ((#) p) (split_composite k)"
proof -
  have "be_uint (take 2 (composite_part p @ k)) = int (length p)"
    using assms by (simp add: composite_part_def be_uint_be_bytes)
  then show ?thesis
    by (subst split_composite.simps) (simp add: composite_part_def nth_append)
qed

lemma split_composite_parts: "\<forall>p \<in> set parts. length p < 65536 \<Longrightarrow> split_composite (concat (map composite_part parts)) = Some parts"
proof (induction parts)
  case Nil
  show ?case by (simp add: split_composite.simps)
next
  case (Cons p ps)
  then show ?case by (simp add: split_composite_part)
qed

section \<open>What the two operations set\<close>

text \<open>The bytes of the parameters at the indexes, if each of them has.\<close>

fun param_bytes :: "(nat \<Rightarrow> encoded result) \<Rightarrow> nat option list \<Rightarrow> buffer list option" where
  "param_bytes f [] = Some []"
| "param_bytes f (None # idx) = None"
| "param_bytes f (Some i # idx) = (case f i of Inr (EBytes b) \<Rightarrow> map_option ((#) b) (param_bytes f idx) | _ \<Rightarrow> None)"

lemma encode_parts_Some:
  "param_bytes f idx = Some bs \<Longrightarrow> encodeRoutingKeyParts f idx len_total parts = Inr (len_total + user_parts_length bs, parts @ bs)"
proof (induction f idx len_total parts arbitrary: bs rule: encodeRoutingKeyParts.induct)
  case (3 f i idx len_total parts)
  then show ?case by (auto simp: user_parts_length_def split: sum.splits encoded.splits)
qed (simp_all add: user_parts_length_def)

lemma encode_parts_None:
  "param_bytes f idx = None \<Longrightarrow> (case encodeRoutingKeyParts f idx len_total parts of Inl e \<Rightarrow> True | Inr (n, ps) \<Rightarrow> n = 0)"
proof (induction f idx len_total parts rule: encodeRoutingKeyParts.induct)
  case (3 f i idx len_total parts)
  then show ?case by (auto split: sum.splits encoded.splits)
qed simp_all

lemma set_from_parts_eq:
  assumes "\<And>n. length (mem n) = n"
  shows "param_bytes f idx = None \<or> idx = [] \<Longrightarrow> set_from_parts mem f idx opts = Inr opts"
    "param_bytes f idx = Some bs \<Longrightarrow> idx \<noteq> [] \<Longrightarrow>
     set_from_parts mem f idx opts = (if parts_fit bs then Inr (opts\<lparr>rt_key := KeyBuffer (routing_key_of bs)\<rparr>) else Inl RangeError)"
proof -
  show "param_bytes f idx = None \<or> idx = [] \<Longrightarrow> set_from_parts mem f idx opts = Inr opts"
    using encode_parts_None[of f idx 0 "[]"] by (auto simp: set_from_parts_def split: sum.splits)
next
  assume a: "param_bytes f idx = Some bs" "idx \<noteq> []"
  have "bs \<noteq> []" using a(1,2) by (cases idx; cases "hd idx") (auto split: sum.splits encoded.splits)
  moreover have "user_parts_length bs \<noteq> 0" using calculation by (cases bs) (simp_all add: user_parts_length_def)
  ultimately show "set_from_parts mem f idx opts = (if parts_fit bs then Inr (opts\<lparr>rt_key := KeyBuffer (routing_key_of bs)\<rparr>) else Inl RangeError)"
    using encode_parts_Some[OF a(1), of 0 "[]"] concatRoutingKey_eq[OF assms] concatRoutingKey_long[OF assms]
    by (simp add: set_from_parts_def set_key_def)
qed

text \<open>
  C18: The routing key of a prepared statement with routing indexes. If a parameter of the partition key cannot be encoded or
  has no bytes, the options stay as they are. Otherwise a single parameter gives its bytes, of any length, and several give the
  composite of the parts, whatever the fresh memory holds, and the composite determines the parts; but if one of several
  has \<open>2 ^ 16\<close> bytes or more, the operation raises a range error.
\<close>

theorem routing_key_from_meta:
  assumes f_def: "f = (\<lambda>i. encode E (at_or JUndefined params i) (at_or NoType columns i))"
    and "\<And>n. length (mem n) = n" "rt_indexes opts = Some idx" "idx \<noteq> []"
  shows "case param_bytes f idx of
           None \<Rightarrow> setRoutingKeyFromMeta mem E columns params opts = Inr opts
         | Some bs \<Rightarrow>
             if length bs \<ge> 2 \<and> (\<exists>b \<in> set bs. length b \<ge> 65536)
             then setRoutingKeyFromMeta mem E columns params opts = Inl RangeError
             else setRoutingKeyFromMeta mem E columns params opts = Inr (opts\<lparr>rt_key := KeyBuffer (routing_key_of bs)\<rparr>) \<and>
                  (length bs \<ge> 2 \<longrightarrow> split_composite (routing_key_of bs) = Some bs)"
proof -
  have eq: "setRoutingKeyFromMeta mem E columns params opts = set_from_parts mem f idx opts"
    using assms(3) by (simp add: setRoutingKeyFromMeta_def f_def)
  show ?thesis
  proof (cases "param_bytes f idx")
    case None
    then show ?thesis using set_from_parts_eq(1)[OF assms(2)] by (simp add: eq)
  next
    case (Some bs)
    have "bs \<noteq> []" using Some assms(4) by (cases idx; cases "hd idx") (auto split: sum.splits encoded.splits)
    then have fit: "parts_fit bs \<longleftrightarrow> \<not> (length bs \<ge> 2 \<and> (\<exists>b \<in> set bs. length b \<ge> 65536))"
      by (cases bs; cases "tl bs") (auto simp: parts_fit_def)
    have "split_composite (routing_key_of bs) = Some bs" if "length bs \<ge> 2" "parts_fit bs"
      using that split_composite_parts[of bs] by (auto simp: routing_key_of_def parts_fit_def split: list.splits)
    then show ?thesis using set_from_parts_eq(2)[OF assms(2) Some assms(4), where opts = opts] fit by (simp add: eq Some)
  qed
qed

definition example_routing :: routing_options where
  "example_routing = \<lparr>rt_key = NoRoutingKey, rt_indexes = Some [Some 1, Some 0], rt_names = None, rt_hints = None\<rparr>"

theorem routing_key_from_meta_witness:
  "\<forall>E :: 64 word encoder.
     setRoutingKeyFromMeta (\<lambda>n. replicate n 7) E [] [JScalar (SBuffer [1]), JScalar (SBuffer [2, 3])] example_routing =
       Inr (example_routing\<lparr>rt_key := KeyBuffer [0, 2, 2, 3, 0, 0, 1, 1, 0]\<rparr>)"
proof
  fix E :: "64 word encoder"
  let ?params = "[JScalar (SBuffer [1]), JScalar (SBuffer [2, 3])] :: 64 word jsval list"
  let ?f = "\<lambda>i. encode E (at_or JUndefined ?params i) (at_or NoType [] i)"
  have enc: "encode E (JScalar (SBuffer b)) a = Inr (EBytes b)" for b a
    by (simp add: encode.simps given_value_def as_buffer_def)
  have "param_bytes ?f [Some 1, Some 0] = Some [[2, 3], [1]]" by (simp add: at_or_def enc)
  then show "setRoutingKeyFromMeta (\<lambda>n. replicate n 7) E [] ?params example_routing =
      Inr (example_routing\<lparr>rt_key := KeyBuffer [0, 2, 2, 3, 0, 0, 1, 1, 0]\<rparr>)"
    using routing_key_from_meta[OF refl, where mem = "\<lambda>n. replicate n 7" and opts = example_routing and idx = "[Some 1, Some 0]"
        and E = E and params = ?params and columns = "[]"]
    by (simp add: example_routing_def routing_key_of_def composite_part_def numeral_2_eq_2)
qed

text \<open>
  The same for a request that names no key: with indexes the parts are its parameters. A key the user gives as an array of
  buffers is the composite of them, is removed if one is missing, and a part that is too long for its length raises.
\<close>

lemma routing_key_from_user_parts:
  assumes "\<And>n. length (mem n) = n" "rt_key opts = KeyParts (map Some ps)" "length ps \<ge> 2" "\<forall>p \<in> set ps. length p < 65536"
  shows "setRoutingKeyFromUser mem E params keys opts = Inr (opts\<lparr>rt_key := KeyBuffer (routing_key_of ps)\<rparr>)"
proof -
  obtain p q rest where ps: "ps = p # q # rest" using assms(3) by (cases ps; cases "tl ps") auto
  have "map the (map Some ps) = ps" by (simp add: map_idI)
  then show ?thesis
    using concatRoutingKey_eq[OF assms(1), of ps] assms(2,4) ps by (simp add: setRoutingKeyFromUser_def set_key_def comp_def parts_fit_def)
qed

end
