(* ===== verification/Spec2Isabelle.thy ===== *)
theory Spec2Isabelle
  imports Js_Prelude Mutable_Long Token_Range Varint_Bits Varint_Multiply Big_Decimal Version_Number Protocol_Version
    Timestamp_Generator Policies Inet_Address Uuid Utils_Collections Token_Metadata Utils_Async Duration Local_Date Decoder
    Mapping_Result Default_Balancing Event_Debouncer Concurrent Execution_Options Client_Options Routing_Key
begin

text \<open>
  Verification of the JavaScript library of the repository, a driver for ScyllaDB and Cassandra whose session, connections and paging are
  in Rust and whose data types, routing, policies, options and object mapper are in \<^verbatim>\<open>src/lib\<close>. The development models that JavaScript:
  every definition translates the lines of one function, method or class, keeps its branches and errors, and computes.

  \<^bold>\<open>The parts and how they interact.\<close> A client takes the user's options (\<^verbatim>\<open>client-options.js\<close>), completes each request with those of
  its profile (\<^verbatim>\<open>execution-options.js\<close>, \<^verbatim>\<open>execution-profile.js\<close>) and hands them to the native layer (\<^verbatim>\<open>query-options.js\<close>). The
  encoder (\<^verbatim>\<open>encoder.js\<close>) turns values of the classes under \<^verbatim>\<open>types\<close> into bytes and back, guided by type descriptions that are parsed
  from names, and builds routing keys. Tokens of these keys (\<^verbatim>\<open>token.js\<close>, \<^verbatim>\<open>tokenizer.js\<close>) select replicas by the metadata of the ring
  (\<^verbatim>\<open>metadata/index.js\<close>, \<^verbatim>\<open>metadata/schema-parser.js\<close>), which the policies (\<^verbatim>\<open>policies\<close>) order into query plans and retry. Schema events
  are debounced (\<^verbatim>\<open>metadata/event-debouncer.js\<close>), many requests are run by the executors of \<^verbatim>\<open>concurrent\<close>, and the mapper (\<^verbatim>\<open>mapping\<close>)
  generates and caches statements for documents.

  \<^bold>\<open>Shared theories.\<close>
  \<^item> \<open>Js_Prelude\<close>: errors as values, 32-bit operators and rounding of numbers, \<open>parseInt\<close>, digits, splitting and joining of texts, buffers;
    the collection \<open>js_bits\<close>. \<open>Node_Buffer\<close>: reading and writing integers in buffers. \<open>Comparable\<close>: the locale of a comparison that is the
    order of a key, interpreted by every \<open>compare\<close> of the library. \<open>Long_Package\<close>: the package \<open>long\<close> as a record of operations with its laws as
    a locale, interpreted on 64-bit words and on words with the flag that marks a value as unsigned; the laws of the operations that depend
    on the flag are stated for signed values only.
  \<^item> \<open>Js_Double\<close>, \<open>Js_Numerals\<close>, \<open>Js_Values\<close>: doubles, numeric texts and the dynamic values the encoder gets.

  \<^bold>\<open>Data types.\<close>
  \<^item> \<open>Mutable_Long\<close> (\<^verbatim>\<open>types/mutable-long.js\<close>): four 16-bit pieces; arithmetic and shifts refine \<open>64 word\<close>, for all well-formed values.
  \<^item> \<open>Varint\<close>, \<open>Varint_Bits\<close>, \<open>Varint_Multiply\<close> (\<^verbatim>\<open>types/integer.js\<close>): two's complement integers of any length; buffers, arithmetic and
    bitwise operations agree with \<open>int\<close>, shifts for counts below \<open>2 ^ 31\<close>, where \<open>numBits >> 5\<close> does not wrap; multiplication is exact under a stated bound, and a counterexample shows the bound matters.
    \<open>Big_Decimal\<close> (\<^verbatim>\<open>types/big-decimal.js\<close>) is built on them.
  \<^item> \<open>Vint_Coding\<close>, \<open>Duration\<close>, \<open>Local_Time\<close>, \<open>Local_Date\<close>, \<open>Uuid\<close>, \<open>Inet_Address\<close>, \<open>Version_Number\<close>, \<open>Protocol_Version\<close>: the remaining classes
    under \<^verbatim>\<open>types\<close>, each with its parsers, printers and binary forms; round trips, the proleptic calendar, negotiation of versions.
  \<^item> \<open>Cql_Types\<close>, \<open>Type_Names\<close>, \<open>Class_Names\<close>: type codes, names of types in CQL and as class names, and their parsers, which read back what
    is printed.
  \<^item> \<open>Encoder_Scalars\<close>, \<open>Encoder\<close>, \<open>Decoder\<close>, \<open>Routing_Key\<close> (\<^verbatim>\<open>encoder.js\<close>): encoding by guessed or given type, decoding, and routing keys.
    The recursion over values and types is total: values and types get smaller, and a custom name is parsed at most once.

  \<^bold>\<open>Topology and policies.\<close>
  \<^item> \<open>Token_Range\<close>, \<open>Token_Metadata\<close>: tokens, ranges on the ring (a locale over the tokenizer, interpreted on Murmur3), building of the ring, and
    the replication strategies, which yield the replicas of a reference definition. Unwrapping and splitting a range keep its tokens.
  \<^item> \<open>Policies\<close>, \<open>Timestamp_Generator\<close>: retry, reconnection, speculative execution and address translation; timestamps increase.
  \<^item> \<open>Load_Balancing\<close>, \<open>Default_Balancing\<close> (\<^verbatim>\<open>policies/load-balancing.js\<close>, \<^verbatim>\<open>host.js\<close>): the iterators and generators of query plans. The locale
    \<open>query_plan\<close> says what an iterator still returns; filtering and token awareness are locales over it, with sublocales that say they are
    plans again. A plan is drained with one call more than it has hosts, and it is proved that this reaches its end. The indices of the
    round-robin plans are reset at \<open>2 ^ 53\<close> as in the code. \<open>Host.isUp\<close> of this repository raises, and so does a plan of the default policy
    as soon as it has to ask a host; that is what is proved of it, and its code behind \<open>isUp\<close>, which is not reached, is not modelled.

  \<^bold>\<open>Running requests.\<close>
  \<^item> \<open>Utils_Collections\<close>, \<open>Utils_Async\<close> (\<^verbatim>\<open>utils.js\<close>): searching, merging, shuffling, sets and the asynchronous control flow helpers, whose
    callbacks come in any order.
  \<^item> \<open>Event_Debouncer\<close>, \<open>Concurrent\<close>: step relations whose steps are the pieces of code between two waits; invariants by rule induction. The
    handlers of the debouncer are in flight until their promises settle, and each event is queued, in flight, lost to a handler that raises
    or called back once. Each parameter array of the array executor is executed once and a measure gives that it ends; the stream executor
    requests exactly the arrays the stream emits until its reading is ended.
  \<^item> \<open>Execution_Options\<close>, \<open>Client_Options\<close>: profiles, fallbacks and what reaches the native layer; merging and validation of dynamic options.

  \<^bold>\<open>Mapper.\<close>
  \<^item> \<open>Mapping_Tree\<close> (a radix tree that refines a map; the locale \<open>keyed_store\<close>), \<open>Mapping_Query\<close> (texts of statements and the scripts that bind their
    parameters), \<open>Mapping_Info\<close>, \<open>Mapping_Cache\<close>, \<open>Mapping_Selector\<close>, \<open>Mapping_Handler\<close>, \<open>Mapping_Result\<close>: from a document to its statement, through the
    cache, under interleavings of requests.

  \<^bold>\<open>What is a parameter.\<close> Code outside the repository is an argument: the package \<open>long\<close>, the clock, random numbers, name resolution, fresh memory,
  the engine's text of dates, the hosts and the results the native layer gives, the handlers and requests whose outcome is arbitrary. What is
  assumed of them is a hypothesis of the theorem that needs it, with a witness at a concrete instance.

  \<^bold>\<open>Bounds.\<close> Numbers are integers with the rounding to 53 bits and the wrap-around to 32 bits written out where the code can reach them. Texts are Latin-1.
  Loops are structural or have a measure; the only partial function is the search of the next host of a child plan (\<open>skip_until\<close>), whose
  result is proved for every plan that ends.

  \<^bold>\<open>Not modelled.\<close> \<open>Client\<close> and the Rust layer (connections, sessions, paging); the queries of the schema parser and of the metadata over the control
  connection and the classes that only hold their rows; result sets and streams, which wrap native objects; authentication, metrics and
  request logging, which emit or format; geometry and the extensions, whose operations only raise. They are I/O, plumbing of promises or data
  holders, and what the theorems above need of them are parameters.
\<close>

end
